(* ===== verification/Prelude.thy ===== *)
theory Prelude
  imports Main "HOL-Library.Char_ord" "HOL-Library.List_Lexorder"
begin

text \<open>
  Shared ground of the development: the results of fallible Python code, Python text as a
  list of code points with the string operations the sources use, insertion-ordered
  dictionaries, and the generic facts on lists the component theories rest on.
\<close>

section \<open>Results of fallible code\<close>

text \<open>
  A Python exception is a value of \<open>exn\<close>; code that may raise returns \<open>exn + 'a\<close>,
  \<open>Inl\<close> for the exception and \<open>Inr\<close> for the value.
\<close>

datatype exn =
    ValueError string
  | TypeError string
  | UnicodeError
  | LookupError string
  | RuntimeError string
  | PermissionError string
  | PermissionDenied string
  | ApiKeyAuthorizationError string
  | HTTPException nat string
  | IntegrityError string
  | OverflowError string
  | OSError string
  | FileNotFoundError string
  | RecipientPolicyChanged

type_synonym 'a result = "exn + 'a"

fun bindR :: "'e + 'a \<Rightarrow> ('a \<Rightarrow> 'e + 'b) \<Rightarrow> 'e + 'b" where
  "bindR (Inl e) f = Inl e"
| "bindR (Inr x) f = f x"

lemma bindR_Inr_iff: "bindR r f = Inr y \<longleftrightarrow> (\<exists>x. r = Inr x \<and> f x = Inr y)"
  by (cases r) auto

lemma bindR_Inl_iff:
  "bindR r f = Inl e \<longleftrightarrow> r = Inl e \<or> (\<exists>x. r = Inr x \<and> f x = Inl e)"
  by (cases r) auto

text \<open>The first exception of a Python \<open>for\<close> loop ends the loop.\<close>

fun mapR :: "('a \<Rightarrow> 'e + 'b) \<Rightarrow> 'a list \<Rightarrow> 'e + 'b list" where
  "mapR f [] = Inr []"
| "mapR f (x # xs) = bindR (f x) (\<lambda>y. bindR (mapR f xs) (\<lambda>ys. Inr (y # ys)))"

lemma mapR_Inr: "mapR f xs = Inr ys \<longleftrightarrow> list_all2 (\<lambda>x y. f x = Inr y) xs ys"
  by (induction xs arbitrary: ys) (auto simp: bindR_Inr_iff list_all2_Cons1)

section \<open>Python text\<close>

text \<open>
  A Python \<open>str\<close> is a list of code points. Text that the sources restrict to ASCII
  (identifiers, scopes, roles) is a HOL \<open>string\<close>; \<open>u\<close> reads an ASCII literal as code
  points.
\<close>

type_synonym ustr = "nat list"

definition u :: "string \<Rightarrow> ustr" where
  "u s = map of_char s"

definition is_ascii :: "nat \<Rightarrow> bool" where
  "is_ascii c \<longleftrightarrow> c < 128"

definition ascii_upper :: "nat \<Rightarrow> bool" where
  "ascii_upper c \<longleftrightarrow> 65 \<le> c \<and> c \<le> 90"

definition ascii_alnum :: "nat \<Rightarrow> bool" where
  "ascii_alnum c \<longleftrightarrow> 48 \<le> c \<and> c \<le> 57 \<or> 65 \<le> c \<and> c \<le> 90 \<or> 97 \<le> c \<and> c \<le> 122"

definition ascii_space :: "nat \<Rightarrow> bool" where
  "ascii_space c \<longleftrightarrow> 9 \<le> c \<and> c \<le> 13 \<or> 28 \<le> c \<and> c \<le> 32"

definition ascii_lower :: "nat \<Rightarrow> nat" where
  "ascii_lower c = (if ascii_upper c then c + 32 else c)"

text \<open>
  The part of the Unicode character database that CPython consults for code points from 128
  on, and the IDNA \<open>ToASCII\<close> conversion of a label with such a code point (nameprep and
  punycode), are parameters of the model; below 128 the model computes what CPython does.
\<close>

record unicode =
  u_isspace :: "nat \<Rightarrow> bool"
  u_category_C :: "nat \<Rightarrow> bool"
  u_lower :: "ustr \<Rightarrow> ustr"
  u_to_ascii :: "ustr \<Rightarrow> ustr option"

definition py_isspace :: "unicode \<Rightarrow> nat \<Rightarrow> bool" where
  "py_isspace U c = (if is_ascii c then ascii_space c else u_isspace U c)"

definition py_lower :: "unicode \<Rightarrow> ustr \<Rightarrow> ustr" where
  "py_lower U s = (if list_all is_ascii s then map ascii_lower s else u_lower U s)"

text \<open>\<open>str.strip\<close> and \<open>str.rstrip\<close> for a class of characters.\<close>

definition rstrip_by :: "('a \<Rightarrow> bool) \<Rightarrow> 'a list \<Rightarrow> 'a list" where
  "rstrip_by p xs = rev (dropWhile p (rev xs))"

definition strip_by :: "('a \<Rightarrow> bool) \<Rightarrow> 'a list \<Rightarrow> 'a list" where
  "strip_by p xs = rstrip_by p (dropWhile p xs)"

definition py_strip :: "unicode \<Rightarrow> ustr \<Rightarrow> ustr" where
  "py_strip U = strip_by (py_isspace U)"

text \<open>\<open>s.split(sep)\<close> for separators given as a class of characters.\<close>

fun split_by :: "('a \<Rightarrow> bool) \<Rightarrow> 'a list \<Rightarrow> 'a list list" where
  "split_by p [] = [[]]"
| "split_by p (c # cs) =
     (if p c then [] # split_by p cs
      else (case split_by p cs of [] \<Rightarrow> [[c]] | w # ws \<Rightarrow> (c # w) # ws))"

text \<open>\<open>sep.join(parts)\<close>.\<close>

fun join_with :: "'a \<Rightarrow> 'a list list \<Rightarrow> 'a list" where
  "join_with d [] = []"
| "join_with d [w] = w"
| "join_with d (w # v # ws) = w @ d # join_with d (v # ws)"

text \<open>
  \<open>s.encode("utf-8")\<close> fails on a surrogate; its length is what the sources check.
\<close>

definition utf8_width :: "nat \<Rightarrow> nat" where
  "utf8_width c = (if c < 128 then 1 else if c < 2048 then 2 else if c < 65536 then 3 else 4)"

definition surrogate :: "nat \<Rightarrow> bool" where
  "surrogate c \<longleftrightarrow> 55296 \<le> c \<and> c \<le> 57343"

definition utf8_len :: "ustr \<Rightarrow> nat option" where
  "utf8_len s = (if list_ex surrogate s then None else Some (sum_list (map utf8_width s)))"

text \<open>The same operations on ASCII text held as a HOL \<open>string\<close>.\<close>

definition str_strip :: "string \<Rightarrow> string" where
  "str_strip = strip_by (\<lambda>c. ascii_space (of_char c))"

definition str_lower :: "string \<Rightarrow> string" where
  "str_lower = map (\<lambda>c. char_of (ascii_lower (of_char c)))"

definition ends_with :: "'a list \<Rightarrow> 'a list \<Rightarrow> bool" where
  "ends_with s suf \<longleftrightarrow> length suf \<le> length s \<and> drop (length s - length suf) s = suf"

definition starts_with :: "'a list \<Rightarrow> 'a list \<Rightarrow> bool" where
  "starts_with s pre \<longleftrightarrow> take (length pre) s = pre"

text \<open>\<open>str.replace("Z", "+00:00")\<close>, the Zulu suffix \<open>fromisoformat\<close> does not read.\<close>

definition replace_Z :: "string \<Rightarrow> string" where
  "replace_Z s = concat (map (\<lambda>c. if c = CHR ''Z'' then ''+00:00'' else [c]) s)"

text \<open>\<open>s[:-n]\<close>.\<close>

definition drop_last :: "nat \<Rightarrow> 'a list \<Rightarrow> 'a list" where
  "drop_last n s = take (length s - n) s"

text \<open>Decimal text of an integer, as \<open>str\<close> prints it.\<close>

fun show_nat :: "nat \<Rightarrow> string" where
  "show_nat n = (if n < 10 then [char_of (48 + n)] else show_nat (n div 10) @ [char_of (48 + n mod 10)])"

declare show_nat.simps [simp del]

definition show_int :: "int \<Rightarrow> string" where
  "show_int i = (if i < 0 then CHR ''-'' # show_nat (nat (- i)) else show_nat (nat i))"

text \<open>
  \<open>int(text)\<close> for ASCII text: surrounding white space, a sign, and decimal digits that may be
  separated by single underscores. \<open>None\<close> is the \<open>ValueError\<close>.
\<close>

definition is_digit :: "char \<Rightarrow> bool" where
  "is_digit c \<longleftrightarrow> 48 \<le> (of_char c :: nat) \<and> (of_char c :: nat) \<le> 57"

fun parse_digits :: "nat \<Rightarrow> bool \<Rightarrow> string \<Rightarrow> nat option" where
  "parse_digits acc digit [] = (if digit then Some acc else None)"
| "parse_digits acc digit (c # cs) =
     (if is_digit c then parse_digits (10 * acc + (of_char c - 48)) True cs
      else if c = CHR ''_'' \<and> digit then parse_digits acc False cs
      else None)"

definition parse_int :: "string \<Rightarrow> int option" where
  "parse_int s =
     (case str_strip s of
        [] \<Rightarrow> None
      | c # cs \<Rightarrow>
          if c = CHR ''-'' then map_option (\<lambda>n. - int n) (parse_digits 0 False cs)
          else if c = CHR ''+'' then map_option int (parse_digits 0 False cs)
          else map_option int (parse_digits 0 False (c # cs)))"

text \<open>
  Values of Python's dynamic types that the sources test with \<open>isinstance\<close>; \<open>PyFloat m e\<close> is
  the finite float \<open>m / 2 ^ e\<close>, \<open>PyInf\<close> an infinity of either sign.
\<close>

datatype pyval =
    PyNone
  | PyBool bool
  | PyInt int
  | PyFloat int nat
  | PyNan
  | PyInf
  | PyStr string

text \<open>The values of \<open>json.loads\<close>; a number is kept as its text.\<close>

datatype json =
    JNull
  | JBool bool
  | JNumber string
  | JString string
  | JArray "json list"
  | JObject "(string \<times> json) list"

section \<open>Parsers of the standard library\<close>

text \<open>
  The sources read IP networks, IP addresses and ISO timestamps with the standard library's
  parsers. The parsers are parameters; their results are the values the code computes with:
  a network is its version and its first and last address, a timestamp is naive or aware
  with its instant in seconds. \<open>char_class\<close> is the membership test of a bracket
  expression in a glob, which the code refuses in stored patterns.
\<close>

record ip_network =
  net_version :: nat
  network_address :: nat
  broadcast_address :: nat

datatype py_datetime = Naive int | Aware int

record pylib =
  parse_ip_network :: "string \<Rightarrow> ip_network option"
  parse_ip_address :: "string \<Rightarrow> (nat \<times> nat) option"
  fromisoformat :: "string \<Rightarrow> py_datetime option"
  char_class :: "ustr \<Rightarrow> nat \<Rightarrow> bool"

section \<open>Generic facts\<close>

named_theorems text_simps

lemma split_by_ne [simp]: "split_by p s \<noteq> []"
  by (induction s) (auto split: list.splits)

lemma set_split_by: "\<Union> (set ` set (split_by p s)) = {c \<in> set s. \<not> p c}"
proof (induction s)
  case (Cons c cs)
  then show ?case by (cases "split_by p cs") auto
qed simp

lemma split_by_snoc:
  "split_by p (s @ [c]) =
     (if p c then split_by p s @ [[]]
      else butlast (split_by p s) @ [last (split_by p s) @ [c]])"
proof (induction s)
  case (Cons a s)
  then show ?case by (cases "split_by p s") auto
qed simp

lemma last_split_by:
  "s \<noteq> [] \<Longrightarrow> p (last s) \<Longrightarrow> last (split_by p s) = []"
  by (cases s rule: rev_cases) (simp_all add: split_by_snoc)

lemma split_by_none: "list_all (\<lambda>c. \<not> p c) s \<Longrightarrow> split_by p s = [s]"
  by (induction s) auto

lemma join_split: "join_with d (split_by (\<lambda>c. c = d) s) = s"
proof (induction s)
  case (Cons c cs)
  then show ?case
    by (cases "split_by (\<lambda>c. c = d) cs") (auto, cases "tl (split_by (\<lambda>c. c = d) cs)", auto)
qed simp

lemma rstrip_by_id: "xs = [] \<or> \<not> p (last xs) \<Longrightarrow> rstrip_by p xs = xs"
  by (cases xs rule: rev_cases) (auto simp: rstrip_by_def)

lemma strip_by_id: "list_all (\<lambda>c. \<not> p c) xs \<Longrightarrow> strip_by p xs = xs"
  by (cases xs) (auto simp: strip_by_def list_all_iff rstrip_by_id)

lemma ascii_lower_idem [simp]: "ascii_lower (ascii_lower c) = ascii_lower c"
  by (auto simp: ascii_lower_def ascii_upper_def)

lemma utf8_len_ascii: "list_all is_ascii s \<Longrightarrow> utf8_len s = Some (length s)"
  by (induction s)
    (auto simp: utf8_len_def surrogate_def is_ascii_def utf8_width_def split: if_splits)

lemma ends_with_iff: "ends_with s suf \<longleftrightarrow> (\<exists>p. s = p @ suf)"
proof
  assume "ends_with s suf"
  then have "s = take (length s - length suf) s @ suf"
    using append_take_drop_id [of "length s - length suf" s] by (simp add: ends_with_def)
  then show "\<exists>p. s = p @ suf" ..
qed (auto simp: ends_with_def)

lemma of_char_digit: "n < 10 \<Longrightarrow> of_char (char_of (48 + n :: nat)) = 48 + n"
  by (simp add: of_char_of)

lemma show_nat_digits: "\<forall>c \<in> set (show_nat n). is_digit c"
proof (induction n rule: show_nat.induct)
  case (1 n)
  then show ?case by (subst show_nat.simps) (auto simp: is_digit_def of_char_digit)
qed

lemma show_nat_nonempty: "show_nat n \<noteq> []"
  by (subst show_nat.simps) auto

lemma parse_digits_app:
  "\<forall>c \<in> set xs. is_digit c \<Longrightarrow> xs \<noteq> [] \<Longrightarrow>
   parse_digits a d (xs @ ys) =
     (case parse_digits a d xs of None \<Rightarrow> None | Some b \<Rightarrow> parse_digits b True ys)"
proof (induction xs arbitrary: a d)
  case (Cons x xs)
  then show ?case by (cases "xs = []") simp_all
qed simp

lemma parse_digits_show: "parse_digits 0 False (show_nat n) = Some n"
proof (induction n rule: show_nat.induct)
  case (1 n)
  show ?case
  proof (cases "n < 10")
    case True
    then show ?thesis by (simp add: show_nat.simps [of n] is_digit_def of_char_digit)
  next
    case False
    have "is_digit (char_of (48 + n mod 10))" by (simp add: is_digit_def of_char_digit)
    then show ?thesis
      using 1 False show_nat_digits [of "n div 10"] show_nat_nonempty [of "n div 10"]
      by (simp add: show_nat.simps [of n] parse_digits_app of_char_digit)
  qed
qed

lemma strip_by_none: "list_all (\<lambda>c. \<not> p c) s \<Longrightarrow> strip_by p s = s"
proof -
  assume a: "list_all (\<lambda>c. \<not> p c) s"
  then have "dropWhile p s = s" by (cases s) auto
  moreover from a have "dropWhile p (rev s) = rev s" by (cases s rule: rev_cases) auto
  ultimately show ?thesis by (simp add: strip_by_def rstrip_by_def)
qed

lemma digit_no_space: "is_digit c \<Longrightarrow> \<not> ascii_space (of_char c)"
  by (simp add: is_digit_def ascii_space_def)

lemma parse_int_show_int: "parse_int (show_int i) = Some i"
proof -
  have d: "\<forall>c \<in> set (show_nat n). is_digit c" "show_nat n \<noteq> []" for n
    by (rule show_nat_digits, rule show_nat_nonempty)
  have "list_all (\<lambda>c. \<not> ascii_space (of_char c)) (show_int i)"
    using d digit_no_space by (auto simp: show_int_def list_all_iff ascii_space_def)
  then have strip: "str_strip (show_int i) = show_int i" by (simp add: str_strip_def strip_by_none)
  show ?thesis
  proof (cases "i < 0")
    case True
    then show ?thesis by (simp add: parse_int_def strip) (simp add: show_int_def parse_digits_show)
  next
    case False
    obtain c cs where cs: "show_nat (nat i) = c # cs" using d(2) [of "nat i"] by (cases "show_nat (nat i)") auto
    with d(1) [of "nat i"] have "is_digit c" by simp
    then have "c \<noteq> CHR ''-''" "c \<noteq> CHR ''+''" by (auto simp: is_digit_def)
    then show ?thesis
      using False cs parse_digits_show [of "nat i"] by (simp add: parse_int_def strip) (simp add: show_int_def)
  qed
qed

lemma show_int_no_colon: "CHR '':'' \<notin> set (show_int i)"
  using show_nat_digits [of "nat i"] show_nat_digits [of "nat (- i)"]
  by (auto simp: show_int_def is_digit_def)

section \<open>State machines\<close>

text \<open>
  The contract between a component's step relation and an invariant of it: the invariant
  holds initially and every step keeps it, so it holds in every reachable state.
\<close>

locale step_system =
  fixes start :: "'s \<Rightarrow> bool" and step :: "'s \<Rightarrow> 's \<Rightarrow> bool" and inv :: "'s \<Rightarrow> bool"
  assumes start_inv: "start s \<Longrightarrow> inv s"
    and step_inv: "inv s \<Longrightarrow> step s t \<Longrightarrow> inv t"
begin

lemma reachable_inv:
  assumes "start s" and "step\<^sup>*\<^sup>* s t"
  shows "inv t"
  using assms(2)
proof induction
  case base
  show ?case using assms(1) by (rule start_inv)
next
  case (step t u)
  then show ?case using step_inv by blast
qed

end

end
