(* ===== verification/Admission.thy ===== *)
theory Admission
  imports Prelude "HOL-Library.Sublist"
begin

text \<open>
  The bounded admission protocol that \<^verbatim>\<open>src/app/db/writer.py\<close> and
  \<^verbatim>\<open>src/app/db/read_pool.py\<close> both implement: a capacity counter \<open>outstanding\<close>, a
  deque of waiters, and the locked sections that grant, consume, cancel, reject and deliver.
  The record is extensible, so that the writer and the pool are extensions of it and the
  operations here apply to both. The locale \<open>admission_accounting\<close> states what a component
  has to promise about the slots it owns beside the granted waiters, and proves once that
  every locked section keeps the counter equal to the number of owned slots.
\<close>

section \<open>State\<close>

datatype life = New | Starting | Open | Pausing | Paused | Closing | Closed

datatype waiter_state = Waiting | Granted | Consumed | Cancelled | Rejected

text \<open>The asyncio future a waiting caller awaits.\<close>

datatype wait_future = Pending | Resolved | Failed | FutureCancelled

record admission_waiter =
  wstate :: waiter_state
  wfuture :: wait_future

text \<open>
  Waiters are objects with an identity: \<open>waiters\<close> is their store, \<open>admission_waiters\<close> the
  deque of identities. \<open>scheduled\<close> and \<open>rejections\<close> hold the deliveries handed to the
  callers' event loops by \<open>call_soon_threadsafe\<close> and not yet run.
\<close>

record admission =
  queue_capacity :: nat
  max_waiters :: nat
  life :: life
  outstanding :: int
  admission_waiters :: "nat list"
  waiters :: "nat \<rightharpoonup> admission_waiter"
  next_waiter :: nat
  scheduled :: "nat list"
  rejections :: "nat list"

definition has_state :: "'a admission_scheme \<Rightarrow> nat \<Rightarrow> waiter_state \<Rightarrow> bool" where
  "has_state s w st = (case waiters s w of None \<Rightarrow> False | Some x \<Rightarrow> wstate x = st)"

definition set_state :: "nat \<Rightarrow> waiter_state \<Rightarrow> 'a admission_scheme \<Rightarrow> 'a admission_scheme" where
  "set_state w st s =
     s\<lparr>waiters := (waiters s)(w := map_option (wstate_update (\<lambda>_. st)) (waiters s w))\<rparr>"

definition set_future :: "nat \<Rightarrow> wait_future \<Rightarrow> 'a admission_scheme \<Rightarrow> 'a admission_scheme" where
  "set_future w f s =
     s\<lparr>waiters := (waiters s)(w := map_option (wfuture_update (\<lambda>_. f)) (waiters s w))\<rparr>"

definition future_done :: "'a admission_scheme \<Rightarrow> nat \<Rightarrow> bool" where
  "future_done s w = (case waiters s w of None \<Rightarrow> False | Some x \<Rightarrow> wfuture x \<noteq> Pending)"

section \<open>Locked sections\<close>

definition discard_inactive_waiters_locked :: "'a admission_scheme \<Rightarrow> 'a admission_scheme" where
  "discard_inactive_waiters_locked s =
     s\<lparr>admission_waiters := dropWhile (\<lambda>w. \<not> has_state s w Waiting) (admission_waiters s)\<rparr>"

fun grant_loop :: "nat list \<Rightarrow> 'a admission_scheme \<Rightarrow> nat list \<times> 'a admission_scheme" where
  "grant_loop [] s = ([], s\<lparr>admission_waiters := []\<rparr>)"
| "grant_loop (w # ws) s =
     (if outstanding s < int (queue_capacity s) then
        (if \<not> has_state s w Waiting then grant_loop ws s
         else
           let (grants, s') = grant_loop ws
                 ((set_state w Granted s)\<lparr>outstanding := outstanding s + 1\<rparr>)
           in (w # grants, s'))
      else ([], s\<lparr>admission_waiters := w # ws\<rparr>))"

definition grant_waiters_locked :: "'a admission_scheme \<Rightarrow> nat list \<times> 'a admission_scheme" where
  "grant_waiters_locked s =
     (if life s \<noteq> Open then ([], s) else grant_loop (admission_waiters s) s)"

definition schedule_admission_grants ::
  "nat list \<times> 'a admission_scheme \<Rightarrow> 'a admission_scheme" where
  "schedule_admission_grants gs = (case gs of (grants, s) \<Rightarrow> s\<lparr>scheduled := scheduled s @ grants\<rparr>)"

definition waiting_count :: "'a admission_scheme \<Rightarrow> nat" where
  "waiting_count s = length (filter (\<lambda>w. has_state s w Waiting) (admission_waiters s))"

text \<open>
  The locked section of \<open>_acquire_capacity\<close> after its state checks: a slot at once
  (\<open>Inr None\<close>), a place in the deque (\<open>Inr (Some w)\<close>) or an overload error.
\<close>

definition acquire_locked ::
  "string \<Rightarrow> 'a admission_scheme \<Rightarrow> nat option result \<times> 'a admission_scheme" where
  "acquire_locked overloaded s0 =
     (let s = discard_inactive_waiters_locked s0 in
      if outstanding s < int (queue_capacity s) \<and> admission_waiters s = [] then
        (Inr None, s\<lparr>outstanding := outstanding s + 1\<rparr>)
      else if max_waiters s \<le> waiting_count s then (Inl (RuntimeError overloaded), s)
      else
        let w = next_waiter s;
            s1 = s\<lparr>waiters := (waiters s)(w \<mapsto> \<lparr>wstate = Waiting, wfuture = Pending\<rparr>),
                   next_waiter := w + 1,
                   admission_waiters := admission_waiters s @ [w]\<rparr>
        in (Inr (Some w), schedule_admission_grants (grant_waiters_locked s1)))"

text \<open>The status change and the release of \<open>_cancel_admission\<close>, before its grants.\<close>

definition drop_admission :: "nat \<Rightarrow> 'a admission_scheme \<Rightarrow> 'a admission_scheme" where
  "drop_admission w s =
     (if has_state s w Waiting then set_state w Cancelled s
      else if has_state s w Granted then
        (set_state w Cancelled s)\<lparr>outstanding := outstanding s - 1\<rparr>
      else s)"

text \<open>
  The loop with which closing, pausing and a worker's failure empty the deque; the rejected
  waiters are handed to \<open>_schedule_admission_rejection\<close>.
\<close>

fun reject_loop :: "nat list \<Rightarrow> 'a admission_scheme \<Rightarrow> 'a admission_scheme" where
  "reject_loop [] s = s\<lparr>admission_waiters := []\<rparr>"
| "reject_loop (w # ws) s =
     (if \<not> has_state s w Waiting then reject_loop ws s
      else reject_loop ws ((set_state w Rejected s)\<lparr>rejections := rejections s @ [w]\<rparr>))"

definition reject_waiters :: "'a admission_scheme \<Rightarrow> 'a admission_scheme" where
  "reject_waiters s = reject_loop (admission_waiters s) s"

definition deliver_admission_rejection :: "nat \<Rightarrow> 'a admission_scheme \<Rightarrow> 'a admission_scheme" where
  "deliver_admission_rejection w s = (if \<not> future_done s w then set_future w Failed s else s)"

text \<open>
  \<open>_deliver_admission_grant\<close>: nothing for a waiter no longer granted, a resolved future for
  one that still waits (\<open>Inl\<close>), and for one whose future is done a released slot (\<open>Inr\<close>),
  after which the caller grants and advances its life cycle.
\<close>

definition deliver_admission_grant ::
  "nat \<Rightarrow> 'a admission_scheme \<Rightarrow> 'a admission_scheme + 'a admission_scheme" where
  "deliver_admission_grant w s =
     (if \<not> has_state s w Granted then Inl s
      else if future_done s w then
        Inr ((set_state w Cancelled s)\<lparr>outstanding := outstanding s - 1\<rparr>)
      else Inl (set_future w Resolved s))"

text \<open>The end of \<open>_acquire_capacity\<close> for a waiter whose future was resolved.\<close>

definition consume_admission :: "nat \<Rightarrow> 'a admission_scheme \<Rightarrow> 'a admission_scheme option" where
  "consume_admission w s =
     (if \<not> has_state s w Granted then None else Some (set_state w Consumed s))"

section \<open>The stored waiters under the operations\<close>

named_theorems adm_simps

lemma has_state_set_state [adm_simps]:
  "has_state (set_state w st s) v st' \<longleftrightarrow>
     (if v = w then waiters s w \<noteq> None \<and> st' = st else has_state s v st')"
  by (auto simp: has_state_def set_state_def split: option.splits)

lemma has_state_set_future [adm_simps]: "has_state (set_future w f s) v st \<longleftrightarrow> has_state s v st"
  by (auto simp: has_state_def set_future_def split: option.splits)

lemma future_done_set_state [adm_simps]: "future_done (set_state w st s) v \<longleftrightarrow> future_done s v"
  by (auto simp: future_done_def set_state_def split: option.splits)

lemma future_done_set_future [adm_simps]:
  "future_done (set_future w f s) v \<longleftrightarrow>
     (if v = w then waiters s w \<noteq> None \<and> f \<noteq> Pending else future_done s v)"
  by (auto simp: future_done_def set_future_def split: option.splits)

lemma set_state_dom [adm_simps]: "waiters (set_state w st s) v = None \<longleftrightarrow> waiters s v = None"
  by (auto simp: set_state_def)

lemma set_future_dom [adm_simps]: "waiters (set_future w st s) v = None \<longleftrightarrow> waiters s v = None"
  by (auto simp: set_future_def)

lemma has_state_stored: "has_state s w st \<Longrightarrow> waiters s w \<noteq> None"
  by (auto simp: has_state_def split: option.splits)

lemma has_state_unique: "has_state s w a \<Longrightarrow> has_state s w b \<Longrightarrow> a = b"
  by (auto simp: has_state_def split: option.splits)

lemma set_state_frame [adm_simps]:
  "queue_capacity (set_state w st s) = queue_capacity s"
  "max_waiters (set_state w st s) = max_waiters s"
  "life (set_state w st s) = life s" "outstanding (set_state w st s) = outstanding s"
  "admission_waiters (set_state w st s) = admission_waiters s"
  "next_waiter (set_state w st s) = next_waiter s" "scheduled (set_state w st s) = scheduled s"
  "rejections (set_state w st s) = rejections s" "more (set_state w st s) = more s"
  by (simp_all add: set_state_def)

lemma set_future_frame [adm_simps]:
  "queue_capacity (set_future w f s) = queue_capacity s"
  "max_waiters (set_future w f s) = max_waiters s"
  "life (set_future w f s) = life s" "outstanding (set_future w f s) = outstanding s"
  "admission_waiters (set_future w f s) = admission_waiters s"
  "next_waiter (set_future w f s) = next_waiter s" "scheduled (set_future w f s) = scheduled s"
  "rejections (set_future w f s) = rejections s" "more (set_future w f s) = more s"
  by (simp_all add: set_future_def)

text \<open>Only the waiter store matters for a waiter's status.\<close>

lemma has_state_waiters: "waiters s = waiters t \<Longrightarrow> has_state s = has_state t"
  by (simp add: has_state_def fun_eq_iff)

lemma has_state_update [adm_simps]:
  "has_state (s\<lparr>outstanding := n\<rparr>) = has_state s"
  "has_state (s\<lparr>admission_waiters := d\<rparr>) = has_state s"
  "has_state (s\<lparr>scheduled := g\<rparr>) = has_state s"
  "has_state (s\<lparr>rejections := g\<rparr>) = has_state s"
  "has_state (s\<lparr>life := l\<rparr>) = has_state s"
  "has_state (s\<lparr>more := m\<rparr>) = has_state s"
  by (simp_all add: has_state_def fun_eq_iff)

lemma future_done_update [adm_simps]:
  "future_done (s\<lparr>outstanding := n\<rparr>) = future_done s"
  "future_done (s\<lparr>admission_waiters := d\<rparr>) = future_done s"
  "future_done (s\<lparr>scheduled := g\<rparr>) = future_done s"
  "future_done (s\<lparr>rejections := g\<rparr>) = future_done s"
  "future_done (s\<lparr>life := l\<rparr>) = future_done s"
  "future_done (s\<lparr>more := m\<rparr>) = future_done s"
  by (simp_all add: future_done_def fun_eq_iff)

section \<open>The grant loop\<close>

lemma grant_loop_frame [adm_simps]:
  "queue_capacity (snd (grant_loop ws s)) = queue_capacity s"
  "max_waiters (snd (grant_loop ws s)) = max_waiters s"
  "life (snd (grant_loop ws s)) = life s"
  "next_waiter (snd (grant_loop ws s)) = next_waiter s"
  "scheduled (snd (grant_loop ws s)) = scheduled s"
  "rejections (snd (grant_loop ws s)) = rejections s"
  "more (snd (grant_loop ws s)) = more s"
  by (induction ws s rule: grant_loop.induct) (auto simp: adm_simps Let_def split: prod.splits)

lemma grant_loop_future [adm_simps]:
  "future_done (snd (grant_loop ws s)) w \<longleftrightarrow> future_done s w"
  "waiters (snd (grant_loop ws s)) w = None \<longleftrightarrow> waiters s w = None"
  by (induction ws s rule: grant_loop.induct) (auto simp: adm_simps Let_def split: prod.splits)

lemma grant_loop_grants:
  "set (fst (grant_loop ws s)) \<subseteq> set ws \<and> (\<forall>w \<in> set (fst (grant_loop ws s)). has_state s w Waiting)"
proof (induction ws s rule: grant_loop.induct)
  case (2 w ws s)
  then show ?case
    by (fastforce simp: adm_simps Let_def split: prod.splits if_splits)
qed simp

lemma grant_loop_state:
  "distinct ws \<Longrightarrow> has_state (snd (grant_loop ws s)) v st \<longleftrightarrow>
     (if v \<in> set (fst (grant_loop ws s)) then st = Granted else has_state s v st)"
proof (induction ws s rule: grant_loop.induct)
  case (2 w ws s)
  have "w \<notin> set (fst (grant_loop ws t))" for t using 2 grant_loop_grants [of ws t] by auto
  with 2 show ?case
    by (auto simp: adm_simps Let_def case_prod_unfold has_state_stored)
qed (simp add: adm_simps)

lemma grant_loop_outstanding:
  "outstanding (snd (grant_loop ws s)) = outstanding s + int (length (fst (grant_loop ws s)))"
  by (induction ws s rule: grant_loop.induct) (auto simp: adm_simps Let_def case_prod_unfold)

lemma grant_loop_bound:
  "outstanding s \<le> int (queue_capacity s) \<Longrightarrow>
   outstanding (snd (grant_loop ws s)) \<le> int (queue_capacity s)"
  by (induction ws s rule: grant_loop.induct) (auto simp: adm_simps Let_def case_prod_unfold)

lemma grant_loop_full:
  "outstanding (snd (grant_loop ws s)) < int (queue_capacity s) \<Longrightarrow>
   admission_waiters (snd (grant_loop ws s)) = []"
  by (induction ws s rule: grant_loop.induct) (auto simp: adm_simps Let_def case_prod_unfold split: if_splits)

lemma grant_loop_deque:
  "suffix (admission_waiters (snd (grant_loop ws s))) ws
   \<and> (\<forall>w \<in> set ws. has_state s w Waiting \<longrightarrow>
        w \<in> set (fst (grant_loop ws s)) \<or> w \<in> set (admission_waiters (snd (grant_loop ws s))))"
  by (induction ws s rule: grant_loop.induct)
    (auto simp: adm_simps Let_def case_prod_unfold suffix_Cons split: if_splits)

lemma grant_loop_distinct: "distinct ws \<Longrightarrow> distinct (fst (grant_loop ws s))"
proof (induction ws s rule: grant_loop.induct)
  case (2 w ws s)
  have "w \<notin> set (fst (grant_loop ws t))" for t using 2 grant_loop_grants [of ws t] by auto
  with 2 show ?case by (auto simp: Let_def case_prod_unfold)
qed simp

text \<open>Grants are made in arrival order: the waiting callers at the head of the deque, as many as fit.\<close>

lemma grant_loop_fifo:
  "distinct ws \<Longrightarrow> fst (grant_loop ws s) =
     take (nat (int (queue_capacity s) - outstanding s)) (filter (\<lambda>w. has_state s w Waiting) ws)"
proof (induction ws s rule: grant_loop.induct)
  case (2 w ws s)
  let ?t = "(set_state w Granted s)\<lparr>outstanding := outstanding s + 1\<rparr>"
  have same: "filter (\<lambda>v. has_state ?t v Waiting) ws = filter (\<lambda>v. has_state s v Waiting) ws"
    using 2 by (intro filter_cong) (auto simp: adm_simps)
  show ?case
  proof (cases "outstanding s < int (queue_capacity s)")
    case True
    then have "nat (int (queue_capacity s) - outstanding s)
        = Suc (nat (int (queue_capacity s) - (outstanding s + 1)))" by simp
    with 2 True same show ?thesis by (auto simp: adm_simps Let_def case_prod_unfold)
  qed simp
qed simp

section \<open>The invariant of the protocol\<close>

definition granted :: "'a admission_scheme \<Rightarrow> nat set" where
  "granted s = {w. has_state s w Granted}"

text \<open>
  Inside a locked section: identities are fresh, the deque is duplicate free and holds every
  waiting caller, the counter and the number of waiting callers are bounded, and a granted or
  rejected caller whose future is pending has a delivery on its way.
\<close>

definition adm_core :: "'a admission_scheme \<Rightarrow> bool" where
  "adm_core s \<longleftrightarrow>
     (\<forall>w. next_waiter s \<le> w \<longrightarrow> waiters s w = None)
     \<and> distinct (admission_waiters s) \<and> (\<forall>w \<in> set (admission_waiters s). w < next_waiter s)
     \<and> (\<forall>w. has_state s w Waiting \<longrightarrow> w \<in> set (admission_waiters s))
     \<and> outstanding s \<le> int (queue_capacity s)
     \<and> waiting_count s \<le> max_waiters s
     \<and> (\<forall>w. has_state s w Granted \<and> \<not> future_done s w \<longrightarrow> w \<in> set (scheduled s))
     \<and> (\<forall>w. has_state s w Rejected \<and> \<not> future_done s w \<longrightarrow> w \<in> set (rejections s))"

text \<open>Between locked sections a caller waits only while the component is open and full.\<close>

definition settled :: "'a admission_scheme \<Rightarrow> bool" where
  "settled s \<longleftrightarrow>
     (\<forall>w. has_state s w Waiting \<longrightarrow> life s = Open \<and> int (queue_capacity s) \<le> outstanding s)"

definition adm_inv :: "'a admission_scheme \<Rightarrow> bool" where
  "adm_inv s \<longleftrightarrow> adm_core s \<and> settled s"

lemma finite_granted: "adm_core s \<Longrightarrow> finite (granted s)"
  by (rule finite_subset [of _ "{..<next_waiter s}"])
    (auto simp: granted_def adm_core_def not_less [symmetric] dest: has_state_stored)

lemma distinct_suffix: "suffix xs ys \<Longrightarrow> distinct ys \<Longrightarrow> distinct xs"
  by (auto simp: suffix_def)

lemma in_set_dropWhile_not: "x \<in> set xs \<Longrightarrow> P x \<Longrightarrow> x \<in> set (dropWhile (\<lambda>y. \<not> P y) xs)"
  by (induction xs) auto

lemma length_filter_suffix:
  assumes "suffix xs ys" and "\<And>x. x \<in> set xs \<Longrightarrow> P x \<Longrightarrow> Q x"
  shows "length (filter P xs) \<le> length (filter Q ys)"
proof -
  from assms(1) obtain zs where ys: "ys = zs @ xs" by (auto simp: suffix_def)
  have "length (filter P xs) \<le> length (filter Q xs)"
    using assms(2) by (induction xs) auto
  then show ?thesis by (simp add: ys)
qed

lemma waiting_count_mono:
  assumes "suffix (admission_waiters t) (admission_waiters s)"
    and "\<And>w. has_state t w Waiting \<Longrightarrow> has_state s w Waiting"
  shows "waiting_count t \<le> waiting_count s"
  unfolding waiting_count_def using assms by (rule length_filter_suffix)

lemma waiting_count_update [adm_simps]:
  "waiting_count (s\<lparr>outstanding := n\<rparr>) = waiting_count s"
  "waiting_count (s\<lparr>scheduled := g\<rparr>) = waiting_count s"
  "waiting_count (s\<lparr>rejections := g\<rparr>) = waiting_count s"
  "waiting_count (s\<lparr>life := l\<rparr>) = waiting_count s"
  "waiting_count (s\<lparr>more := m\<rparr>) = waiting_count s"
  "waiting_count (set_future w f s) = waiting_count s"
  by (simp_all add: waiting_count_def adm_simps)

lemma waiting_count_set_state:
  "st \<noteq> Waiting \<Longrightarrow> waiting_count (set_state w st s) \<le> waiting_count s"
  by (rule waiting_count_mono) (auto simp: adm_simps split: if_splits)

section \<open>Each locked section keeps the invariant\<close>

lemma grant_waiters_frame [adm_simps]:
  "queue_capacity (snd (grant_waiters_locked s)) = queue_capacity s"
  "max_waiters (snd (grant_waiters_locked s)) = max_waiters s"
  "life (snd (grant_waiters_locked s)) = life s"
  "next_waiter (snd (grant_waiters_locked s)) = next_waiter s"
  "scheduled (snd (grant_waiters_locked s)) = scheduled s"
  "rejections (snd (grant_waiters_locked s)) = rejections s"
  "more (snd (grant_waiters_locked s)) = more s"
  by (simp_all add: grant_waiters_locked_def adm_simps)

lemma schedule_frame [adm_simps]:
  "queue_capacity (schedule_admission_grants gs) = queue_capacity (snd gs)"
  "max_waiters (schedule_admission_grants gs) = max_waiters (snd gs)"
  "life (schedule_admission_grants gs) = life (snd gs)"
  "outstanding (schedule_admission_grants gs) = outstanding (snd gs)"
  "next_waiter (schedule_admission_grants gs) = next_waiter (snd gs)"
  "waiters (schedule_admission_grants gs) = waiters (snd gs)"
  "admission_waiters (schedule_admission_grants gs) = admission_waiters (snd gs)"
  "scheduled (schedule_admission_grants gs) = scheduled (snd gs) @ fst gs"
  "rejections (schedule_admission_grants gs) = rejections (snd gs)"
  "more (schedule_admission_grants gs) = more (snd gs)"
  "has_state (schedule_admission_grants gs) = has_state (snd gs)"
  "future_done (schedule_admission_grants gs) = future_done (snd gs)"
  by (simp_all add: schedule_admission_grants_def adm_simps split: prod.splits)

lemma granted_update [adm_simps]:
  "granted (s\<lparr>outstanding := n\<rparr>) = granted s"
  "granted (s\<lparr>admission_waiters := d\<rparr>) = granted s"
  "granted (s\<lparr>scheduled := g\<rparr>) = granted s"
  "granted (s\<lparr>rejections := g\<rparr>) = granted s"
  "granted (s\<lparr>life := l\<rparr>) = granted s"
  "granted (s\<lparr>more := m\<rparr>) = granted s"
  "granted (set_future w f s) = granted s"
  "granted (schedule_admission_grants gs) = granted (snd gs)"
  by (simp_all add: granted_def adm_simps)

lemma grant_core:
  assumes "adm_core s"
  shows "adm_core (schedule_admission_grants (grant_waiters_locked s))"
proof (cases "life s = Open")
  case True
  let ?ws = "admission_waiters s"
  let ?g = "fst (grant_loop ?ws s)" and ?t = "snd (grant_loop ?ws s)"
  note core = assms [unfolded adm_core_def]
  from core have d: "distinct ?ws" by blast
  note st = grant_loop_state [OF d] and dq = grant_loop_deque [of ?ws s]
  have sub: "set (admission_waiters ?t) \<subseteq> set ?ws" using dq by (auto dest: set_mono_suffix)
  have dist: "distinct (admission_waiters ?t)" using dq d by (blast intro: distinct_suffix)
  have "waiting_count (schedule_admission_grants (?g, ?t)) \<le> waiting_count s"
    by (rule waiting_count_mono) (use dq in \<open>auto simp: adm_simps st split: if_splits\<close>)
  moreover have "\<forall>w. has_state ?t w Waiting \<longrightarrow> w \<in> set (admission_waiters ?t)"
    using dq core by (auto simp: st split: if_splits)
  moreover have "\<forall>w. has_state ?t w Granted \<and> \<not> future_done ?t w \<longrightarrow> w \<in> set (scheduled s) \<union> set ?g"
    using core by (auto simp: adm_simps st split: if_splits)
  moreover have "\<forall>w. has_state ?t w Rejected \<and> \<not> future_done ?t w \<longrightarrow> w \<in> set (rejections s)"
    using core by (auto simp: adm_simps st split: if_splits)
  moreover have "\<forall>w. next_waiter s \<le> w \<longrightarrow> waiters ?t w = None" using core by (simp add: adm_simps)
  ultimately show ?thesis
    using True core sub dist grant_loop_bound [of s ?ws]
    by (simp add: adm_core_def grant_waiters_locked_def adm_simps subset_iff)
next
  case False
  with assms show ?thesis
    by (simp add: grant_waiters_locked_def schedule_admission_grants_def adm_simps)
qed

lemma grant_settled:
  assumes "adm_core s" and "life s \<noteq> Open \<Longrightarrow> settled s"
  shows "settled (schedule_admission_grants (grant_waiters_locked s))"
proof (cases "life s = Open")
  case True
  have "settled (schedule_admission_grants (grant_loop (admission_waiters s) s))"
    using grant_core [OF assms(1)] grant_loop_full [of "admission_waiters s" s] True
    by (force simp: settled_def adm_core_def adm_simps grant_waiters_locked_def)
  with True show ?thesis by (simp add: grant_waiters_locked_def)
next
  case False
  with assms show ?thesis
    by (simp add: grant_waiters_locked_def schedule_admission_grants_def settled_def adm_simps)
qed

lemma drop_core: "adm_core s \<Longrightarrow> adm_core (drop_admission w s)"
  using waiting_count_set_state [of Cancelled w s]
  by (auto simp: drop_admission_def adm_core_def adm_simps)

lemma drop_settled: "settled s \<Longrightarrow> life s \<noteq> Open \<Longrightarrow> settled (drop_admission w s)"
  by (auto simp: drop_admission_def settled_def adm_simps split: if_splits)

lemma drop_frame [adm_simps]:
  "queue_capacity (drop_admission w s) = queue_capacity s"
  "max_waiters (drop_admission w s) = max_waiters s"
  "life (drop_admission w s) = life s"
  "next_waiter (drop_admission w s) = next_waiter s"
  "scheduled (drop_admission w s) = scheduled s"
  "rejections (drop_admission w s) = rejections s"
  "admission_waiters (drop_admission w s) = admission_waiters s"
  "more (drop_admission w s) = more s"
  by (simp_all add: drop_admission_def adm_simps)

text \<open>A waiter dropped together with its scheduled delivery.\<close>

lemma drop_unscheduled:
  "drop_admission w (s\<lparr>scheduled := remove1 w (scheduled s)\<rparr>)
     = (drop_admission w s)\<lparr>scheduled := remove1 w (scheduled s)\<rparr>"
  by (simp add: drop_admission_def adm_simps) (simp add: set_state_def)

lemma drop_unscheduled_core:
  assumes "adm_core s"
  shows "adm_core ((drop_admission w s)\<lparr>scheduled := remove1 w (scheduled s)\<rparr>)"
proof -
  have "\<not> has_state (drop_admission w s) w Granted"
    by (auto simp: drop_admission_def adm_simps dest: has_state_unique)
  then show ?thesis
    using drop_core [OF assms, of w] unfolding adm_core_def
    by (auto simp: adm_simps intro!: in_set_remove1 [THEN iffD2])
qed

lemma deliver_grant_drop: "deliver_admission_grant w s = Inr t \<Longrightarrow> t = drop_admission w s"
  by (auto simp: deliver_admission_grant_def drop_admission_def split: if_splits dest: has_state_unique)

lemma drop_granted: "granted (drop_admission w s) \<subseteq> granted s"
  by (auto simp: drop_admission_def granted_def adm_simps split: if_splits)

lemma drop_outstanding: "outstanding (drop_admission w s) \<le> outstanding s"
  by (simp add: drop_admission_def adm_simps)

lemma discard_core: "adm_core s \<Longrightarrow> adm_core (discard_inactive_waiters_locked s)"
proof -
  assume core: "adm_core s"
  let ?t = "discard_inactive_waiters_locked s"
  have suf: "suffix (admission_waiters ?t) (admission_waiters s)"
    by (simp add: discard_inactive_waiters_locked_def suffix_dropWhile)
  have "w \<in> set (admission_waiters ?t)" if "has_state s w Waiting" for w
    using that core in_set_dropWhile_not [of w "admission_waiters s" "\<lambda>w. has_state s w Waiting"]
    by (simp add: discard_inactive_waiters_locked_def adm_core_def)
  moreover have "waiting_count ?t \<le> waiting_count s"
    using suf by (rule waiting_count_mono) (simp add: discard_inactive_waiters_locked_def adm_simps)
  moreover have "distinct (admission_waiters ?t)" "set (admission_waiters ?t) \<subseteq> set (admission_waiters s)"
    using suf core by (auto simp: adm_core_def intro: distinct_suffix dest: set_mono_suffix)
  ultimately show ?thesis
    using core by (auto simp: adm_core_def discard_inactive_waiters_locked_def adm_simps)
qed

lemma discard_frame [adm_simps]:
  "queue_capacity (discard_inactive_waiters_locked s) = queue_capacity s"
  "max_waiters (discard_inactive_waiters_locked s) = max_waiters s"
  "life (discard_inactive_waiters_locked s) = life s"
  "outstanding (discard_inactive_waiters_locked s) = outstanding s"
  "waiters (discard_inactive_waiters_locked s) = waiters s"
  "next_waiter (discard_inactive_waiters_locked s) = next_waiter s"
  "scheduled (discard_inactive_waiters_locked s) = scheduled s"
  "rejections (discard_inactive_waiters_locked s) = rejections s"
  "more (discard_inactive_waiters_locked s) = more s"
  "has_state (discard_inactive_waiters_locked s) = has_state s"
  "future_done (discard_inactive_waiters_locked s) = future_done s"
  by (simp_all add: discard_inactive_waiters_locked_def adm_simps)

lemma acquire_inv:
  assumes "adm_inv s" and "life s = Open"
  shows "adm_inv (snd (acquire_locked m s))"
proof -
  let ?t = "discard_inactive_waiters_locked s"
  let ?w = "next_waiter ?t"
  let ?u = "?t\<lparr>waiters := (waiters ?t)(?w \<mapsto> \<lparr>wstate = Waiting, wfuture = Pending\<rparr>),
                next_waiter := Suc ?w, admission_waiters := admission_waiters ?t @ [?w]\<rparr>"
  have t: "adm_core ?t" "settled ?t" "life ?t = Open"
    using assms by (auto simp: adm_inv_def discard_core settled_def adm_simps)
  note core = t(1) [unfolded adm_core_def]
  have st: "has_state ?u v st \<longleftrightarrow> (if v = ?w then st = Waiting else has_state ?t v st)"
      and fd: "future_done ?u v \<longleftrightarrow> (v \<noteq> ?w \<and> future_done ?t v)" for v st
    using core by (auto simp: has_state_def future_done_def)
  have notin: "?w \<notin> set (admission_waiters ?t)" using core by auto
  have "filter (\<lambda>w. has_state ?u w Waiting) (admission_waiters ?t)
      = filter (\<lambda>w. has_state ?t w Waiting) (admission_waiters ?t)"
    using notin by (intro filter_cong) (auto simp: st)
  then have wc: "waiting_count ?u = Suc (waiting_count ?t)"
    by (simp add: waiting_count_def st)
  have "adm_core ?u" if "waiting_count ?t < max_waiters ?t"
    using core that notin unfolding adm_core_def wc by (auto simp: st fd)
  then have "adm_inv (schedule_admission_grants (grant_waiters_locked ?u))"
    if "waiting_count ?t < max_waiters ?t"
    using that t(3) by (auto simp: adm_inv_def intro!: grant_core grant_settled)
  moreover have "adm_inv (?t\<lparr>outstanding := outstanding ?t + 1\<rparr>)"
    if "outstanding ?t < int (queue_capacity ?t)"
    using core t that by (auto simp: adm_inv_def adm_core_def settled_def adm_simps)
  ultimately show ?thesis
    using t by (auto simp: acquire_locked_def Let_def adm_inv_def)
qed

lemma acquire_frame [adm_simps]:
  "queue_capacity (snd (acquire_locked m s)) = queue_capacity s"
  "max_waiters (snd (acquire_locked m s)) = max_waiters s"
  "life (snd (acquire_locked m s)) = life s"
  "more (snd (acquire_locked m s)) = more s"
  by (simp_all add: acquire_locked_def Let_def adm_simps)

lemma reject_loop_frame [adm_simps]:
  "queue_capacity (reject_loop ws s) = queue_capacity s"
  "max_waiters (reject_loop ws s) = max_waiters s"
  "life (reject_loop ws s) = life s" "outstanding (reject_loop ws s) = outstanding s"
  "admission_waiters (reject_loop ws s) = []"
  "next_waiter (reject_loop ws s) = next_waiter s" "scheduled (reject_loop ws s) = scheduled s"
  "more (reject_loop ws s) = more s"
  "future_done (reject_loop ws s) w \<longleftrightarrow> future_done s w"
  "waiters (reject_loop ws s) w = None \<longleftrightarrow> waiters s w = None"
  by (induction ws s rule: reject_loop.induct) (auto simp: adm_simps)

lemma reject_loop_state:
  "has_state (reject_loop ws s) v st \<longleftrightarrow>
     (if v \<in> set ws \<and> has_state s v Waiting then st = Rejected else has_state s v st)"
  by (induction ws s rule: reject_loop.induct) (auto simp: adm_simps has_state_stored)

lemma reject_loop_rejections:
  "set (rejections (reject_loop ws s)) =
     set (rejections s) \<union> {w \<in> set ws. has_state s w Waiting}"
  by (induction ws s rule: reject_loop.induct) (auto simp: adm_simps)

lemma reject_core:
  assumes "adm_core s" shows "adm_core (reject_waiters s)"
  using assms unfolding adm_core_def reject_waiters_def waiting_count_def
  by (auto simp: adm_simps reject_loop_state reject_loop_rejections split: if_splits)

lemma reject_settled: "adm_core s \<Longrightarrow> settled (reject_waiters s)"
  by (auto simp: settled_def adm_core_def reject_waiters_def reject_loop_state adm_simps split: if_splits)

lemma reject_frame [adm_simps]:
  "queue_capacity (reject_waiters s) = queue_capacity s"
  "max_waiters (reject_waiters s) = max_waiters s"
  "life (reject_waiters s) = life s" "outstanding (reject_waiters s) = outstanding s"
  "more (reject_waiters s) = more s"
  "granted (reject_waiters s) = granted s"
  by (auto simp: reject_waiters_def granted_def adm_simps reject_loop_state split: if_splits
      dest: has_state_unique)

lemma core_update_free:
  "adm_core (s\<lparr>life := l\<rparr>) \<longleftrightarrow> adm_core s" "adm_core (s\<lparr>more := m\<rparr>) \<longleftrightarrow> adm_core s"
  "settled (s\<lparr>more := m\<rparr>) \<longleftrightarrow> settled s" "adm_inv (s\<lparr>more := m\<rparr>) \<longleftrightarrow> adm_inv s"
  "granted (s\<lparr>more := m\<rparr>) = granted s" "granted (s\<lparr>life := l\<rparr>) = granted s"
  by (auto simp: adm_core_def settled_def adm_inv_def granted_def adm_simps)

lemma deliver_rejection_inv:
  "adm_inv s \<Longrightarrow>
   adm_inv ((deliver_admission_rejection w s)\<lparr>rejections := remove1 w (rejections s)\<rparr>)"
  unfolding adm_inv_def adm_core_def settled_def deliver_admission_rejection_def
  by (auto simp: adm_simps intro!: in_set_remove1 [THEN iffD2] has_state_stored dest: has_state_stored)

lemma deliver_grant_Inl_inv:
  "adm_inv s \<Longrightarrow> deliver_admission_grant w s = Inl t \<Longrightarrow>
   adm_inv (t\<lparr>scheduled := remove1 w (scheduled s)\<rparr>)"
  unfolding adm_inv_def adm_core_def settled_def deliver_admission_grant_def
  by (auto simp: adm_simps intro!: in_set_remove1 [THEN iffD2] split: if_splits dest: has_state_stored)

lemma deliver_grant_Inr_core:
  "adm_inv s \<Longrightarrow> deliver_admission_grant w s = Inr t \<Longrightarrow>
   adm_core (t\<lparr>scheduled := remove1 w (scheduled s)\<rparr>)
   \<and> (life s \<noteq> Open \<longrightarrow> settled (t\<lparr>scheduled := remove1 w (scheduled s)\<rparr>))"
  using waiting_count_set_state [of Cancelled w s]
  unfolding adm_inv_def adm_core_def settled_def deliver_admission_grant_def
  by (auto simp: adm_simps intro!: in_set_remove1 [THEN iffD2] split: if_splits)

lemma consume_inv: "adm_inv s \<Longrightarrow> consume_admission w s = Some t \<Longrightarrow> adm_inv t"
  using waiting_count_set_state [of Consumed w s]
  unfolding adm_inv_def adm_core_def settled_def consume_admission_def
  by (auto simp: adm_simps split: if_splits)

section \<open>Accounting of the owned slots\<close>

lemma grant_loop_card:
  assumes "distinct ws" and "finite (granted s)"
  shows "card (granted (snd (grant_loop ws s))) = card (granted s) + length (fst (grant_loop ws s))"
proof -
  have "granted (snd (grant_loop ws s)) = granted s \<union> set (fst (grant_loop ws s))"
    by (auto simp: granted_def grant_loop_state [OF assms(1)])
  moreover have "granted s \<inter> set (fst (grant_loop ws s)) = {}"
    using grant_loop_grants [of ws s] by (auto simp: granted_def dest: has_state_unique)
  ultimately show ?thesis
    using grant_loop_distinct [OF assms(1), of s] assms(2)
    by (simp add: card_Un_disjoint distinct_card)
qed

text \<open>
  A component that owns \<open>extra\<close> slots beside those of granted waiters, in a part of the
  state that the admission sections do not touch.
\<close>

locale admission_accounting =
  fixes extra :: "'a admission_scheme \<Rightarrow> nat"
  assumes extra_frame: "more s = more t \<Longrightarrow> extra s = extra t"
begin

lemma grant_accounted:
  assumes "adm_core s" and "t = schedule_admission_grants (grant_waiters_locked s)"
  shows "outstanding t - int (card (granted t) + extra t) = outstanding s - int (card (granted s) + extra s)"
proof (cases "life s = Open")
  case True
  have "distinct (admission_waiters s)" using assms by (simp add: adm_core_def)
  then have "card (granted (snd (grant_loop (admission_waiters s) s)))
      = card (granted s) + length (fst (grant_loop (admission_waiters s) s))"
    using finite_granted [OF assms(1)] by (rule grant_loop_card)
  moreover have "extra t = extra s" by (rule extra_frame) (simp add: adm_simps assms(2))
  ultimately show ?thesis
    using True assms by (simp add: grant_waiters_locked_def grant_loop_outstanding adm_simps)
next
  case False
  then have "extra t = extra s" by (intro extra_frame) (simp add: adm_simps assms(2))
  with False show ?thesis by (simp add: grant_waiters_locked_def assms(2) adm_simps)
qed

lemma set_state_granted:
  assumes "adm_core s" and "has_state s w Granted" and "st \<noteq> Granted"
  shows "card (granted s) = Suc (card (granted (set_state w st s)))"
proof -
  have "granted (set_state w st s) = granted s - {w}"
    using assms by (auto simp: granted_def adm_simps)
  then show ?thesis
    using finite_granted [OF assms(1)] assms(2) card_Suc_Diff1 [of "granted s" w]
    by (simp add: granted_def)
qed

lemma drop_accounted:
  assumes "adm_core s"
  shows "outstanding (drop_admission w s) - int (card (granted (drop_admission w s)) + extra (drop_admission w s))
       = outstanding s - int (card (granted s) + extra s)"
proof -
  have e: "extra (drop_admission w s) = extra s" by (rule extra_frame) (simp add: adm_simps)
  have "granted (set_state w Cancelled s) = granted s" if "has_state s w Waiting"
    using that by (auto simp: granted_def adm_simps dest: has_state_unique)
  moreover have "granted ((set_state w Cancelled s)\<lparr>outstanding := n\<rparr>) = granted (set_state w Cancelled s)" for n
    by (simp add: granted_def adm_simps)
  ultimately show ?thesis
    using set_state_granted [OF assms, of w Cancelled]
    unfolding e by (auto simp: drop_admission_def adm_simps dest: has_state_unique)
qed

lemma acquire_accounted:
  assumes "adm_core s" and "outstanding s = int (card (granted s) + extra s)"
    and "acquire_locked m s = (r, t)"
  shows "outstanding t = int (card (granted t) + extra t) + (if r = Inr None then 1 else 0)"
proof -
  define d where "d = discard_inactive_waiters_locked s"
  define e where "e = d\<lparr>waiters := (waiters d)(next_waiter d \<mapsto> \<lparr>wstate = Waiting, wfuture = Pending\<rparr>),
                next_waiter := next_waiter d + 1, admission_waiters := admission_waiters d @ [next_waiter d]\<rparr>"
  have core: "adm_core d" using assms by (simp add: d_def discard_core)
  have gd: "granted d = granted s" "outstanding d = outstanding s" "more d = more s"
    by (simp_all add: granted_def adm_simps d_def)
  have ge: "granted e = granted d" "outstanding e = outstanding d" "more e = more d"
    using core by (auto simp: granted_def e_def has_state_def adm_core_def split: if_splits)
  have "distinct (admission_waiters e)" using core by (auto simp: e_def adm_core_def)
  moreover have "finite (granted e)" using finite_granted [OF core] by (simp add: ge)
  ultimately have "outstanding (schedule_admission_grants (grant_waiters_locked e))
      = int (card (granted (schedule_admission_grants (grant_waiters_locked e))) + extra s)"
    using assms(2) gd ge grant_loop_card [of "admission_waiters e" e]
      extra_frame [OF gd(3)]
    by (simp add: grant_waiters_locked_def grant_loop_outstanding adm_simps)
  moreover have "extra (schedule_admission_grants (grant_waiters_locked e)) = extra s"
    using gd ge by (intro extra_frame) (simp add: adm_simps)
  moreover have "extra (d\<lparr>outstanding := n\<rparr>) = extra s" "extra d = extra s" for n
    using gd by (auto intro!: extra_frame)
  moreover have "granted (d\<lparr>outstanding := n\<rparr>) = granted s" for n
    using gd by (simp add: adm_simps)
  moreover have "acquire_locked m s =
      (if outstanding d < int (queue_capacity d) \<and> admission_waiters d = [] then
         (Inr None, d\<lparr>outstanding := outstanding d + 1\<rparr>)
       else if max_waiters d \<le> waiting_count d then (Inl (RuntimeError m), d)
       else (Inr (Some (next_waiter d)), schedule_admission_grants (grant_waiters_locked e)))"
    by (simp add: acquire_locked_def Let_def d_def e_def)
  ultimately show ?thesis
    using assms(2,3) gd by (auto split: if_splits)
qed

end

end
