(* ===== verification/Db_Writer.thy ===== *)
theory Db_Writer
  imports Admission
begin

text \<open>
  \<^verbatim>\<open>src/app/db/writer.py\<close>: the database writer actor. Callers of any event loop acquire
  capacity, enqueue a request and wait for its result; one worker thread runs the requests
  on its connection. Each locked section and each queue operation is one atomic step, so
  every interleaving of callers, event loops and the worker is a run of \<open>writer_step\<close>.
\<close>

section \<open>State\<close>

datatype queue_item = Request nat | STOP

text \<open>
  Where the worker thread is: not started, at \<open>_queue.get()\<close>, running a request, unwinding
  with the request it had (before and after \<open>_begin_fatal_shutdown\<close>), failing the queued
  requests, in its \<open>finally\<close> block, or gone.
\<close>

datatype worker_pc =
    NotStarted
  | Idle
  | Active nat
  | Unwinding nat
  | Fatal nat
  | Failing
  | Exiting bool
  | Exited

datatype closed_future = ClosedPending | ClosedResult | ClosedException

datatype write_result = Succeeded | FailedWith

text \<open>
  \<open>admitted\<close> counts the callers between the return of \<open>_acquire_capacity\<close> and the locked
  section of \<open>_submit\<close>, \<open>stop_tokens\<close> those between \<open>_prepare_stop_locked\<close> returning true
  and their \<open>put_nowait(_STOP)\<close>; \<open>results\<close> holds the results of the accepted requests.
\<close>

record db_writer = admission +
  queue :: "queue_item list"
  stop_enqueued :: bool
  stop_tokens :: nat
  closed_fut :: closed_future
  worker :: worker_pc
  connection :: bool
  admitted :: nat
  next_request :: nat
  results :: "nat \<rightharpoonup> write_result"

definition writer_init :: "int \<Rightarrow> int \<Rightarrow> db_writer result" where
  "writer_init capacity waiters_max =
     (if capacity < 1 then Inl (ValueError ''queue_capacity must be at least 1'')
      else if waiters_max < 1 then Inl (ValueError ''max_waiters must be at least 1'')
      else Inr \<lparr>queue_capacity = nat capacity, max_waiters = nat waiters_max, life = Open,
                outstanding = 0, admission_waiters = [], waiters = Map.empty, next_waiter = 0,
                scheduled = [], rejections = [], queue = [], stop_enqueued = False,
                stop_tokens = 0, closed_fut = ClosedPending, worker = NotStarted,
                connection = False, admitted = 0, next_request = 0, results = Map.empty\<rparr>)"

section \<open>Operations\<close>

definition closed_error :: exn where
  "closed_error = RuntimeError ''database writer is closing or closed''"

definition underflow_error :: exn where
  "underflow_error = RuntimeError ''database writer capacity counter underflow''"

definition prepare_stop_locked :: "db_writer \<Rightarrow> db_writer" where
  "prepare_stop_locked s =
     (if life s = Closing \<and> outstanding s = 0 \<and> \<not> stop_enqueued s
      then s\<lparr>stop_enqueued := True, stop_tokens := stop_tokens s + 1\<rparr> else s)"

text \<open>\<open>_queue.put_nowait(_STOP)\<close> by a caller that holds a stop token.\<close>

definition put_stop :: "db_writer \<Rightarrow> db_writer result" where
  "put_stop s =
     (if queue_capacity s \<le> length (queue s) then Inl (RuntimeError ''queue.Full'')
      else Inr (s\<lparr>queue := queue s @ [STOP], stop_tokens := stop_tokens s - 1\<rparr>))"

definition release_capacity :: "db_writer \<Rightarrow> db_writer result" where
  "release_capacity s =
     (if outstanding s \<le> 0 then Inl underflow_error
      else
        let s1 = s\<lparr>outstanding := outstanding s - 1\<rparr>
        in Inr (prepare_stop_locked (schedule_admission_grants (grant_waiters_locked s1))))"

definition cancel_admission :: "nat \<Rightarrow> db_writer \<Rightarrow> db_writer" where
  "cancel_admission w s =
     prepare_stop_locked (schedule_admission_grants (grant_waiters_locked (drop_admission w s)))"

text \<open>A delivery run by the caller's event loop; it leaves the loop's schedule.\<close>

definition deliver_grant :: "nat \<Rightarrow> db_writer \<Rightarrow> db_writer" where
  "deliver_grant w s =
     (case deliver_admission_grant w s of
        Inl t \<Rightarrow> t\<lparr>scheduled := remove1 w (scheduled s)\<rparr>
      | Inr t \<Rightarrow> prepare_stop_locked (schedule_admission_grants
                  (grant_waiters_locked (t\<lparr>scheduled := remove1 w (scheduled s)\<rparr>))))"

text \<open>A delivery that could not be scheduled because the caller's event loop is closed.\<close>

definition grant_undeliverable :: "nat \<Rightarrow> db_writer \<Rightarrow> db_writer" where
  "grant_undeliverable w s = cancel_admission w (s\<lparr>scheduled := remove1 w (scheduled s)\<rparr>)"

definition raise_if_not_open_locked :: "db_writer \<Rightarrow> unit result" where
  "raise_if_not_open_locked s = (if life s \<noteq> Open then Inl closed_error else Inr ())"

text \<open>\<open>start_ok\<close> tells whether \<open>thread.start()\<close> succeeded.\<close>

definition ensure_worker_started_locked :: "bool \<Rightarrow> db_writer \<Rightarrow> unit result \<times> db_writer" where
  "ensure_worker_started_locked start_ok s =
     (if worker s \<noteq> NotStarted then (Inr (), s)
      else if start_ok then (Inr (), s\<lparr>worker := Idle\<rparr>)
      else (Inl (RuntimeError ''cannot start thread''),
            s\<lparr>life := Closed, closed_fut := ClosedException\<rparr>))"

definition acquire_capacity :: "bool \<Rightarrow> db_writer \<Rightarrow> nat option result \<times> db_writer" where
  "acquire_capacity start_ok s =
     (case raise_if_not_open_locked s of
        Inl e \<Rightarrow> (Inl e, s)
      | Inr _ \<Rightarrow>
          (case ensure_worker_started_locked start_ok s of
             (Inl e, s1) \<Rightarrow> (Inl e, s1)
           | (Inr _, s1) \<Rightarrow>
               (case acquire_locked ''database writer admission queue is full'' s1 of
                  (Inr None, s2) \<Rightarrow> (Inr None, s2\<lparr>admitted := admitted s2 + 1\<rparr>)
                | (r, s2) \<Rightarrow> (r, s2))))"

text \<open>The caller wakes with a resolved future: it owns the slot or raises the closed error.\<close>

definition resume_waiter :: "nat \<Rightarrow> db_writer \<Rightarrow> unit result \<times> db_writer" where
  "resume_waiter w s =
     (case consume_admission w s of
        None \<Rightarrow> (Inl closed_error, cancel_admission w s)
      | Some t \<Rightarrow> (Inr (), t\<lparr>admitted := admitted s + 1\<rparr>))"

text \<open>
  The locked section of \<open>_submit\<close>, entered with an admitted slot, with its defensive
  \<open>except\<close> path: the request's number, or the error raised.
\<close>

definition submit :: "db_writer \<Rightarrow> nat result \<times> db_writer" where
  "submit s0 =
     (let s = s0\<lparr>admitted := admitted s0 - 1\<rparr> in
      if life s \<noteq> Open then
        (if outstanding s \<le> 0 then
           (Inl underflow_error, case release_capacity s of Inl _ \<Rightarrow> s | Inr t \<Rightarrow> t)
         else (Inl closed_error, prepare_stop_locked (s\<lparr>outstanding := outstanding s - 1\<rparr>)))
      else if queue_capacity s \<le> length (queue s) then
        (Inl (RuntimeError ''queue.Full''), case release_capacity s of Inl _ \<Rightarrow> s | Inr t \<Rightarrow> t)
      else
        (Inr (next_request s),
         s\<lparr>queue := queue s @ [Request (next_request s)], next_request := next_request s + 1\<rparr>))"

definition close_writer :: "db_writer \<Rightarrow> db_writer" where
  "close_writer s =
     (if life s = Open then
        let s1 = reject_waiters (s\<lparr>life := Closing\<rparr>) in
        if outstanding s1 = 0 \<and> \<not> stop_enqueued s1 then
          (if worker s1 = NotStarted then s1\<lparr>life := Closed, closed_fut := ClosedResult\<rparr>
           else s1\<lparr>stop_enqueued := True, stop_tokens := stop_tokens s1 + 1\<rparr>)
        else s1
      else s)"

section \<open>The worker thread\<close>

definition writer_get :: "db_writer \<Rightarrow> db_writer" where
  "writer_get s =
     (case (worker s, queue s) of
        (Idle, STOP # q) \<Rightarrow> s\<lparr>queue := q, worker := Exiting False\<rparr>
      | (Idle, Request r # q) \<Rightarrow> s\<lparr>queue := q, worker := Active r\<rparr>
      | _ \<Rightarrow> s)"

text \<open>
  What happens to a request: no connection could be opened; the operation committed; it
  raised and was rolled back; it raised and the rollback raised a \<open>sqlite3.Error\<close>, so the
  connection is dropped; it raised and the rollback raised anything else.
\<close>

datatype run_outcome = OpenFailed | Committed | RolledBack | ConnectionLost | RollbackRaised

definition run_request :: "run_outcome \<Rightarrow> nat \<Rightarrow> db_writer \<Rightarrow> db_writer" where
  "run_request out r s =
     (let s1 = (case out of
           OpenFailed \<Rightarrow> s\<lparr>results := (results s)(r \<mapsto> FailedWith)\<rparr>
         | Committed \<Rightarrow> s\<lparr>results := (results s)(r \<mapsto> Succeeded), connection := True\<rparr>
         | RolledBack \<Rightarrow> s\<lparr>results := (results s)(r \<mapsto> FailedWith), connection := True\<rparr>
         | ConnectionLost \<Rightarrow> s\<lparr>results := (results s)(r \<mapsto> FailedWith), connection := False\<rparr>
         | RollbackRaised \<Rightarrow> s\<lparr>connection := True\<rparr>)
      in case release_capacity s1 of
           Inl _ \<Rightarrow> s1\<lparr>worker := Unwinding r\<rparr>
         | Inr t \<Rightarrow> t\<lparr>worker := (if out = RollbackRaised then Unwinding r else Idle)\<rparr>)"

definition begin_fatal_shutdown :: "nat \<Rightarrow> db_writer \<Rightarrow> db_writer" where
  "begin_fatal_shutdown r s =
     (reject_waiters (s\<lparr>life := (if life s \<noteq> Closed then Closing else Closed)\<rparr>))
       \<lparr>stop_enqueued := True, worker := Fatal r\<rparr>"

text \<open>The active request of a failed worker; an error raised here skips the queued requests.\<close>

definition fail_active :: "nat \<Rightarrow> db_writer \<Rightarrow> db_writer" where
  "fail_active r s =
     (if results s r = None then
        (let s1 = s\<lparr>results := (results s)(r \<mapsto> FailedWith)\<rparr> in
         case release_capacity s1 of
           Inl _ \<Rightarrow> s1\<lparr>worker := Exiting True\<rparr>
         | Inr t \<Rightarrow> t\<lparr>worker := Failing\<rparr>)
      else s\<lparr>worker := Failing\<rparr>)"

text \<open>One round of \<open>_fail_owned_requests\<close>.\<close>

definition fail_owned_request :: "db_writer \<Rightarrow> db_writer" where
  "fail_owned_request s =
     (case queue s of
        [] \<Rightarrow> s\<lparr>worker := Exiting True\<rparr>
      | STOP # q \<Rightarrow> s\<lparr>queue := q\<rparr>
      | Request r # q \<Rightarrow>
          (let s1 = s\<lparr>queue := q, results := (results s)(r \<mapsto> FailedWith)\<rparr> in
           case release_capacity s1 of
             Inl _ \<Rightarrow> s1\<lparr>worker := Exiting True\<rparr>
           | Inr t \<Rightarrow> t))"

definition worker_exit :: "bool \<Rightarrow> db_writer \<Rightarrow> db_writer" where
  "worker_exit fatal s =
     s\<lparr>connection := False, life := Closed, worker := Exited,
       closed_fut := (if fatal then ClosedException else ClosedResult)\<rparr>"

section \<open>Runs\<close>

inductive writer_step :: "db_writer \<Rightarrow> db_writer \<Rightarrow> bool" where
  acquire: "acquire_capacity ok s = (r, t) \<Longrightarrow> writer_step s t"
| future_cancelled: "\<not> future_done s w \<Longrightarrow> writer_step s (set_future w FutureCancelled s)"
| cancelled: "writer_step s (cancel_admission w s)"
| delivered: "w \<in> set (scheduled s) \<Longrightarrow> writer_step s (deliver_grant w s)"
| undeliverable: "w \<in> set (scheduled s) \<Longrightarrow> writer_step s (grant_undeliverable w s)"
| rejection: "w \<in> set (rejections s) \<Longrightarrow>
    writer_step s ((deliver_admission_rejection w s)\<lparr>rejections := remove1 w (rejections s)\<rparr>)"
| resumed: "resume_waiter w s = (r, t) \<Longrightarrow> writer_step s t"
| submitted: "0 < admitted s \<Longrightarrow> submit s = (r, t) \<Longrightarrow> writer_step s t"
| closing: "writer_step s (close_writer s)"
| stop_put: "0 < stop_tokens s \<Longrightarrow> put_stop s = Inr t \<Longrightarrow> writer_step s t"
| got: "worker s = Idle \<Longrightarrow> queue s \<noteq> [] \<Longrightarrow> writer_step s (writer_get s)"
| ran: "worker s = Active r \<Longrightarrow> (out = OpenFailed \<longrightarrow> \<not> connection s) \<Longrightarrow>
    writer_step s (run_request out r s)"
| fatal_begun: "worker s = Unwinding r \<Longrightarrow> writer_step s (begin_fatal_shutdown r s)"
| active_failed: "worker s = Fatal r \<Longrightarrow> writer_step s (fail_active r s)"
| owned_failed: "worker s = Failing \<Longrightarrow> writer_step s (fail_owned_request s)"
| exited: "worker s = Exiting f \<Longrightarrow> writer_step s (worker_exit f s)"

definition writer_start :: "db_writer \<Rightarrow> bool" where
  "writer_start s \<longleftrightarrow> (\<exists>c m. writer_init c m = Inr s)"

section \<open>The invariant\<close>

fun is_request :: "queue_item \<Rightarrow> bool" where
  "is_request (Request r) = True"
| "is_request STOP = False"

definition running :: "db_writer \<Rightarrow> nat" where
  "running s = (case worker s of Active _ \<Rightarrow> 1 | _ \<Rightarrow> 0)"

text \<open>The slots owned beside those of granted waiters.\<close>

definition extra_slots :: "db_writer \<Rightarrow> nat" where
  "extra_slots s = admitted s + length (filter is_request (queue s)) + running s"

definition owned :: "db_writer \<Rightarrow> nat" where
  "owned s = card (granted s) + extra_slots s"

lemma more_eq_iff:
  fixes s t :: db_writer
  shows "admission.more s = admission.more t \<longleftrightarrow>
     queue s = queue t \<and> stop_enqueued s = stop_enqueued t \<and> stop_tokens s = stop_tokens t
     \<and> closed_fut s = closed_fut t \<and> worker s = worker t \<and> connection s = connection t
     \<and> admitted s = admitted t \<and> next_request s = next_request t \<and> results s = results t"
  by (cases s; cases t) auto

interpretation writer: admission_accounting extra_slots
  by unfold_locales (simp add: extra_slots_def running_def more_eq_iff)

text \<open>
  After a rollback that raised, the failed worker releases its request's slot a second time:
  from then on the counter may be one below the owned slots.
\<close>

definition fatal :: "db_writer \<Rightarrow> bool" where
  "fatal s = (case worker s of Fatal _ \<Rightarrow> True | Failing \<Rightarrow> True | Exiting f \<Rightarrow> f
                | Exited \<Rightarrow> closed_fut s = ClosedException | _ \<Rightarrow> False)"

definition double_released :: "db_writer \<Rightarrow> bool" where
  "double_released s \<longleftrightarrow> fatal s \<and> (\<forall>r. worker s \<noteq> Fatal r)"

definition acct :: "db_writer \<Rightarrow> bool" where
  "acct s \<longleftrightarrow>
     (if double_released s then int (owned s) - 1 \<le> outstanding s \<and> outstanding s \<le> int (owned s)
      else outstanding s = int (owned s))"

definition working :: "worker_pc \<Rightarrow> bool" where
  "working p = (case p of Idle \<Rightarrow> True | Active _ \<Rightarrow> True | Unwinding _ \<Rightarrow> True | _ \<Rightarrow> False)"

definition stops_on_way :: "db_writer \<Rightarrow> nat" where
  "stops_on_way s = stop_tokens s + count_list (queue s) STOP"

definition stops_ok :: "db_writer \<Rightarrow> bool" where
  "stops_ok s \<longleftrightarrow>
     stops_on_way s \<le> 1
     \<and> (0 < stops_on_way s \<longrightarrow> owned s = 0 \<and> stop_enqueued s)
     \<and> (stop_enqueued s \<longrightarrow> life s \<noteq> Open)
     \<and> (stop_enqueued s \<and> \<not> fatal s \<longrightarrow> owned s = 0)
     \<and> (stop_enqueued s \<and> working (worker s) \<longrightarrow> stops_on_way s = 1)
     \<and> (life s = Closing \<and> outstanding s = 0 \<longrightarrow> stop_enqueued s)
     \<and> (fatal s \<longrightarrow> stop_enqueued s)"

text \<open>Where the worker stands in each phase of the writer's life.\<close>

definition lives_ok :: "db_writer \<Rightarrow> bool" where
  "lives_ok s \<longleftrightarrow>
     0 < queue_capacity s
     \<and> (worker s = NotStarted \<longrightarrow> owned s = 0 \<and> queue s = [] \<and> stop_tokens s = 0
          \<and> \<not> stop_enqueued s \<and> life s \<in> {Open, Closed})
     \<and> (life s = Open \<longrightarrow> worker s = NotStarted \<or> working (worker s))
     \<and> (worker s = Exiting False \<longrightarrow> stop_enqueued s)
     \<and> (worker s = Exited \<longrightarrow> stop_enqueued s \<and> list_all (\<lambda>i. \<not> is_request i) (queue s))
     \<and> (worker s = Exiting True \<longrightarrow> list_all (\<lambda>i. \<not> is_request i) (queue s))
     \<and> (life s = Closed \<longleftrightarrow> closed_fut s \<noteq> ClosedPending)
     \<and> (life s = Closed \<longrightarrow> worker s = NotStarted \<or> worker s = Exited)
     \<and> (worker s = Exited \<longrightarrow> life s = Closed)
     \<and> life s \<in> {Open, Closing, Closed}"

text \<open>The request the worker holds without a result.\<close>

definition held :: "db_writer \<Rightarrow> nat option" where
  "held s = (case worker s of Active r \<Rightarrow> Some r | Unwinding r \<Rightarrow> Some r | Fatal r \<Rightarrow> Some r | _ \<Rightarrow> None)"

text \<open>The accepted requests without a result are those in the queue and the one held, each once.\<close>

definition requests_ok :: "db_writer \<Rightarrow> bool" where
  "requests_ok s \<longleftrightarrow>
     distinct (filter is_request (queue s))
     \<and> (\<forall>r. results s r = None \<and> r < next_request s \<longleftrightarrow> Request r \<in> set (queue s) \<or> held s = Some r)
     \<and> (\<forall>r. held s = Some r \<longrightarrow> Request r \<notin> set (queue s))
     \<and> (\<forall>r. next_request s \<le> r \<longrightarrow> results s r = None)"

definition writer_inv :: "db_writer \<Rightarrow> bool" where
  "writer_inv s \<longleftrightarrow> adm_inv s \<and> acct s \<and> stops_ok s \<and> lives_ok s \<and> requests_ok s"

lemma prepare_stop_frame [simp]:
  "queue_capacity (prepare_stop_locked s) = queue_capacity s"
  "max_waiters (prepare_stop_locked s) = max_waiters s"
  "life (prepare_stop_locked s) = life s" "outstanding (prepare_stop_locked s) = outstanding s"
  "waiters (prepare_stop_locked s) = waiters s" "queue (prepare_stop_locked s) = queue s"
  "closed_fut (prepare_stop_locked s) = closed_fut s" "worker (prepare_stop_locked s) = worker s"
  "connection (prepare_stop_locked s) = connection s" "admitted (prepare_stop_locked s) = admitted s"
  "next_request (prepare_stop_locked s) = next_request s" "results (prepare_stop_locked s) = results s"
  "admission_waiters (prepare_stop_locked s) = admission_waiters s"
  "next_waiter (prepare_stop_locked s) = next_waiter s" "scheduled (prepare_stop_locked s) = scheduled s"
  "rejections (prepare_stop_locked s) = rejections s"
  by (simp_all add: prepare_stop_locked_def)

lemma adm_inv_cong:
  assumes "queue_capacity s = queue_capacity t" "max_waiters s = max_waiters t" "life s = life t"
    "outstanding s = outstanding t" "admission_waiters s = admission_waiters t"
    "waiters s = waiters t" "next_waiter s = next_waiter t" "scheduled s = scheduled t"
    "rejections s = rejections t"
  shows "adm_inv s = adm_inv t"
  using assms
  by (simp add: adm_inv_def adm_core_def settled_def waiting_count_def has_state_def future_done_def)

lemma granted_cong: "waiters s = waiters t \<Longrightarrow> granted s = granted t"
  by (simp add: granted_def has_state_def)

lemma owned_cong:
  "waiters s = waiters t \<Longrightarrow> admitted s = admitted t \<Longrightarrow> queue s = queue t \<Longrightarrow> running s = running t \<Longrightarrow>
   owned s = owned t"
  by (simp add: owned_def extra_slots_def granted_cong [of s t])

lemma writer_predicates_cong:
  "worker s = worker t \<Longrightarrow> running s = running t"
  "worker s = worker t \<Longrightarrow> held s = held t"
  "worker s = worker t \<Longrightarrow> closed_fut s = closed_fut t \<Longrightarrow> fatal s = fatal t"
  "worker s = worker t \<Longrightarrow> closed_fut s = closed_fut t \<Longrightarrow> double_released s = double_released t"
  by (auto simp: running_def held_def fatal_def double_released_def split: worker_pc.splits)

text \<open>
  Inside a locked section, before waiters are granted and the stop signal is considered.
\<close>

definition writer_pre :: "db_writer \<Rightarrow> bool" where
  "writer_pre s \<longleftrightarrow>
     adm_core s \<and> (life s \<noteq> Open \<longrightarrow> settled s) \<and> acct s \<and> lives_ok s \<and> requests_ok s
     \<and> stops_on_way s \<le> 1
     \<and> (0 < stops_on_way s \<longrightarrow> owned s = 0 \<and> stop_enqueued s)
     \<and> (stop_enqueued s \<longrightarrow> life s \<noteq> Open)
     \<and> (stop_enqueued s \<and> \<not> fatal s \<longrightarrow> owned s = 0)
     \<and> (stop_enqueued s \<and> working (worker s) \<longrightarrow> stops_on_way s = 1)
     \<and> (fatal s \<longrightarrow> stop_enqueued s)"

lemma writer_preD:
  assumes "writer_pre s"
  shows "adm_core s" "life s \<noteq> Open \<Longrightarrow> settled s" "acct s" "lives_ok s" "requests_ok s"
    "stops_on_way s \<le> 1" "0 < stops_on_way s \<Longrightarrow> owned s = 0" "0 < stops_on_way s \<Longrightarrow> stop_enqueued s"
    "stop_enqueued s \<Longrightarrow> life s \<noteq> Open" "stop_enqueued s \<Longrightarrow> \<not> fatal s \<Longrightarrow> owned s = 0"
    "stop_enqueued s \<Longrightarrow> working (worker s) \<Longrightarrow> stops_on_way s = 1" "fatal s \<Longrightarrow> stop_enqueued s"
  using assms by (simp_all add: writer_pre_def)

lemma writer_inv_pre:
  "writer_inv s \<longleftrightarrow>
     writer_pre s \<and> settled s \<and> (life s = Closing \<and> outstanding s = 0 \<longrightarrow> stop_enqueued s)"
  by (auto simp: writer_inv_def writer_pre_def stops_ok_def adm_inv_def)

lemma stop_section:
  assumes pre: "writer_pre s" and set: "settled s"
  shows "writer_inv (prepare_stop_locked s)"
proof (cases "life s = Closing \<and> outstanding s = 0 \<and> \<not> stop_enqueued s")
  case True
  let ?u = "prepare_stop_locked s"
  note p = pre [unfolded writer_pre_def]
  have nf: "\<not> fatal s" using p True by auto
  then have own: "owned s = 0" using p True by (simp add: acct_def double_released_def)
  have eqs: "worker ?u = worker s" "closed_fut ?u = closed_fut s" by simp_all
  note pred = writer_predicates_cong(2) [OF eqs(1)] writer_predicates_cong(3,4) [OF eqs]
  have ownu: "owned ?u = owned s" by (rule owned_cong) (auto simp: running_def)
  have "adm_core ?u" "settled ?u"
    using p set
    by (simp_all add: adm_core_def settled_def waiting_count_def has_state_def future_done_def)
  moreover have "acct ?u" using p pred ownu by (simp add: acct_def)
  moreover have "lives_ok ?u" using p ownu True by (auto simp: lives_ok_def prepare_stop_locked_def)
  moreover have "requests_ok ?u" using p pred by (simp add: requests_ok_def)
  moreover have "stops_on_way s = 0" using p True by auto
  then have "stops_on_way ?u = 1" "stop_enqueued ?u"
    using True by (simp_all add: stops_on_way_def prepare_stop_locked_def)
  ultimately show ?thesis
    using own ownu nf pred True by (simp add: writer_inv_pre writer_pre_def)
next
  case False
  then have "prepare_stop_locked s = s" by (auto simp: prepare_stop_locked_def)
  with False pre set show ?thesis by (auto simp: writer_inv_pre)
qed

lemma acct_shift:
  assumes "acct s" and "double_released t = double_released s"
    and "outstanding t - int (owned t) = outstanding s - int (owned s)"
  shows "acct t"
  using assms by (auto simp: acct_def split: if_splits)

lemma more_fields:
  fixes s t :: db_writer
  assumes "admission.more s = admission.more t"
  shows "queue s = queue t" "stop_enqueued s = stop_enqueued t" "stop_tokens s = stop_tokens t"
    "closed_fut s = closed_fut t" "worker s = worker t" "connection s = connection t"
    "admitted s = admitted t" "next_request s = next_request t" "results s = results t"
    "running s = running t" "held s = held t" "fatal s = fatal t"
    "double_released s = double_released t" "stops_on_way s = stops_on_way t"
  using assms
  by (simp_all add: more_eq_iff writer_predicates_cong [of s t] stops_on_way_def)

lemma grant_section:
  assumes pre: "writer_pre s" and idle: "worker s = NotStarted \<Longrightarrow> life s = Open \<Longrightarrow> \<forall>w. \<not> has_state s w Waiting"
  shows "writer_inv (prepare_stop_locked (schedule_admission_grants (grant_waiters_locked s)))"
proof (rule stop_section)
  let ?t = "schedule_admission_grants (grant_waiters_locked s)"
  note p = writer_preD [OF pre]
  have core: "adm_core s" by (rule p(1))
  show set: "settled ?t" using core p(2) by (rule grant_settled)
  have more: "admission.more ?t = admission.more s" by (simp add: adm_simps)
  note f = more_fields [OF more]
  have fr: "life ?t = life s" "queue_capacity ?t = queue_capacity s" by (simp_all add: adm_simps)
  have surplus: "outstanding ?t - int (owned ?t) = outstanding s - int (owned s)"
    using writer.grant_accounted [OF core refl] by (simp add: owned_def)
  have "acct ?t" using p(3) f(13) surplus by (rule acct_shift)
  moreover have own: "owned ?t = owned s" if "life s \<noteq> Open \<or> worker s = NotStarted"
  proof (cases "life s = Open")
    case True
    with that idle have "fst (grant_loop (admission_waiters s) s) = []"
      using grant_loop_grants [of "admission_waiters s" s] by auto
    with True surplus show ?thesis
      by (simp add: grant_waiters_locked_def grant_loop_outstanding adm_simps)
  next
    case False
    with surplus show ?thesis by (simp add: grant_waiters_locked_def adm_simps)
  qed
  moreover have "lives_ok ?t" using p(4) own unfolding lives_ok_def f fr by auto
  moreover have "requests_ok ?t" using p(5) unfolding requests_ok_def f .
  moreover have "adm_core ?t" using core by (rule grant_core)
  ultimately show "writer_pre ?t" using p(6-12) set unfolding writer_pre_def f fr by auto
qed

lemma not_started_idle:
  assumes "writer_inv s" and "worker s = NotStarted"
  shows "outstanding s = 0" and "\<not> has_state s v Waiting" and "\<not> has_state s v Granted"
proof -
  have own: "owned s = 0" "0 < queue_capacity s" and core: "adm_core s" "settled s"
    using assms by (auto simp: writer_inv_def lives_ok_def adm_inv_def)
  then show out: "outstanding s = 0"
    using assms by (simp add: writer_inv_def acct_def double_released_def fatal_def)
  show "\<not> has_state s v Waiting" "\<not> has_state s v Granted"
    using own out core finite_granted [OF core(1)] by (auto simp: settled_def owned_def granted_def)
qed
section \<open>Every step keeps the invariant\<close>

text \<open>
  A section that changes the waiters only: it keeps the surplus of the counter, grants
  nobody and leaves the actor alone.
\<close>

lemma waiters_pre:
  assumes inv: "writer_inv s" and more: "admission.more t = admission.more s"
    and fr: "life t = life s" "queue_capacity t = queue_capacity s"
    and core: "adm_core t" "life s \<noteq> Open \<longrightarrow> settled t"
    and surplus: "outstanding t - int (owned t) = outstanding s - int (owned s)"
    and sub: "granted t \<subseteq> granted s"
  shows "writer_pre t"
proof -
  note i = writer_preD [OF inv [unfolded writer_inv_pre, THEN conjunct1]] and f = more_fields [OF more]
  have "card (granted t) \<le> card (granted s)" using sub i(1) by (intro card_mono finite_granted)
  moreover have "extra_slots t = extra_slots s" using more by (rule writer.extra_frame)
  ultimately have own: "owned t \<le> owned s" by (simp add: owned_def)
  have "acct t" using i(3) f(13) surplus by (rule acct_shift)
  moreover have "lives_ok t" using i(4) own unfolding lives_ok_def f fr by auto
  moreover have "requests_ok t" using i(5) unfolding requests_ok_def f .
  ultimately show ?thesis using i(6-12) own core unfolding writer_pre_def f fr by auto
qed

lemma cancel_inv:
  assumes "writer_inv s"
  shows "writer_inv (cancel_admission w s)"
  unfolding cancel_admission_def
proof (rule grant_section)
  have core: "adm_core s" "settled s" using assms by (auto simp: writer_inv_def adm_inv_def)
  show "writer_pre (drop_admission w s)"
  proof (rule waiters_pre [OF assms])
    show "outstanding (drop_admission w s) - int (owned (drop_admission w s)) = outstanding s - int (owned s)"
      using writer.drop_accounted [OF core(1), of w] by (simp add: owned_def)
    show "granted (drop_admission w s) \<subseteq> granted s" by (rule drop_granted)
  qed (use core in \<open>auto simp: adm_simps drop_core drop_settled\<close>)
  show "\<forall>v. \<not> has_state (drop_admission w s) v Waiting" if "worker (drop_admission w s) = NotStarted"
    using not_started_idle [OF assms] that more_fields(5) [of "drop_admission w s" s]
    by (simp add: adm_simps) (simp add: drop_admission_def)
qed

lemma writer_invD: "writer_inv s \<Longrightarrow> adm_core s" "writer_inv s \<Longrightarrow> settled s" "writer_inv s \<Longrightarrow> adm_inv s"
  by (simp_all add: writer_inv_def adm_inv_def)

text \<open>A section that changes the waiters only and cannot free a slot.\<close>

lemma waiters_inv:
  assumes inv: "writer_inv s" and more: "admission.more t = admission.more s"
    and fr: "life t = life s" "queue_capacity t = queue_capacity s" "outstanding t = outstanding s"
    and adm: "adm_inv t" and grants: "granted t = granted s"
  shows "writer_inv t"
proof -
  have "extra_slots t = extra_slots s" using more by (rule writer.extra_frame)
  then have "owned t = owned s" using grants by (simp add: owned_def)
  then have "writer_pre t"
    using adm grants fr by (intro waiters_pre [OF inv more]) (auto simp: adm_inv_def)
  moreover have "stop_enqueued t = stop_enqueued s" using more_fields(2) [OF more] .
  ultimately show ?thesis using inv adm fr unfolding writer_inv_pre adm_inv_def by simp
qed

lemma set_future_inv:
  assumes "writer_inv s" and "f \<noteq> Pending"
  shows "writer_inv (set_future w f s)"
proof (rule waiters_inv [OF assms(1)])
  show "adm_inv (set_future w f s)"
    using writer_invD(3) [OF assms(1)] assms(2)
    unfolding adm_inv_def adm_core_def settled_def by (auto simp: adm_simps dest: has_state_stored)
qed (simp_all add: adm_simps)

lemma rejection_inv:
  assumes "writer_inv s"
  shows "writer_inv ((deliver_admission_rejection w s)\<lparr>rejections := remove1 w (rejections s)\<rparr>)"
proof (rule waiters_inv [OF assms])
  show "adm_inv ((deliver_admission_rejection w s)\<lparr>rejections := remove1 w (rejections s)\<rparr>)"
    using writer_invD(3) [OF assms] by (rule deliver_rejection_inv)
qed (simp_all add: deliver_admission_rejection_def adm_simps)

lemma undeliverable_pre:
  assumes "writer_inv s"
  shows "writer_inv (cancel_admission w (s\<lparr>scheduled := remove1 w (scheduled s)\<rparr>))"
  unfolding cancel_admission_def
proof (rule grant_section)
  let ?r = "s\<lparr>scheduled := remove1 w (scheduled s)\<rparr>"
  let ?d = "drop_admission w ?r"
  have core: "adm_core s" "settled s" using assms by (auto simp: writer_inv_def adm_inv_def)
  note swap = drop_unscheduled [of w s]
  show "writer_pre ?d"
  proof (rule waiters_pre [OF assms])
    show "outstanding ?d - int (owned ?d) = outstanding s - int (owned s)"
      using writer.drop_accounted [OF core(1), of w] writer.extra_frame [of ?d "drop_admission w s"]
      unfolding swap by (simp add: owned_def adm_simps)
    show "granted ?d \<subseteq> granted s"
      unfolding swap using drop_granted [of w s] by (simp add: adm_simps)
    show "adm_core ?d" unfolding swap using core(1) by (rule drop_unscheduled_core)
    show "life s \<noteq> Open \<longrightarrow> settled ?d"
      using drop_settled [OF core(2)] unfolding swap by (simp add: settled_def adm_simps)
  qed (simp_all add: adm_simps)
  show "\<forall>v. \<not> has_state ?d v Waiting" if "worker ?d = NotStarted"
  proof -
    have "worker s = NotStarted" using that more_fields(5) [of ?d s] by (simp add: adm_simps)
    with not_started_idle [OF assms] show ?thesis unfolding swap by (simp add: drop_admission_def adm_simps)
  qed
qed

lemma deliver_inv:
  assumes "writer_inv s"
  shows "writer_inv (deliver_grant w s)"
proof (cases "deliver_admission_grant w s")
  case (Inl t)
  have "writer_inv (t\<lparr>scheduled := remove1 w (scheduled s)\<rparr>)"
  proof (rule waiters_inv [OF assms])
    show "adm_inv (t\<lparr>scheduled := remove1 w (scheduled s)\<rparr>)"
      using writer_invD(3) [OF assms] Inl by (rule deliver_grant_Inl_inv)
  qed (use Inl in \<open>auto simp: deliver_admission_grant_def adm_simps split: if_splits\<close>)
  with Inl show ?thesis by (simp add: deliver_grant_def)
next
  case (Inr t)
  then have t: "t = drop_admission w s" by (rule deliver_grant_drop)
  from undeliverable_pre [OF assms, of w] Inr t show ?thesis
    by (simp add: deliver_grant_def cancel_admission_def drop_unscheduled)
qed

text \<open>A section that also moves the slot of a caller, with the worker and the queue as they were.\<close>

lemma caller_pre:
  assumes inv: "writer_inv s"
    and same: "queue t = queue s" "stop_enqueued t = stop_enqueued s" "stop_tokens t = stop_tokens s"
      "closed_fut t = closed_fut s" "worker t = worker s" "next_request t = next_request s"
      "results t = results s" "life t = life s" "queue_capacity t = queue_capacity s"
    and core: "adm_core t" "life s \<noteq> Open \<longrightarrow> settled t" and acct: "acct t"
    and own: "owned t \<le> owned s \<or> life s = Open \<and> worker s \<noteq> NotStarted"
  shows "writer_pre t"
proof -
  note i = writer_preD [OF inv [unfolded writer_inv_pre, THEN conjunct1]]
  have f: "held t = held s" "fatal t = fatal s" "stops_on_way t = stops_on_way s"
    using same by (simp_all add: stops_on_way_def writer_predicates_cong [of t s])
  have "lives_ok t" using i(4) own unfolding lives_ok_def same by auto
  moreover have "requests_ok t" using i(5) unfolding requests_ok_def same f .
  ultimately show ?thesis using i(6-12) own core acct unfolding writer_pre_def same f by auto
qed

lemma ensure_worker_started_inv:
  assumes inv: "writer_inv s" and "life s = Open" and "ensure_worker_started_locked ok s = (r, t)"
  shows "writer_inv t \<and> (r = Inr () \<longrightarrow> life t = Open \<and> worker t \<noteq> NotStarted)"
proof (cases "worker s = NotStarted")
  case True
  note i = inv [unfolded writer_inv_def] and idle = not_started_idle [OF inv True]
  have own: "owned s = 0" "queue s = []" "stop_tokens s = 0" "\<not> stop_enqueued s"
    using i True by (auto simp: lives_ok_def)
  let ?a = "s\<lparr>worker := Idle\<rparr>" and ?b = "s\<lparr>life := Closed, closed_fut := ClosedException\<rparr>"
  have core: "adm_core ?a" "adm_core ?b" "settled ?a" "settled ?b"
    using i idle by (auto simp: adm_inv_def adm_core_def settled_def waiting_count_def has_state_def future_done_def)
  have o: "owned ?a = 0" "owned ?b = 0"
    using own True by (auto simp: owned_def extra_slots_def running_def granted_def has_state_def)
  have "writer_inv ?a"
    using i core o own idle assms(2)
    by (auto simp: writer_inv_def adm_inv_def acct_def double_released_def fatal_def stops_ok_def
        stops_on_way_def lives_ok_def working_def requests_ok_def held_def True)
  moreover have "writer_inv ?b"
    using i core o own idle assms(2)
    by (auto simp: writer_inv_def adm_inv_def acct_def double_released_def fatal_def stops_ok_def
        stops_on_way_def lives_ok_def working_def requests_ok_def held_def True)
  ultimately show ?thesis
    using True assms by (auto simp: ensure_worker_started_locked_def split: if_splits)
qed (use assms in \<open>auto simp: ensure_worker_started_locked_def\<close>)

lemma acquire_locked_inv:
  assumes inv: "writer_inv s" and op: "life s = Open" "worker s \<noteq> NotStarted"
    and acq: "acquire_locked m s = (r, y)"
    and t: "t = (if r = Inr None then y\<lparr>admitted := admitted y + 1\<rparr> else y)"
  shows "writer_inv t"
proof -
  have y: "y = snd (acquire_locked m s)" using acq by simp
  have more: "admission.more y = admission.more s" by (simp add: y adm_simps)
  note f = more_fields [OF more]
  have nd: "\<not> double_released s"
    using inv op by (auto simp: writer_inv_def stops_ok_def double_released_def)
  have "outstanding s = int (owned s)" using inv nd by (simp add: writer_inv_def acct_def)
  then have "outstanding y = int (owned y) + (if r = Inr None then 1 else 0)"
    using writer.acquire_accounted [OF writer_invD(1) [OF inv] _ acq] by (simp add: owned_def)
  moreover have "owned t = owned y + (if r = Inr None then 1 else 0)"
    by (simp add: t owned_def extra_slots_def running_def granted_cong [of "y\<lparr>admitted := x\<rparr>" y for x])
  moreover have "double_released t = double_released s"
    using f by (intro writer_predicates_cong) (simp_all add: t)
  ultimately have acct: "acct t" using nd by (simp add: acct_def t)
  have adm: "adm_inv y" unfolding y by (rule acquire_inv) (use inv op in \<open>auto simp: writer_inv_def\<close>)
  then have adm: "adm_inv t" using adm_inv_cong [of t y] by (simp add: t)
  have "writer_pre t"
    by (rule caller_pre [OF inv])
      (use f op acct adm in \<open>auto simp: t adm_inv_def y adm_simps\<close>)
  then show ?thesis using adm op by (simp add: writer_inv_pre adm_inv_def t y adm_simps)
qed

lemma acquire_capacity_inv:
  assumes "writer_inv s" and "acquire_capacity ok s = (r, t)"
  shows "writer_inv t"
proof (cases "life s = Open")
  case True
  obtain q s1 where e: "ensure_worker_started_locked ok s = (q, s1)" by fastforce
  obtain a s2 where l: "acquire_locked ''database writer admission queue is full'' s1 = (a, s2)" by fastforce
  note es = ensure_worker_started_inv [OF assms(1) True e]
  show ?thesis
  proof (cases q)
    case (Inl x)
    then show ?thesis
      using assms e es True by (simp add: acquire_capacity_def raise_if_not_open_locked_def)
  next
    case (Inr x)
    with es have s1: "writer_inv s1" "life s1 = Open" "worker s1 \<noteq> NotStarted" by auto
    show ?thesis
      using acquire_locked_inv [OF s1 l refl] assms(2) e l Inr True
      by (auto simp: acquire_capacity_def raise_if_not_open_locked_def split: sum.splits option.splits if_splits)
  qed
qed (use assms in \<open>auto simp: acquire_capacity_def raise_if_not_open_locked_def\<close>)

lemma resume_inv:
  assumes inv: "writer_inv s" and "resume_waiter w s = (r, t)"
  shows "writer_inv t"
proof (cases "consume_admission w s")
  case None
  then show ?thesis using assms cancel_inv by (auto simp: resume_waiter_def)
next
  case (Some y)
  then have g: "has_state s w Granted" and y: "y = set_state w Consumed s"
    by (auto simp: consume_admission_def split: if_splits)
  have t: "t = y\<lparr>admitted := admitted s + 1\<rparr>" using assms(2) Some by (simp add: resume_waiter_def)
  have more: "admission.more y = admission.more s" by (simp add: y adm_simps)
  note f = more_fields [OF more]
  have adm: "adm_inv t"
    using consume_inv [OF writer_invD(3) [OF inv] Some] adm_inv_cong [of t y] by (simp add: t)
  have own: "owned t = owned s"
    using writer.set_state_granted [OF writer_invD(1) [OF inv] g, of Consumed] f
    by (simp add: owned_def extra_slots_def t y running_def granted_cong [of "v\<lparr>admitted := x\<rparr>" v for x v])
  have out: "outstanding t = outstanding s" "life t = life s" "queue_capacity t = queue_capacity s"
    by (simp_all add: t y adm_simps)
  have "acct t"
    by (rule acct_shift [of s])
      (use inv own out f in \<open>auto simp: writer_inv_def t intro!: writer_predicates_cong\<close>)
  then have "writer_pre t"
    by (intro caller_pre [OF inv]) (use adm own f out in \<open>auto simp: adm_inv_def t\<close>)
  then show ?thesis using adm inv out f(2) by (simp add: writer_inv_pre adm_inv_def t)
qed

section \<open>The worker's steps\<close>

lemma set_state_worker: "set_state w st (s\<lparr>worker := p\<rparr>) = (set_state w st s)\<lparr>worker := p\<rparr>"
  by (simp add: set_state_def)

lemma has_state_worker [simp]:
  "has_state (s\<lparr>worker := p\<rparr>) = has_state s" "has_state (s\<lparr>queue := q\<rparr>) = has_state s"
  "has_state (s\<lparr>results := f\<rparr>) = has_state s" "has_state (s\<lparr>connection := c\<rparr>) = has_state s"
  "has_state (s\<lparr>admitted := n\<rparr>) = has_state s" "has_state (s\<lparr>stop_enqueued := b\<rparr>) = has_state s"
  "has_state (s\<lparr>stop_tokens := n\<rparr>) = has_state s" "has_state (s\<lparr>next_request := n\<rparr>) = has_state s"
  "has_state (s\<lparr>closed_fut := x\<rparr>) = has_state s" "has_state (s\<lparr>outstanding := i\<rparr>) = has_state s"
  "has_state (s\<lparr>life := l\<rparr>) = has_state s"
  by (simp_all add: has_state_def fun_eq_iff)

lemma future_done_worker [simp]:
  "future_done (s\<lparr>worker := p\<rparr>) = future_done s" "future_done (s\<lparr>queue := q\<rparr>) = future_done s"
  "future_done (s\<lparr>results := f\<rparr>) = future_done s" "future_done (s\<lparr>connection := c\<rparr>) = future_done s"
  "future_done (s\<lparr>admitted := n\<rparr>) = future_done s" "future_done (s\<lparr>stop_enqueued := b\<rparr>) = future_done s"
  "future_done (s\<lparr>stop_tokens := n\<rparr>) = future_done s" "future_done (s\<lparr>next_request := n\<rparr>) = future_done s"
  "future_done (s\<lparr>closed_fut := x\<rparr>) = future_done s" "future_done (s\<lparr>outstanding := i\<rparr>) = future_done s"
  "future_done (s\<lparr>life := l\<rparr>) = future_done s"
  by (simp_all add: future_done_def fun_eq_iff)

lemma granted_worker [simp]:
  "granted (s\<lparr>worker := p\<rparr>) = granted s" "granted (s\<lparr>queue := q\<rparr>) = granted s"
  "granted (s\<lparr>results := f\<rparr>) = granted s" "granted (s\<lparr>connection := c\<rparr>) = granted s"
  "granted (s\<lparr>admitted := n\<rparr>) = granted s" "granted (s\<lparr>stop_enqueued := b\<rparr>) = granted s"
  "granted (s\<lparr>stop_tokens := n\<rparr>) = granted s" "granted (s\<lparr>next_request := n\<rparr>) = granted s"
  "granted (s\<lparr>closed_fut := x\<rparr>) = granted s" "granted (s\<lparr>outstanding := i\<rparr>) = granted s"
  "granted (s\<lparr>life := l\<rparr>) = granted s"
  by (simp_all add: granted_def)

lemma grant_loop_worker:
  "grant_loop ws (s\<lparr>worker := p\<rparr>) = map_prod id (worker_update (\<lambda>_. p)) (grant_loop ws s)"
proof (induction ws arbitrary: s)
  case (Cons w ws)
  have "(set_state w Granted (s\<lparr>worker := p\<rparr>))\<lparr>outstanding := n\<rparr>
      = ((set_state w Granted s)\<lparr>outstanding := n\<rparr>)\<lparr>worker := p\<rparr>" for n
    by (simp add: set_state_worker)
  with Cons show ?case by (auto simp: Let_def case_prod_unfold)
qed simp

lemma worker_commutes:
  "s\<lparr>worker := p, outstanding := n\<rparr> = s\<lparr>outstanding := n, worker := p\<rparr>"
  "grant_waiters_locked (s\<lparr>worker := p\<rparr>) = map_prod id (worker_update (\<lambda>_. p)) (grant_waiters_locked s)"
  "schedule_admission_grants (map_prod id (worker_update (\<lambda>_. p)) gs)
     = (schedule_admission_grants gs)\<lparr>worker := p\<rparr>"
  "prepare_stop_locked (s\<lparr>worker := p\<rparr>) = (prepare_stop_locked s)\<lparr>worker := p\<rparr>"
proof -
  show "s\<lparr>worker := p, outstanding := n\<rparr> = s\<lparr>outstanding := n, worker := p\<rparr>" by (cases s) simp
  show "grant_waiters_locked (s\<lparr>worker := p\<rparr>) = map_prod id (worker_update (\<lambda>_. p)) (grant_waiters_locked s)"
    by (simp add: grant_waiters_locked_def grant_loop_worker)
  show "schedule_admission_grants (map_prod id (worker_update (\<lambda>_. p)) gs)
     = (schedule_admission_grants gs)\<lparr>worker := p\<rparr>"
    by (cases gs) (simp add: schedule_admission_grants_def)
  show "prepare_stop_locked (s\<lparr>worker := p\<rparr>) = (prepare_stop_locked s)\<lparr>worker := p\<rparr>"
    by (cases s) (simp add: prepare_stop_locked_def)
qed

lemma release_worker:
  "release_capacity (s\<lparr>worker := p\<rparr>) = map_sum id (worker_update (\<lambda>_. p)) (release_capacity s)"
  unfolding release_capacity_def Let_def by (simp add: worker_commutes)

lemma release_inv:
  assumes "writer_pre (s\<lparr>outstanding := outstanding s - 1\<rparr>)" and "0 < outstanding s"
    and "worker s \<noteq> NotStarted"
  shows "\<exists>t. release_capacity s = Inr t \<and> writer_inv t"
  using grant_section [OF assms(1)] assms(2,3) by (simp add: release_capacity_def Let_def)

text \<open>Admission is untouched by changes of the actor's own fields.\<close>

lemma adm_core_actor:
  assumes "queue_capacity t = queue_capacity s" "max_waiters t = max_waiters s"
    "admission_waiters t = admission_waiters s"
    "waiters t = waiters s" "next_waiter t = next_waiter s" "scheduled t = scheduled s"
    "rejections t = rejections s" "outstanding t \<le> outstanding s"
  shows "adm_core s \<Longrightarrow> adm_core t" "settled s \<Longrightarrow> life s \<noteq> Open \<Longrightarrow> settled t"
  using assms
  by (auto simp: adm_core_def settled_def waiting_count_def has_state_def future_done_def)

lemma finish_request_pre:
  assumes inv: "writer_inv s" and act: "worker s = Active r"
    and t: "queue t = queue s" "stop_enqueued t = stop_enqueued s" "stop_tokens t = stop_tokens s"
      "closed_fut t = closed_fut s" "next_request t = next_request s" "life t = life s"
      "queue_capacity t = queue_capacity s" "max_waiters t = max_waiters s" "admission_waiters t = admission_waiters s"
      "waiters t = waiters s" "next_waiter t = next_waiter s" "scheduled t = scheduled s"
      "rejections t = rejections s" "admitted t = admitted s"
    and out: "outstanding t = outstanding s - 1"
    and cases: "worker t = Idle \<and> results t = (results s)(r \<mapsto> x) \<or> worker t = Unwinding r \<and> results t = results s"
  shows "writer_pre t"
proof -
  note i = writer_preD [OF inv [unfolded writer_inv_pre, THEN conjunct1]]
  have own: "owned s = Suc (owned t)"
    using act cases t by (auto simp: owned_def extra_slots_def running_def granted_cong [of t s])
  have nf: "\<not> fatal s" "\<not> fatal t" "\<not> double_released s" "\<not> double_released t"
    using act cases by (auto simp: fatal_def double_released_def)
  have "acct t" using i(3) nf own out by (simp add: acct_def)
  moreover have nostop: "stops_on_way s = 0" "\<not> stop_enqueued s" using i(7,10) own nf(1) by auto
  moreover have "stops_on_way t = stops_on_way s" using t by (simp add: stops_on_way_def)
  moreover have "lives_ok t"
    using i(4) act cases t by (auto simp: lives_ok_def working_def)
  moreover have "requests_ok t"
    using i(5) act cases t by (fastforce simp: requests_ok_def held_def)
  moreover have "adm_core t" "life t \<noteq> Open \<longrightarrow> settled t"
    using adm_core_actor [of t s] writer_invD [OF inv] t out by auto
  ultimately show ?thesis using nf t by (simp add: writer_pre_def)
qed

lemma run_request_inv:
  assumes inv: "writer_inv s" and act: "worker s = Active r"
  shows "writer_inv (run_request out r s)"
proof -
  define s1 where "s1 = (case out of
           OpenFailed \<Rightarrow> s\<lparr>results := (results s)(r \<mapsto> FailedWith)\<rparr>
         | Committed \<Rightarrow> s\<lparr>results := (results s)(r \<mapsto> Succeeded), connection := True\<rparr>
         | RolledBack \<Rightarrow> s\<lparr>results := (results s)(r \<mapsto> FailedWith), connection := True\<rparr>
         | ConnectionLost \<Rightarrow> s\<lparr>results := (results s)(r \<mapsto> FailedWith), connection := False\<rparr>
         | RollbackRaised \<Rightarrow> s\<lparr>connection := True\<rparr>)"
  define p where "p = (if out = RollbackRaised then Unwinding r else Idle)"
  have own: "0 < outstanding s1"
    using inv act by (auto simp: s1_def writer_inv_def acct_def double_released_def fatal_def owned_def
        extra_slots_def running_def split: run_outcome.splits)
  have "writer_pre ((s1\<lparr>worker := p\<rparr>)\<lparr>outstanding := outstanding (s1\<lparr>worker := p\<rparr>) - 1\<rparr>)"
    by (rule finish_request_pre [OF inv act, where x = "if out = Committed then Succeeded else FailedWith"])
      (auto simp: s1_def p_def split: run_outcome.splits)
  then obtain t where "release_capacity (s1\<lparr>worker := p\<rparr>) = Inr t" "writer_inv t"
    using release_inv [of "s1\<lparr>worker := p\<rparr>"] own by (cases "out = RollbackRaised") (auto simp: p_def)
  then obtain y where "release_capacity s1 = Inr y" "writer_inv (y\<lparr>worker := p\<rparr>)"
    unfolding release_worker by (cases "release_capacity s1") auto
  then show ?thesis unfolding run_request_def s1_def [symmetric] Let_def by (simp add: p_def)
qed

lemma requests_bound: "count_list q STOP + length (filter is_request q) = length q"
proof (induction q)
  case (Cons i q)
  then show ?case by (cases i) auto
qed simp

lemma queue_fits:
  assumes "writer_inv s"
  shows "life s = Open \<Longrightarrow> 0 < admitted s \<Longrightarrow> length (queue s) < queue_capacity s"
    and "0 < stop_tokens s \<Longrightarrow> queue s = []"
proof -
  note i = writer_preD [OF assms [unfolded writer_inv_pre, THEN conjunct1]]
  assume "life s = Open" "0 < admitted s"
  with i(9,12) have "\<not> double_released s" by (auto simp: double_released_def)
  with i(3) have "outstanding s = int (owned s)" by (simp add: acct_def)
  moreover have "outstanding s \<le> int (queue_capacity s)" using i(1) by (simp add: adm_core_def)
  moreover have "stops_on_way s = 0" using i(8,9) \<open>life s = Open\<close> by auto
  ultimately show "length (queue s) < queue_capacity s"
    using \<open>0 < admitted s\<close> requests_bound [of "queue s"]
    by (auto simp: owned_def extra_slots_def stops_on_way_def)
next
  note i = writer_preD [OF assms [unfolded writer_inv_pre, THEN conjunct1]]
  assume "0 < stop_tokens s"
  then have "owned s = 0" "count_list (queue s) STOP = 0"
    using i(6,7) by (auto simp: stops_on_way_def)
  then show "queue s = []" using requests_bound [of "queue s"] by (simp add: owned_def extra_slots_def)
qed

lemma submit_inv:
  assumes inv: "writer_inv s" and adm: "0 < admitted s" and sub: "submit s = (r, t)"
  shows "writer_inv t"
proof -
  note i = writer_preD [OF inv [unfolded writer_inv_pre, THEN conjunct1]]
  let ?s = "s\<lparr>admitted := admitted s - 1\<rparr>"
  have own: "owned s = Suc (owned ?s)" using adm by (simp add: owned_def extra_slots_def running_def)
  have pred: "held (v\<lparr>admitted := n\<rparr>) = held v" "fatal (v\<lparr>admitted := n\<rparr>) = fatal v"
      "double_released (v\<lparr>admitted := n\<rparr>) = double_released v" for n v
    by (rule writer_predicates_cong; simp)+
  consider (closed) "life s \<noteq> Open" "0 < outstanding s" | (underflow) "life s \<noteq> Open" "outstanding s \<le> 0"
    | (put) "life s = Open" by fastforce
  then show ?thesis
  proof cases
    case closed
    let ?u = "?s\<lparr>outstanding := outstanding s - 1\<rparr>"
    have ownu: "owned ?u = owned ?s" by (rule owned_cong) (auto simp: running_def)
    have pu: "double_released ?u = double_released s" by (rule writer_predicates_cong) auto
    have "acct ?u" using i(3) own ownu pu by (auto simp: acct_def split: if_splits)
    moreover have "adm_core ?u" "settled ?u"
      using adm_core_actor [of ?u s] writer_invD [OF inv] closed by auto
    ultimately have "writer_pre ?u"
      by (intro caller_pre [OF inv]) (use own ownu in auto)
    moreover have "t = prepare_stop_locked ?u" using sub closed by (simp add: submit_def Let_def)
    ultimately show ?thesis using \<open>settled ?u\<close> stop_section by blast
  next
    case underflow
    have "double_released s" using i(3) own underflow by (auto simp: acct_def split: if_splits)
    moreover have t: "t = ?s" using sub underflow by (simp add: submit_def Let_def release_capacity_def)
    ultimately have "acct t" using i(3) own underflow pred by (auto simp: acct_def split: if_splits)
    moreover have "adm_core t" "settled t"
      using adm_core_actor [of t s] writer_invD [OF inv] underflow t by auto
    ultimately have "writer_pre t"
      by (intro caller_pre [OF inv]) (use own t in auto)
    moreover have "stop_enqueued t" using \<open>double_released s\<close> i(12) t by (simp add: double_released_def)
    ultimately show ?thesis using \<open>settled t\<close> by (simp add: writer_inv_pre)
  next
    case put
    let ?n = "next_request s"
    have fits: "length (queue s) < queue_capacity s" using queue_fits(1) [OF inv put adm] .
    then have t: "t = s\<lparr>admitted := admitted s - 1, queue := queue s @ [Request ?n], next_request := ?n + 1\<rparr>"
      using sub put by (simp add: submit_def Let_def)
    have f: "held t = held s" "fatal t = fatal s" "double_released t = double_released s"
      by (rule writer_predicates_cong; simp add: t)+
    have owt: "owned t = owned s" using adm by (simp add: t owned_def extra_slots_def running_def)
    have "acct t" using i(3) owt f by (simp add: acct_def t)
    moreover have ns: "worker s \<noteq> NotStarted" using i(4) own by (auto simp: lives_ok_def)
    then have "working (worker s)" using i(4) put by (auto simp: lives_ok_def)
    then have "lives_ok t" using i(4) ns owt put by (auto simp: lives_ok_def t working_def)
    moreover have "?n \<noteq> r" if "held s = Some r \<or> Request r \<in> set (queue s)" for r
      using i(5) that by (auto simp: requests_ok_def)
    then have "requests_ok t"
      using i(5) f(1) by (auto simp: requests_ok_def t less_Suc_eq)
    moreover have "adm_core t" using i(1) adm_core_actor(1) [of t s] by (simp add: t)
    moreover have "stops_on_way t = stops_on_way s" by (simp add: stops_on_way_def t)
    ultimately have "writer_pre t"
      using i(6-12) owt f put by (auto simp: writer_pre_def t)
    moreover have "settled t" using writer_invD(2) [OF inv] by (simp add: settled_def t)
    ultimately show ?thesis using put by (simp add: writer_inv_pre t)
  qed
qed

lemma reject_more:
  fixes s :: db_writer
  shows "admission.more (reject_waiters s) = admission.more s" by (simp add: adm_simps)

lemmas reject_fields = more_fields [OF reject_more]

lemma owned_reject: "owned (reject_waiters s) = owned s"
  by (simp add: owned_def adm_simps writer.extra_frame [OF reject_more])

lemma close_inv:
  assumes inv: "writer_inv s"
  shows "writer_inv (close_writer s)"
proof (cases "life s = Open")
  case True
  note i = writer_preD [OF inv [unfolded writer_inv_pre, THEN conjunct1]]
  let ?c = "s\<lparr>life := Closing\<rparr>"
  let ?t = "reject_waiters ?c"
  have core: "adm_core ?t" "settled ?t"
    using reject_core [of ?c] reject_settled [of ?c] i(1) core_update_free(1) [of Closing s] by auto
  have pred: "held ?t = held s" "fatal ?t = fatal s" "double_released ?t = double_released s" "owned ?t = owned s"
      "stops_on_way ?t = stops_on_way s"
    unfolding reject_fields owned_reject
    by (rule writer_predicates_cong; simp)+ (simp_all add: owned_def extra_slots_def running_def stops_on_way_def)
  have nd: "\<not> fatal s" "stops_on_way s = 0" "\<not> stop_enqueued s" using i(8,9,12) True by auto
  have acct: "acct ?t" using i(3) pred by (simp add: acct_def adm_simps)
  have req: "requests_ok ?t" using i(5) pred by (simp add: requests_ok_def reject_fields)
  have live: "life ?t = Closing" "worker ?t = worker s" "queue ?t = queue s" "closed_fut ?t = closed_fut s"
      "stop_tokens ?t = stop_tokens s" "stop_enqueued ?t = stop_enqueued s" "outstanding ?t = outstanding s"
      "queue_capacity ?t = queue_capacity s"
    by (simp_all add: reject_fields adm_simps)
  show ?thesis
  proof (cases "worker s = NotStarted")
    case False
    then have "working (worker s)" using i(4) True by (auto simp: lives_ok_def)
    then have "lives_ok ?t" using i(4) False True by (auto simp: lives_ok_def live working_def)
    then have "writer_pre ?t"
      using acct req core nd pred by (simp add: writer_pre_def live)
    then have "writer_inv (prepare_stop_locked ?t)" using core(2) by (rule stop_section)
    moreover have "close_writer s = prepare_stop_locked ?t"
      using True False by (simp add: close_writer_def prepare_stop_locked_def Let_def live)
    ultimately show ?thesis by simp
  next
    case ns: True
    let ?u = "?t\<lparr>life := Closed, closed_fut := ClosedResult\<rparr>"
    have "outstanding s = 0" using not_started_idle(1) [OF inv ns] .
    then have u: "close_writer s = ?u" using True nd ns by (simp add: close_writer_def Let_def live)
    have p: "owned ?u = owned s" "stops_on_way ?u = 0" "\<not> fatal ?u" "\<not> double_released ?u" "held ?u = held s"
      using pred nd ns
      by (simp_all add: owned_def extra_slots_def running_def stops_on_way_def fatal_def double_released_def live held_def)
    have "owned s = 0" using i(4) ns by (auto simp: lives_ok_def)
    then have "acct ?u" "lives_ok ?u"
      using i(4) ns p \<open>outstanding s = 0\<close> nd by (auto simp: acct_def lives_ok_def live)
    moreover have "requests_ok ?u" using req p pred by (simp add: requests_ok_def)
    moreover have "adm_core ?u" "settled ?u"
      using core by (auto simp: adm_core_def settled_def waiting_count_def live)
    ultimately show ?thesis
      unfolding u using p nd by (simp add: writer_inv_pre writer_pre_def live)
  qed
qed (use inv in \<open>simp add: close_writer_def\<close>)

text \<open>Steps of the worker that leave the waiters and the counter's meaning to the caller of the lemma.\<close>

lemma worker_pre:
  assumes inv: "writer_inv s"
    and t: "life t = life s" "queue_capacity t = queue_capacity s" "max_waiters t = max_waiters s"
      "admission_waiters t = admission_waiters s" "waiters t = waiters s" "next_waiter t = next_waiter s"
      "scheduled t = scheduled s" "rejections t = rejections s" "outstanding t \<le> outstanding s"
      "life s \<noteq> Open \<or> outstanding t = outstanding s"
    and ok: "acct t" "lives_ok t" "requests_ok t" "stops_ok t"
  shows "writer_inv t"
proof -
  have "adm_core t" using adm_core_actor(1) [of t s] writer_invD(1) [OF inv] t by auto
  moreover have "settled t"
    using writer_invD(2) [OF inv] t by (auto simp: settled_def has_state_def)
  ultimately show ?thesis using ok by (simp add: writer_inv_def adm_inv_def)
qed

lemma put_stop_inv:
  assumes inv: "writer_inv s" and tok: "0 < stop_tokens s"
  shows "\<exists>t. put_stop s = Inr t \<and> writer_inv t"
proof -
  note i = inv [unfolded writer_inv_def]
  let ?t = "s\<lparr>queue := queue s @ [STOP], stop_tokens := stop_tokens s - 1\<rparr>"
  have q: "queue s = []" using queue_fits(2) [OF inv tok] .
  have f: "held ?t = held s" "fatal ?t = fatal s" "double_released ?t = double_released s"
    by (rule writer_predicates_cong; simp)+
  have own: "owned ?t = owned s" by (simp add: owned_def extra_slots_def running_def)
  have sw: "stops_on_way ?t = stops_on_way s" using tok by (simp add: stops_on_way_def)
  have "writer_inv ?t"
  proof (rule worker_pre [OF inv])
    show "acct ?t" using i own f by (simp add: acct_def)
    show "lives_ok ?t" using i tok own by (auto simp: lives_ok_def)
    show "requests_ok ?t" using i f by (simp add: requests_ok_def)
    show "stops_ok ?t" using i own f sw by (simp add: stops_ok_def)
  qed simp_all
  moreover have "put_stop s = Inr ?t" using i q by (auto simp: put_stop_def lives_ok_def)
  ultimately show ?thesis by blast
qed

lemma get_inv:
  assumes inv: "writer_inv s" and idle: "worker s = Idle" and ne: "queue s \<noteq> []"
  shows "writer_inv (writer_get s)"
proof (cases "queue s")
  case Nil
  with ne show ?thesis by simp
next
  case (Cons it q)
  note i = inv [unfolded writer_inv_def]
  have ns: "\<not> fatal s" "\<not> double_released s" "held s = None" "running s = 0"
    using idle by (auto simp: fatal_def double_released_def held_def running_def)
  show ?thesis
  proof (cases it)
    case STOP
    let ?t = "s\<lparr>queue := q, worker := Exiting False\<rparr>"
    have t: "writer_get s = ?t" using idle Cons STOP by (simp add: writer_get_def)
    have own: "owned s = 0" "stop_enqueued s" "stop_tokens s = 0" "count_list q STOP = 0"
      using i Cons STOP by (auto simp: stops_ok_def stops_on_way_def)
    then have q: "q = []" using requests_bound [of q] Cons STOP by (simp add: owned_def extra_slots_def)
    have ot: "owned ?t = 0" using own by (simp add: owned_def extra_slots_def running_def q Cons)
    have ft: "\<not> fatal ?t" "\<not> double_released ?t" "held ?t = None"
      by (auto simp: fatal_def double_released_def held_def)
    have out: "outstanding s = 0" using i own ns by (simp add: acct_def)
    have "life s \<noteq> Open" "life s \<noteq> Closed" using i own idle by (auto simp: stops_ok_def lives_ok_def)
    show ?thesis unfolding t
    proof (rule worker_pre [OF inv])
      show "acct ?t" using ot ft out by (simp add: acct_def)
      show "lives_ok ?t" using i own \<open>life s \<noteq> Open\<close> \<open>life s \<noteq> Closed\<close> q by (auto simp: lives_ok_def)
      show "requests_ok ?t" using i Cons ns ft STOP by (auto simp: requests_ok_def q)
      show "stops_ok ?t" using ot ft own \<open>life s \<noteq> Open\<close> by (auto simp: stops_ok_def stops_on_way_def q working_def)
    qed simp_all
  next
    case (Request r)
    let ?t = "s\<lparr>queue := q, worker := Active r\<rparr>"
    have t: "writer_get s = ?t" using idle Cons Request by (simp add: writer_get_def)
    have ot: "owned ?t = owned s" using Cons Request ns by (simp add: owned_def extra_slots_def running_def)
    have ft: "\<not> fatal ?t" "\<not> double_released ?t" "held ?t = Some r"
      by (auto simp: fatal_def double_released_def held_def)
    have sw: "stops_on_way ?t = stops_on_way s" using Cons Request by (simp add: stops_on_way_def)
    show ?thesis unfolding t
    proof (rule worker_pre [OF inv])
      show "acct ?t" using i ot ft ns by (simp add: acct_def)
      show "lives_ok ?t" using i idle by (auto simp: lives_ok_def working_def)
      show "requests_ok ?t" using i Cons ns ft Request by (auto simp: requests_ok_def)
      show "stops_ok ?t" using i ot ft ns sw idle by (auto simp: stops_ok_def working_def)
    qed simp_all
  qed
qed

lemma fatal_inv:
  assumes inv: "writer_inv s" and un: "worker s = Unwinding r"
  shows "writer_inv (begin_fatal_shutdown r s)"
proof -
  note i = inv [unfolded writer_inv_def]
  have nc: "life s \<noteq> Closed" using i un by (auto simp: lives_ok_def)
  let ?c = "s\<lparr>life := Closing\<rparr>"
  let ?d = "reject_waiters ?c"
  let ?t = "?d\<lparr>stop_enqueued := True, worker := Fatal r\<rparr>"
  have t: "begin_fatal_shutdown r s = ?t" using nc by (simp add: begin_fatal_shutdown_def)
  have live: "queue ?d = queue s" "closed_fut ?d = closed_fut s" "stop_tokens ?d = stop_tokens s"
      "results ?d = results s" "next_request ?d = next_request s" "admitted ?d = admitted s"
    by (simp_all add: reject_fields)
  have adm: "outstanding ?d = outstanding s" "queue_capacity ?d = queue_capacity s" "life ?d = Closing"
      "granted ?d = granted s"
    by (simp_all add: adm_simps)
  have core: "adm_core ?d" "settled ?d"
    using reject_core [of ?c] reject_settled [of ?c] i core_update_free(1) [of Closing s]
    by (auto simp: adm_inv_def)
  then have "adm_inv ?t" using adm_inv_cong [of ?t ?d] by (simp add: adm_inv_def)
  moreover have own: "owned ?t = owned s"
    using un by (simp add: owned_def extra_slots_def running_def live adm)
  moreover have nd: "\<not> double_released s" "\<not> double_released ?t" "fatal ?t" "\<not> fatal s" "held ?t = held s"
    using un by (auto simp: double_released_def fatal_def held_def)
  moreover have "acct ?t" using i own nd by (simp add: acct_def adm)
  moreover have "stops_on_way ?t = stops_on_way s" by (simp add: stops_on_way_def live)
  moreover have "requests_ok ?t" using i nd(5) by (simp add: requests_ok_def live)
  moreover have "lives_ok ?t" using i nc un by (auto simp: lives_ok_def live adm)
  moreover have "stops_ok s" using i by blast
  ultimately show ?thesis
    unfolding t using un by (auto simp: writer_inv_def stops_ok_def working_def adm)
qed

lemma release_when_stopping:
  assumes "life s \<noteq> Open" and "stop_enqueued s" and "0 < outstanding s"
  shows "release_capacity s = Inr (s\<lparr>outstanding := outstanding s - 1\<rparr>)"
  using assms
  by (simp add: release_capacity_def Let_def grant_waiters_locked_def schedule_admission_grants_def
      prepare_stop_locked_def)

lemma fail_active_inv:
  assumes inv: "writer_inv s" and fat: "worker s = Fatal r"
  shows "writer_inv (fail_active r s)"
proof -
  note i = inv [unfolded writer_inv_def]
  have f: "fatal s" "\<not> double_released s" "held s = Some r" "running s = 0"
    using fat by (auto simp: fatal_def double_released_def held_def running_def)
  have st: "stop_enqueued s" "life s \<noteq> Open" "life s \<noteq> Closed"
    using i f fat by (auto simp: stops_ok_def lives_ok_def)
  have out: "outstanding s = int (owned s)" using i f by (simp add: acct_def)
  have none: "results s r = None" using i f by (auto simp: requests_ok_def)
  let ?p = "\<lambda>pc n. s\<lparr>results := (results s)(r \<mapsto> FailedWith), outstanding := n, worker := pc\<rparr>"
  have own: "owned (?p pc n) = owned s" if "pc \<in> {Failing, Exiting True}" for pc n
    using that f by (auto simp: owned_def extra_slots_def running_def)
  have pf: "fatal (?p pc n)" "double_released (?p pc n)" "held (?p pc n) = None" if "pc \<in> {Failing, Exiting True}" for pc n
    using that by (auto simp: fatal_def double_released_def held_def)
  have sw: "stops_on_way (?p pc n) = stops_on_way s" for pc n by (simp add: stops_on_way_def)
  have req: "requests_ok (?p pc n)" if "pc \<in> {Failing, Exiting True}" for pc n
    using i f pf(3) [OF that] by (auto simp: requests_ok_def)
  have stops: "stops_ok (?p pc n)" if "pc \<in> {Failing, Exiting True}" for pc n
    using i f own [OF that] pf(1) [OF that] sw st that by (auto simp: stops_ok_def working_def)
  show ?thesis
  proof (cases "outstanding s = 0")
    case True
    have "writer_inv (?p (Exiting True) 0)"
    proof (rule worker_pre [OF inv])
      show "acct (?p (Exiting True) 0)" using own pf out True by (simp add: acct_def)
      have "owned s = 0" using out True by simp
      then have "filter is_request (queue s) = []" by (simp add: owned_def extra_slots_def)
      then show "lives_ok (?p (Exiting True) 0)"
        using i st by (auto simp: lives_ok_def list_all_iff filter_empty_conv)
    qed (use True req stops in \<open>simp_all\<close>)
    moreover have "fail_active r s = ?p (Exiting True) 0"
      using none True by (cases s) (simp add: fail_active_def release_capacity_def Let_def)
    ultimately show ?thesis by simp
  next
    case False
    then have pos: "0 < outstanding s" using out by simp
    let ?n = "outstanding s - 1"
    have "writer_inv (?p Failing ?n)"
    proof (rule worker_pre [OF inv])
      show "acct (?p Failing ?n)" using own pf out by (simp add: acct_def)
      show "lives_ok (?p Failing ?n)" using i st by (auto simp: lives_ok_def)
    qed (use st req stops in \<open>simp_all\<close>)
    moreover have "fail_active r s = ?p Failing ?n"
      using none release_when_stopping [of "s\<lparr>results := (results s)(r \<mapsto> FailedWith)\<rparr>"] st pos
      by (simp add: fail_active_def Let_def)
    ultimately show ?thesis by simp
  qed
qed

lemma fail_owned_inv:
  assumes inv: "writer_inv s" and fat: "worker s = Failing"
  shows "writer_inv (fail_owned_request s)"
proof -
  note i = inv [unfolded writer_inv_def]
  have f: "fatal s" "double_released s" "held s = None" "running s = 0"
    using fat by (auto simp: fatal_def double_released_def held_def running_def)
  have st: "stop_enqueued s" "life s \<noteq> Open" "life s \<noteq> Closed"
    using i f fat by (auto simp: stops_ok_def lives_ok_def)
  have out: "int (owned s) - 1 \<le> outstanding s" "outstanding s \<le> int (owned s)"
    using i f by (auto simp: acct_def)
  let ?x = "\<lambda>t. t\<lparr>worker := Exiting True\<rparr>"
  have exit: "double_released (?x t)" "held (?x t) = None" "fatal (?x t)" "running (?x t) = 0" for t :: db_writer
    by (auto simp: double_released_def fatal_def held_def running_def)
  show ?thesis
  proof (cases "queue s")
    case Nil
    have own: "owned (?x s) = owned s" using f by (simp add: owned_def extra_slots_def exit)
    have "writer_inv (?x s)"
    proof (rule worker_pre [OF inv])
      show "acct (?x s)" using i own exit f by (simp add: acct_def)
      show "lives_ok (?x s)" using i st Nil by (auto simp: lives_ok_def)
      show "requests_ok (?x s)" using i f exit by (simp add: requests_ok_def)
      show "stops_ok (?x s)" using i own exit st fat f by (auto simp: stops_ok_def stops_on_way_def working_def)
    qed simp_all
    then show ?thesis using Nil by (simp add: fail_owned_request_def)
  next
    case (Cons it q)
    show ?thesis
    proof (cases it)
      case STOP
      let ?t = "s\<lparr>queue := q\<rparr>"
      have p: "held ?t = held s" "fatal ?t = fatal s" "double_released ?t = double_released s" "running ?t = running s"
        by (rule writer_predicates_cong; simp)+
      have own: "owned ?t = owned s" using Cons STOP p by (simp add: owned_def extra_slots_def)
      have "writer_inv ?t"
      proof (rule worker_pre [OF inv])
        show "acct ?t" using i own p by (simp add: acct_def)
        show "lives_ok ?t" using i Cons fat by (auto simp: lives_ok_def)
        show "requests_ok ?t" using i Cons STOP p by (auto simp: requests_ok_def)
        show "stops_ok ?t" using i own p st fat Cons STOP f by (auto simp: stops_ok_def stops_on_way_def working_def)
      qed simp_all
      then show ?thesis using Cons STOP by (simp add: fail_owned_request_def)
    next
      case (Request r)
      let ?b = "s\<lparr>queue := q, results := (results s)(r \<mapsto> FailedWith)\<rparr>"
      let ?t = "\<lambda>pc n. ?b\<lparr>outstanding := n, worker := pc\<rparr>"
      have own: "owned s = Suc (owned (?t pc n))" if "pc \<in> {Failing, Exiting True}" for pc n
        using that Cons Request f by (auto simp: owned_def extra_slots_def running_def)
      have pf: "fatal (?t pc n)" "double_released (?t pc n)" "held (?t pc n) = None"
        if "pc \<in> {Failing, Exiting True}" for pc n
        using that by (auto simp: fatal_def double_released_def held_def)
      have req: "requests_ok (?t pc n)" if "pc \<in> {Failing, Exiting True}" for pc n
        using i f pf(3) [OF that] Cons Request by (auto simp: requests_ok_def)
      have stops: "stops_ok (?t pc n)" if "pc \<in> {Failing, Exiting True}" for pc n
        using i own [OF that] pf(1) [OF that] st that Cons Request
        by (auto simp: stops_ok_def working_def stops_on_way_def)
      show ?thesis
      proof (cases "0 < outstanding s")
        case True
        have "writer_inv (?t Failing (outstanding s - 1))"
        proof (rule worker_pre [OF inv])
          show "acct (?t Failing (outstanding s - 1))"
            using own [of Failing "outstanding s - 1"] pf out by (simp add: acct_def)
          show "lives_ok (?t Failing (outstanding s - 1))" using i st by (auto simp: lives_ok_def)
        qed (use st req stops in \<open>simp_all\<close>)
        moreover have "?t Failing (outstanding s - 1) = ?b\<lparr>outstanding := outstanding s - 1\<rparr>"
          using fat by (cases s) simp
        moreover have "fail_owned_request s = ?b\<lparr>outstanding := outstanding s - 1\<rparr>"
          using Cons Request release_when_stopping [of ?b] st True by (simp add: fail_owned_request_def Let_def)
        ultimately show ?thesis by simp
      next
        case False
        then have o: "owned s = 1" "outstanding s = 0"
          using out own [of Failing 0] by auto
        have "writer_inv (?t (Exiting True) 0)"
        proof (rule worker_pre [OF inv])
          show "acct (?t (Exiting True) 0)" using own [of "Exiting True" 0] pf o by (simp add: acct_def)
          have "filter is_request q = []" using o Cons Request by (simp add: owned_def extra_slots_def)
          then show "lives_ok (?t (Exiting True) 0)"
            using i st by (auto simp: lives_ok_def list_all_iff filter_empty_conv)
        qed (use st req stops o in \<open>simp_all\<close>)
        moreover have "fail_owned_request s = ?t (Exiting True) 0"
          using Cons Request o by (cases s) (simp add: fail_owned_request_def release_capacity_def Let_def)
        ultimately show ?thesis by simp
      qed
    qed
  qed
qed

lemma exit_inv:
  assumes inv: "writer_inv s" and ex: "worker s = Exiting b"
  shows "writer_inv (worker_exit b s)"
proof -
  note i = inv [unfolded writer_inv_def]
  let ?t = "worker_exit b s"
  have st: "stop_enqueued s" "life s \<noteq> Open" "life s \<noteq> Closed"
    using i ex by (cases b; auto simp: stops_ok_def lives_ok_def fatal_def)+
  have p: "fatal ?t = fatal s" "double_released ?t = double_released s" "held ?t = held s" "running ?t = running s"
    using ex by (auto simp: fatal_def double_released_def held_def running_def worker_exit_def)
  have own: "owned ?t = owned s" using p(4) by (simp add: owned_def extra_slots_def worker_exit_def)
  have "\<not> is_request x" if "x \<in> set (queue s)" for x
  proof (cases b)
    case True
    with i ex that show ?thesis by (auto simp: lives_ok_def list_all_iff)
  next
    case False
    then have "owned s = 0" using i ex st by (auto simp: stops_ok_def fatal_def)
    then show ?thesis using that by (auto simp: owned_def extra_slots_def filter_empty_conv)
  qed
  then have "lives_ok ?t" using i ex st by (auto simp: lives_ok_def worker_exit_def list_all_iff)
  moreover have "adm_inv ?t"
    using i st by (auto simp: adm_inv_def adm_core_def settled_def waiting_count_def worker_exit_def)
  moreover have "acct ?t" using i own p by (simp add: acct_def) (simp add: worker_exit_def)
  moreover have "requests_ok ?t" using i p by (simp add: requests_ok_def) (simp add: worker_exit_def)
  moreover have "stops_ok ?t"
    using i own p st by (auto simp: stops_ok_def worker_exit_def stops_on_way_def working_def)
  ultimately show ?thesis by (simp add: writer_inv_def)
qed

inductive_cases writer_stepE: "writer_step s t"

lemma writer_step_inv: "writer_inv s \<Longrightarrow> writer_step s t \<Longrightarrow> writer_inv t"
  by (erule writer_stepE)
    (auto intro: acquire_capacity_inv set_future_inv cancel_inv deliver_inv undeliverable_pre rejection_inv
      resume_inv submit_inv close_inv get_inv run_request_inv fatal_inv fail_active_inv fail_owned_inv exit_inv
      simp: grant_undeliverable_def dest: put_stop_inv)

lemma writer_start_inv: "writer_start s \<Longrightarrow> writer_inv s"
  by (auto simp: writer_start_def writer_init_def writer_inv_def adm_inv_def adm_core_def settled_def
      has_state_def waiting_count_def acct_def double_released_def fatal_def owned_def extra_slots_def
      running_def granted_def stops_ok_def stops_on_way_def lives_ok_def requests_ok_def held_def
      split: if_splits)

interpretation writer_sys: step_system writer_start writer_step writer_inv
  by unfold_locales (fact writer_start_inv, fact writer_step_inv)

lemma results_frame:
  fixes s t :: db_writer
  shows "results (schedule_admission_grants (grant_waiters_locked s)) = results s"
    "results (drop_admission w s) = results s" "results (reject_waiters s) = results s"
    "results (snd (acquire_locked m s)) = results s"
    "results (set_state w st s) = results s" "results (set_future w f s) = results s"
  by (rule more_fields(9); simp add: adm_simps)+

lemma release_results: "release_capacity s = Inr t \<Longrightarrow> results t = results s"
  by (auto simp: release_capacity_def Let_def results_frame split: if_splits)

lemma cancel_results: "results (cancel_admission w s) = results s"
  by (simp add: cancel_admission_def results_frame)

lemma acquire_results: "acquire_capacity ok s = (r, t) \<Longrightarrow> results t = results s"
  using results_frame(4) [of "''database writer admission queue is full''" s]
    results_frame(4) [of "''database writer admission queue is full''" "s\<lparr>worker := Idle\<rparr>"]
  by (auto simp: acquire_capacity_def raise_if_not_open_locked_def ensure_worker_started_locked_def
      split: prod.splits sum.splits option.splits if_splits)

lemma submit_results: "submit s = (r, t) \<Longrightarrow> results t = results s"
  by (auto simp: submit_def Let_def split: if_splits sum.splits dest: release_results)

text \<open>A result, once set, is final: no step sets the future of a request twice.\<close>

lemma results_final:
  assumes inv: "writer_inv s" and step: "writer_step s t" and res: "results s r = Some x"
  shows "results t r = Some x"
proof -
  have "Request r \<in> set (queue s) \<or> held s = Some r \<longrightarrow> results s r = None"
    using inv unfolding writer_inv_def requests_ok_def by blast
  with res have held: "held s \<noteq> Some r" and notin: "Request r \<notin> set (queue s)" by auto
  have ran: "results (run_request out q s) r = Some x" if "worker s = Active q" for out q
    using that held res
    by (auto simp: run_request_def Let_def held_def split: sum.splits run_outcome.splits dest!: release_results)
  have act: "results (fail_active q s) r = Some x" if "worker s = Fatal q" for q
    using that held res
    by (auto simp: fail_active_def Let_def held_def split: sum.splits dest!: release_results)
  have ownd: "results (fail_owned_request s) r = Some x"
    using notin res
    by (auto simp: fail_owned_request_def Let_def split: sum.splits list.splits queue_item.splits
        dest!: release_results)
  have deliver: "results (deliver_grant w s) = results s" for w
    by (auto simp: deliver_grant_def deliver_admission_grant_def results_frame split: sum.splits if_splits)
  have resume: "results u' = results s" if "resume_waiter w s = (q, u')" for w q u'
    using that by (auto simp: resume_waiter_def consume_admission_def cancel_results results_frame
        split: option.splits if_splits)
  show ?thesis
    using step
  proof cases
    case (acquire ok q)
    then show ?thesis using res acquire_results by metis
  next
    case (submitted q)
    then show ?thesis using res submit_results by metis
  qed (use res ran act ownd deliver resume in
      \<open>auto simp: results_frame cancel_results grant_undeliverable_def deliver_admission_rejection_def
        close_writer_def Let_def put_stop_def writer_get_def begin_fatal_shutdown_def worker_exit_def
        split: if_splits worker_pc.splits list.splits queue_item.splits\<close>)
qed

section \<open>Properties\<close>

text \<open>An admitted caller owns a slot.\<close>

lemma admitted_owned: "admitted t \<le> owned t"
  by (simp add: owned_def extra_slots_def)

lemma submit_reply:
  assumes inv: "writer_inv t" and adm: "0 < admitted t"
  shows "fst (submit t) =
    (if life t = Open then Inr (next_request t)
     else if outstanding t = 0 then Inl underflow_error else Inl closed_error)"
    and "outstanding t = 0 \<Longrightarrow> double_released t"
proof -
  have i: "acct t" using inv by (simp add: writer_inv_def)
  then have nonneg: "0 \<le> outstanding t"
    using adm admitted_owned [of t] by (auto simp: acct_def split: if_splits)
  show "fst (submit t) = (if life t = Open then Inr (next_request t)
     else if outstanding t = 0 then Inl underflow_error else Inl closed_error)"
    using queue_fits(1) [OF inv _ adm] nonneg by (auto simp: submit_def Let_def)
  show "double_released t" if "outstanding t = 0"
    using that i adm admitted_owned [of t] by (auto simp: acct_def split: if_splits)
qed

text \<open>
  C5: however callers, event loops and the worker interleave, the writer stays within its
  bounds. The counter never exceeds the capacity nor the number of owned slots (granted,
  admitted, queued and running requests), and it is exactly that number except after the
  worker failed on a request whose slot it released twice: then it may be one lower, and the
  writer is no longer open, so that no slot is granted on the strength of the lost one. At
  most \<open>max_waiters\<close> callers wait. An admitted caller of an open writer enqueues its request;
  of a writer that is no longer open it gets the closed error, or, only after the double
  release and with the counter at zero, the underflow error. The stop signal always fits the
  queue.
\<close>

theorem writer_capacity:
  assumes "writer_start s" and "writer_step\<^sup>*\<^sup>* s t"
  shows "outstanding t \<le> int (queue_capacity t)
    \<and> outstanding t \<le> int (owned t)
    \<and> int (owned t) \<le> outstanding t + (if double_released t then 1 else 0)
    \<and> (double_released t \<longrightarrow> life t \<noteq> Open)
    \<and> waiting_count t \<le> max_waiters t
    \<and> (0 < admitted t \<longrightarrow> fst (submit t) =
        (if life t = Open then Inr (next_request t)
         else if outstanding t = 0 then Inl underflow_error else Inl closed_error))
    \<and> (0 < admitted t \<and> outstanding t = 0 \<longrightarrow> double_released t)
    \<and> (0 < stop_tokens t \<longrightarrow> (\<exists>q. put_stop t = Inr q))"
proof -
  have inv: "writer_inv t" using assms by (rule writer_sys.reachable_inv)
  then have i: "adm_core t" "acct t" "stops_ok t" by (simp_all add: writer_inv_def adm_inv_def)
  have "double_released t \<longrightarrow> life t \<noteq> Open" using i(3) by (auto simp: stops_ok_def double_released_def)
  moreover have "outstanding t \<le> int (owned t)"
    "int (owned t) \<le> outstanding t + (if double_released t then 1 else 0)"
    using i(2) by (auto simp: acct_def split: if_splits)
  moreover have "\<exists>q. put_stop t = Inr q" if "0 < stop_tokens t" using put_stop_inv [OF inv that] by blast
  ultimately show ?thesis
    using submit_reply [OF inv] i(1) by (simp add: adm_core_def)
qed

text \<open>
  no caller is forgotten: a caller waits only while the writer is open and every slot is
  owned, and a caller whose slot was granted, or that was rejected, and that has not been
  woken has a delivery on its way to its event loop.
\<close>

theorem writer_no_lost_wakeup:
  assumes "writer_start s" and "writer_step\<^sup>*\<^sup>* s t"
  shows "(has_state t w Waiting \<longrightarrow> life t = Open \<and> outstanding t = int (queue_capacity t))
    \<and> (has_state t w Granted \<and> \<not> future_done t w \<longrightarrow> w \<in> set (scheduled t))
    \<and> (has_state t w Rejected \<and> \<not> future_done t w \<longrightarrow> w \<in> set (rejections t))"
proof -
  have "writer_inv t" using assms by (rule writer_sys.reachable_inv)
  then have "adm_core t" "settled t" by (simp_all add: writer_inv_def adm_inv_def)
  then show ?thesis unfolding adm_core_def settled_def by force
qed

text \<open>
  C6: every accepted request is answered exactly once: it lacks a result exactly while it is
  queued or in the worker's hands, a result that is set is never set again, and when the
  worker thread is gone, whether it drained the queue or failed, every accepted request has
  its result.
\<close>

theorem writer_answers_once:
  assumes "writer_start s" and "writer_step\<^sup>*\<^sup>* s t"
  shows "(r < next_request t \<and> results t r = None \<longleftrightarrow> Request r \<in> set (queue t) \<or> held t = Some r)
    \<and> (worker t = Exited \<and> r < next_request t \<longrightarrow> results t r \<noteq> None)
    \<and> (writer_step t t' \<and> results t r = Some x \<longrightarrow> results t' r = Some x)"
proof -
  have inv: "writer_inv t" using assms by (rule writer_sys.reachable_inv)
  then have req: "requests_ok t" "lives_ok t" by (simp_all add: writer_inv_def)
  have "results t r \<noteq> None" if "worker t = Exited" "r < next_request t"
  proof -
    have "Request r \<notin> set (queue t)" "held t \<noteq> Some r"
      using that req(2) by (auto simp: lives_ok_def list_all_iff held_def)
    with that req(1) show ?thesis by (auto simp: requests_ok_def)
  qed
  with req(1) results_final [OF inv] show ?thesis by (auto simp: requests_ok_def)
qed

text \<open>
  C7: shutdown neither loses work nor stalls: while the stop signal is on its way or in the
  queue no slot is owned, so no request stands before or behind it; and a closing writer
  still owns a slot, or has its one stop signal on its way, or its worker is already past
  the queue.
\<close>

theorem writer_stop_after_drain:
  assumes "writer_start s" and "writer_step\<^sup>*\<^sup>* s t"
  shows "(0 < stops_on_way t \<longrightarrow>
            owned t = 0 \<and> list_all (\<lambda>i. \<not> is_request i) (queue t) \<and> life t \<noteq> Open)
    \<and> (life t = Closing \<and> working (worker t) \<longrightarrow> 0 < outstanding t \<or> stops_on_way t = 1)"
proof -
  have inv: "writer_inv t" using assms by (rule writer_sys.reachable_inv)
  then have st: "stops_ok t" "acct t" by (simp_all add: writer_inv_def)
  have "list_all (\<lambda>i. \<not> is_request i) (queue t)" if "owned t = 0"
    using that by (simp add: owned_def extra_slots_def filter_empty_conv list_all_iff)
  moreover have "0 \<le> outstanding t" if "working (worker t)"
    using that st(2) by (auto simp: acct_def double_released_def fatal_def working_def split: worker_pc.splits if_splits)
  ultimately show ?thesis using st(1) by (fastforce simp: stops_ok_def)
qed

section \<open>A run: one request, then shutdown\<close>

definition ex_writer :: db_writer where
  "ex_writer = \<lparr>queue_capacity = 1, max_waiters = 1, life = Open, outstanding = 0,
     admission_waiters = [], waiters = Map.empty, next_waiter = 0, scheduled = [], rejections = [],
     queue = [], stop_enqueued = False, stop_tokens = 0, closed_fut = ClosedPending,
     worker = NotStarted, connection = False, admitted = 0, next_request = 0, results = Map.empty\<rparr>"

definition ex_admitted :: db_writer where "ex_admitted = snd (acquire_capacity True ex_writer)"
definition ex_queued :: db_writer where "ex_queued = snd (submit ex_admitted)"
definition ex_waiting :: db_writer where "ex_waiting = snd (acquire_capacity True ex_queued)"
definition ex_ran :: db_writer where "ex_ran = run_request Committed 0 (writer_get ex_queued)"
definition ex_closing :: db_writer where "ex_closing = close_writer ex_ran"
definition ex_stopping :: db_writer where
  "ex_stopping = ex_closing\<lparr>queue := [STOP], stop_tokens := 0\<rparr>"
definition ex_exited :: db_writer where "ex_exited = worker_exit False (writer_get ex_stopping)"

lemmas writer_eval = ex_writer_def acquire_capacity_def raise_if_not_open_locked_def
  ensure_worker_started_locked_def acquire_locked_def discard_inactive_waiters_locked_def submit_def
  writer_get_def run_request_def release_capacity_def grant_waiters_locked_def
  schedule_admission_grants_def prepare_stop_locked_def close_writer_def reject_waiters_def
  worker_exit_def put_stop_def waiting_count_def has_state_def future_done_def Let_def

lemma ex_admitted_eq: "ex_admitted = ex_writer\<lparr>worker := Idle, outstanding := 1, admitted := 1\<rparr>"
  by (simp add: ex_admitted_def writer_eval)

lemma ex_queued_eq:
  "ex_queued = ex_writer\<lparr>worker := Idle, outstanding := 1, queue := [Request 0], next_request := 1\<rparr>"
  by (simp add: ex_queued_def ex_admitted_eq writer_eval)

lemma ex_waiting_eq:
  "ex_waiting = ex_queued\<lparr>waiters := [0 \<mapsto> \<lparr>wstate = Waiting, wfuture = Pending\<rparr>],
     next_waiter := 1, admission_waiters := [0]\<rparr>"
  by (simp add: ex_waiting_def ex_queued_eq writer_eval)

lemma ex_ran_eq:
  "ex_ran = ex_writer\<lparr>worker := Idle, connection := True, next_request := 1, results := [0 \<mapsto> Succeeded]\<rparr>"
  by (simp add: ex_ran_def ex_queued_eq writer_eval)

lemma ex_closing_eq: "ex_closing = ex_ran\<lparr>life := Closing, stop_enqueued := True, stop_tokens := 1\<rparr>"
  by (simp add: ex_closing_def ex_ran_eq writer_eval)

lemma ex_exited_eq:
  "ex_exited = ex_closing\<lparr>life := Closed, worker := Exited, connection := False, stop_tokens := 0,
     closed_fut := ClosedResult\<rparr>"
  by (simp add: ex_exited_def ex_stopping_def ex_closing_eq ex_ran_eq writer_eval)

lemma ex_start: "writer_start ex_writer"
  unfolding writer_start_def
  by (rule exI [of _ 1], rule exI [of _ 1]) (simp add: writer_init_def ex_writer_def)

lemma ex_queued_reached: "writer_step\<^sup>*\<^sup>* ex_writer ex_queued"
proof -
  have "writer_step ex_writer ex_admitted"
    by (rule writer_step.acquire [of True _ "fst (acquire_capacity True ex_writer)"]) (simp add: ex_admitted_def)
  moreover have "writer_step ex_admitted ex_queued"
    by (rule writer_step.submitted [of _ "fst (submit ex_admitted)"]) (simp_all add: ex_queued_def ex_admitted_eq)
  ultimately show ?thesis by (meson rtranclp.rtrancl_refl rtranclp.rtrancl_into_rtrancl)
qed

lemma ex_waiting_reached: "writer_step\<^sup>*\<^sup>* ex_writer ex_waiting"
  by (rule rtranclp.rtrancl_into_rtrancl [OF ex_queued_reached],
      rule writer_step.acquire [of True _ "fst (acquire_capacity True ex_queued)"]) (simp add: ex_waiting_def)

lemma ex_stopping_reached: "writer_step\<^sup>*\<^sup>* ex_writer ex_stopping"
proof -
  have "writer_step ex_queued (writer_get ex_queued)"
    by (rule writer_step.got) (simp_all add: ex_queued_eq)
  moreover have "writer_step (writer_get ex_queued) ex_ran"
    unfolding ex_ran_def by (rule writer_step.ran) (simp_all add: ex_queued_eq writer_get_def)
  moreover have "writer_step ex_ran ex_closing" unfolding ex_closing_def by (rule writer_step.closing)
  moreover have "writer_step ex_closing ex_stopping"
    by (rule writer_step.stop_put) (simp_all add: ex_stopping_def ex_closing_eq ex_ran_eq put_stop_def ex_writer_def)
  ultimately show ?thesis using ex_queued_reached by (meson rtranclp.rtrancl_into_rtrancl)
qed

lemma ex_exited_reached: "writer_step\<^sup>*\<^sup>* ex_writer ex_exited"
proof -
  have "writer_step ex_stopping (writer_get ex_stopping)"
    by (rule writer_step.got) (simp_all add: ex_stopping_def ex_closing_eq ex_ran_eq)
  moreover have "writer_step (writer_get ex_stopping) ex_exited"
    unfolding ex_exited_def
    by (rule writer_step.exited) (simp add: ex_stopping_def ex_closing_eq ex_ran_eq writer_get_def)
  ultimately show ?thesis using ex_stopping_reached by (meson rtranclp.rtrancl_into_rtrancl)
qed

theorem writer_capacity_witness:
  "outstanding ex_queued = 1 \<and> outstanding ex_queued \<le> int (queue_capacity ex_queued)"
  using writer_capacity [OF ex_start ex_queued_reached] by (simp add: ex_queued_eq)

theorem writer_no_lost_wakeup_witness:
  "has_state ex_waiting 0 Waiting \<and> outstanding ex_waiting = int (queue_capacity ex_waiting)"
proof -
  have "has_state ex_waiting 0 Waiting" by (simp add: ex_waiting_eq has_state_def)
  with writer_no_lost_wakeup [OF ex_start ex_waiting_reached, of 0] show ?thesis by simp
qed

theorem writer_answers_once_witness: "worker ex_exited = Exited \<and> results ex_exited 0 \<noteq> None"
proof -
  have "worker ex_exited = Exited" "0 < next_request ex_exited"
    by (simp_all add: ex_exited_eq ex_closing_eq ex_ran_eq)
  with writer_answers_once [OF ex_start ex_exited_reached, of 0 ex_exited Succeeded] show ?thesis by blast
qed

theorem writer_stop_after_drain_witness: "0 < stops_on_way ex_stopping \<and> owned ex_stopping = 0"
proof -
  have "0 < stops_on_way ex_stopping" by (simp add: ex_stopping_def stops_on_way_def)
  with writer_stop_after_drain [OF ex_start ex_stopping_reached] show ?thesis by simp
qed

end
