(* ===== verification/Live_State.thy ===== *)
theory Live_State
  imports Prelude
begin

text \<open>
  \<^verbatim>\<open>src/app/smtp/live_state.py\<close> and the live stream of \<^verbatim>\<open>src/app/http/live.py\<close>: a
  ring of numbered events with a generation, cursors into it, and the generator that replays
  and follows the ring for one subscriber. The lemmas relate the ring to the list of all
  events published in a generation and show that a subscriber gets every event in order or
  an explicit gap.
\<close>

section \<open>The ring\<close>

type_synonym event = "string \<rightharpoonup> pyval"

record live_state =
  max_events :: nat
  events :: "event list"
  generation :: string
  next_seq :: int

definition live_state_init :: "nat \<Rightarrow> string \<Rightarrow> live_state" where
  "live_state_init m uuid = \<lparr>max_events = m, events = [], generation = uuid, next_seq = 1\<rparr>"

text \<open>\<open>deque(maxlen=m).append\<close>.\<close>

definition ring_append :: "nat \<Rightarrow> 'a list \<Rightarrow> 'a \<Rightarrow> 'a list" where
  "ring_append m xs x = drop (length xs + 1 - m) (xs @ [x])"

definition publish :: "event \<Rightarrow> live_state \<Rightarrow> live_state" where
  "publish event s =
     (let payload = event(''seq'' \<mapsto> PyInt (next_seq s))
      in s\<lparr>next_seq := next_seq s + 1,
           events := ring_append (max_events s) (events s) payload\<rparr>)"

text \<open>\<open>int(event.get("seq", default))\<close>; every event of the ring has an integer there.\<close>

definition seq_of :: "int \<Rightarrow> event \<Rightarrow> int" where
  "seq_of d e = (case e ''seq'' of Some (PyInt n) \<Rightarrow> n | _ \<Rightarrow> d)"

definition format_cursor :: "string \<Rightarrow> int \<Rightarrow> string" where
  "format_cursor gen seq = gen @ CHR '':'' # show_int seq"

definition snapshot :: "live_state \<Rightarrow> event list" where
  "snapshot s = events s"

definition snapshot_state :: "live_state \<Rightarrow> event list \<times> string" where
  "snapshot_state s =
     (let last_seq = (if events s \<noteq> [] then seq_of 0 (last (events s)) else 0)
      in (events s, format_cursor (generation s) last_seq))"

definition snapshot_since :: "int \<Rightarrow> live_state \<Rightarrow> event list" where
  "snapshot_since seq s = filter (\<lambda>e. seq < seq_of 0 e) (events s)"

datatype gap_reason = GenerationChanged | RingOverrun | CursorAhead

definition snapshot_stream_window ::
  "string \<Rightarrow> int \<Rightarrow> live_state \<Rightarrow> string \<times> event list \<times> gap_reason option \<times> int \<times> int" where
  "snapshot_stream_window expected seq s =
     (let latest_seq = next_seq s - 1;
          oldest_seq = (if events s \<noteq> [] then seq_of (next_seq s) (hd (events s)) else next_seq s);
          gap = (if expected \<noteq> generation s then Some GenerationChanged
                 else if seq < oldest_seq - 1 then Some RingOverrun
                 else if latest_seq < seq then Some CursorAhead
                 else None)
      in if gap \<noteq> None then (generation s, events s, gap, oldest_seq, latest_seq)
         else if seq = latest_seq then (generation s, [], None, oldest_seq, latest_seq)
         else (generation s, filter (\<lambda>e. seq < seq_of 0 e) (events s), None, oldest_seq, latest_seq))"

definition clear :: "string \<Rightarrow> live_state \<Rightarrow> live_state" where
  "clear uuid s = s\<lparr>events := [], generation := uuid, next_seq := 1\<rparr>"

section \<open>The stream of one subscriber\<close>

definition LIVE_SMTP_EVENT_TYPES :: "string list" where
  "LIVE_SMTP_EVENT_TYPES =
     [''connect'', ''rcpt_accepted'', ''rcpt_rejected'', ''queued'', ''delivery_committed'',
      ''disconnect'', ''error'', ''gap'']"

definition PROCESS_LOCAL_SMTP_EVENT_TYPES :: "string list" where
  "PROCESS_LOCAL_SMTP_EVENT_TYPES =
     [''connect'', ''rcpt_accepted'', ''rcpt_rejected'', ''queued'', ''disconnect'', ''error'']"

text \<open>\<open>cursor.rsplit(":", 1)\<close>: the text before and after the last colon.\<close>

definition rsplit_colon :: "string \<Rightarrow> (string \<times> string) option" where
  "rsplit_colon s =
     (if CHR '':'' \<notin> set s then None
      else
        let tail = takeWhile (\<lambda>c. c \<noteq> CHR '':'') (rev s)
        in Some (take (length s - length tail - 1) s, rev tail))"

definition parse_live_cursor :: "string option \<Rightarrow> (string \<times> int) option" where
  "parse_live_cursor cursor =
     (case cursor of
        None \<Rightarrow> None
      | Some c \<Rightarrow>
          (case rsplit_colon c of
             None \<Rightarrow> None
           | Some (gen, seq_text) \<Rightarrow>
               if gen = [] then None else map_option (Pair gen) (parse_int seq_text)))"

text \<open>\<open>str(event.get("type") or "")\<close>; a value that is no text is none of the names tested.\<close>

definition event_type :: "event \<Rightarrow> string" where
  "event_type e = (case e ''type'' of Some (PyStr t) \<Rightarrow> t | _ \<Rightarrow> [])"

definition get :: "event \<Rightarrow> string \<Rightarrow> pyval" where
  "get e k = (case e k of None \<Rightarrow> PyNone | Some v \<Rightarrow> v)"

fun truthy :: "pyval \<Rightarrow> bool" where
  "truthy PyNone = False"
| "truthy (PyBool b) = b"
| "truthy (PyInt n) = (n \<noteq> 0)"
| "truthy (PyFloat m e) = (m \<noteq> 0)"
| "truthy PyNan = True"
| "truthy PyInf = True"
| "truthy (PyStr s) = (s \<noteq> [])"

definition normalize_smtp_live_event :: "event \<Rightarrow> event option" where
  "normalize_smtp_live_event event =
     (let t = event_type event in
      if t \<in> set PROCESS_LOCAL_SMTP_EVENT_TYPES then Some event
      else if t \<noteq> ''mailbox_delivery'' then None
      else Some
        [''type'' \<mapsto> PyStr ''delivery_committed'',
         ''session_id'' \<mapsto> get event ''session_id'',
         ''delivery_id'' \<mapsto> get event ''delivery_id'',
         ''message_id'' \<mapsto> get event ''message_id'',
         ''rcpt_to'' \<mapsto> (if truthy (get event ''rcpt_to'') then get event ''rcpt_to'' else get event ''mailbox''),
         ''mail_from'' \<mapsto> get event ''mail_from'',
         ''parse_status'' \<mapsto> get event ''parse_status'',
         ''ts'' \<mapsto> get event ''ts'',
         ''source'' \<mapsto> PyStr ''committed_outbox''])"

definition with_cursor :: "event \<Rightarrow> string \<Rightarrow> event" where
  "with_cursor e cursor = e(''cursor'' \<mapsto> PyStr cursor)"

definition cursor_event :: "string \<Rightarrow> int \<Rightarrow> event" where
  "cursor_event gen seq = [''type'' \<mapsto> PyStr ''cursor'', ''cursor'' \<mapsto> PyStr (format_cursor gen seq)]"

text \<open>
  The rows \<open>_recent_message_events\<close> reads, newest first, and the two events it makes of a
  delivery: the recipient always, the message once.
\<close>

record delivery_row =
  dr_delivery_id :: int
  dr_rcpt_to :: string
  dr_delivered_at :: string
  dr_message_id :: string
  dr_smtp_session_id :: "string option"
  dr_envelope_from :: "string option"

definition opt_str :: "string option \<Rightarrow> pyval" where
  "opt_str x = (case x of None \<Rightarrow> PyNone | Some s \<Rightarrow> PyStr s)"

fun message_event_loop :: "string list \<Rightarrow> delivery_row list \<Rightarrow> event list" where
  "message_event_loop seen [] = []"
| "message_event_loop seen (row # rows) =
     (let session = (case dr_smtp_session_id row of
                       Some s \<Rightarrow> if s = [] then dr_message_id row else s
                     | None \<Rightarrow> dr_message_id row);
          rcpt = [''type'' \<mapsto> PyStr ''rcpt_accepted'', ''session_id'' \<mapsto> PyStr session,
                  ''delivery_id'' \<mapsto> PyInt (dr_delivery_id row),
                  ''message_id'' \<mapsto> PyStr (dr_message_id row),
                  ''rcpt_to'' \<mapsto> PyStr (dr_rcpt_to row),
                  ''mail_from'' \<mapsto> opt_str (dr_envelope_from row),
                  ''ts'' \<mapsto> PyStr (dr_delivered_at row), ''source'' \<mapsto> PyStr ''history''];
          queued = [''type'' \<mapsto> PyStr ''queued'', ''session_id'' \<mapsto> PyStr session,
                  ''message_id'' \<mapsto> PyStr (dr_message_id row),
                  ''mail_from'' \<mapsto> opt_str (dr_envelope_from row),
                  ''ts'' \<mapsto> PyStr (dr_delivered_at row), ''source'' \<mapsto> PyStr ''history'']
      in if dr_message_id row \<in> set seen then rcpt # message_event_loop seen rows
         else rcpt # queued # message_event_loop (dr_message_id row # seen) rows)"

definition recent_message_events :: "delivery_row list \<Rightarrow> nat \<Rightarrow> event list" where
  "recent_message_events rows limit = message_event_loop [] (take limit rows)"

definition take_last :: "nat \<Rightarrow> 'a list \<Rightarrow> 'a list" where
  "take_last n xs = (if n = 0 then xs else drop (length xs - n) xs)"

definition smtp_live_snapshot :: "live_state \<Rightarrow> delivery_row list \<Rightarrow> nat \<Rightarrow> event list" where
  "smtp_live_snapshot s rows history_limit =
     (let normalized = List.map_filter normalize_smtp_live_event (events s) in
      if normalized \<noteq> [] then take_last history_limit normalized
      else recent_message_events rows history_limit)"

record stream =
  stream_generation :: string
  last_seq :: int

text \<open>The payloads of raw events with the cursor of each, in order.\<close>

fun emit :: "string \<Rightarrow> event list \<Rightarrow> event list" where
  "emit gen [] = []"
| "emit gen (e # es) =
     (case normalize_smtp_live_event e of
        None \<Rightarrow> emit gen es
      | Some p \<Rightarrow> with_cursor p (format_cursor gen (seq_of 0 e)) # emit gen es)"

text \<open>\<open>last_payload_seq\<close>: the number of the last event that had a payload, 0 if none had.\<close>

definition last_payload :: "event list \<Rightarrow> int" where
  "last_payload es =
     (let shown = filter (\<lambda>e. normalize_smtp_live_event e \<noteq> None) es
      in if shown = [] then 0 else seq_of 0 (last shown))"

text \<open>
  The start of the generator. \<open>gen0\<close> is the generation read first, \<open>s\<close> the state whose
  snapshot is replayed when the cursor is not of that generation; without any payload in the
  ring the stored deliveries are shown, numbered below zero.
\<close>

definition history_payloads :: "string \<Rightarrow> event list \<Rightarrow> event list" where
  "history_payloads gen hs =
     map (\<lambda>i. with_cursor (hs ! i) (format_cursor gen (- (int (length hs) - int i)))) [0..<length hs]"

definition stream_replay ::
  "string \<Rightarrow> live_state \<Rightarrow> delivery_row list \<Rightarrow> nat \<Rightarrow> event list \<times> stream" where
  "stream_replay gen0 s rows history_limit =
     (case snapshot_state s of (evs, cursor) \<Rightarrow>
        let parsed = parse_live_cursor (Some cursor);
            gen = (case parsed of Some (g, n) \<Rightarrow> g | None \<Rightarrow> gen0);
            last = (case parsed of Some (g, n) \<Rightarrow> n | None \<Rightarrow> 0)
        in if List.map_filter normalize_smtp_live_event evs \<noteq> [] then
             (emit gen evs @ (if last_payload evs \<noteq> last then [cursor_event gen last] else []),
              \<lparr>stream_generation = gen, last_seq = last\<rparr>)
           else
             (history_payloads gen (recent_message_events rows history_limit),
              \<lparr>stream_generation = gen, last_seq = 0\<rparr>))"

definition stream_open ::
  "string \<Rightarrow> live_state \<Rightarrow> delivery_row list \<Rightarrow> nat \<Rightarrow> string option \<Rightarrow> event list \<times> stream" where
  "stream_open gen0 s rows history_limit after_cursor =
     (case parse_live_cursor after_cursor of
        Some (g, n) \<Rightarrow>
          if g = gen0 then ([], \<lparr>stream_generation = gen0, last_seq = max n 0\<rparr>)
          else stream_replay gen0 s rows history_limit
      | None \<Rightarrow> stream_replay gen0 s rows history_limit)"

fun gap_text :: "gap_reason \<Rightarrow> string" where
  "gap_text GenerationChanged = ''generation_changed''"
| "gap_text RingOverrun = ''ring_overrun''"
| "gap_text CursorAhead = ''cursor_ahead''"

definition gap_event :: "gap_reason \<Rightarrow> stream \<Rightarrow> stream \<Rightarrow> int \<Rightarrow> int \<Rightarrow> event" where
  "gap_event reason before after oldest latest =
     [''type'' \<mapsto> PyStr ''gap'', ''reason'' \<mapsto> PyStr (gap_text reason),
      ''previous_generation'' \<mapsto> PyStr (stream_generation before),
      ''previous_seq'' \<mapsto> PyInt (last_seq before),
      ''oldest_available_seq'' \<mapsto> PyInt oldest, ''latest_available_seq'' \<mapsto> PyInt latest,
      ''cursor'' \<mapsto> PyStr (format_cursor (stream_generation after) (last_seq after))]"

text \<open>One round of the generator's loop: what it yields and where it stands afterwards.\<close>

definition stream_round :: "live_state \<Rightarrow> stream \<Rightarrow> event list \<times> stream" where
  "stream_round s st =
     (case snapshot_stream_window (stream_generation st) (last_seq st) s of
        (current, raw, gap, oldest, latest) \<Rightarrow>
          let st1 = (case gap of None \<Rightarrow> st
                     | Some _ \<Rightarrow> \<lparr>stream_generation = current, last_seq = max (oldest - 1) 0\<rparr>);
              gaps = (case gap of None \<Rightarrow> [] | Some r \<Rightarrow> [gap_event r st st1 oldest latest])
          in if raw = [] then (gaps, st1)
             else
               let n = seq_of (last_seq st1) (last raw);
                   g = stream_generation st1
               in (gaps @ emit g raw @ (if last_payload raw \<noteq> n then [cursor_event g n] else []),
                   st1\<lparr>last_seq := n\<rparr>))"

section \<open>The ring and the published events\<close>

text \<open>
  \<open>hist\<close> is the list of all events published in the current generation: the ring holds its
  last \<open>max_events\<close> elements, numbered by their position.
\<close>

definition numbered :: "event list \<Rightarrow> event list" where
  "numbered hist = map (\<lambda>i. (hist ! i)(''seq'' \<mapsto> PyInt (int i + 1))) [0..<length hist]"

definition ring_of :: "live_state \<Rightarrow> event list \<Rightarrow> bool" where
  "ring_of s hist \<longleftrightarrow>
     next_seq s = int (length hist) + 1
     \<and> events s = drop (length hist - max_events s) (numbered hist)"

text \<open>What publishers and administrators do to the state, with the events they published.\<close>

datatype live_op = Publish event | Clear string

fun live_run :: "live_op list \<Rightarrow> live_state \<times> event list \<Rightarrow> live_state \<times> event list" where
  "live_run [] sl = sl"
| "live_run (Publish e # ops) (s, hist) = live_run ops (publish e s, hist @ [e])"
| "live_run (Clear uuid # ops) (s, hist) = live_run ops (clear uuid s, [])"

section \<open>Lemmas\<close>

lemma length_numbered [simp]: "length (numbered hist) = length hist"
  by (simp add: numbered_def)

lemma numbered_nil [simp]: "numbered hist = [] \<longleftrightarrow> hist = []"
  by (simp add: numbered_def)

lemma nth_numbered: "i < length hist \<Longrightarrow> numbered hist ! i = (hist ! i)(''seq'' \<mapsto> PyInt (int i + 1))"
  by (simp add: numbered_def)

lemma seq_of_numbered [simp]: "i < length hist \<Longrightarrow> seq_of d (numbered hist ! i) = int i + 1"
  by (simp add: nth_numbered seq_of_def)

lemma numbered_snoc:
  "numbered (hist @ [e]) = numbered hist @ [e(''seq'' \<mapsto> PyInt (int (length hist) + 1))]"
  by (rule nth_equalityI) (auto simp: nth_numbered nth_append less_Suc_eq)

lemma filter_numbered:
  assumes "0 \<le> n"
  shows "filter (\<lambda>e. n < seq_of 0 e) (drop k (numbered hist)) = drop (max k (nat n)) (numbered hist)"
proof (induction "length hist - k" arbitrary: k)
  case 0
  then show ?case by simp
next
  case (Suc d)
  then have k: "k < length hist" by linarith
  have "filter (\<lambda>e. n < seq_of 0 e) (drop (Suc k) (numbered hist)) = drop (max (Suc k) (nat n)) (numbered hist)"
    using Suc by (intro Suc(1)) linarith
  moreover have "drop k (numbered hist) = numbered hist ! k # drop (Suc k) (numbered hist)"
    using k by (simp add: Cons_nth_drop_Suc)
  ultimately show ?case
    using k assms by (cases "n < int k + 1") (auto simp: max_def le_nat_iff)
qed

lemma ring_of_init: "ring_of (live_state_init m g) []"
  by (simp add: ring_of_def live_state_init_def numbered_def)

lemma ring_of_publish:
  assumes "ring_of s hist"
  shows "ring_of (publish e s) (hist @ [e])"
proof -
  let ?n = "length hist" and ?m = "max_events s"
  have "ring_append ?m (drop (?n - ?m) (numbered hist)) x = drop (Suc ?n - ?m) (numbered hist @ [x])" for x
  proof (cases "?m \<le> ?n")
    case True
    then show ?thesis by (simp add: ring_append_def Suc_diff_le)
  next
    case False
    then show ?thesis by (simp add: ring_append_def)
  qed
  with assms show ?thesis by (simp add: ring_of_def publish_def Let_def numbered_snoc add.commute)
qed

lemma ring_of_clear: "ring_of (clear g s) []"
  by (simp add: ring_of_def clear_def numbered_def)

lemma live_run_ring: "ring_of s hist \<Longrightarrow> live_run ops (s, hist) = (s', hist') \<Longrightarrow> ring_of s' hist'"
  by (induction ops "(s, hist)" arbitrary: s hist rule: live_run.induct)
    (auto simp: ring_of_publish ring_of_clear)

lemma oldest_seq:
  assumes "ring_of s hist"
  shows "(if events s \<noteq> [] then seq_of (next_seq s) (hd (events s)) else next_seq s)
    = int (length hist - max_events s) + 1"
proof (cases "events s = []")
  case True
  then show ?thesis using assms by (auto simp: ring_of_def)
next
  case False
  then have "length hist - max_events s < length hist" using assms by (auto simp: ring_of_def)
  then show ?thesis using False assms by (simp add: ring_of_def hd_drop_conv_nth)
qed

lemma last_ring_seq: "k < length hist \<Longrightarrow> seq_of d (last (drop k (numbered hist))) = int (length hist)"
  by (simp add: last_drop last_conv_nth)

text \<open>A position of a subscriber from which nothing is missing.\<close>

definition in_window :: "live_state \<Rightarrow> event list \<Rightarrow> stream \<Rightarrow> bool" where
  "in_window s hist st \<longleftrightarrow>
     stream_generation st = generation s
     \<and> int (length hist - max_events s) \<le> last_seq st \<and> last_seq st \<le> int (length hist)"

lemma window_exact:
  assumes "ring_of s hist" and "0 \<le> last_seq st"
  shows "in_window s hist st \<Longrightarrow>
      snapshot_stream_window (stream_generation st) (last_seq st) s =
        (generation s, drop (nat (last_seq st)) (numbered hist), None,
         int (length hist - max_events s) + 1, int (length hist))"
    and "\<not> in_window s hist st \<Longrightarrow> \<exists>r.
      snapshot_stream_window (stream_generation st) (last_seq st) s =
        (generation s, drop (length hist - max_events s) (numbered hist), Some r,
         int (length hist - max_events s) + 1, int (length hist))
      \<and> (r = GenerationChanged \<longleftrightarrow> stream_generation st \<noteq> generation s)
      \<and> (r = RingOverrun \<longrightarrow> last_seq st < int (length hist - max_events s))
      \<and> (r = CursorAhead \<longrightarrow> int (length hist) < last_seq st)"
proof -
  note old = oldest_seq [OF assms(1)]
  have lat: "next_seq s - 1 = int (length hist)" and ev: "events s = drop (length hist - max_events s) (numbered hist)"
    using assms by (simp_all add: ring_of_def)
  assume w: "in_window s hist st"
  then have "max (length hist - max_events s) (nat (last_seq st)) = nat (last_seq st)"
    by (auto simp: in_window_def)
  then have "filter (\<lambda>e. last_seq st < seq_of 0 e) (events s) = drop (nat (last_seq st)) (numbered hist)"
    using filter_numbered [OF assms(2), of "length hist - max_events s" hist] ev by simp
  then show "snapshot_stream_window (stream_generation st) (last_seq st) s =
        (generation s, drop (nat (last_seq st)) (numbered hist), None,
         int (length hist - max_events s) + 1, int (length hist))"
    using w by (simp add: snapshot_stream_window_def Let_def old lat in_window_def)
next
  note old = oldest_seq [OF assms(1)]
  have lat: "next_seq s - 1 = int (length hist)" and ev: "events s = drop (length hist - max_events s) (numbered hist)"
    using assms by (simp_all add: ring_of_def)
  assume w: "\<not> in_window s hist st"
  show "\<exists>r. snapshot_stream_window (stream_generation st) (last_seq st) s =
        (generation s, drop (length hist - max_events s) (numbered hist), Some r,
         int (length hist - max_events s) + 1, int (length hist))
      \<and> (r = GenerationChanged \<longleftrightarrow> stream_generation st \<noteq> generation s)
      \<and> (r = RingOverrun \<longrightarrow> last_seq st < int (length hist - max_events s))
      \<and> (r = CursorAhead \<longrightarrow> int (length hist) < last_seq st)"
    unfolding snapshot_stream_window_def Let_def old lat using w by (auto simp: in_window_def ev)
qed

lemma rsplit_format: "rsplit_colon (format_cursor g n) = Some (g, show_int n)"
proof -
  have "takeWhile (\<lambda>c. c \<noteq> CHR '':'') (rev (show_int n) @ CHR '':'' # rev g) = rev (show_int n)"
    using show_int_no_colon [of n] by (subst takeWhile_append2) auto
  then show ?thesis by (simp add: rsplit_colon_def format_cursor_def Let_def)
qed

lemma parse_format_cursor: "g \<noteq> [] \<Longrightarrow> parse_live_cursor (Some (format_cursor g n)) = Some (g, n)"
  by (simp add: parse_live_cursor_def rsplit_format parse_int_show_int)

section \<open>Properties\<close>

text \<open>
  C11: a live subscriber misses nothing silently. Whatever was published and cleared before,
  one round of its stream brings it to the newest event of the current generation; if no
  event after its position has left the ring it receives exactly the payloads of all of
  them, in order, and no gap; otherwise the first thing it receives is a gap event that
  names its old position, and the rest is the whole ring.
\<close>

theorem stream_round_complete:
  assumes "live_run ops (live_state_init m g, []) = (s, hist)" and "0 \<le> last_seq st"
    and "stream_round s st = (outs, st')"
  shows "st' = \<lparr>stream_generation = generation s, last_seq = int (length hist)\<rparr>
    \<and> (in_window s hist st \<longrightarrow>
         (\<exists>c. outs = emit (generation s) (drop (nat (last_seq st)) (numbered hist)) @ c
            \<and> c \<in> {[], [cursor_event (generation s) (int (length hist))]}))
    \<and> (\<not> in_window s hist st \<longrightarrow>
         (\<exists>r p c. outs = gap_event r st p (int (length hist - max_events s) + 1) (int (length hist))
              # emit (generation s) (events s) @ c
            \<and> c \<in> {[], [cursor_event (generation s) (int (length hist))]}))"
proof -
  have ring: "ring_of s hist" using ring_of_init assms(1) by (rule live_run_ring)
  show ?thesis
  proof (cases "in_window s hist st")
    case True
    note w = window_exact(1) [OF ring assms(2) True]
    show ?thesis
    proof (cases "nat (last_seq st) < length hist")
      case lt: True
      then have "seq_of (last_seq st) (last (drop (nat (last_seq st)) (numbered hist))) = int (length hist)"
        by (rule last_ring_seq)
      with lt True assms(3) w show ?thesis
        by (auto simp: stream_round_def Let_def in_window_def intro!: stream.equality)
    next
      case False
      with True have "last_seq st = int (length hist)" by (auto simp: in_window_def)
      with True False assms(3) w show ?thesis
        by (auto simp: stream_round_def Let_def in_window_def intro!: stream.equality)
    qed
  next
    case False
    obtain r where w: "snapshot_stream_window (stream_generation st) (last_seq st) s =
        (generation s, drop (length hist - max_events s) (numbered hist), Some r,
         int (length hist - max_events s) + 1, int (length hist))"
      using window_exact(2) [OF ring assms(2) False] by blast
    have ev: "events s = drop (length hist - max_events s) (numbered hist)" using ring by (simp add: ring_of_def)
    show ?thesis
    proof (cases "length hist - max_events s < length hist")
      case lt: True
      then have "seq_of d (last (drop (length hist - max_events s) (numbered hist))) = int (length hist)" for d
        by (rule last_ring_seq)
      with lt False assms(3) w ev show ?thesis
        by (auto simp: stream_round_def Let_def intro!: stream.equality exI [of _ r])
    next
      case ge: False
      with False assms(3) w ev show ?thesis
        by (auto simp: stream_round_def Let_def intro!: stream.equality exI [of _ r])
    qed
  qed
qed

text \<open>
  cursors resume: the text of a cursor parses back to its generation and number, and a
  subscriber that reconnects with the cursor of an event of the current generation that is
  still in reach receives exactly the payloads of the events after it.
\<close>

theorem stream_resume:
  assumes "live_run ops (live_state_init m g, []) = (s, hist)" and "generation s \<noteq> []"
    and "int (length hist - max_events s) \<le> n" and "n \<le> int (length hist)"
    and "stream_open (generation s) s rows limit (Some (format_cursor (generation s) n)) = (first, st)"
    and "stream_round s st = (outs, st')"
  shows "parse_live_cursor (Some (format_cursor (generation s) n)) = Some (generation s, n)
    \<and> first = []
    \<and> (\<exists>c. outs = emit (generation s) (drop (nat n) (numbered hist)) @ c
         \<and> c \<in> {[], [cursor_event (generation s) (int (length hist))]})"
proof -
  have p: "parse_live_cursor (Some (format_cursor (generation s) n)) = Some (generation s, n)"
    using assms(2) by (rule parse_format_cursor)
  have "0 \<le> n" using assms(3) by linarith
  then have st: "st = \<lparr>stream_generation = generation s, last_seq = n\<rparr>" "first = []"
    using assms(5) p by (auto simp: stream_open_def)
  have ring: "ring_of s hist" using ring_of_init assms(1) by (rule live_run_ring)
  have w: "in_window s hist st" "0 \<le> last_seq st" using assms(3,4) st \<open>0 \<le> n\<close> by (auto simp: in_window_def)
  show ?thesis
    using p st assms(6) window_exact(1) [OF ring w(2) w(1)]
      last_ring_seq [of "nat n" hist n]
    by (cases "nat n < length hist") (auto simp: stream_round_def Let_def)
qed

text \<open>
  \<open>snapshot_since\<close> with a number of the current generation returns the published events
  after it that the ring still holds, in order, and every event a stream can emit carries
  one of the declared types.
\<close>

theorem snapshot_since_exact:
  assumes "live_run ops (live_state_init m g, []) = (s, hist)" and "0 \<le> n"
  shows "snapshot_since n s = drop (max (length hist - max_events s) (nat n)) (numbered hist)
    \<and> (\<forall>e \<in> set (emit (generation s) (snapshot_since n s)). event_type e \<in> set LIVE_SMTP_EVENT_TYPES)"
proof -
  have ring: "ring_of s hist" using ring_of_init assms(1) by (rule live_run_ring)
  have "event_type e \<in> set LIVE_SMTP_EVENT_TYPES" if "e \<in> set (emit gen es)" for e gen es
    using that
  proof (induction es)
    case (Cons x es)
    then show ?case
      by (auto simp: normalize_smtp_live_event_def Let_def with_cursor_def event_type_def
          PROCESS_LOCAL_SMTP_EVENT_TYPES_def LIVE_SMTP_EVENT_TYPES_def split: option.splits if_splits pyval.splits)
  qed simp
  then show ?thesis
    using ring filter_numbered [OF assms(2)] by (auto simp: snapshot_since_def ring_of_def)
qed

text \<open>A ring of two events into which three were published.\<close>

definition ex_event :: "string \<Rightarrow> event" where
  "ex_event t = [''type'' \<mapsto> PyStr t]"

definition ex_live :: live_state where
  "ex_live = publish (ex_event ''queued'') (publish (ex_event ''error'')
     (publish (ex_event ''connect'') (live_state_init 2 ''g'')))"

definition ex_hist :: "event list" where
  "ex_hist = [ex_event ''connect'', ex_event ''error'', ex_event ''queued'']"

lemma ex_live_run:
  "live_run [Publish (ex_event ''connect''), Publish (ex_event ''error''), Publish (ex_event ''queued'')]
     (live_state_init 2 ''g'', []) = (ex_live, ex_hist)"
  by (simp add: ex_live_def ex_hist_def)

lemma ex_live_fields: "generation ex_live = ''g''" "max_events ex_live = 2" "length ex_hist = 3"
  by (simp_all add: ex_live_def ex_hist_def publish_def live_state_init_def)

theorem stream_round_complete_witness:
  "snd (stream_round ex_live \<lparr>stream_generation = ''g'', last_seq = 0\<rparr>)
     = \<lparr>stream_generation = ''g'', last_seq = 3\<rparr>"
  using stream_round_complete [OF ex_live_run, of "\<lparr>stream_generation = ''g'', last_seq = 0\<rparr>"
      "fst (stream_round ex_live \<lparr>stream_generation = ''g'', last_seq = 0\<rparr>)"
      "snd (stream_round ex_live \<lparr>stream_generation = ''g'', last_seq = 0\<rparr>)"]
  by (simp add: ex_live_fields)

theorem stream_resume_witness:
  "\<exists>c. fst (stream_round ex_live (snd (stream_open ''g'' ex_live [] 5 (Some (format_cursor ''g'' 2)))))
     = emit ''g'' (drop 2 (numbered ex_hist)) @ c"
  using stream_resume [OF ex_live_run, of 2 "[]" 5
      "fst (stream_open ''g'' ex_live [] 5 (Some (format_cursor ''g'' 2)))"
      "snd (stream_open ''g'' ex_live [] 5 (Some (format_cursor ''g'' 2)))"
      "fst (stream_round ex_live (snd (stream_open ''g'' ex_live [] 5 (Some (format_cursor ''g'' 2)))))"
      "snd (stream_round ex_live (snd (stream_open ''g'' ex_live [] 5 (Some (format_cursor ''g'' 2)))))"]
  by (auto simp: ex_live_fields)

theorem snapshot_since_exact_witness:
  "snapshot_since 2 ex_live = drop 2 (numbered ex_hist)"
  using snapshot_since_exact [OF ex_live_run, of 2] by (simp add: ex_live_fields numeral_2_eq_2)

end
