(* ===== verification/Mail_Matcher.thy ===== *)
theory Mail_Matcher
  imports Prelude
begin

text \<open>
  \<^verbatim>\<open>src/app/smtp/matcher.py\<close>: normalisation of domains, parsing of mailbox addresses and
  the domain matcher that decides which configured domain owns a recipient.
  \<open>normalize_domain\<close>, \<open>valid_local_part\<close> and \<open>parse_mailbox_address\<close> follow the module's
  functions; \<open>domain_matcher_init\<close> and \<open>match_address\<close> follow the class
  \<^verbatim>\<open>DomainMatcher\<close>. The lemmas show that normalisation yields a well-formed lower-case
  domain and is idempotent, that the suffix walk selects the most specific configured root,
  and that canonical addresses are fixed points of matching.
\<close>

section \<open>Domains\<close>

definition MAX_LOCAL_PART_BYTES :: nat where "MAX_LOCAL_PART_BYTES = 64"
definition MAX_DOMAIN_BYTES :: nat where "MAX_DOMAIN_BYTES = 253"
definition MAX_MAILBOX_BYTES :: nat where "MAX_MAILBOX_BYTES = 254"

definition ascii_atext :: ustr where
  "ascii_atext =
     [33, 35, 36, 37, 38, 39, 42, 43, 45, 47, 61, 63, 94, 95, 96, 123, 124, 125, 126]"

abbreviation dot :: nat where "dot \<equiv> 46"
abbreviation hyphen :: nat where "hyphen \<equiv> 45"
abbreviation star :: ustr where "star \<equiv> [42]"

definition hyphen_edge :: "ustr \<Rightarrow> bool" where
  "hyphen_edge l \<longleftrightarrow> l \<noteq> [] \<and> (hd l = hyphen \<or> last l = hyphen)"

definition ldh_char :: "nat \<Rightarrow> bool" where
  "ldh_char c \<longleftrightarrow> is_ascii c \<and> (ascii_alnum c \<or> c = hyphen)"

definition validate_label :: "ustr \<Rightarrow> unit result" where
  "validate_label l =
     (if l = [] \<or> 63 < length l then Inl (ValueError ''invalid domain label length'')
      else if hyphen_edge l then
        Inl (ValueError ''domain label cannot start or end with hyphen'')
      else if \<not> list_all ldh_char l then Inl (ValueError ''invalid domain label character'')
      else Inr ())"

definition validate_ascii_domain :: "ustr \<Rightarrow> unit result" where
  "validate_ascii_domain d =
     (if d = [] \<or> MAX_DOMAIN_BYTES < length d then Inl (ValueError ''invalid domain length'')
      else bindR (mapR validate_label (split_by (\<lambda>c. c = dot) d)) (\<lambda>_. Inr ()))"

text \<open>
  CPython's \<open>idna\<close> codec: an ASCII name is checked label by label and returned as it is;
  any other name is split at the four IDNA dots and converted label by label.
\<close>

definition idna_dot :: "nat \<Rightarrow> bool" where
  "idna_dot c \<longleftrightarrow> c = dot \<or> c = 12290 \<or> c = 65294 \<or> c = 65377"

definition idna_label_ok :: "ustr \<Rightarrow> bool" where
  "idna_label_ok l \<longleftrightarrow> 0 < length l \<and> length l < 64"

definition to_ascii :: "unicode \<Rightarrow> ustr \<Rightarrow> ustr result" where
  "to_ascii U l =
     (if list_all is_ascii l then (if idna_label_ok l then Inr l else Inl UnicodeError)
      else case u_to_ascii U l of None \<Rightarrow> Inl UnicodeError | Some a \<Rightarrow> Inr a)"

fun idna_join :: "ustr \<Rightarrow> ustr list \<Rightarrow> ustr" where
  "idna_join acc [] = acc"
| "idna_join acc (l # ls) = idna_join ((if acc = [] then [] else acc @ [dot]) @ l) ls"

definition idna_encode :: "unicode \<Rightarrow> ustr \<Rightarrow> ustr result" where
  "idna_encode U s =
     (if s = [] then Inr []
      else if list_all is_ascii s then
        (let labels = split_by (\<lambda>c. c = dot) s in
         if \<not> list_all idna_label_ok (butlast labels) then Inl UnicodeError
         else if 64 \<le> length (last labels) then Inl UnicodeError
         else Inr s)
      else
        (let labels = split_by idna_dot s;
             trailing = (if last labels = [] then [dot] else []);
             kept = (if last labels = [] then butlast labels else labels)
         in bindR (mapR (to_ascii U) kept) (\<lambda>parts. Inr (idna_join [] parts @ trailing))))"

definition ascii_decode :: "ustr \<Rightarrow> ustr result" where
  "ascii_decode bs = (if list_all is_ascii bs then Inr bs else Inl UnicodeError)"

definition fold_dots :: "ustr \<Rightarrow> ustr" where
  "fold_dots = map (\<lambda>c. if idna_dot c then dot else c)"

definition normalize_domain :: "unicode \<Rightarrow> ustr \<Rightarrow> ustr result" where
  "normalize_domain U domain =
     (let normalized = py_lower U (rstrip_by (\<lambda>c. c = dot) (py_strip U domain)) in
      if normalized = star then Inr normalized
      else if normalized = [] then Inl (ValueError ''empty domain'')
      else if list_ex (\<lambda>l. l = [] \<or> hyphen_edge l)
                (split_by (\<lambda>c. c = dot) (fold_dots normalized)) then
        Inl (ValueError ''domain label cannot start or end with hyphen'')
      else bindR (idna_encode U normalized) (\<lambda>bs. bindR (ascii_decode bs) (\<lambda>a.
        let ascii_domain = py_lower U a in
        bindR (validate_ascii_domain ascii_domain) (\<lambda>_. Inr ascii_domain))))"

section \<open>Mailbox addresses\<close>

fun double_dot :: "ustr \<Rightarrow> bool" where
  "double_dot (a # b # s) = (a = dot \<and> b = dot \<or> double_dot (b # s))"
| "double_dot _ = False"

definition local_char :: "unicode \<Rightarrow> bool \<Rightarrow> nat \<Rightarrow> bool" where
  "local_char U allow_smtputf8 c =
     (if 128 \<le> c then allow_smtputf8 \<and> \<not> py_isspace U c \<and> \<not> u_category_C U c
      else c = dot \<or> ascii_alnum c \<or> c \<in> set ascii_atext)"

definition valid_local_part :: "unicode \<Rightarrow> bool \<Rightarrow> ustr \<Rightarrow> bool" where
  "valid_local_part U allow_smtputf8 lp =
     (case utf8_len lp of
        None \<Rightarrow> False
      | Some n \<Rightarrow>
          if n = 0 \<or> MAX_LOCAL_PART_BYTES < n then False
          else if hd lp = dot \<or> last lp = dot \<or> double_dot lp then False
          else list_all (local_char U allow_smtputf8) lp)"

definition parse_mailbox_address :: "unicode \<Rightarrow> bool \<Rightarrow> ustr \<Rightarrow> (ustr \<times> ustr) option" where
  "parse_mailbox_address U allow_smtputf8 address =
     (if address = [] then None
      else case utf8_len address of
        None \<Rightarrow> None
      | Some n \<Rightarrow>
          if MAX_MAILBOX_BYTES < n then None
          else if count_list address 64 \<noteq> 1 then None
          else
            let local_part = takeWhile (\<lambda>c. c \<noteq> 64) address;
                raw_domain = tl (dropWhile (\<lambda>c. c \<noteq> 64) address)
            in if \<not> valid_local_part U allow_smtputf8 local_part \<or> raw_domain = []
                  \<or> last raw_domain = dot \<or> py_strip U raw_domain \<noteq> raw_domain
                  \<or> (\<not> allow_smtputf8 \<and> \<not> list_all is_ascii raw_domain) then None
               else case normalize_domain U raw_domain of
                 Inl _ \<Rightarrow> None
               | Inr normalized_domain \<Rightarrow>
                   if normalized_domain = star then None
                   else case utf8_len local_part of
                     None \<Rightarrow> None
                   | Some k \<Rightarrow>
                       if MAX_MAILBOX_BYTES < k + 1 + length normalized_domain then None
                       else Some (local_part, normalized_domain))"

section \<open>The domain matcher\<close>

record domain_rule =
  rule_domain_id :: int
  rule_root_domain_ascii :: ustr
  accept_exact :: bool
  accept_subdomains :: bool
  plus_addressing_mode :: string
  local_part_case_sensitive :: bool

record domain_match =
  match_domain_id :: int
  match_domain_ascii :: ustr
  match_root_domain_ascii :: ustr
  match_local_part :: ustr
  match_local_part_canonical :: ustr
  address_canonical :: ustr

record domain_matcher =
  rules_by_root :: "ustr \<rightharpoonup> domain_rule"
  catch_all_rule :: "domain_rule option"

definition add_rule :: "unicode \<Rightarrow> domain_matcher \<Rightarrow> domain_rule \<Rightarrow> domain_matcher result" where
  "add_rule U M rule =
     bindR (normalize_domain U (rule_root_domain_ascii rule)) (\<lambda>root.
       Inr (if root = star then
              (case catch_all_rule M of
                 None \<Rightarrow> M\<lparr>catch_all_rule := Some rule\<rparr>
               | Some _ \<Rightarrow> M)
            else
              (case rules_by_root M root of
                 None \<Rightarrow> M\<lparr>rules_by_root := (rules_by_root M)(root \<mapsto> rule)\<rparr>
               | Some _ \<Rightarrow> M)))"

fun add_rules :: "unicode \<Rightarrow> domain_matcher \<Rightarrow> domain_rule list \<Rightarrow> domain_matcher result" where
  "add_rules U M [] = Inr M"
| "add_rules U M (r # rs) = bindR (add_rule U M r) (\<lambda>M'. add_rules U M' rs)"

definition domain_matcher_init :: "unicode \<Rightarrow> domain_rule list \<Rightarrow> domain_matcher result" where
  "domain_matcher_init U rules =
     add_rules U \<lparr>rules_by_root = Map.empty, catch_all_rule = None\<rparr> rules"

text \<open>The walk over the DNS suffixes of a domain, from the longest to the shortest.\<close>

fun suffix_walk :: "(ustr \<rightharpoonup> domain_rule) \<Rightarrow> ustr \<Rightarrow> (ustr \<times> domain_rule) option" where
  "suffix_walk rules [] = None"
| "suffix_walk rules (c # cs) =
     (if c \<noteq> dot then suffix_walk rules cs
      else case rules cs of
        Some r \<Rightarrow> Some (cs, r)
      | None \<Rightarrow> suffix_walk rules cs)"

text \<open>The rule that decides, with its root and whether the match is exact.\<close>

definition select_rule :: "domain_matcher \<Rightarrow> ustr \<Rightarrow> (ustr \<times> domain_rule \<times> bool) option" where
  "select_rule M d =
     (case rules_by_root M d of
        Some r \<Rightarrow> Some (d, r, True)
      | None \<Rightarrow>
          (case suffix_walk (rules_by_root M) d of
             Some (root, r) \<Rightarrow> Some (root, r, False)
           | None \<Rightarrow> map_option (\<lambda>r. (star, r, True)) (catch_all_rule M)))"

definition canonical_local_part :: "unicode \<Rightarrow> domain_rule \<Rightarrow> ustr \<Rightarrow> ustr" where
  "canonical_local_part U rule lp =
     (let lp1 = (if plus_addressing_mode rule = ''strip'' then takeWhile (\<lambda>c. c \<noteq> 43) lp else lp)
      in if local_part_case_sensitive rule then lp1 else py_lower U lp1)"

definition match_address :: "unicode \<Rightarrow> domain_matcher \<Rightarrow> ustr \<Rightarrow> domain_match option" where
  "match_address U M address =
     (case parse_mailbox_address U True address of
        None \<Rightarrow> None
      | Some (local_part, normalized_domain) \<Rightarrow>
          (case select_rule M normalized_domain of
             None \<Rightarrow> None
           | Some (root, rule, is_exact) \<Rightarrow>
               if root \<noteq> star \<and> is_exact \<and> \<not> accept_exact rule then None
               else if root \<noteq> star \<and> \<not> is_exact \<and> \<not> accept_subdomains rule then None
               else
                 let canonical = canonical_local_part U rule local_part in
                 if \<not> valid_local_part U True canonical then None
                 else case utf8_len canonical of
                   None \<Rightarrow> None
                 | Some k \<Rightarrow>
                     if MAX_MAILBOX_BYTES < k + 1 + length normalized_domain then None
                     else Some \<lparr>match_domain_id = rule_domain_id rule,
                                match_domain_ascii = normalized_domain,
                                match_root_domain_ascii = root,
                                match_local_part = local_part,
                                match_local_part_canonical = canonical,
                                address_canonical = canonical @ 64 # normalized_domain\<rparr>))"

section \<open>Well-formed domains\<close>

definition ldh_label :: "ustr \<Rightarrow> bool" where
  "ldh_label l \<longleftrightarrow> l \<noteq> [] \<and> length l \<le> 63 \<and> \<not> hyphen_edge l \<and> list_all ldh_char l"

definition ldh_domain :: "ustr \<Rightarrow> bool" where
  "ldh_domain d \<longleftrightarrow>
     d \<noteq> [] \<and> length d \<le> 253 \<and> list_all ldh_label (split_by (\<lambda>c. c = dot) d)
       \<and> list_all (\<lambda>c. \<not> ascii_upper c) d"

lemma validate_label_ok: "validate_label l = Inr () \<longleftrightarrow> ldh_label l"
  by (auto simp: validate_label_def ldh_label_def)

lemma mapR_validate: "(\<exists>us. mapR validate_label ls = Inr us) \<longleftrightarrow> list_all ldh_label ls"
proof (induction ls)
  case (Cons l ls)
  then show ?case
    by (cases "validate_label l") (auto simp: bindR_Inr_iff simp flip: validate_label_ok)
qed simp

lemma validate_ascii_domain_ok:
  "validate_ascii_domain d = Inr v \<longleftrightarrow>
     d \<noteq> [] \<and> length d \<le> 253 \<and> list_all ldh_label (split_by (\<lambda>c. c = dot) d)"
  using mapR_validate [of "split_by (\<lambda>c. c = dot) d"]
  by (auto simp: validate_ascii_domain_def MAX_DOMAIN_BYTES_def bindR_Inr_iff)

lemma ldh_char_facts:
  assumes "c = dot \<or> ldh_char c"
  shows "is_ascii c" "\<not> ascii_space c" "c \<noteq> 42" "c \<noteq> 64"
  using assms by (auto simp: ldh_char_def is_ascii_def ascii_alnum_def ascii_space_def)

lemma ldh_domain_chars:
  assumes "list_all ldh_label (split_by (\<lambda>c. c = dot) d)" and "c \<in> set d"
  shows "c = dot \<or> ldh_char c"
proof (cases "c = dot")
  case False
  with assms(2) have "c \<in> \<Union> (set ` set (split_by (\<lambda>c. c = dot) d))"
    by (auto simp: set_split_by)
  with assms(1) show ?thesis by (auto simp: list_all_iff ldh_label_def)
qed simp

lemma ldh_domain_ascii:
  assumes "list_all ldh_label (split_by (\<lambda>c. c = dot) d)"
  shows "list_all is_ascii d" "list_all (\<lambda>c. \<not> py_isspace U c) d" "64 \<notin> set d" "42 \<notin> set d"
  using ldh_char_facts [OF ldh_domain_chars [OF assms]]
  by (fastforce simp: list_all_iff py_isspace_def)+

lemma ldh_domain_last:
  assumes "d \<noteq> []" and "list_all ldh_label (split_by (\<lambda>c. c = dot) d)"
  shows "last d \<noteq> dot"
proof
  assume "last d = dot"
  with assms(1) have "last (split_by (\<lambda>c. c = dot) d) = []"
    by (simp add: last_split_by)
  moreover have "last (split_by (\<lambda>c. c = dot) d) \<in> set (split_by (\<lambda>c. c = dot) d)"
    by (rule last_in_set) simp
  ultimately show False using assms(2) by (auto simp: list_all_iff ldh_label_def)
qed

lemma fold_dots_ascii: "list_all is_ascii d \<Longrightarrow> fold_dots d = d"
  by (induction d) (auto simp: fold_dots_def idna_dot_def is_ascii_def)

lemma py_lower_ascii_idem:
  "list_all is_ascii s \<Longrightarrow> py_lower U (py_lower U s) = py_lower U s"
  by (auto simp: py_lower_def list_all_iff is_ascii_def ascii_lower_def ascii_upper_def)

lemma py_lower_id:
  "list_all is_ascii s \<Longrightarrow> list_all (\<lambda>c. \<not> ascii_upper c) s \<Longrightarrow> py_lower U s = s"
  by (auto simp: py_lower_def list_all_iff ascii_lower_def intro!: map_idI)

lemma py_lower_no_upper:
  "list_all is_ascii s \<Longrightarrow> list_all (\<lambda>c. \<not> ascii_upper c) (py_lower U s)"
  by (auto simp: py_lower_def list_all_iff ascii_lower_def ascii_upper_def)

lemma idna_encode_ldh:
  assumes "list_all ldh_label (split_by (\<lambda>c. c = dot) d)"
  shows "idna_encode U d = Inr d"
proof -
  let ?ls = "split_by (\<lambda>c. c = dot) d"
  have ok: "idna_label_ok l" if "l \<in> set ?ls" for l
    using assms that by (auto simp: list_all_iff ldh_label_def idna_label_ok_def)
  then have "list_all idna_label_ok (butlast ?ls)" "length (last ?ls) < 64"
    using ok [of "last ?ls"] by (auto simp: list_all_iff idna_label_ok_def dest: in_set_butlastD)
  then show ?thesis using ldh_domain_ascii(1) [OF assms] by (auto simp: idna_encode_def)
qed

lemma normalize_domain_cases:
  assumes "normalize_domain U d = Inr n"
  shows "n = star \<or> ldh_domain n"
proof -
  let ?n = "py_lower U (rstrip_by (\<lambda>c. c = dot) (py_strip U d))"
  show ?thesis
  proof (cases "?n = star")
    case True
    with assms show ?thesis by (simp add: normalize_domain_def Let_def)
  next
    case False
    with assms obtain a where a: "list_all is_ascii a" "n = py_lower U a"
        "validate_ascii_domain n = Inr ()"
      by (auto simp: normalize_domain_def Let_def bindR_Inr_iff ascii_decode_def split: if_splits)
    then show ?thesis
      by (auto simp: ldh_domain_def validate_ascii_domain_ok py_lower_no_upper)
  qed
qed

lemma normalize_domain_ldh:
  assumes "ldh_domain n"
  shows "normalize_domain U n = Inr n"
proof -
  from assms have ne: "n \<noteq> []" and ls: "list_all ldh_label (split_by (\<lambda>c. c = dot) n)"
    and up: "list_all (\<lambda>c. \<not> ascii_upper c) n" and len: "length n \<le> 253"
    by (auto simp: ldh_domain_def)
  note asc = ldh_domain_ascii [OF ls]
  have "py_strip U n = n" by (simp add: py_strip_def strip_by_id asc(2))
  moreover have "rstrip_by (\<lambda>c. c = dot) n = n"
    using ldh_domain_last [OF ne ls] by (simp add: rstrip_by_id)
  moreover have "py_lower U n = n" using asc(1) up by (rule py_lower_id)
  moreover have "n \<noteq> star" using asc(4) by auto
  moreover have "\<not> list_ex (\<lambda>l. l = [] \<or> hyphen_edge l) (split_by (\<lambda>c. c = dot) (fold_dots n))"
    using ls by (auto simp: fold_dots_ascii [OF asc(1)] list_all_iff list_ex_iff ldh_label_def)
  moreover have "validate_ascii_domain n = Inr ()"
    using ne len ls by (simp add: validate_ascii_domain_ok)
  ultimately show ?thesis
    using ne asc(1) by (simp add: normalize_domain_def idna_encode_ldh [OF ls] ascii_decode_def)
qed

lemma normalize_domain_star: "normalize_domain U star = Inr star"
  by (simp add: normalize_domain_def py_strip_def strip_by_def rstrip_by_def py_isspace_def
      is_ascii_def ascii_space_def py_lower_def ascii_lower_def ascii_upper_def)

section \<open>The suffix walk against a linear reference\<close>

text \<open>
  The reference a reader would write first: scan every configured rule, keep those whose
  normalised root is the domain or a dot-suffix of it, and take the first of the longest.
\<close>

definition covers :: "ustr \<Rightarrow> ustr \<Rightarrow> bool" where
  "covers root d \<longleftrightarrow> d = root \<or> (\<exists>p. d = p @ dot # root)"

fun first_longest :: "(ustr \<times> 'r) list \<Rightarrow> (ustr \<times> 'r) option" where
  "first_longest [] = None"
| "first_longest (x # xs) =
     (case first_longest xs of
        None \<Rightarrow> Some x
      | Some y \<Rightarrow> if length (fst x) < length (fst y) then Some y else Some x)"

fun rooted :: "unicode \<Rightarrow> domain_rule list \<Rightarrow> (ustr \<times> domain_rule) list" where
  "rooted U [] = []"
| "rooted U (r # rs) =
     (case normalize_domain U (rule_root_domain_ascii r) of
        Inl _ \<Rightarrow> rooted U rs
      | Inr root \<Rightarrow> (root, r) # rooted U rs)"

definition reference_rule ::
  "unicode \<Rightarrow> domain_rule list \<Rightarrow> ustr \<Rightarrow> (ustr \<times> domain_rule \<times> bool) option" where
  "reference_rule U rules d =
     (case first_longest (filter (\<lambda>(root, _). root \<noteq> star \<and> covers root d) (rooted U rules)) of
        Some (root, r) \<Rightarrow> Some (root, r, root = d)
      | None \<Rightarrow> map_option (\<lambda>r. (star, r, True)) (map_of (rooted U rules) star))"

lemma add_rules_tables:
  assumes "add_rules U M rules = Inr M'"
  shows "rules_by_root M' =
           map_of (filter (\<lambda>(root, _). root \<noteq> star) (rooted U rules)) ++ rules_by_root M"
    and "catch_all_rule M' =
           (case catch_all_rule M of None \<Rightarrow> map_of (rooted U rules) star | Some r \<Rightarrow> Some r)"
  using assms
proof (induction rules arbitrary: M)
  case Nil
  {
    case 1
    then show ?case by simp
  next
    case 2
    then show ?case by (simp split: option.splits)
  }
next
  case (Cons r rules)
  {
    case 1
    then obtain M1 root where M1: "add_rule U M r = Inr M1" "add_rules U M1 rules = Inr M'"
      and root: "normalize_domain U (rule_root_domain_ascii r) = Inr root"
      by (auto simp: bindR_Inr_iff add_rule_def)
    have t: "rules_by_root M1 =
        (if root = star \<or> rules_by_root M root \<noteq> None then rules_by_root M
         else (rules_by_root M)(root \<mapsto> r))"
      using M1(1) root by (auto simp: add_rule_def split: if_splits option.splits)
    show ?case
      unfolding Cons.IH(1) [OF M1(2)] t using root
      by (auto simp: map_add_def fun_eq_iff split: option.splits)
  next
    case 2
    then obtain M1 root where M1: "add_rule U M r = Inr M1" "add_rules U M1 rules = Inr M'"
      and root: "normalize_domain U (rule_root_domain_ascii r) = Inr root"
      by (auto simp: bindR_Inr_iff add_rule_def)
    then show ?case
      using Cons.IH(2) [OF M1(2)]
      by (auto simp: add_rule_def split: if_splits option.splits)
  }
qed

lemma domain_matcher_tables:
  assumes "domain_matcher_init U rules = Inr M"
  shows "rules_by_root M = map_of (filter (\<lambda>(root, _). root \<noteq> star) (rooted U rules))"
    and "catch_all_rule M = map_of (rooted U rules) star"
  using add_rules_tables [of U _ rules M] assms by (auto simp: domain_matcher_init_def)

lemma suffix_walk_None:
  "suffix_walk m d = None \<Longrightarrow> d = p @ dot # root \<Longrightarrow> m root = None"
proof (induction d arbitrary: p)
  case (Cons c cs)
  then show ?case by (cases p) (auto split: if_splits option.splits)
qed simp

lemma suffix_walk_Some:
  assumes "suffix_walk m d = Some (root, r)"
  shows "m root = Some r \<and> (\<exists>p. d = p @ dot # root) \<and>
         (\<forall>p root'. d = p @ dot # root' \<longrightarrow> m root' \<noteq> None \<longrightarrow> length root' \<le> length root)"
  using assms
proof (induction d)
  case (Cons c cs)
  show ?case
  proof (cases "c = dot \<and> m cs \<noteq> None")
    case True
    with Cons.prems show ?thesis
      by (auto intro!: exI [of _ "[]"] dest: arg_cong [where f = length])
  next
    case False
    then have w: "suffix_walk m cs = Some (root, r)"
      using Cons.prems by (auto split: if_splits)
    note ih = Cons.IH [OF w]
    then obtain q where "cs = q @ dot # root" by blast
    then have ex: "\<exists>p. c # cs = p @ dot # root" by (intro exI [of _ "c # q"]) simp
    have "length root' \<le> length root" if "c # cs = p @ dot # root'" "m root' \<noteq> None" for p root'
      using that False ih by (cases p) auto
    with ih ex show ?thesis by blast
  qed
qed simp

lemma first_longest_None: "first_longest xs = None \<longleftrightarrow> xs = []"
  by (cases xs) (auto split: option.splits)

lemma first_longest_Some:
  "first_longest xs = Some y \<Longrightarrow>
     y \<in> set xs \<and> (\<forall>x \<in> set xs. length (fst x) \<le> length (fst y))"
proof (induction xs arbitrary: y)
  case (Cons x xs)
  then show ?case
    by (cases "first_longest xs") (auto simp: first_longest_None split: if_splits)
qed simp

lemma first_longest_map_of:
  assumes "first_longest xs = Some (root, r)"
    and "\<And>x y. x \<in> set xs \<Longrightarrow> y \<in> set xs \<Longrightarrow> length (fst x) = length (fst y) \<Longrightarrow> fst x = fst y"
  shows "map_of xs root = Some r"
  using assms
proof (induction xs)
  case (Cons x xs)
  show ?case
  proof (cases "first_longest xs")
    case None
    with Cons.prems(1) show ?thesis by (auto simp: first_longest_None)
  next
    case (Some y)
    show ?thesis
    proof (cases "length (fst x) < length (fst y)")
      case True
      with Some Cons.prems(1) have y: "y = (root, r)" by simp
      with Some have "map_of xs root = Some r"
        using Cons.IH Cons.prems(2) by simp
      with True y show ?thesis by (cases x) auto
    next
      case False
      with Some Cons.prems(1) show ?thesis by simp
    qed
  qed
qed simp

lemma covers_same_length: "covers a d \<Longrightarrow> covers b d \<Longrightarrow> length a = length b \<Longrightarrow> a = b"
  by (auto simp: covers_def append_eq_append_conv)

lemma covers_length: "covers a d \<Longrightarrow> length a \<le> length d"
  by (auto simp: covers_def)

lemma map_of_filter_fst:
  "map_of (filter (\<lambda>(k, _). P k) xs) k = (if P k then map_of xs k else None)"
  by (induction xs) auto

lemma map_of_covering:
  assumes "domain_matcher_init U rules = Inr M"
  shows "map_of (filter (\<lambda>(root, _). root \<noteq> star \<and> covers root d) (rooted U rules)) root =
           (if covers root d then rules_by_root M root else None)"
  using assms
  by (simp add: domain_matcher_tables(1) map_of_filter_fst
      map_of_filter_fst [where P = "\<lambda>k. k \<noteq> star \<and> covers k d"])

lemma select_rule_maximal:
  assumes "select_rule M d = Some (root, r, e)" and "rules_by_root M root' \<noteq> None"
    and "covers root' d"
  shows "rules_by_root M root = Some r \<and> covers root d \<and> length root' \<le> length root
         \<and> e = (root = d)"
proof (cases "rules_by_root M d")
  case None
  with assms(2,3) obtain p where p: "d = p @ dot # root'" by (auto simp: covers_def)
  with None assms(1,2) suffix_walk_None [of "rules_by_root M" d p root']
  have w: "suffix_walk (rules_by_root M) d = Some (root, r)" and "e = False"
    by (auto simp: select_rule_def split: option.splits)
  moreover from suffix_walk_Some [OF w] have "covers root d" "root \<noteq> d"
    by (auto simp: covers_def)
  ultimately show ?thesis using suffix_walk_Some [OF w] p assms(2) by blast
next
  case (Some a)
  with assms show ?thesis
    by (auto simp: select_rule_def covers_def)
qed

lemma select_rule_eq_reference:
  assumes "domain_matcher_init U rules = Inr M"
  shows "select_rule M d = reference_rule U rules d"
proof -
  let ?F = "filter (\<lambda>(root, _). root \<noteq> star \<and> covers root d) (rooted U rules)"
  note F = map_of_covering [OF assms, of d]
  show ?thesis
  proof (cases "first_longest ?F")
    case None
    then have none: "rules_by_root M root = None" if "covers root d" for root
      using F [of root] that by (simp add: first_longest_None)
    moreover have "suffix_walk (rules_by_root M) d = None"
    proof (cases "suffix_walk (rules_by_root M) d")
      case (Some a)
      then show ?thesis
        using suffix_walk_Some [of "rules_by_root M" d "fst a" "snd a"] none
        by (auto simp: covers_def)
    qed
    ultimately show ?thesis
      using None by (simp add: select_rule_def reference_rule_def covers_def
          domain_matcher_tables(2) [OF assms])
  next
    case (Some y)
    obtain root r where y: "y = (root, r)" by (cases y)
    have "map_of ?F root = Some r"
      using Some y by (intro first_longest_map_of) (auto intro: covers_same_length)
    then have c: "covers root d" and m: "rules_by_root M root = Some r"
      using F [of root] by (auto split: if_splits)
    have max: "length root' \<le> length root"
      if "covers root' d" "rules_by_root M root' \<noteq> None" for root'
    proof -
      from that obtain r' where "map_of ?F root' = Some r'" using F [of root'] by auto
      then show ?thesis
        using first_longest_Some [OF Some] y by (fastforce dest!: map_of_SomeD)
    qed
    have "select_rule M d \<noteq> None"
      using c m suffix_walk_None [of "rules_by_root M" d]
      by (auto simp: select_rule_def covers_def split: option.splits)
    then obtain root2 r2 e2 where s: "select_rule M d = Some (root2, r2, e2)" by auto
    from select_rule_maximal [OF s _ c] m
    have s2: "rules_by_root M root2 = Some r2" "covers root2 d" "length root \<le> length root2"
        "e2 = (root2 = d)" by auto
    with max [of root2] c have "root2 = root" by (auto intro: covers_same_length)
    with s s2 m Some y show ?thesis by (simp add: reference_rule_def)
  qed
qed

section \<open>Canonical addresses\<close>

text \<open>
  What matching relies on of \<open>str.lower\<close> beyond ASCII: it is idempotent and introduces no
  plus sign.
\<close>

definition lower_lawful :: "unicode \<Rightarrow> bool" where
  "lower_lawful U \<longleftrightarrow>
     (\<forall>s. \<not> list_all is_ascii s \<longrightarrow>
        py_lower U (u_lower U s) = u_lower U s \<and> (43 \<notin> set s \<longrightarrow> 43 \<notin> set (u_lower U s)))"

lemma py_lower_idem: "lower_lawful U \<Longrightarrow> py_lower U (py_lower U s) = py_lower U s"
  using py_lower_ascii_idem [of s U] by (auto simp: lower_lawful_def py_lower_def)

lemma py_lower_plus: "lower_lawful U \<Longrightarrow> 43 \<notin> set s \<Longrightarrow> 43 \<notin> set (py_lower U s)"
  by (auto simp: lower_lawful_def py_lower_def ascii_lower_def ascii_upper_def split: if_splits)

lemma takeWhile_id: "x \<notin> set xs \<Longrightarrow> takeWhile (\<lambda>c. c \<noteq> x) xs = xs"
  by (auto simp: takeWhile_eq_all_conv)

lemma lower_stripped_plus:
  assumes "lower_lawful U"
  shows "takeWhile (\<lambda>c. c \<noteq> 43) (py_lower U (takeWhile (\<lambda>c. c \<noteq> 43) lp)) =
           py_lower U (takeWhile (\<lambda>c. c \<noteq> 43) lp)"
proof (rule takeWhile_id)
  have "43 \<notin> set (takeWhile (\<lambda>c. c \<noteq> 43) lp)" by (auto dest: set_takeWhileD)
  with assms show "43 \<notin> set (py_lower U (takeWhile (\<lambda>c. c \<noteq> 43) lp))" by (rule py_lower_plus)
qed

lemma canonical_local_part_idem:
  "lower_lawful U \<Longrightarrow>
     canonical_local_part U rule (canonical_local_part U rule lp) = canonical_local_part U rule lp"
  by (simp add: canonical_local_part_def Let_def py_lower_idem lower_stripped_plus)

lemma split_at:
  assumes "x \<notin> set xs"
  shows "takeWhile (\<lambda>c. c \<noteq> x) (xs @ x # ys) = xs" "dropWhile (\<lambda>c. c \<noteq> x) (xs @ x # ys) = x # ys"
  using assms by (induction xs) auto

lemma valid_local_part_at: "valid_local_part U b lp \<Longrightarrow> 64 \<notin> set lp"
  by (auto simp: valid_local_part_def list_all_iff local_char_def ascii_alnum_def ascii_atext_def
      split: option.splits if_splits)

lemma parse_mailbox_address_sound:
  assumes "parse_mailbox_address U b a = Some (lp, d)"
  shows "valid_local_part U b lp \<and> ldh_domain d
         \<and> (\<exists>k. utf8_len lp = Some k \<and> k + 1 + length d \<le> 254)
         \<and> (\<exists>raw. a = lp @ 64 # raw \<and> normalize_domain U raw = Inr d)"
proof -
  let ?raw = "tl (dropWhile (\<lambda>c. c \<noteq> 64) a)"
  from assms have p: "lp = takeWhile (\<lambda>c. c \<noteq> 64) a" "normalize_domain U ?raw = Inr d"
      "d \<noteq> star" "valid_local_part U b lp" "?raw \<noteq> []"
      "\<exists>k. utf8_len lp = Some k \<and> k + 1 + length d \<le> 254"
    by (auto simp: parse_mailbox_address_def Let_def MAX_MAILBOX_BYTES_def
        split: if_splits option.splits sum.splits)
  have "dropWhile (\<lambda>c. c \<noteq> 64) a = 64 # ?raw"
    using p(5) hd_dropWhile [of "\<lambda>c. c \<noteq> 64" a]
    by (cases "dropWhile (\<lambda>c. c \<noteq> 64) a") auto
  then have "a = lp @ 64 # ?raw"
    using p(1) takeWhile_dropWhile_id [of "\<lambda>c. c \<noteq> 64" a] by simp
  with p show ?thesis using normalize_domain_cases [OF p(2)] by blast
qed

lemma parse_mailbox_address_complete:
  assumes "valid_local_part U b lp" and "ldh_domain d"
    and "utf8_len lp = Some k" and "k + 1 + length d \<le> 254"
  shows "parse_mailbox_address U b (lp @ 64 # d) = Some (lp, d)"
proof -
  from assms(2) have ne: "d \<noteq> []" and ls: "list_all ldh_label (split_by (\<lambda>c. c = dot) d)"
    by (auto simp: ldh_domain_def)
  note asc = ldh_domain_ascii [OF ls]
  note at = valid_local_part_at [OF assms(1)]
  from utf8_len_ascii [OF asc(1)] assms(3)
  have "utf8_len (lp @ 64 # d) = Some (k + 1 + length d)"
    by (auto simp: utf8_len_def utf8_width_def surrogate_def split: if_splits)
  moreover have "count_list (lp @ 64 # d) 64 = 1"
    using at asc(3) by simp
  moreover have "py_strip U d = d" by (simp add: py_strip_def strip_by_id asc(2))
  moreover have "d \<noteq> star" using asc(4) by auto
  ultimately show ?thesis
    using assms ne at asc(1) ldh_domain_last [OF ne ls] normalize_domain_ldh [OF assms(2), of U]
    by (simp add: parse_mailbox_address_def MAX_MAILBOX_BYTES_def split_at [OF at])
qed

lemma match_address_Some:
  assumes "match_address U M a = Some m"
  obtains lp d root r e k where
    "parse_mailbox_address U True a = Some (lp, d)" "select_rule M d = Some (root, r, e)"
    "root \<noteq> star \<longrightarrow> (if e then accept_exact r else accept_subdomains r)"
    "valid_local_part U True (canonical_local_part U r lp)"
    "utf8_len (canonical_local_part U r lp) = Some k" "k + 1 + length d \<le> 254"
    "m = \<lparr>match_domain_id = rule_domain_id r, match_domain_ascii = d,
          match_root_domain_ascii = root, match_local_part = lp,
          match_local_part_canonical = canonical_local_part U r lp,
          address_canonical = canonical_local_part U r lp @ 64 # d\<rparr>"
  using assms
  by (auto simp: match_address_def Let_def MAX_MAILBOX_BYTES_def
      split: option.splits if_splits prod.splits)

section \<open>Properties\<close>

text \<open>
  \<open>normalize_domain\<close> returns the catch-all marker or a well-formed lower-case ASCII
  domain (at most 253 characters, labels of 1 to 63 letters, digits and inner hyphens), and
  normalising that result again changes nothing, whatever the Unicode tables are.
\<close>

theorem normalize_domain_wellformed_idempotent:
  assumes "normalize_domain U d = Inr n"
  shows "(n = star \<or> ldh_domain n) \<and> normalize_domain U n = Inr n"
  using normalize_domain_cases [OF assms] normalize_domain_ldh normalize_domain_star by blast

text \<open>
  C1: the dictionary and suffix walk of \<open>DomainMatcher\<close> choose exactly the rule a linear
  scan over all configured rules chooses: the first rule with the longest root that is the
  domain itself or a dot-suffix of it, else the first catch-all rule.
\<close>

theorem select_rule_most_specific:
  assumes "domain_matcher_init U rules = Inr M"
  shows "select_rule M d = reference_rule U rules d"
  using assms by (rule select_rule_eq_reference)

text \<open>
  a canonical mailbox address is a fixed point of matching: matching the
  \<open>address_canonical\<close> of a match again selects the same domain and root and returns the
  same canonical address, so one mailbox has one canonical spelling.
\<close>

theorem match_address_canonical_fixpoint:
  assumes "lower_lawful U" and "match_address U M a = Some m"
  shows "match_address U M (address_canonical m) =
           Some (m\<lparr>match_local_part := match_local_part_canonical m\<rparr>)"
proof -
  from assms(2) obtain lp d root r e k where
    m: "parse_mailbox_address U True a = Some (lp, d)" "select_rule M d = Some (root, r, e)"
      "root \<noteq> star \<longrightarrow> (if e then accept_exact r else accept_subdomains r)"
      "valid_local_part U True (canonical_local_part U r lp)"
      "utf8_len (canonical_local_part U r lp) = Some k" "k + 1 + length d \<le> 254"
      "m = \<lparr>match_domain_id = rule_domain_id r, match_domain_ascii = d,
            match_root_domain_ascii = root, match_local_part = lp,
            match_local_part_canonical = canonical_local_part U r lp,
            address_canonical = canonical_local_part U r lp @ 64 # d\<rparr>"
    by (rule match_address_Some)
  have "parse_mailbox_address U True (canonical_local_part U r lp @ 64 # d) =
          Some (canonical_local_part U r lp, d)"
    using parse_mailbox_address_sound [OF m(1)] m(4-6)
    by (intro parse_mailbox_address_complete) auto
  then show ?thesis
    using m by (auto simp: match_address_def canonical_local_part_idem [OF assms(1)]
        MAX_MAILBOX_BYTES_def Let_def split: if_splits)
qed

text \<open>
  \<open>parse_mailbox_address\<close> is a round trip: it returns a local part and a domain
  exactly when joining them with an at sign is an address it parses to the same pair, and
  that address is within 254 bytes with a valid local part and a well-formed domain.
\<close>

theorem parse_mailbox_address_roundtrip:
  assumes "parse_mailbox_address U b a = Some (lp, d)"
  shows "parse_mailbox_address U b (lp @ 64 # d) = Some (lp, d)
         \<and> valid_local_part U b lp \<and> ldh_domain d
         \<and> (\<exists>n. utf8_len (lp @ 64 # d) = Some n \<and> n \<le> 254)"
proof -
  from parse_mailbox_address_sound [OF assms] obtain k where
    s: "valid_local_part U b lp" "ldh_domain d" "utf8_len lp = Some k" "k + 1 + length d \<le> 254"
    by blast
  have "list_all is_ascii d" using s(2) ldh_domain_ascii(1) by (auto simp: ldh_domain_def)
  from utf8_len_ascii [OF this] s(3) have "utf8_len (lp @ 64 # d) = Some (k + 1 + length d)"
    by (auto simp: utf8_len_def utf8_width_def surrogate_def split: if_splits)
  with s show ?thesis using parse_mailbox_address_complete [OF s] by simp
qed

section \<open>Witnesses\<close>

text \<open>
  A fragment of the real tables: the no-break space, U+0085, the capital E with acute accent
  and the IDNA form of one label.
\<close>

definition ex_unicode :: unicode where
  "ex_unicode = \<lparr>u_isspace = (\<lambda>c. c = 133 \<or> c = 160), u_category_C = (\<lambda>c. c = 133),
     u_lower = map (\<lambda>c. if c = 201 then 233 else ascii_lower c),
     u_to_ascii = (\<lambda>l. if l = [98, 252, 99, 104, 101, 114] then Some (u ''xn--bcher-kva'') else None)\<rparr>"

definition ex_rule :: "int \<Rightarrow> string \<Rightarrow> domain_rule" where
  "ex_rule i root = \<lparr>rule_domain_id = i, rule_root_domain_ascii = u root, accept_exact = True,
     accept_subdomains = True, plus_addressing_mode = ''strip'', local_part_case_sensitive = False\<rparr>"

lemmas ascii_eval = u_def is_ascii_def ascii_upper_def ascii_alnum_def ascii_space_def
  ascii_lower_def py_isspace_def py_lower_def rstrip_by_def strip_by_def py_strip_def
  utf8_width_def surrogate_def utf8_len_def

lemmas matcher_eval = ascii_eval normalize_domain_def idna_encode_def fold_dots_def idna_dot_def
  hyphen_edge_def ldh_char_def validate_label_def validate_ascii_domain_def ascii_decode_def
  idna_label_ok_def MAX_DOMAIN_BYTES_def MAX_LOCAL_PART_BYTES_def MAX_MAILBOX_BYTES_def
  to_ascii_def ascii_atext_def local_char_def valid_local_part_def parse_mailbox_address_def
  Let_def

lemma ex_lower_lawful: "lower_lawful ex_unicode"
proof -
  have "py_lower ex_unicode (u_lower ex_unicode s) = u_lower ex_unicode s" for s
    by (auto simp: ex_unicode_def py_lower_def ascii_lower_def ascii_upper_def is_ascii_def list_all_iff)
  moreover have "43 \<notin> set s \<Longrightarrow> 43 \<notin> set (u_lower ex_unicode s)" for s
    by (auto simp: ex_unicode_def ascii_lower_def ascii_upper_def)
  ultimately show ?thesis by (simp add: lower_lawful_def)
qed

lemma ex_normalize_idna:
  "normalize_domain ex_unicode ([98, 252, 99, 104, 101, 114] @ u ''.Example.'') =
     Inr (u ''xn--bcher-kva.example'')"
  by (simp add: matcher_eval ex_unicode_def)

lemma ex_normalize_roots:
  "normalize_domain ex_unicode (u ''Example.COM'') = Inr (u ''example.com'')"
  "normalize_domain ex_unicode (u ''mail.example.com.'') = Inr (u ''mail.example.com'')"
  by (simp_all add: matcher_eval)

lemma ex_parse:
  "parse_mailbox_address ex_unicode True (u ''Bob+news@a.Mail.example.com'') =
     Some (u ''Bob+news'', u ''a.mail.example.com'')"
  by (simp add: matcher_eval)

definition ex_matcher :: domain_matcher where
  "ex_matcher = \<lparr>rules_by_root = Map.empty(u ''example.com'' \<mapsto> ex_rule 1 ''Example.COM'',
       u ''mail.example.com'' \<mapsto> ex_rule 2 ''mail.example.com.''),
     catch_all_rule = None\<rparr>"

lemma ex_matcher_init:
  "domain_matcher_init ex_unicode [ex_rule 1 ''Example.COM'', ex_rule 2 ''mail.example.com.''] =
     Inr ex_matcher"
proof -
  have "u ''example.com'' \<noteq> star" "u ''mail.example.com'' \<noteq> star"
    "u ''mail.example.com'' \<noteq> u ''example.com''"
    by (simp_all add: u_def)
  then show ?thesis
    by (simp add: domain_matcher_init_def add_rule_def ex_normalize_roots ex_rule_def ex_matcher_def)
qed

lemma ex_match:
  "match_address ex_unicode ex_matcher (u ''Bob+news@a.Mail.example.com'') =
     Some \<lparr>match_domain_id = 2, match_domain_ascii = u ''a.mail.example.com'',
       match_root_domain_ascii = u ''mail.example.com'', match_local_part = u ''Bob+news'',
       match_local_part_canonical = u ''bob'', address_canonical = u ''bob@a.mail.example.com''\<rparr>"
  unfolding match_address_def ex_parse
  by (simp add: matcher_eval select_rule_def canonical_local_part_def ex_matcher_def ex_rule_def)

theorem normalize_domain_wellformed_idempotent_witness:
  "ldh_domain (u ''xn--bcher-kva.example'')
   \<and> normalize_domain ex_unicode (u ''xn--bcher-kva.example'') = Inr (u ''xn--bcher-kva.example'')"
  using normalize_domain_wellformed_idempotent [OF ex_normalize_idna] by (auto simp: u_def)

theorem select_rule_most_specific_witness:
  "select_rule ex_matcher (u ''a.mail.example.com'') =
     reference_rule ex_unicode [ex_rule 1 ''Example.COM'', ex_rule 2 ''mail.example.com.'']
       (u ''a.mail.example.com'')
   \<and> select_rule ex_matcher (u ''a.mail.example.com'') =
     Some (u ''mail.example.com'', ex_rule 2 ''mail.example.com.'', False)"
  using select_rule_most_specific [OF ex_matcher_init, of "u ''a.mail.example.com''"]
  by (simp add: select_rule_def ex_matcher_def u_def)

theorem match_address_canonical_fixpoint_witness:
  "map_option match_domain_id
     (match_address ex_unicode ex_matcher (u ''bob@a.mail.example.com'')) = Some 2"
  using match_address_canonical_fixpoint [OF ex_lower_lawful ex_match] by simp

theorem parse_mailbox_address_roundtrip_witness:
  "parse_mailbox_address ex_unicode True (u ''Bob+news@a.mail.example.com'') =
     Some (u ''Bob+news'', u ''a.mail.example.com'')"
  using parse_mailbox_address_roundtrip [OF ex_parse] by (simp add: u_def)

end
