(* ===== verification/Mail_Store.thy ===== *)
theory Mail_Store
  imports Mail_Matcher
begin

text \<open>
  The mail tables of \<^verbatim>\<open>src/sqlite_schema.sql\<close> as the code of
  \<^verbatim>\<open>src/app/services/domains.py\<close> and \<^verbatim>\<open>src/app/runtime.py\<close> reads and writes them: a
  table is a list of rows in insertion order, a statement is a function on the database, and
  the uniqueness and foreign-key constraints and the outbox triggers that a statement fires
  are part of it. A transaction is a function with a \<open>result\<close>: an error leaves the database
  as it was. Time stamps are ISO texts, compared as SQLite compares text.
\<close>

section \<open>Rows\<close>

record domain_row =
  dom_id :: int
  root_domain_ascii :: ustr
  root_domain_unicode :: "ustr option"
  dom_accept_exact :: bool
  dom_accept_subdomains :: bool
  public_web_enabled :: bool
  public_api_enabled :: bool
  dom_is_active :: bool
  dom_is_hidden :: bool
  dom_plus_addressing_mode :: string
  dom_case_sensitive :: bool
  max_message_size_bytes :: int
  retention_days :: "int option"
  dns_status :: string

record mailbox =
  mb_id :: int
  mb_domain_id :: int
  mb_local_part :: ustr
  mb_rcpt_domain :: ustr
  mb_address :: ustr
  mb_display :: ustr
  first_seen_at :: string
  last_seen_at :: string
  latest_message_at :: "string option"
  message_count :: int
  public_enabled :: bool
  mb_is_hidden :: bool
  mb_notes :: "string option"
  bulk_delete_generation :: int

datatype delivery_status = Active | Hidden | Deleted

record delivery =
  dl_id :: string
  dl_message_id :: string
  dl_mailbox_id :: int
  dl_rcpt_to :: ustr
  delivered_at :: string
  dl_status :: delivery_status
  deleted_at :: "string option"
  dl_expires_at :: "string option"
  dl_notes :: "string option"
  mailbox_generation :: int

datatype parse_status = Pending | Parsed | ParseFailed

record message =
  msg_id :: string
  msg_session_id :: "string option"
  raw_path :: string
  raw_sha256 :: string
  msg_raw_size :: int
  envelope_from :: "string option"
  msg_from_addr :: "string option"
  received_at :: string
  indexed_at :: "string option"
  parse_status :: parse_status
  parse_error :: "string option"
  text_body_path :: "string option"
  html_body_path :: "string option"

datatype live_kind = MailboxDelivery | MailboxDeliveryUpdated

record live_row =
  lv_kind :: live_kind
  lv_delivery_id :: string
  lv_created_at :: string

record mail_db =
  domains :: "domain_row list"
  mailboxes :: "mailbox list"
  messages :: "message list"
  deliveries :: "delivery list"
  live_events :: "live_row list"
  next_mailbox_id :: int

section \<open>Statements\<close>

definition domain_by_id :: "mail_db \<Rightarrow> int \<Rightarrow> domain_row option" where
  "domain_by_id db i = List.find (\<lambda>d. dom_id d = i) (domains db)"

definition mailbox_by_id :: "mail_db \<Rightarrow> int \<Rightarrow> mailbox option" where
  "mailbox_by_id db i = List.find (\<lambda>m. mb_id m = i) (mailboxes db)"

definition mailbox_by_address :: "mail_db \<Rightarrow> ustr \<Rightarrow> mailbox option" where
  "mailbox_by_address db a = List.find (\<lambda>m. mb_address m = a) (mailboxes db)"

definition update_mailboxes :: "int \<Rightarrow> (mailbox \<Rightarrow> mailbox) \<Rightarrow> mail_db \<Rightarrow> mail_db" where
  "update_mailboxes i f db =
     db\<lparr>mailboxes := map (\<lambda>m. if mb_id m = i then f m else m) (mailboxes db)\<rparr>"

definition integrity :: exn where
  "integrity = IntegrityError ''constraint failed''"

text \<open>
  \<open>INSERT INTO message_deliveries\<close> with its primary key, uniqueness and foreign keys, the trigger
  that fills a generation of -1 from the mailbox and the one that records an active delivery in
  the outbox.
\<close>

definition fill_mailbox_generation :: "mailbox \<Rightarrow> delivery \<Rightarrow> delivery" where
  "fill_mailbox_generation m d =
     (if mailbox_generation d = -1 then d\<lparr>mailbox_generation := bulk_delete_generation m\<rparr> else d)"

definition insert_delivery :: "delivery \<Rightarrow> mail_db \<Rightarrow> mail_db result" where
  "insert_delivery d db =
     (if list_ex (\<lambda>x. dl_id x = dl_id d) (deliveries db)
         \<or> list_ex (\<lambda>x. dl_message_id x = dl_message_id d \<and> dl_mailbox_id x = dl_mailbox_id d) (deliveries db)
         \<or> \<not> list_ex (\<lambda>m. msg_id m = dl_message_id d) (messages db)
      then Inl integrity
      else
        (case mailbox_by_id db (dl_mailbox_id d) of
           None \<Rightarrow> Inl integrity
         | Some m \<Rightarrow>
             Inr (db\<lparr>deliveries := deliveries db @ [fill_mailbox_generation m d],
                     live_events := live_events db @
                       (if dl_status d = Active
                        then [\<lparr>lv_kind = MailboxDelivery, lv_delivery_id = dl_id d,
                               lv_created_at = delivered_at d\<rparr>] else [])\<rparr>)))"

text \<open>\<open>DELETE FROM message_deliveries\<close> with the trigger that clears their outbox rows.\<close>

definition delete_deliveries :: "(delivery \<Rightarrow> bool) \<Rightarrow> mail_db \<Rightarrow> mail_db" where
  "delete_deliveries p db =
     db\<lparr>deliveries := filter (\<lambda>d. \<not> p d) (deliveries db),
        live_events := filter (\<lambda>e. \<not> list_ex (\<lambda>d. p d \<and> dl_id d = lv_delivery_id e) (deliveries db))
                         (live_events db)\<rparr>"

definition update_delivery :: "string \<Rightarrow> (delivery \<Rightarrow> delivery) \<Rightarrow> mail_db \<Rightarrow> mail_db" where
  "update_delivery i f db =
     db\<lparr>deliveries := map (\<lambda>d. if dl_id d = i then f d else d) (deliveries db)\<rparr>"

text \<open>\<open>DELETE FROM mailboxes\<close>; the foreign key of deliveries restricts it.\<close>

definition delete_mailbox :: "int \<Rightarrow> mail_db \<Rightarrow> mail_db result" where
  "delete_mailbox i db =
     (if list_ex (\<lambda>d. dl_mailbox_id d = i) (deliveries db) then Inl integrity
      else Inr (db\<lparr>mailboxes := filter (\<lambda>m. mb_id m \<noteq> i) (mailboxes db)\<rparr>))"

definition insert_mailbox_from_values ::
  "int \<Rightarrow> ustr \<Rightarrow> ustr \<Rightarrow> ustr \<Rightarrow> ustr \<Rightarrow> string \<Rightarrow> int \<Rightarrow> string option \<Rightarrow> mail_db \<Rightarrow> (int \<times> mail_db) result" where
  "insert_mailbox_from_values domain_id lp rcpt_domain addr display at n latest db =
     (if mailbox_by_address db addr \<noteq> None \<or> domain_by_id db domain_id = None then Inl integrity
      else
        let i = next_mailbox_id db in
        Inr (i, db\<lparr>mailboxes := mailboxes db @
               [\<lparr>mb_id = i, mb_domain_id = domain_id, mb_local_part = lp, mb_rcpt_domain = rcpt_domain,
                 mb_address = addr, mb_display = display, first_seen_at = at, last_seen_at = at,
                 latest_message_at = latest, message_count = n, public_enabled = True,
                 mb_is_hidden = False, mb_notes = None, bulk_delete_generation = 0\<rparr>],
               next_mailbox_id := i + 1\<rparr>))"

definition insert_mailbox ::
  "domain_match \<Rightarrow> string \<Rightarrow> int \<Rightarrow> string option \<Rightarrow> mail_db \<Rightarrow> (int \<times> mail_db) result" where
  "insert_mailbox match at n latest db =
     insert_mailbox_from_values (match_domain_id match) (match_local_part_canonical match)
       (match_domain_ascii match) (address_canonical match) (address_canonical match) at n latest db"

section \<open>Routing inside a transaction\<close>

definition rule_of :: "domain_row \<Rightarrow> domain_rule" where
  "rule_of d =
     \<lparr>rule_domain_id = dom_id d, rule_root_domain_ascii = root_domain_ascii d,
      accept_exact = dom_accept_exact d, accept_subdomains = dom_accept_subdomains d,
      plus_addressing_mode = dom_plus_addressing_mode d,
      local_part_case_sensitive = dom_case_sensitive d\<rparr>"

fun dot_suffixes :: "ustr \<Rightarrow> ustr list" where
  "dot_suffixes [] = []"
| "dot_suffixes (c # cs) = (if c = dot then cs # dot_suffixes cs else dot_suffixes cs)"

text \<open>\<open>ORDER BY id ASC\<close> of the active rows, all of them or those with a root in the list.\<close>

definition active_rules :: "mail_db \<Rightarrow> domain_rule list" where
  "active_rules db = map rule_of (sort_key dom_id (filter dom_is_active (domains db)))"

definition load_active_domain_matcher :: "unicode \<Rightarrow> mail_db \<Rightarrow> domain_matcher result" where
  "load_active_domain_matcher U db = domain_matcher_init U (active_rules db)"

definition match_active_domain :: "unicode \<Rightarrow> mail_db \<Rightarrow> ustr \<Rightarrow> domain_match option result" where
  "match_active_domain U db address =
     (case parse_mailbox_address U True address of
        None \<Rightarrow> Inr None
      | Some (lp, domain_ascii) \<Rightarrow>
          let candidate_roots = domain_ascii # dot_suffixes domain_ascii @ [star];
              rows = sort_key dom_id
                (filter (\<lambda>d. dom_is_active d \<and> root_domain_ascii d \<in> set candidate_roots) (domains db))
          in bindR (domain_matcher_init U (map rule_of rows)) (\<lambda>M. Inr (match_address U M address)))"

section \<open>Mailbox ownership\<close>

definition merged_delivery_status :: "delivery_status \<Rightarrow> delivery_status \<Rightarrow> delivery_status" where
  "merged_delivery_status a b =
     (if a = Active \<or> b = Active then Active
      else if a = Hidden \<or> b = Hidden then Hidden
      else Deleted)"

definition merged_expiration :: "string option \<Rightarrow> string option \<Rightarrow> string option" where
  "merged_expiration a b =
     (case (a, b) of (Some x, Some y) \<Rightarrow> Some (max x y) | _ \<Rightarrow> None)"

definition active_in :: "mail_db \<Rightarrow> int \<Rightarrow> delivery list" where
  "active_in db i = filter (\<lambda>d. dl_mailbox_id d = i \<and> dl_status d = Active) (deliveries db)"

text \<open>\<open>MAX(delivered_at)\<close> and \<open>MIN(delivered_at)\<close> of a set of rows, null when it is empty.\<close>

definition latest_of :: "delivery list \<Rightarrow> string option" where
  "latest_of ds = (if ds = [] then None else Some (Max (set (map delivered_at ds))))"

definition earliest_of :: "delivery list \<Rightarrow> string option" where
  "earliest_of ds = (if ds = [] then None else Some (Min (set (map delivered_at ds))))"

definition refresh_rehomed_mailbox_summary :: "int \<Rightarrow> string \<Rightarrow> string \<Rightarrow> mail_db \<Rightarrow> mail_db" where
  "refresh_rehomed_mailbox_summary i first_seen last_seen db =
     update_mailboxes i
       (\<lambda>m. m\<lparr>first_seen_at := min (first_seen_at m) first_seen,
              last_seen_at := max (last_seen_at m) last_seen,
              latest_message_at := latest_of (active_in db i),
              message_count := int (length (active_in db i))\<rparr>) db"

definition mailbox_needs_ownership_promotion :: "mailbox \<Rightarrow> ustr \<Rightarrow> domain_match \<Rightarrow> bool" where
  "mailbox_needs_ownership_promotion source source_root match =
     (if match_root_domain_ascii match = star then False
      else if mb_domain_id source = match_domain_id match then
        mb_local_part source \<noteq> match_local_part_canonical match
        \<or> mb_rcpt_domain source \<noteq> match_domain_ascii match
        \<or> mb_address source \<noteq> address_canonical match
      else if source_root = star then True
      else ends_with (match_root_domain_ascii match) (dot # source_root))"

record promotion =
  pr_mailbox_id :: int
  rehomed :: bool
  moved :: nat
  deduplicated :: nat

text \<open>\<open>mailboxes AS m JOIN domains AS d ON d.id = m.domain_id\<close>.\<close>

definition join_domain :: "mail_db \<Rightarrow> mailbox option \<Rightarrow> (mailbox \<times> ustr) option" where
  "join_domain db mo =
     (case mo of
        None \<Rightarrow> None
      | Some m \<Rightarrow> map_option (\<lambda>d. (m, root_domain_ascii d)) (domain_by_id db (mb_domain_id m)))"

definition merge_into_target :: "mailbox \<Rightarrow> ustr \<Rightarrow> mailbox \<Rightarrow> domain_match \<Rightarrow> mailbox \<Rightarrow> mailbox" where
  "merge_into_target target target_root source match m =
     (let m1 = m\<lparr>public_enabled := (public_enabled m \<and> public_enabled source),
                 mb_is_hidden := (mb_is_hidden m \<or> mb_is_hidden source),
                 mb_notes := (case mb_notes m of None \<Rightarrow> mb_notes source | Some n \<Rightarrow> Some n)\<rparr>
      in if mailbox_needs_ownership_promotion target target_root match
         then m1\<lparr>mb_domain_id := match_domain_id match,
                 mb_local_part := match_local_part_canonical match,
                 mb_rcpt_domain := match_domain_ascii match,
                 mb_display := address_canonical match\<rparr>
         else m1)"

text \<open>The pairs of deliveries of one message to the source and to the target mailbox.\<close>

definition duplicate_pairs :: "int \<Rightarrow> int \<Rightarrow> mail_db \<Rightarrow> (delivery \<times> delivery) list" where
  "duplicate_pairs source_id target_id db =
     concat (map (\<lambda>s. map (Pair s)
         (filter (\<lambda>t. dl_message_id t = dl_message_id s \<and> dl_mailbox_id t = target_id) (deliveries db)))
       (filter (\<lambda>s. dl_mailbox_id s = source_id)
         (sort_key dl_message_id (sort_key dl_id (deliveries db)))))"

definition merge_deleted_at :: "delivery \<Rightarrow> delivery \<Rightarrow> string option" where
  "merge_deleted_at target source =
     (let deleted_values = List.map_filter id [deleted_at target, deleted_at source]
      in if merged_delivery_status (dl_status target) (dl_status source) = Deleted \<and> deleted_values \<noteq> []
         then Some (Min (set deleted_values)) else None)"

definition merge_delivery :: "int \<Rightarrow> delivery \<Rightarrow> delivery \<Rightarrow> delivery \<Rightarrow> delivery" where
  "merge_delivery generation source target d =
     d\<lparr>delivered_at := min (delivered_at d) (delivered_at source),
       dl_status := merged_delivery_status (dl_status target) (dl_status source),
       deleted_at := merge_deleted_at target source,
       dl_expires_at := merged_expiration (dl_expires_at target) (dl_expires_at source),
       dl_notes := (case dl_notes d of None \<Rightarrow> dl_notes source | Some n \<Rightarrow> Some n),
       mailbox_generation := generation\<rparr>"

definition merge_duplicate :: "int \<Rightarrow> delivery \<times> delivery \<Rightarrow> mail_db \<Rightarrow> mail_db" where
  "merge_duplicate generation pair db =
     (case pair of (source, target) \<Rightarrow>
        delete_deliveries (\<lambda>d. dl_id d = dl_id source)
          (update_delivery (dl_id target) (merge_delivery generation source target) db))"

definition move_deliveries :: "int \<Rightarrow> int \<Rightarrow> int \<Rightarrow> mail_db \<Rightarrow> mail_db" where
  "move_deliveries source_id target_id generation db =
     db\<lparr>deliveries := map (\<lambda>d. if dl_mailbox_id d = source_id
          then d\<lparr>dl_mailbox_id := target_id, mailbox_generation := generation\<rparr> else d) (deliveries db)\<rparr>"

text \<open>An update that sets the domain of a mailbox checks its foreign key.\<close>

definition promote_in_place :: "mailbox \<Rightarrow> domain_match \<Rightarrow> mail_db \<Rightarrow> (promotion \<times> mail_db) result" where
  "promote_in_place source match db =
     (if domain_by_id db (match_domain_id match) = None then Inl integrity
      else
      let db1 = update_mailboxes (mb_id source)
            (\<lambda>m. m\<lparr>mb_domain_id := match_domain_id match,
                   mb_local_part := match_local_part_canonical match,
                   mb_rcpt_domain := match_domain_ascii match,
                   mb_address := address_canonical match,
                   mb_display := address_canonical match\<rparr>) db
      in Inr (\<lparr>pr_mailbox_id = mb_id source, rehomed = True, moved = 0, deduplicated = 0\<rparr>,
              refresh_rehomed_mailbox_summary (mb_id source) (first_seen_at source) (last_seen_at source) db1))"

definition promote_merge ::
  "mailbox \<Rightarrow> mailbox \<Rightarrow> ustr \<Rightarrow> domain_match \<Rightarrow> mail_db \<Rightarrow> (promotion \<times> mail_db) result" where
  "promote_merge source target target_root match db =
     (if mailbox_needs_ownership_promotion target target_root match
         \<and> domain_by_id db (match_domain_id match) = None then Inl integrity
      else
      let generation = bulk_delete_generation target;
          db1 = update_mailboxes (mb_id target) (merge_into_target target target_root source match) db;
          pairs = duplicate_pairs (mb_id source) (mb_id target) db1;
          db2 = fold (merge_duplicate generation) pairs db1;
          n = length (filter (\<lambda>d. dl_mailbox_id d = mb_id source) (deliveries db2));
          db3 = move_deliveries (mb_id source) (mb_id target) generation db2;
          db4 = refresh_rehomed_mailbox_summary (mb_id target)
                  (min (first_seen_at source) (first_seen_at target))
                  (max (last_seen_at source) (last_seen_at target)) db3
      in bindR (delete_mailbox (mb_id source) db4) (\<lambda>db5.
           Inr (\<lparr>pr_mailbox_id = mb_id target, rehomed = True, moved = n, deduplicated = length pairs\<rparr>, db5)))"

definition promote_mailbox_ownership :: "int \<Rightarrow> domain_match \<Rightarrow> mail_db \<Rightarrow> (promotion \<times> mail_db) result" where
  "promote_mailbox_ownership source_mailbox_id match db =
     (case join_domain db (mailbox_by_id db source_mailbox_id) of
        None \<Rightarrow> Inr (\<lparr>pr_mailbox_id = 0, rehomed = False, moved = 0, deduplicated = 0\<rparr>, db)
      | Some (source, source_root) \<Rightarrow>
          if \<not> mailbox_needs_ownership_promotion source source_root match
          then Inr (\<lparr>pr_mailbox_id = mb_id source, rehomed = False, moved = 0, deduplicated = 0\<rparr>, db)
          else
            (case join_domain db (mailbox_by_address db (address_canonical match)) of
               None \<Rightarrow> promote_in_place source match db
             | Some (target, target_root) \<Rightarrow>
                 if mb_id target = mb_id source then promote_in_place source match db
                 else promote_merge source target target_root match db))"

section \<open>Routing inside a transaction sees every rule that matters\<close>

text \<open>Roots are stored normalised: \<open>create_domain\<close> and the catch-all policy write no other.\<close>

definition stored_root :: "ustr \<Rightarrow> bool" where
  "stored_root r \<longleftrightarrow> r = star \<or> ldh_domain r"

lemma normalize_stored_root: "stored_root r \<Longrightarrow> normalize_domain U r = Inr r"
  by (auto simp: stored_root_def normalize_domain_star normalize_domain_ldh)

lemma rooted_stored:
  "\<forall>r \<in> set rules. stored_root (rule_root_domain_ascii r) \<Longrightarrow>
   rooted U rules = map (\<lambda>r. (rule_root_domain_ascii r, r)) rules"
  by (induction rules) (auto simp: normalize_stored_root)

lemma add_rules_stored:
  "\<forall>r \<in> set rules. stored_root (rule_root_domain_ascii r) \<Longrightarrow> \<exists>M'. add_rules U M rules = Inr M'"
  by (induction rules arbitrary: M) (auto simp: add_rule_def normalize_stored_root)

lemma suffix_walk_cong:
  "\<forall>x \<in> set (dot_suffixes d). m x = m' x \<Longrightarrow> suffix_walk m d = suffix_walk m' d"
  by (induction d) (auto split: option.splits)

lemma map_of_filter_key: "P k \<Longrightarrow> map_of (filter (\<lambda>(x, v). P x) xs) k = map_of xs k"
  by (induction xs) auto

lemma select_rule_candidates:
  assumes all: "\<forall>r \<in> set rules. stored_root (rule_root_domain_ascii r)"
    and sub: "some = filter (\<lambda>r. rule_root_domain_ascii r \<in> set (d # dot_suffixes d @ [star])) rules"
    and M: "domain_matcher_init U rules = Inr M" and N: "domain_matcher_init U some = Inr N"
  shows "select_rule N d = select_rule M d"
proof -
  let ?S = "set (d # dot_suffixes d @ [star])"
  have all': "\<forall>r \<in> set some. stored_root (rule_root_domain_ascii r)" using all sub by auto
  have eq: "rooted U some = filter (\<lambda>(x, r). x \<in> ?S) (rooted U rules)"
    using rooted_stored [OF all, of U] rooted_stored [OF all', of U]
    by (simp add: sub filter_map o_def)
  have look: "map_of (filter (\<lambda>(x, _). x \<noteq> star) (rooted U some)) k
      = map_of (filter (\<lambda>(x, _). x \<noteq> star) (rooted U rules)) k" if "k \<in> ?S" for k
  proof -
    have "filter (\<lambda>(x, _). x \<noteq> star) (rooted U some)
        = filter (\<lambda>(x, _). x \<in> ?S) (filter (\<lambda>(x, _). x \<noteq> star) (rooted U rules))"
      unfolding eq by (simp add: conj_commute case_prod_unfold)
    then show ?thesis
      using map_of_filter_key [of "\<lambda>x. x \<in> ?S" k "filter (\<lambda>(x, _). x \<noteq> star) (rooted U rules)", OF that]
      by (simp only:)
  qed
  have root: "rules_by_root N k = rules_by_root M k" if "k \<in> ?S" for k
    using look [OF that] domain_matcher_tables(1) [OF M] domain_matcher_tables(1) [OF N] by simp
  have catch: "catch_all_rule N = catch_all_rule M"
    using domain_matcher_tables(2) [OF M] domain_matcher_tables(2) [OF N] eq
      map_of_filter_key [of "\<lambda>x. x \<in> ?S" star "rooted U rules"] by simp
  have walk: "suffix_walk (rules_by_root N) d = suffix_walk (rules_by_root M) d"
    using root by (intro suffix_walk_cong) simp
  have "rules_by_root N d = rules_by_root M d" by (rule root) simp
  then show ?thesis unfolding select_rule_def walk catch by simp
qed

lemma active_rules_stored:
  assumes "\<forall>d \<in> set (domains db). dom_is_active d \<longrightarrow> stored_root (root_domain_ascii d)"
  shows "\<forall>r \<in> set (active_rules db). stored_root (rule_root_domain_ascii r)"
  using assms by (auto simp: active_rules_def rule_of_def)

lemma match_active_domain_full:
  assumes "\<forall>d \<in> set (domains db). dom_is_active d \<longrightarrow> stored_root (root_domain_ascii d)"
  obtains M where "load_active_domain_matcher U db = Inr M"
    and "match_active_domain U db a = Inr (match_address U M a)"
proof -
  note st = active_rules_stored [OF assms]
  obtain M where M: "domain_matcher_init U (active_rules db) = Inr M"
    using add_rules_stored [OF st] by (auto simp: domain_matcher_init_def)
  have "match_active_domain U db a = Inr (match_address U M a)"
  proof (cases "parse_mailbox_address U True a")
    case None
    then show ?thesis by (simp add: match_active_domain_def match_address_def)
  next
    case (Some p)
    obtain lp d where p: "p = (lp, d)" by (cases p)
    let ?S = "set (d # dot_suffixes d @ [star])"
    let ?some = "map rule_of (sort_key dom_id (filter (\<lambda>x. dom_is_active x \<and> root_domain_ascii x \<in> ?S) (domains db)))"
    have sub: "?some = filter (\<lambda>r. rule_root_domain_ascii r \<in> ?S) (active_rules db)"
      by (simp add: active_rules_def filter_map o_def filter_sort rule_of_def conj_commute)
    have "\<forall>r \<in> set ?some. stored_root (rule_root_domain_ascii r)" unfolding sub using st by simp
    then obtain N where N: "domain_matcher_init U ?some = Inr N"
      using add_rules_stored [of ?some U] by (auto simp: domain_matcher_init_def)
    have "select_rule N d = select_rule M d" by (rule select_rule_candidates [OF st sub M N])
    then have "match_address U N a = match_address U M a" by (simp add: match_address_def Some p)
    moreover have "match_active_domain U db a = Inr (match_address U N a)"
      using N Some p by (simp add: match_active_domain_def)
    ultimately show ?thesis by simp
  qed
  with M that show ?thesis by (simp add: load_active_domain_matcher_def)
qed

section \<open>The invariant of the mail tables\<close>

definition store_keys :: "mail_db \<Rightarrow> bool" where
  "store_keys db \<longleftrightarrow>
     distinct (map dom_id (domains db)) \<and> distinct (map mb_id (mailboxes db))
     \<and> distinct (map mb_address (mailboxes db)) \<and> distinct (map msg_id (messages db))
     \<and> distinct (map dl_id (deliveries db))
     \<and> distinct (map (\<lambda>d. (dl_message_id d, dl_mailbox_id d)) (deliveries db))
     \<and> (\<forall>m \<in> set (mailboxes db). mb_id m < next_mailbox_id db)"

definition store_refs :: "mail_db \<Rightarrow> bool" where
  "store_refs db \<longleftrightarrow>
     (\<forall>m \<in> set (mailboxes db). mb_domain_id m \<in> dom_id ` set (domains db))
     \<and> (\<forall>d \<in> set (deliveries db). dl_mailbox_id d \<in> mb_id ` set (mailboxes db)
          \<and> dl_message_id d \<in> msg_id ` set (messages db))
     \<and> (\<forall>e \<in> set (live_events db). lv_delivery_id e \<in> dl_id ` set (deliveries db))"

text \<open>Every mailbox row counts its active deliveries.\<close>

definition store_counts :: "mail_db \<Rightarrow> bool" where
  "store_counts db \<longleftrightarrow>
     (\<forall>m \<in> set (mailboxes db). message_count m = int (length (active_in db (mb_id m))))"

definition store_inv :: "mail_db \<Rightarrow> bool" where
  "store_inv db \<longleftrightarrow> store_keys db \<and> store_refs db \<and> store_counts db"

lemma find_key:
  "distinct (map k xs) \<Longrightarrow> List.find (\<lambda>x. k x = v) xs = Some y \<longleftrightarrow> y \<in> set xs \<and> k y = v"
  by (induction xs) (auto simp: image_iff)

lemma find_None: "List.find p xs = None \<longleftrightarrow> (\<forall>x \<in> set xs. \<not> p x)"
  by (induction xs) auto

lemma find_member: "List.find p xs = Some x \<Longrightarrow> x \<in> set xs \<and> p x"
  by (induction xs) (auto split: if_splits)

lemma domain_by_id_None: "domain_by_id db i = None \<longleftrightarrow> i \<notin> dom_id ` set (domains db)"
  by (auto simp: domain_by_id_def find_None)

lemma mailbox_by_id_Some:
  "store_keys db \<Longrightarrow> mailbox_by_id db i = Some m \<longleftrightarrow> m \<in> set (mailboxes db) \<and> mb_id m = i"
  by (simp add: mailbox_by_id_def store_keys_def find_key)

lemma mailbox_by_address_Some:
  "store_keys db \<Longrightarrow> mailbox_by_address db a = Some m \<longleftrightarrow> m \<in> set (mailboxes db) \<and> mb_address m = a"
  by (simp add: mailbox_by_address_def store_keys_def find_key)

lemma mailbox_by_address_None:
  "mailbox_by_address db a = None \<longleftrightarrow> a \<notin> mb_address ` set (mailboxes db)"
  by (auto simp: mailbox_by_address_def find_None)

lemma join_domain_Some:
  "store_inv db \<Longrightarrow> m \<in> set (mailboxes db) \<Longrightarrow> \<exists>r. join_domain db (Some m) = Some (m, r)"
  by (auto simp: join_domain_def store_inv_def store_refs_def domain_by_id_None not_None_eq [symmetric])

lemma same_id: "store_keys db \<Longrightarrow> m \<in> set (mailboxes db) \<Longrightarrow> n \<in> set (mailboxes db) \<Longrightarrow> mb_id m = mb_id n \<Longrightarrow> m = n"
  by (auto simp: store_keys_def distinct_map inj_on_def)

lemma active_in_update [simp]:
  "active_in (update_mailboxes j f db) i = active_in db i"
  by (simp add: active_in_def update_mailboxes_def)

lemma update_mailboxes_fields [simp]:
  "domains (update_mailboxes i f db) = domains db" "messages (update_mailboxes i f db) = messages db"
  "deliveries (update_mailboxes i f db) = deliveries db"
  "live_events (update_mailboxes i f db) = live_events db"
  "next_mailbox_id (update_mailboxes i f db) = next_mailbox_id db"
  by (simp_all add: update_mailboxes_def)

text \<open>An update of a row that keeps its id and address, moves it to an existing domain and counts right.\<close>

lemma update_mailbox_inv:
  assumes inv: "store_keys db" "store_refs db"
    and counts: "\<forall>m \<in> set (mailboxes db). mb_id m \<noteq> i \<longrightarrow> message_count m = int (length (active_in db (mb_id m)))"
    and f: "\<And>m. m \<in> set (mailboxes db) \<Longrightarrow> mb_id m = i \<Longrightarrow>
        mb_id (f m) = i \<and> mb_domain_id (f m) \<in> dom_id ` set (domains db)
        \<and> message_count (f m) = int (length (active_in db i))
        \<and> (mb_address (f m) = mb_address m \<or> mb_address (f m) \<notin> mb_address ` {n \<in> set (mailboxes db). mb_id n \<noteq> i})"
  shows "store_inv (update_mailboxes i f db)"
proof -
  let ?f = "\<lambda>m. if mb_id m = i then f m else m"
  have ids: "map mb_id (map ?f (mailboxes db)) = map mb_id (mailboxes db)"
    using f by (auto simp: o_def)
  have inj: "inj_on mb_id (set (mailboxes db))" "inj_on mb_address (set (mailboxes db))"
      "distinct (mailboxes db)"
    using inv(1) by (auto simp: store_keys_def distinct_map)
  have cross: "mb_address (f x) \<noteq> mb_address y"
    if "x \<in> set (mailboxes db)" "mb_id x = i" "y \<in> set (mailboxes db)" "mb_id y \<noteq> i" for x y
    using f [OF that(1,2)] that inj_onD [OF inj(2), of x y] by auto
  have "inj_on (mb_address \<circ> ?f) (set (mailboxes db))"
  proof (rule inj_onI)
    fix x y assume x: "x \<in> set (mailboxes db)" and y: "y \<in> set (mailboxes db)"
      and eq: "(mb_address \<circ> ?f) x = (mb_address \<circ> ?f) y"
    show "x = y"
    proof (cases "mb_id x = i"; cases "mb_id y = i")
      assume "mb_id x = i" "mb_id y = i"
      then show ?thesis using inj_onD [OF inj(1) _ x y] by simp
    next
      assume "mb_id x = i" "mb_id y \<noteq> i"
      then show ?thesis using cross [OF x _ y] eq by simp
    next
      assume "mb_id x \<noteq> i" "mb_id y = i"
      then show ?thesis using cross [OF y _ x] eq by simp
    next
      assume "mb_id x \<noteq> i" "mb_id y \<noteq> i"
      then show ?thesis using inj_onD [OF inj(2) _ x y] eq by simp
    qed
  qed
  then have addr: "distinct (map mb_address (map ?f (mailboxes db)))"
    using inj(3) by (simp add: distinct_map o_def)
  have mb: "mailboxes (update_mailboxes i f db) = map ?f (mailboxes db)" by (simp add: update_mailboxes_def)
  have "distinct (map mb_id (map ?f (mailboxes db)))" unfolding ids using inv(1) by (simp add: store_keys_def)
  moreover have "\<forall>m \<in> set (map ?f (mailboxes db)). mb_id m < next_mailbox_id db"
    using inv(1) f by (auto simp: store_keys_def)
  ultimately have keys: "store_keys (update_mailboxes i f db)"
    using inv(1) addr unfolding store_keys_def update_mailboxes_fields mb by blast
  have "mb_id ` set (map ?f (mailboxes db)) = mb_id ` set (mailboxes db)"
    using arg_cong [OF ids, of set] by (simp only: set_map)
  then have "store_refs (update_mailboxes i f db)"
    using inv(2) f unfolding store_refs_def update_mailboxes_fields mb by (auto split: if_splits)
  moreover have "store_counts (update_mailboxes i f db)"
    using counts f by (auto simp: store_counts_def update_mailboxes_def active_in_def)
  ultimately show ?thesis using keys by (simp add: store_inv_def)
qed


section \<open>Promotion of a mailbox\<close>

lemma update_update:
  "(\<And>m. mb_id (f m) = mb_id m) \<Longrightarrow>
   update_mailboxes i g (update_mailboxes i f db) = update_mailboxes i (\<lambda>m. g (f m)) db"
  by (simp add: update_mailboxes_def)

lemma promote_in_place_inv:
  assumes inv: "store_inv db" and src: "source \<in> set (mailboxes db)"
    and free: "\<forall>m \<in> set (mailboxes db). mb_address m = address_canonical match \<longrightarrow> mb_id m = mb_id source"
    and ok: "promote_in_place source match db = Inr (p, db')"
  shows "store_inv db'"
proof -
  let ?i = "mb_id source"
  define f :: "mailbox \<Rightarrow> mailbox" where "f = (\<lambda>m. m\<lparr>mb_domain_id := match_domain_id match,
      mb_local_part := match_local_part_canonical match, mb_rcpt_domain := match_domain_ascii match,
      mb_address := address_canonical match, mb_display := address_canonical match\<rparr>)"
  define g :: "mailbox \<Rightarrow> mailbox" where "g = (\<lambda>m. m\<lparr>first_seen_at := min (first_seen_at m) (first_seen_at source),
              last_seen_at := max (last_seen_at m) (last_seen_at source),
              latest_message_at := latest_of (active_in db ?i),
              message_count := int (length (active_in db ?i))\<rparr>)"
  have dom: "match_domain_id match \<in> dom_id ` set (domains db)"
    using ok by (auto simp: promote_in_place_def domain_by_id_None split: if_splits)
  have "db' = update_mailboxes ?i g (update_mailboxes ?i f db)"
    using ok by (auto simp: promote_in_place_def Let_def refresh_rehomed_mailbox_summary_def f_def g_def
        split: if_splits)
  then have "db' = update_mailboxes ?i (\<lambda>m. g (f m)) db"
    by (simp add: update_update f_def)
  moreover have "store_inv (update_mailboxes ?i (\<lambda>m. g (f m)) db)"
  proof (rule update_mailbox_inv)
    show "store_keys db" "store_refs db" using inv by (simp_all add: store_inv_def)
    show "\<forall>m \<in> set (mailboxes db). mb_id m \<noteq> ?i \<longrightarrow> message_count m = int (length (active_in db (mb_id m)))"
      using inv by (simp add: store_inv_def store_counts_def)
  qed (use dom free in \<open>auto simp: f_def g_def\<close>)
  ultimately show ?thesis by simp
qed

text \<open>The identifying columns of deliveries, which merging keeps.\<close>

definition skeleton :: "delivery \<Rightarrow> string \<times> string \<times> int" where
  "skeleton d = (dl_id d, dl_message_id d, dl_mailbox_id d)"

definition merged_row :: "int \<Rightarrow> (delivery \<times> delivery) list \<Rightarrow> delivery \<Rightarrow> delivery" where
  "merged_row g pairs d =
     (case List.find (\<lambda>(s, t). dl_id t = dl_id d) pairs of
        None \<Rightarrow> d
      | Some (s, t) \<Rightarrow> merge_delivery g s t d)"

lemma merge_delivery_fields [simp]:
  "dl_id (merge_delivery g s t d) = dl_id d" "dl_message_id (merge_delivery g s t d) = dl_message_id d"
  "dl_mailbox_id (merge_delivery g s t d) = dl_mailbox_id d"
  by (simp_all add: merge_delivery_def)

lemma merged_row_fields [simp]:
  "dl_id (merged_row g ps d) = dl_id d" "dl_message_id (merged_row g ps d) = dl_message_id d"
  "dl_mailbox_id (merged_row g ps d) = dl_mailbox_id d"
  by (auto simp: merged_row_def split: option.splits)

lemma filter_map_ids:
  "(\<And>d. dl_id (h d) = dl_id d) \<Longrightarrow>
   filter (\<lambda>d. dl_id d \<notin> A) (map h (filter Q ds)) = map h (filter (\<lambda>d. Q d \<and> dl_id d \<notin> A) ds)"
  by (induction ds) auto

lemma fold_merge_deliveries:
  assumes "distinct (map (\<lambda>(s, t). dl_id t) pairs)"
    and "\<forall>(s, t) \<in> set pairs. \<forall>(s', t') \<in> set pairs. dl_id s \<noteq> dl_id t'"
  shows "deliveries (fold (merge_duplicate g) pairs db) =
     map (merged_row g pairs)
       (filter (\<lambda>d. dl_id d \<notin> (\<lambda>(s, t). dl_id s) ` set pairs) (deliveries db))"
  using assms
proof (induction pairs arbitrary: db)
  case Nil
  then show ?case by (simp add: merged_row_def)
next
  case (Cons p pairs)
  obtain s t where p: "p = (s, t)" by (cases p)
  have 1: "deliveries (merge_duplicate g p db) =
      map (\<lambda>d. if dl_id d = dl_id t then merge_delivery g s t d else d)
        (filter (\<lambda>d. dl_id d \<noteq> dl_id s) (deliveries db))"
    by (auto simp: p merge_duplicate_def delete_deliveries_def update_delivery_def filter_map o_def
        intro!: map_cong filter_cong)
  have row: "merged_row g pairs (if dl_id d = dl_id t then merge_delivery g s t d else d)
      = merged_row g (p # pairs) d" for d
  proof (cases "dl_id d = dl_id t")
    case True
    have "List.find (\<lambda>(s, t). dl_id t = dl_id d) pairs = None"
      using Cons.prems(1) True by (auto simp: p find_None image_iff)
    then show ?thesis using True by (simp add: p merged_row_def)
  qed (simp add: p merged_row_def)
  have "deliveries (fold (merge_duplicate g) pairs (merge_duplicate g p db)) =
      map (merged_row g pairs) (filter (\<lambda>d. dl_id d \<notin> (\<lambda>(s, t). dl_id s) ` set pairs)
        (deliveries (merge_duplicate g p db)))"
    by (rule Cons.IH) (use Cons.prems in \<open>auto simp: p\<close>)
  also have "\<dots> = map (\<lambda>d. merged_row g pairs (if dl_id d = dl_id t then merge_delivery g s t d else d))
      (filter (\<lambda>d. dl_id d \<notin> (\<lambda>(s, t). dl_id s) ` set (p # pairs)) (deliveries db))"
    unfolding 1 by (subst filter_map_ids) (simp_all add: p)
  finally show ?case by (simp only: row fold_simps)
qed

lemma fold_merge_frame [simp]:
  "domains (fold (merge_duplicate g) ps db) = domains db"
  "mailboxes (fold (merge_duplicate g) ps db) = mailboxes db"
  "messages (fold (merge_duplicate g) ps db) = messages db"
  "next_mailbox_id (fold (merge_duplicate g) ps db) = next_mailbox_id db"
  by (induction ps arbitrary: db)
    (auto simp: merge_duplicate_def delete_deliveries_def update_delivery_def)

definition events_ok :: "mail_db \<Rightarrow> bool" where
  "events_ok db \<longleftrightarrow> (\<forall>e \<in> set (live_events db). lv_delivery_id e \<in> dl_id ` set (deliveries db))"

lemma delete_deliveries_events: "events_ok db \<Longrightarrow> events_ok (delete_deliveries p db)"
  by (auto simp: events_ok_def delete_deliveries_def list_ex_iff image_iff) metis

lemma update_delivery_events:
  assumes "events_ok db" and "\<And>d. dl_id (f d) = dl_id d"
  shows "events_ok (update_delivery i f db)"
proof -
  have "dl_id ` set (deliveries (update_delivery i f db)) = dl_id ` set (deliveries db)"
  proof -
    have "dl_id (if dl_id d = i then f d else d) = dl_id d" for d using assms(2) by simp
    then have "map dl_id (deliveries (update_delivery i f db)) = map dl_id (deliveries db)"
      by (simp add: update_delivery_def del: if_split_asm)
    then show ?thesis by (metis set_map)
  qed
  with assms(1) show ?thesis by (simp add: events_ok_def update_delivery_def)
qed

lemma fold_merge_events: "events_ok db \<Longrightarrow> events_ok (fold (merge_duplicate g) ps db)"
proof (induction ps arbitrary: db)
  case (Cons p ps)
  have "events_ok (merge_duplicate g p db)"
    by (cases p) (simp add: merge_duplicate_def Cons.prems delete_deliveries_events update_delivery_events)
  then show ?case using Cons.IH by simp
qed simp

lemma duplicate_pairs_iff:
  "(s, t) \<in> set (duplicate_pairs i j db) \<longleftrightarrow>
     s \<in> set (deliveries db) \<and> dl_mailbox_id s = i \<and> t \<in> set (deliveries db)
     \<and> dl_message_id t = dl_message_id s \<and> dl_mailbox_id t = j"
  by (auto simp: duplicate_pairs_def)


lemma distinct_concat_map:
  "distinct xs \<Longrightarrow> (\<And>x. x \<in> set xs \<Longrightarrow> distinct (F x)) \<Longrightarrow>
   (\<And>x y. x \<in> set xs \<Longrightarrow> y \<in> set xs \<Longrightarrow> x \<noteq> y \<Longrightarrow> set (F x) \<inter> set (F y) = {}) \<Longrightarrow>
   distinct (concat (map F xs))"
proof (induction xs)
  case (Cons x xs)
  have "set (F x) \<inter> set (F y) = {}" if "y \<in> set xs" for y using Cons.prems that by auto
  with Cons show ?case by auto
qed simp

lemma store_keys_inj:
  assumes "store_keys db"
  shows "d \<in> set (deliveries db) \<Longrightarrow> e \<in> set (deliveries db) \<Longrightarrow> dl_id d = dl_id e \<Longrightarrow> d = e"
    and "d \<in> set (deliveries db) \<Longrightarrow> e \<in> set (deliveries db) \<Longrightarrow> dl_message_id d = dl_message_id e \<Longrightarrow>
      dl_mailbox_id d = dl_mailbox_id e \<Longrightarrow> d = e"
    and "distinct (deliveries db)"
  using assms by (auto simp: store_keys_def distinct_map inj_on_def)

lemma duplicate_pairs_targets:
  assumes "store_keys db"
  shows "distinct (map (\<lambda>(s, t). dl_id t) (duplicate_pairs i j db))"
proof -
  note inj = store_keys_inj [OF assms]
  let ?xs = "filter (\<lambda>s. dl_mailbox_id s = i) (sort_key dl_message_id (sort_key dl_id (deliveries db)))"
  define F where "F = (\<lambda>s :: delivery. map dl_id
      (filter (\<lambda>t. dl_message_id t = dl_message_id s \<and> dl_mailbox_id t = j) (deliveries db)))"
  have "map (\<lambda>(s, t). dl_id t) (duplicate_pairs i j db) = concat (map F ?xs)"
    by (simp add: duplicate_pairs_def map_concat o_def F_def)
  moreover have "distinct (concat (map F ?xs))"
  proof (rule distinct_concat_map)
    show "distinct ?xs" using inj(3) by simp
    show "distinct (F s)" for s
      using assms by (auto simp: F_def store_keys_def distinct_map intro: inj_on_subset)
    fix s s' assume "s \<in> set ?xs" "s' \<in> set ?xs" "s \<noteq> s'"
    then have s: "s \<in> set (deliveries db)" "s' \<in> set (deliveries db)" "dl_mailbox_id s = dl_mailbox_id s'" by auto
    show "set (F s) \<inter> set (F s') = {}"
    proof (rule ccontr)
      assume "\<not> ?thesis"
      then obtain t t' where t: "t \<in> set (deliveries db)" "t' \<in> set (deliveries db)" "dl_id t = dl_id t'"
          "dl_message_id t = dl_message_id s" "dl_message_id t' = dl_message_id s'"
        unfolding F_def by auto
      then have "dl_message_id s = dl_message_id s'" using inj(1) [of t t'] by simp
      then have "s = s'" using s by (intro inj(2))
      with \<open>s \<noteq> s'\<close> show False ..
    qed
  qed
  ultimately show ?thesis by simp
qed


text \<open>What merging does to the table of deliveries: duplicates of the source go, the rest moves.\<close>

definition kept_row :: "int \<Rightarrow> int \<Rightarrow> mail_db \<Rightarrow> delivery \<Rightarrow> bool" where
  "kept_row S T db d \<longleftrightarrow>
     dl_mailbox_id d = S \<longrightarrow>
     (\<forall>t \<in> set (deliveries db). dl_message_id t = dl_message_id d \<longrightarrow> dl_mailbox_id t \<noteq> T)"

definition moved_row :: "int \<Rightarrow> int \<Rightarrow> int \<Rightarrow> delivery \<Rightarrow> delivery" where
  "moved_row S T g d = (if dl_mailbox_id d = S then d\<lparr>dl_mailbox_id := T, mailbox_generation := g\<rparr> else d)"

definition merged_deliveries :: "int \<Rightarrow> int \<Rightarrow> int \<Rightarrow> mail_db \<Rightarrow> delivery list" where
  "merged_deliveries S T g db =
     map (\<lambda>d. moved_row S T g (merged_row g (duplicate_pairs S T db) d))
       (filter (kept_row S T db) (deliveries db))"

lemma moved_row_fields [simp]:
  "dl_id (moved_row S T g d) = dl_id d" "dl_message_id (moved_row S T g d) = dl_message_id d"
  "dl_mailbox_id (moved_row S T g d) = (if dl_mailbox_id d = S then T else dl_mailbox_id d)"
  "dl_status (moved_row S T g d) = dl_status d"
  by (simp_all add: moved_row_def)

lemma merged_row_other:
  assumes "store_keys db" and "d \<in> set (deliveries db)" and "dl_mailbox_id d \<noteq> T"
  shows "merged_row g (duplicate_pairs S T db) d = d"
proof -
  have "dl_id t \<noteq> dl_id d" if "(s, t) \<in> set (duplicate_pairs S T db)" for s t
    using that assms(2,3) store_keys_inj(1) [OF assms(1), of t d] by (auto simp: duplicate_pairs_iff)
  then have "List.find (\<lambda>(s, t). dl_id t = dl_id d) (duplicate_pairs S T db) = None"
    by (auto simp: find_None)
  then show ?thesis by (simp add: merged_row_def)
qed

lemma merge_then_move:
  assumes keys: "store_keys db" and ne: "S \<noteq> T"
    and same: "deliveries db1 = deliveries db"
  shows "deliveries (move_deliveries S T g (fold (merge_duplicate g) (duplicate_pairs S T db) db1))
    = merged_deliveries S T g db"
proof -
  let ?ps = "duplicate_pairs S T db"
  note inj = store_keys_inj [OF keys]
  have "dl_id s \<noteq> dl_id t'" if "(s, t) \<in> set ?ps" "(s', t') \<in> set ?ps" for s t s' t'
    using that ne inj(1) [of s t'] by (auto simp: duplicate_pairs_iff)
  then have disj: "\<forall>(s, t) \<in> set ?ps. \<forall>(s', t') \<in> set ?ps. dl_id s \<noteq> dl_id t'" by blast
  have src: "dl_id d \<in> (\<lambda>(s, t). dl_id s) ` set ?ps \<longleftrightarrow> \<not> kept_row S T db d"
    if mem: "d \<in> set (deliveries db)" for d
  proof
    assume "dl_id d \<in> (\<lambda>(s, t). dl_id s) ` set ?ps"
    then obtain s t where st: "(s, t) \<in> set ?ps" "dl_id s = dl_id d" by auto
    then have "s = d" using mem inj(1) [of s d] by (auto simp: duplicate_pairs_iff)
    with st show "\<not> kept_row S T db d" by (auto simp: duplicate_pairs_iff kept_row_def)
  next
    assume "\<not> kept_row S T db d"
    then obtain t where "(d, t) \<in> set ?ps" unfolding kept_row_def duplicate_pairs_iff using mem by blast
    then show "dl_id d \<in> (\<lambda>(s, t). dl_id s) ` set ?ps" by force
  qed
  have "filter (\<lambda>d. dl_id d \<notin> (\<lambda>(s, t). dl_id s) ` set ?ps) (deliveries db) = filter (kept_row S T db) (deliveries db)"
    using src by (intro filter_cong) auto
  then show ?thesis
    using fold_merge_deliveries [OF duplicate_pairs_targets [OF keys] disj, of g db1] same
    by (simp add: move_deliveries_def merged_deliveries_def moved_row_def)
qed

lemma merged_keys:
  assumes keys: "store_keys db" and ne: "S \<noteq> T"
  shows "distinct (map dl_id (merged_deliveries S T g db))"
    and "distinct (map (\<lambda>d. (dl_message_id d, dl_mailbox_id d)) (merged_deliveries S T g db))"
proof -
  note inj = store_keys_inj [OF keys]
  have "map dl_id (merged_deliveries S T g db) = map dl_id (filter (kept_row S T db) (deliveries db))"
    by (simp add: merged_deliveries_def)
  then show "distinct (map dl_id (merged_deliveries S T g db))"
    using keys by (auto simp: store_keys_def distinct_map intro: inj_on_subset)
  let ?k = "\<lambda>d. (dl_message_id d, if dl_mailbox_id d = S then T else dl_mailbox_id d)"
  have "inj_on ?k (set (filter (kept_row S T db) (deliveries db)))"
  proof (rule inj_onI)
    fix d e assume "d \<in> set (filter (kept_row S T db) (deliveries db))"
      "e \<in> set (filter (kept_row S T db) (deliveries db))" "?k d = ?k e"
    then have de: "d \<in> set (deliveries db)" "e \<in> set (deliveries db)" "kept_row S T db d" "kept_row S T db e"
      "dl_message_id d = dl_message_id e"
      "(if dl_mailbox_id d = S then T else dl_mailbox_id d) = (if dl_mailbox_id e = S then T else dl_mailbox_id e)"
      by auto
    have "dl_mailbox_id d = dl_mailbox_id e"
      using de by (auto simp: kept_row_def split: if_splits)
    with de inj(2) show "d = e" by blast
  qed
  moreover have "map (\<lambda>d. (dl_message_id d, dl_mailbox_id d)) (merged_deliveries S T g db)
      = map ?k (filter (kept_row S T db) (deliveries db))"
    by (simp add: merged_deliveries_def)
  ultimately show "distinct (map (\<lambda>d. (dl_message_id d, dl_mailbox_id d)) (merged_deliveries S T g db))"
    using inj(3) by (simp add: distinct_map)
qed

lemma merged_active_other:
  assumes "store_keys db" and "i \<noteq> S" and "i \<noteq> T"
  shows "filter (\<lambda>d. dl_mailbox_id d = i \<and> dl_status d = Active) (merged_deliveries S T g db)
    = filter (\<lambda>d. dl_mailbox_id d = i \<and> dl_status d = Active) (deliveries db)"
proof -
  let ?h = "\<lambda>d. moved_row S T g (merged_row g (duplicate_pairs S T db) d)"
  have P: "(dl_mailbox_id (?h d) = i \<and> dl_status (?h d) = Active) \<and> kept_row S T db d
        \<longleftrightarrow> dl_mailbox_id d = i \<and> dl_status d = Active" if "d \<in> set (deliveries db)" for d
    using that assms merged_row_other [OF assms(1) that] by (auto simp: kept_row_def)
  have "filter (\<lambda>d. dl_mailbox_id d = i \<and> dl_status d = Active) (merged_deliveries S T g db)
      = map ?h (filter (\<lambda>d. (dl_mailbox_id (?h d) = i \<and> dl_status (?h d) = Active) \<and> kept_row S T db d) (deliveries db))"
    by (simp add: merged_deliveries_def filter_map o_def conj_commute conj_left_commute)
  also have "\<dots> = map ?h (filter (\<lambda>d. dl_mailbox_id d = i \<and> dl_status d = Active) (deliveries db))"
    using P by (intro arg_cong [where f = "map ?h"] filter_cong) auto
  also have "\<dots> = filter (\<lambda>d. dl_mailbox_id d = i \<and> dl_status d = Active) (deliveries db)"
    using assms merged_row_other [OF assms(1)]
    by (intro map_idI) (auto simp: moved_row_def)
  finally show ?thesis .
qed


lemma merged_set:
  "d' \<in> set (merged_deliveries S T g db) \<longleftrightarrow>
     (\<exists>d \<in> set (deliveries db). kept_row S T db d
        \<and> d' = moved_row S T g (merged_row g (duplicate_pairs S T db) d))"
  by (auto simp: merged_deliveries_def)

lemma filter_map_mailboxes:
  "(\<And>m. mb_id (k m) = mb_id m) \<Longrightarrow>
   filter (\<lambda>m. mb_id m \<noteq> S) (map (\<lambda>m. if mb_id m = T then k m else m) ms)
     = map (\<lambda>m. if mb_id m = T then k m else m) (filter (\<lambda>m. mb_id m \<noteq> S) ms)"
  by (induction ms) auto

lemma merged_refs:
  assumes refs: "store_refs db" and tgt: "target \<in> set (mailboxes db)" and ne: "mb_id target \<noteq> src"
    and d: "d \<in> set (merged_deliveries src (mb_id target) g db)"
  shows "dl_mailbox_id d \<in> mb_id ` {m \<in> set (mailboxes db). mb_id m \<noteq> src}
    \<and> dl_message_id d \<in> msg_id ` set (messages db)"
proof -
  obtain x where x: "x \<in> set (deliveries db)"
      "d = moved_row src (mb_id target) g (merged_row g (duplicate_pairs src (mb_id target) db) x)"
    using d by (auto simp: merged_set)
  obtain b where b: "b \<in> set (mailboxes db)" "mb_id b = dl_mailbox_id x"
    and g: "dl_message_id x \<in> msg_id ` set (messages db)"
    using refs x(1) unfolding store_refs_def by fastforce
  have "dl_mailbox_id d = mb_id (if mb_id b = src then target else b)" using x(2) b(2) by simp
  then have "dl_mailbox_id d \<in> mb_id ` {m \<in> set (mailboxes db). mb_id m \<noteq> src}"
    using b(1) tgt ne by (auto split: if_splits)
  moreover have "dl_message_id d = dl_message_id x" using x(2) by simp
  ultimately show ?thesis using g by simp
qed

text \<open>The tables after the source is gone, before the row of the target is brought up to date.\<close>

definition merge_base :: "int \<Rightarrow> int \<Rightarrow> int \<Rightarrow> live_row list \<Rightarrow> mail_db \<Rightarrow> mail_db" where
  "merge_base src tgt g evs db =
     db\<lparr>deliveries := merged_deliveries src tgt g db, live_events := evs,
        mailboxes := filter (\<lambda>m. mb_id m \<noteq> src) (mailboxes db)\<rparr>"

lemma merge_base_fields [simp]:
  "deliveries (merge_base src tgt g evs db) = merged_deliveries src tgt g db"
  "live_events (merge_base src tgt g evs db) = evs" "domains (merge_base src tgt g evs db) = domains db"
  "messages (merge_base src tgt g evs db) = messages db"
  "next_mailbox_id (merge_base src tgt g evs db) = next_mailbox_id db"
  "mailboxes (merge_base src tgt g evs db) = filter (\<lambda>m. mb_id m \<noteq> src) (mailboxes db)"
  by (simp_all add: merge_base_def)

lemma merge_into_target_keys [simp]:
  "mb_id (merge_into_target target root source match m) = mb_id m"
  "mb_address (merge_into_target target root source match m) = mb_address m"
  by (simp_all add: merge_into_target_def Let_def)

lemma merged_no_source: "tgt \<noteq> src \<Longrightarrow> d \<in> set (merged_deliveries src tgt g db) \<Longrightarrow> dl_mailbox_id d \<noteq> src"
  by (auto simp: merged_set split: if_splits)

lemma promote_merge_form:
  assumes keys: "store_keys db" and refs: "store_refs db" and ne: "mb_id target \<noteq> mb_id source"
    and ok: "promote_merge source target root match db = Inr (p, db')"
  defines "B evs \<equiv> merge_base (mb_id source) (mb_id target) (bulk_delete_generation target) evs db"
  obtains h evs where "db' = update_mailboxes (mb_id target) (\<lambda>m. h (merge_into_target target root source match m)) (B evs)"
    and "\<And>m. mb_id (h m) = mb_id m \<and> mb_address (h m) = mb_address m \<and> mb_domain_id (h m) = mb_domain_id m
           \<and> message_count (h m) = int (length (active_in (B evs) (mb_id target)))"
    and "\<forall>e \<in> set evs. lv_delivery_id e \<in> dl_id ` set (deliveries (B evs))" and "pr_mailbox_id p = mb_id target"
proof -
  let ?S = "mb_id source" and ?T = "mb_id target" and ?g = "bulk_delete_generation target"
  define f where "f = merge_into_target target root source match"
  define db1 where "db1 = update_mailboxes ?T f db"
  define db2 where "db2 = fold (merge_duplicate ?g) (duplicate_pairs ?S ?T db) db1"
  define db3 where "db3 = move_deliveries ?S ?T ?g db2"
  define h where "h = (\<lambda>m :: mailbox. m\<lparr>first_seen_at := min (first_seen_at m) (min (first_seen_at source) (first_seen_at target)),
              last_seen_at := max (last_seen_at m) (max (last_seen_at source) (last_seen_at target)),
              latest_message_at := latest_of (active_in db3 ?T),
              message_count := int (length (active_in db3 ?T))\<rparr>)"
  have fid: "mb_id (f m) = mb_id m" for m by (simp add: f_def)
  have pairs: "duplicate_pairs ?S ?T db1 = duplicate_pairs ?S ?T db"
    by (simp add: duplicate_pairs_def db1_def)
  have dl: "deliveries db3 = merged_deliveries ?S ?T ?g db"
    unfolding db3_def db2_def by (rule merge_then_move) (use keys ne in \<open>auto simp: db1_def\<close>)
  have fr: "domains db3 = domains db" "messages db3 = messages db" "next_mailbox_id db3 = next_mailbox_id db"
      "live_events db3 = live_events db2" "mailboxes db3 = mailboxes db1"
    by (simp_all add: db3_def move_deliveries_def db2_def db1_def)
  have "delete_mailbox ?S (update_mailboxes ?T h db3)
      = Inr ((update_mailboxes ?T h db3)\<lparr>mailboxes := filter (\<lambda>m. mb_id m \<noteq> ?S) (mailboxes (update_mailboxes ?T h db3))\<rparr>)"
    using merged_no_source [OF ne] by (auto simp: delete_mailbox_def dl list_ex_iff)
  then have p: "pr_mailbox_id p = ?T" and
    d: "db' = (update_mailboxes ?T h db3)\<lparr>mailboxes := filter (\<lambda>m. mb_id m \<noteq> ?S) (mailboxes (update_mailboxes ?T h db3))\<rparr>"
    using ok pairs
    by (auto simp: promote_merge_def Let_def refresh_rehomed_mailbox_summary_def f_def [symmetric]
        db1_def [symmetric] db2_def [symmetric] db3_def [symmetric] h_def [symmetric] split: if_splits)
  have "mailboxes (update_mailboxes ?T h db3) = map (\<lambda>m. if mb_id m = ?T then h (f m) else m) (mailboxes db)"
    using fid by (auto simp: update_mailboxes_def fr db1_def)
  moreover have "mb_id (h (f m)) = mb_id m" for m using fid by (simp add: h_def)
  ultimately have "db' = (update_mailboxes ?T h db3)
      \<lparr>mailboxes := map (\<lambda>m. if mb_id m = ?T then h (f m) else m) (filter (\<lambda>m. mb_id m \<noteq> ?S) (mailboxes db))\<rparr>"
    using ne d by (simp add: filter_map_mailboxes)
  then have 1: "db' = update_mailboxes ?T (\<lambda>m. h (f m)) (B (live_events db2))"
    by (auto simp: update_mailboxes_def B_def fr dl intro!: mail_db.equality)
  have 2: "mb_id (h m) = mb_id m \<and> mb_address (h m) = mb_address m \<and> mb_domain_id (h m) = mb_domain_id m
      \<and> message_count (h m) = int (length (active_in (B (live_events db2)) ?T))" for m
    by (simp add: h_def active_in_def B_def dl)
  have "events_ok db2" unfolding db2_def
    by (rule fold_merge_events) (use refs in \<open>simp add: events_ok_def db1_def store_refs_def\<close>)
  moreover have "map dl_id (deliveries db3) = map dl_id (deliveries db2)" by (simp add: db3_def move_deliveries_def)
  then have "dl_id ` set (deliveries db2) = dl_id ` set (deliveries db3)" by (metis set_map)
  ultimately have 3: "\<forall>e \<in> set (live_events db2). lv_delivery_id e \<in> dl_id ` set (deliveries (B (live_events db2)))"
    by (simp add: events_ok_def dl B_def)
  show thesis using that [OF 1 [unfolded f_def] 2 3 p] .
qed

lemma merge_base_inv:
  assumes inv: "store_inv db" and tgt: "target \<in> set (mailboxes db)" and ne: "mb_id target \<noteq> src"
    and evs: "\<forall>e \<in> set evs. lv_delivery_id e \<in> dl_id ` set (merged_deliveries src (mb_id target) g db)"
  defines "B \<equiv> merge_base src (mb_id target) g evs db"
  shows "store_keys B" and "store_refs B"
    and "\<forall>m \<in> set (mailboxes B). mb_id m \<noteq> mb_id target \<longrightarrow> message_count m = int (length (active_in B (mb_id m)))"
proof -
  have keys: "store_keys db" and refs: "store_refs db" and counts: "store_counts db"
    using inv by (auto simp: store_inv_def)
  show "store_keys B"
    using keys merged_keys [OF keys, of src "mb_id target" g] ne
    by (auto simp: store_keys_def B_def distinct_map intro: inj_on_subset)
  show "store_refs B"
    using evs refs merged_refs [OF refs tgt ne, of _ g] unfolding store_refs_def B_def by simp
  show "\<forall>m \<in> set (mailboxes B). mb_id m \<noteq> mb_id target \<longrightarrow> message_count m = int (length (active_in B (mb_id m)))"
    using counts merged_active_other [OF keys, of _ src "mb_id target" g]
    by (auto simp: B_def store_counts_def active_in_def)
qed

lemma merge_into_target_domain:
  assumes "store_refs db" and "target \<in> set (mailboxes db)" and "promote_merge source target root match db = Inr r"
  shows "mb_domain_id (merge_into_target target root source match target) \<in> dom_id ` set (domains db)"
  using assms
  by (auto simp: merge_into_target_def Let_def promote_merge_def domain_by_id_None store_refs_def split: if_splits)

lemma promote_merge_result:
  assumes inv: "store_inv db" and src: "source \<in> set (mailboxes db)" and tgt: "target \<in> set (mailboxes db)"
    and ne: "mb_id target \<noteq> mb_id source"
    and ok: "promote_merge source target root match db = Inr (p, db')"
  shows "store_inv db'" and "pr_mailbox_id p = mb_id target"
    and "deliveries db' = merged_deliveries (mb_id source) (mb_id target) (bulk_delete_generation target) db"
    and "messages db' = messages db" and "domains db' = domains db" and "next_mailbox_id db' = next_mailbox_id db"
    and "mb_id ` set (mailboxes db') = mb_id ` set (mailboxes db) - {mb_id source}"
    and "m \<in> set (mailboxes db') \<Longrightarrow> mb_id m \<noteq> mb_id target \<Longrightarrow> m \<in> set (mailboxes db)"
    and "m \<in> set (mailboxes db') \<Longrightarrow> mb_id m = mb_id target \<Longrightarrow>
          mb_domain_id m = mb_domain_id (merge_into_target target root source match target)
          \<and> mb_address m = mb_address target"
proof -
  let ?S = "mb_id source" and ?T = "mb_id target" and ?g = "bulk_delete_generation target"
  have keys: "store_keys db" and refs: "store_refs db" using inv by (auto simp: store_inv_def)
  define f where "f = merge_into_target target root source match"
  have fid: "mb_id (f m) = mb_id m" "mb_address (f m) = mb_address m" for m by (simp_all add: f_def)
  obtain h evs where db': "db' = update_mailboxes ?T (\<lambda>m. h (f m)) (merge_base ?S ?T ?g evs db)"
    and h: "\<And>m. mb_id (h m) = mb_id m \<and> mb_address (h m) = mb_address m \<and> mb_domain_id (h m) = mb_domain_id m
           \<and> message_count (h m) = int (length (active_in (merge_base ?S ?T ?g evs db) ?T))"
    and evs: "\<forall>e \<in> set evs. lv_delivery_id e \<in> dl_id ` set (deliveries (merge_base ?S ?T ?g evs db))"
    and p: "pr_mailbox_id p = ?T"
    unfolding f_def by (rule promote_merge_form [OF keys refs ne ok]) blast
  define B where "B = merge_base ?S ?T ?g evs db"
  note base = merge_base_inv [OF inv tgt ne, of evs ?g, folded B_def]
  have evs': "\<forall>e \<in> set evs. lv_delivery_id e \<in> dl_id ` set (merged_deliveries ?S ?T ?g db)" using evs by simp
  have only: "m = target" if "m \<in> set (mailboxes B)" "mb_id m = ?T" for m
    using that tgt same_id [OF keys] by (auto simp: B_def)
  have rows: "mailboxes db' = map (\<lambda>m. if mb_id m = ?T then h (f m) else m) (mailboxes B)"
    by (simp add: db' update_mailboxes_def B_def)
  show "store_inv db'" unfolding db' B_def [symmetric]
  proof (rule update_mailbox_inv [OF base(1) base(2) base(3)])
    fix m assume m: "m \<in> set (mailboxes B)" "mb_id m = ?T"
    show "mb_id (h (f m)) = ?T \<and> mb_domain_id (h (f m)) \<in> dom_id ` set (domains B)
        \<and> message_count (h (f m)) = int (length (active_in B ?T))
        \<and> (mb_address (h (f m)) = mb_address m \<or>
           mb_address (h (f m)) \<notin> mb_address ` {n \<in> set (mailboxes B). mb_id n \<noteq> ?T})"
      using h [of "f m"] fid [of m] m only [OF m] merge_into_target_domain [OF refs tgt ok, folded f_def]
      by (simp add: B_def)
  qed (rule evs')+
  show "pr_mailbox_id p = ?T" "deliveries db' = merged_deliveries ?S ?T ?g db" "messages db' = messages db"
    "domains db' = domains db" "next_mailbox_id db' = next_mailbox_id db"
    by (simp_all add: p db')
  have "map mb_id (mailboxes db') = map mb_id (mailboxes B)" unfolding rows using h fid by simp
  then have "mb_id ` set (mailboxes db') = mb_id ` set (mailboxes B)" by (metis set_map)
  then show "mb_id ` set (mailboxes db') = mb_id ` set (mailboxes db) - {?S}" by (auto simp: B_def)
  show "m \<in> set (mailboxes db)" if "m \<in> set (mailboxes db')" "mb_id m \<noteq> ?T"
    using that h fid unfolding rows by (auto simp: B_def)
  show "mb_domain_id m = mb_domain_id (merge_into_target target root source match target) \<and> mb_address m = mb_address target"
    if m: "m \<in> set (mailboxes db')" "mb_id m = ?T"
  proof -
    obtain x where "x \<in> set (mailboxes B)" "mb_id x = ?T" "m = h (f x)"
      using m unfolding rows by (auto split: if_splits)
    then show ?thesis using only [of x] h [of "f x"] fid [of x] by (simp add: f_def)
  qed
qed


lemma promote_cases:
  assumes inv: "store_inv db" and src: "source \<in> set (mailboxes db)"
    and ok: "promote_mailbox_ownership (mb_id source) match db = Inr (p, db')"
  obtains (unchanged) root where "join_domain db (Some source) = Some (source, root)"
      "\<not> mailbox_needs_ownership_promotion source root match" "db' = db" "pr_mailbox_id p = mb_id source" "\<not> rehomed p"
  | (in_place) root where "join_domain db (Some source) = Some (source, root)"
      "mailbox_needs_ownership_promotion source root match"
      "\<forall>m \<in> set (mailboxes db). mb_address m = address_canonical match \<longrightarrow> mb_id m = mb_id source"
      "promote_in_place source match db = Inr (p, db')" "rehomed p"
  | (merge) root target target_root where "join_domain db (Some source) = Some (source, root)"
      "mailbox_needs_ownership_promotion source root match"
      "target \<in> set (mailboxes db)" "mb_address target = address_canonical match" "mb_id target \<noteq> mb_id source"
      "join_domain db (Some target) = Some (target, target_root)"
      "promote_merge source target target_root match db = Inr (p, db')" "rehomed p"
proof -
  have keys: "store_keys db" using inv by (simp add: store_inv_def)
  obtain root where join: "join_domain db (Some source) = Some (source, root)" using join_domain_Some [OF inv src] by blast
  have byid: "mailbox_by_id db (mb_id source) = Some source" using src keys by (simp add: mailbox_by_id_Some)
  show thesis
  proof (cases "mailbox_needs_ownership_promotion source root match")
    case False
    then show thesis using ok join byid by (intro unchanged) (auto simp: promote_mailbox_ownership_def)
  next
    case need: True
    show thesis
    proof (cases "mailbox_by_address db (address_canonical match)")
      case None
      have "join_domain db None = None" by (simp add: join_domain_def)
      then have "promote_in_place source match db = Inr (p, db')"
        using ok join byid need None by (simp add: promote_mailbox_ownership_def)
      moreover from this have "rehomed p" by (auto simp: promote_in_place_def Let_def split: if_splits)
      moreover have "\<forall>m \<in> set (mailboxes db). mb_address m = address_canonical match \<longrightarrow> mb_id m = mb_id source"
        using None unfolding mailbox_by_address_None by (metis imageI)
      ultimately show thesis using in_place join need by blast
    next
      case (Some target)
      then have tgt: "target \<in> set (mailboxes db)" "mb_address target = address_canonical match"
        using keys by (auto simp: mailbox_by_address_Some)
      obtain troot where tj: "join_domain db (Some target) = Some (target, troot)" using join_domain_Some [OF inv tgt(1)] by blast
      show thesis
      proof (cases "mb_id target = mb_id source")
        case True
        then have "promote_in_place source match db = Inr (p, db')"
          using ok join byid need Some tj by (simp add: promote_mailbox_ownership_def)
        moreover from this have "rehomed p" by (auto simp: promote_in_place_def Let_def split: if_splits)
        moreover have "m = target" if "m \<in> set (mailboxes db)" "mb_address m = address_canonical match" for m
          using that tgt keys mailbox_by_address_Some [OF keys] Some by (metis option.inject)
        ultimately show thesis using in_place join need True by blast
      next
        case False
        then have "promote_merge source target troot match db = Inr (p, db')"
          using ok join byid need Some tj by (simp add: promote_mailbox_ownership_def)
        moreover from this have "rehomed p"
          by (auto simp: promote_merge_def Let_def bindR_Inr_iff split: if_splits)
        ultimately show thesis using merge join need tgt tj False by blast
      qed
    qed
  qed
qed

text \<open>A message delivered to the source or the target is delivered to the target after the merge.\<close>

lemma merged_message:
  assumes keys: "store_keys db" and ne: "tgt \<noteq> src" and d: "d \<in> set (deliveries db)"
    and at: "dl_mailbox_id d = src \<or> dl_mailbox_id d = tgt"
  shows "\<exists>d' \<in> set (merged_deliveries src tgt g db). dl_mailbox_id d' = tgt
           \<and> dl_message_id d' = dl_message_id d \<and> (dl_status d = Active \<longrightarrow> dl_status d' = Active)"
proof -
  note inj = store_keys_inj [OF keys]
  let ?ps = "duplicate_pairs src tgt db"
  let ?h = "\<lambda>d. moved_row src tgt g (merged_row g ?ps d)"
  show ?thesis
  proof (cases "\<exists>s t. (s, t) \<in> set ?ps \<and> dl_message_id s = dl_message_id d")
    case False
    then have kept: "kept_row src tgt db d" using d at by (auto simp: kept_row_def duplicate_pairs_iff)
    have "\<not> dl_id t = dl_id d" if "(s, t) \<in> set ?ps" for s t
      using False that inj(1) [OF _ d, of t] unfolding duplicate_pairs_iff by metis
    then have "List.find (\<lambda>(s, t). dl_id t = dl_id d) ?ps = None" by (auto simp: find_None)
    then have "merged_row g ?ps d = d" by (simp add: merged_row_def)
    then show ?thesis
      using d at kept by (intro bexI [of _ "?h d"]) (auto simp: merged_set)
  next
    case True
    then obtain s t where st: "(s, t) \<in> set ?ps" "dl_message_id s = dl_message_id d" by blast
    then have t: "t \<in> set (deliveries db)" "dl_mailbox_id t = tgt" "dl_message_id t = dl_message_id d"
      and s: "s \<in> set (deliveries db)" "dl_mailbox_id s = src"
      by (auto simp: duplicate_pairs_iff)
    have dd: "d = s \<or> d = t" using at inj(2) [OF d s(1)] inj(2) [OF d t(1)] st(2) t s by metis
    obtain s2 t2 where f2: "List.find (\<lambda>(x, y). dl_id y = dl_id t) ?ps = Some (s2, t2)"
      using st by (cases "List.find (\<lambda>(x, y). dl_id y = dl_id t) ?ps") (auto simp: find_None)
    then have m2: "(s2, t2) \<in> set ?ps" "dl_id t2 = dl_id t" by (auto dest!: find_member)
    then have "t2 = t" using t(1) inj(1) [of t2 t] unfolding duplicate_pairs_iff by blast
    moreover have "s2 = s" using m2(1) \<open>t2 = t\<close> st s inj(2) [of s2 s] unfolding duplicate_pairs_iff by metis
    ultimately have row: "merged_row g ?ps t = merge_delivery g s t t" using f2 by (simp add: merged_row_def)
    have "kept_row src tgt db t" using t ne by (simp add: kept_row_def)
    then have "?h t \<in> set (merged_deliveries src tgt g db)" using t(1) by (auto simp: merged_set)
    moreover have "dl_status (?h t) = merged_delivery_status (dl_status t) (dl_status s)"
      by (simp add: row merge_delivery_def)
    moreover have "dl_mailbox_id (?h t) = tgt" "dl_message_id (?h t) = dl_message_id d" using t by simp_all
    ultimately show ?thesis using dd by (intro bexI [of _ "?h t"]) (auto simp: merged_delivery_status_def)
  qed
qed

lemma better_owner:
  assumes "mailbox_needs_ownership_promotion m r match" and "join_domain db (Some m) = Some (m, r)"
    and "mb_domain_id m \<noteq> match_domain_id match"
  shows "match_root_domain_ascii match \<noteq> star
    \<and> (\<exists>d. domain_by_id db (mb_domain_id m) = Some d
         \<and> (root_domain_ascii d = star
            \<or> ends_with (match_root_domain_ascii match) (dot # root_domain_ascii d)))"
  using assms by (auto simp: mailbox_needs_ownership_promotion_def join_domain_def split: if_splits)

section \<open>Properties\<close>

text \<open>
  C8: the indexed routing query a transaction uses decides like the matcher over every active
  domain: restricting the rows to the roots that are suffixes of the address's domain, or the
  catch-all, never changes the match.
\<close>

theorem match_active_domain_complete:
  assumes "\<forall>d \<in> set (domains db). dom_is_active d \<longrightarrow> stored_root (root_domain_ascii d)"
  shows "\<exists>M. load_active_domain_matcher U db = Inr M
           \<and> match_active_domain U db address = Inr (match_address U M address)"
  using match_active_domain_full [OF assms] by metis

text \<open>
  C9: promoting a mailbox keeps the mail tables consistent: keys stay unique, every delivery
  refers to a mailbox and a message that exist, the outbox refers to existing deliveries, and
  every mailbox row counts exactly its active deliveries.
\<close>

theorem promote_keeps_store_inv:
  assumes "store_inv db" and "source \<in> set (mailboxes db)"
    and "promote_mailbox_ownership (mb_id source) match db = Inr (p, db')"
  shows "store_inv db'"
  using assms
proof (cases rule: promote_cases)
  case (in_place root)
  then show ?thesis using promote_in_place_inv assms(1,2) by blast
next
  case (merge root target target_root)
  then show ?thesis using promote_merge_result(1) assms(1,2) by blast
qed (use assms in simp)

text \<open>
  C10: promotion loses no history: every message that was delivered to the promoted mailbox or
  to the mailbox it is merged into is delivered to the surviving mailbox, and a message with
  an active delivery in either has an active one there.
\<close>

theorem promote_loses_no_history:
  assumes inv: "store_inv db" and src: "source \<in> set (mailboxes db)"
    and ok: "promote_mailbox_ownership (mb_id source) match db = Inr (p, db')"
    and d: "d \<in> set (deliveries db)" "dl_mailbox_id d \<in> {mb_id source, pr_mailbox_id p}"
  shows "\<exists>d' \<in> set (deliveries db'). dl_mailbox_id d' = pr_mailbox_id p
           \<and> dl_message_id d' = dl_message_id d \<and> (dl_status d = Active \<longrightarrow> dl_status d' = Active)"
  using inv src ok
proof (cases rule: promote_cases)
  case (in_place root)
  then have "deliveries db' = deliveries db" "pr_mailbox_id p = mb_id source"
    by (auto simp: promote_in_place_def Let_def refresh_rehomed_mailbox_summary_def split: if_splits)
  with d show ?thesis by auto
next
  case (merge root target troot)
  let ?S = "mb_id source" and ?T = "mb_id target" and ?g = "bulk_delete_generation target"
  have dl: "deliveries db' = merged_deliveries ?S ?T ?g db" and pid: "pr_mailbox_id p = ?T"
    by (rule promote_merge_result [OF inv src merge(3,5,7)])+
  have keys: "store_keys db" using inv by (simp add: store_inv_def)
  from merged_message [OF keys merge(5) d(1), of ?g] d(2) pid
  show ?thesis unfolding dl pid by auto
qed (use d in auto)

text \<open>
  ownership only moves to a better owner: a promotion never takes a mailbox away from a
  domain unless the new domain is the routing winner of the match and either the old domain
  was the catch-all or the new root is a proper subdomain of the old one.
\<close>

theorem promote_monotonic:
  assumes inv: "store_inv db" and m: "m \<in> set (mailboxes db)"
    and src: "source \<in> set (mailboxes db)"
    and ok: "promote_mailbox_ownership (mb_id source) match db = Inr (p, db')"
    and m': "m' \<in> set (mailboxes db')" "mb_id m' = mb_id m"
    and changed: "mb_domain_id m' \<noteq> mb_domain_id m"
  shows "mb_domain_id m' = match_domain_id match \<and> match_root_domain_ascii match \<noteq> star
    \<and> (\<exists>d. domain_by_id db (mb_domain_id m) = Some d
         \<and> (root_domain_ascii d = star
            \<or> ends_with (match_root_domain_ascii match) (dot # root_domain_ascii d)))"
proof -
  have keys: "store_keys db" using inv by (simp add: store_inv_def)
  have stay: "\<not> m' \<in> set (mailboxes db)" using same_id [OF keys m _ m'(2) [symmetric]] changed by blast
  show ?thesis using inv src ok
  proof (cases rule: promote_cases)
    case (unchanged root)
    then show ?thesis using m'(1) stay by simp
  next
    case (in_place root)
    have "\<forall>x \<in> set (mailboxes db'). x \<in> set (mailboxes db) \<or> mb_id x = mb_id source \<and> mb_domain_id x = match_domain_id match"
      using in_place(4)
      by (auto simp: promote_in_place_def Let_def refresh_rehomed_mailbox_summary_def update_mailboxes_def split: if_splits)
    then have id: "mb_id m = mb_id source" "mb_domain_id m' = match_domain_id match" using m' stay by auto
    then have "m = source" using m src same_id [OF keys] by blast
    then show ?thesis using better_owner [OF in_place(2,1)] id(2) changed by simp
  next
    case (merge root target troot)
    note r = promote_merge_result [OF inv src merge(3,5,7)]
    have "mb_id m' = mb_id target" using r(8) [OF m'(1)] stay by blast
    then have mt: "m = target" and
      dom: "mb_domain_id m' = mb_domain_id (merge_into_target target troot source match target)"
      using m'(2) m merge(3) same_id [OF keys] r(9) [OF m'(1)] by auto
    then have "mailbox_needs_ownership_promotion target troot match" "mb_domain_id m' = match_domain_id match"
      using changed by (auto simp: merge_into_target_def Let_def split: if_splits)
    then show ?thesis using better_owner [OF _ merge(6)] mt changed by simp
  qed
qed


section \<open>Witnesses\<close>

definition ex_domain :: "int \<Rightarrow> string \<Rightarrow> domain_row" where
  "ex_domain i r = \<lparr>dom_id = i, root_domain_ascii = u r, root_domain_unicode = None, dom_accept_exact = True,
     dom_accept_subdomains = True, public_web_enabled = True, public_api_enabled = True,
     dom_is_active = True, dom_is_hidden = False, dom_plus_addressing_mode = ''strip'', dom_case_sensitive = False,
     max_message_size_bytes = 1000, retention_days = Some 7, dns_status = ''unknown''\<rparr>"

definition ex_mailbox :: "int \<Rightarrow> int \<Rightarrow> string \<Rightarrow> string \<Rightarrow> mailbox" where
  "ex_mailbox i d lp rcpt = \<lparr>mb_id = i, mb_domain_id = d, mb_local_part = u lp, mb_rcpt_domain = u rcpt,
     mb_address = u (lp @ ''@'' @ rcpt), mb_display = u (lp @ ''@'' @ rcpt),
     first_seen_at = ''1'', last_seen_at = ''3'', latest_message_at = Some ''3'', message_count = 1,
     public_enabled = True, mb_is_hidden = False, mb_notes = None, bulk_delete_generation = 0\<rparr>"

definition ex_delivery :: "string \<Rightarrow> string \<Rightarrow> int \<Rightarrow> delivery" where
  "ex_delivery i m b = \<lparr>dl_id = i, dl_message_id = m, dl_mailbox_id = b, dl_rcpt_to = [], delivered_at = ''3'',
     dl_status = Active, deleted_at = None, dl_expires_at = Some ''9'', dl_notes = None, mailbox_generation = 0\<rparr>"

definition ex_message :: "string \<Rightarrow> message" where
  "ex_message i = \<lparr>msg_id = i, msg_session_id = None, raw_path = i, raw_sha256 = i, msg_raw_size = 3,
     envelope_from = None, msg_from_addr = None, received_at = ''3'', indexed_at = None, parse_status = Pending,
     parse_error = None, text_body_path = None, html_body_path = None\<rparr>"

text \<open>A catch-all mailbox \<open>b+x@d.co\<close> and the mailbox \<open>b@d.co\<close> it belongs to once \<open>d.co\<close> is added.\<close>

definition ex_store :: mail_db where
  "ex_store = \<lparr>domains = [ex_domain 1 ''*'', ex_domain 2 ''d.co''],
     mailboxes = [ex_mailbox 1 1 ''b+x'' ''d.co'', ex_mailbox 2 1 ''b'' ''d.co''],
     messages = [ex_message ''m''],
     deliveries = [ex_delivery ''p'' ''m'' 1, ex_delivery ''q'' ''m'' 2],
     live_events = [\<lparr>lv_kind = MailboxDelivery, lv_delivery_id = ''p'', lv_created_at = ''3''\<rparr>],
     next_mailbox_id = 3\<rparr>"

definition ex_promoting_match :: domain_match where
  "ex_promoting_match = \<lparr>match_domain_id = 2, match_domain_ascii = u ''d.co'', match_root_domain_ascii = u ''d.co'',
     match_local_part = u ''b+x'', match_local_part_canonical = u ''b'', address_canonical = u ''b@d.co''\<rparr>"

lemmas ex_store_defs = ex_store_def ex_domain_def ex_mailbox_def ex_delivery_def ex_message_def ex_promoting_match_def

definition ex_promoted :: "promotion \<times> mail_db" where
  "ex_promoted = (\<lparr>pr_mailbox_id = 2, rehomed = True, moved = 0, deduplicated = 1\<rparr>,
     ex_store\<lparr>mailboxes := [(ex_mailbox 2 2 ''b'' ''d.co'')],
       deliveries := [ex_delivery ''q'' ''m'' 2], live_events := []\<rparr>)"

lemma ex_promote: "promote_mailbox_ownership 1 ex_promoting_match ex_store = Inr ex_promoted"
  by code_simp

lemma ex_store_inv: "store_inv ex_store"
  by code_simp

lemma ex_source: "ex_mailbox 1 1 ''b+x'' ''d.co'' \<in> set (mailboxes ex_store)"
  by (simp add: ex_store_def)

lemma ex_promote': "promote_mailbox_ownership (mb_id (ex_mailbox 1 1 ''b+x'' ''d.co'')) ex_promoting_match ex_store
    = Inr (fst ex_promoted, snd ex_promoted)"
  using ex_promote by (simp add: ex_mailbox_def)

theorem match_active_domain_complete_witness:
  "\<exists>M. load_active_domain_matcher ex_unicode ex_store = Inr M
     \<and> match_active_domain ex_unicode ex_store (u ''b+x@d.co'') = Inr (match_address ex_unicode M (u ''b+x@d.co''))"
  by (rule match_active_domain_complete) (code_simp)

theorem promote_keeps_store_inv_witness: "store_inv (snd ex_promoted)"
  by (rule promote_keeps_store_inv [OF ex_store_inv ex_source ex_promote'])

theorem promote_loses_no_history_witness:
  "\<exists>d' \<in> set (deliveries (snd ex_promoted)). dl_mailbox_id d' = 2 \<and> dl_message_id d' = ''m'' \<and> dl_status d' = Active"
  using promote_loses_no_history [OF ex_store_inv ex_source ex_promote', of "ex_delivery ''p'' ''m'' 1"]
  by (simp add: ex_store_def ex_delivery_def ex_mailbox_def ex_promoted_def)

theorem promote_monotonic_witness:
  "match_root_domain_ascii ex_promoting_match \<noteq> star
   \<and> (\<exists>d. domain_by_id ex_store 1 = Some d \<and> (root_domain_ascii d = star
        \<or> ends_with (match_root_domain_ascii ex_promoting_match) (dot # root_domain_ascii d)))"
  using promote_monotonic [OF ex_store_inv _ ex_source ex_promote',
      of "ex_mailbox 2 1 ''b'' ''d.co''" "ex_mailbox 2 2 ''b'' ''d.co''"]
  by (simp add: ex_store_def ex_mailbox_def ex_promoted_def)

end
