(* ===== verification/Timestamps.thy ===== *)
theory Timestamps
  imports Prelude
begin

text \<open>
  The texts the program stores for instants: \<open>utc_now\<close> of \<^verbatim>\<open>src/app/ingest/storage.py\<close> and the
  arithmetic on them in \<^verbatim>\<open>src/app/runtime.py\<close>. An instant is a number of seconds since the
  first of January of the year 1, as \<open>datetime\<close> represents it; the proleptic Gregorian calendar
  is that of \<open>datetime\<close>. The program compares the texts (in SQL and with \<open>min\<close> and \<open>max\<close>); the
  theorem here is that this compares the instants.
\<close>

section \<open>The calendar\<close>

definition is_leap :: "int \<Rightarrow> bool" where
  "is_leap y \<longleftrightarrow> y mod 4 = 0 \<and> (y mod 100 \<noteq> 0 \<or> y mod 400 = 0)"

definition days_before_year :: "int \<Rightarrow> int" where
  "days_before_year y = (y - 1) * 365 + (y - 1) div 4 - (y - 1) div 100 + (y - 1) div 400"

definition month_lengths :: "int \<Rightarrow> int list" where
  "month_lengths y = [31, if is_leap y then 29 else 28, 31, 30, 31, 30, 31, 31, 30, 31, 30, 31]"

definition ymd2ord :: "int \<Rightarrow> nat \<Rightarrow> int \<Rightarrow> int" where
  "ymd2ord y m d = days_before_year y + sum_list (take (m - 1) (month_lengths y)) + d"

lemma div_step:
  assumes "0 < k"
  shows "(y :: int) div k = (y - 1) div k + (if y mod k = 0 then 1 else 0)"
proof -
  have y: "y = k * (y div k) + y mod k" by simp
  have r: "0 \<le> y mod k" "y mod k < k" using assms by simp_all
  show ?thesis
  proof (cases "y mod k = 0")
    case True
    then have "y - 1 = k * (y div k - 1) + (k - 1)" using y by (simp add: algebra_simps)
    then have "(y - 1) div k = y div k - 1" by (rule int_div_pos_eq) (use assms in auto)
    with True show ?thesis by simp
  next
    case False
    have "y - 1 = k * (y div k) + (y mod k - 1)" using y by (simp add: algebra_simps)
    then have "(y - 1) div k = y div k" by (rule int_div_pos_eq) (use r False in auto)
    with False show ?thesis by simp
  qed
qed

lemma leap_sum:
  fixes a :: int
  assumes "a = a' + (if p then 1 else 0)" "b = b' + (if q then 1 else 0)" "c = c' + (if r then 1 else 0)"
    and "r \<Longrightarrow> q" "q \<Longrightarrow> p"
  shows "a - b + c = a' - b' + c' + (if p \<and> (\<not> q \<or> r) then 1 else 0)"
  using assms by auto

lemma leap_days:
  "y div 4 - y div 100 + y div 400
     = (y - 1) div 4 - (y - 1) div 100 + (y - 1) div 400 + (if is_leap y then 1 else (0 :: int))"
  unfolding is_leap_def
  by (rule leap_sum; (rule div_step)?)
    (use mod_mod_cancel [of 100 400 y] mod_mod_cancel [of 4 100 y] in simp_all)

lemma days_before_year_Suc:
  "days_before_year (y + 1) = days_before_year y + sum_list (month_lengths y)"
  using leap_days [of y] by (simp add: days_before_year_def month_lengths_def algebra_simps)

lemma year_length_pos: "0 < sum_list (month_lengths y)"
  by (simp add: month_lengths_def)

lemma days_before_year_mono: "y \<le> z \<Longrightarrow> days_before_year y \<le> days_before_year z"
proof (induction "nat (z - y)" arbitrary: z)
  case (Suc n)
  then have "days_before_year y \<le> days_before_year (z - 1)" by simp
  also have "\<dots> \<le> days_before_year z"
    using days_before_year_Suc [of "z - 1"] year_length_pos [of "z - 1"] by simp
  finally show ?case .
qed simp

function year_from :: "int \<Rightarrow> int \<Rightarrow> int" where
  "year_from y n = (if days_before_year (y + 1) < n then year_from (y + 1) n else y)"
  by pat_completeness auto

termination
proof (relation "measure (\<lambda>(y, n). nat (n - days_before_year y))")
  fix y n assume "days_before_year (y + 1) < n"
  then show "((y + 1, n), (y, n)) \<in> measure (\<lambda>(y, n). nat (n - days_before_year y))"
    using days_before_year_Suc [of y] year_length_pos [of y] by simp
qed simp

declare year_from.simps [simp del]

lemma year_from_bounds:
  "days_before_year y < n \<Longrightarrow>
   days_before_year (year_from y n) < n \<and> n \<le> days_before_year (year_from y n + 1) \<and> y \<le> year_from y n"
proof (induction y n rule: year_from.induct)
  case (1 y n)
  show ?case
  proof (cases "days_before_year (y + 1) < n")
    case True
    then show ?thesis using 1 by (subst (1 2 3) year_from.simps) auto
  next
    case False
    then show ?thesis using 1(2) by (subst (1 2 3) year_from.simps) auto
  qed
qed

text \<open>The month and the day of a day of the year, counted from 1.\<close>

fun month_walk :: "int list \<Rightarrow> int \<Rightarrow> nat \<times> int" where
  "month_walk [] d = (1, d)"
| "month_walk [k] d = (1, d)"
| "month_walk (k # ks) d = (if d \<le> k then (1, d) else (case month_walk ks (d - k) of (m, e) \<Rightarrow> (m + 1, e)))"

definition ord2ymd :: "int \<Rightarrow> int \<times> nat \<times> int" where
  "ord2ymd n =
     (let y = year_from ((n - 1) div 366 + 1) n;
          (m, d) = month_walk (month_lengths y) (n - days_before_year y)
      in (y, m, d))"

lemma month_walk_spec:
  assumes "1 \<le> d" "d \<le> sum_list ks" "ks \<noteq> []" "month_walk ks d = (m, e)"
  shows "1 \<le> m \<and> m \<le> length ks \<and> 1 \<le> e \<and> e \<le> ks ! (m - 1) \<and> d = sum_list (take (m - 1) ks) + e"
  using assms
proof (induction ks d arbitrary: m e rule: month_walk.induct)
  case (3 k k' ks d)
  show ?case
  proof (cases "d \<le> k")
    case False
    obtain m' where m': "month_walk (k' # ks) (d - k) = (m', e)" "m = m' + 1"
      using 3(5) False by (auto split: prod.splits)
    then have "1 \<le> m' \<and> m' \<le> length (k' # ks) \<and> 1 \<le> e \<and> e \<le> (k' # ks) ! (m' - 1)
        \<and> d - k = sum_list (take (m' - 1) (k' # ks)) + e"
      using 3(1) [OF False, of m' e] 3(2,3) False by simp
    then show ?thesis using m'(2) by (cases m') auto
  qed (use 3 in auto)
qed auto

lemma first_guess: "1 \<le> n \<Longrightarrow> days_before_year ((n - 1) div 366 + 1) < n"
proof -
  define q where "q = (n - 1) div 366"
  assume "1 \<le> n"
  then have "0 \<le> q" "366 * q \<le> n - 1" unfolding q_def by simp_all
  moreover have "q div 4 - q div 100 + q div 400 \<le> q"
    using zdiv_mono2 [of q 100 400] zdiv_mono2 [of q 1 4] \<open>0 \<le> q\<close> by simp
  ultimately have "days_before_year (q + 1) < n" by (simp add: days_before_year_def)
  then show ?thesis by (simp add: q_def)
qed

lemma ord2ymd_spec:
  assumes "1 \<le> n" and "ord2ymd n = (y, m, d)"
  shows "1 \<le> y \<and> 1 \<le> m \<and> m \<le> 12 \<and> 1 \<le> d \<and> d \<le> month_lengths y ! (m - 1) \<and> ymd2ord y m d = n"
proof -
  have y: "days_before_year y < n" "n \<le> days_before_year (y + 1)" "(n - 1) div 366 + 1 \<le> y"
    and w: "month_walk (month_lengths y) (n - days_before_year y) = (m, d)"
    using assms(2) year_from_bounds [OF first_guess [OF assms(1)]]
    by (auto simp: ord2ymd_def Let_def split: prod.splits)
  have "0 \<le> (n - 1) div 366" using assms(1) by simp
  moreover have "1 \<le> n - days_before_year y" "n - days_before_year y \<le> sum_list (month_lengths y)"
    using y days_before_year_Suc [of y] by auto
  moreover have "length (month_lengths y) = 12" "month_lengths y \<noteq> []" by (simp_all add: month_lengths_def)
  ultimately show ?thesis
    using month_walk_spec [OF _ _ _ w] y by (auto simp: ymd2ord_def)
qed

section \<open>Texts\<close>

text \<open>A number padded with zeros to a width.\<close>

fun digits :: "nat \<Rightarrow> nat \<Rightarrow> string" where
  "digits 0 n = []"
| "digits (Suc w) n = digits w (n div 10) @ [char_of (48 + n mod 10)]"

definition undigits :: "string \<Rightarrow> nat" where
  "undigits s = foldl (\<lambda>a c. 10 * a + (of_char c - 48)) 0 s"

definition seconds_max :: int where
  "seconds_max = 86400 * days_before_year 10000"

definition valid_time :: "int \<Rightarrow> bool" where
  "valid_time t \<longleftrightarrow> 0 \<le> t \<and> t < seconds_max"

text \<open>\<open>datetime.isoformat\<close> of a UTC instant without microseconds, with \<open>+00:00\<close> written \<open>Z\<close>.\<close>

definition utc_text :: "int \<Rightarrow> string" where
  "utc_text t =
     (case ord2ymd (t div 86400 + 1) of (y, m, d) \<Rightarrow>
        let s = nat (t mod 86400) in
        digits 4 (nat y) @ ''-'' @ digits 2 m @ ''-'' @ digits 2 (nat d) @ ''T'' @
        digits 2 (s div 3600) @ '':'' @ digits 2 (s mod 3600 div 60) @ '':'' @ digits 2 (s mod 60) @ ''Z'')"

text \<open>\<open>utc_now\<close>: the clock is an argument.\<close>

definition utc_now :: "int \<Rightarrow> string" where
  "utc_now clock = utc_text clock"

text \<open>
  \<open>datetime.fromisoformat\<close> after \<open>replace("Z", "+00:00")\<close>, for the texts \<open>utc_now\<close> writes; the
  other spellings it accepts are outside the model.
\<close>

definition field :: "nat \<Rightarrow> nat \<Rightarrow> string \<Rightarrow> string" where
  "field i n s = take n (drop i s)"

definition utc_shape :: "string \<Rightarrow> bool" where
  "utc_shape s \<longleftrightarrow> length s = 20
     \<and> map ((!) s) [4, 7, 10, 13, 16, 19] = ''--T::Z''
     \<and> list_all (\<lambda>(i, n). list_all is_digit (field i n s)) [(0, 4), (5, 2), (8, 2), (11, 2), (14, 2), (17, 2)]"

definition parse_utc :: "string \<Rightarrow> int option" where
  "parse_utc s =
     (let num = (\<lambda>i n. undigits (field i n s));
          y = int (num 0 4); m = num 5 2; d = int (num 8 2); h = num 11 2; mi = num 14 2; sec = num 17 2
      in if utc_shape s \<and> 1 \<le> y \<and> 1 \<le> m \<and> m \<le> 12 \<and> 1 \<le> d \<and> d \<le> month_lengths y ! (m - 1)
            \<and> h < 24 \<and> mi < 60 \<and> sec < 60
         then Some ((ymd2ord y m d - 1) * 86400 + int (h * 3600 + mi * 60 + sec))
         else None)"

definition path_date_parts :: "string \<Rightarrow> (string \<times> string \<times> string) result" where
  "path_date_parts s =
     (case parse_utc s of
        None \<Rightarrow> Inl (ValueError ''Invalid isoformat string'')
      | Some t \<Rightarrow> (case ord2ymd (t div 86400 + 1) of (y, m, d) \<Rightarrow>
          Inr (digits 4 (nat y), digits 2 m, digits 2 (nat d))))"

definition metric_bucket_ts :: "string \<Rightarrow> string" where
  "metric_bucket_ts s = take 16 s @ '':00Z''"

definition delivery_expires_at :: "string \<Rightarrow> int option \<Rightarrow> string option result" where
  "delivery_expires_at delivered_at retention_days =
     (case retention_days of
        None \<Rightarrow> Inr None
      | Some days \<Rightarrow>
          if days \<le> 0 then Inr None
          else (case parse_utc delivered_at of
              None \<Rightarrow> Inl (ValueError ''Invalid isoformat string'')
            | Some t \<Rightarrow>
                if t + 86400 * days < seconds_max then Inr (Some (utc_text (t + 86400 * days)))
                else Inl (OverflowError ''date value out of range'')))"

section \<open>Texts are ordered like instants\<close>

lemma lex_app:
  fixes xs :: "'a :: linorder list"
  shows "length xs = length ys \<Longrightarrow> xs @ us < ys @ vs \<longleftrightarrow> xs < ys \<or> xs = ys \<and> us < vs"
  by (induction xs ys rule: list_induct2) auto

lemma length_digits [simp]: "length (digits w n) = w"
  by (induction w arbitrary: n) auto

lemma digit_char: "n < 10 \<Longrightarrow> of_char (char_of (48 + n :: nat)) = 48 + n"
  by (rule of_char_digit)

lemma char_less: "c < d \<longleftrightarrow> (of_char c :: nat) < of_char d" for c d :: char
  by (simp add: less_char_def)

lemma digits_inj: "a < 10 ^ w \<Longrightarrow> b < 10 ^ w \<Longrightarrow> digits w a = digits w b \<longleftrightarrow> a = b"
proof (induction w arbitrary: a b)
  case (Suc w)
  have "digits (Suc w) a = digits (Suc w) b \<longleftrightarrow> a div 10 = b div 10 \<and> char_of (48 + a mod 10 :: nat) = char_of (48 + b mod 10)"
    using Suc.IH [of "a div 10" "b div 10"] Suc.prems by (simp add: less_mult_imp_div_less)
  also have "char_of (48 + a mod 10 :: nat) = (char_of (48 + b mod 10) :: char) \<longleftrightarrow> a mod 10 = b mod 10"
    using digit_char [of "a mod 10"] digit_char [of "b mod 10"] by (metis add_left_cancel mod_less_divisor zero_less_numeral)
  finally show ?case using div_mult_mod_eq [of a 10] div_mult_mod_eq [of b 10] by metis
qed simp

lemma digitwise_less: "a div 10 < b div 10 \<or> a div 10 = b div 10 \<and> a mod 10 < b mod 10 \<longleftrightarrow> a < (b :: nat)"
proof -
  define q r q' r' where "q = a div 10" and "r = a mod 10" and "q' = b div 10" and "r' = b mod 10"
  have "a = 10 * q + r" "b = 10 * q' + r'" "r < 10" "r' < 10" by (simp_all add: q_def r_def q'_def r'_def)
  then show ?thesis unfolding q_def [symmetric] r_def [symmetric] q'_def [symmetric] r'_def [symmetric] by linarith
qed

lemma digits_less: "a < 10 ^ w \<Longrightarrow> b < 10 ^ w \<Longrightarrow> digits w a < digits w b \<longleftrightarrow> a < b"
proof (induction w arbitrary: a b)
  case (Suc w)
  have d: "a div 10 < 10 ^ w" "b div 10 < 10 ^ w" using Suc.prems by (simp_all add: less_mult_imp_div_less)
  have "digits (Suc w) a < digits (Suc w) b \<longleftrightarrow>
      a div 10 < b div 10 \<or> a div 10 = b div 10 \<and> a mod 10 < b mod 10"
    using Suc.IH [OF d] digits_inj [OF d]
    by (simp add: lex_app char_less digit_char)
  also have "\<dots> \<longleftrightarrow> a < b" by (rule digitwise_less)
  finally show ?case .
qed simp

definition clock_fields :: "int \<Rightarrow> int \<times> nat \<times> int \<times> nat \<times> nat \<times> nat" where
  "clock_fields t =
     (case ord2ymd (t div 86400 + 1) of (y, m, d) \<Rightarrow>
        let s = nat (t mod 86400) in (y, m, d, s div 3600, s mod 3600 div 60, s mod 60))"

lemma month_lengths_nth: "1 \<le> m \<Longrightarrow> m \<le> 12 \<Longrightarrow> 0 < month_lengths y ! (m - 1) \<and> month_lengths y ! (m - 1) \<le> 31"
  by (auto simp: month_lengths_def nth_Cons' split: if_splits)

lemma months_before:
  assumes "1 \<le> m" "m < m'" "m' \<le> 12"
  shows "sum_list (take (m - 1) (month_lengths y)) + month_lengths y ! (m - 1)
    \<le> sum_list (take (m' - 1) (month_lengths y))"
proof -
  have len: "length (month_lengths y) = 12" by (simp add: month_lengths_def)
  have pos: "0 \<le> x" if "x \<in> set (month_lengths y)" for x using that by (auto simp: month_lengths_def split: if_splits)
  have "m' - 1 = m + (m' - 1 - m)" using assms by simp
  then have "take (m' - 1) (month_lengths y)
      = take m (month_lengths y) @ take (m' - 1 - m) (drop m (month_lengths y))"
    by (metis take_add)
  moreover have "take m (month_lengths y) = take (m - 1) (month_lengths y) @ [month_lengths y ! (m - 1)]"
    using assms len by (cases m) (simp_all add: take_Suc_conv_app_nth)
  moreover have "0 \<le> sum_list (take (m' - 1 - m) (drop m (month_lengths y)))"
    by (rule sum_list_nonneg) (meson in_set_dropD in_set_takeD pos)
  ultimately show ?thesis by simp
qed

lemma year_total: "1 \<le> m \<Longrightarrow> m \<le> 12 \<Longrightarrow>
    sum_list (take (m - 1) (month_lengths y)) + month_lengths y ! (m - 1) \<le> sum_list (month_lengths y)"
proof -
  assume m: "1 \<le> m" "m \<le> 12"
  have pos: "0 \<le> x" if "x \<in> set (month_lengths y)" for x using that by (auto simp: month_lengths_def split: if_splits)
  have "length (month_lengths y) = 12" by (simp add: month_lengths_def)
  then have "take m (month_lengths y) = take (m - 1) (month_lengths y) @ [month_lengths y ! (m - 1)]"
    using m by (cases m) (simp_all add: take_Suc_conv_app_nth)
  moreover have "sum_list (month_lengths y) = sum_list (take m (month_lengths y)) + sum_list (drop m (month_lengths y))"
    by (metis append_take_drop_id sum_list_append)
  moreover have "0 \<le> sum_list (drop m (month_lengths y))"
    by (rule sum_list_nonneg) (meson in_set_dropD pos)
  ultimately show ?thesis by simp
qed

lemma ymd2ord_bounds:
  assumes "1 \<le> m" "m \<le> 12" "1 \<le> d" "d \<le> month_lengths y ! (m - 1)"
  shows "days_before_year y < ymd2ord y m d" and "ymd2ord y m d \<le> days_before_year (y + 1)"
proof -
  have "0 \<le> sum_list (take (m - 1) (month_lengths y))"
    by (rule sum_list_nonneg) (auto dest!: in_set_takeD simp: month_lengths_def split: if_splits)
  then show "days_before_year y < ymd2ord y m d" using assms by (simp add: ymd2ord_def)
  show "ymd2ord y m d \<le> days_before_year (y + 1)"
    using year_total [OF assms(1,2), of y] assms days_before_year_Suc [of y] by (simp add: ymd2ord_def)
qed

lemma ymd2ord_less:
  assumes v: "1 \<le> m" "m \<le> 12" "1 \<le> d" "d \<le> month_lengths y ! (m - 1)"
    and v': "1 \<le> m'" "m' \<le> 12" "1 \<le> d'" "d' \<le> month_lengths y' ! (m' - 1)"
    and less: "y < y' \<or> y = y' \<and> (m < m' \<or> m = m' \<and> d < d')"
  shows "ymd2ord y m d < ymd2ord y' m' d'"
proof -
  consider "y < y'" | "y = y'" "m < m'" | "y = y'" "m = m'" "d < d'" using less by blast
  then show ?thesis
  proof cases
    case 1
    have "ymd2ord y m d \<le> days_before_year (y + 1)" using ymd2ord_bounds(2) [OF v] .
    also have "\<dots> \<le> days_before_year y'" using 1 by (intro days_before_year_mono) simp
    also have "\<dots> < ymd2ord y' m' d'" using ymd2ord_bounds(1) [OF v'] .
    finally show ?thesis .
  next
    case 2
    then show ?thesis using months_before [OF v(1) 2(2) v'(2), of y] v v' by (simp add: ymd2ord_def)
  next
    case 3
    then show ?thesis by (simp add: ymd2ord_def)
  qed
qed

lemma days_before_10000: "days_before_year 10000 = 3652059"
  by (simp add: days_before_year_def)

text \<open>The fields of a valid instant, their ranges and the instant they denote.\<close>

lemma clock_fields_spec:
  assumes "valid_time t" and "clock_fields t = (y, m, d, h, mi, s)"
  shows "1 \<le> y \<and> y < 10000 \<and> 1 \<le> m \<and> m \<le> 12 \<and> 1 \<le> d \<and> d \<le> month_lengths y ! (m - 1)
    \<and> h < 24 \<and> mi < 60 \<and> s < 60
    \<and> t = (ymd2ord y m d - 1) * 86400 + int (h * 3600 + mi * 60 + s)"
proof -
  define n where "n = t div 86400 + 1"
  define r where "r = nat (t mod 86400)"
  have o: "ord2ymd n = (y, m, d)" and hms: "h = r div 3600" "mi = r mod 3600 div 60" "s = r mod 60"
    using assms(2) by (auto simp: clock_fields_def n_def r_def Let_def split: prod.splits)
  have t: "0 \<le> t" "t < 86400 * 3652059" using assms(1) by (simp_all add: valid_time_def seconds_max_def days_before_10000)
  then have "0 \<le> t div 86400" "t div 86400 < 3652059" by (simp_all add: div_less_iff_less_mult)
  then have n: "1 \<le> n" "n \<le> 3652059" unfolding n_def by simp_all
  have spec: "1 \<le> y \<and> 1 \<le> m \<and> m \<le> 12 \<and> 1 \<le> d \<and> d \<le> month_lengths y ! (m - 1) \<and> ymd2ord y m d = n"
    by (rule ord2ymd_spec [OF n(1) o])
  have e: "r mod 3600 div 60 * 60 + r mod 60 = r mod 3600"
    using div_mult_mod_eq [of "r mod 3600" 60] mod_mod_cancel [of 60 3600 r] by simp
  have "y < 10000"
  proof (rule ccontr)
    assume "\<not> y < 10000"
    then have "3652059 \<le> days_before_year y" using days_before_year_mono [of 10000 y] by (simp add: days_before_10000)
    then show False using ymd2ord_bounds(1) [of m d y] spec n(2) by simp
  qed
  moreover have "r < 86400" unfolding r_def by (simp add: nat_less_iff)
  moreover have "t = (n - 1) * 86400 + int r" by (simp add: n_def r_def)
  moreover have "r = h * 3600 + mi * 60 + s"
    unfolding hms by (simp only: add.assoc e div_mult_mod_eq)
  moreover have "h < 24" "mi < 60" "s < 60"
    unfolding hms using \<open>r < 86400\<close> by (simp_all add: div_less_iff_less_mult)
  ultimately show ?thesis using spec by simp
qed

lemma utc_text_fields:
  "clock_fields t = (y, m, d, h, mi, s) \<Longrightarrow>
   utc_text t = digits 4 (nat y) @ ''-'' @ digits 2 m @ ''-'' @ digits 2 (nat d) @ ''T'' @
        digits 2 h @ '':'' @ digits 2 mi @ '':'' @ digits 2 s @ ''Z''"
  by (auto simp: clock_fields_def utc_text_def Let_def split: prod.splits)

lemma clock_fields_bounds:
  assumes "valid_time t" and "clock_fields t = (y, m, d, h, mi, s)"
  shows "nat y < 10 ^ 4" "m < 10 ^ 2" "nat d < 10 ^ 2" "h < 10 ^ 2" "mi < 10 ^ 2" "s < 10 ^ 2"
  using clock_fields_spec [OF assms] month_lengths_nth [of m y] by auto

lemma clock_fields_less:
  assumes t: "valid_time t" "clock_fields t = (y, m, d, h, mi, s)"
    and t': "valid_time t'" "clock_fields t' = (y', m', d', h', mi', s')"
    and less: "y < y' \<or> y = y' \<and> (m < m' \<or> m = m' \<and> (d < d' \<or> d = d'
      \<and> (h < h' \<or> h = h' \<and> (mi < mi' \<or> mi = mi' \<and> s < s'))))"
  shows "t < t'"
proof -
  note f = clock_fields_spec [OF t] and f' = clock_fields_spec [OF t']
  consider "y < y' \<or> y = y' \<and> (m < m' \<or> m = m' \<and> d < d')"
    | "y = y'" "m = m'" "d = d'" "h < h' \<or> h = h' \<and> (mi < mi' \<or> mi = mi' \<and> s < s')"
    using less by blast
  then show ?thesis
  proof cases
    case 1
    have "ymd2ord y m d + 1 \<le> ymd2ord y' m' d'"
      using ymd2ord_less [of m d y m' d' y'] f f' 1 by simp
    moreover have "h * 3600 + mi * 60 + s < 86400" using f by auto
    ultimately show ?thesis using f f' by simp
  next
    case 2
    then have "h * 3600 + mi * 60 + s < h' * 3600 + mi' * 60 + s'" using f f' by auto
    then show ?thesis using f f' 2 by simp
  qed
qed

lemma utc_text_less_imp:
  assumes "valid_time s" "valid_time t" "utc_text s < utc_text t"
  shows "s < t"
proof -
  obtain y m d h mi c where s: "clock_fields s = (y, m, d, h, mi, c)" by (metis prod_cases6)
  obtain y' m' d' h' mi' c' where t: "clock_fields t = (y', m', d', h', mi', c')" by (metis prod_cases6)
  note b = clock_fields_bounds [OF assms(1) s] and b' = clock_fields_bounds [OF assms(2) t]
  have pos: "1 \<le> y" "1 \<le> d" "1 \<le> y'" "1 \<le> d'"
    using clock_fields_spec [OF assms(1) s] clock_fields_spec [OF assms(2) t] by auto
  have "nat y < nat y' \<or> nat y = nat y' \<and> (m < m' \<or> m = m' \<and> (nat d < nat d' \<or> nat d = nat d'
      \<and> (h < h' \<or> h = h' \<and> (mi < mi' \<or> mi = mi' \<and> c < c'))))"
    using assms(3) unfolding utc_text_fields [OF s] utc_text_fields [OF t]
    by (simp only: lex_app length_digits digits_less digits_inj b b' append_Cons append_Nil Cons_less_Cons
        less_irrefl simp_thms)
  then have "y < y' \<or> y = y' \<and> (m < m' \<or> m = m' \<and> (d < d' \<or> d = d'
      \<and> (h < h' \<or> h = h' \<and> (mi < mi' \<or> mi = mi' \<and> c < c'))))" using pos by auto
  then show ?thesis using clock_fields_less [OF assms(1) s assms(2) t] by blast
qed

lemma utc_text_inj: "valid_time s \<Longrightarrow> valid_time t \<Longrightarrow> utc_text s = utc_text t \<Longrightarrow> s = t"
proof -
  assume v: "valid_time s" "valid_time t" and eq: "utc_text s = utc_text t"
  obtain y m d h mi c where s: "clock_fields s = (y, m, d, h, mi, c)" by (metis prod_cases6)
  obtain y' m' d' h' mi' c' where t: "clock_fields t = (y', m', d', h', mi', c')" by (metis prod_cases6)
  note b = clock_fields_bounds [OF v(1) s] and b' = clock_fields_bounds [OF v(2) t]
  note f = clock_fields_spec [OF v(1) s] and f' = clock_fields_spec [OF v(2) t]
  have "nat y = nat y'" "m = m'" "nat d = nat d'" "h = h'" "mi = mi'" "c = c'"
    using eq unfolding utc_text_fields [OF s] utc_text_fields [OF t]
    by (simp_all add: digits_inj [OF b(1) b'(1)] digits_inj [OF b(2) b'(2)] digits_inj [OF b(3) b'(3)]
        digits_inj [OF b(4) b'(4)] digits_inj [OF b(5) b'(5)] digits_inj [OF b(6) b'(6)])
  moreover from this have "y = y'" "d = d'" using f f' by auto
  ultimately show "s = t" using f f' by simp
qed

lemma utc_text_less_iff: "valid_time s \<Longrightarrow> valid_time t \<Longrightarrow> utc_text s < utc_text t \<longleftrightarrow> s < t"
  using utc_text_less_imp utc_text_inj by (metis linorder_cases not_less_iff_gr_or_eq)

lemma digits_all: "list_all is_digit (digits w n)"
proof (induction w arbitrary: n)
  case (Suc w)
  have "is_digit (char_of (48 + n mod 10))" using of_char_digit [of "n mod 10"] by (simp add: is_digit_def)
  then show ?case using Suc by simp
qed simp

lemma undigits_digits: "n < 10 ^ w \<Longrightarrow> undigits (digits w n) = n"
proof (induction w arbitrary: n)
  case (Suc w)
  then have "undigits (digits w (n div 10)) = n div 10" by (simp add: less_mult_imp_div_less)
  then show ?case by (simp add: undigits_def of_char_digit)
qed (simp add: undigits_def)

lemma field_head: "length x = n \<Longrightarrow> field 0 n (x @ r) = x"
  by (simp add: field_def)

lemma field_skip: "length x \<le> i \<Longrightarrow> field i n (x @ r) = field (i - length x) n r"
  by (simp add: field_def)

lemma nth_skip: "length x \<le> i \<Longrightarrow> (x @ r) ! i = r ! (i - length x)"
  by (simp add: nth_append)

lemma parse_utc_text: "valid_time t \<Longrightarrow> parse_utc (utc_text t) = Some t"
proof -
  assume v: "valid_time t"
  obtain y m d h mi c where s: "clock_fields t = (y, m, d, h, mi, c)" by (metis prod_cases6)
  note b = clock_fields_bounds [OF v s] and f = clock_fields_spec [OF v s]
  let ?x = "utc_text t"
  have fld: "field 0 4 ?x = digits 4 (nat y)" "field 5 2 ?x = digits 2 m" "field 8 2 ?x = digits 2 (nat d)"
      "field 11 2 ?x = digits 2 h" "field 14 2 ?x = digits 2 mi" "field 17 2 ?x = digits 2 c"
    unfolding utc_text_fields [OF s] by (simp_all add: field_def)
  have shape: "utc_shape ?x"
    using fld digits_all unfolding utc_shape_def
    by (simp add: utc_text_fields [OF s] nth_append)
  show ?thesis
    unfolding parse_utc_def Let_def fld undigits_digits [OF b(1)] undigits_digits [OF b(2)]
      undigits_digits [OF b(3)] undigits_digits [OF b(4)] undigits_digits [OF b(5)] undigits_digits [OF b(6)]
    using f shape by simp
qed

section \<open>Properties\<close>

text \<open>
  Comparing the stored texts compares the instants: for instants of the years 1 to 9999 the
  text of one is smaller, as SQLite and Python compare text, exactly when the instant is earlier,
  and reading a text back gives the instant.
\<close>

theorem utc_text_order:
  assumes "valid_time s" and "valid_time t"
  shows "(utc_now s < utc_now t \<longleftrightarrow> s < t) \<and> (utc_now s = utc_now t \<longleftrightarrow> s = t)
    \<and> parse_utc (utc_now s) = Some s"
  using assms utc_text_less_iff utc_text_inj parse_utc_text by (auto simp: utc_now_def)

text \<open>
  A delivery accepted now under a domain with retention expires exactly the configured number
  of days later, and later than it was accepted; without a positive retention it never expires. The
  only error is a date past the year 9999.
\<close>

theorem delivery_expires_at_spec:
  assumes "valid_time now"
  shows "delivery_expires_at (utc_now now) days =
    (case days of
       None \<Rightarrow> Inr None
     | Some n \<Rightarrow> if n \<le> 0 then Inr None
         else if valid_time (now + 86400 * n) then Inr (Some (utc_now (now + 86400 * n)))
         else Inl (OverflowError ''date value out of range''))
    \<and> (\<forall>e. delivery_expires_at (utc_now now) days = Inr (Some e) \<longrightarrow> utc_now now < e)"
proof -
  have p: "parse_utc (utc_text now) = Some now" using assms by (rule parse_utc_text)
  have v: "valid_time (now + 86400 * n)" if "0 < n" "now + 86400 * n < seconds_max" for n
    using assms that by (simp add: valid_time_def)
  have "utc_text now < utc_text (now + 86400 * n)" if "0 < n" "now + 86400 * n < seconds_max" for n
    using utc_text_less_iff [OF assms v [OF that]] that by simp
  then show ?thesis
    using assms v by (auto simp: delivery_expires_at_def utc_now_def p valid_time_def split: option.splits if_splits)
qed

theorem utc_text_order_witness:
  "utc_now 63846489599 < utc_now 63846489600 \<and> parse_utc (utc_now 63846489599) = Some 63846489599"
  using utc_text_order [of 63846489599 63846489600] by (simp add: valid_time_def seconds_max_def days_before_10000)

theorem delivery_expires_at_spec_witness:
  "delivery_expires_at (utc_now 63846489599) (Some 7) = Inr (Some (utc_now (63846489599 + 604800)))"
  using delivery_expires_at_spec [of 63846489599 "Some 7"]
  by (simp add: valid_time_def seconds_max_def days_before_10000)

end
