(* ===== verification/Parse_Queue.thy ===== *)
theory Parse_Queue
  imports Prelude "HOL-Library.Multiset"
begin

text \<open>
  \<^verbatim>\<open>src/app/ingest/queue.py\<close>: the bounded queue of parse tasks between SMTP acceptance and
  the parse workers. The coroutines of \<^verbatim>\<open>ParseQueue\<close> run on one event loop, so the code
  between two \<open>await\<close>s is one atomic operation of the model; \<open>pq_step\<close> interleaves the
  operations arbitrarily. The invariant ties the reservation counters to the tasks that are
  queued or being worked on; it gives the budgets, exact duplicate suppression, the absence
  of the internal runtime errors and of lost wake-ups.
\<close>

section \<open>State\<close>

record parse_task =
  message_id :: string
  raw_size_bytes :: int

text \<open>A worker coroutine waits in \<open>get\<close>, runs a task, or has ended.\<close>

datatype worker_state = Waiting | Working parse_task | Done

text \<open>
  \<open>q_items\<close> and \<open>unfinished\<close> are the \<^verbatim>\<open>asyncio.Queue\<close> (\<open>None\<close> is the stop sentinel);
  \<open>capacity_waiters\<close> are the \<open>enqueue\<close> calls suspended on the event
  \<open>capacity_changed\<close> and \<open>capacity_woken\<close> those the event has made runnable again.
\<close>

record parse_queue =
  max_messages :: int
  max_bytes :: int
  worker_count :: nat
  q_items :: "parse_task option list"
  unfinished :: int
  workers :: "worker_state list"
  active_message_ids :: "string set"
  reserved_message_ids :: "string set"
  reserved_messages :: int
  reserved_bytes :: int
  active_changed :: bool
  capacity_changed :: bool
  capacity_waiters :: "parse_task list"
  capacity_woken :: "parse_task list"

definition parse_queue_init :: "int \<Rightarrow> int \<Rightarrow> int \<Rightarrow> parse_queue result" where
  "parse_queue_init wcount max_msgs max_b =
     (if max_msgs < 1 then Inl (ValueError ''max_messages must be a positive integer'')
      else if max_b < 1 then Inl (ValueError ''max_bytes must be a positive integer'')
      else Inr \<lparr>max_messages = max_msgs, max_bytes = max_b, worker_count = nat (max 1 wcount),
                q_items = [], unfinished = 0, workers = [], active_message_ids = {},
                reserved_message_ids = {}, reserved_messages = 0, reserved_bytes = 0,
                active_changed = True, capacity_changed = True, capacity_waiters = [],
                capacity_woken = []\<rparr>)"

section \<open>Operations\<close>

text \<open>\<^verbatim>\<open>asyncio.Queue\<close>: \<open>put_nowait\<close> and \<open>task_done\<close>.\<close>

definition put_nowait :: "parse_task option \<Rightarrow> parse_queue \<Rightarrow> parse_queue" where
  "put_nowait it q = q\<lparr>q_items := q_items q @ [it], unfinished := unfinished q + 1\<rparr>"

definition task_done :: "parse_queue \<Rightarrow> parse_queue result" where
  "task_done q =
     (if unfinished q \<le> 0 then Inl (ValueError ''task_done() called too many times'')
      else Inr (q\<lparr>unfinished := unfinished q - 1\<rparr>))"

text \<open>Setting the event wakes every suspended \<open>enqueue\<close>.\<close>

definition set_capacity_changed :: "parse_queue \<Rightarrow> parse_queue" where
  "set_capacity_changed q =
     q\<lparr>capacity_changed := True, capacity_woken := capacity_woken q @ capacity_waiters q,
       capacity_waiters := []\<rparr>"

definition validate_task :: "parse_task \<Rightarrow> unit result" where
  "validate_task t =
     (if message_id t = [] then Inl (ValueError ''parse task message_id is required'')
      else if raw_size_bytes t < 0 then
        Inl (ValueError ''parse task raw_size_bytes must be a non-negative integer'')
      else Inr ())"

definition has_capacity :: "parse_queue \<Rightarrow> parse_task \<Rightarrow> bool" where
  "has_capacity q t \<longleftrightarrow>
     reserved_messages q < max_messages q \<and> reserved_bytes q + raw_size_bytes t \<le> max_bytes q"

definition release :: "parse_queue \<Rightarrow> parse_task \<Rightarrow> parse_queue result" where
  "release q t =
     (if message_id t \<notin> reserved_message_ids q then
        Inl (RuntimeError ''parse queue reservation is missing'')
      else
        let q1 = q\<lparr>reserved_message_ids := reserved_message_ids q - {message_id t},
                   reserved_messages := reserved_messages q - 1,
                   reserved_bytes := reserved_bytes q - raw_size_bytes t\<rparr>
        in if reserved_messages q1 < 0 \<or> reserved_bytes q1 < 0 then
             Inl (RuntimeError ''parse queue reservation underflow'')
           else Inr (set_capacity_changed q1))"

definition try_enqueue :: "parse_queue \<Rightarrow> parse_task \<Rightarrow> (parse_queue \<times> bool) result" where
  "try_enqueue q t =
     bindR (validate_task t) (\<lambda>_.
       Inr (if max_bytes q < raw_size_bytes t then (q, False)
            else if message_id t \<in> reserved_message_ids q then (q, False)
            else if \<not> has_capacity q t then (q, False)
            else (put_nowait (Some t)
                    (q\<lparr>reserved_message_ids := insert (message_id t) (reserved_message_ids q),
                       reserved_messages := reserved_messages q + 1,
                       reserved_bytes := reserved_bytes q + raw_size_bytes t\<rparr>), True)))"

text \<open>
  One turn of the loop in \<open>enqueue\<close>: it returns true or false, goes around again, or
  suspends on the event it has just cleared.
\<close>

datatype enqueue_outcome = Enqueued | Duplicate | Again | Suspended

definition enqueue_turn ::
  "parse_queue \<Rightarrow> parse_task \<Rightarrow> (parse_queue \<times> enqueue_outcome) result" where
  "enqueue_turn q t =
     (if message_id t \<in> reserved_message_ids q then Inr (q, Duplicate)
      else bindR (try_enqueue q t) (\<lambda>(q1, ok).
        if ok then Inr (q1, Enqueued)
        else
          let q2 = q1\<lparr>capacity_changed := False\<rparr> in
          if message_id t \<in> reserved_message_ids q2 then Inr (q2, Duplicate)
          else if has_capacity q2 t then Inr (q2, Again)
          else Inr (q2\<lparr>capacity_waiters := capacity_waiters q2 @ [t]\<rparr>, Suspended)))"

definition enqueue :: "parse_queue \<Rightarrow> parse_task \<Rightarrow> (parse_queue \<times> enqueue_outcome) result" where
  "enqueue q t =
     bindR (validate_task t) (\<lambda>_.
       if max_bytes q < raw_size_bytes t then
         Inl (ValueError ''parse task exceeds queue byte budget'')
       else enqueue_turn q t)"

text \<open>The loop of \<open>remove_pending\<close>; the tasks it keeps are put back in order at the end.\<close>

fun remove_loop ::
  "(parse_task \<Rightarrow> bool) \<Rightarrow> parse_task option list \<Rightarrow> parse_task option list \<Rightarrow> nat
     \<Rightarrow> parse_queue \<Rightarrow> (parse_queue \<times> nat) result" where
  "remove_loop p [] retained cleared q = Inr (fold put_nowait retained q, cleared)"
| "remove_loop p (it # its) retained cleared q =
     (let q0 = q\<lparr>q_items := its\<rparr> in
      case it of
        Some t \<Rightarrow>
          if p t then
            bindR (release q0 t) (\<lambda>q1. bindR (task_done q1) (\<lambda>q2.
              remove_loop p its retained (cleared + 1) q2))
          else bindR (task_done q0) (\<lambda>q2. remove_loop p its (retained @ [it]) cleared q2)
      | None \<Rightarrow> bindR (task_done q0) (\<lambda>q2. remove_loop p its (retained @ [it]) cleared q2))"

definition remove_pending ::
  "(parse_task \<Rightarrow> bool) \<Rightarrow> parse_queue \<Rightarrow> (parse_queue \<times> nat) result" where
  "remove_pending p q = remove_loop p (q_items q) [] 0 q"

definition clear_pending :: "parse_queue \<Rightarrow> (parse_queue \<times> nat) result" where
  "clear_pending q = remove_pending (\<lambda>_. True) q"

fun discard_loop :: "parse_task option list \<Rightarrow> parse_queue \<Rightarrow> parse_queue result" where
  "discard_loop [] q = Inr q"
| "discard_loop (it # its) q =
     (let q0 = q\<lparr>q_items := its\<rparr> in
      bindR (case it of Some t \<Rightarrow> release q0 t | None \<Rightarrow> Inr q0) (\<lambda>q1.
        bindR (task_done q1) (\<lambda>q2. discard_loop its q2)))"

definition discard_queue_contents :: "parse_queue \<Rightarrow> parse_queue result" where
  "discard_queue_contents q = discard_loop (q_items q) q"

definition start :: "parse_queue \<Rightarrow> parse_queue" where
  "start q = (if workers q = [] then q\<lparr>workers := replicate (worker_count q) Waiting\<rparr> else q)"

text \<open>
  \<open>stop\<close> up to its \<open>await\<close>, and the \<open>finally\<close> block it reaches once every worker has ended;
  a timeout or a cancellation in between is a \<open>worker_cancel\<close> of each worker.
\<close>

definition stop_begin :: "bool \<Rightarrow> parse_queue \<Rightarrow> parse_queue result" where
  "stop_begin discard q =
     (if workers q = [] then discard_queue_contents q
      else bindR (if discard then bindR (clear_pending q) (\<lambda>(q1, _). Inr q1) else Inr q) (\<lambda>q1.
        Inr (fold (\<lambda>_ q'. put_nowait None q') (workers q) q1)))"

definition stop_finish :: "parse_queue \<Rightarrow> parse_queue result" where
  "stop_finish q =
     (if list_all (\<lambda>w. w = Done) (workers q) then discard_queue_contents (q\<lparr>workers := []\<rparr>)
      else Inr q)"

text \<open>
  The worker coroutine \<open>_run\<close>: it takes an item; the end of a task (normal or by a caught
  exception) runs the \<open>finally\<close> block and waits again; a cancellation runs the same block
  and ends the worker.
\<close>

definition worker_get :: "nat \<Rightarrow> parse_queue \<Rightarrow> parse_queue result" where
  "worker_get i q =
     (case q_items q of
        [] \<Rightarrow> Inr q
      | None # its \<Rightarrow> task_done (q\<lparr>q_items := its, workers := (workers q)[i := Done]\<rparr>)
      | Some t # its \<Rightarrow>
          Inr (q\<lparr>q_items := its, workers := (workers q)[i := Working t],
                 active_message_ids := insert (message_id t) (active_message_ids q)\<rparr>))"

definition finally_block :: "parse_task \<Rightarrow> parse_queue \<Rightarrow> parse_queue result" where
  "finally_block t q =
     bindR (release (q\<lparr>active_message_ids := active_message_ids q - {message_id t},
                       active_changed := True\<rparr>) t) task_done"

definition worker_end :: "worker_state \<Rightarrow> nat \<Rightarrow> parse_queue \<Rightarrow> parse_queue result" where
  "worker_end next_state i q =
     (case workers q ! i of
        Working t \<Rightarrow> finally_block t (q\<lparr>workers := (workers q)[i := next_state]\<rparr>)
      | _ \<Rightarrow> Inr (q\<lparr>workers := (workers q)[i := next_state]\<rparr>))"

text \<open>\<open>wait_until_not_active\<close> returns, or clears its event and suspends.\<close>

definition wait_until_not_active :: "(string \<Rightarrow> bool) \<Rightarrow> parse_queue \<Rightarrow> parse_queue \<times> bool" where
  "wait_until_not_active p q =
     (if \<exists>i \<in> active_message_ids q. p i then (q\<lparr>active_changed := False\<rparr>, False) else (q, True))"

definition queued_messages :: "parse_queue \<Rightarrow> int" where
  "queued_messages q = max (reserved_messages q - int (card (active_message_ids q))) 0"

definition contains :: "parse_queue \<Rightarrow> string \<Rightarrow> bool" where
  "contains q i \<longleftrightarrow> i \<in> reserved_message_ids q"

section \<open>Interleavings\<close>

datatype pq_event =
    TryEnqueue parse_task
  | EnqueueCall parse_task
  | EnqueueRetry parse_task
  | RemovePending "parse_task \<Rightarrow> bool"
  | WaitNotActive "string \<Rightarrow> bool"
  | Start
  | StopBegin bool
  | StopFinish
  | WorkerGet nat
  | WorkerDone nat
  | WorkerCancel nat

fun pq_enabled :: "pq_event \<Rightarrow> parse_queue \<Rightarrow> bool" where
  "pq_enabled (EnqueueRetry t) q = (t \<in> set (capacity_woken q))"
| "pq_enabled (WorkerGet i) q = (i < length (workers q) \<and> workers q ! i = Waiting \<and> q_items q \<noteq> [])"
| "pq_enabled (WorkerDone i) q = (i < length (workers q) \<and> (\<exists>t. workers q ! i = Working t))"
| "pq_enabled (WorkerCancel i) q = (i < length (workers q) \<and> workers q ! i \<noteq> Done)"
| "pq_enabled _ q = True"

fun pq_run :: "pq_event \<Rightarrow> parse_queue \<Rightarrow> parse_queue result" where
  "pq_run (TryEnqueue t) q = bindR (try_enqueue q t) (\<lambda>(q', _). Inr q')"
| "pq_run (EnqueueCall t) q = bindR (enqueue q t) (\<lambda>(q', _). Inr q')"
| "pq_run (EnqueueRetry t) q =
     bindR (enqueue_turn (q\<lparr>capacity_woken := remove1 t (capacity_woken q)\<rparr>) t) (\<lambda>(q', _). Inr q')"
| "pq_run (RemovePending p) q = bindR (remove_pending p q) (\<lambda>(q', _). Inr q')"
| "pq_run (WaitNotActive p) q = Inr (fst (wait_until_not_active p q))"
| "pq_run Start q = Inr (start q)"
| "pq_run (StopBegin d) q = stop_begin d q"
| "pq_run StopFinish q = stop_finish q"
| "pq_run (WorkerGet i) q = worker_get i q"
| "pq_run (WorkerDone i) q = worker_end Waiting i q"
| "pq_run (WorkerCancel i) q = worker_end Done i q"

inductive pq_step :: "parse_queue \<Rightarrow> parse_queue \<Rightarrow> bool" where
  pq_event: "pq_enabled e q \<Longrightarrow> pq_run e q = Inr q' \<Longrightarrow> pq_step q q'"

inductive pq_reachable :: "parse_queue \<Rightarrow> bool" where
  pq_init: "parse_queue_init wc mm mb = Inr q \<Longrightarrow> pq_reachable q"
| pq_next: "pq_reachable q \<Longrightarrow> pq_step q q' \<Longrightarrow> pq_reachable q'"

section \<open>The reservation invariant\<close>

text \<open>The tasks the queue holds: queued ones and the ones workers run.\<close>

definition queued_tasks :: "parse_task option list \<Rightarrow> parse_task multiset" where
  "queued_tasks its = mset (List.map_filter id its)"

definition worker_task :: "worker_state \<Rightarrow> parse_task multiset" where
  "worker_task w = (case w of Working t \<Rightarrow> {#t#} | _ \<Rightarrow> {#})"

definition running_tasks :: "worker_state list \<Rightarrow> parse_task multiset" where
  "running_tasks ws = sum_list (map worker_task ws)"

definition held :: "parse_queue \<Rightarrow> parse_task multiset" where
  "held q = queued_tasks (q_items q) + running_tasks (workers q)"

definition ids :: "parse_task multiset \<Rightarrow> string multiset" where
  "ids A = image_mset message_id A"

definition pq_accounts :: "parse_queue \<Rightarrow> parse_task multiset \<Rightarrow> bool" where
  "pq_accounts q A \<longleftrightarrow>
     (\<forall>i. count (ids A) i \<le> 1) \<and> reserved_message_ids q = set_mset (ids A)
     \<and> reserved_messages q = int (size A)
     \<and> reserved_bytes q = sum_mset (image_mset raw_size_bytes A)
     \<and> (\<forall>t \<in># A. 0 \<le> raw_size_bytes t)
     \<and> reserved_messages q \<le> max_messages q \<and> reserved_bytes q \<le> max_bytes q
     \<and> (\<forall>t \<in> set (capacity_waiters q). \<not> has_capacity q t)
     \<and> (\<forall>t \<in> set (capacity_waiters q) \<union> set (capacity_woken q).
          validate_task t = Inr () \<and> raw_size_bytes t \<le> max_bytes q)"

definition pq_inv :: "parse_queue \<Rightarrow> bool" where
  "pq_inv q \<longleftrightarrow>
     pq_accounts q (held q)
     \<and> active_message_ids q = set_mset (ids (running_tasks (workers q)))
     \<and> unfinished q = int (length (q_items q)) + int (size (running_tasks (workers q)))"

lemma queued_tasks_simps [simp]:
  "queued_tasks [] = {#}"
  "queued_tasks (None # its) = queued_tasks its"
  "queued_tasks (Some t # its) = add_mset t (queued_tasks its)"
  "queued_tasks (its @ its') = queued_tasks its + queued_tasks its'"
  by (simp_all add: queued_tasks_def map_filter_def)

lemma running_tasks_simps [simp]:
  "running_tasks [] = {#}"
  "running_tasks (w # ws) = worker_task w + running_tasks ws"
  by (simp_all add: running_tasks_def)

lemma worker_task_simps [simp]:
  "worker_task Waiting = {#}" "worker_task Done = {#}" "worker_task (Working t) = {#t#}"
  by (simp_all add: worker_task_def)

lemma running_tasks_update:
  "i < length ws \<Longrightarrow>
     running_tasks (ws[i := w]) + worker_task (ws ! i) = running_tasks ws + worker_task w"
proof (induction ws arbitrary: i)
  case (Cons v ws)
  then show ?case by (cases i) (auto simp: ac_simps)
qed simp

lemma running_tasks_replicate [simp]: "running_tasks (replicate n Waiting) = {#}"
  by (induction n) auto

lemma running_tasks_done: "list_all (\<lambda>w. w = Done) ws \<Longrightarrow> running_tasks ws = {#}"
  by (induction ws) auto

lemma ids_simps [simp]:
  "ids {#} = {#}" "ids (A + B) = ids A + ids B" "ids (add_mset t A) = add_mset (message_id t) (ids A)"
  by (simp_all add: ids_def)

lemma pq_accounts_cong:
  assumes "pq_accounts q A"
    and "reserved_message_ids q' = reserved_message_ids q" "reserved_messages q' = reserved_messages q"
    "reserved_bytes q' = reserved_bytes q" "max_messages q' = max_messages q"
    "max_bytes q' = max_bytes q" "capacity_waiters q' = capacity_waiters q"
    "set (capacity_woken q') \<subseteq> set (capacity_woken q)"
  shows "pq_accounts q' A"
  using assms by (auto simp: pq_accounts_def has_capacity_def)

lemma release_ok:
  assumes "pq_accounts q (add_mset t A)"
  obtains q' where "release q t = Inr q'" "pq_accounts q' A"
    "q' = set_capacity_changed (q\<lparr>reserved_message_ids := reserved_message_ids q - {message_id t},
            reserved_messages := reserved_messages q - 1,
            reserved_bytes := reserved_bytes q - raw_size_bytes t\<rparr>)"
proof -
  let ?q1 = "q\<lparr>reserved_message_ids := reserved_message_ids q - {message_id t},
      reserved_messages := reserved_messages q - 1,
      reserved_bytes := reserved_bytes q - raw_size_bytes t\<rparr>"
  from assms have acc: "\<forall>i. count (add_mset (message_id t) (ids A)) i \<le> 1"
      "reserved_message_ids q = insert (message_id t) (set_mset (ids A))"
      "reserved_messages q = 1 + int (size A)"
      "reserved_bytes q = raw_size_bytes t + sum_mset (image_mset raw_size_bytes A)"
      "\<forall>s \<in># A. 0 \<le> raw_size_bytes s" "0 \<le> raw_size_bytes t"
      "reserved_messages q \<le> max_messages q" "reserved_bytes q \<le> max_bytes q"
      "\<forall>s \<in> set (capacity_waiters q) \<union> set (capacity_woken q).
         validate_task s = Inr () \<and> raw_size_bytes s \<le> max_bytes q"
    by (auto simp: pq_accounts_def)
  have fresh: "message_id t \<notin># ids A" using acc(1) [rule_format, of "message_id t"]
    by (simp add: count_eq_zero_iff)
  have nn: "0 \<le> sum_mset (image_mset raw_size_bytes A)"
    using acc(5) by (induction A) auto
  have one: "count (ids A) i \<le> 1" for i
    using acc(1) [rule_format, of i] by (simp split: if_splits)
  have "release q t = Inr (set_capacity_changed ?q1)"
    using acc(2-4) nn by (simp add: release_def)
  moreover have "pq_accounts (set_capacity_changed ?q1) A"
    using acc fresh one by (auto simp: pq_accounts_def set_capacity_changed_def)
  ultimately show ?thesis using that by blast
qed

lemma fold_put_nowait:
  "fold put_nowait its q =
     q\<lparr>q_items := q_items q @ its, unfinished := unfinished q + int (length its)\<rparr>"
  by (induction its arbitrary: q) (simp_all add: put_nowait_def)

lemma fold_put_stop:
  "fold (\<lambda>_. put_nowait None) ws q =
     q\<lparr>q_items := q_items q @ replicate (length ws) None,
       unfinished := unfinished q + int (length ws)\<rparr>"
  by (induction ws arbitrary: q) (simp_all add: put_nowait_def replicate_append_same)

lemma queued_tasks_stop [simp]: "queued_tasks (replicate n None) = {#}"
  by (induction n) auto

definition kept :: "(parse_task \<Rightarrow> bool) \<Rightarrow> parse_task option \<Rightarrow> bool" where
  "kept p it \<longleftrightarrow> (case it of Some t \<Rightarrow> \<not> p t | None \<Rightarrow> True)"

lemma remove_loop_ok:
  assumes "pq_accounts q (queued_tasks its + (queued_tasks retained + R))"
    and "unfinished q = int (length its) + m" "0 \<le> m" "q_items q = its"
  shows "\<exists>q'. remove_loop p its retained cleared q =
               Inr (q', cleared + length (filter (\<lambda>it. \<not> kept p it) its))
             \<and> pq_accounts q' (queued_tasks (q_items q') + R)
             \<and> q_items q' = retained @ filter (kept p) its
             \<and> unfinished q' = int (length (q_items q')) + m
             \<and> workers q' = workers q \<and> active_message_ids q' = active_message_ids q"
  using assms
proof (induction its arbitrary: retained cleared q)
  case Nil
  then show ?case
    by (auto simp: fold_put_nowait intro: pq_accounts_cong)
next
  case (Cons it its)
  let ?q0 = "q\<lparr>q_items := its\<rparr>"
  have acc0: "pq_accounts ?q0 (queued_tasks (it # its) + (queued_tasks retained + R))"
    by (rule pq_accounts_cong [OF Cons.prems(1)]) auto
  show ?case
  proof (cases "kept p it")
    case True
    let ?q2 = "?q0\<lparr>unfinished := unfinished q - 1\<rparr>"
    have eq: "queued_tasks (it # its) + (queued_tasks retained + R) =
        queued_tasks its + (queued_tasks (retained @ [it]) + R)"
      by (cases it) (auto simp: ac_simps)
    have "pq_accounts ?q2 (queued_tasks its + (queued_tasks (retained @ [it]) + R))"
      by (rule pq_accounts_cong [OF acc0 [unfolded eq]]) auto
    from Cons.IH [OF this, of cleared] Cons.prems True show ?thesis
      by (cases it) (auto simp: kept_def task_done_def)
  next
    case False
    then obtain t where it: "it = Some t" and pt: "p t" by (auto simp: kept_def split: option.splits)
    from acc0 it have "pq_accounts ?q0 (add_mset t (queued_tasks its + (queued_tasks retained + R)))"
      by simp
    then obtain q1 where q1: "release ?q0 t = Inr q1"
        "pq_accounts q1 (queued_tasks its + (queued_tasks retained + R))"
        "q1 = set_capacity_changed (?q0\<lparr>reserved_message_ids := reserved_message_ids ?q0 - {message_id t},
            reserved_messages := reserved_messages ?q0 - 1,
            reserved_bytes := reserved_bytes ?q0 - raw_size_bytes t\<rparr>)"
      by (rule release_ok)
    let ?q2 = "q1\<lparr>unfinished := unfinished q1 - 1\<rparr>"
    have "pq_accounts ?q2 (queued_tasks its + (queued_tasks retained + R))"
      by (rule pq_accounts_cong [OF q1(2)]) auto
    from Cons.IH [OF this, of "Suc cleared"] Cons.prems it pt q1(1,3) show ?thesis
      by (auto simp: kept_def task_done_def set_capacity_changed_def)
  qed
qed

lemma discard_loop_ok:
  assumes "pq_accounts q (queued_tasks its + R)"
    and "unfinished q = int (length its) + m" "0 \<le> m" "q_items q = its"
  shows "\<exists>q'. discard_loop its q = Inr q' \<and> pq_accounts q' R \<and> q_items q' = []
             \<and> unfinished q' = m
             \<and> workers q' = workers q \<and> active_message_ids q' = active_message_ids q"
  using assms
proof (induction its arbitrary: q)
  case (Cons it its)
  let ?q0 = "q\<lparr>q_items := its\<rparr>"
  have acc0: "pq_accounts ?q0 (queued_tasks (it # its) + R)"
    by (rule pq_accounts_cong [OF Cons.prems(1)]) auto
  show ?case
  proof (cases it)
    case None
    let ?q2 = "?q0\<lparr>unfinished := unfinished q - 1\<rparr>"
    have "pq_accounts ?q2 (queued_tasks its + R)"
      using acc0 None by (auto intro: pq_accounts_cong)
    from Cons.IH [OF this] Cons.prems None show ?thesis by (auto simp: task_done_def)
  next
    case (Some t)
    with acc0 have "pq_accounts ?q0 (add_mset t (queued_tasks its + R))" by simp
    then obtain q1 where q1: "release ?q0 t = Inr q1" "pq_accounts q1 (queued_tasks its + R)"
        "q1 = set_capacity_changed (?q0\<lparr>reserved_message_ids := reserved_message_ids ?q0 - {message_id t},
            reserved_messages := reserved_messages ?q0 - 1,
            reserved_bytes := reserved_bytes ?q0 - raw_size_bytes t\<rparr>)"
      by (rule release_ok)
    let ?q2 = "q1\<lparr>unfinished := unfinished q1 - 1\<rparr>"
    have "pq_accounts ?q2 (queued_tasks its + R)"
      by (rule pq_accounts_cong [OF q1(2)]) auto
    from Cons.IH [OF this] Cons.prems Some q1(1,3) show ?thesis
      by (auto simp: task_done_def set_capacity_changed_def)
  qed
qed simp

section \<open>Every operation keeps the invariant\<close>

lemma remove_pending_ok:
  assumes "pq_inv q"
  shows "\<exists>q'. remove_pending p q = Inr (q', length (filter (\<lambda>it. \<not> kept p it) (q_items q)))
             \<and> pq_inv q' \<and> q_items q' = filter (kept p) (q_items q) \<and> workers q' = workers q"
proof -
  from assms have "pq_accounts q (queued_tasks (q_items q) + (queued_tasks [] + running_tasks (workers q)))"
    by (simp add: pq_inv_def held_def)
  from remove_loop_ok [OF this, of "int (size (running_tasks (workers q)))" p 0] assms
  show ?thesis by (auto simp: remove_pending_def pq_inv_def held_def)
qed

lemma discard_queue_contents_ok:
  assumes "pq_inv q"
  shows "\<exists>q'. discard_queue_contents q = Inr q' \<and> pq_inv q' \<and> q_items q' = []
             \<and> workers q' = workers q"
proof -
  from assms have "pq_accounts q (queued_tasks (q_items q) + running_tasks (workers q))"
    by (simp add: pq_inv_def held_def)
  from discard_loop_ok [OF this, of "int (size (running_tasks (workers q)))"] assms
  show ?thesis by (auto simp: discard_queue_contents_def pq_inv_def held_def)
qed

lemma try_enqueue_cases:
  assumes "validate_task t = Inr ()"
  shows "try_enqueue q t =
           Inr (if raw_size_bytes t \<le> max_bytes q \<and> message_id t \<notin> reserved_message_ids q
                   \<and> has_capacity q t
                then (put_nowait (Some t)
                    (q\<lparr>reserved_message_ids := insert (message_id t) (reserved_message_ids q),
                       reserved_messages := reserved_messages q + 1,
                       reserved_bytes := reserved_bytes q + raw_size_bytes t\<rparr>), True)
                else (q, False))"
  using assms by (simp add: try_enqueue_def)

lemma validate_task_ok: "validate_task t = Inr () \<longleftrightarrow> message_id t \<noteq> [] \<and> 0 \<le> raw_size_bytes t"
  by (auto simp: validate_task_def)

lemma try_enqueue_inv:
  assumes "pq_inv q" and "try_enqueue q t = Inr (q', b)"
  shows "pq_inv q'"
proof -
  from assms(2) have v: "validate_task t = Inr ()" by (auto simp: try_enqueue_def bindR_Inr_iff)
  show ?thesis
  proof (cases b)
    case False
    with assms v show ?thesis by (auto simp: try_enqueue_cases split: if_splits)
  next
    case True
    let ?q = "put_nowait (Some t)
          (q\<lparr>reserved_message_ids := insert (message_id t) (reserved_message_ids q),
             reserved_messages := reserved_messages q + 1,
             reserved_bytes := reserved_bytes q + raw_size_bytes t\<rparr>)"
    from True assms(2) v have q': "q' = ?q" and new: "message_id t \<notin> reserved_message_ids q"
        and cap: "has_capacity q t"
      by (auto simp: try_enqueue_cases split: if_splits)
    from assms(1) have acc: "pq_accounts q (held q)" by (simp add: pq_inv_def)
    have "pq_accounts ?q (add_mset t (held q))"
      using acc new cap v
      by (auto simp: pq_accounts_def has_capacity_def put_nowait_def validate_task_ok
          count_eq_zero_iff [symmetric])
    moreover have "held ?q = add_mset t (held q)" by (simp add: held_def put_nowait_def)
    ultimately show ?thesis using assms(1) q' by (simp add: pq_inv_def put_nowait_def)
  qed
qed

lemma enqueue_turn_ok:
  assumes "pq_inv q" and "validate_task t = Inr ()" and "raw_size_bytes t \<le> max_bytes q"
  shows "\<exists>q' r. enqueue_turn q t = Inr (q', r) \<and> pq_inv q' \<and> r \<noteq> Again
               \<and> (r = Enqueued \<longrightarrow> message_id t \<in> reserved_message_ids q')"
proof (cases "message_id t \<in> reserved_message_ids q")
  case True
  with assms(1) show ?thesis by (auto simp: enqueue_turn_def)
next
  case new: False
  show ?thesis
  proof (cases "has_capacity q t")
    case True
    with new assms obtain q' where q': "try_enqueue q t = Inr (q', True)"
      by (simp add: try_enqueue_cases)
    moreover have "pq_inv q'" using assms(1) q' by (rule try_enqueue_inv)
    ultimately show ?thesis
      using new True assms by (auto simp: enqueue_turn_def try_enqueue_cases put_nowait_def)
  next
    case False
    let ?q = "q\<lparr>capacity_changed := False, capacity_waiters := capacity_waiters q @ [t]\<rparr>"
    have "pq_accounts ?q (held q)"
      using assms False by (auto simp: pq_inv_def pq_accounts_def has_capacity_def)
    then have "pq_inv ?q" using assms(1) by (simp add: pq_inv_def held_def)
    moreover have "enqueue_turn q t = Inr (?q, Suspended)"
      using new False assms(2) by (simp add: enqueue_turn_def try_enqueue_cases has_capacity_def Let_def)
    ultimately show ?thesis by blast
  qed
qed

lemma worker_get_ok:
  assumes "pq_inv q" and "i < length (workers q)" and "workers q ! i = Waiting"
  shows "\<exists>q'. worker_get i q = Inr q' \<and> pq_inv q'"
proof (cases "q_items q")
  case Nil
  with assms show ?thesis by (simp add: worker_get_def)
next
  case (Cons it its)
  note run = running_tasks_update [OF assms(2)]
  show ?thesis
  proof (cases it)
    case None
    let ?q = "q\<lparr>q_items := its, workers := (workers q)[i := Done],
               unfinished := unfinished q - 1\<rparr>"
    have r: "running_tasks (workers ?q) = running_tasks (workers q)"
      using run [of Done] assms(3) by simp
    then have h: "held ?q = held q" by (simp add: held_def Cons None)
    have "pq_accounts ?q (held q)"
      using assms(1) by (auto simp: pq_inv_def intro: pq_accounts_cong)
    then have "pq_inv ?q" using assms(1) Cons None r h by (simp add: pq_inv_def)
    moreover have "worker_get i q = Inr ?q"
      using assms(1) Cons None by (simp add: worker_get_def task_done_def pq_inv_def)
    ultimately show ?thesis by blast
  next
    case (Some t)
    let ?q = "q\<lparr>q_items := its, workers := (workers q)[i := Working t],
               active_message_ids := insert (message_id t) (active_message_ids q)\<rparr>"
    have r: "running_tasks (workers ?q) = add_mset t (running_tasks (workers q))"
      using run [of "Working t"] assms(3) by simp
    then have h: "held ?q = held q" by (simp add: held_def Cons Some)
    have "pq_accounts ?q (held q)"
      using assms(1) by (auto simp: pq_inv_def intro: pq_accounts_cong)
    then have "pq_inv ?q" using assms(1) Cons Some r h by (simp add: pq_inv_def)
    then show ?thesis using Cons Some by (simp add: worker_get_def)
  qed
qed

lemma worker_end_ok:
  assumes "pq_inv q" and "i < length (workers q)" and "worker_task w = {#}"
  shows "\<exists>q'. worker_end w i q = Inr q' \<and> pq_inv q'"
proof (cases "workers q ! i")
  case (Working t)
  let ?ws = "(workers q)[i := w]"
  let ?R = "running_tasks ?ws"
  from running_tasks_update [OF assms(2), of w] assms(3) Working
  have r: "running_tasks (workers q) = add_mset t ?R" by simp
  let ?q1 = "q\<lparr>workers := ?ws, active_message_ids := active_message_ids q - {message_id t},
             active_changed := True\<rparr>"
  from assms(1) have "pq_accounts q (add_mset t (queued_tasks (q_items q) + ?R))"
    by (simp add: pq_inv_def held_def r)
  then have "pq_accounts ?q1 (add_mset t (queued_tasks (q_items q) + ?R))"
    by (rule pq_accounts_cong) auto
  then obtain q2 where q2: "release ?q1 t = Inr q2" "pq_accounts q2 (queued_tasks (q_items q) + ?R)"
      "q2 = set_capacity_changed (?q1\<lparr>reserved_message_ids := reserved_message_ids ?q1 - {message_id t},
            reserved_messages := reserved_messages ?q1 - 1,
            reserved_bytes := reserved_bytes ?q1 - raw_size_bytes t\<rparr>)"
    by (rule release_ok)
  let ?q3 = "q2\<lparr>unfinished := unfinished q2 - 1\<rparr>"
  have frame: "q_items q2 = q_items q" "workers q2 = ?ws" "unfinished q2 = unfinished q"
      "active_message_ids q2 = active_message_ids q - {message_id t}"
    using q2(3) by (simp_all add: set_capacity_changed_def)
  have "count (ids (running_tasks (workers q))) i \<le> 1" for i
    using assms(1) by (auto simp: pq_inv_def pq_accounts_def held_def intro: le_trans [OF le_add2])
  then have "message_id t \<notin># ids ?R"
    by (metis One_nat_def Suc_le_mono count_add_mset count_eq_zero_iff ids_simps(3) le_zero_eq r)
  then have "pq_inv ?q3"
    using assms(1) q2(2) frame r
    by (auto simp: pq_inv_def held_def intro: pq_accounts_cong)
  moreover have "worker_end w i q = Inr ?q3"
    using q2(1) frame assms(1) Working r
    by (simp add: worker_end_def finally_block_def task_done_def pq_inv_def)
  ultimately show ?thesis by blast
qed (use assms running_tasks_update [OF assms(2), of w] in
    \<open>auto simp: worker_end_def pq_inv_def held_def intro: pq_accounts_cong\<close>)

lemma stop_begin_ok:
  assumes "pq_inv q"
  shows "\<exists>q'. stop_begin d q = Inr q' \<and> pq_inv q'"
proof (cases "workers q = []")
  case True
  with discard_queue_contents_ok [OF assms] show ?thesis by (auto simp: stop_begin_def)
next
  case False
  obtain q1 where q1: "(if d then bindR (clear_pending q) (\<lambda>(q1, _). Inr q1) else Inr q) = Inr q1"
      "pq_inv q1"
    using assms remove_pending_ok [OF assms, of "\<lambda>_. True"]
    by (cases d) (auto simp: clear_pending_def)
  let ?q2 = "fold (\<lambda>_ q'. put_nowait None q') (workers q) q1"
  have "pq_accounts ?q2 (held q1)"
    using q1(2) by (auto simp: fold_put_stop pq_inv_def intro: pq_accounts_cong)
  then have "pq_inv ?q2"
    using q1(2) by (simp add: fold_put_stop pq_inv_def held_def)
  then show ?thesis using False q1(1) by (simp add: stop_begin_def)
qed

lemma stop_finish_ok:
  assumes "pq_inv q"
  shows "\<exists>q'. stop_finish q = Inr q' \<and> pq_inv q'
             \<and> (list_all (\<lambda>w. w = Done) (workers q) \<longrightarrow> workers q' = [] \<and> q_items q' = [])"
proof (cases "list_all (\<lambda>w. w = Done) (workers q)")
  case True
  let ?q = "q\<lparr>workers := []\<rparr>"
  have "pq_accounts ?q (held q)" using assms by (auto simp: pq_inv_def intro: pq_accounts_cong)
  then have "pq_inv ?q"
    using assms running_tasks_done [OF True] by (simp add: pq_inv_def held_def)
  from discard_queue_contents_ok [OF this] True show ?thesis by (auto simp: stop_finish_def)
qed (use assms in \<open>auto simp: stop_finish_def\<close>)

text \<open>The only exceptions are those about the caller's task.\<close>

fun bad_task :: "pq_event \<Rightarrow> parse_queue \<Rightarrow> bool" where
  "bad_task (TryEnqueue t) q = (validate_task t \<noteq> Inr ())"
| "bad_task (EnqueueCall t) q = (validate_task t \<noteq> Inr () \<or> max_bytes q < raw_size_bytes t)"
| "bad_task _ q = False"

lemma pq_run_ok:
  assumes "pq_inv q" and "pq_enabled e q" and "\<not> bad_task e q"
  shows "\<exists>q'. pq_run e q = Inr q' \<and> pq_inv q'"
proof (cases e)
  case (TryEnqueue t)
  with assms obtain q' b where "try_enqueue q t = Inr (q', b)"
    by (cases "try_enqueue q t") (auto simp: try_enqueue_def bindR_Inl_iff)
  with TryEnqueue try_enqueue_inv [OF assms(1)] show ?thesis by auto
next
  case (EnqueueCall t)
  with assms enqueue_turn_ok [OF assms(1), of t] show ?thesis
    by (auto simp: enqueue_def not_less)
next
  case (EnqueueRetry t)
  let ?q = "q\<lparr>capacity_woken := remove1 t (capacity_woken q)\<rparr>"
  have "pq_accounts ?q (held q)"
    by (rule pq_accounts_cong [of q]) (use assms in \<open>auto simp: pq_inv_def dest: set_remove1_subset [THEN subsetD]\<close>)
  then have "pq_inv ?q" using assms(1) by (simp add: pq_inv_def held_def)
  moreover have "validate_task t = Inr ()" "raw_size_bytes t \<le> max_bytes ?q"
    using assms EnqueueRetry by (auto simp: pq_inv_def pq_accounts_def)
  ultimately show ?thesis using enqueue_turn_ok [of ?q t] EnqueueRetry by auto
next
  case (RemovePending p)
  with remove_pending_ok [OF assms(1), of p] show ?thesis by auto
next
  case (WaitNotActive p)
  with assms(1) show ?thesis
    by (auto simp: wait_until_not_active_def pq_inv_def held_def intro: pq_accounts_cong)
next
  case Start
  have "pq_inv (start q)"
    using assms(1) by (auto simp: start_def pq_inv_def held_def intro: pq_accounts_cong)
  with Start show ?thesis by simp
next
  case (StopBegin d)
  with stop_begin_ok [OF assms(1), of d] show ?thesis by simp
next
  case StopFinish
  with stop_finish_ok [OF assms(1)] show ?thesis by auto
next
  case (WorkerGet i)
  with assms worker_get_ok show ?thesis by simp
next
  case (WorkerDone i)
  with assms worker_end_ok [of q i Waiting] show ?thesis by simp
next
  case (WorkerCancel i)
  with assms worker_end_ok [of q i Done] show ?thesis by simp
qed

lemma bad_task_raises: "bad_task e q \<Longrightarrow> \<exists>s. pq_run e q = Inl (ValueError s)"
  by (cases e)
    (auto simp: try_enqueue_def enqueue_def bindR_Inl_iff validate_task_def split: if_splits)

lemma pq_reachable_inv: "pq_reachable q \<Longrightarrow> pq_inv q"
proof (induction rule: pq_reachable.induct)
  case (pq_init wc mm mb q)
  then show ?case
    by (auto simp: parse_queue_init_def pq_inv_def held_def pq_accounts_def split: if_splits)
next
  case (pq_next q q')
  from pq_next(2) obtain e where e: "pq_enabled e q" "pq_run e q = Inr q'"
    by (auto elim: pq_step.cases)
  with bad_task_raises [of e q] have "\<not> bad_task e q" by auto
  with pq_run_ok [OF pq_next.IH e(1)] e(2) show ?case by auto
qed

section \<open>Properties\<close>

text \<open>
  C2: in every reachable state of the parse queue, whatever the interleaving of producers,
  workers, cancellations and stops, the reservation counters are exact: they count the tasks
  that are queued or running, no message id is held twice, and neither the message budget nor
  the byte budget is exceeded.
\<close>

theorem parse_queue_budgets:
  assumes "pq_reachable q"
  shows "reserved_messages q = int (size (held q)) \<and> reserved_messages q \<le> max_messages q
         \<and> reserved_bytes q = sum_mset (image_mset raw_size_bytes (held q))
         \<and> reserved_bytes q \<le> max_bytes q
         \<and> (\<forall>i. count (ids (held q)) i = (if contains q i then 1 else 0))
         \<and> active_message_ids q = set_mset (ids (running_tasks (workers q)))"
proof -
  from pq_reachable_inv [OF assms] have inv: "pq_accounts q (held q)" and
    "active_message_ids q = set_mset (ids (running_tasks (workers q)))"
    by (simp_all add: pq_inv_def)
  moreover have "count (ids (held q)) i = (if contains q i then 1 else 0)" for i
    using inv le_antisym [of "count (ids (held q)) i" 1]
    by (auto simp: pq_accounts_def contains_def count_eq_zero_iff Suc_le_eq)
  ultimately show ?thesis by (auto simp: pq_accounts_def)
qed

text \<open>
  in every reachable state every enabled operation of the parse queue succeeds, except
  that a caller's own invalid or oversized task is refused with a \<open>ValueError\<close>; the internal
  errors for a missing reservation, a counter underflow or a surplus \<open>task_done\<close> never occur.
\<close>

theorem parse_queue_never_fails:
  assumes "pq_reachable q" and "pq_enabled e q"
  shows "if bad_task e q then \<exists>s. pq_run e q = Inl (ValueError s)
         else \<exists>q'. pq_run e q = Inr q' \<and> pq_reachable q'"
  using pq_run_ok [OF pq_reachable_inv [OF assms(1)] assms(2)] bad_task_raises [of e q] assms
  by (auto intro: pq_next pq_event)

text \<open>
  no wake-up of the parse queue is lost: in every reachable state no suspended
  \<open>enqueue\<close> call waits for a task the queue has room for, and retrying a woken call either
  enqueues the task, finds it is a duplicate or suspends again with no room.
\<close>

theorem parse_queue_no_lost_wakeup:
  assumes "pq_reachable q"
  shows "(\<forall>t \<in> set (capacity_waiters q). \<not> has_capacity q t)
         \<and> (\<forall>t \<in> set (capacity_woken q). \<exists>q' r. enqueue_turn q t = Inr (q', r)
              \<and> (r = Suspended \<longleftrightarrow> \<not> contains q (message_id t) \<and> \<not> has_capacity q t)
              \<and> (r = Duplicate \<longleftrightarrow> contains q (message_id t))
              \<and> (r = Enqueued \<longleftrightarrow> \<not> contains q (message_id t) \<and> has_capacity q t))"
proof -
  from pq_reachable_inv [OF assms] have inv: "pq_accounts q (held q)" by (simp add: pq_inv_def)
  have "\<exists>q' r. enqueue_turn q t = Inr (q', r)
              \<and> (r = Suspended \<longleftrightarrow> \<not> contains q (message_id t) \<and> \<not> has_capacity q t)
              \<and> (r = Duplicate \<longleftrightarrow> contains q (message_id t))
              \<and> (r = Enqueued \<longleftrightarrow> \<not> contains q (message_id t) \<and> has_capacity q t)"
    if "t \<in> set (capacity_woken q)" for t
    using inv that
    by (auto simp: pq_accounts_def enqueue_turn_def try_enqueue_cases contains_def has_capacity_def
        Let_def)
  with inv show ?thesis by (auto simp: pq_accounts_def)
qed

text \<open>
  \<open>remove_pending\<close> removes exactly the queued tasks its predicate selects, returns their
  number, keeps the remaining items in their order and leaves running tasks alone.
\<close>

theorem remove_pending_exact:
  assumes "pq_reachable q"
  shows "\<exists>q'. remove_pending p q = Inr (q', length (filter (\<lambda>it. \<not> kept p it) (q_items q)))
             \<and> q_items q' = filter (kept p) (q_items q) \<and> workers q' = workers q
             \<and> reserved_messages q' = int (size (held q'))"
  using remove_pending_ok [OF pq_reachable_inv [OF assms], of p]
  by (auto simp: pq_inv_def pq_accounts_def)

text \<open>
  Once every worker has ended, the end of \<open>stop\<close> leaves nothing behind: no queued item
  or stop sentinel, no reservation, no unfinished count, so a later \<open>start\<close> begins clean.
\<close>

theorem stop_leaves_nothing:
  assumes "pq_reachable q" and "list_all (\<lambda>w. w = Done) (workers q)"
  shows "\<exists>q'. stop_finish q = Inr q' \<and> workers q' = [] \<and> q_items q' = [] \<and> unfinished q' = 0
             \<and> reserved_message_ids q' = {} \<and> reserved_messages q' = 0 \<and> reserved_bytes q' = 0
             \<and> active_message_ids q' = {}"
proof -
  from stop_finish_ok [OF pq_reachable_inv [OF assms(1)]] assms(2) obtain q' where
    "stop_finish q = Inr q'" "pq_inv q'" "workers q' = []" "q_items q' = []" by auto
  then show ?thesis by (auto simp: pq_inv_def pq_accounts_def held_def)
qed

section \<open>Witnesses\<close>

text \<open>
  A run with room for one message: a task is queued, a second \<open>enqueue\<close> suspends, a worker
  runs the first task and its end wakes the second call.
\<close>

definition ex_task :: "string \<Rightarrow> parse_task" where
  "ex_task i = \<lparr>message_id = i, raw_size_bytes = 40\<rparr>"

definition ex_run :: "pq_event list" where
  "ex_run = [TryEnqueue (ex_task ''m1''), EnqueueCall (ex_task ''m2''), Start, WorkerGet 0, WorkerDone 0]"

fun pq_runs :: "pq_event list \<Rightarrow> parse_queue \<Rightarrow> parse_queue option" where
  "pq_runs [] q = Some q"
| "pq_runs (e # es) q =
     (if pq_enabled e q then (case pq_run e q of Inr q' \<Rightarrow> pq_runs es q' | Inl _ \<Rightarrow> None) else None)"

lemma pq_runs_reachable: "pq_reachable q \<Longrightarrow> pq_runs es q = Some q' \<Longrightarrow> pq_reachable q'"
proof (induction es arbitrary: q)
  case (Cons e es)
  then obtain q1 where "pq_step q q1" "pq_runs es q1 = Some q'"
    by (auto split: if_splits sum.splits intro: pq_event)
  with Cons show ?case by (blast intro: pq_next)
qed simp

definition ex_queue :: "nat \<Rightarrow> parse_queue" where
  "ex_queue n = the (pq_runs (take n ex_run) (projr (parse_queue_init 1 1 100)))"

lemmas pq_eval = ex_queue_def ex_run_def ex_task_def parse_queue_init_def try_enqueue_def
  enqueue_def enqueue_turn_def validate_task_def has_capacity_def put_nowait_def start_def
  worker_get_def worker_end_def finally_block_def release_def task_done_def
  set_capacity_changed_def

lemma ex_queue_reachableI:
  assumes "pq_runs (take n ex_run) (projr (parse_queue_init 1 1 100)) \<noteq> None"
  shows "pq_reachable (ex_queue n)"
proof -
  have "pq_reachable (projr (parse_queue_init 1 1 100))"
    by (rule pq_init [of 1 1 100]) (simp add: parse_queue_init_def)
  with assms show ?thesis by (auto simp: ex_queue_def intro: pq_runs_reachable)
qed

lemma ex_queue_reachable: "pq_reachable (ex_queue 2)" "pq_reachable (ex_queue 4)" "pq_reachable (ex_queue 5)"
  by (rule ex_queue_reachableI; simp add: pq_eval)+

theorem parse_queue_budgets_witness:
  "reserved_messages (ex_queue 4) = 1 \<and> reserved_bytes (ex_queue 4) \<le> max_bytes (ex_queue 4)
   \<and> active_message_ids (ex_queue 4) = {''m1''}"
  using parse_queue_budgets [OF ex_queue_reachable(2)] by (simp add: pq_eval)

theorem parse_queue_never_fails_witness:
  "\<exists>q'. pq_run (WorkerDone 0) (ex_queue 4) = Inr q' \<and> pq_reachable q'"
proof -
  have "pq_enabled (WorkerDone 0) (ex_queue 4)" by (simp add: pq_eval)
  from parse_queue_never_fails [OF ex_queue_reachable(2) this] show ?thesis by simp
qed

theorem parse_queue_no_lost_wakeup_witness:
  "capacity_waiters (ex_queue 2) = [ex_task ''m2''] \<and> \<not> has_capacity (ex_queue 2) (ex_task ''m2'')
   \<and> capacity_waiters (ex_queue 5) = [] \<and> capacity_woken (ex_queue 5) = [ex_task ''m2'']
   \<and> (\<exists>q' r. enqueue_turn (ex_queue 5) (ex_task ''m2'') = Inr (q', r) \<and> r = Enqueued)"
proof -
  have w: "capacity_waiters (ex_queue 2) = [ex_task ''m2'']" "capacity_waiters (ex_queue 5) = []"
    "capacity_woken (ex_queue 5) = [ex_task ''m2'']"
    "\<not> contains (ex_queue 5) (message_id (ex_task ''m2''))" "has_capacity (ex_queue 5) (ex_task ''m2'')"
    by (simp_all add: pq_eval contains_def)
  with parse_queue_no_lost_wakeup [OF ex_queue_reachable(1)]
    parse_queue_no_lost_wakeup [OF ex_queue_reachable(3)]
  show ?thesis by auto
qed

theorem remove_pending_exact_witness:
  "\<exists>q'. remove_pending (\<lambda>t. message_id t = ''m1'') (ex_queue 2) = Inr (q', 1) \<and> q_items q' = []"
proof -
  have "q_items (ex_queue 2) = [Some (ex_task ''m1'')]" by (simp add: pq_eval)
  with remove_pending_exact [OF ex_queue_reachable(1), of "\<lambda>t. message_id t = ''m1''"]
  show ?thesis by (auto simp: kept_def ex_task_def)
qed

theorem stop_leaves_nothing_witness:
  "\<exists>q'. stop_finish (ex_queue 2) = Inr q' \<and> q_items q' = [] \<and> reserved_messages q' = 0"
proof -
  have "list_all (\<lambda>w. w = Done) (workers (ex_queue 2))" by (simp add: pq_eval)
  from stop_leaves_nothing [OF ex_queue_reachable(1) this] show ?thesis by blast
qed

end
