(* ===== verification/Mail_Accept.thy ===== *)
theory Mail_Accept
  imports Mail_Store Timestamps Parse_Queue "HOL-Library.Code_Target_Numeral"
begin

text \<open>
  Accepting a message: \<open>accept_message\<close> of \<^verbatim>\<open>src/app/runtime.py\<close> with the helpers it calls. The
  transaction is a function on the tables; a failed one is rolled back by the writer. Files are a
  map from storage paths, and what other tasks do to the database between reading the policies
  and the transaction is an arbitrary function.
\<close>

section \<open>Rows\<close>

record session_row =
  ss_id :: string
  remote_ip :: string
  remote_port :: "int option"
  helo_name :: "string option"
  ss_status :: string
  tls_used :: bool
  connect_at :: string
  disconnect_at :: "string option"
  first_command_at :: "string option"
  last_command_at :: "string option"
  ss_message_count :: int
  rcpt_accepted_count :: int
  rcpt_rejected_count :: int
  bytes_received :: int
  last_mail_from :: "string option"
  last_rcpt_to_sample :: "string option"
  result_code :: "int option"
  result_message :: "string option"
  close_reason :: "string option"

record metric_row =
  bucket_ts :: string
  m_received :: int
  m_deliveries :: int
  m_parse_failures :: int
  m_rejected :: int

record rehome_entry =
  source_mailbox :: int
  rehome_result :: promotion
  destination_domain :: int
  rehomed_at :: string
  rehome_reason :: string

record ingest_db =
  mail :: mail_db
  smtp_sessions :: "session_row list"
  metric_buckets :: "metric_row list"
  rehome_audit :: "rehome_entry list"

section \<open>Sessions and metrics\<close>

text \<open>The keyword arguments of \<open>_update_smtp_session_summary\<close>.\<close>

record session_change =
  accepted_delta :: int
  rejected_delta :: int
  message_delta :: int
  bytes_received_delta :: int
  new_rcpt_sample :: "string option"
  new_mail_from :: "string option"
  new_status :: "string option"
  new_disconnect_at :: "string option"
  new_close_reason :: "string option"
  new_result_code :: "int option"
  new_result_message :: "string option"

definition no_change :: session_change where
  "no_change = \<lparr>accepted_delta = 0, rejected_delta = 0, message_delta = 0, bytes_received_delta = 0,
     new_rcpt_sample = None, new_mail_from = None, new_status = None, new_disconnect_at = None,
     new_close_reason = None, new_result_code = None, new_result_message = None\<rparr>"

text \<open>\<open>COALESCE\<close> of two columns.\<close>

definition coalesce :: "'a option \<Rightarrow> 'a option \<Rightarrow> 'a option" where
  "coalesce a b = (case a of Some x \<Rightarrow> Some x | None \<Rightarrow> b)"

definition change_session :: "string \<Rightarrow> session_change \<Rightarrow> session_row \<Rightarrow> session_row" where
  "change_session now c r =
     r\<lparr>first_command_at := coalesce (first_command_at r) (Some now),
       last_command_at := Some now,
       ss_message_count := ss_message_count r + message_delta c,
       rcpt_accepted_count := rcpt_accepted_count r + accepted_delta c,
       rcpt_rejected_count := rcpt_rejected_count r + rejected_delta c,
       bytes_received := bytes_received r + bytes_received_delta c,
       last_mail_from := coalesce (new_mail_from c) (last_mail_from r),
       last_rcpt_to_sample := coalesce (new_rcpt_sample c) (last_rcpt_to_sample r),
       ss_status := (case new_status c of Some s \<Rightarrow> s | None \<Rightarrow> ss_status r),
       disconnect_at := coalesce (new_disconnect_at c) (disconnect_at r),
       close_reason := coalesce (new_close_reason c) (close_reason r),
       result_code := coalesce (new_result_code c) (result_code r),
       result_message := coalesce (new_result_message c) (result_message r)\<rparr>"

definition update_smtp_session_summary :: "string \<Rightarrow> string \<Rightarrow> session_change \<Rightarrow> ingest_db \<Rightarrow> ingest_db" where
  "update_smtp_session_summary sid now c db =
     db\<lparr>smtp_sessions := map (\<lambda>r. if ss_id r = sid then change_session now c r else r) (smtp_sessions db)\<rparr>"

text \<open>The session row an accepted message needs, created when the session was not recorded.\<close>

definition unknown_session :: "string \<Rightarrow> string \<Rightarrow> session_row" where
  "unknown_session sid at =
     \<lparr>ss_id = sid, remote_ip = ''unknown'', remote_port = None, helo_name = None, ss_status = ''open'',
      tls_used = False, connect_at = at, disconnect_at = None, first_command_at = Some at,
      last_command_at = Some at, ss_message_count = 0, rcpt_accepted_count = 0, rcpt_rejected_count = 0,
      bytes_received = 0, last_mail_from = None, last_rcpt_to_sample = None, result_code = None,
      result_message = None, close_reason = None\<rparr>"

definition record_session :: "string option \<Rightarrow> string \<Rightarrow> int \<Rightarrow> string option \<Rightarrow> ingest_db \<Rightarrow> ingest_db" where
  "record_session so at nbytes from db =
     (case so of
        None \<Rightarrow> db
      | Some sid \<Rightarrow>
          let db1 = (if list_ex (\<lambda>r. ss_id r = sid) (smtp_sessions db) then db
                     else db\<lparr>smtp_sessions := smtp_sessions db @ [unknown_session sid at]\<rparr>)
          in update_smtp_session_summary sid at
               (no_change\<lparr>message_delta := 1, bytes_received_delta := nbytes, new_mail_from := from\<rparr>) db1)"

definition add_metric :: "metric_row \<Rightarrow> metric_row \<Rightarrow> metric_row" where
  "add_metric m r =
     r\<lparr>m_received := m_received r + m_received m, m_deliveries := m_deliveries r + m_deliveries m,
       m_parse_failures := m_parse_failures r + m_parse_failures m, m_rejected := m_rejected r + m_rejected m\<rparr>"

definition increment_mail_metric :: "string \<Rightarrow> int \<Rightarrow> int \<Rightarrow> int \<Rightarrow> int \<Rightarrow> ingest_db \<Rightarrow> ingest_db" where
  "increment_mail_metric timestamp n_received n_deliveries n_failures n_rejected db =
     (if n_received = 0 \<and> n_deliveries = 0 \<and> n_failures = 0 \<and> n_rejected = 0 then db
      else
        let m = \<lparr>bucket_ts = metric_bucket_ts timestamp, m_received = n_received, m_deliveries = n_deliveries,
                 m_parse_failures = n_failures, m_rejected = n_rejected\<rparr>
        in if list_ex (\<lambda>r. bucket_ts r = bucket_ts m) (metric_buckets db)
           then db\<lparr>metric_buckets := map (\<lambda>r. if bucket_ts r = bucket_ts m then add_metric m r else r) (metric_buckets db)\<rparr>
           else db\<lparr>metric_buckets := metric_buckets db @ [m]\<rparr>)"

section \<open>Mailboxes of a recipient\<close>

definition find_or_rehome_mailbox :: "domain_match \<Rightarrow> string \<Rightarrow> ingest_db \<Rightarrow> (int option \<times> ingest_db) result" where
  "find_or_rehome_mailbox match changed_at db =
     (case join_domain (mail db) (mailbox_by_address (mail db) (address_canonical match)) of
        None \<Rightarrow> Inr (None, db)
      | Some (existing, _) \<Rightarrow>
          bindR (promote_mailbox_ownership (mb_id existing) match (mail db)) (\<lambda>(p, m).
            Inr (Some (pr_mailbox_id p),
                 db\<lparr>mail := m,
                    rehome_audit := rehome_audit db @
                      (if rehomed p
                       then [\<lparr>source_mailbox = mb_id existing, rehome_result = p,
                              destination_domain = match_domain_id match, rehomed_at = changed_at,
                              rehome_reason = ''smtp.write''\<rparr>] else [])\<rparr>)))"

definition upsert_mailbox :: "domain_match \<Rightarrow> string \<Rightarrow> ingest_db \<Rightarrow> (int \<times> ingest_db) result" where
  "upsert_mailbox match at db =
     bindR (find_or_rehome_mailbox match at db) (\<lambda>(io, db1).
       case io of
         Some i \<Rightarrow>
           Inr (i, db1\<lparr>mail := update_mailboxes i
             (\<lambda>m. m\<lparr>last_seen_at := at, latest_message_at := Some at, message_count := message_count m + 1\<rparr>)
             (mail db1)\<rparr>)
       | None \<Rightarrow> bindR (insert_mailbox match at 1 (Some at) (mail db1)) (\<lambda>(i, m). Inr (i, db1\<lparr>mail := m\<rparr>)))"

definition ensure_mailbox_record :: "domain_match \<Rightarrow> string \<Rightarrow> ingest_db \<Rightarrow> (int \<times> ingest_db) result" where
  "ensure_mailbox_record match at db =
     bindR (find_or_rehome_mailbox match at db) (\<lambda>(io, db1).
       case io of
         Some i \<Rightarrow> Inr (i, db1)
       | None \<Rightarrow> bindR (insert_mailbox match at 0 None (mail db1)) (\<lambda>(i, m). Inr (i, db1\<lparr>mail := m\<rparr>)))"

section \<open>The transaction of an accepted message\<close>

definition recipient_match_can_advance :: "domain_match \<Rightarrow> domain_match \<Rightarrow> bool" where
  "recipient_match_can_advance accepted current =
     (if match_domain_id accepted = match_domain_id current then True
      else if match_root_domain_ascii accepted = star then match_root_domain_ascii current \<noteq> star
      else match_root_domain_ascii current \<noteq> star
        \<and> ends_with (match_root_domain_ascii current) (dot # match_root_domain_ascii accepted))"

definition check_recipient ::
  "unicode \<Rightarrow> int \<Rightarrow> mail_db \<Rightarrow> ustr \<times> domain_match \<Rightarrow> (ustr \<times> domain_match \<times> int option) result" where
  "check_recipient U nbytes db rm =
     (case rm of (rcpt_to, accepted) \<Rightarrow>
       (case domain_by_id db (match_domain_id accepted) of
          None \<Rightarrow> Inl RecipientPolicyChanged
        | Some accepted_identity \<Rightarrow>
            if root_domain_ascii accepted_identity \<noteq> match_root_domain_ascii accepted
               \<or> \<not> dom_is_active accepted_identity
            then Inl RecipientPolicyChanged
            else bindR (match_active_domain U db rcpt_to) (\<lambda>cm.
              case cm of
                None \<Rightarrow> Inl RecipientPolicyChanged
              | Some current \<Rightarrow>
                  if \<not> recipient_match_can_advance accepted current then Inl RecipientPolicyChanged
                  else
                    (case List.find (\<lambda>d. dom_id d = match_domain_id current
                          \<and> root_domain_ascii d = match_root_domain_ascii current \<and> dom_is_active d) (domains db) of
                       None \<Rightarrow> Inl RecipientPolicyChanged
                     | Some policy \<Rightarrow>
                         if max_message_size_bytes policy < nbytes then Inl RecipientPolicyChanged
                         else Inr (rcpt_to, current, retention_days policy)))))"

definition insert_message :: "message \<Rightarrow> ingest_db \<Rightarrow> ingest_db result" where
  "insert_message m db =
     (if list_ex (\<lambda>x. msg_id x = msg_id m \<or> raw_path x = raw_path m) (messages (mail db))
         \<or> (case msg_session_id m of None \<Rightarrow> False | Some s \<Rightarrow> \<not> list_ex (\<lambda>r. ss_id r = s) (smtp_sessions db))
      then Inl integrity
      else Inr (db\<lparr>mail := (mail db)\<lparr>messages := messages (mail db) @ [m]\<rparr>\<rparr>))"

definition deliver_one ::
  "string \<Rightarrow> string \<Rightarrow> string \<Rightarrow> ustr \<times> domain_match \<times> int option \<Rightarrow> ingest_db \<Rightarrow> ingest_db result" where
  "deliver_one mid at did rcpt db =
     (case rcpt of (rcpt_to, match, retention) \<Rightarrow>
        bindR (upsert_mailbox match at db) (\<lambda>(i, db1).
          bindR (delivery_expires_at at retention) (\<lambda>expires.
            case mailbox_by_id (mail db1) i of
              None \<Rightarrow> Inl integrity
            | Some m \<Rightarrow>
                bindR (insert_delivery
                    \<lparr>dl_id = did, dl_message_id = mid, dl_mailbox_id = i, dl_rcpt_to = rcpt_to, delivered_at = at,
                     dl_status = Active, deleted_at = None, dl_expires_at = expires, dl_notes = None,
                     mailbox_generation = bulk_delete_generation m\<rparr> (mail db1))
                  (\<lambda>m. Inr (db1\<lparr>mail := m\<rparr>)))))"

text \<open>The loop over the recipients; \<open>fresh\<close> gives the identifiers of the deliveries in order.\<close>

fun deliver_all ::
  "string \<Rightarrow> string \<Rightarrow> (nat \<Rightarrow> string) \<Rightarrow> (int \<times> ustr) list \<Rightarrow> nat \<Rightarrow> (ustr \<times> domain_match \<times> int option) list
     \<Rightarrow> ingest_db \<Rightarrow> (nat \<times> ingest_db) result" where
  "deliver_all mid at fresh seen n [] db = Inr (n, db)"
| "deliver_all mid at fresh seen n ((rcpt_to, match, retention) # rest) db =
     (if (match_domain_id match, address_canonical match) \<in> set seen
      then deliver_all mid at fresh seen n rest db
      else bindR (deliver_one mid at (fresh n) (rcpt_to, match, retention) db) (\<lambda>db1.
        deliver_all mid at fresh ((match_domain_id match, address_canonical match) # seen) (n + 1) rest db1))"

text \<open>What the transaction is given: the message row and the routing decisions made at \<open>RCPT\<close> time.\<close>

record accepted =
  acc_message :: message
  acc_matches :: "(ustr \<times> domain_match) list"

definition accept_operation :: "unicode \<Rightarrow> (nat \<Rightarrow> string) \<Rightarrow> accepted \<Rightarrow> ingest_db \<Rightarrow> ingest_db result" where
  "accept_operation U fresh a db =
     (let m = acc_message a; at = received_at m in
      bindR (mapR (check_recipient U (msg_raw_size m) (mail db)) (acc_matches a)) (\<lambda>rcpts.
        let db1 = record_session (msg_session_id m) at (msg_raw_size m) (envelope_from m) db in
        bindR (insert_message m db1) (\<lambda>db2.
          bindR (deliver_all (msg_id m) at fresh [] 0 rcpts db2) (\<lambda>(n, db3).
            Inr (increment_mail_metric at 1 (int n) 0 0 db3)))))"

section \<open>Accepting a message\<close>

record domain_policy =
  pol_root_domain_unicode :: ustr
  pol_accept_exact :: bool
  pol_accept_subdomains :: bool
  pol_public_web_enabled :: bool
  pol_public_api_enabled :: bool
  pol_is_active :: bool
  pol_is_hidden :: bool
  pol_plus_addressing_mode :: string
  pol_case_sensitive :: bool
  pol_max_message_size_bytes :: int
  pol_retention_days :: "int option"
  pol_dns_status :: string

record recovery_recipient =
  rr_rcpt_to :: ustr
  rr_domain_id :: int
  rr_domain_ascii :: ustr
  rr_root_domain_ascii :: ustr
  rr_local_part_canonical :: ustr
  rr_address_canonical :: ustr
  rr_domain_policy :: domain_policy

record manifest =
  mf_message_id :: string
  mf_smtp_session_id :: "string option"
  mf_envelope_from :: "string option"
  mf_rcpt_tos :: "ustr list"
  mf_recipients :: "recovery_recipient list"
  mf_received_at :: string
  mf_recovery_order_ns :: int
  mf_raw_path :: string
  mf_raw_sha256 :: string
  mf_raw_size_bytes :: int

datatype stored_file = RawFile "nat list" | ManifestFile manifest

record runtime =
  rt_db :: ingest_db
  rt_files :: "string \<rightharpoonup> stored_file"
  rt_queue :: parse_queue
  rt_routing :: domain_matcher

datatype smtp_reply = Queued250 string | PolicyChanged451

text \<open>
  What a write to the storage directory comes to: it succeeds, or raises with the file in place (the
  rename was done, or the waiting task was cancelled) or without it.
\<close>

datatype write_outcome = Written | WriteFails exn bool

text \<open>
  What \<open>writer.execute\<close> comes to: the transaction is run and its outcome returned; the request is
  refused or the transaction undone (writer closed or overloaded, an error of SQLite or the disk); or
  the caller stops waiting (cancellation) and the transaction is run without it.
\<close>

datatype writer_outcome = Runs | Refused exn | Abandoned exn

text \<open>
  What the code takes from its environment: the Unicode tables, the clock, random identifiers,
  the digest, an error of reading the policies, and what the two writes, the writer and the removal
  of a file come to.
\<close>

record accept_env =
  env_unicode :: unicode
  env_now :: int
  env_order_ns :: int
  env_message_id :: string
  env_delivery_id :: "nat \<Rightarrow> string"
  env_sha256 :: "nat list \<Rightarrow> string"
  env_read_error :: "exn option"
  env_raw_write :: write_outcome
  env_manifest_write :: write_outcome
  env_writer :: writer_outcome
  env_unlink_fails :: "string \<Rightarrow> bool"

definition dated_path :: "string \<Rightarrow> string \<Rightarrow> string \<Rightarrow> string \<Rightarrow> string result" where
  "dated_path category mid suffix at =
     bindR (path_date_parts at) (\<lambda>(y, m, d).
       Inr (category @ ''/'' @ y @ ''/'' @ m @ ''/'' @ d @ ''/'' @ mid @ suffix))"

definition raw_message_path :: "string \<Rightarrow> string \<Rightarrow> string result" where
  "raw_message_path mid at = dated_path ''raw'' mid ''.eml'' at"

definition manifest_path :: "string \<Rightarrow> string \<Rightarrow> string result" where
  "manifest_path mid at = dated_path ''manifests'' mid ''.json'' at"

fun match_recipients :: "unicode \<Rightarrow> domain_matcher \<Rightarrow> ustr list \<Rightarrow> (ustr \<times> domain_match) list result" where
  "match_recipients U M [] = Inr []"
| "match_recipients U M (r # rs) =
     (case match_address U M r of
        None \<Rightarrow> Inl (ValueError ''recipient domain not allowed'')
      | Some m \<Rightarrow> bindR (match_recipients U M rs) (\<lambda>ms. Inr ((r, m) # ms)))"

definition load_recovery_domain_policy :: "mail_db \<Rightarrow> int \<Rightarrow> domain_policy result" where
  "load_recovery_domain_policy db i =
     (case domain_by_id db i of
        None \<Rightarrow> Inl (LookupError ''domain not found'')
      | Some d \<Rightarrow> Inr
          \<lparr>pol_root_domain_unicode = (case root_domain_unicode d of
               Some x \<Rightarrow> if x \<noteq> [] then x else root_domain_ascii d | None \<Rightarrow> root_domain_ascii d),
           pol_accept_exact = dom_accept_exact d, pol_accept_subdomains = dom_accept_subdomains d,
           pol_public_web_enabled = public_web_enabled d, pol_public_api_enabled = public_api_enabled d,
           pol_is_active = dom_is_active d, pol_is_hidden = dom_is_hidden d,
           pol_plus_addressing_mode = dom_plus_addressing_mode d, pol_case_sensitive = dom_case_sensitive d,
           pol_max_message_size_bytes = max_message_size_bytes d, pol_retention_days = retention_days d,
           pol_dns_status = dns_status d\<rparr>)"

fun load_recovery_domain_policies ::
  "mail_db \<Rightarrow> (int \<rightharpoonup> domain_policy) \<Rightarrow> (ustr \<times> domain_match) list \<Rightarrow> (int \<rightharpoonup> domain_policy) result" where
  "load_recovery_domain_policies db P [] = Inr P"
| "load_recovery_domain_policies db P ((r, m) # ms) =
     (if P (match_domain_id m) = None
      then bindR (load_recovery_domain_policy db (match_domain_id m)) (\<lambda>p.
        load_recovery_domain_policies db (P(match_domain_id m \<mapsto> p)) ms)
      else load_recovery_domain_policies db P ms)"

definition recovery_recipient_payload :: "ustr \<Rightarrow> domain_match \<Rightarrow> domain_policy \<Rightarrow> recovery_recipient" where
  "recovery_recipient_payload rcpt_to m p =
     \<lparr>rr_rcpt_to = rcpt_to, rr_domain_id = match_domain_id m, rr_domain_ascii = match_domain_ascii m,
      rr_root_domain_ascii = match_root_domain_ascii m,
      rr_local_part_canonical = match_local_part_canonical m,
      rr_address_canonical = address_canonical m, rr_domain_policy = p\<rparr>"

text \<open>
  The part of \<open>_accept_message_operation\<close> before the files are written: an exception, an early
  reply, or the message row with its routing decisions, the two paths and the manifest.
\<close>

datatype accept_start = Early smtp_reply | Started accepted string string manifest

definition accept_begin ::
  "accept_env \<Rightarrow> ustr list \<Rightarrow> string option \<Rightarrow> nat list \<Rightarrow> string option \<Rightarrow> runtime \<Rightarrow> accept_start result" where
  "accept_begin E rcpt_tos from content session rt =
     (let at = utc_now (env_now E); mid = env_message_id E in
      bindR (match_recipients (env_unicode E) (rt_routing rt) rcpt_tos) (\<lambda>matches.
        if matches = [] then Inl (ValueError ''message has no unique recipients'')
        else bindR (raw_message_path mid at) (\<lambda>raw. bindR (manifest_path mid at) (\<lambda>mpath.
          case env_read_error E of Some e \<Rightarrow> Inl e | None \<Rightarrow>
          (case load_recovery_domain_policies (mail (rt_db rt)) Map.empty matches of
            Inl _ \<Rightarrow> Inr (Early PolicyChanged451)
          | Inr P \<Rightarrow>
              let sha = env_sha256 E content;
                  msg = \<lparr>msg_id = mid, msg_session_id = session, raw_path = raw, raw_sha256 = sha,
                         msg_raw_size = int (length content), envelope_from = from, msg_from_addr = from,
                         received_at = at, indexed_at = None, parse_status = Pending, parse_error = None,
                         text_body_path = None, html_body_path = None\<rparr>;
                  mf = \<lparr>mf_message_id = mid, mf_smtp_session_id = session, mf_envelope_from = from,
                        mf_rcpt_tos = rcpt_tos,
                        mf_recipients = map (\<lambda>(r, m). recovery_recipient_payload r m (the (P (match_domain_id m)))) matches,
                        mf_received_at = at, mf_recovery_order_ns = env_order_ns E, mf_raw_path = raw,
                        mf_raw_sha256 = sha, mf_raw_size_bytes = int (length content)\<rparr>
              in Inr (Started \<lparr>acc_message = msg, acc_matches = matches\<rparr> raw mpath mf))))))"

text \<open>\<open>_write_accept_artifacts\<close>: the raw message first, so that a manifest never appears before it.\<close>

definition write_file :: "write_outcome \<Rightarrow> string \<Rightarrow> stored_file \<Rightarrow> (string \<rightharpoonup> stored_file) \<Rightarrow> unit result \<times> (string \<rightharpoonup> stored_file)" where
  "write_file w p x fs =
     (case w of
        Written \<Rightarrow> (Inr (), fs(p \<mapsto> x))
      | WriteFails e placed \<Rightarrow> (Inl e, if placed then fs(p \<mapsto> x) else fs))"

definition write_accept_artifacts ::
  "accept_env \<Rightarrow> string \<Rightarrow> string \<Rightarrow> nat list \<Rightarrow> manifest \<Rightarrow> (string \<rightharpoonup> stored_file) \<Rightarrow> unit result \<times> (string \<rightharpoonup> stored_file)" where
  "write_accept_artifacts E raw mpath content mf fs =
     (case write_file (env_raw_write E) raw (RawFile content) fs of
        (Inl e, fs1) \<Rightarrow> (Inl e, fs1)
      | (Inr _, fs1) \<Rightarrow> write_file (env_manifest_write E) mpath (ManifestFile mf) fs1)"

text \<open>\<open>_discard_uncommitted_accept_artifacts\<close>: the manifest first; a failed removal is logged.\<close>

definition unlink :: "(string \<Rightarrow> bool) \<Rightarrow> string \<Rightarrow> (string \<rightharpoonup> stored_file) \<Rightarrow> (string \<rightharpoonup> stored_file)" where
  "unlink fails p fs = (if fails p then fs else fs(p := None))"

definition discard_uncommitted_accept_artifacts ::
  "(string \<Rightarrow> bool) \<Rightarrow> string \<Rightarrow> string \<Rightarrow> (string \<rightharpoonup> stored_file) \<Rightarrow> (string \<rightharpoonup> stored_file)" where
  "discard_uncommitted_accept_artifacts fails raw mpath fs = unlink fails raw (unlink fails mpath fs)"

text \<open>
  The transaction and what follows it. The writer rolls a failed transaction back, so the
  database of a failed one is the one it started from.
\<close>

definition committed_db :: "accept_env \<Rightarrow> accepted \<Rightarrow> ingest_db \<Rightarrow> ingest_db" where
  "committed_db E a db = (case accept_operation (env_unicode E) (env_delivery_id E) a db of Inl _ \<Rightarrow> db | Inr db' \<Rightarrow> db')"

definition accept_finish ::
  "accept_env \<Rightarrow> accepted \<Rightarrow> string \<Rightarrow> string \<Rightarrow> runtime \<Rightarrow> smtp_reply result \<times> runtime" where
  "accept_finish E a raw mpath rt =
     (case env_writer E of
        Refused e \<Rightarrow> (Inl e, rt)
      | Abandoned e \<Rightarrow> (Inl e, rt\<lparr>rt_db := committed_db E a (rt_db rt)\<rparr>)
      | Runs \<Rightarrow>
     (case accept_operation (env_unicode E) (env_delivery_id E) a (rt_db rt) of
        Inl e \<Rightarrow>
          if e = RecipientPolicyChanged
          then (Inr PolicyChanged451,
                rt\<lparr>rt_files := discard_uncommitted_accept_artifacts (env_unlink_fails E) raw mpath (rt_files rt)\<rparr>)
          else (Inl e, rt)
      | Inr db \<Rightarrow>
          let mid = msg_id (acc_message a); rt1 = rt\<lparr>rt_db := db\<rparr> in
          (case try_enqueue (rt_queue rt) \<lparr>message_id = mid, raw_size_bytes = msg_raw_size (acc_message a)\<rparr> of
             Inl e \<Rightarrow> (Inl e, rt1)
           | Inr (q, _) \<Rightarrow> (Inr (Queued250 mid), rt1\<lparr>rt_queue := q\<rparr>))))"

text \<open>
  \<open>accept_message\<close>; \<open>between\<close> is what other tasks and processes do to the database after the
  policies were read and before the transaction begins.
\<close>

definition accept_message ::
  "accept_env \<Rightarrow> (ingest_db \<Rightarrow> ingest_db) \<Rightarrow> ustr list \<Rightarrow> string option \<Rightarrow> nat list \<Rightarrow> string option \<Rightarrow> runtime
     \<Rightarrow> smtp_reply result \<times> runtime" where
  "accept_message E between rcpt_tos from content session rt =
     (case accept_begin E rcpt_tos from content session rt of
        Inl e \<Rightarrow> (Inl e, rt)
      | Inr (Early r) \<Rightarrow> (Inr r, rt)
      | Inr (Started a raw mpath mf) \<Rightarrow>
          (case write_accept_artifacts E raw mpath content mf (rt_files rt) of
             (Inl e, fs) \<Rightarrow> (Inl e, rt\<lparr>rt_files := fs\<rparr>)
           | (Inr _, fs) \<Rightarrow> accept_finish E a raw mpath (rt\<lparr>rt_files := fs, rt_db := between (rt_db rt)\<rparr>)))"

section \<open>The invariant of the tables\<close>

definition ingest_inv :: "ingest_db \<Rightarrow> bool" where
  "ingest_inv db \<longleftrightarrow> store_inv (mail db) \<and> distinct (map raw_path (messages (mail db)))
     \<and> distinct (map ss_id (smtp_sessions db))
     \<and> (\<forall>m \<in> set (messages (mail db)).
          case msg_session_id m of None \<Rightarrow> True | Some s \<Rightarrow> s \<in> ss_id ` set (smtp_sessions db))
     \<and> distinct (map bucket_ts (metric_buckets db))"

text \<open>A mailbox row that already counts a delivery that is not inserted yet.\<close>

definition counts_plus :: "int \<Rightarrow> mail_db \<Rightarrow> bool" where
  "counts_plus i db \<longleftrightarrow> (\<forall>m \<in> set (mailboxes db).
     message_count m = int (length (active_in db (mb_id m))) + (if mb_id m = i then 1 else 0))"

definition box_keys :: "mail_db \<Rightarrow> (int \<times> ustr) set" where
  "box_keys db = (\<lambda>m. (mb_id m, mb_address m)) ` set (mailboxes db)"

lemma box_keys_inj:
  assumes "store_keys db" "(i, a) \<in> box_keys db" "(j, b) \<in> box_keys db"
  shows "i = j \<longleftrightarrow> a = b"
  using assms by (auto simp: box_keys_def store_keys_def distinct_map inj_on_def)

lemma mailboxes_update: "mailboxes (update_mailboxes i f db) = map (\<lambda>m. if mb_id m = i then f m else m) (mailboxes db)"
  by (simp add: update_mailboxes_def)

lemma update_mailbox_keys:
  assumes "\<And>m. m \<in> set (mailboxes db) \<Longrightarrow> mb_id m = i \<Longrightarrow> mb_id (f m) = mb_id m \<and> mb_address (f m) = mb_address m"
  shows "box_keys (update_mailboxes i f db) = box_keys db"
  unfolding box_keys_def mailboxes_update set_map image_image by (rule image_cong) (use assms in auto)

text \<open>An update of counters keeps keys and references.\<close>

lemma update_mailbox_frame:
  assumes f: "\<And>m. mb_id (f m) = mb_id m \<and> mb_address (f m) = mb_address m \<and> mb_domain_id (f m) = mb_domain_id m"
    and inv: "store_keys db" "store_refs db"
  shows "store_keys (update_mailboxes i f db)" and "store_refs (update_mailboxes i f db)"
proof -
  let ?ms = "map (\<lambda>m. if mb_id m = i then f m else m) (mailboxes db)"
  have e: "map mb_id ?ms = map mb_id (mailboxes db)" "map mb_address ?ms = map mb_address (mailboxes db)"
    "map mb_domain_id ?ms = map mb_domain_id (mailboxes db)"
    using f by auto
  have s: "mb_id ` set ?ms = mb_id ` set (mailboxes db)" "mb_domain_id ` set ?ms = mb_domain_id ` set (mailboxes db)"
    using arg_cong [OF e(1), of set] arg_cong [OF e(3), of set] by (simp_all only: set_map)
  have lt: "(\<forall>m \<in> set ms. mb_id m < k) \<longleftrightarrow> (\<forall>j \<in> mb_id ` set ms. j < k)" for ms k by auto
  have dm: "(\<forall>m \<in> set ms. mb_domain_id m \<in> D) \<longleftrightarrow> mb_domain_id ` set ms \<subseteq> D" for ms D by auto
  show "store_keys (update_mailboxes i f db)"
    using inv(1) unfolding store_keys_def update_mailboxes_fields lt mailboxes_update
    by (simp only: e s) simp
  show "store_refs (update_mailboxes i f db)"
    using inv(2) unfolding store_refs_def update_mailboxes_fields dm mailboxes_update
    by (simp only: s) simp
qed

lemma promote_own_address:
  assumes inv: "store_inv db" and s: "s \<in> set (mailboxes db)" "mb_address s = address_canonical match"
    and dom: "domain_by_id db (match_domain_id match) \<noteq> None"
  obtains p db' where "promote_mailbox_ownership (mb_id s) match db = Inr (p, db')" and "pr_mailbox_id p = mb_id s"
    and "store_inv db'" and "box_keys db' = box_keys db" and "deliveries db' = deliveries db"
    and "messages db' = messages db" and "domains db' = domains db"
proof -
  have keys: "store_keys db" using inv by (simp add: store_inv_def)
  have own: "m = s" if "m \<in> set (mailboxes db)" "mb_address m = address_canonical match" for m
    using that s keys by (auto simp: store_keys_def distinct_map inj_on_def)
  obtain r where j: "join_domain db (Some s) = Some (s, r)" using join_domain_Some [OF inv s(1)] by blast
  have l: "mailbox_by_id db (mb_id s) = Some s" "mailbox_by_address db (address_canonical match) = Some s"
    using s keys by (simp_all add: mailbox_by_id_Some mailbox_by_address_Some)
  show thesis
  proof (cases "mailbox_needs_ownership_promotion s r match")
    case False
    then show thesis using that [of "\<lparr>pr_mailbox_id = mb_id s, rehomed = False, moved = 0, deduplicated = 0\<rparr>" db] inv
      by (simp add: promote_mailbox_ownership_def l j)
  next
    case True
    obtain p db' where pr: "promote_in_place s match db = Inr (p, db')"
      using dom by (auto simp: promote_in_place_def Let_def)
    have "store_inv db'" using promote_in_place_inv [OF inv s(1) _ pr] own by blast
    moreover have "promote_mailbox_ownership (mb_id s) match db = Inr (p, db')"
      using True pr by (simp add: promote_mailbox_ownership_def l j)
    moreover have "pr_mailbox_id p = mb_id s" "deliveries db' = deliveries db" "messages db' = messages db" "domains db' = domains db"
      using pr by (auto simp: promote_in_place_def Let_def refresh_rehomed_mailbox_summary_def split: if_splits)
    moreover obtain g where g: "db' = update_mailboxes (mb_id s) g (update_mailboxes (mb_id s)
          (\<lambda>m. m\<lparr>mb_domain_id := match_domain_id match, mb_local_part := match_local_part_canonical match,
              mb_rcpt_domain := match_domain_ascii match, mb_address := address_canonical match,
              mb_display := address_canonical match\<rparr>) db)"
        and gk: "\<And>m. mb_id (g m) = mb_id m \<and> mb_address (g m) = mb_address m"
      using pr by (auto simp: promote_in_place_def Let_def refresh_rehomed_mailbox_summary_def split: if_splits)
    have same: "mb_address m = address_canonical match" if "m \<in> set (mailboxes db)" "mb_id m = mb_id s" for m
      using same_id [OF keys that(1) s(1) that(2)] s(2) by simp
    have "box_keys db' = box_keys db"
      unfolding g by (subst update_mailbox_keys, simp add: gk, rule update_mailbox_keys) (simp add: same)
    ultimately show thesis using that by blast
  qed
qed

text \<open>The row of a recipient's mailbox, found or inserted, already counts the new delivery.\<close>

lemma upsert_mailbox_spec:
  assumes inv: "store_inv (mail db)" and dom: "domain_by_id (mail db) (match_domain_id match) \<noteq> None"
  obtains i db1 where "upsert_mailbox match at db = Inr (i, db1)"
    and "store_keys (mail db1)" and "store_refs (mail db1)" and "counts_plus i (mail db1)"
    and "box_keys (mail db1) = insert (i, address_canonical match) (box_keys (mail db))"
    and "deliveries (mail db1) = deliveries (mail db)" and "messages (mail db1) = messages (mail db)"
    and "domains (mail db1) = domains (mail db)" and "smtp_sessions db1 = smtp_sessions db"
    and "metric_buckets db1 = metric_buckets db"
proof -
  have keys: "store_keys (mail db)" and refs: "store_refs (mail db)" and counts: "store_counts (mail db)"
    using inv by (auto simp: store_inv_def)
  show thesis
  proof (cases "mailbox_by_address (mail db) (address_canonical match)")
    case None
    define row where "row = \<lparr>mb_id = next_mailbox_id (mail db), mb_domain_id = match_domain_id match,
      mb_local_part = match_local_part_canonical match, mb_rcpt_domain = match_domain_ascii match,
      mb_address = address_canonical match, mb_display = address_canonical match, first_seen_at = at,
      last_seen_at = at, latest_message_at = Some at, message_count = 1, public_enabled = True,
      mb_is_hidden = False, mb_notes = None, bulk_delete_generation = 0\<rparr>"
    define m1 where "m1 = (mail db)\<lparr>mailboxes := mailboxes (mail db) @ [row], next_mailbox_id := next_mailbox_id (mail db) + 1\<rparr>"
    have up: "upsert_mailbox match at db = Inr (next_mailbox_id (mail db), db\<lparr>mail := m1\<rparr>)"
      using None dom by (simp add: upsert_mailbox_def find_or_rehome_mailbox_def join_domain_def insert_mailbox_def
          insert_mailbox_from_values_def Let_def row_def m1_def)
    have new: "address_canonical match \<notin> mb_address ` set (mailboxes (mail db))"
      "next_mailbox_id (mail db) \<notin> mb_id ` set (mailboxes (mail db))"
      using None keys by (auto simp: mailbox_by_address_None store_keys_def)
    have none: "active_in (mail db) (next_mailbox_id (mail db)) = []"
      using refs new(2) unfolding active_in_def store_refs_def filter_empty_conv by metis
    have "store_keys m1" using keys new by (auto simp: store_keys_def m1_def row_def)
    moreover have "store_refs m1" using refs dom by (auto simp: store_refs_def m1_def row_def domain_by_id_None)
    moreover have "counts_plus (next_mailbox_id (mail db)) m1"
      using counts none keys by (auto simp: counts_plus_def store_counts_def store_keys_def m1_def row_def active_in_def)
    moreover have "box_keys m1 = insert (next_mailbox_id (mail db), address_canonical match) (box_keys (mail db))"
      by (simp add: box_keys_def m1_def row_def)
    ultimately show thesis using that [OF up] by (simp add: m1_def)
  next
    case (Some s)
    then have s: "s \<in> set (mailboxes (mail db))" "mb_address s = address_canonical match"
      using keys by (auto simp: mailbox_by_address_Some)
    obtain r where j: "join_domain (mail db) (Some s) = Some (s, r)" using join_domain_Some [OF inv s(1)] by blast
    obtain p m0 where pr: "promote_mailbox_ownership (mb_id s) match (mail db) = Inr (p, m0)" "pr_mailbox_id p = mb_id s"
      and m0: "store_inv m0" "box_keys m0 = box_keys (mail db)" "deliveries m0 = deliveries (mail db)"
        "messages m0 = messages (mail db)" "domains m0 = domains (mail db)"
      by (rule promote_own_address [OF inv s dom])
    define f :: "mailbox \<Rightarrow> mailbox" where
      "f = (\<lambda>m. m\<lparr>last_seen_at := at, latest_message_at := Some at, message_count := message_count m + 1\<rparr>)"
    define m1 where "m1 = update_mailboxes (mb_id s) f m0"
    obtain db1 where up: "upsert_mailbox match at db = Inr (mb_id s, db1)" "mail db1 = m1"
        "smtp_sessions db1 = smtp_sessions db" "metric_buckets db1 = metric_buckets db"
      using pr Some j by (simp add: upsert_mailbox_def find_or_rehome_mailbox_def m1_def f_def)
    have fid: "mb_id (f m) = mb_id m \<and> mb_address (f m) = mb_address m \<and> mb_domain_id (f m) = mb_domain_id m" for m
      by (simp add: f_def)
    have "store_keys m1" "store_refs m1"
      using update_mailbox_frame [OF fid] m0(1) by (simp_all add: m1_def store_inv_def)
    moreover have "counts_plus (mb_id s) m1"
      using m0(1) by (auto simp: counts_plus_def m1_def mailboxes_update f_def store_inv_def store_counts_def)
    moreover have "box_keys m1 = box_keys (mail db)"
      unfolding m1_def using m0(2) fid by (subst update_mailbox_keys) auto
    then have "box_keys m1 = insert (mb_id s, address_canonical match) (box_keys (mail db))"
      using s by (auto simp: box_keys_def)
    ultimately show thesis using that [OF up(1)] up m0 by (simp add: m1_def)
  qed
qed

lemma insert_delivery_spec:
  assumes keys: "store_keys db" and refs: "store_refs db" and cnt: "counts_plus i db"
    and i: "i \<in> mb_id ` set (mailboxes db)"
    and d: "dl_mailbox_id d = i" "dl_status d = Active"
      "\<And>m. m \<in> set (mailboxes db) \<Longrightarrow> mb_id m = i \<Longrightarrow> mailbox_generation d = bulk_delete_generation m"
    and new: "dl_id d \<notin> dl_id ` set (deliveries db)"
      "(dl_message_id d, i) \<notin> (\<lambda>d. (dl_message_id d, dl_mailbox_id d)) ` set (deliveries db)"
    and msg: "dl_message_id d \<in> msg_id ` set (messages db)"
  obtains db' where "insert_delivery d db = Inr db'" and "store_inv db'" and "deliveries db' = deliveries db @ [d]"
    and "mailboxes db' = mailboxes db" and "messages db' = messages db" and "domains db' = domains db"
proof -
  obtain m where m: "mailbox_by_id db i = Some m" using i keys by (auto simp: mailbox_by_id_Some image_iff)
  then have "mailbox_generation d = bulk_delete_generation m" using d(3) keys by (simp add: mailbox_by_id_Some)
  then have fill: "fill_mailbox_generation m d = d" by (simp add: fill_mailbox_generation_def)
  define db' where "db' = db\<lparr>deliveries := deliveries db @ [d], live_events := live_events db @
      [\<lparr>lv_kind = MailboxDelivery, lv_delivery_id = dl_id d, lv_created_at = delivered_at d\<rparr>]\<rparr>"
  have "insert_delivery d db = Inr db'"
    using new msg m d(1,2) by (auto simp: insert_delivery_def list_ex_iff fill db'_def image_iff)
  moreover have "store_keys db'" using keys new d(1) by (auto simp: store_keys_def db'_def)
  moreover have "store_refs db'" using refs i msg d(1) by (auto simp: store_refs_def db'_def)
  moreover have "store_counts db'"
    using cnt d(1,2) by (auto simp: store_counts_def counts_plus_def db'_def active_in_def)
  ultimately show thesis using that by (simp add: store_inv_def db'_def)
qed

section \<open>The deliveries of a message\<close>

text \<open>The mailbox keys that already hold a delivery of a message.\<close>

definition holding :: "string \<Rightarrow> mail_db \<Rightarrow> ustr set" where
  "holding mid db = {a. \<exists>d \<in> set (deliveries db). dl_message_id d = mid \<and> (dl_mailbox_id d, a) \<in> box_keys db}"

definition owner_address :: "mail_db \<Rightarrow> delivery \<Rightarrow> ustr option" where
  "owner_address db d = map_option mb_address (mailbox_by_id db (dl_mailbox_id d))"

lemma owner_address_iff: "store_keys db \<Longrightarrow> owner_address db d = Some a \<longleftrightarrow> (dl_mailbox_id d, a) \<in> box_keys db"
  by (simp add: owner_address_def mailbox_by_id_Some box_keys_def image_iff map_option_eq_Some) metis

text \<open>What a row of a new delivery holds.\<close>

definition delivered_row :: "string \<Rightarrow> string \<Rightarrow> ustr \<times> domain_match \<times> int option \<Rightarrow> delivery \<Rightarrow> bool" where
  "delivered_row mid at r d \<longleftrightarrow> dl_message_id d = mid \<and> dl_rcpt_to d = fst r \<and> delivered_at d = at
     \<and> dl_status d = Active \<and> deleted_at d = None \<and> delivery_expires_at at (snd (snd r)) = Inr (dl_expires_at d)"

lemma deliver_one_spec:
  assumes inv: "store_inv (mail db)" and dom: "domain_by_id (mail db) (match_domain_id match) \<noteq> None"
    and exp: "delivery_expires_at at ret = Inr e" and fresh: "did \<notin> dl_id ` set (deliveries (mail db))"
    and msg: "mid \<in> msg_id ` set (messages (mail db))" and new: "address_canonical match \<notin> holding mid (mail db)"
  obtains d db' where "deliver_one mid at did (rcpt, match, ret) db = Inr db'" and "store_inv (mail db')"
    and "deliveries (mail db') = deliveries (mail db) @ [d]" and "dl_id d = did"
    and "delivered_row mid at (rcpt, match, ret) d"
    and "box_keys (mail db') = insert (dl_mailbox_id d, address_canonical match) (box_keys (mail db))"
    and "messages (mail db') = messages (mail db)" and "domains (mail db') = domains (mail db)"
    and "smtp_sessions db' = smtp_sessions db" and "metric_buckets db' = metric_buckets db"
proof -
  obtain i db1 where up: "upsert_mailbox match at db = Inr (i, db1)"
    and m1: "store_keys (mail db1)" "store_refs (mail db1)" "counts_plus i (mail db1)"
    and bk: "box_keys (mail db1) = insert (i, address_canonical match) (box_keys (mail db))"
    and fr: "deliveries (mail db1) = deliveries (mail db)" "messages (mail db1) = messages (mail db)"
      "domains (mail db1) = domains (mail db)" "smtp_sessions db1 = smtp_sessions db" "metric_buckets db1 = metric_buckets db"
    by (rule upsert_mailbox_spec [OF inv dom])
  have "(i, address_canonical match) \<in> box_keys (mail db1)" using bk by simp
  then obtain m where m: "m \<in> set (mailboxes (mail db1))" "mb_id m = i" by (auto simp: box_keys_def)
  then have by_id: "mailbox_by_id (mail db1) i = Some m" using m1(1) by (simp add: mailbox_by_id_Some)
  define d where "d = \<lparr>dl_id = did, dl_message_id = mid, dl_mailbox_id = i, dl_rcpt_to = rcpt, delivered_at = at,
      dl_status = Active, deleted_at = None, dl_expires_at = e, dl_notes = None,
      mailbox_generation = bulk_delete_generation m\<rparr>"
  have new': "(dl_message_id d, i) \<notin> (\<lambda>d. (dl_message_id d, dl_mailbox_id d)) ` set (deliveries (mail db1))"
    unfolding d_def delivery.simps
  proof
    assume "(mid, i) \<in> (\<lambda>d. (dl_message_id d, dl_mailbox_id d)) ` set (deliveries (mail db1))"
    then obtain x where x: "x \<in> set (deliveries (mail db))" "dl_message_id x = mid" "dl_mailbox_id x = i" using fr by auto
    then have "i \<in> mb_id ` set (mailboxes (mail db))" using inv by (auto simp: store_inv_def store_refs_def)
    then obtain a where a: "(i, a) \<in> box_keys (mail db)" by (auto simp: box_keys_def)
    then have "a = address_canonical match" using box_keys_inj [OF m1(1)] bk by blast
    then show False using new x a unfolding holding_def by blast
  qed
  have row: "i \<in> mb_id ` set (mailboxes (mail db1))" using m by auto
  have gen: "mailbox_generation d = bulk_delete_generation x" if "x \<in> set (mailboxes (mail db1))" "mb_id x = i" for x
    using same_id [OF m1(1) that(1) m(1)] that(2) m(2) by (simp add: d_def)
  have ids: "dl_mailbox_id d = i" "dl_status d = Active" "dl_id d \<notin> dl_id ` set (deliveries (mail db1))"
      "dl_message_id d \<in> msg_id ` set (messages (mail db1))"
    using fresh fr msg by (simp_all add: d_def)
  obtain mdb where ins: "insert_delivery d (mail db1) = Inr mdb" "store_inv mdb"
      "deliveries mdb = deliveries (mail db1) @ [d]" "mailboxes mdb = mailboxes (mail db1)"
      "messages mdb = messages (mail db1)" "domains mdb = domains (mail db1)"
    by (rule insert_delivery_spec [OF m1 row ids(1,2) gen ids(3) new' ids(4)])
  have "deliver_one mid at did (rcpt, match, ret) db = Inr (db1\<lparr>mail := mdb\<rparr>)"
    using up exp by_id ins(1) by (simp add: deliver_one_def d_def)
  moreover have "box_keys mdb = box_keys (mail db1)" using ins(4) by (simp add: box_keys_def)
  ultimately show thesis
    using that [of "db1\<lparr>mail := mdb\<rparr>" d] ins fr bk exp by (simp add: d_def delivered_row_def)
qed

lemma holding_after:
  assumes inv: "store_inv (mail db)" and inv': "store_inv (mail db')"
    and dl: "deliveries (mail db') = deliveries (mail db) @ [d]" "dl_message_id d = mid"
    and bk: "box_keys (mail db') = insert (dl_mailbox_id d, a) (box_keys (mail db))"
  shows "holding mid (mail db') = insert a (holding mid (mail db))"
proof -
  have k: "store_keys (mail db')" using inv' by (simp add: store_inv_def)
  have old: "(dl_mailbox_id x, b) \<in> box_keys (mail db') \<longleftrightarrow> (dl_mailbox_id x, b) \<in> box_keys (mail db)"
    if "x \<in> set (deliveries (mail db))" for x b
  proof
    assume b: "(dl_mailbox_id x, b) \<in> box_keys (mail db')"
    have "dl_mailbox_id x \<in> mb_id ` set (mailboxes (mail db))" using inv that by (auto simp: store_inv_def store_refs_def)
    then obtain c where c: "(dl_mailbox_id x, c) \<in> box_keys (mail db)" by (auto simp: box_keys_def)
    then have "c = b" using box_keys_inj [OF k b] bk by blast
    then show "(dl_mailbox_id x, b) \<in> box_keys (mail db)" using c by simp
  qed (use bk in simp)
  have "(dl_mailbox_id d, b) \<in> box_keys (mail db') \<longleftrightarrow> b = a" for b
    using box_keys_inj [OF k, of "dl_mailbox_id d" b "dl_mailbox_id d" a] bk by blast
  then show ?thesis unfolding holding_def dl(1) using old dl(2) by (auto simp: bk)
qed

text \<open>The recipients the loop does not skip: the first of each mailbox key.\<close>

fun firsts :: "(int \<times> ustr) list \<Rightarrow> (ustr \<times> domain_match \<times> int option) list \<Rightarrow> (ustr \<times> domain_match \<times> int option) list" where
  "firsts seen [] = []"
| "firsts seen ((r, m, k) # rest) =
     (if (match_domain_id m, address_canonical m) \<in> set seen then firsts seen rest
      else (r, m, k) # firsts ((match_domain_id m, address_canonical m) # seen) rest)"

definition key_of :: "ustr \<times> domain_match \<times> int option \<Rightarrow> int \<times> ustr" where
  "key_of r = (match_domain_id (fst (snd r)), address_canonical (fst (snd r)))"

definition addresses :: "(ustr \<times> domain_match \<times> int option) list \<Rightarrow> ustr list" where
  "addresses rs = map (\<lambda>r. snd (key_of r)) rs"

text \<open>Recipients with one canonical address have one domain.\<close>

definition one_domain :: "(int \<times> ustr) set \<Rightarrow> bool" where
  "one_domain K \<longleftrightarrow> (\<forall>i j a. (i, a) \<in> K \<longrightarrow> (j, a) \<in> K \<longrightarrow> i = j)"

lemma one_domain_mono: "one_domain K \<Longrightarrow> L \<subseteq> K \<Longrightarrow> one_domain L"
  unfolding one_domain_def by blast

lemma one_domain_new:
  "one_domain K \<Longrightarrow> k \<in> K \<Longrightarrow> S \<subseteq> K \<Longrightarrow> k \<notin> S \<Longrightarrow> snd k \<notin> snd ` S"
  unfolding one_domain_def by (metis (no_types, lifting) imageE prod.collapse subsetD)

lemma firsts_addresses:
  assumes "one_domain (set seen \<union> key_of ` set rs)"
  shows "distinct (addresses (firsts seen rs))
    \<and> set (addresses (firsts seen rs)) = set (addresses rs) - snd ` set seen"
  using assms
proof (induction seen rs rule: firsts.induct)
  case (2 seen r m k rest)
  let ?key = "(match_domain_id m, address_canonical m)"
  have key: "key_of (r, m, k) = ?key" by (simp add: key_of_def)
  show ?case
  proof (cases "?key \<in> set seen")
    case True
    then have "address_canonical m \<in> snd ` set seen" by (metis imageI snd_conv)
    then show ?thesis
      using 2(1) [OF True one_domain_mono [OF 2(3)]] True by (auto simp: addresses_def key_of_def)
  next
    case False
    then have "address_canonical m \<notin> snd ` set seen"
      using one_domain_new [OF 2(3), of ?key "set seen"] by (auto simp: key)
    moreover have "one_domain (set (?key # seen) \<union> key_of ` set rest)"
      by (rule one_domain_mono [OF 2(3)]) (auto simp: key_of_def)
    ultimately show ?thesis using 2(2) [OF False] False unfolding addresses_def set_map list.map firsts.simps
      by (auto simp: key_of_def)
  qed
qed (simp add: addresses_def)

lemma deliver_all_spec:
  assumes "store_inv (mail db)" and "mid \<in> msg_id ` set (messages (mail db))"
    and "one_domain (set seen \<union> key_of ` set rs)" and "holding mid (mail db) = snd ` set seen"
    and "\<forall>r \<in> set rs. domain_by_id (mail db) (fst (key_of r)) \<noteq> None"
    and "\<forall>r \<in> set rs. \<exists>e. delivery_expires_at at (snd (snd r)) = Inr e"
    and "inj fresh" and "\<forall>k \<ge> n. fresh k \<notin> dl_id ` set (deliveries (mail db))"
  shows "\<exists>db' new. deliver_all mid at fresh seen n rs db = Inr (n + length new, db')
    \<and> store_inv (mail db') \<and> deliveries (mail db') = deliveries (mail db) @ new
    \<and> list_all2 (delivered_row mid at) (firsts seen rs) new
    \<and> list_all2 (\<lambda>r d. (dl_mailbox_id d, snd (key_of r)) \<in> box_keys (mail db')) (firsts seen rs) new
    \<and> box_keys (mail db) \<subseteq> box_keys (mail db')
    \<and> messages (mail db') = messages (mail db) \<and> domains (mail db') = domains (mail db)
    \<and> smtp_sessions db' = smtp_sessions db \<and> metric_buckets db' = metric_buckets db"
  using assms
proof (induction seen rs arbitrary: db n rule: firsts.induct)
  case (1 seen)
  then show ?case by (intro exI [of _ db] exI [of _ "[]"]) simp
next
  case (2 seen r m k rest)
  let ?key = "(match_domain_id m, address_canonical m)"
  note prems = 2(3-10)
  have key: "key_of (r, m, k) = ?key" by (simp add: key_of_def)
  show ?case
  proof (cases "?key \<in> set seen")
    case True
    have one: "one_domain (set seen \<union> key_of ` set rest)" by (rule one_domain_mono [OF prems(3)]) auto
    show ?thesis
      using 2(1) [OF True prems(1,2) one prems(4) _ _ prems(7,8)] prems(5,6) True by simp
  next
    case False
    have fresh_box: "address_canonical m \<notin> holding mid (mail db)"
      using one_domain_new [OF prems(3), of ?key "set seen"] False prems(4) by (auto simp: key)
    obtain e where e: "delivery_expires_at at k = Inr e" using prems(6) by auto
    have dom: "domain_by_id (mail db) (match_domain_id m) \<noteq> None" using prems(5) by (simp add: key)
    obtain d db1 where one: "deliver_one mid at (fresh n) (r, m, k) db = Inr db1" "store_inv (mail db1)"
        "deliveries (mail db1) = deliveries (mail db) @ [d]" "dl_id d = fresh n"
        "delivered_row mid at (r, m, k) d"
        "box_keys (mail db1) = insert (dl_mailbox_id d, address_canonical m) (box_keys (mail db))"
        "messages (mail db1) = messages (mail db)" "domains (mail db1) = domains (mail db)"
        "smtp_sessions db1 = smtp_sessions db" "metric_buckets db1 = metric_buckets db"
      by (rule deliver_one_spec [OF prems(1) dom e _ prems(2) fresh_box, of "fresh n" r]) (use prems(8) in simp)+
    have "holding mid (mail db1) = snd ` set (?key # seen)"
      using holding_after [OF prems(1) one(2,3) _ one(6), of mid] one(5) prems(4) by (simp add: delivered_row_def)
    moreover have "one_domain (set (?key # seen) \<union> key_of ` set rest)"
      by (rule one_domain_mono [OF prems(3)]) (auto simp: key_of_def)
    moreover have "fresh j \<notin> dl_id ` set (deliveries (mail db1))" if "j \<ge> n + 1" for j
      using prems(8) that injD [OF prems(7), of j n] one(3,4) by auto
    moreover have "domain_by_id (mail db1) i = domain_by_id (mail db) i" for i using one(8) by (simp add: domain_by_id_def)
    ultimately obtain db' new where rest: "deliver_all mid at fresh (?key # seen) (n + 1) rest db1 = Inr (n + 1 + length new, db')"
        "store_inv (mail db')" "deliveries (mail db') = deliveries (mail db1) @ new"
        "list_all2 (delivered_row mid at) (firsts (?key # seen) rest) new"
        "list_all2 (\<lambda>r d. (dl_mailbox_id d, snd (key_of r)) \<in> box_keys (mail db')) (firsts (?key # seen) rest) new"
        "box_keys (mail db1) \<subseteq> box_keys (mail db')"
        "messages (mail db') = messages (mail db1)" "domains (mail db') = domains (mail db1)"
        "smtp_sessions db' = smtp_sessions db1" "metric_buckets db' = metric_buckets db1"
      using 2(2) [OF False one(2), of "n + 1"] prems(2,5,6,7) one(7) by auto
    have "(dl_mailbox_id d, address_canonical m) \<in> box_keys (mail db')" using rest(6) one(6) by auto
    then show ?thesis
      using False one rest by (intro exI [of _ db'] exI [of _ "d # new"]) (auto simp: key_of_def)
  qed
qed

section \<open>The transaction\<close>

lemma mapR_cases:
  assumes "\<And>x. x \<in> set xs \<Longrightarrow> f x = Inl e \<or> (\<exists>y. f x = Inr y \<and> P x y)"
  shows "mapR f xs = Inl e \<or> (\<exists>ys. mapR f xs = Inr ys \<and> list_all2 P xs ys)"
  using assms
proof (induction xs)
  case (Cons x xs)
  have "f x = Inl e \<or> (\<exists>y. f x = Inr y \<and> P x y)" using Cons.prems by simp
  moreover have "mapR f xs = Inl e \<or> (\<exists>ys. mapR f xs = Inr ys \<and> list_all2 P xs ys)" using Cons by simp
  ultimately show ?case by auto
qed simp

lemma at_split: "64 \<notin> set a \<Longrightarrow> 64 \<notin> set b \<Longrightarrow> a @ (64 :: nat) # d = b @ 64 # e \<Longrightarrow> d = e"
proof (induction a arbitrary: b)
  case Nil
  then show ?case by (cases b) auto
next
  case (Cons x a)
  then show ?case by (cases b) auto
qed

lemma match_address_domain:
  assumes "match_address U M a = Some m" and "match_address U M b = Some n"
    and "address_canonical m = address_canonical n"
  shows "match_domain_id m = match_domain_id n"
proof -
  have shape: "\<exists>lp root rule ex. 64 \<notin> set lp \<and> address_canonical x = lp @ 64 # match_domain_ascii x
      \<and> select_rule M (match_domain_ascii x) = Some (root, rule, ex) \<and> match_domain_id x = rule_domain_id rule"
    if "match_address U M c = Some x" for c x
    using that
  proof (rule match_address_Some)
    fix l d root r e k
    assume "select_rule M d = Some (root, r, e)" "valid_local_part U True (canonical_local_part U r l)"
      "x = \<lparr>match_domain_id = rule_domain_id r, match_domain_ascii = d, match_root_domain_ascii = root,
        match_local_part = l, match_local_part_canonical = canonical_local_part U r l,
        address_canonical = canonical_local_part U r l @ 64 # d\<rparr>"
    then show ?thesis by (intro exI [of _ "canonical_local_part U r l"] exI [of _ root] exI [of _ r] exI [of _ e])
      (simp add: valid_local_part_at)
  qed
  obtain lp r1 u1 x1 where 1: "64 \<notin> set lp" "address_canonical m = lp @ 64 # match_domain_ascii m"
      "select_rule M (match_domain_ascii m) = Some (r1, u1, x1)" "match_domain_id m = rule_domain_id u1"
    using shape [OF assms(1)] by blast
  obtain lq r2 u2 x2 where 2: "64 \<notin> set lq" "address_canonical n = lq @ 64 # match_domain_ascii n"
      "select_rule M (match_domain_ascii n) = Some (r2, u2, x2)" "match_domain_id n = rule_domain_id u2"
    using shape [OF assms(2)] by blast
  have "match_domain_ascii m = match_domain_ascii n" using at_split [OF 1(1) 2(1)] 1(2) 2(2) assms(3) by simp
  then show ?thesis using 1 2 by simp
qed

definition roots_stored :: "mail_db \<Rightarrow> bool" where
  "roots_stored db \<longleftrightarrow> (\<forall>d \<in> set (domains db). dom_is_active d \<longrightarrow> stored_root (root_domain_ascii d))"

text \<open>What a recipient that passes the checks of the transaction is.\<close>

definition checked :: "unicode \<Rightarrow> int \<Rightarrow> mail_db \<Rightarrow> ustr \<times> domain_match \<Rightarrow> ustr \<times> domain_match \<times> int option \<Rightarrow> bool" where
  "checked U n db x y \<longleftrightarrow>
     fst y = fst x \<and> match_active_domain U db (fst x) = Inr (Some (fst (snd y)))
     \<and> recipient_match_can_advance (snd x) (fst (snd y))
     \<and> (\<exists>d \<in> set (domains db). dom_id d = match_domain_id (fst (snd y))
          \<and> root_domain_ascii d = match_root_domain_ascii (fst (snd y)) \<and> dom_is_active d
          \<and> n \<le> max_message_size_bytes d \<and> retention_days d = snd (snd y))"

lemma check_recipient_cases:
  assumes "roots_stored db"
  shows "check_recipient U n db x = Inl RecipientPolicyChanged
    \<or> (\<exists>y. check_recipient U n db x = Inr y \<and> checked U n db x y)"
proof -
  obtain r m where x: "x = (r, m)" by (cases x)
  obtain M where M: "match_active_domain U db r = Inr (match_address U M r)"
    using match_active_domain_full [OF assms [unfolded roots_stored_def], of U r] by metis
  show ?thesis
    by (auto simp: x check_recipient_def checked_def M dest!: find_member split: option.splits)
qed

lemma checked_one_domain:
  assumes "roots_stored db" and "list_all2 (checked U n db) xs ys"
  shows "one_domain (key_of ` set ys)"
proof -
  obtain M where M: "load_active_domain_matcher U db = Inr M"
    using match_active_domain_full [OF assms(1) [unfolded roots_stored_def], of U] by metis
  have ad: "\<exists>a. match_address U M a = Some (fst (snd y))" if "y \<in> set ys" for y
  proof -
    obtain x where "checked U n db x y" using assms(2) \<open>y \<in> set ys\<close> by (metis list_all2_conv_all_nth in_set_conv_nth)
    moreover obtain M' where "load_active_domain_matcher U db = Inr M'"
        "match_active_domain U db (fst x) = Inr (match_address U M' (fst x))"
      using match_active_domain_full [OF assms(1) [unfolded roots_stored_def], of U "fst x"] by metis
    ultimately show ?thesis using M by (auto simp: checked_def)
  qed
  show ?thesis unfolding one_domain_def
  proof (intro allI impI)
    fix i j a assume "(i, a) \<in> key_of ` set ys" "(j, a) \<in> key_of ` set ys"
    then obtain y z where y: "y \<in> set ys" "i = match_domain_id (fst (snd y))" "address_canonical (fst (snd y)) = a"
      and z: "z \<in> set ys" "j = match_domain_id (fst (snd z))" "address_canonical (fst (snd z)) = a"
      by (auto simp: key_of_def)
    then show "i = j" using match_address_domain ad [OF y(1)] ad [OF z(1)] by metis
  qed
qed

lemma checked_domain:
  assumes "list_all2 (checked U n db) xs ys" and "y \<in> set ys"
  shows "\<exists>d \<in> set (domains db). dom_id d = fst (key_of y) \<and> retention_days d = snd (snd y)"
  using assms unfolding checked_def key_of_def list_all2_conv_all_nth in_set_conv_nth by fastforce

lemma record_session_spec:
  assumes "distinct (map ss_id (smtp_sessions db))" and db'_def: "db' = record_session so at n from db"
  shows "mail db' = mail db" and "metric_buckets db' = metric_buckets db" and "distinct (map ss_id (smtp_sessions db'))"
    and "ss_id ` set (smtp_sessions db') = ss_id ` set (smtp_sessions db) \<union> set_option so"
proof -
  have upd: "map ss_id (smtp_sessions (update_smtp_session_summary s now c x)) = map ss_id (smtp_sessions x)" for s now c x
    by (simp add: update_smtp_session_summary_def change_session_def)
  have frame: "mail (update_smtp_session_summary s now c x) = mail x"
    "metric_buckets (update_smtp_session_summary s now c x) = metric_buckets x" for s now c x
    by (simp_all add: update_smtp_session_summary_def)
  have "map ss_id (smtp_sessions db') = map ss_id (smtp_sessions db) @
      (case so of None \<Rightarrow> [] | Some s \<Rightarrow> if s \<in> ss_id ` set (smtp_sessions db) then [] else [s])"
    by (auto simp: db'_def record_session_def Let_def upd list_ex_iff unknown_session_def split: option.splits)
  then show "distinct (map ss_id (smtp_sessions db'))"
      "ss_id ` set (smtp_sessions db') = ss_id ` set (smtp_sessions db) \<union> set_option so"
    using assms(1) by (auto simp: set_map [symmetric] simp del: set_map split: option.splits if_splits)
  show "mail db' = mail db" "metric_buckets db' = metric_buckets db"
    by (auto simp: db'_def record_session_def Let_def frame split: option.splits)
qed

lemma increment_mail_metric_spec:
  assumes "distinct (map bucket_ts (metric_buckets db))" and db'_def: "db' = increment_mail_metric ts a b c d db"
  shows "mail db' = mail db" and "smtp_sessions db' = smtp_sessions db" and "distinct (map bucket_ts (metric_buckets db'))"
proof -
  have e: "map bucket_ts (map (\<lambda>r. if bucket_ts r = t then add_metric m r else r) rs) = map bucket_ts rs" for t m rs
    by (simp add: add_metric_def)
  show "distinct (map bucket_ts (metric_buckets db'))"
    using assms(1) by (auto simp: db'_def increment_mail_metric_def Let_def e list_ex_iff simp del: map_map)
  show "mail db' = mail db" "smtp_sessions db' = smtp_sessions db"
    by (auto simp: db'_def increment_mail_metric_def Let_def)
qed

lemma accept_operation_spec:
  assumes inv: "ingest_inv db" and roots: "roots_stored (mail db)"
    and new: "msg_id (acc_message a) \<notin> msg_id ` set (messages (mail db))"
      "raw_path (acc_message a) \<notin> raw_path ` set (messages (mail db))"
    and fresh: "inj fresh" "\<forall>k. fresh k \<notin> dl_id ` set (deliveries (mail db))"
    and exp: "\<forall>d \<in> set (domains (mail db)). \<exists>e. delivery_expires_at (received_at (acc_message a)) (retention_days d) = Inr e"
    and rc: "mapR (check_recipient U (msg_raw_size (acc_message a)) (mail db)) (acc_matches a) = Inr rcpts"
    and ok: "list_all2 (checked U (msg_raw_size (acc_message a)) (mail db)) (acc_matches a) rcpts"
  obtains db' deliv where "accept_operation U fresh a db = Inr db'" and "ingest_inv db'"
    and "messages (mail db') = messages (mail db) @ [acc_message a]"
    and "deliveries (mail db') = deliveries (mail db) @ deliv" and "box_keys (mail db) \<subseteq> box_keys (mail db')"
    and "list_all2 (delivered_row (msg_id (acc_message a)) (received_at (acc_message a))) (firsts [] rcpts) deliv"
    and "list_all2 (\<lambda>r d. (dl_mailbox_id d, snd (key_of r)) \<in> box_keys (mail db')) (firsts [] rcpts) deliv"
proof -
  define m where "m = acc_message a"
  define db1 where "db1 = record_session (msg_session_id m) (received_at m) (msg_raw_size m) (envelope_from m) db"
  define db2 where "db2 = db1\<lparr>mail := (mail db1)\<lparr>messages := messages (mail db1) @ [m]\<rparr>\<rparr>"
  note ss = record_session_spec [OF _ db1_def]
  have i: "store_inv (mail db)" "distinct (map raw_path (messages (mail db)))" "distinct (map ss_id (smtp_sessions db))"
      "\<forall>m \<in> set (messages (mail db)). case msg_session_id m of None \<Rightarrow> True | Some s \<Rightarrow> s \<in> ss_id ` set (smtp_sessions db)"
      "distinct (map bucket_ts (metric_buckets db))"
    using inv by (simp_all add: ingest_inv_def)
  have "\<not> list_ex (\<lambda>x. msg_id x = msg_id m \<or> raw_path x = raw_path m) (messages (mail db1))"
    using new unfolding ss(1) [OF i(3)] list_ex_iff m_def by (metis image_eqI)
  moreover have "list_ex (\<lambda>r. ss_id r = s) (smtp_sessions db1)" if "msg_session_id m = Some s" for s
    using ss(4) [OF i(3)] that unfolding list_ex_iff by (metis UnI2 image_iff option.set_intros)
  ultimately have ins: "insert_message m db1 = Inr db2"
    by (auto simp: insert_message_def db2_def split: option.splits)
  have mail2: "mail db2 = (mail db)\<lparr>messages := messages (mail db) @ [m]\<rparr>" using ss(1) [OF i(3)] by (simp add: db2_def)
  have st2: "store_inv (mail db2)"
    using i(1) new(1) by (auto simp: mail2 store_inv_def store_keys_def store_refs_def store_counts_def active_in_def m_def)
  have none: "holding (msg_id m) (mail db2) = {}"
  proof -
    have "dl_message_id d \<noteq> msg_id m" if "d \<in> set (deliveries (mail db))" for d
      using i(1) new(1) that unfolding store_inv_def store_refs_def m_def by metis
    then show ?thesis by (auto simp: holding_def mail2)
  qed
  have dom: "\<forall>r \<in> set rcpts. domain_by_id (mail db2) (fst (key_of r)) \<noteq> None"
      "\<forall>r \<in> set rcpts. \<exists>e. delivery_expires_at (received_at m) (snd (snd r)) = Inr e"
  proof -
    show "\<forall>r \<in> set rcpts. domain_by_id (mail db2) (fst (key_of r)) \<noteq> None"
      using checked_domain [OF ok] unfolding domain_by_id_None mail2 by (simp add: image_iff) metis
    show "\<forall>r \<in> set rcpts. \<exists>e. delivery_expires_at (received_at m) (snd (snd r)) = Inr e"
      using checked_domain [OF ok] exp unfolding m_def by metis
  qed
  have "\<exists>db' deliv. deliver_all (msg_id m) (received_at m) fresh [] 0 rcpts db2 = Inr (0 + length deliv, db')
    \<and> store_inv (mail db') \<and> deliveries (mail db') = deliveries (mail db2) @ deliv
    \<and> list_all2 (delivered_row (msg_id m) (received_at m)) (firsts [] rcpts) deliv
    \<and> list_all2 (\<lambda>r d. (dl_mailbox_id d, snd (key_of r)) \<in> box_keys (mail db')) (firsts [] rcpts) deliv
    \<and> box_keys (mail db2) \<subseteq> box_keys (mail db')
    \<and> messages (mail db') = messages (mail db2) \<and> domains (mail db') = domains (mail db2)
    \<and> smtp_sessions db' = smtp_sessions db2 \<and> metric_buckets db' = metric_buckets db2"
    by (rule deliver_all_spec [OF st2])
      (use none dom fresh checked_one_domain [OF roots ok] in \<open>auto simp: mail2\<close>)
  then obtain db3 deliv where d: "deliver_all (msg_id m) (received_at m) fresh [] 0 rcpts db2 = Inr (length deliv, db3)"
      "store_inv (mail db3)" "deliveries (mail db3) = deliveries (mail db2) @ deliv"
      "list_all2 (delivered_row (msg_id m) (received_at m)) (firsts [] rcpts) deliv"
      "list_all2 (\<lambda>r d. (dl_mailbox_id d, snd (key_of r)) \<in> box_keys (mail db3)) (firsts [] rcpts) deliv"
      "box_keys (mail db2) \<subseteq> box_keys (mail db3)" "messages (mail db3) = messages (mail db2)"
      "smtp_sessions db3 = smtp_sessions db2" "metric_buckets db3 = metric_buckets db2"
    by auto
  define db4 where "db4 = increment_mail_metric (received_at m) 1 (int (length deliv)) 0 0 db3"
  have b3: "metric_buckets db3 = metric_buckets db" "smtp_sessions db3 = smtp_sessions db1"
    using d(8,9) ss(2) [OF i(3)] by (simp_all add: db2_def)
  note mt = increment_mail_metric_spec [OF _ db4_def, unfolded b3, OF i(5)]
  have "accept_operation U fresh a db = Inr db4"
    using rc ins d(1) by (simp add: accept_operation_def Let_def m_def [symmetric] db1_def [symmetric] db4_def)
  moreover have "ingest_inv db4"
    using i new(2) ss(3,4) [OF i(3)] d(2,7) b3 mt by (auto simp: ingest_inv_def mail2 m_def split: option.splits)
  moreover have "box_keys (mail db2) = box_keys (mail db)" by (simp add: mail2 box_keys_def)
  ultimately show thesis using that [of db4 deliv] d mt mail2 by (simp add: m_def)
qed

section \<open>Properties\<close>

text \<open>
  The tables are consistent, the roots of active domains are stored normalised, and the
  identifiers the transaction takes from its environment are new.
\<close>

definition ready :: "(nat \<Rightarrow> string) \<Rightarrow> message \<Rightarrow> ingest_db \<Rightarrow> bool" where
  "ready fresh m db \<longleftrightarrow> ingest_inv db \<and> roots_stored (mail db)
     \<and> msg_id m \<notin> msg_id ` set (messages (mail db)) \<and> raw_path m \<notin> raw_path ` set (messages (mail db))
     \<and> inj fresh \<and> (\<forall>k. fresh k \<notin> dl_id ` set (deliveries (mail db)))
     \<and> (\<forall>d \<in> set (domains (mail db)). \<exists>e. delivery_expires_at (received_at m) (retention_days d) = Inr e)"

lemma accept_outcome:
  assumes "ready fresh (acc_message a) db"
  obtains (changed) "accept_operation U fresh a db = Inl RecipientPolicyChanged"
  | (committed) db' rcpts deliv where "accept_operation U fresh a db = Inr db'" and "ingest_inv db'"
    and "list_all2 (checked U (msg_raw_size (acc_message a)) (mail db)) (acc_matches a) rcpts"
    and "messages (mail db') = messages (mail db) @ [acc_message a]"
    and "deliveries (mail db') = deliveries (mail db) @ deliv" and "box_keys (mail db) \<subseteq> box_keys (mail db')"
    and "list_all2 (delivered_row (msg_id (acc_message a)) (received_at (acc_message a))) (firsts [] rcpts) deliv"
    and "list_all2 (\<lambda>r d. (dl_mailbox_id d, snd (key_of r)) \<in> box_keys (mail db')) (firsts [] rcpts) deliv"
proof -
  note r = assms [unfolded ready_def]
  have roots: "roots_stored (mail db)" using r by blast
  consider "mapR (check_recipient U (msg_raw_size (acc_message a)) (mail db)) (acc_matches a) = Inl RecipientPolicyChanged"
    | rcpts where "mapR (check_recipient U (msg_raw_size (acc_message a)) (mail db)) (acc_matches a) = Inr rcpts"
      "list_all2 (checked U (msg_raw_size (acc_message a)) (mail db)) (acc_matches a) rcpts"
    using mapR_cases [where f = "check_recipient U (msg_raw_size (acc_message a)) (mail db)"
        and P = "checked U (msg_raw_size (acc_message a)) (mail db)", OF check_recipient_cases [OF roots]] by blast
  then show thesis
  proof cases
    case 1
    then show thesis using changed by (simp add: accept_operation_def Let_def)
  next
    case (2 rcpts)
    show thesis
      by (rule accept_operation_spec [of db a fresh U rcpts]) (use r 2 committed in blast)+
  qed
qed

text \<open>
  C12: the transaction of an accepted message either finds that the routing policy changed and
  does nothing, or commits: it never fails on a constraint. When it commits, every recipient was
  matched again against the domains of the same transaction, the message row is added, and there
  is exactly one new active delivery for each distinct canonical address of the recipients, in the
  mailbox with that address; the tables stay consistent.
\<close>

theorem accept_exactly_once:
  assumes "ready fresh (acc_message a) db"
  shows "accept_operation U fresh a db = Inl RecipientPolicyChanged
    \<or> (\<exists>db' rcpts new. accept_operation U fresh a db = Inr db' \<and> ingest_inv db'
        \<and> list_all2 (checked U (msg_raw_size (acc_message a)) (mail db)) (acc_matches a) rcpts
        \<and> messages (mail db') = messages (mail db) @ [acc_message a]
        \<and> deliveries (mail db') = deliveries (mail db) @ new
        \<and> distinct (map (owner_address (mail db')) new)
        \<and> set (map (owner_address (mail db')) new) = (\<lambda>r. Some (address_canonical (fst (snd r)))) ` set rcpts
        \<and> (\<forall>d \<in> set new. dl_message_id d = msg_id (acc_message a) \<and> dl_status d = Active
              \<and> delivered_at d = received_at (acc_message a)))"
  using assms
proof (cases rule: accept_outcome [where U = U])
  case (committed db' rcpts deliv)
  have keys: "store_keys (mail db')" using committed(2) by (simp add: ingest_inv_def store_inv_def)
  have roots: "roots_stored (mail db)" using assms by (simp add: ready_def)
  have one: "one_domain (set [] \<union> key_of ` set rcpts)" using checked_one_domain [OF roots committed(3)] by simp
  have "map (owner_address (mail db')) deliv = map Some (addresses (firsts [] rcpts))"
    using committed(8) owner_address_iff [OF keys]
    by (auto simp: addresses_def list_all2_conv_all_nth intro!: nth_equalityI)
  moreover have "distinct (addresses (firsts [] rcpts))" "set (addresses (firsts [] rcpts)) = set (addresses rcpts)"
    using firsts_addresses [OF one] by auto
  moreover have "Some ` set (addresses rcpts) = (\<lambda>r. Some (address_canonical (fst (snd r)))) ` set rcpts"
    by (simp add: addresses_def key_of_def image_image)
  moreover have "\<forall>d \<in> set deliv. \<exists>r. delivered_row (msg_id (acc_message a)) (received_at (acc_message a)) r d"
    using committed(7) by (metis list_all2_conv_all_nth in_set_conv_nth)
  ultimately have "distinct (map (owner_address (mail db')) deliv)"
      "set (map (owner_address (mail db')) deliv) = (\<lambda>r. Some (address_canonical (fst (snd r)))) ` set rcpts"
      "\<forall>d \<in> set deliv. dl_message_id d = msg_id (acc_message a) \<and> dl_status d = Active
          \<and> delivered_at d = received_at (acc_message a)"
    by (simp_all add: distinct_map delivered_row_def)
  then show ?thesis using committed(1-5) by blast
qed simp

lemma accept_begin_started:
  assumes "accept_begin E rcpt_tos from content session rt = Inr (Started a raw mpath mf)"
  shows "msg_id (acc_message a) = env_message_id E" and "raw_path (acc_message a) = raw"
    and "msg_raw_size (acc_message a) = int (length content)" and "parse_status (acc_message a) = Pending"
    and "raw \<noteq> mpath"
    and "raw_message_path (env_message_id E) (utc_now (env_now E)) = Inr raw"
    and "manifest_path (env_message_id E) (utc_now (env_now E)) = Inr mpath"
    and "mf_message_id mf = env_message_id E" and "mf_raw_path mf = raw" and "mf_rcpt_tos mf = rcpt_tos"
    and "mf_raw_sha256 mf = raw_sha256 (acc_message a)" and "mf_raw_size_bytes mf = int (length content)"
proof -
  have ne: "p \<noteq> q" if "raw_message_path i t = Inr p" "manifest_path i t = Inr q" for i t p q
    using that by (auto simp: raw_message_path_def manifest_path_def dated_path_def bindR_Inr_iff split: prod.splits)
  obtain ms p q where m: "match_recipients (env_unicode E) (rt_routing rt) rcpt_tos = Inr ms" "ms \<noteq> []"
      "raw_message_path (env_message_id E) (utc_now (env_now E)) = Inr p"
      "manifest_path (env_message_id E) (utc_now (env_now E)) = Inr q"
    using assms by (auto simp: accept_begin_def Let_def bindR_Inr_iff split: if_splits)
  have r: "env_read_error E = None" using assms m by (auto simp: accept_begin_def Let_def split: option.splits)
  obtain P where P: "load_recovery_domain_policies (mail (rt_db rt)) Map.empty ms = Inr P"
    using assms m r by (cases "load_recovery_domain_policies (mail (rt_db rt)) Map.empty ms") (auto simp: accept_begin_def Let_def)
  note b = assms [unfolded accept_begin_def Let_def m bindR.simps r option.case P sum.case]
  show "msg_id (acc_message a) = env_message_id E" "raw_path (acc_message a) = raw"
    "msg_raw_size (acc_message a) = int (length content)" "parse_status (acc_message a) = Pending"
    "raw \<noteq> mpath" "raw_message_path (env_message_id E) (utc_now (env_now E)) = Inr raw"
    "manifest_path (env_message_id E) (utc_now (env_now E)) = Inr mpath"
    "mf_message_id mf = env_message_id E" "mf_raw_path mf = raw" "mf_rcpt_tos mf = rcpt_tos"
    "mf_raw_sha256 mf = raw_sha256 (acc_message a)" "mf_raw_size_bytes mf = int (length content)"
    using b m ne [OF m(3,4)] by auto
qed

lemma accept_begin_error:
  assumes "accept_begin E rcpt_tos from content session rt = Inl e" and "valid_time (env_now E)"
  shows "(\<exists>msg. e = ValueError msg) \<or> env_read_error E = Some e"
proof -
  have ms: "\<exists>msg. e' = ValueError msg" if "match_recipients U M rs = Inl e'" for U M rs e'
    using that by (induction rs) (auto split: option.splits simp: bindR_Inl_iff)
  have p: "parse_utc (utc_now (env_now E)) = Some (env_now E)"
    using parse_utc_text [OF assms(2)] by (simp add: utc_now_def)
  obtain raw mp where paths: "raw_message_path (env_message_id E) (utc_now (env_now E)) = Inr raw"
      "manifest_path (env_message_id E) (utc_now (env_now E)) = Inr mp"
    by (cases "ord2ymd (env_now E div 86400 + 1)")
      (auto simp: raw_message_path_def manifest_path_def dated_path_def path_date_parts_def p)
  show ?thesis
  proof (cases "match_recipients (env_unicode E) (rt_routing rt) rcpt_tos")
    case (Inl e')
    then show ?thesis using assms(1) ms by (auto simp: accept_begin_def Let_def)
  next
    case (Inr ms)
    then show ?thesis
      using assms(1) paths
      by (cases "load_recovery_domain_policies (mail (rt_db rt)) Map.empty ms")
        (auto simp: accept_begin_def Let_def split: if_splits option.splits)
  qed
qed

lemma accept_begin_early:
  assumes "accept_begin E rcpt_tos from content session rt = Inr (Early r)"
  shows "r = PolicyChanged451"
proof -
  obtain ms p q where m: "match_recipients (env_unicode E) (rt_routing rt) rcpt_tos = Inr ms" "ms \<noteq> []"
      "raw_message_path (env_message_id E) (utc_now (env_now E)) = Inr p"
      "manifest_path (env_message_id E) (utc_now (env_now E)) = Inr q"
    using assms by (auto simp: accept_begin_def Let_def bindR_Inr_iff split: if_splits)
  then show ?thesis
    using assms by (cases "load_recovery_domain_policies (mail (rt_db rt)) Map.empty ms")
      (auto simp: accept_begin_def Let_def split: option.splits)
qed

text \<open>What an unfinished acceptance may leave in the storage directory: the raw message, or both files.\<close>

definition leftovers :: "string \<Rightarrow> string \<Rightarrow> nat list \<Rightarrow> manifest \<Rightarrow> (string \<rightharpoonup> stored_file) \<Rightarrow> (string \<rightharpoonup> stored_file) set" where
  "leftovers raw mpath content mf fs =
     {fs, fs(raw \<mapsto> RawFile content), fs(raw \<mapsto> RawFile content, mpath \<mapsto> ManifestFile mf)}"

definition io_errors :: "accept_env \<Rightarrow> exn set" where
  "io_errors E =
     set_option (env_read_error E)
     \<union> (case env_raw_write E of WriteFails e _ \<Rightarrow> {e} | Written \<Rightarrow> {})
     \<union> (case env_manifest_write E of WriteFails e _ \<Rightarrow> {e} | Written \<Rightarrow> {})
     \<union> (case env_writer E of Refused e \<Rightarrow> {e} | Abandoned e \<Rightarrow> {e} | Runs \<Rightarrow> {})"

lemma write_artifacts:
  assumes "write_accept_artifacts E raw mpath content mf fs = (r, fs')"
  shows "fs' \<in> leftovers raw mpath content mf fs"
    and "r = Inl e \<Longrightarrow> e \<in> io_errors E"
    and "r = Inr () \<Longrightarrow> fs' = fs(raw \<mapsto> RawFile content, mpath \<mapsto> ManifestFile mf)"
  using assms by (auto simp: write_accept_artifacts_def write_file_def leftovers_def io_errors_def
      split: write_outcome.splits if_splits)

lemma discard_leaves:
  assumes "fs raw = None" "fs mpath = None"
    and "discard_uncommitted_accept_artifacts fails raw mpath (fs(raw \<mapsto> x, mpath \<mapsto> y)) p \<noteq> fs p"
  shows "fails p \<and> p \<in> {raw, mpath}"
  using assms by (auto simp: discard_uncommitted_accept_artifacts_def unlink_def split: if_splits)

text \<open>A stored message: its row, the bytes it names and a manifest that describes them.\<close>

definition stored :: "string \<Rightarrow> nat list \<Rightarrow> ustr list \<Rightarrow> runtime \<Rightarrow> bool" where
  "stored i content rcpt_tos rt \<longleftrightarrow>
     (\<exists>m mf mpath. m \<in> set (messages (mail (rt_db rt))) \<and> msg_id m = i \<and> parse_status m = Pending
        \<and> rt_files rt (raw_path m) = Some (RawFile content) \<and> rt_files rt mpath = Some (ManifestFile mf)
        \<and> mf_message_id mf = i \<and> mf_raw_path mf = raw_path m \<and> mf_rcpt_tos mf = rcpt_tos
        \<and> mf_raw_sha256 mf = raw_sha256 m \<and> mf_raw_size_bytes mf = msg_raw_size m \<and> ingest_inv (rt_db rt))"

lemma storedI:
  assumes "accept_begin E rcpt_tos from content session rt0 = Inr (Started a raw mpath mf)"
    and "acc_message a \<in> set (messages (mail (rt_db rt)))" and "ingest_inv (rt_db rt)"
    and "rt_files rt = fs(raw \<mapsto> RawFile content, mpath \<mapsto> ManifestFile mf)"
  shows "stored (env_message_id E) content rcpt_tos rt"
  unfolding stored_def using accept_begin_started [OF assms(1)] assms(2-4)
  by (intro exI [of _ "acc_message a"] exI [of _ mf] exI [of _ mpath]) simp

text \<open>How the part after the files ends, for a database that is ready for the message.\<close>

lemma accept_finish_cases:
  assumes fin: "accept_finish E a raw mpath rt = (res, rt')"
    and rd: "ready (env_delivery_id E) (acc_message a) (rt_db rt)"
    and id: "msg_id (acc_message a) \<noteq> []" "0 \<le> msg_raw_size (acc_message a)"
  obtains (acked) "res = Inr (Queued250 (msg_id (acc_message a)))" "rt_files rt' = rt_files rt"
      "acc_message a \<in> set (messages (mail (rt_db rt')))" "ingest_inv (rt_db rt')"
    | (changed) "res = Inr PolicyChanged451" "rt_queue rt' = rt_queue rt" "rt_db rt' = rt_db rt"
      "rt_files rt' = discard_uncommitted_accept_artifacts (env_unlink_fails E) raw mpath (rt_files rt)"
    | (failed) e where "res = Inl e" "e \<in> io_errors E" "rt_files rt' = rt_files rt" "rt_queue rt' = rt_queue rt"
      "rt_db rt' = rt_db rt \<or> acc_message a \<in> set (messages (mail (rt_db rt'))) \<and> ingest_inv (rt_db rt')"
proof (cases "env_writer E")
  case (Refused e)
  then show thesis using fin failed [of e] by (auto simp: accept_finish_def io_errors_def)
next
  case (Abandoned e)
  have "committed_db E a (rt_db rt) = rt_db rt \<or> acc_message a \<in> set (messages (mail (committed_db E a (rt_db rt))))
      \<and> ingest_inv (committed_db E a (rt_db rt))"
    using rd by (cases rule: accept_outcome [where U = "env_unicode E"]) (simp_all add: committed_db_def)
  then show thesis using fin Abandoned failed [of e] by (auto simp: accept_finish_def io_errors_def)
next
  case Runs
  from rd show thesis
  proof (cases rule: accept_outcome [where U = "env_unicode E"])
    case changed
    then show thesis using fin Runs that(2) by (auto simp: accept_finish_def)
  next
    case (committed db' rcpts deliv)
    have "\<exists>q ok. try_enqueue (rt_queue rt) \<lparr>message_id = msg_id (acc_message a), raw_size_bytes = msg_raw_size (acc_message a)\<rparr> = Inr (q, ok)"
      using id by (simp add: try_enqueue_def validate_task_def)
    then obtain q ok where
      "try_enqueue (rt_queue rt) \<lparr>message_id = msg_id (acc_message a), raw_size_bytes = msg_raw_size (acc_message a)\<rparr> = Inr (q, ok)"
      by blast
    then have "res = Inr (Queued250 (msg_id (acc_message a)))" "rt' = rt\<lparr>rt_db := db', rt_queue := q\<rparr>"
      using fin Runs committed(1) by (simp_all add: accept_finish_def Let_def)
    then show thesis using that(1) committed(2,4) by simp
  qed
qed

text \<open>The four ways a call goes: refused before anything is written, answered early, stopped by a write, or brought to the transaction.\<close>

lemma accept_message_cases:
  assumes run: "accept_message E between rcpt_tos from content session rt = (res, rt')"
  obtains (refused) e where "accept_begin E rcpt_tos from content session rt = Inl e" "res = Inl e" "rt' = rt"
  | (early) "res = Inr PolicyChanged451" "rt' = rt"
  | (unwritten) a raw mpath mf e fs where "accept_begin E rcpt_tos from content session rt = Inr (Started a raw mpath mf)"
      "write_accept_artifacts E raw mpath content mf (rt_files rt) = (Inl e, fs)" "res = Inl e" "rt' = rt\<lparr>rt_files := fs\<rparr>"
  | (written) a raw mpath mf fs where "accept_begin E rcpt_tos from content session rt = Inr (Started a raw mpath mf)"
      "write_accept_artifacts E raw mpath content mf (rt_files rt) = (Inr (), fs)"
      "accept_finish E a raw mpath (rt\<lparr>rt_files := fs, rt_db := between (rt_db rt)\<rparr>) = (res, rt')"
proof (cases "accept_begin E rcpt_tos from content session rt")
  case (Inl e)
  then show ?thesis using refused run by (auto simp: accept_message_def)
next
  case (Inr s)
  show ?thesis
  proof (cases s)
    case (Early r)
    then have "r = PolicyChanged451" using accept_begin_early Inr by blast
    then show ?thesis using early run Inr Early by (auto simp: accept_message_def)
  next
    case (Started a raw mpath mf)
    obtain w fs where w: "write_accept_artifacts E raw mpath content mf (rt_files rt) = (w, fs)" by fastforce
    show ?thesis
      using unwritten [of a raw mpath mf _ fs] written [of a raw mpath mf fs] run Inr Started w
      by (cases w) (simp_all add: accept_message_def)
  qed
qed

text \<open>
  C13: what the SMTP client is told is what happened, whatever fails in between. A message
  acknowledged with 250 has its row in the database, its raw bytes in the file the row names and a
  manifest that names the same file, size and digest. After a 451 the database is the one other
  tasks produced, nothing is queued, and every file is as it was except the message's own two files
  where the system refused to remove them. An exception is the \<open>ValueError\<close> of recipients that no
  domain accepts, which leaves everything alone, or an error of reading the policies, of one of the
  two writes or of the writer: then nothing is queued, the database holds the whole message or is
  the one other tasks produced, and the storage directory gained nothing, the raw file, or the raw
  file with its manifest, never a manifest alone.
\<close>

theorem accept_message_atomic:
  assumes run: "accept_message E between rcpt_tos from content session rt = (res, rt')"
    and ready: "\<And>a raw mpath mf. accept_begin E rcpt_tos from content session rt = Inr (Started a raw mpath mf) \<Longrightarrow>
      ready (env_delivery_id E) (acc_message a) (between (rt_db rt))"
    and paths: "\<And>p. raw_message_path (env_message_id E) (utc_now (env_now E)) = Inr p
        \<or> manifest_path (env_message_id E) (utc_now (env_now E)) = Inr p \<Longrightarrow> rt_files rt p = None"
    and env: "env_message_id E \<noteq> []" "valid_time (env_now E)"
  shows "case res of
      Inr (Queued250 i) \<Rightarrow> i = env_message_id E \<and> stored i content rcpt_tos rt'
    | Inr PolicyChanged451 \<Rightarrow> rt_queue rt' = rt_queue rt \<and> rt_db rt' \<in> {rt_db rt, between (rt_db rt)}
        \<and> (\<forall>p. rt_files rt' p \<noteq> rt_files rt p \<longrightarrow> env_unlink_fails E p
             \<and> (raw_message_path (env_message_id E) (utc_now (env_now E)) = Inr p
               \<or> manifest_path (env_message_id E) (utc_now (env_now E)) = Inr p))
    | Inl e \<Rightarrow> rt' = rt \<and> (\<exists>msg. e = ValueError msg)
        \<or> e \<in> io_errors E \<and> rt_queue rt' = rt_queue rt
          \<and> (rt_db rt' \<in> {rt_db rt, between (rt_db rt)} \<or> stored (env_message_id E) content rcpt_tos rt')
          \<and> (\<exists>raw mpath mf. mf_raw_path mf = raw \<and> mf_message_id mf = env_message_id E
               \<and> rt_files rt' \<in> leftovers raw mpath content mf (rt_files rt))"
  using run
proof (cases rule: accept_message_cases)
  case (refused e)
  have "\<exists>mf :: manifest. mf_raw_path mf = [] \<and> mf_message_id mf = env_message_id E"
    by (rule exI [of _ "(undefined :: manifest)\<lparr>mf_raw_path := [], mf_message_id := env_message_id E\<rparr>"]) simp
  then have "\<exists>raw mpath mf. mf_raw_path mf = raw \<and> mf_message_id mf = env_message_id E
      \<and> rt_files rt' \<in> leftovers raw mpath content mf (rt_files rt)" using refused(3) by (auto simp: leftovers_def)
  then show ?thesis using accept_begin_error [OF refused(1) env(2)] refused by (auto simp: io_errors_def)
next
  case early
  then show ?thesis by simp
next
  case (unwritten a raw mpath mf e fs)
  then show ?thesis
    using write_artifacts(1,2) [OF unwritten(2)] accept_begin_started(8,9) [OF unwritten(1)] by auto
next
  case (written a raw mpath mf fs)
  note begun = written(1) and ids = accept_begin_started [OF written(1)]
  have free: "rt_files rt raw = None" "rt_files rt mpath = None"
    by (rule paths, rule disjI1, rule ids(6)) (rule paths, rule disjI2, rule ids(7))
  have fs: "fs = (rt_files rt)(raw \<mapsto> RawFile content, mpath \<mapsto> ManifestFile mf)"
    using write_artifacts(3) [OF written(2)] by simp
  have rd: "ready (env_delivery_id E) (acc_message a) (rt_db (rt\<lparr>rt_files := fs, rt_db := between (rt_db rt)\<rparr>))"
    using ready [OF begun] by simp
  have "msg_id (acc_message a) \<noteq> []" "0 \<le> msg_raw_size (acc_message a)" using ids(1,3) env(1) by simp_all
  with written(3) rd show ?thesis
  proof (cases rule: accept_finish_cases)
    case acked
    then show ?thesis using storedI [OF begun acked(3,4)] fs ids(1) by simp
  next
    case changed
    have "env_unlink_fails E p \<and> p \<in> {raw, mpath}" if "rt_files rt' p \<noteq> rt_files rt p" for p
      by (rule discard_leaves [OF free, of _ "RawFile content" "ManifestFile mf"]) (use that changed(4) fs in simp)
    then show ?thesis using changed ids(6,7) by auto
  next
    case (failed e)
    have "rt_db rt' = between (rt_db rt) \<or> stored (env_message_id E) content rcpt_tos rt'"
      using failed(5) storedI [OF begun] failed(3) fs by auto
    moreover have "rt_files rt' \<in> leftovers raw mpath content mf (rt_files rt)"
      using failed(3) fs by (simp add: leftovers_def)
    ultimately show ?thesis using failed ids(8,9) by auto
  qed
qed

section \<open>Witnesses\<close>

definition ex_ids :: "nat \<Rightarrow> string" where
  "ex_ids k = CHR ''d'' # replicate k CHR ''x''"

definition ex_ingest :: ingest_db where
  "ex_ingest = \<lparr>mail = ex_store\<lparr>domains := map (\<lambda>d. d\<lparr>retention_days := None\<rparr>) (domains ex_store)\<rparr>,
     smtp_sessions = [], metric_buckets = [], rehome_audit = []\<rparr>"

definition ex_accepted_match :: domain_match where
  "ex_accepted_match = \<lparr>match_domain_id = 1, match_domain_ascii = u ''d.co'', match_root_domain_ascii = u ''*'',
     match_local_part = u ''b+x'', match_local_part_canonical = u ''b'', address_canonical = u ''b@d.co''\<rparr>"

definition ex_accepted :: accepted where
  "ex_accepted = \<lparr>acc_message = (ex_message ''n'')\<lparr>msg_session_id := Some ''s'', received_at := ''2024-03-22T15:59:59Z''\<rparr>,
    acc_matches = [(u ''b+x@d.co'', ex_accepted_match), (u ''c@d.co'', ex_accepted_match), (u ''B@d.co'', ex_accepted_match)]\<rparr>"

lemma ex_ids_inj: "inj ex_ids"
  by (auto simp: inj_on_def ex_ids_def dest: arg_cong [of _ _ length])

lemma ex_ingest_inv: "ingest_inv ex_ingest" "roots_stored (mail ex_ingest)"
  by code_simp+

lemma ex_ready:
  assumes "msg_id m \<noteq> ''m''" "raw_path m \<noteq> ''m''"
  shows "ready ex_ids m ex_ingest"
  unfolding ready_def using ex_ingest_inv ex_ids_inj assms
  by (auto simp: ex_ingest_def ex_store_defs ex_ids_def delivery_expires_at_def)

lemma ex_commits: "accept_operation ex_unicode ex_ids ex_accepted ex_ingest \<noteq> Inl RecipientPolicyChanged"
  by code_simp

theorem accept_exactly_once_witness:
  "\<exists>db' rcpts new. accept_operation ex_unicode ex_ids ex_accepted ex_ingest = Inr db' \<and> ingest_inv db'
     \<and> list_all2 (checked ex_unicode (msg_raw_size (acc_message ex_accepted)) (mail ex_ingest)) (acc_matches ex_accepted) rcpts
     \<and> messages (mail db') = messages (mail ex_ingest) @ [acc_message ex_accepted]
     \<and> deliveries (mail db') = deliveries (mail ex_ingest) @ new
     \<and> distinct (map (owner_address (mail db')) new)
     \<and> set (map (owner_address (mail db')) new) = (\<lambda>r. Some (address_canonical (fst (snd r)))) ` set rcpts
     \<and> (\<forall>d \<in> set new. dl_message_id d = msg_id (acc_message ex_accepted) \<and> dl_status d = Active
           \<and> delivered_at d = received_at (acc_message ex_accepted))"
proof -
  have "ready ex_ids (acc_message ex_accepted) ex_ingest"
    by (rule ex_ready) (simp_all add: ex_accepted_def ex_message_def)
  from accept_exactly_once [OF this, of ex_unicode] ex_commits show ?thesis by (simp only: simp_thms)
qed

definition ex_env :: accept_env where
  "ex_env = \<lparr>env_unicode = ex_unicode, env_now = 63846489599, env_order_ns = 7, env_message_id = ''n'',
     env_delivery_id = ex_ids, env_sha256 = (\<lambda>_. ''00''), env_read_error = None, env_raw_write = Written,
     env_manifest_write = Written, env_writer = Runs, env_unlink_fails = (\<lambda>_. False)\<rparr>"

definition ex_runtime :: runtime where
  "ex_runtime = \<lparr>rt_db = ex_ingest, rt_files = Map.empty, rt_queue = projr (parse_queue_init 2 100 1000),
     rt_routing = \<lparr>rules_by_root = Map.empty, catch_all_rule = Some (rule_of (ex_domain 1 ''*''))\<rparr>\<rparr>"

lemma ex_raw_path: "raw_message_path i t = Inr p \<Longrightarrow> p \<noteq> ''m''"
  by (auto simp: raw_message_path_def dated_path_def bindR_Inr_iff)

definition ex_outcome :: "smtp_reply result \<times> runtime" where
  "ex_outcome = accept_message ex_env id [u ''b+x@d.co''] None [1, 2, 3] None ex_runtime"

lemma ex_accept_ready:
  assumes "accept_begin ex_env [u ''b+x@d.co''] None [1, 2, 3] None ex_runtime = Inr (Started a raw mpath mf)"
  shows "ready (env_delivery_id ex_env) (acc_message a) (id (rt_db ex_runtime))"
proof -
  have "msg_id (acc_message a) = ''n''" "raw_path (acc_message a) \<noteq> ''m''"
    using accept_begin_started(1,2,6) [OF assms] ex_raw_path by (simp_all add: ex_env_def)
  then have "ready ex_ids (acc_message a) ex_ingest" by (intro ex_ready) simp_all
  then show ?thesis by (simp add: ex_env_def ex_runtime_def)
qed

theorem accept_message_atomic_witness:
  "case fst ex_outcome of
      Inr (Queued250 i) \<Rightarrow> stored i [1, 2, 3] [u ''b+x@d.co''] (snd ex_outcome)
    | Inr PolicyChanged451 \<Rightarrow> rt_queue (snd ex_outcome) = rt_queue ex_runtime
    | Inl e \<Rightarrow> e \<in> io_errors ex_env \<or> snd ex_outcome = ex_runtime"
proof -
  have run: "accept_message ex_env id [u ''b+x@d.co''] None [1, 2, 3] None ex_runtime = (fst ex_outcome, snd ex_outcome)"
    by (simp add: ex_outcome_def)
  have free: "rt_files ex_runtime p = None" for p by (simp add: ex_runtime_def)
  have env: "env_message_id ex_env \<noteq> []" "valid_time (env_now ex_env)"
    by (simp_all add: ex_env_def valid_time_def seconds_max_def days_before_10000)
  show ?thesis
    by (rule rev_mp, rule accept_message_atomic [OF run _ free env], rule ex_accept_ready, assumption)
      (auto split: sum.splits smtp_reply.splits)
qed

end
