(* ===== verification/Mail_Control.thy ===== *)
theory Mail_Control
  imports Mail_Accept
begin

text \<open>
  Two controls of \<^verbatim>\<open>src/app/runtime.py\<close> around the mail tables: the gate that keeps mail maintenance
  and message acceptance apart (\<open>_begin_mail_maintenance\<close> to \<open>_leave_mail_accept\<close>), as a state machine
  whose steps are the code between two awaits, and the keyset scan that offers every message still
  to be parsed to the parse queue.
\<close>

section \<open>The maintenance gate\<close>

text \<open>
  Where a task of the event loop stands. A flag says whether a task that waits on the condition
  has been notified.
\<close>

datatype gate_pc = WantTurn bool | Draining bool | Maintaining | WantEnter bool | Accepting

record gate =
  mail_maintenance_active :: bool
  active_mail_accepts :: int
  tasks :: "gate_pc list"

definition gate_init :: gate where
  "gate_init = \<lparr>mail_maintenance_active = False, active_mail_accepts = 0, tasks = []\<rparr>"

fun wake :: "gate_pc \<Rightarrow> gate_pc" where
  "wake (WantTurn _) = WantTurn True"
| "wake (Draining _) = Draining True"
| "wake (WantEnter _) = WantEnter True"
| "wake pc = pc"

definition notify_all :: "gate \<Rightarrow> gate" where
  "notify_all g = g\<lparr>tasks := map wake (tasks g)\<rparr>"

definition set_pc :: "nat \<Rightarrow> gate_pc \<Rightarrow> gate \<Rightarrow> gate" where
  "set_pc i pc g = g\<lparr>tasks := (tasks g)[i := pc]\<rparr>"

definition drop_task :: "nat \<Rightarrow> gate \<Rightarrow> gate" where
  "drop_task i g = g\<lparr>tasks := take i (tasks g) @ drop (Suc i) (tasks g)\<rparr>"

text \<open>The body of \<open>_begin_mail_maintenance\<close> from a test of the flag to the next await or the end.\<close>

definition maintenance_pc :: "gate \<Rightarrow> gate_pc" where
  "maintenance_pc g =
     (if mail_maintenance_active g then WantTurn False
      else if active_mail_accepts g \<noteq> 0 then Draining False
      else Maintaining)"

definition begin_mail_maintenance :: "gate \<Rightarrow> gate" where
  "begin_mail_maintenance g =
     g\<lparr>mail_maintenance_active := True, tasks := tasks g @ [maintenance_pc g]\<rparr>"

definition resume_turn :: "nat \<Rightarrow> gate \<Rightarrow> gate" where
  "resume_turn i g = (set_pc i (maintenance_pc g) g)\<lparr>mail_maintenance_active := True\<rparr>"

definition resume_drain :: "nat \<Rightarrow> gate \<Rightarrow> gate" where
  "resume_drain i g = set_pc i (if active_mail_accepts g \<noteq> 0 then Draining False else Maintaining) g"

definition cancel_drain :: "nat \<Rightarrow> gate \<Rightarrow> gate" where
  "cancel_drain i g = notify_all (drop_task i (g\<lparr>mail_maintenance_active := False\<rparr>))"

definition end_mail_maintenance :: "nat \<Rightarrow> gate \<Rightarrow> gate" where
  "end_mail_maintenance i g = notify_all (drop_task i (g\<lparr>mail_maintenance_active := False\<rparr>))"

definition enter_mail_accept :: "gate \<Rightarrow> gate" where
  "enter_mail_accept g =
     (if mail_maintenance_active g then g\<lparr>tasks := tasks g @ [WantEnter False]\<rparr>
      else g\<lparr>active_mail_accepts := active_mail_accepts g + 1, tasks := tasks g @ [Accepting]\<rparr>)"

definition resume_enter :: "nat \<Rightarrow> gate \<Rightarrow> gate" where
  "resume_enter i g =
     (if mail_maintenance_active g then set_pc i (WantEnter False) g
      else (set_pc i Accepting g)\<lparr>active_mail_accepts := active_mail_accepts g + 1\<rparr>)"

definition leave_mail_accept :: "nat \<Rightarrow> gate \<Rightarrow> gate result" where
  "leave_mail_accept i g =
     (if active_mail_accepts g \<le> 0 then Inl (RuntimeError ''mail accept counter underflow'')
      else
        let g1 = (drop_task i g)\<lparr>active_mail_accepts := active_mail_accepts g - 1\<rparr>
        in Inr (if active_mail_accepts g1 = 0 then notify_all g1 else g1))"

text \<open>
  A task that waits for its turn or to enter may be cancelled, notified or not; so may one that
  drains, whose handler clears the flag.
\<close>

inductive gate_step :: "gate \<Rightarrow> gate \<Rightarrow> bool" where
  begin_call: "gate_step g (begin_mail_maintenance g)"
| turn: "i < length (tasks g) \<Longrightarrow> tasks g ! i = WantTurn True \<Longrightarrow> gate_step g (resume_turn i g)"
| turn_cancelled: "i < length (tasks g) \<Longrightarrow> tasks g ! i = WantTurn w \<Longrightarrow> gate_step g (drop_task i g)"
| drain: "i < length (tasks g) \<Longrightarrow> tasks g ! i = Draining True \<Longrightarrow> gate_step g (resume_drain i g)"
| drain_cancelled: "i < length (tasks g) \<Longrightarrow> tasks g ! i = Draining w \<Longrightarrow> gate_step g (cancel_drain i g)"
| end_call: "i < length (tasks g) \<Longrightarrow> tasks g ! i = Maintaining \<Longrightarrow> gate_step g (end_mail_maintenance i g)"
| enter_call: "gate_step g (enter_mail_accept g)"
| enter: "i < length (tasks g) \<Longrightarrow> tasks g ! i = WantEnter True \<Longrightarrow> gate_step g (resume_enter i g)"
| enter_cancelled: "i < length (tasks g) \<Longrightarrow> tasks g ! i = WantEnter w \<Longrightarrow> gate_step g (drop_task i g)"
| leave: "i < length (tasks g) \<Longrightarrow> tasks g ! i = Accepting \<Longrightarrow> leave_mail_accept i g = Inr g' \<Longrightarrow> gate_step g g'"

inductive_cases gate_stepE: "gate_step g g'"

section \<open>The gate keeps maintenance and acceptance apart\<close>

fun owns :: "gate_pc \<Rightarrow> bool" where
  "owns (Draining _) = True"
| "owns Maintaining = True"
| "owns _ = False"

definition owners :: "gate \<Rightarrow> gate_pc list" where
  "owners g = filter owns (tasks g)"

definition accepting :: "gate \<Rightarrow> nat" where
  "accepting g = count_list (tasks g) Accepting"

definition gate_core :: "gate \<Rightarrow> bool" where
  "gate_core g \<longleftrightarrow>
     active_mail_accepts g = int (accepting g)
     \<and> length (owners g) = (if mail_maintenance_active g then 1 else 0)
     \<and> (Maintaining \<in> set (tasks g) \<longrightarrow> Accepting \<notin> set (tasks g))"

definition gate_inv :: "gate \<Rightarrow> bool" where
  "gate_inv g \<longleftrightarrow> gate_core g
     \<and> (WantTurn False \<in> set (tasks g) \<or> WantEnter False \<in> set (tasks g) \<longrightarrow> mail_maintenance_active g)
     \<and> (Draining False \<in> set (tasks g) \<longrightarrow> Accepting \<in> set (tasks g))"

lemma owns_wake [simp]: "owns (wake pc) = owns pc" "owns \<circ> wake = owns"
proof -
  show "owns (wake pc) = owns pc" for pc by (cases pc) simp_all
  then show "owns \<circ> wake = owns" by (simp add: fun_eq_iff)
qed

lemma count_wake [simp]: "count_list (map wake ts) Accepting = count_list ts Accepting"
proof (induction ts)
  case (Cons pc ts)
  then show ?case by (cases pc) simp_all
qed simp

lemma woken [simp]: "WantTurn False \<notin> wake ` A" "WantEnter False \<notin> wake ` A" "Draining False \<notin> wake ` A"
  "Accepting \<in> wake ` A \<longleftrightarrow> Accepting \<in> A" "Maintaining \<in> wake ` A \<longleftrightarrow> Maintaining \<in> A"
proof -
  have "wake p \<noteq> WantTurn False" "wake p \<noteq> WantEnter False" "wake p \<noteq> Draining False"
    "wake p = Accepting \<longleftrightarrow> p = Accepting" "wake p = Maintaining \<longleftrightarrow> p = Maintaining" for p by (cases p; simp)+
  then show "WantTurn False \<notin> wake ` A" "WantEnter False \<notin> wake ` A" "Draining False \<notin> wake ` A"
    "Accepting \<in> wake ` A \<longleftrightarrow> Accepting \<in> A" "Maintaining \<in> wake ` A \<longleftrightarrow> Maintaining \<in> A"
    by (metis imageE imageI)+
qed

lemmas gate_defs = gate_inv_def gate_core_def owners_def accepting_def begin_mail_maintenance_def maintenance_pc_def
  resume_turn_def resume_drain_def cancel_drain_def end_mail_maintenance_def enter_mail_accept_def
  resume_enter_def set_pc_def drop_task_def notify_all_def

lemma notify_inv: "gate_core g \<Longrightarrow> gate_inv (notify_all g)"
  by (simp add: gate_inv_def gate_core_def owners_def accepting_def notify_all_def filter_map)

lemma no_owner: "filter owns ts = [] \<Longrightarrow> Maintaining \<notin> set ts \<and> Draining w \<notin> set ts"
  unfolding filter_empty_conv by (metis owns.simps(1,2))

lemma int_sum_0 [simp]: "int a + int b = 0 \<longleftrightarrow> a = 0 \<and> b = 0"
  by auto

lemma begin_inv: "gate_inv g \<Longrightarrow> gate_inv (begin_mail_maintenance g)"
  using no_owner [of "tasks g"] by (auto simp: gate_defs count_list_0_iff)

lemma enter_inv: "gate_inv g \<Longrightarrow> gate_inv (enter_mail_accept g)"
  using no_owner [of "tasks g"] by (auto simp: gate_defs count_list_0_iff)

text \<open>A step of the task at an index, with the tasks before and after it.\<close>

lemma at_index:
  assumes "i < length (tasks g)" and "tasks g ! i = pc"
  obtains us vs where "tasks g = us @ pc # vs" and "set_pc i pc' g = g\<lparr>tasks := us @ pc' # vs\<rparr>"
    and "drop_task i g = g\<lparr>tasks := us @ vs\<rparr>"
proof -
  define us vs where "us = take i (tasks g)" and "vs = drop (Suc i) (tasks g)"
  have "tasks g = us @ pc # vs" using id_take_nth_drop [OF assms(1)] assms(2) by (simp add: us_def vs_def)
  moreover have "length us = i" using assms(1) by (simp add: us_def)
  ultimately show thesis using that [of us vs] by (auto simp: set_pc_def drop_task_def)
qed

lemma turn_inv:
  assumes "gate_inv g" "i < length (tasks g)" "tasks g ! i = WantTurn True"
  shows "gate_inv (resume_turn i g)"
proof -
  obtain us vs where s: "tasks g = us @ WantTurn True # vs" "set_pc i (maintenance_pc g) g = g\<lparr>tasks := us @ maintenance_pc g # vs\<rparr>"
    using assms(2,3) by (rule at_index)
  then show ?thesis
    using assms(1) no_owner [of us] no_owner [of vs]
    by (auto simp: gate_inv_def gate_core_def owners_def accepting_def resume_turn_def maintenance_pc_def count_list_0_iff)
qed

lemma drain_inv:
  assumes "gate_inv g" "i < length (tasks g)" "tasks g ! i = Draining True"
  shows "gate_inv (resume_drain i g)"
proof -
  let ?pc = "if active_mail_accepts g \<noteq> 0 then Draining False else Maintaining"
  obtain us vs where s: "tasks g = us @ Draining True # vs" "set_pc i ?pc g = g\<lparr>tasks := us @ ?pc # vs\<rparr>"
    using assms(2,3) by (rule at_index)
  then show ?thesis
    using assms(1) no_owner [of us] no_owner [of vs]
    by (auto simp: gate_inv_def gate_core_def owners_def accepting_def resume_drain_def count_list_0_iff split: if_splits)
qed

lemma drop_waiting_inv:
  assumes "gate_inv g" "i < length (tasks g)" "tasks g ! i = pc" "\<not> owns pc" "pc \<noteq> Accepting"
  shows "gate_inv (drop_task i g)"
proof -
  obtain us vs where s: "tasks g = us @ pc # vs" "drop_task i g = g\<lparr>tasks := us @ vs\<rparr>"
    using assms(2,3) by (rule at_index)
  then show ?thesis using assms(1,4,5) by (auto simp: gate_inv_def gate_core_def owners_def accepting_def)
qed

lemma gate_release_inv:
  assumes "gate_inv g" "i < length (tasks g)" "owns (tasks g ! i)"
  shows "gate_inv (notify_all (drop_task i (g\<lparr>mail_maintenance_active := False\<rparr>)))"
proof -
  define pc where "pc = tasks g ! i"
  define h where "h = g\<lparr>mail_maintenance_active := False\<rparr>"
  have "i < length (tasks h)" "tasks h ! i = pc" using assms(2) by (simp_all add: h_def pc_def)
  then obtain us vs where s: "tasks h = us @ pc # vs" "drop_task i h = h\<lparr>tasks := us @ vs\<rparr>" by (rule at_index)
  have pc: "owns pc" "pc \<noteq> Accepting" using assms(3) by (auto simp: pc_def)
  have ts: "tasks g = us @ pc # vs" using s(1) by (simp add: h_def)
  have none: "filter owns us = []" "filter owns vs = []"
    using assms(1) pc(1) by (simp_all add: gate_inv_def gate_core_def owners_def ts split: if_splits)
  have "gate_core (h\<lparr>tasks := us @ vs\<rparr>)"
    using assms(1) pc(2) none no_owner [OF none(1)] no_owner [OF none(2)]
    by (simp add: gate_inv_def gate_core_def owners_def accepting_def h_def ts)
  then show ?thesis using notify_inv s(2) by (simp add: h_def)
qed

lemma enter_resume_inv:
  assumes "gate_inv g" "i < length (tasks g)" "tasks g ! i = WantEnter True"
  shows "gate_inv (resume_enter i g)"
proof (cases "mail_maintenance_active g")
  case True
  obtain us vs where s: "tasks g = us @ WantEnter True # vs" "set_pc i (WantEnter False) g = g\<lparr>tasks := us @ WantEnter False # vs\<rparr>"
    using assms(2,3) by (rule at_index)
  then show ?thesis using assms(1) True by (auto simp: gate_inv_def gate_core_def owners_def accepting_def resume_enter_def count_list_0_iff)
next
  case False
  obtain us vs where s: "tasks g = us @ WantEnter True # vs" "set_pc i Accepting g = g\<lparr>tasks := us @ Accepting # vs\<rparr>"
    using assms(2,3) by (rule at_index)
  then show ?thesis
    using assms(1) False no_owner [of us] no_owner [of vs] by (auto simp: gate_inv_def gate_core_def owners_def accepting_def resume_enter_def count_list_0_iff)
qed

lemma leave_inv:
  assumes "gate_inv g" "i < length (tasks g)" "tasks g ! i = Accepting"
  obtains g' where "leave_mail_accept i g = Inr g'" and "gate_inv g'"
proof -
  obtain us vs where s: "tasks g = us @ Accepting # vs" "drop_task i g = g\<lparr>tasks := us @ vs\<rparr>"
    using assms(2,3) by (rule at_index)
  have n: "active_mail_accepts g = 1 + int (count_list (us @ vs) Accepting)"
    using assms(1) s(1) by (simp add: gate_inv_def gate_core_def accepting_def)
  define g1 where "g1 = g\<lparr>tasks := us @ vs, active_mail_accepts := active_mail_accepts g - 1\<rparr>"
  have l: "leave_mail_accept i g = Inr (if active_mail_accepts g1 = 0 then notify_all g1 else g1)"
    using n s(2) by (simp add: leave_mail_accept_def Let_def g1_def)
  have core: "gate_core g1" using assms(1) s(1) n by (auto simp: gate_inv_def gate_core_def owners_def accepting_def g1_def)
  have "gate_inv g1" if "active_mail_accepts g1 \<noteq> 0"
    using that core assms(1) s(1) n by (auto simp: gate_inv_def g1_def count_list_0_iff)
  then show thesis using that l notify_inv [OF core] by simp
qed

lemma gate_step_inv:
  assumes "gate_inv g" and "gate_step g g'"
  shows "gate_inv g'"
  using assms(2)
proof cases
  case (turn_cancelled i w)
  then show ?thesis using drop_waiting_inv [OF assms(1)] by simp
next
  case (enter_cancelled i w)
  then show ?thesis using drop_waiting_inv [OF assms(1)] by simp
next
  case (leave i)
  then show ?thesis using leave_inv [OF assms(1) leave(1,2)] by force
qed (simp_all add: assms(1) begin_inv enter_inv turn_inv drain_inv enter_resume_inv cancel_drain_def
    end_mail_maintenance_def gate_release_inv)

lemma gate_init_inv: "gate_inv gate_init"
  by (simp add: gate_inv_def gate_core_def gate_init_def owners_def accepting_def)

interpretation gate_sys: step_system "\<lambda>g. g = gate_init" gate_step gate_inv
  by unfold_locales (auto simp: gate_init_inv intro: gate_step_inv)

section \<open>The scan of pending messages\<close>

definition pending_rows :: "mail_db \<Rightarrow> message list" where
  "pending_rows db = sort_key received_at (sort_key msg_id (filter (\<lambda>m. parse_status m = Pending) (messages db)))"

definition row_key :: "message \<Rightarrow> string \<times> string" where
  "row_key m = (received_at m, msg_id m)"

definition after_cursor :: "(string \<times> string) option \<Rightarrow> message \<Rightarrow> bool" where
  "after_cursor after m =
     (case after of
        None \<Rightarrow> True
      | Some (at, i) \<Rightarrow> at < received_at m \<or> received_at m = at \<and> i < msg_id m)"

definition select_page :: "mail_db \<Rightarrow> nat \<Rightarrow> (string \<times> string) option \<Rightarrow> message list" where
  "select_page db n after = take n (filter (after_cursor after) (pending_rows db))"

definition find_pending_parse_task_page ::
  "mail_db \<Rightarrow> (string \<times> string) option \<Rightarrow> nat \<Rightarrow> parse_task list \<times> (string \<times> string) option" where
  "find_pending_parse_task_page db cursor n =
     (let rows0 = select_page db n cursor;
          rows = (if rows0 = [] \<and> cursor \<noteq> None then select_page db n None else rows0)
      in if rows = [] then ([], None)
         else (map (\<lambda>m. \<lparr>message_id = msg_id m, raw_size_bytes = msg_raw_size m\<rparr>) rows, Some (row_key (last rows))))"

text \<open>\<open>requeue_pending_messages_for_parse\<close> under the store lock: one page, each task offered once.\<close>

fun enqueue_page :: "parse_task list \<Rightarrow> parse_queue \<Rightarrow> (nat \<times> parse_queue) result" where
  "enqueue_page [] q = Inr (0, q)"
| "enqueue_page (t # ts) q =
     bindR (try_enqueue q t) (\<lambda>(q1, ok). bindR (enqueue_page ts q1) (\<lambda>(n, q2).
       Inr (if ok then n + 1 else n, q2)))"

definition requeue_page ::
  "mail_db \<Rightarrow> nat \<Rightarrow> (string \<times> string) option \<Rightarrow> parse_queue \<Rightarrow> (nat \<times> (string \<times> string) option \<times> parse_queue) result" where
  "requeue_page db n cursor q =
     (case find_pending_parse_task_page db cursor n of (page, cursor') \<Rightarrow>
        bindR (enqueue_page page q) (\<lambda>(k, q'). Inr (k, cursor', q')))"

text \<open>The pages of consecutive rounds over one table.\<close>

fun pages :: "mail_db \<Rightarrow> nat \<Rightarrow> (string \<times> string) option \<Rightarrow> nat \<Rightarrow> parse_task list list" where
  "pages db n c 0 = []"
| "pages db n c (Suc k) =
     (case find_pending_parse_task_page db c n of (page, c') \<Rightarrow> page # pages db n c' k)"

section \<open>The scan offers every pending message\<close>

lemma sorted_two_keys:
  fixes f :: "'a \<Rightarrow> 'b :: linorder" and g :: "'a \<Rightarrow> 'c :: linorder"
  assumes "sorted (map f xs)" and "\<And>k. sorted (map g (filter (\<lambda>x. f x = k) xs))" and "distinct (map g xs)"
  shows "sorted_wrt (\<lambda>a b. f a < f b \<or> f a = f b \<and> g a < g b) xs"
  using assms
proof (induction xs)
  case (Cons x xs)
  have "sorted (map g (filter (\<lambda>y. f y = k) xs))" for k
    using Cons.prems(2) [of k] by (simp split: if_splits)
  then have "sorted_wrt (\<lambda>a b. f a < f b \<or> f a = f b \<and> g a < g b) xs" using Cons by simp
  moreover have "f x < f y \<or> f x = f y \<and> g x < g y" if y: "y \<in> set xs" for y
  proof (cases "f x = f y")
    case True
    then have "g x \<le> g y" using Cons.prems(2) [of "f x"] y by auto
    moreover have "g x \<noteq> g y" using Cons.prems(3) y by auto
    ultimately show ?thesis using True by simp
  next
    case False
    then show ?thesis using Cons.prems(1) y by force
  qed
  ultimately show ?case by simp
qed simp

lemma pending_rows_set: "set (pending_rows db) = {m \<in> set (messages db). parse_status m = Pending}"
  by (auto simp: pending_rows_def)

lemma pending_rows_sorted:
  assumes "distinct (map msg_id (messages db))"
  shows "sorted_wrt (\<lambda>a b. after_cursor (Some (row_key a)) b) (pending_rows db)"
proof -
  let ?p = "filter (\<lambda>m. parse_status m = Pending) (messages db)"
  have "distinct (map msg_id ?p)" using assms by (simp add: distinct_map_filter)
  then have d: "distinct (map msg_id (pending_rows db))"
    by (simp add: pending_rows_def distinct_map)
  have "sorted (map msg_id (filter (\<lambda>x. received_at x = k) (pending_rows db)))" for k
    by (simp add: pending_rows_def sort_key_stable sorted_filter)
  moreover have "sorted (map received_at (pending_rows db))" by (simp add: pending_rows_def)
  ultimately have "sorted_wrt (\<lambda>a b. received_at a < received_at b \<or> received_at a = received_at b \<and> msg_id a < msg_id b) (pending_rows db)"
    using d by (intro sorted_two_keys)
  then show ?thesis by (rule sorted_wrt_mono_rel [rotated]) (auto simp: after_cursor_def row_key_def)
qed

text \<open>The rows after a cursor are a suffix of the ordered rows.\<close>

definition at :: "mail_db \<Rightarrow> (string \<times> string) option \<Rightarrow> nat \<Rightarrow> bool" where
  "at db c j \<longleftrightarrow> filter (after_cursor c) (pending_rows db) = drop j (pending_rows db)
     \<and> j \<le> length (pending_rows db) \<and> (c = None \<longrightarrow> j = 0)"

lemma filter_suffix:
  assumes "sorted_wrt r xs" and "\<And>a b. r a b \<Longrightarrow> p a \<Longrightarrow> p b"
  shows "\<exists>j \<le> length xs. filter p xs = drop j xs"
  using assms(1)
proof (induction xs)
  case (Cons x xs)
  show ?case
  proof (cases "p x")
    case True
    then have "filter p (x # xs) = x # xs" using Cons.prems assms(2) by (auto simp: filter_id_conv)
    then show ?thesis by (intro exI [of _ 0]) simp
  next
    case False
    then show ?thesis using Cons by (auto intro: exI [of _ "Suc _"])
  qed
qed simp

lemma at_some:
  assumes "distinct (map msg_id (messages db))"
  obtains j where "at db c j"
proof (cases c)
  case None
  then show thesis using that [of 0] by (simp add: at_def after_cursor_def filter_id_conv)
next
  case (Some k)
  have "after_cursor c a \<Longrightarrow> after_cursor (Some (row_key a)) b \<Longrightarrow> after_cursor c b" for a b
    by (auto simp: after_cursor_def row_key_def Some split: prod.splits)
  then obtain j where "j \<le> length (pending_rows db)" "filter (after_cursor c) (pending_rows db) = drop j (pending_rows db)"
    using filter_suffix [OF pending_rows_sorted [OF assms], of "after_cursor c"] by blast
  then show thesis using that Some by (simp add: at_def)
qed

lemma after_asym: "after_cursor (Some (row_key a)) b \<Longrightarrow> \<not> after_cursor (Some (row_key b)) a"
  by (auto simp: after_cursor_def row_key_def)

lemma at_row:
  assumes "distinct (map msg_id (messages db))" and "i < length (pending_rows db)"
  shows "at db (Some (row_key (pending_rows db ! i))) (Suc i)"
proof -
  let ?P = "pending_rows db" and ?p = "after_cursor (Some (row_key (pending_rows db ! i)))"
  have s: "sorted_wrt (\<lambda>a b. after_cursor (Some (row_key a)) b) ?P" by (rule pending_rows_sorted [OF assms(1)])
  have no: "\<not> ?p x" if mem: "x \<in> set (take (Suc i) ?P)" for x
  proof -
    obtain k where k: "k \<le> i" "x = ?P ! k" using mem assms(2) by (auto simp: in_set_conv_nth less_Suc_eq_le)
    show ?thesis
    proof (cases "k = i")
      case False
      then have "k < i" using k(1) by simp
      then have "after_cursor (Some (row_key x)) (?P ! i)"
        using s assms(2) unfolding k(2) sorted_wrt_iff_nth_less by blast
      then show ?thesis by (rule after_asym)
    qed (use k in \<open>simp add: after_cursor_def row_key_def\<close>)
  qed
  have yes: "?p x" if mem: "x \<in> set (drop (Suc i) ?P)" for x
  proof -
    obtain l where l: "l < length ?P - Suc i" "x = ?P ! (Suc i + l)" using mem by (auto simp: in_set_conv_nth)
    then have "i < Suc i + l" "Suc i + l < length ?P" by simp_all
    then show ?thesis using s unfolding l(2) sorted_wrt_iff_nth_less by blast
  qed
  have "filter ?p ?P = filter ?p (take (Suc i) ?P) @ filter ?p (drop (Suc i) ?P)"
    by (metis append_take_drop_id filter_append)
  also have "\<dots> = drop (Suc i) ?P" using no yes by (simp add: filter_empty_conv filter_id_conv)
  finally show ?thesis using assms(2) by (simp add: at_def)
qed

definition task_of :: "message \<Rightarrow> parse_task" where
  "task_of m = \<lparr>message_id = msg_id m, raw_size_bytes = msg_raw_size m\<rparr>"

lemma round:
  assumes d: "distinct (map msg_id (messages db))" and n: "0 < n" and c: "at db c j" and ne: "pending_rows db \<noteq> []"
  defines "len \<equiv> length (pending_rows db)" and "s \<equiv> (if j < length (pending_rows db) then j else 0)"
  obtains c' where "find_pending_parse_task_page db c n = (map task_of (take n (drop s (pending_rows db))), Some c')"
    and "at db (Some c') (min (s + n) len)"
proof -
  let ?P = "pending_rows db"
  have all: "filter (after_cursor None) ?P = ?P" by (simp add: after_cursor_def filter_id_conv)
  have rows: "(if select_page db n c = [] \<and> c \<noteq> None then select_page db n None else select_page db n c) = take n (drop s ?P)"
    using c n ne by (auto simp: select_page_def at_def s_def all)
  have sl: "s < len" using ne by (simp add: s_def len_def)
  have tn: "take n (drop s ?P) \<noteq> []" using sl n by (simp add: len_def)
  have "last (take n (drop s ?P)) = ?P ! (min (s + n) len - 1)"
    using tn sl n by (simp add: last_conv_nth len_def min_def) (auto intro!: arg_cong [of _ _ "(!) ?P"])
  moreover have "at db (Some (row_key (?P ! (min (s + n) len - 1)))) (Suc (min (s + n) len - 1))"
    using sl n by (intro at_row [OF d]) (auto simp: len_def)
  moreover have "Suc (min (s + n) len - 1) = min (s + n) len" using sl n by (simp add: min_def)
  ultimately show thesis
    using that rows tn unfolding find_pending_parse_task_page_def Let_def task_of_def by simp
qed

lemma pages_cover:
  assumes d: "distinct (map msg_id (messages db))" and n: "0 < n" and c: "at db c j"
    and i: "i < length (pending_rows db)"
    and k: "(if j \<le> i then i - j else length (pending_rows db) - j + i) < k"
  shows "task_of (pending_rows db ! i) \<in> set (concat (pages db n c k))"
  using c k
proof (induction k arbitrary: c j)
  case (Suc k)
  let ?P = "pending_rows db"
  define s where "s = (if j < length ?P then j else 0)"
  have ne: "?P \<noteq> []" using i by auto
  obtain c' where c': "find_pending_parse_task_page db c n = (map task_of (take n (drop s ?P)), Some c')"
      "at db (Some c') (min (s + n) (length ?P))"
    using round [OF d n Suc.prems(1) ne] unfolding s_def by metis
  show ?case
  proof (cases "s \<le> i \<and> i < s + n")
    case True
    then have "?P ! i \<in> set (take n (drop s ?P))"
      using i by (auto simp: in_set_conv_nth intro!: exI [of _ "i - s"])
    then show ?thesis using c'(1) by simp
  next
    case False
    then have "(if min (s + n) (length ?P) \<le> i then i - min (s + n) (length ?P)
        else length ?P - min (s + n) (length ?P) + i) < k"
      using Suc.prems(2) i n Suc.prems(1) unfolding s_def at_def by (auto split: if_splits)
    then show ?thesis using Suc.IH [OF c'(2)] c'(1) by simp
  qed
qed simp

section \<open>Properties\<close>

text \<open>
  C14: mail maintenance and message acceptance exclude each other: in every reachable state of the
  gate at most one maintenance runs and none runs while a message is being accepted, whatever is
  cancelled, and a task that finishes accepting never finds the counter exhausted.
\<close>

theorem gate_exclusive:
  assumes "gate_step\<^sup>*\<^sup>* gate_init g"
  shows "count_list (tasks g) Maintaining \<le> 1
    \<and> (Maintaining \<in> set (tasks g) \<longrightarrow> Accepting \<notin> set (tasks g) \<and> mail_maintenance_active g)
    \<and> (\<forall>i < length (tasks g). tasks g ! i = Accepting \<longrightarrow> (\<exists>g'. leave_mail_accept i g = Inr g'))"
proof -
  have inv: "gate_inv g" using gate_sys.reachable_inv [OF refl assms] .
  have "count_list ts Maintaining \<le> length (filter owns ts)" for ts by (induction ts) auto
  moreover have "length (filter owns (tasks g)) \<le> 1"
    using inv by (simp add: gate_inv_def gate_core_def owners_def)
  ultimately have "count_list (tasks g) Maintaining \<le> 1" by (meson le_trans)
  moreover have "mail_maintenance_active g" if "Maintaining \<in> set (tasks g)"
  proof (rule ccontr)
    assume "\<not> mail_maintenance_active g"
    then have "filter owns (tasks g) = []" using inv by (simp add: gate_inv_def gate_core_def owners_def)
    then show False using no_owner that by blast
  qed
  ultimately show ?thesis using inv leave_inv [OF inv] by (metis gate_inv_def gate_core_def)
qed

text \<open>
  C15: the gate never deadlocks and no wake-up is lost: as long as any task is inside the gate, some
  task is running or has been notified.
\<close>

theorem gate_no_deadlock:
  assumes "gate_step\<^sup>*\<^sup>* gate_init g" and "tasks g \<noteq> []"
  shows "\<exists>pc \<in> set (tasks g). pc \<in> {Accepting, Maintaining, WantTurn True, Draining True, WantEnter True}"
proof (rule ccontr)
  assume no: "\<not> ?thesis"
  have inv: "gate_inv g" using gate_sys.reachable_inv [OF refl assms(1)] .
  have asleep: "pc \<in> {WantTurn False, WantEnter False, Draining False}" if "pc \<in> set (tasks g)" for pc
    using no that by (cases pc) auto
  then have acc: "Accepting \<notin> set (tasks g)" by blast
  then have dr: "Draining False \<notin> set (tasks g)" using inv by (simp add: gate_inv_def)
  obtain pc where "pc \<in> set (tasks g)" using assms(2) by (cases "tasks g") auto
  then have "mail_maintenance_active g" using asleep dr inv by (auto simp: gate_inv_def)
  then have "filter owns (tasks g) \<noteq> []" using inv by (auto simp: gate_inv_def gate_core_def owners_def)
  then obtain w where "w \<in> set (tasks g)" "owns w" by (auto simp: filter_empty_conv)
  then show False using asleep [of w] dr by auto
qed

text \<open>
  C16: the scan for messages still to be parsed starves none: from any cursor, also one whose row
  is gone, as many rounds as there are pending messages offer every pending message to the queue,
  whatever the page size.
\<close>

theorem pending_scan_fair:
  assumes "distinct (map msg_id (messages db))" and "0 < n" and "m \<in> set (messages db)" and "parse_status m = Pending"
  shows "\<lparr>message_id = msg_id m, raw_size_bytes = msg_raw_size m\<rparr> \<in> set (concat (pages db n c (length (pending_rows db))))"
proof -
  obtain j where j: "at db c j" using at_some [OF assms(1)] by blast
  have "m \<in> set (pending_rows db)" using assms(3,4) by (simp add: pending_rows_set)
  then obtain i where i: "i < length (pending_rows db)" "pending_rows db ! i = m" by (auto simp: in_set_conv_nth)
  have "task_of (pending_rows db ! i) \<in> set (concat (pages db n c (length (pending_rows db))))"
    by (rule pages_cover [OF assms(1,2) j i(1)]) (use i(1) j in \<open>auto simp: at_def\<close>)
  then show ?thesis by (simp add: i(2) task_of_def)
qed

text \<open>A task that maintains while another waits to enter.\<close>

lemma ex_gate: "gate_step\<^sup>*\<^sup>* gate_init (enter_mail_accept (begin_mail_maintenance gate_init))"
  by (meson gate_step.begin_call gate_step.enter_call rtranclp.intros)

theorem gate_exclusive_witness:
  "tasks (enter_mail_accept (begin_mail_maintenance gate_init)) = [Maintaining, WantEnter False]
   \<and> count_list (tasks (enter_mail_accept (begin_mail_maintenance gate_init))) Maintaining \<le> 1"
  using gate_exclusive [OF ex_gate] by (simp add: gate_defs gate_init_def)

theorem gate_no_deadlock_witness:
  "\<exists>pc \<in> set (tasks (enter_mail_accept (begin_mail_maintenance gate_init))).
     pc \<in> {Accepting, Maintaining, WantTurn True, Draining True, WantEnter True}"
  by (rule gate_no_deadlock [OF ex_gate]) (simp add: gate_defs gate_init_def)

definition ex_pending :: mail_db where
  "ex_pending = ex_store\<lparr>messages := [ex_message ''a'', ex_message ''b'', ex_message ''c'']\<rparr>"

theorem pending_scan_fair_witness:
  "\<lparr>message_id = ''a'', raw_size_bytes = 3\<rparr> \<in> set (concat (pages ex_pending 2 (Some (''3'', ''b'')) 3))"
proof -
  have "length (pending_rows ex_pending) = 3"
    by (simp add: ex_pending_def pending_rows_def ex_message_def)
  then show ?thesis
    using pending_scan_fair [of ex_pending 2 "ex_message ''a''" "Some (''3'', ''b'')"]
    by (simp add: ex_pending_def ex_message_def)
qed

end
