(* ===== verification/Read_Pool.thy ===== *)
theory Read_Pool
  imports Complex_Main Admission "HOL-Library.Multiset"
begin

text \<open>
  \<^verbatim>\<open>src/app/db/read_pool.py\<close>: the bounded pool of SQLite read actors. Callers acquire
  capacity through the protocol of \<open>Admission\<close>; each worker thread owns a queue and a
  connection and answers the requests dispatched to it in turn. Maintenance pauses the
  pool, drains it and has every connection closed before it touches the database file.
\<close>

section \<open>One read: retries, deadlines and a replaced database\<close>

text \<open>Device and inode of the database file.\<close>

type_synonym identity = "nat \<times> nat"

datatype read_error = SqliteError string | OtherError string

fun is_sqlite :: "read_error \<Rightarrow> bool" where
  "is_sqlite (SqliteError _) = True"
| "is_sqlite (OtherError _) = False"

record conn_slot =
  slot_identity :: identity
  usable :: bool

text \<open>
  A worker's handle on its connection: the local variable \<open>slot\<close> (the connection object in
  it may have been closed: \<open>usable\<close> is then false) and the worker's \<open>connection_open\<close> flag.
\<close>

type_synonym handle = "conn_slot option \<times> bool"

definition close_connection :: "handle \<Rightarrow> handle" where
  "close_connection h = (case h of (None, f) \<Rightarrow> (None, f) | (Some _, _) \<Rightarrow> (None, False))"

text \<open>
  What the outside does during one attempt: \<open>stat\<close> results (\<open>None\<close>: \<open>OSError\<close>), the two
  tries to open, what the operation does, the reason noted by the progress handler, whether
  a transaction is open afterwards, how a rollback ends, and the cancellation flag and clock
  before and after.
\<close>

datatype open_outcome = OpenRaises read_error | Opened "identity option"

datatype 'v op_outcome = OpReturned 'v | OpRaised read_error

datatype interruption = ReasonCancelled | ReasonTimeout

datatype rollback_outcome = RollbackDone | RollbackFails read_error

record 'v attempt_env =
  cancelled_before :: bool
  expired_before :: bool
  stat_before :: "identity option"
  first_open :: open_outcome
  stat_between :: "identity option"
  second_open :: open_outcome
  operation :: "'v op_outcome"
  interruption_reason :: "interruption option"
  in_transaction :: bool
  rollback :: rollback_outcome
  stat_after :: "identity option"
  cancelled_after :: bool
  expired_after :: bool

definition database_identity :: "identity option \<Rightarrow> read_error + identity" where
  "database_identity st =
     (case st of None \<Rightarrow> Inl (SqliteError ''database file is unavailable'') | Some i \<Rightarrow> Inr i)"

definition replaced_error :: "string \<Rightarrow> read_error" where
  "replaced_error what = SqliteError what"

text \<open>One round of the loop: an error, a connection to the expected file, or another file.\<close>

definition open_round :: "open_outcome \<Rightarrow> identity \<Rightarrow> read_error + identity option" where
  "open_round out expected =
     (case out of
        OpenRaises e \<Rightarrow> Inl e
      | Opened st \<Rightarrow>
          bindR (database_identity st) (\<lambda>actual. Inr (if actual = expected then Some actual else None)))"

definition open_current_database :: "'v attempt_env \<Rightarrow> identity \<Rightarrow> read_error + identity" where
  "open_current_database env expected =
     bindR (open_round (first_open env) expected) (\<lambda>r1.
       case r1 of Some actual \<Rightarrow> Inr actual
       | None \<Rightarrow>
           bindR (database_identity (stat_between env)) (\<lambda>expected'.
             bindR (open_round (second_open env) expected') (\<lambda>r2.
               case r2 of Some actual \<Rightarrow> Inr actual
               | None \<Rightarrow> Inl (replaced_error ''database changed while opening read connection''))))"

text \<open>
  \<open>_ensure_connection\<close>: when it raises after closing the old connection, the caller's
  variable still holds that closed connection.
\<close>

definition ensure_connection :: "'v attempt_env \<Rightarrow> handle \<Rightarrow> (read_error + unit) \<times> handle" where
  "ensure_connection env h =
     (case database_identity (stat_before env) of
        Inl e \<Rightarrow> (Inl e, h)
      | Inr current \<Rightarrow>
          (if (case fst h of None \<Rightarrow> False | Some c \<Rightarrow> slot_identity c = current) then (Inr (), h)
           else
             (case open_current_database env current of
                Inl e \<Rightarrow> (Inl e, (map_option (usable_update (\<lambda>_. False)) (fst h),
                                   snd (close_connection h)))
              | Inr actual \<Rightarrow> (Inr (), (Some \<lparr>slot_identity = actual, usable = True\<rparr>, True)))))"

text \<open>The body of the \<open>try\<close>.\<close>

definition read_once :: "'v attempt_env \<Rightarrow> handle \<Rightarrow> (read_error + 'v) \<times> handle" where
  "read_once env h0 =
     (case ensure_connection env h0 of
        (Inl e, h) \<Rightarrow> (Inl e, h)
      | (Inr _, h) \<Rightarrow>
          (case operation env of
             OpRaised e \<Rightarrow> (Inl e, h)
           | OpReturned v \<Rightarrow>
               (case (if in_transaction env then rollback env else RollbackDone) of
                  RollbackFails e \<Rightarrow> (Inl e, h)
                | RollbackDone \<Rightarrow>
                    (case database_identity (stat_after env) of
                       Inl e \<Rightarrow> (Inl e, h)
                     | Inr now \<Rightarrow>
                         (if map_option slot_identity (fst h) \<noteq> Some now
                          then (Inl (replaced_error ''database was replaced during read''), h)
                          else (Inr v, h))))))"

text \<open>
  The rollback in an \<open>except\<close> clause: \<open>in_transaction\<close> of a closed connection raises
  \<open>ProgrammingError\<close>, outside the inner \<open>try\<close>; a rollback that fails with a
  \<open>sqlite3.Error\<close> closes the connection, any other error leaves the clause.
\<close>

definition rollback_open :: "'v attempt_env \<Rightarrow> handle \<Rightarrow> read_error + handle" where
  "rollback_open env h =
     (case fst h of
        None \<Rightarrow> Inr h
      | Some c \<Rightarrow>
          if \<not> usable c then Inl (SqliteError ''Cannot operate on a closed database.'')
          else if in_transaction env then
            (case rollback env of
               RollbackDone \<Rightarrow> Inr h
             | RollbackFails e \<Rightarrow> if is_sqlite e then Inr (close_connection h) else Inl e)
          else Inr h)"

datatype 'v answer = AnswerValue 'v | AnswerCancelled | AnswerTimeout | AnswerError read_error

text \<open>How an attempt ends: answered, retried, or with an error that leaves the method.\<close>

datatype 'v attempt = Answered "'v answer" handle | Retry handle | Crash read_error handle

definition answer_after_rollback :: "'v answer \<Rightarrow> 'v attempt_env \<Rightarrow> handle \<Rightarrow> 'v attempt" where
  "answer_after_rollback a env h =
     (case rollback_open env h of Inl e \<Rightarrow> Crash e h | Inr h' \<Rightarrow> Answered a h')"

definition run_attempt :: "bool \<Rightarrow> 'v attempt_env \<Rightarrow> handle \<Rightarrow> 'v attempt" where
  "run_attempt is_last env h0 =
     (if cancelled_before env then Answered AnswerCancelled h0
      else if expired_before env then Answered AnswerTimeout h0
      else
        case read_once env h0 of
          (Inr v, h) \<Rightarrow> Answered (AnswerValue v) h
        | (Inl e, h) \<Rightarrow>
            if is_sqlite e then
              (if cancelled_after env \<or> interruption_reason env = Some ReasonCancelled then
                 answer_after_rollback AnswerCancelled env h
               else if interruption_reason env = Some ReasonTimeout \<or> expired_after env then
                 answer_after_rollback AnswerTimeout env h
               else if is_last then Answered (AnswerError e) (close_connection h)
               else Retry (close_connection h))
            else answer_after_rollback (AnswerError e) env h)"

text \<open>\<open>_run_request\<close>: the answer with the connection kept, or the error that leaves it.\<close>

definition run_read ::
  "'v attempt_env \<times> 'v attempt_env \<Rightarrow> handle \<Rightarrow> (read_error \<times> handle) + ('v answer \<times> handle)" where
  "run_read envs h0 =
     (case run_attempt False (fst envs) h0 of
        Answered x h \<Rightarrow> Inr (x, h)
      | Crash e h \<Rightarrow> Inl (e, h)
      | Retry h1 \<Rightarrow>
          (case run_attempt True (snd envs) h1 of
             Answered x h \<Rightarrow> Inr (x, h)
           | Crash e h \<Rightarrow> Inl (e, h)
           | Retry h \<Rightarrow> Inl (OtherError ''unreachable SQLite retry state'', h)))"

section \<open>State of the pool\<close>

datatype pool_item = ReadRequest nat | PoolPause | PoolStop

text \<open>
  Where a worker thread is: not started, at \<open>queue.get()\<close>, holding a request or a pause
  control, unwinding with the request it had (before and after \<open>_begin_worker_failure\<close>),
  failing its queue, in its \<open>finally\<close> block, or gone.
\<close>

datatype pool_pc =
    NotRunning
  | Getting
  | Reading nat
  | PauseGot
  | Crashed nat read_error
  | FailActive nat read_error
  | FailQueue read_error
  | Finishing
  | Gone

datatype pool_future = FuturePending | FutureDone | FutureError

record read_worker =
  rqueue :: "pool_item list"
  thread :: pool_pc
  slot :: "conn_slot option"
  connection_open :: bool
  stopped :: bool

text \<open>
  The part of the pool beside its admission: \<open>dispatching\<close> counts the callers between the
  return of \<open>_acquire_capacity\<close> and the locked section of \<open>_submit\<close>; \<open>answers\<close> holds the
  results of the accepted requests, numbered by \<open>next_read\<close>.
\<close>

record 'v actors =
  read_workers :: "read_worker list"
  next_worker :: nat
  pause_controls_enqueued :: bool
  pause_ack_count :: nat
  pause_complete :: "pool_future option"
  pool_stop_enqueued :: bool
  stopped_worker_count :: nat
  fatal_error :: "read_error option"
  pool_closed :: pool_future
  owner_pid :: "nat option"
  dispatching :: nat
  next_read :: nat
  answers :: "nat \<rightharpoonup> 'v answer"

record 'v read_pool = admission +
  actors :: "'v actors"

definition max_connections :: "'v read_pool \<Rightarrow> nat" where
  "max_connections s = length (read_workers (actors s))"

definition new_worker :: read_worker where
  "new_worker = \<lparr>rqueue = [], thread = NotRunning, slot = None, connection_open = False, stopped = False\<rparr>"

definition pool_init :: "int \<Rightarrow> int \<Rightarrow> int \<Rightarrow> rat \<Rightarrow> 'v read_pool result" where
  "pool_init connections capacity waiters_max timeout_seconds =
     (if connections < 1 then Inl (ValueError ''max_connections must be at least one'')
      else if capacity < 1 then Inl (ValueError ''queue_capacity must be at least one'')
      else if waiters_max < 1 then Inl (ValueError ''max_waiters must be at least one'')
      else if capacity < connections then
        Inl (ValueError ''queue_capacity must be at least max_connections'')
      else if timeout_seconds \<le> 0 then Inl (ValueError ''timeout_seconds must be positive'')
      else Inr \<lparr>queue_capacity = nat capacity, max_waiters = nat waiters_max, life = New,
                outstanding = 0, admission_waiters = [], waiters = Map.empty, next_waiter = 0,
                scheduled = [], rejections = [],
                actors = \<lparr>read_workers = replicate (nat connections) new_worker, next_worker = 0,
                  pause_controls_enqueued = False, pause_ack_count = 0, pause_complete = None,
                  pool_stop_enqueued = False, stopped_worker_count = 0, fatal_error = None,
                  pool_closed = FuturePending, owner_pid = None, dispatching = 0, next_read = 0,
                  answers = Map.empty\<rparr>\<rparr>)"

definition with_actors :: "('v actors \<Rightarrow> 'v actors) \<Rightarrow> 'v read_pool \<Rightarrow> 'v read_pool" where
  "with_actors f s = s\<lparr>actors := f (actors s)\<rparr>"

definition upd_worker :: "nat \<Rightarrow> (read_worker \<Rightarrow> read_worker) \<Rightarrow> 'v actors \<Rightarrow> 'v actors" where
  "upd_worker i f a = a\<lparr>read_workers := (read_workers a)[i := f (read_workers a ! i)]\<rparr>"

definition put_item :: "pool_item \<Rightarrow> read_worker \<Rightarrow> read_worker" where
  "put_item x w = w\<lparr>rqueue := rqueue w @ [x]\<rparr>"

definition thread_alive :: "read_worker \<Rightarrow> bool" where
  "thread_alive w \<longleftrightarrow> thread w \<noteq> NotRunning \<and> thread w \<noteq> Gone"

record pool_report =
  rep_ok :: bool
  rep_state :: life
  workers_running :: nat
  workers_configured :: nat
  connections_open :: nat
  rep_outstanding :: int
  rep_waiting :: nat

definition operational_state :: "'v read_pool \<Rightarrow> pool_report" where
  "operational_state s =
     (let ws = read_workers (actors s);
          running_workers = length (filter (\<lambda>w. thread_alive w \<and> \<not> stopped w) ws)
      in \<lparr>rep_ok = (life s = Open \<and> fatal_error (actors s) = None
                      \<and> running_workers = max_connections s),
          rep_state = life s, workers_running = running_workers,
          workers_configured = max_connections s,
          connections_open = length (filter connection_open ws),
          rep_outstanding = outstanding s, rep_waiting = waiting_count s\<rparr>)"

section \<open>Operations of the callers\<close>

definition pool_closed_error :: "string \<Rightarrow> exn" where
  "pool_closed_error m = RuntimeError m"

definition pool_paused_error :: exn where
  "pool_paused_error = RuntimeError ''SQLite read pool is paused for maintenance''"

definition assert_owner_process_locked :: "nat \<Rightarrow> 'v read_pool \<Rightarrow> unit result" where
  "assert_owner_process_locked pid s =
     (case owner_pid (actors s) of
        None \<Rightarrow> Inr ()
      | Some p \<Rightarrow> if p \<noteq> pid then
            Inl (RuntimeError ''started SQLite read pool cannot be used after fork'')
          else Inr ())"

definition pool_raise_if_not_open :: "nat \<Rightarrow> 'v read_pool \<Rightarrow> unit result" where
  "pool_raise_if_not_open pid s =
     bindR (assert_owner_process_locked pid s) (\<lambda>_.
       if life s = Pausing \<or> life s = Paused then Inl pool_paused_error
       else if life s \<noteq> Open then
         Inl (pool_closed_error ''SQLite read pool is not started or is closing'')
       else Inr ())"

definition put_all :: "pool_item \<Rightarrow> 'v actors \<Rightarrow> 'v actors" where
  "put_all x a = a\<lparr>read_workers := map (put_item x) (read_workers a)\<rparr>"

definition advance_lifecycle_locked :: "'v read_pool \<Rightarrow> 'v read_pool" where
  "advance_lifecycle_locked s =
     (if outstanding s \<noteq> 0 then s
      else if life s = Pausing \<and> \<not> pause_controls_enqueued (actors s) then
        with_actors (\<lambda>a. (put_all PoolPause a)\<lparr>pause_controls_enqueued := True\<rparr>) s
      else if life s = Closing \<and> \<not> pool_stop_enqueued (actors s) then
        with_actors (\<lambda>a. (put_all PoolStop a)\<lparr>pool_stop_enqueued := True\<rparr>) s
      else s)"

text \<open>
  \<open>start\<close>, where \<open>started\<close> is the number of threads that could be started; when it is less
  than the number of workers, the started ones are stopped and joined and the pool is closed.
\<close>

definition start_pool :: "nat \<Rightarrow> nat \<Rightarrow> 'v read_pool \<Rightarrow> unit result \<times> 'v read_pool" where
  "start_pool pid started s =
     (if life s = Open then (assert_owner_process_locked pid s, s)
      else if life s \<noteq> New then
        (Inl (pool_closed_error ''SQLite read pool cannot be started''), s)
      else if max_connections s \<le> started then
        (Inr (),
         (with_actors (\<lambda>a. a\<lparr>owner_pid := Some pid,
            read_workers := map (thread_update (\<lambda>_. Getting)) (read_workers a)\<rparr>) s)\<lparr>life := Open\<rparr>)
      else
        (Inl (RuntimeError ''cannot start thread''),
         (with_actors (\<lambda>a. a\<lparr>owner_pid := Some pid,
            read_workers := map (\<lambda>w. w\<lparr>thread := Gone, stopped := True\<rparr>) (take started (read_workers a))
              @ drop started (read_workers a),
            stopped_worker_count := stopped_worker_count a + started,
            fatal_error := Some (OtherError ''cannot start thread''),
            pool_closed := (if pool_closed a = FuturePending then FutureError else pool_closed a)\<rparr>)
            s)\<lparr>life := Closed\<rparr>))"

definition fail_pause :: "'v actors \<Rightarrow> 'v actors" where
  "fail_pause a =
     (if pause_complete a = Some FuturePending then a\<lparr>pause_complete := Some FutureError\<rparr> else a)"

definition pause_and_drain :: "nat \<Rightarrow> 'v read_pool \<Rightarrow> unit result \<times> 'v read_pool" where
  "pause_and_drain pid s =
     (case assert_owner_process_locked pid s of
        Inl e \<Rightarrow> (Inl e, s)
      | Inr _ \<Rightarrow>
          if life s = Paused then (Inr (), s)
          else if life s = Open then
            (Inr (), advance_lifecycle_locked
               (with_actors (pause_complete_update (\<lambda>_. Some FuturePending))
                 (reject_waiters (s\<lparr>life := Pausing\<rparr>))))
          else if life s \<noteq> Pausing then
            (Inl (pool_closed_error ''SQLite read pool is not available''), s)
          else (Inr (), s))"

definition resume_pool :: "nat \<Rightarrow> 'v read_pool \<Rightarrow> unit result \<times> 'v read_pool" where
  "resume_pool pid s =
     (case assert_owner_process_locked pid s of
        Inl e \<Rightarrow> (Inl e, s)
      | Inr _ \<Rightarrow>
          if life s = Paused then
            (Inr (), (with_actors (\<lambda>a. a\<lparr>pause_controls_enqueued := False, pause_ack_count := 0,
                        pause_complete := None\<rparr>) s)\<lparr>life := Open\<rparr>)
          else if life s \<in> {Closing, Closed, Open} then (Inr (), s)
          else (Inl (RuntimeError ''SQLite read pool has not finished pausing''), s))"

definition close_pool :: "nat \<Rightarrow> 'v read_pool \<Rightarrow> unit result \<times> 'v read_pool" where
  "close_pool pid s =
     (if life s = New then
        (Inr (), (with_actors (pool_closed_update (\<lambda>_. FutureDone)) s)\<lparr>life := Closed\<rparr>)
      else
        case assert_owner_process_locked pid s of
          Inl e \<Rightarrow> (Inl e, s)
        | Inr _ \<Rightarrow>
            if life s \<notin> {Closing, Closed} then
              (Inr (), advance_lifecycle_locked
                 (with_actors fail_pause (reject_waiters (s\<lparr>life := Closing\<rparr>))))
            else (Inr (), s))"

definition pool_release_capacity :: "'v read_pool \<Rightarrow> 'v read_pool result" where
  "pool_release_capacity s =
     (if outstanding s \<le> 0 then Inl (RuntimeError ''SQLite read capacity counter underflow'')
      else Inr (advance_lifecycle_locked (schedule_admission_grants
             (grant_waiters_locked (s\<lparr>outstanding := outstanding s - 1\<rparr>)))))"

definition pool_cancel_admission :: "nat \<Rightarrow> 'v read_pool \<Rightarrow> 'v read_pool" where
  "pool_cancel_admission w s =
     advance_lifecycle_locked (schedule_admission_grants (grant_waiters_locked (drop_admission w s)))"

definition pool_deliver_grant :: "nat \<Rightarrow> 'v read_pool \<Rightarrow> 'v read_pool" where
  "pool_deliver_grant w s =
     (case deliver_admission_grant w s of
        Inl t \<Rightarrow> t\<lparr>scheduled := remove1 w (scheduled s)\<rparr>
      | Inr t \<Rightarrow> advance_lifecycle_locked (schedule_admission_grants
                  (grant_waiters_locked (t\<lparr>scheduled := remove1 w (scheduled s)\<rparr>))))"

text \<open>A delivery that could not be scheduled because the caller's event loop is closed.\<close>

definition pool_grant_undeliverable :: "nat \<Rightarrow> 'v read_pool \<Rightarrow> 'v read_pool" where
  "pool_grant_undeliverable w s = pool_cancel_admission w (s\<lparr>scheduled := remove1 w (scheduled s)\<rparr>)"

definition pool_acquire_capacity :: "nat \<Rightarrow> 'v read_pool \<Rightarrow> nat option result \<times> 'v read_pool" where
  "pool_acquire_capacity pid s =
     (case pool_raise_if_not_open pid s of
        Inl e \<Rightarrow> (Inl e, s)
      | Inr _ \<Rightarrow>
          (case acquire_locked ''SQLite read admission queue is full'' s of
             (Inr None, t) \<Rightarrow> (Inr None, with_actors (dispatching_update Suc) t)
           | (r, t) \<Rightarrow> (r, t)))"

text \<open>The caller wakes with a resolved future: it owns the slot or raises the closed error.\<close>

definition pool_resume_waiter :: "nat \<Rightarrow> 'v read_pool \<Rightarrow> unit result \<times> 'v read_pool" where
  "pool_resume_waiter w s =
     (case consume_admission w s of
        None \<Rightarrow> (Inl (pool_closed_error ''SQLite read pool is unavailable''), pool_cancel_admission w s)
      | Some t \<Rightarrow> (Inr (), with_actors (dispatching_update Suc) t))"

text \<open>The locked section of \<open>_submit\<close>, entered with an admitted slot.\<close>

definition pool_submit :: "'v read_pool \<Rightarrow> nat result \<times> 'v read_pool" where
  "pool_submit s0 =
     (let s = with_actors (dispatching_update (\<lambda>n. n - 1)) s0; a = actors s in
      if fatal_error a \<noteq> None \<or> life s = Closed then
        (Inl (pool_closed_error ''SQLite read pool actor failed before dispatch''),
         advance_lifecycle_locked (s\<lparr>outstanding := outstanding s - 1\<rparr>))
      else
        (Inr (next_read a),
         with_actors (\<lambda>a. (upd_worker (next_worker a) (put_item (ReadRequest (next_read a))) a)
             \<lparr>next_worker := (next_worker a + 1) mod length (read_workers a),
              next_read := next_read a + 1\<rparr>) s))"

section \<open>The worker threads\<close>

definition worker_take :: "read_worker \<Rightarrow> read_worker" where
  "worker_take w =
     (case rqueue w of
        [] \<Rightarrow> w
      | PoolStop # q \<Rightarrow> w\<lparr>rqueue := q, thread := Finishing\<rparr>
      | PoolPause # q \<Rightarrow> w\<lparr>rqueue := q, thread := PauseGot\<rparr>
      | ReadRequest r # q \<Rightarrow> w\<lparr>rqueue := q, thread := Reading r\<rparr>)"

definition set_handle :: "handle \<Rightarrow> read_worker \<Rightarrow> read_worker" where
  "set_handle h w = w\<lparr>slot := fst h, connection_open := snd h\<rparr>"

definition handle_of :: "read_worker \<Rightarrow> handle" where
  "handle_of w = (slot w, connection_open w)"

definition acknowledge_pause :: "'v read_pool \<Rightarrow> 'v read_pool" where
  "acknowledge_pause s0 =
     (let s = with_actors (pause_ack_count_update Suc) s0 in
      if pause_ack_count (actors s) \<noteq> max_connections s then s
      else if life s = Pausing then
        (with_actors (\<lambda>a. if pause_complete a = Some FuturePending
            then a\<lparr>pause_complete := Some FutureDone\<rparr> else a) s)\<lparr>life := Paused\<rparr>
      else s)"

definition worker_pause :: "nat \<Rightarrow> 'v read_pool \<Rightarrow> 'v read_pool" where
  "worker_pause i s =
     acknowledge_pause (with_actors (upd_worker i
       (\<lambda>w. set_handle (close_connection (handle_of w)) (w\<lparr>thread := Getting\<rparr>))) s)"

text \<open>
  The worker runs its request and releases its slot. An error that leaves \<open>_run_request\<close>
  keeps the worker's own variable \<open>slot\<close> as it was.
\<close>

definition worker_run :: "'v attempt_env \<times> 'v attempt_env \<Rightarrow> nat \<Rightarrow> nat \<Rightarrow> 'v read_pool \<Rightarrow> 'v read_pool" where
  "worker_run envs i r s =
     (case run_read envs (handle_of (read_workers (actors s) ! i)) of
        Inr (x, h) \<Rightarrow>
          (let s1 = with_actors (\<lambda>a. (upd_worker i (\<lambda>w. set_handle h (w\<lparr>thread := Getting\<rparr>)) a)
                       \<lparr>answers := (answers a)(r \<mapsto> x)\<rparr>) s
           in case pool_release_capacity s1 of
                Inl _ \<Rightarrow> with_actors (upd_worker i (thread_update (\<lambda>_. Crashed r (OtherError ''underflow'')))) s1
              | Inr t \<Rightarrow> t)
      | Inl (e, h) \<Rightarrow>
          with_actors (upd_worker i (\<lambda>w. w\<lparr>thread := Crashed r e, connection_open := snd h\<rparr>)) s)"

definition begin_worker_failure :: "nat \<Rightarrow> nat \<Rightarrow> read_error \<Rightarrow> 'v read_pool \<Rightarrow> 'v read_pool" where
  "begin_worker_failure i r e s =
     with_actors (upd_worker i (thread_update (\<lambda>_. FailActive r e)))
       (if fatal_error (actors s) = None then
          with_actors (\<lambda>a.
             (let b = fail_pause (a\<lparr>fatal_error := Some e\<rparr>) in
              if pool_stop_enqueued b then b
              else b\<lparr>pool_stop_enqueued := True,
                     read_workers := (map (put_item PoolStop) (read_workers b))[i := read_workers b ! i]\<rparr>))
            (reject_waiters (s\<lparr>life := Closing\<rparr>))
        else s)"

text \<open>The active request of a failed worker; an error raised here skips its queue.\<close>

definition worker_fail_active :: "nat \<Rightarrow> nat \<Rightarrow> read_error \<Rightarrow> 'v read_pool \<Rightarrow> 'v read_pool" where
  "worker_fail_active i r e s =
     (let s1 = with_actors (\<lambda>a. (upd_worker i (thread_update (\<lambda>_. FailQueue e)) a)
                 \<lparr>answers := (if answers a r = None then (answers a)(r \<mapsto> AnswerError e) else answers a)\<rparr>) s
      in case pool_release_capacity s1 of
           Inl _ \<Rightarrow> with_actors (upd_worker i (thread_update (\<lambda>_. Finishing))) s1
         | Inr t \<Rightarrow> t)"

text \<open>One round of \<open>_fail_worker_queue\<close>.\<close>

definition fail_worker_queue :: "nat \<Rightarrow> read_error \<Rightarrow> 'v read_pool \<Rightarrow> 'v read_pool" where
  "fail_worker_queue i e s =
     (case rqueue (read_workers (actors s) ! i) of
        [] \<Rightarrow> with_actors (upd_worker i (thread_update (\<lambda>_. Finishing))) s
      | ReadRequest r # q \<Rightarrow>
          (let s1 = with_actors (\<lambda>a. (upd_worker i (rqueue_update (\<lambda>_. q)) a)
                      \<lparr>answers := (answers a)(r \<mapsto> AnswerError e)\<rparr>) s
           in case pool_release_capacity s1 of
                Inl _ \<Rightarrow> with_actors (upd_worker i (thread_update (\<lambda>_. Finishing))) s1
              | Inr t \<Rightarrow> t)
      | _ # q \<Rightarrow> with_actors (upd_worker i (rqueue_update (\<lambda>_. q))) s)"

definition worker_stopped :: "nat \<Rightarrow> 'v read_pool \<Rightarrow> 'v read_pool" where
  "worker_stopped i s0 =
     (let s = with_actors (upd_worker i (connection_open_update (\<lambda>_. False))) s0 in
      if stopped (read_workers (actors s) ! i) then s
      else
        let t = with_actors (\<lambda>a. (upd_worker i (stopped_update (\<lambda>_. True)) a)
                  \<lparr>stopped_worker_count := stopped_worker_count a + 1\<rparr>) s
        in if stopped_worker_count (actors t) = max_connections t then
             (with_actors (\<lambda>a. if pool_closed a = FuturePending then
                  a\<lparr>pool_closed := (if fatal_error a = None then FutureDone else FutureError)\<rparr> else a) t)
               \<lparr>life := Closed\<rparr>
           else t)"

definition worker_finish :: "nat \<Rightarrow> 'v read_pool \<Rightarrow> 'v read_pool" where
  "worker_finish i s =
     worker_stopped i (with_actors (upd_worker i
       (\<lambda>w. set_handle (close_connection (handle_of w)) (w\<lparr>thread := Gone\<rparr>))) s)"

section \<open>Runs\<close>

definition at_pc :: "'v read_pool \<Rightarrow> nat \<Rightarrow> pool_pc \<Rightarrow> bool" where
  "at_pc s i p \<longleftrightarrow> i < max_connections s \<and> thread (read_workers (actors s) ! i) = p"

inductive pool_step :: "'v read_pool \<Rightarrow> 'v read_pool \<Rightarrow> bool" where
  start: "start_pool pid n s = (r, t) \<Longrightarrow> pool_step s t"
| acquire: "pool_acquire_capacity pid s = (r, t) \<Longrightarrow> pool_step s t"
| future_cancelled: "\<not> future_done s w \<Longrightarrow> pool_step s (set_future w FutureCancelled s)"
| cancelled: "pool_step s (pool_cancel_admission w s)"
| delivered: "w \<in> set (scheduled s) \<Longrightarrow> pool_step s (pool_deliver_grant w s)"
| undeliverable: "w \<in> set (scheduled s) \<Longrightarrow> pool_step s (pool_grant_undeliverable w s)"
| rejection: "w \<in> set (rejections s) \<Longrightarrow>
    pool_step s ((deliver_admission_rejection w s)\<lparr>rejections := remove1 w (rejections s)\<rparr>)"
| resumed: "pool_resume_waiter w s = (r, t) \<Longrightarrow> pool_step s t"
| submitted: "0 < dispatching (actors s) \<Longrightarrow> pool_submit s = (r, t) \<Longrightarrow> pool_step s t"
| pausing: "pause_and_drain pid s = (r, t) \<Longrightarrow> pool_step s t"
| resuming: "resume_pool pid s = (r, t) \<Longrightarrow> pool_step s t"
| closing: "close_pool pid s = (r, t) \<Longrightarrow> pool_step s t"
| got: "at_pc s i Getting \<Longrightarrow> rqueue (read_workers (actors s) ! i) \<noteq> [] \<Longrightarrow>
    pool_step s (with_actors (upd_worker i worker_take) s)"
| paused: "at_pc s i PauseGot \<Longrightarrow> pool_step s (worker_pause i s)"
| ran: "at_pc s i (Reading q) \<Longrightarrow> pool_step s (worker_run envs i q s)"
| failure_begun: "at_pc s i (Crashed q e) \<Longrightarrow> pool_step s (begin_worker_failure i q e s)"
| active_failed: "at_pc s i (FailActive q e) \<Longrightarrow> pool_step s (worker_fail_active i q e s)"
| queue_failed: "at_pc s i (FailQueue e) \<Longrightarrow> pool_step s (fail_worker_queue i e s)"
| finished: "at_pc s i Finishing \<Longrightarrow> pool_step s (worker_finish i s)"

definition pool_start :: "'v read_pool \<Rightarrow> bool" where
  "pool_start s \<longleftrightarrow> (\<exists>n c m d. pool_init n c m d = Inr s)"


section \<open>Facts about one read\<close>

definition handle_ok :: "handle \<Rightarrow> bool" where
  "handle_ok h \<longleftrightarrow> snd h = (fst h \<noteq> None) \<and> (case fst h of None \<Rightarrow> True | Some c \<Rightarrow> usable c)"

lemma close_connection_ok: "handle_ok h \<Longrightarrow> close_connection h = (None, False)"
  by (cases h) (auto simp: handle_ok_def close_connection_def split: option.splits)

lemma close_connection_none: "fst (close_connection h) = None"
  by (cases h) (auto simp: close_connection_def split: option.splits)

text \<open>A failed \<open>_ensure_connection\<close> leaves the old connection, closed or not.\<close>

lemma ensure_connection_cases:
  assumes "handle_ok h" and "ensure_connection env h = (r, h')"
  obtains (ok) c where "r = Inr ()" and "h' = (Some c, True)" and "usable c"
  | (unavailable) e where "r = Inl e" and "is_sqlite e" and "h' = h"
  | (not_opened) e where "r = Inl e" and "snd h' = False" and "\<And>c. fst h' = Some c \<Longrightarrow> \<not> usable c"
      and "fst h' = None \<longleftrightarrow> fst h = None"
proof (cases "stat_before env")
  case None
  then have "database_identity (stat_before env) = Inl (SqliteError ''database file is unavailable'')"
    by (simp add: database_identity_def)
  with assms(2) have "r = Inl (SqliteError ''database file is unavailable'')" "h' = h"
    by (simp_all add: ensure_connection_def)
  then show ?thesis using unavailable [of "SqliteError ''database file is unavailable''"] by simp
next
  case (Some cur)
  let ?same = "case fst h of None \<Rightarrow> False | Some c \<Rightarrow> slot_identity c = cur"
  show ?thesis
  proof (cases ?same)
    case True
    then obtain c where "fst h = Some c" by (auto split: option.splits)
    with assms True Some ok [of c] show ?thesis
      by (cases h) (simp add: ensure_connection_def database_identity_def handle_ok_def)
  next
    case False
    have flag: "snd (close_connection h) = False"
      using assms(1) by (simp add: close_connection_ok)
    show ?thesis
    proof (cases "open_current_database env cur")
      case (Inl e)
      with assms(2) Some False have "r = Inl e"
        and h': "h' = (map_option (usable_update (\<lambda>_. False)) (fst h), snd (close_connection h))"
        by (simp_all add: ensure_connection_def database_identity_def)
      have "\<not> usable c" if "fst h' = Some c" for c using that h' by auto
      moreover have "snd h' = False" "fst h' = None \<longleftrightarrow> fst h = None" using h' flag by simp_all
      ultimately show ?thesis using \<open>r = Inl e\<close> by (intro not_opened)
    next
      case (Inr actual)
      with assms(2) Some False ok [of "\<lparr>slot_identity = actual, usable = True\<rparr>"] show ?thesis
        by (simp add: ensure_connection_def database_identity_def)
    qed
  qed
qed

text \<open>After the body of the \<open>try\<close> the handle is sound unless reopening failed.\<close>

lemma read_once_handle:
  assumes "handle_ok h" and "read_once env h = (r, h')"
  shows "handle_ok h' \<or> (\<exists>e. r = Inl e \<and> snd h' = False \<and> (\<forall>c. fst h' = Some c \<longrightarrow> \<not> usable c))"
proof -
  obtain q g where Pair: "ensure_connection env h = (q, g)" by (cases "ensure_connection env h") blast
  from assms(1) Pair show ?thesis
  proof (cases rule: ensure_connection_cases)
    case (ok c)
    then have "handle_ok g" by (simp add: handle_ok_def)
    moreover have "h' = g"
      using assms(2) Pair ok(1)
      by (auto simp: read_once_def split: op_outcome.splits rollback_outcome.splits sum.splits if_splits)
    ultimately show ?thesis by simp
  next
    case (unavailable e)
    with assms Pair show ?thesis by (simp add: read_once_def)
  next
    case (not_opened e)
    with assms(2) Pair show ?thesis by (auto simp: read_once_def)
  qed
qed

lemma read_once_value:
  assumes "handle_ok h" and "read_once env h = (Inr v, h')"
  shows "operation env = OpReturned v"
    and "map_option slot_identity (fst h') = stat_after env" and "stat_after env \<noteq> None"
    and "handle_ok h'"
proof -
  show "handle_ok h'" using read_once_handle [OF assms] by auto
  obtain q g where en: "ensure_connection env h = (q, g)" by (cases "ensure_connection env h") blast
  show "operation env = OpReturned v"
    "map_option slot_identity (fst h') = stat_after env" "stat_after env \<noteq> None"
    using assms(2) en
    by (auto simp: read_once_def database_identity_def
        split: op_outcome.splits rollback_outcome.splits sum.splits if_splits option.splits)
qed

lemma rollback_open_ok: "handle_ok h \<Longrightarrow> rollback_open env h = Inr h' \<Longrightarrow> handle_ok h'"
  by (cases "fst h")
    (auto simp: rollback_open_def close_connection_ok handle_ok_def
      split: if_splits rollback_outcome.splits)

lemma rollback_open_stale:
  "\<forall>c. fst h = Some c \<longrightarrow> \<not> usable c \<Longrightarrow> snd h = False \<Longrightarrow> rollback_open env h = Inr h' \<Longrightarrow> handle_ok h'"
  by (cases "fst h") (auto simp: rollback_open_def handle_ok_def)

lemma answer_after_rollback_handle:
  assumes "handle_ok g \<or> (snd g = False \<and> (\<forall>c. fst g = Some c \<longrightarrow> \<not> usable c))"
    and "answer_after_rollback a env g = Answered x h"
  shows "handle_ok h"
proof (cases "rollback_open env g")
  case (Inr h')
  with assms(2) have "rollback_open env g = Inr h" by (simp add: answer_after_rollback_def)
  with assms(1) show ?thesis using rollback_open_ok [of g env h] rollback_open_stale [of g env h] by blast
qed (use assms(2) in \<open>simp add: answer_after_rollback_def\<close>)

lemma answer_after_rollback_no_retry: "answer_after_rollback a env g \<noteq> Retry h"
  by (simp add: answer_after_rollback_def split: sum.splits)

lemma close_flag: "snd g = False \<Longrightarrow> close_connection g = (None, False)"
  by (cases g) (auto simp: close_connection_def split: option.splits)

lemma run_attempt_handle:
  assumes "handle_ok h0"
  shows "run_attempt is_last env h0 = Answered x h \<Longrightarrow> handle_ok h"
    and "run_attempt is_last env h0 = Retry h \<Longrightarrow> handle_ok h"
proof -
  obtain q g where rd: "read_once env h0 = (q, g)" by (cases "read_once env h0") blast
  have g: "handle_ok g \<or> (snd g = False \<and> (\<forall>c. fst g = Some c \<longrightarrow> \<not> usable c))"
    using read_once_handle [OF assms rd] by auto
  then have cl: "close_connection g = (None, False)"
    using close_connection_ok close_flag by blast
  have none: "handle_ok (None, False)" by (simp add: handle_ok_def)
  have okg: "handle_ok g" if "q = Inr v" for v
    using read_once_handle [OF assms rd] that by auto
  note backing = answer_after_rollback_handle [OF g]
  show "handle_ok h" if run: "run_attempt is_last env h0 = Answered x h"
    using run assms rd none cl okg
    by (cases q) (auto simp: run_attempt_def split: if_splits dest: backing)
  show "handle_ok h" if run: "run_attempt is_last env h0 = Retry h"
    using run rd none cl
    by (cases q) (auto simp: run_attempt_def answer_after_rollback_no_retry split: if_splits)
qed

lemma run_attempt_value:
  assumes "handle_ok h0" and "run_attempt is_last env h0 = Answered (AnswerValue v) h"
  shows "operation env = OpReturned v"
    and "map_option slot_identity (fst h) = stat_after env" and "stat_after env \<noteq> None"
proof -
  obtain q g where rd: "read_once env h0 = (q, g)" by (cases "read_once env h0") blast
  have "q = Inr v \<and> g = h"
    using assms(2) rd
    by (cases q) (auto simp: run_attempt_def answer_after_rollback_def split: if_splits sum.splits)
  with rd have "read_once env h0 = (Inr v, h)" by simp
  from read_once_value [OF assms(1) this] show "operation env = OpReturned v"
    "map_option slot_identity (fst h) = stat_after env" "stat_after env \<noteq> None" by simp_all
qed

lemma run_read_handle:
  assumes "handle_ok h0" and "run_read envs h0 = Inr (x, h)"
  shows "handle_ok h"
proof (cases "run_attempt False (fst envs) h0")
  case (Answered y h1)
  with assms run_attempt_handle(1) [OF assms(1) Answered] show ?thesis by (simp add: run_read_def)
next
  case (Retry h1)
  note ok = run_attempt_handle(2) [OF assms(1) Retry]
  show ?thesis
    using assms(2) Retry run_attempt_handle(1) [OF ok, of True "snd envs"]
    by (cases "run_attempt True (snd envs) h1") (auto simp: run_read_def)
qed (use assms in \<open>simp add: run_read_def\<close>)

text \<open>The last round never asks for another one: the method's final \<open>raise\<close> is not reached.\<close>

lemma run_attempt_last: "run_attempt True env h \<noteq> Retry h'"
  by (cases "read_once env h"; cases "fst (read_once env h)")
    (auto simp: run_attempt_def answer_after_rollback_no_retry)

text \<open>
  C20: A read is answered with a value only when the operation returned it in one of at most
  two attempts, and when the file that has the database's name after the operation is the
  very file the worker's connection is open on: a read is never answered from a database
  that was replaced before it ended.
\<close>

theorem read_value_current:
  assumes "handle_ok h0" and "run_read (first, second) h0 = Inr (AnswerValue v, h)"
  shows "\<exists>env \<in> {first, second}. operation env = OpReturned v
           \<and> (\<exists>c. fst h = Some c \<and> usable c \<and> stat_after env = Some (slot_identity c)) \<and> snd h"
proof -
  have ok: "handle_ok h" using assms by (rule run_read_handle)
  obtain env where env: "env \<in> {first, second}" "operation env = OpReturned v"
      "map_option slot_identity (fst h) = stat_after env" "stat_after env \<noteq> None"
  proof (cases "run_attempt False first h0")
    case (Answered y h1)
    with assms(2) have "run_attempt False first h0 = Answered (AnswerValue v) h"
      by (simp add: run_read_def)
    from run_attempt_value [OF assms(1) this] show ?thesis by (intro that [of first]) auto
  next
    case (Retry h1)
    note ok1 = run_attempt_handle(2) [OF assms(1) Retry]
    from Retry assms(2) have "run_attempt True second h1 = Answered (AnswerValue v) h"
      by (auto simp: run_read_def split: attempt.splits)
    from run_attempt_value [OF ok1 this] show ?thesis by (intro that [of second]) auto
  qed (use assms(2) in \<open>simp add: run_read_def\<close>)
  then obtain c where "fst h = Some c" "stat_after env = Some (slot_identity c)" by auto
  with ok env(1,2) show ?thesis by (intro bexI [of _ env]) (auto simp: handle_ok_def)
qed

definition ex_env :: "nat attempt_env" where
  "ex_env = \<lparr>cancelled_before = False, expired_before = False, stat_before = Some (1, 2),
     first_open = Opened (Some (1, 2)), stat_between = None, second_open = Opened None,
     operation = OpReturned 7, interruption_reason = None, in_transaction = False,
     rollback = RollbackDone, stat_after = Some (1, 2), cancelled_after = False, expired_after = False\<rparr>"

definition ex_handle :: handle where
  "ex_handle = (Some \<lparr>slot_identity = (1, 1), usable = True\<rparr>, True)"

lemmas read_eval = ex_env_def ex_handle_def handle_ok_def run_read_def run_attempt_def read_once_def
  ensure_connection_def open_current_database_def open_round_def database_identity_def
  answer_after_rollback_def rollback_open_def close_connection_def replaced_error_def

lemma ex_read: "run_read (ex_env, ex_env) ex_handle
    = Inr (AnswerValue 7, (Some \<lparr>slot_identity = (1, 2), usable = True\<rparr>, True))"
  by (simp add: read_eval)

theorem read_value_current_witness:
  "\<exists>env \<in> {ex_env, ex_env}. operation env = OpReturned 7
     \<and> (\<exists>c. fst (Some \<lparr>slot_identity = (1, 2), usable = True\<rparr>, True) = Some c \<and> usable c
           \<and> stat_after env = Some (slot_identity c)) \<and> snd (Some \<lparr>slot_identity = (1, 2), usable = True\<rparr>, True)"
  by (rule read_value_current [OF _ ex_read]) (simp add: read_eval)

text \<open>
  C21: When the database file was replaced since the worker's last read, so that its
  connection is closed, when opening the new file fails with a \<open>sqlite3.Error\<close>, and when by
  then the read has been cancelled or its deadline has passed, the clause that handles the
  error asks the closed connection for its transaction: the \<open>ProgrammingError\<close> leaves the
  method unanswered and, through the worker's handler, shuts the whole pool down.
\<close>

theorem read_reopen_crash:
  assumes "stat_before env = Some current" and "slot_identity c \<noteq> current"
    and "first_open env = OpenRaises (SqliteError m)"
    and "\<not> cancelled_before env" and "\<not> expired_before env"
    and "cancelled_after env \<or> expired_after env"
  shows "run_read (env, env') (Some c, True)
    = Inl (SqliteError ''Cannot operate on a closed database.'', (Some (c\<lparr>usable := False\<rparr>), False))"
  using assms by (auto simp: read_eval)

theorem read_reopen_crash_witness:
  "run_read (ex_env\<lparr>first_open := OpenRaises (SqliteError ''unable to open database file''),
       expired_after := True\<rparr>, ex_env) (Some \<lparr>slot_identity = (1, 1), usable = True\<rparr>, True)
   = Inl (SqliteError ''Cannot operate on a closed database.'',
       (Some ((\<lparr>slot_identity = (1, 1), usable = True\<rparr> :: conn_slot)\<lparr>usable := False\<rparr>), False))"
  by (rule read_reopen_crash [where current = "(1, 2)" and m = "''unable to open database file''"])
    (simp_all add: ex_env_def)

end
