(* ===== verification/Pool_Safety.thy ===== *)
theory Pool_Safety
  imports Read_Pool
begin

text \<open>
  The invariant of the read pool under every interleaving of callers, event loops, worker
  threads and maintenance, and the properties that rest on it: the accounting of capacity,
  exclusive access while paused, one answer for every request, and the abstract contract
  that maintenance relies on.
\<close>

section \<open>Lists of workers\<close>

lemma sum_list_map_update:
  fixes g :: "'a \<Rightarrow> nat"
  assumes "i < length xs"
  shows "sum_list (map g (xs[i := x])) + g (xs ! i) = sum_list (map g xs) + g x"
proof -
  have "sum_list (map g (xs[i := x])) = sum_list (map g xs) + g x - g (xs ! i)"
    using assms by (simp add: map_update sum_list_update)
  moreover have "g (xs ! i) \<le> sum_list (map g xs)"
    using assms by (intro member_le_sum_list) auto
  ultimately show ?thesis by simp
qed

lemma mset_concat_update:
  assumes "i < length xs"
  shows "mset (concat (map g (xs[i := x]))) + mset (g (xs ! i)) = mset (concat (map g xs)) + mset (g x)"
  using assms
proof (induction xs arbitrary: i)
  case (Cons y ys)
  then show ?case by (cases i) (auto simp: ac_simps)
qed simp

lemma ball_update: "\<forall>w \<in> set xs. P w \<Longrightarrow> P x \<Longrightarrow> \<forall>w \<in> set (xs[i := x]). P w"
  using set_update_subset_insert [of xs i x] by blast

lemma sum_list_map_const: "\<forall>x \<in> set xs. g x = c \<Longrightarrow> sum_list (map g xs) = length xs * (c :: nat)"
  by (induction xs) auto

section \<open>The invariant\<close>

fun read_ids :: "pool_item list \<Rightarrow> nat list" where
  "read_ids [] = []"
| "read_ids (ReadRequest r # q) = r # read_ids q"
| "read_ids (_ # q) = read_ids q"

lemma read_ids_append [simp]: "read_ids (p @ q) = read_ids p @ read_ids q"
  by (induction p rule: read_ids.induct) auto

text \<open>The request a thread holds and the requests of its queue.\<close>

definition in_hand :: "pool_pc \<Rightarrow> nat list" where
  "in_hand p = (case p of Reading r \<Rightarrow> [r] | Crashed r _ \<Rightarrow> [r] | FailActive r _ \<Rightarrow> [r] | _ \<Rightarrow> [])"

definition worker_reads :: "read_worker \<Rightarrow> nat list" where
  "worker_reads w = in_hand (thread w) @ read_ids (rqueue w)"

definition pending_reads :: "'v actors \<Rightarrow> nat list" where
  "pending_reads a = concat (map worker_reads (read_workers a))"

definition pauses :: "read_worker \<Rightarrow> nat" where
  "pauses w = count_list (rqueue w) PoolPause + (if thread w = PauseGot then 1 else 0)"

definition serving :: "pool_pc \<Rightarrow> bool" where
  "serving p = (case p of Getting \<Rightarrow> True | PauseGot \<Rightarrow> True | Reading _ \<Rightarrow> True | _ \<Rightarrow> False)"

definition pool_extra :: "'v read_pool \<Rightarrow> nat" where
  "pool_extra s = dispatching (actors s) + length (pending_reads (actors s))"

definition pool_owned :: "'v read_pool \<Rightarrow> nat" where
  "pool_owned s = card (granted s) + pool_extra s"

lemma actors_more: "admission.more s = admission.more t \<longleftrightarrow> actors s = actors (t :: 'v read_pool)"
  by (cases s; cases t) auto

interpretation pool: admission_accounting "pool_extra :: 'v read_pool \<Rightarrow> nat"
  by unfold_locales (simp add: pool_extra_def actors_more)

text \<open>One worker, given the phase and whether pauses, stops and a failure are under way.\<close>

definition worker_ok :: "life \<Rightarrow> bool \<Rightarrow> bool \<Rightarrow> bool \<Rightarrow> read_worker \<Rightarrow> bool" where
  "worker_ok l p st f w \<longleftrightarrow>
     pauses w \<le> (if p then 1 else 0)
     \<and> (p \<and> pauses w = 0 \<longrightarrow> slot w = None \<and> \<not> connection_open w)
     \<and> (serving (thread w) \<longrightarrow> handle_ok (handle_of w))
     \<and> (stopped w \<longleftrightarrow> thread w = Gone)
     \<and> (thread w \<in> {NotRunning, Finishing, Gone} \<longrightarrow> rqueue w = [])
     \<and> (thread w \<in> {NotRunning, Gone} \<longrightarrow> slot w = None \<and> \<not> connection_open w)
     \<and> PoolStop \<notin> set (butlast (rqueue w))
     \<and> (PoolStop \<in> set (rqueue w) \<longrightarrow> st)
     \<and> (st \<and> serving (thread w) \<longrightarrow> PoolStop \<in> set (rqueue w))
     \<and> (thread w = NotRunning \<longrightarrow> l = New \<or> l = Closed)
     \<and> (serving (thread w) \<longrightarrow> l \<noteq> New \<and> l \<noteq> Closed)
     \<and> ((\<exists>r e. thread w = Crashed r e) \<longrightarrow> l \<noteq> New \<and> l \<noteq> Closed)
     \<and> ((\<exists>r e. thread w = FailActive r e) \<or> (\<exists>e. thread w = FailQueue e) \<longrightarrow> f \<and> l = Closing)
     \<and> (thread w = Finishing \<longrightarrow> st \<and> l = Closing)
     \<and> (thread w = Gone \<longrightarrow> st \<or> l = Closed)"

text \<open>
  The controls of the life cycle; \<open>z\<close> says that no capacity is owned.
\<close>

definition ctl :: "life \<Rightarrow> bool \<Rightarrow> 'v actors \<Rightarrow> bool" where
  "ctl l z a \<longleftrightarrow>
     next_worker a < length (read_workers a)
     \<and> (pause_controls_enqueued a \<longrightarrow> z \<and> l \<in> {Pausing, Paused, Closing, Closed}
          \<and> pause_ack_count a + sum_list (map pauses (read_workers a)) = length (read_workers a))
     \<and> (\<not> pause_controls_enqueued a \<longrightarrow> pause_ack_count a = 0)
     \<and> (pool_stop_enqueued a \<longrightarrow> l \<in> {Closing, Closed} \<and> (fatal_error a = None \<longrightarrow> z))
     \<and> (fatal_error a \<noteq> None \<longrightarrow> l = Closing \<and> pool_stop_enqueued a \<or> l = Closed)
     \<and> (fatal_error a \<noteq> None \<longrightarrow> \<not> pause_controls_enqueued a)
     \<and> (l = Paused \<longrightarrow> pause_controls_enqueued a \<and> pause_ack_count a = length (read_workers a)
          \<and> pause_complete a = Some FutureDone)
     \<and> (l = Pausing \<longrightarrow> pause_complete a = Some FuturePending
          \<and> pause_ack_count a < length (read_workers a))
     \<and> l \<noteq> Starting
     \<and> stopped_worker_count a = sum_list (map (\<lambda>w. of_bool (stopped w)) (read_workers a))
     \<and> (l \<noteq> Closed \<longrightarrow> stopped_worker_count a < length (read_workers a) \<and> pool_closed a = FuturePending)
     \<and> (l = Closed \<longrightarrow> pool_closed a \<noteq> FuturePending)
     \<and> (l = New \<longrightarrow> z)
     \<and> (\<forall>w \<in> set (read_workers a).
          worker_ok l (pause_controls_enqueued a) (pool_stop_enqueued a) (fatal_error a \<noteq> None) w)"

definition reads_ok :: "'v actors \<Rightarrow> bool" where
  "reads_ok a \<longleftrightarrow>
     mset (pending_reads a) = mset_set {r. r < next_read a \<and> answers a r = None}
     \<and> (\<forall>r. answers a r \<noteq> None \<longrightarrow> r < next_read a)"

text \<open>What holds inside a locked section, before its grants and before it advances.\<close>

definition pool_pre :: "'v read_pool \<Rightarrow> bool" where
  "pool_pre s \<longleftrightarrow>
     adm_core s \<and> (life s \<noteq> Open \<longrightarrow> settled s) \<and> outstanding s = int (pool_owned s)
     \<and> 0 < queue_capacity s
     \<and> ctl (life s) (outstanding s = 0) (actors s) \<and> reads_ok (actors s)"

definition pool_inv :: "'v read_pool \<Rightarrow> bool" where
  "pool_inv s \<longleftrightarrow>
     pool_pre s \<and> settled s
     \<and> (life s = Pausing \<and> outstanding s = 0 \<longrightarrow> pause_controls_enqueued (actors s))
     \<and> (life s = Closing \<and> outstanding s = 0 \<longrightarrow> pool_stop_enqueued (actors s))"

lemma ctl_mono: "ctl l z a \<Longrightarrow> l = Open \<or> (z \<longrightarrow> z') \<Longrightarrow> ctl l z' a"
  by (auto simp: ctl_def)

lemma with_actors_frame [simp]:
  "queue_capacity (with_actors f s) = queue_capacity s"
  "max_waiters (with_actors f s) = max_waiters s"
  "life (with_actors f s) = life s" "outstanding (with_actors f s) = outstanding s"
  "admission_waiters (with_actors f s) = admission_waiters s"
  "waiters (with_actors f s) = waiters s"
  "next_waiter (with_actors f s) = next_waiter s" "scheduled (with_actors f s) = scheduled s"
  "rejections (with_actors f s) = rejections s" "actors (with_actors f s) = f (actors s)"
  by (simp_all add: with_actors_def)

lemma with_actors_waiters [simp]:
  "has_state (with_actors f s) = has_state s" "future_done (with_actors f s) = future_done s"
  "granted (with_actors f s) = granted s" "waiting_count (with_actors f s) = waiting_count s"
  "adm_core (with_actors f s) \<longleftrightarrow> adm_core s" "settled (with_actors f s) \<longleftrightarrow> settled s"
  by (simp_all add: has_state_def future_done_def granted_def waiting_count_def adm_core_def
      settled_def fun_eq_iff)

lemma pool_owned_with_actors [simp]:
  "pool_owned (with_actors f s)
     = card (granted s) + dispatching (f (actors s)) + length (pending_reads (f (actors s)))"
  by (simp add: pool_owned_def pool_extra_def)

text \<open>The admission sections leave the actors alone.\<close>

lemma actors_frame [simp]:
  "actors (schedule_admission_grants (grant_waiters_locked s)) = actors (s :: 'v read_pool)"
  "actors (drop_admission w s) = actors s" "actors (reject_waiters s) = actors s"
  "actors (set_state w st s) = actors s" "actors (set_future w f s) = actors s"
  "actors (snd (acquire_locked m s)) = actors s"
proof -
  show "actors (schedule_admission_grants (grant_waiters_locked s)) = actors s"
    "actors (drop_admission w s) = actors s" "actors (reject_waiters s) = actors s"
    "actors (set_state w st s) = actors s" "actors (set_future w f s) = actors s"
    "actors (snd (acquire_locked m s)) = actors s"
    by (simp_all add: actors_more [symmetric] adm_simps)
qed

section \<open>The ends of the locked sections\<close>

lemma put_item_simps [simp]:
  "rqueue (put_item x w) = rqueue w @ [x]" "thread (put_item x w) = thread w"
  "slot (put_item x w) = slot w" "connection_open (put_item x w) = connection_open w"
  "stopped (put_item x w) = stopped w"
  by (simp_all add: put_item_def)

lemma pending_put_all [simp]:
  "x = PoolPause \<or> x = PoolStop \<Longrightarrow> pending_reads (put_all x a) = pending_reads a"
proof -
  assume "x = PoolPause \<or> x = PoolStop"
  then have "worker_reads (put_item x w) = worker_reads w" for w by (auto simp: worker_reads_def)
  then show ?thesis by (simp add: pending_reads_def put_all_def o_def)
qed

lemma put_pause_ctl:
  assumes "ctl Pausing z a" and "z" and "\<not> pause_controls_enqueued a"
  shows "ctl Pausing z ((put_all PoolPause a)\<lparr>pause_controls_enqueued := True\<rparr>)"
proof -
  have zero: "pauses w = 0" if "w \<in> set (read_workers a)" for w
    using assms that by (auto simp: ctl_def worker_ok_def)
  then have one: "pauses (put_item PoolPause w) = 1" if "w \<in> set (read_workers a)" for w
    using that by (simp add: pauses_def)
  then have "sum_list (map pauses (map (put_item PoolPause) (read_workers a))) = length (read_workers a)"
    using sum_list_map_const [of "map (put_item PoolPause) (read_workers a)" pauses 1] by simp
  moreover have "worker_ok Pausing True (pool_stop_enqueued a) (fatal_error a \<noteq> None) (put_item PoolPause w)"
    if "w \<in> set (read_workers a)" for w
  proof -
    have "worker_ok Pausing False False (fatal_error a \<noteq> None) w" "\<not> pool_stop_enqueued a"
      using assms that by (auto simp: ctl_def)
    with one [OF that] show ?thesis
      by (auto simp: worker_ok_def handle_of_def)
  qed
  ultimately show ?thesis
    using assms by (auto simp: ctl_def put_all_def o_def)
qed

lemma put_stop_ctl:
  assumes "ctl Closing z a" and "z" and "\<not> pool_stop_enqueued a"
  shows "ctl Closing z ((put_all PoolStop a)\<lparr>pool_stop_enqueued := True\<rparr>)"
proof -
  have p: "pauses (put_item PoolStop w) = pauses w" for w by (simp add: pauses_def)
  have "worker_ok Closing (pause_controls_enqueued a) True (fatal_error a \<noteq> None) (put_item PoolStop w)"
    if "w \<in> set (read_workers a)" for w
  proof -
    have "worker_ok Closing (pause_controls_enqueued a) False (fatal_error a \<noteq> None) w"
      using assms that by (auto simp: ctl_def)
    then show ?thesis using p [of w] by (auto simp: worker_ok_def handle_of_def)
  qed
  then show ?thesis
    using assms by (auto simp: ctl_def put_all_def o_def p)
qed

lemma pool_preD:
  assumes "pool_pre s"
  shows "adm_core s" "life s \<noteq> Open \<Longrightarrow> settled s" "outstanding s = int (pool_owned s)"
    "0 < queue_capacity s" "ctl (life s) (outstanding s = 0) (actors s)" "reads_ok (actors s)"
  using assms unfolding pool_pre_def by blast+

lemma pool_preI:
  assumes "adm_core s" "life s \<noteq> Open \<Longrightarrow> settled s" "outstanding s = int (pool_owned s)"
    "0 < queue_capacity s" "ctl (life s) (outstanding s = 0) (actors s)" "reads_ok (actors s)"
  shows "pool_pre s"
  using assms unfolding pool_pre_def by blast

lemma pending_update [simp]:
  "pending_reads (pause_controls_enqueued_update g1 a) = pending_reads a"
  "pending_reads (pool_stop_enqueued_update g2 a) = pending_reads a"
  "pending_reads (pause_ack_count_update g3 a) = pending_reads a"
  "pending_reads (pause_complete_update g4 a) = pending_reads a"
  "pending_reads (stopped_worker_count_update g5 a) = pending_reads a"
  "pending_reads (fatal_error_update g6 a) = pending_reads a"
  "pending_reads (pool_closed_update g7 a) = pending_reads a"
  "pending_reads (owner_pid_update g8 a) = pending_reads a"
  "pending_reads (dispatching_update g9 a) = pending_reads a"
  "pending_reads (next_read_update g10 a) = pending_reads a"
  "pending_reads (next_worker_update g11 a) = pending_reads a"
  "pending_reads (answers_update g12 a) = pending_reads a"
  by (simp_all add: pending_reads_def)

lemma reads_ok_cong:
  "mset (pending_reads b) = mset (pending_reads a) \<Longrightarrow> next_read b = next_read a \<Longrightarrow>
   answers b = answers a \<Longrightarrow> reads_ok b \<longleftrightarrow> reads_ok a"
  by (simp add: reads_ok_def)

text \<open>A change of the actors that keeps the owned slots keeps the rest.\<close>

lemma pool_pre_actors:
  assumes "pool_pre s"
    and "mset (pending_reads (f (actors s))) = mset (pending_reads (actors s))"
    and "dispatching (f (actors s)) = dispatching (actors s)"
    and "next_read (f (actors s)) = next_read (actors s)" "answers (f (actors s)) = answers (actors s)"
    and "ctl (life s) (outstanding s = 0) (f (actors s))"
  shows "pool_pre (with_actors f s)"
proof (rule pool_preI)
  note p = pool_preD [OF assms(1)]
  have "length (pending_reads (f (actors s))) = length (pending_reads (actors s))"
    using assms(2) by (metis size_mset)
  then show "outstanding (with_actors f s) = int (pool_owned (with_actors f s))"
    using p(3) assms(3) by (simp add: pool_owned_def pool_extra_def)
  show "reads_ok (actors (with_actors f s))"
    using p(6) reads_ok_cong [OF assms(2,4,5)] by simp
  show "life (with_actors f s) \<noteq> Open \<Longrightarrow> settled (with_actors f s)" using p(2) by simp
qed (use pool_preD [OF assms(1)] assms(6) in \<open>simp_all only: with_actors_frame with_actors_waiters\<close>)

lemma put_all_frame [simp]:
  "dispatching (put_all x a) = dispatching a" "next_read (put_all x a) = next_read a"
  "answers (put_all x a) = answers a" "pause_controls_enqueued (put_all x a) = pause_controls_enqueued a"
  "pool_stop_enqueued (put_all x a) = pool_stop_enqueued a"
  by (simp_all add: put_all_def)

lemma advance_section:
  assumes "pool_pre s" and "settled s"
  shows "pool_inv (advance_lifecycle_locked s)"
proof -
  note p = pool_preD [OF assms(1)]
  show ?thesis
  proof (cases "outstanding s = 0 \<and> life s = Pausing \<and> \<not> pause_controls_enqueued (actors s)")
    case pause: True
    let ?f = "\<lambda>a. (put_all PoolPause a)\<lparr>pause_controls_enqueued := True\<rparr>"
    have "ctl (life s) (outstanding s = 0) (?f (actors s))"
      using p(5) put_pause_ctl [of "outstanding s = 0" "actors s"] pause by simp
    then have "pool_pre (with_actors ?f s)" by (intro pool_pre_actors [OF assms(1)]) simp_all
    moreover have "advance_lifecycle_locked s = with_actors ?f s"
      using pause by (simp add: advance_lifecycle_locked_def)
    ultimately show ?thesis using pause assms(2) unfolding pool_inv_def by simp
  next
    case not_pause: False
    show ?thesis
    proof (cases "outstanding s = 0 \<and> life s = Closing \<and> \<not> pool_stop_enqueued (actors s)")
      case stop: True
      let ?f = "\<lambda>a. (put_all PoolStop a)\<lparr>pool_stop_enqueued := True\<rparr>"
      have "ctl (life s) (outstanding s = 0) (?f (actors s))"
        using p(5) put_stop_ctl [of "outstanding s = 0" "actors s"] stop by simp
      then have "pool_pre (with_actors ?f s)" by (intro pool_pre_actors [OF assms(1)]) simp_all
      moreover have "advance_lifecycle_locked s = with_actors ?f s"
        using stop by (simp add: advance_lifecycle_locked_def)
      ultimately show ?thesis using stop assms(2) unfolding pool_inv_def by simp
    next
      case False
      then have "advance_lifecycle_locked s = s"
        using not_pause by (auto simp: advance_lifecycle_locked_def)
      with not_pause False assms show ?thesis unfolding pool_inv_def by auto
    qed
  qed
qed

lemma grant_advance_section:
  assumes "pool_pre s"
  shows "pool_inv (advance_lifecycle_locked (schedule_admission_grants (grant_waiters_locked s)))"
proof (rule advance_section)
  let ?t = "schedule_admission_grants (grant_waiters_locked s)"
  note p = pool_preD [OF assms]
  show set: "settled ?t" using p(1,2) by (rule grant_settled)
  have fr: "life ?t = life s" "queue_capacity ?t = queue_capacity s" by (simp_all add: adm_simps)
  have "outstanding ?t - int (pool_owned ?t) = outstanding s - int (pool_owned s)"
    using pool.grant_accounted [OF p(1) refl] by (simp only: pool_owned_def)
  then have acct: "outstanding ?t = int (pool_owned ?t)" using p(3) by simp
  have same: "outstanding ?t = outstanding s" if "life s \<noteq> Open"
    using that by (simp add: grant_waiters_locked_def adm_simps)
  have "ctl (life s) (outstanding ?t = 0) (actors s)"
    using p(5) by (rule ctl_mono) (use same in metis)
  then show "pool_pre ?t"
    by (intro pool_preI) (simp_all only: fr actors_frame set acct p(4,6) grant_core [OF p(1)])
qed

lemma pool_invD:
  "pool_inv s \<Longrightarrow> pool_pre s" "pool_inv s \<Longrightarrow> settled s" "pool_inv s \<Longrightarrow> adm_inv s"
  by (auto simp: pool_inv_def pool_pre_def adm_inv_def)

section \<open>The steps of the callers\<close>

text \<open>A section that changes the waiters only and does not add an owned slot.\<close>

lemma pool_waiters_pre:
  fixes s t :: "'v read_pool"
  assumes "pool_pre s" and "actors t = actors s"
    and "life t = life s" "queue_capacity t = queue_capacity s"
    and "adm_core t" "life s \<noteq> Open \<Longrightarrow> settled t"
    and "outstanding t - int (pool_owned t) = outstanding s - int (pool_owned s)"
    and "outstanding t \<le> outstanding s"
  shows "pool_pre t"
proof (rule pool_preI)
  note p = pool_preD [OF assms(1)]
  show acct: "outstanding t = int (pool_owned t)" using assms(7) p(3) by simp
  have "outstanding s = 0 \<longrightarrow> outstanding t = 0" using acct assms(8) by linarith
  then have "ctl (life s) (outstanding t = 0) (actors s)" using ctl_mono [OF p(5)] by blast
  then show "ctl (life t) (outstanding t = 0) (actors t)" by (simp only: assms(2,3))
qed (use pool_preD [OF assms(1)] assms in simp_all)

lemma pool_waiters_inv:
  fixes s t :: "'v read_pool"
  assumes "pool_inv s" and "actors t = actors s"
    and "life t = life s" "queue_capacity t = queue_capacity s" "outstanding t = outstanding s"
    and "adm_inv t" and "granted t = granted s"
  shows "pool_inv t"
proof -
  have "pool_owned t = pool_owned s" using assms(2,7) by (simp add: pool_owned_def pool_extra_def)
  then have "pool_pre t"
    using assms(2-6) by (intro pool_waiters_pre [OF pool_invD(1) [OF assms(1)]]) (auto simp: adm_inv_def)
  then show ?thesis using assms unfolding pool_inv_def adm_inv_def by simp
qed

lemma pool_set_future_inv:
  assumes "pool_inv s" and "f \<noteq> Pending"
  shows "pool_inv (set_future w f s)"
proof (rule pool_waiters_inv [OF assms(1)])
  show "adm_inv (set_future w f s)"
    using pool_invD(3) [OF assms(1)] assms(2)
    unfolding adm_inv_def adm_core_def settled_def by (auto simp: adm_simps dest: has_state_stored)
qed (simp_all add: adm_simps)

lemma pool_rejection_inv:
  assumes "pool_inv s"
  shows "pool_inv ((deliver_admission_rejection w s)\<lparr>rejections := remove1 w (rejections s)\<rparr>)"
proof (rule pool_waiters_inv [OF assms])
  show "adm_inv ((deliver_admission_rejection w s)\<lparr>rejections := remove1 w (rejections s)\<rparr>)"
    using pool_invD(3) [OF assms] by (rule deliver_rejection_inv)
qed (simp_all add: deliver_admission_rejection_def adm_simps)

lemma pool_drop_pre:
  assumes "pool_inv s"
  shows "pool_pre (drop_admission w s)"
    and "pool_pre ((drop_admission w s)\<lparr>scheduled := remove1 w (scheduled s)\<rparr>)"
proof -
  note pre = pool_invD(1) [OF assms] and set = pool_invD(2) [OF assms]
  note core = pool_preD(1) [OF pre]
  have acct: "outstanding (drop_admission w s) - int (pool_owned (drop_admission w s))
      = outstanding s - int (pool_owned s)"
    using pool.drop_accounted [OF core, of w] by (simp add: pool_owned_def)
  show "pool_pre (drop_admission w s)"
    using core set acct drop_outstanding [of w s]
    by (intro pool_waiters_pre [OF pre]) (simp_all add: adm_simps drop_core drop_settled)
  have "settled ((drop_admission w s)\<lparr>scheduled := g\<rparr>) \<longleftrightarrow> settled (drop_admission w s)" for g
    by (simp add: settled_def adm_simps)
  moreover have "pool_owned ((drop_admission w s)\<lparr>scheduled := g\<rparr>) = pool_owned (drop_admission w s)" for g
    by (simp add: pool_owned_def pool_extra_def adm_simps)
  ultimately show "pool_pre ((drop_admission w s)\<lparr>scheduled := remove1 w (scheduled s)\<rparr>)"
    using core set acct drop_outstanding [of w s]
    by (intro pool_waiters_pre [OF pre]) (simp_all add: adm_simps drop_unscheduled_core drop_settled)
qed

lemma pool_cancel_inv: "pool_inv s \<Longrightarrow> pool_inv (pool_cancel_admission w s)"
  unfolding pool_cancel_admission_def by (intro grant_advance_section pool_drop_pre)

lemma pool_undeliverable_inv: "pool_inv s \<Longrightarrow> pool_inv (pool_grant_undeliverable w s)"
  unfolding pool_grant_undeliverable_def pool_cancel_admission_def drop_unscheduled
  by (intro grant_advance_section pool_drop_pre)

lemma pool_deliver_inv:
  assumes "pool_inv s"
  shows "pool_inv (pool_deliver_grant w s)"
proof (cases "deliver_admission_grant w s")
  case (Inl t)
  have "pool_inv (t\<lparr>scheduled := remove1 w (scheduled s)\<rparr>)"
  proof (rule pool_waiters_inv [OF assms])
    show "adm_inv (t\<lparr>scheduled := remove1 w (scheduled s)\<rparr>)"
      using pool_invD(3) [OF assms] Inl by (rule deliver_grant_Inl_inv)
  qed (use Inl in \<open>auto simp: deliver_admission_grant_def adm_simps split: if_splits\<close>)
  with Inl show ?thesis by (simp add: pool_deliver_grant_def)
next
  case (Inr t)
  with deliver_grant_drop [OF Inr] grant_advance_section [OF pool_drop_pre(2) [OF assms, of w]]
  show ?thesis by (simp add: pool_deliver_grant_def)
qed

lemma ctl_cong:
  assumes "ctl l z a"
    and "read_workers b = read_workers a" "next_worker b = next_worker a"
      "pause_controls_enqueued b = pause_controls_enqueued a" "pause_ack_count b = pause_ack_count a"
      "pause_complete b = pause_complete a" "pool_stop_enqueued b = pool_stop_enqueued a"
      "stopped_worker_count b = stopped_worker_count a" "fatal_error b = fatal_error a"
      "pool_closed b = pool_closed a"
  shows "ctl l z b"
  using assms(1) unfolding ctl_def assms(2-) .

lemma pool_acquire_inv:
  assumes inv: "pool_inv s" and "pool_acquire_capacity pid s = (r, t)"
  shows "pool_inv t"
proof (cases "pool_raise_if_not_open pid s")
  case (Inl e)
  with assms show ?thesis by (simp add: pool_acquire_capacity_def)
next
  case (Inr x)
  then have op: "life s = Open" by (auto simp: pool_raise_if_not_open_def bindR_Inr_iff split: if_splits)
  obtain q y where l: "acquire_locked ''SQLite read admission queue is full'' s = (q, y)" by fastforce
  note pre = pool_preD [OF pool_invD(1) [OF inv]]
  have y: "y = snd (acquire_locked ''SQLite read admission queue is full'' s)" using l by simp
  have fr: "actors y = actors s" "life y = Open" "queue_capacity y = queue_capacity s"
    using op by (simp_all add: y adm_simps)
  have adm: "adm_inv y" unfolding y by (rule acquire_inv [OF pool_invD(3) [OF inv] op])
  have acct: "outstanding y = int (pool_owned y) + (if q = Inr None then 1 else 0)"
    using pool.acquire_accounted [OF pre(1) _ l] pre(3) by (simp add: pool_owned_def)
  have ctl: "ctl Open z (actors s)" for z using ctl_mono [OF pre(5)] op by simp
  let ?t = "if q = Inr None then with_actors (dispatching_update Suc) y else y"
  have t: "t = ?t"
    using assms(2) Inr l by (auto simp: pool_acquire_capacity_def split: sum.splits option.splits)
  have "pool_pre ?t"
  proof (rule pool_preI)
    show "outstanding ?t = int (pool_owned ?t)" using acct by (simp add: pool_owned_def pool_extra_def fr)
    have "ctl Open z (actors ?t)" for z using ctl_cong [OF ctl, of "actors ?t"] by (simp add: fr)
    moreover have "life ?t = Open" by (simp add: fr)
    ultimately show "ctl (life ?t) (outstanding ?t = 0) (actors ?t)" by (simp only:)
    show "reads_ok (actors ?t)" using pre(6) by (simp add: reads_ok_def fr)
  qed (use adm pre(4) in \<open>simp_all add: adm_inv_def fr\<close>)
  with adm show ?thesis unfolding t by (simp add: pool_inv_def adm_inv_def fr)
qed

lemma pool_resume_waiter_inv:
  assumes inv: "pool_inv s" and "pool_resume_waiter w s = (r, t)"
  shows "pool_inv t"
proof (cases "consume_admission w s")
  case None
  with assms show ?thesis by (auto simp: pool_resume_waiter_def intro: pool_cancel_inv)
next
  case (Some y)
  then have g: "has_state s w Granted" and y: "y = set_state w Consumed s"
    by (auto simp: consume_admission_def split: if_splits)
  have t: "t = with_actors (dispatching_update Suc) y"
    using assms(2) Some by (simp add: pool_resume_waiter_def)
  note pre = pool_preD [OF pool_invD(1) [OF inv]]
  have adm: "adm_core y" "settled y" using consume_inv [OF pool_invD(3) [OF inv] Some] by (auto simp: adm_inv_def)
  have own: "pool_owned t = pool_owned s"
    using pool.set_state_granted [OF pre(1) g, of Consumed]
    by (simp add: t y pool_owned_def pool_extra_def)
  have fr: "life t = life s" "outstanding t = outstanding s" "queue_capacity t = queue_capacity s"
    by (simp_all add: t y adm_simps)
  have "pool_pre t"
  proof (rule pool_preI)
    show "outstanding t = int (pool_owned t)" by (simp only: fr own pre(3))
    show "ctl (life t) (outstanding t = 0) (actors t)"
      using ctl_cong [OF pre(5), of "actors t"] by (simp only: fr) (simp add: t y)
    show "reads_ok (actors t)" using pre(6) by (simp add: reads_ok_def t y)
  qed (use adm pre(4) in \<open>simp_all add: fr\<close>, simp_all add: t)
  with adm inv show ?thesis unfolding pool_inv_def fr by (simp add: t y)
qed

section \<open>Changes of one worker\<close>

lemma upd_worker_frame [simp]:
  "next_worker (upd_worker i f a) = next_worker a"
  "pause_controls_enqueued (upd_worker i f a) = pause_controls_enqueued a"
  "pause_ack_count (upd_worker i f a) = pause_ack_count a"
  "pause_complete (upd_worker i f a) = pause_complete a"
  "pool_stop_enqueued (upd_worker i f a) = pool_stop_enqueued a"
  "stopped_worker_count (upd_worker i f a) = stopped_worker_count a"
  "fatal_error (upd_worker i f a) = fatal_error a" "pool_closed (upd_worker i f a) = pool_closed a"
  "owner_pid (upd_worker i f a) = owner_pid a" "dispatching (upd_worker i f a) = dispatching a"
  "next_read (upd_worker i f a) = next_read a" "answers (upd_worker i f a) = answers a"
  "read_workers (upd_worker i f a) = (read_workers a)[i := f (read_workers a ! i)]"
  by (simp_all add: upd_worker_def)

lemma pending_upd:
  assumes "i < length (read_workers a)"
  shows "mset (pending_reads (upd_worker i f a)) + mset (worker_reads (read_workers a ! i))
       = mset (pending_reads a) + mset (worker_reads (f (read_workers a ! i)))"
  using mset_concat_update [OF assms] by (simp add: pending_reads_def)

lemma pending_upd_same:
  assumes "i < length (read_workers a)"
    and "worker_reads (f (read_workers a ! i)) = worker_reads (read_workers a ! i)"
  shows "pending_reads (upd_worker i f a) = pending_reads a"
proof -
  have "map worker_reads ((read_workers a)[i := f (read_workers a ! i)]) = map worker_reads (read_workers a)"
    using assms by (intro nth_equalityI) (auto simp: nth_list_update)
  then show ?thesis by (simp add: pending_reads_def)
qed

lemma ctl_worker:
  assumes "ctl l z a" and "i < length (read_workers a)"
  shows "worker_ok l (pause_controls_enqueued a) (pool_stop_enqueued a) (fatal_error a \<noteq> None)
           (read_workers a ! i)"
  using assms unfolding ctl_def by (meson nth_mem)

lemma ctl_workers:
  assumes "ctl l z a"
    and "next_worker b = next_worker a"
      "pause_controls_enqueued b = pause_controls_enqueued a" "pause_ack_count b = pause_ack_count a"
      "pause_complete b = pause_complete a" "pool_stop_enqueued b = pool_stop_enqueued a"
      "stopped_worker_count b = stopped_worker_count a" "fatal_error b = fatal_error a"
      "pool_closed b = pool_closed a" "length (read_workers b) = length (read_workers a)"
      "sum_list (map pauses (read_workers b)) = sum_list (map pauses (read_workers a))"
      "sum_list (map (\<lambda>w. of_bool (stopped w)) (read_workers b))
         = (sum_list (map (\<lambda>w. of_bool (stopped w)) (read_workers a)) :: nat)"
    and "\<forall>w \<in> set (read_workers b).
      worker_ok l (pause_controls_enqueued a) (pool_stop_enqueued a) (fatal_error a \<noteq> None) w"
  shows "ctl l z b"
  using assms(1,13) unfolding ctl_def assms(2-12) by blast

lemma ctl_next:
  "ctl l z a \<Longrightarrow> m < length (read_workers a) \<Longrightarrow> ctl l z (a\<lparr>next_worker := m, next_read := n\<rparr>)"
  unfolding ctl_def by (elim conjE, intro conjI) simp_all

text \<open>A worker that changes neither its pauses nor whether it has stopped.\<close>

lemma upd_ctl:
  assumes "ctl l z a" and "i < length (read_workers a)"
    and "pauses (f (read_workers a ! i)) = pauses (read_workers a ! i)"
    and "stopped (f (read_workers a ! i)) = stopped (read_workers a ! i)"
    and "worker_ok l (pause_controls_enqueued a) (pool_stop_enqueued a) (fatal_error a \<noteq> None)
           (f (read_workers a ! i))"
  shows "ctl l z (upd_worker i f a)"
proof -
  have "sum_list (map pauses (read_workers (upd_worker i f a))) = sum_list (map pauses (read_workers a))"
    using sum_list_map_update [OF assms(2), of pauses "f (read_workers a ! i)"] assms(3) by simp
  moreover have "sum_list (map (\<lambda>w. of_bool (stopped w)) (read_workers (upd_worker i f a)))
      = (sum_list (map (\<lambda>w. of_bool (stopped w)) (read_workers a)) :: nat)"
    using sum_list_map_update [OF assms(2), of "\<lambda>w. of_bool (stopped w)" "f (read_workers a ! i)"] assms(4)
    by simp
  moreover have "\<forall>w \<in> set (read_workers a).
      worker_ok l (pause_controls_enqueued a) (pool_stop_enqueued a) (fatal_error a \<noteq> None) w"
    using assms(1) unfolding ctl_def by blast
  note ball_update [OF this assms(5), of i]
  ultimately show ?thesis
    by (intro ctl_workers [OF assms(1)]) (simp_all only: upd_worker_frame length_list_update)
qed

text \<open>A step of one worker that owns what it owned before.\<close>

lemma upd_pool_inv:
  assumes "pool_inv s" and "i < max_connections s"
    and "worker_reads (f (read_workers (actors s) ! i)) = worker_reads (read_workers (actors s) ! i)"
    and "ctl (life s) (outstanding s = 0) (upd_worker i f (actors s))"
  shows "pool_inv (with_actors (upd_worker i f) s)"
proof -
  have "pool_pre (with_actors (upd_worker i f) s)"
    using assms(2,4) pending_upd_same [of i "actors s" f] assms(3)
    by (intro pool_pre_actors [OF pool_invD(1) [OF assms(1)]]) (simp_all add: max_connections_def)
  then show ?thesis using assms(1) unfolding pool_inv_def by simp
qed

section \<open>Dispatching, pausing and closing\<close>

lemma sum_stopped: "sum_list (map (\<lambda>w. of_bool (stopped w)) ws) = length (filter stopped ws)"
  by (induction ws) auto

text \<open>A slot given back, by whoever held it.\<close>

lemma release_pre:
  assumes "adm_core s" and "life s \<noteq> Open \<Longrightarrow> settled s" and "0 < queue_capacity s"
    and "outstanding s = int (pool_owned s) + 1"
    and "ctl (life s) (outstanding s = 0) (actors s)" and "reads_ok (actors s)"
  shows "pool_pre (s\<lparr>outstanding := outstanding s - 1\<rparr>)"
proof (rule pool_preI)
  let ?t = "s\<lparr>outstanding := outstanding s - 1\<rparr>"
  show "adm_core ?t" using assms(1) unfolding adm_core_def by (auto simp: adm_simps)
  show "settled ?t" if "life ?t \<noteq> Open"
    using assms(2) that unfolding settled_def by (auto simp: adm_simps)
  show "outstanding ?t = int (pool_owned ?t)"
    using assms(4) by (simp add: pool_owned_def pool_extra_def adm_simps)
  show "ctl (life ?t) (outstanding ?t = 0) (actors ?t)"
    using ctl_mono [OF assms(5), of "outstanding s - 1 = 0"] assms(4) by simp
qed (use assms in simp_all)

lemma mset_pending_step:
  assumes "\<forall>r. answers a r \<noteq> None \<longrightarrow> r < next_read a"
  shows "mset_set {r. r < Suc (next_read a) \<and> answers a r = None}
       = add_mset (next_read a) (mset_set {r. r < next_read a \<and> answers a r = None})"
proof -
  have "answers a (next_read a) = None" using assms by (meson less_irrefl)
  then have "{r. r < Suc (next_read a) \<and> answers a r = None}
      = insert (next_read a) {r. r < next_read a \<and> answers a r = None}" by (auto simp: less_Suc_eq)
  then show ?thesis by simp
qed

lemma reads_ok_answer:
  assumes "reads_ok a" and "r \<in># mset (pending_reads a)"
    and "mset (pending_reads b) = mset (pending_reads a) - {#r#}"
    and "next_read b = next_read a" and "answers b = (answers a)(r \<mapsto> x)"
  shows "reads_ok b"
proof -
  let ?open = "{q. q < next_read a \<and> answers a q = None}"
  have eq: "mset (pending_reads a) = mset_set ?open" using assms(1) by (simp add: reads_ok_def)
  have fin: "finite ?open" by simp
  have r: "r \<in> ?open" using assms(2) unfolding eq using fin by simp
  have "mset_set ?open - {#r#} = mset_set (?open - {r})" using mset_set_Diff [OF fin, of "{r}"] r by simp
  moreover have "?open - {r} = {q. q < next_read b \<and> answers b q = None}" using assms(4,5) by auto
  ultimately show ?thesis using assms eq r by (auto simp: reads_ok_def)
qed

lemma submit_dispatch_ctl:
  assumes "ctl l False a" and "fatal_error a = None" and "l \<noteq> Closed"
  shows "ctl l z ((upd_worker (next_worker a) (put_item (ReadRequest r)) a)
           \<lparr>next_worker := (next_worker a + 1) mod length (read_workers a), next_read := n\<rparr>)"
proof -
  have c: "next_worker a < length (read_workers a)" "\<not> pause_controls_enqueued a"
      "\<not> pool_stop_enqueued a" "l \<noteq> New"
    using assms by (auto simp: ctl_def)
  let ?w = "read_workers a ! next_worker a" and ?f = "put_item (ReadRequest r)"
  have "worker_ok l False False (fatal_error a \<noteq> None) ?w" using ctl_worker [OF assms(1) c(1)] c by simp
  then have "worker_ok l False False (fatal_error a \<noteq> None) (?f ?w)"
    using assms(3) c(4) by (auto simp: worker_ok_def pauses_def handle_of_def)
  then have "ctl l False (upd_worker (next_worker a) ?f a)"
    using c by (intro upd_ctl [OF assms(1)]) (simp_all add: pauses_def)
  then have "ctl l z (upd_worker (next_worker a) ?f a)" by (rule ctl_mono) simp
  moreover have "(next_worker a + 1) mod length (read_workers a) < length (read_workers a)"
    using c(1) by (intro mod_less_divisor) linarith
  ultimately show ?thesis by (intro ctl_next) (simp_all only: upd_worker_frame length_list_update)
qed

text \<open>A caller that leaves \<open>_submit\<close>'s locked section no longer holds its slot as a caller.\<close>

lemma undispatched:
  assumes inv: "pool_inv s" and disp: "0 < dispatching (actors s)"
    and d: "d = with_actors (dispatching_update (\<lambda>n. n - 1)) s"
  shows "outstanding d = int (pool_owned d) + 1" "ctl (life d) False (actors d)" "reads_ok (actors d)"
    "adm_core d" "settled d" "0 < queue_capacity d"
proof -
  note pre = pool_preD [OF pool_invD(1) [OF inv]]
  have own: "pool_owned s = Suc (pool_owned d)"
    using disp by (simp add: d pool_owned_def pool_extra_def)
  then show "outstanding d = int (pool_owned d) + 1" using pre(3) by (simp add: d)
  have "ctl (life s) False (actors s)" using pre(3,5) own by simp
  from ctl_cong [OF this, of "actors d"] show "ctl (life d) False (actors d)" by (simp add: d)
  show "reads_ok (actors d)" using reads_ok_cong [of "actors d" "actors s"] pre(6) by (simp add: d)
  show "adm_core d" "settled d" "0 < queue_capacity d"
    using pre(1,4) pool_invD(2) [OF inv] by (simp_all add: d)
qed

lemma submit_failed_inv:
  assumes "outstanding d = int (pool_owned d) + 1" "ctl (life d) False (actors d)" "reads_ok (actors d)"
    "adm_core d" "settled d" "0 < queue_capacity d" and "life d \<noteq> Open"
  shows "pool_inv (advance_lifecycle_locked (d\<lparr>outstanding := outstanding d - 1\<rparr>))"
proof (rule advance_section)
  have "ctl (life d) (outstanding d = 0) (actors d)" using assms(1,2) by simp
  with assms show "pool_pre (d\<lparr>outstanding := outstanding d - 1\<rparr>)" by (intro release_pre)
  show "settled (d\<lparr>outstanding := outstanding d - 1\<rparr>)"
    using assms(5,7) unfolding settled_def by (auto simp: adm_simps)
qed

definition dispatched :: "'v actors \<Rightarrow> 'v actors" where
  "dispatched a = (upd_worker (next_worker a) (put_item (ReadRequest (next_read a))) a)
     \<lparr>next_worker := (next_worker a + 1) mod length (read_workers a), next_read := next_read a + 1\<rparr>"

lemma dispatched_reads:
  assumes "next_worker a < length (read_workers a)" and "reads_ok a"
  shows "length (pending_reads (dispatched a)) = Suc (length (pending_reads a))"
    and "reads_ok (dispatched a)" and "dispatching (dispatched a) = dispatching a"
proof -
  have pend: "mset (pending_reads (dispatched a)) = add_mset (next_read a) (mset (pending_reads a))"
    using pending_upd [OF assms(1), of "put_item (ReadRequest (next_read a))"]
    by (simp add: dispatched_def worker_reads_def)
  then show "length (pending_reads (dispatched a)) = Suc (length (pending_reads a))"
    by (metis size_mset size_add_mset)
  have "next_read (dispatched a) = Suc (next_read a)" "answers (dispatched a) = answers a"
    by (simp_all add: dispatched_def)
  with pend show "reads_ok (dispatched a)"
    using assms(2) mset_pending_step [of a] unfolding reads_ok_def by (simp add: less_SucI)
  show "dispatching (dispatched a) = dispatching a" by (simp add: dispatched_def)
qed

lemma submit_sent_inv:
  assumes "outstanding d = int (pool_owned d) + 1" "ctl (life d) False (actors d)" "reads_ok (actors d)"
    "adm_core d" "settled d" "0 < queue_capacity d"
    and "fatal_error (actors d) = None" "life d \<noteq> Closed"
  shows "pool_inv (with_actors dispatched d)"
proof -
  have nw: "next_worker (actors d) < length (read_workers (actors d))" using assms(2) by (simp add: ctl_def)
  note rd = dispatched_reads [OF nw assms(3)]
  have ct: "ctl (life d) z (dispatched (actors d))" for z
    using assms(2,7,8) unfolding dispatched_def by (rule submit_dispatch_ctl)
  have "outstanding d = int (pool_owned (with_actors dispatched d))"
    using assms(1) rd by (simp add: pool_owned_def pool_extra_def)
  then have "pool_pre (with_actors dispatched d)"
    using assms(4-6) rd(2) ct by (intro pool_preI) (simp_all only: with_actors_frame with_actors_waiters)
  then show ?thesis using assms(1,5) unfolding pool_inv_def by simp
qed

lemma pool_submit_inv:
  assumes inv: "pool_inv s" and disp: "0 < dispatching (actors s)" and "pool_submit s = (r, t)"
  shows "pool_inv t"
proof -
  define d where "d = with_actors (dispatching_update (\<lambda>n. n - 1)) s"
  note und = undispatched [OF inv disp d_def]
  show ?thesis
  proof (cases "fatal_error (actors d) \<noteq> None \<or> life d = Closed")
    case True
    then have "life d \<noteq> Open" using und(2) by (auto simp: ctl_def)
    moreover have "t = advance_lifecycle_locked (d\<lparr>outstanding := outstanding d - 1\<rparr>)"
      using True assms(3) unfolding pool_submit_def d_def [symmetric] Let_def by simp
    ultimately show ?thesis using submit_failed_inv [OF und] by simp
  next
    case False
    then have "t = with_actors dispatched d"
      using assms(3) unfolding pool_submit_def d_def [symmetric] Let_def
      by (simp add: dispatched_def [abs_def])
    with False submit_sent_inv [OF und] show ?thesis by simp
  qed
qed

lemma settled_life: "(\<forall>w. \<not> has_state s w Waiting) \<Longrightarrow> settled (s\<lparr>life := l\<rparr>)"
  by (simp add: settled_def adm_simps)

text \<open>The phase changes of pausing and closing, after which the deque is empty.\<close>

lemma reject_pre:
  assumes "pool_inv s" and "ctl l (outstanding s = 0) (f (actors s))"
    and "dispatching (f (actors s)) = dispatching (actors s)"
    and "pending_reads (f (actors s)) = pending_reads (actors s)"
    and "next_read (f (actors s)) = next_read (actors s)" "answers (f (actors s)) = answers (actors s)"
  shows "pool_pre (with_actors f (reject_waiters (s\<lparr>life := l\<rparr>)))"
    and "settled (with_actors f (reject_waiters (s\<lparr>life := l\<rparr>)))"
proof -
  note pre = pool_preD [OF pool_invD(1) [OF assms(1)]]
  have core: "adm_core (s\<lparr>life := l\<rparr>)" using pre(1) by (simp add: core_update_free)
  show set: "settled (with_actors f (reject_waiters (s\<lparr>life := l\<rparr>)))"
    using reject_settled [OF core] by simp
  show "pool_pre (with_actors f (reject_waiters (s\<lparr>life := l\<rparr>)))"
  proof (rule pool_preI)
    show "outstanding (with_actors f (reject_waiters (s\<lparr>life := l\<rparr>)))
        = int (pool_owned (with_actors f (reject_waiters (s\<lparr>life := l\<rparr>))))"
      using pre(3) assms(3,4) by (simp add: pool_owned_def pool_extra_def adm_simps)
    show "reads_ok (actors (with_actors f (reject_waiters (s\<lparr>life := l\<rparr>))))"
      using pre(6) assms(4-6) by (simp add: reads_ok_def)
  qed (use assms(2) pre(4) reject_core [OF core] set in \<open>simp_all add: adm_simps\<close>)
qed

text \<open>The workers' states under a change of phase alone.\<close>

lemma worker_ok_life:
  "worker_ok l p st f w \<Longrightarrow> l \<in> {Open, Pausing, Paused} \<Longrightarrow> l' \<in> {Open, Pausing, Paused, Closing} \<Longrightarrow>
   worker_ok l' p st f w"
  unfolding worker_ok_def by (cases "thread w") (simp_all add: serving_def, auto)

lemma pause_ctl:
  assumes "ctl Open z a"
  shows "ctl Pausing z' (a\<lparr>pause_complete := Some FuturePending\<rparr>)"
proof -
  have "\<forall>w \<in> set (read_workers a).
      worker_ok Pausing (pause_controls_enqueued a) (pool_stop_enqueued a) (fatal_error a \<noteq> None) w"
    using assms unfolding ctl_def by (blast intro: worker_ok_life)
  moreover have "0 < length (read_workers a)" using assms unfolding ctl_def by linarith
  ultimately show ?thesis using assms unfolding ctl_def by (elim conjE, intro conjI) simp_all
qed

lemma pool_pause_inv:
  assumes "pool_inv s" and "pause_and_drain pid s = (r, t)"
  shows "pool_inv t"
proof (cases "life s = Open \<and> assert_owner_process_locked pid s = Inr ()")
  case True
  let ?f = "pause_complete_update (\<lambda>_. Some FuturePending)"
  note pre = pool_preD [OF pool_invD(1) [OF assms(1)]]
  have "ctl Pausing (outstanding s = 0) (?f (actors s))"
    using pre(5) True pause_ctl by metis
  note rj = reject_pre [where f = ?f and l = Pausing, OF assms(1) this]
  have "pool_inv (advance_lifecycle_locked (with_actors ?f (reject_waiters (s\<lparr>life := Pausing\<rparr>))))"
    by (rule advance_section) (rule rj; simp)+
  moreover have "t = advance_lifecycle_locked (with_actors ?f (reject_waiters (s\<lparr>life := Pausing\<rparr>)))"
    using True assms(2) by (simp add: pause_and_drain_def)
  ultimately show ?thesis by simp
next
  case False
  with assms show ?thesis by (auto simp: pause_and_drain_def split: sum.splits if_splits)
qed

lemma resume_ctl:
  assumes "ctl Paused z a"
  shows "ctl Open z' (a\<lparr>pause_controls_enqueued := False, pause_ack_count := 0, pause_complete := None\<rparr>)"
proof -
  have pce: "pause_controls_enqueued a" "\<not> pool_stop_enqueued a" "fatal_error a = None"
    using assms unfolding ctl_def by simp_all
  moreover have "pause_ack_count a + sum_list (map pauses (read_workers a)) = length (read_workers a)"
      "pause_ack_count a = length (read_workers a)"
    using assms unfolding ctl_def by blast+
  ultimately have "pauses w = 0" if "w \<in> set (read_workers a)" for w
    using that by (auto simp: sum_list_eq_0_iff)
  moreover have "worker_ok Open True False False w" if "w \<in> set (read_workers a)" for w
    using assms pce that worker_ok_life [of Paused _ _ _ w Open] unfolding ctl_def by auto
  ultimately have "\<forall>w \<in> set (read_workers a). worker_ok Open False False False w"
    unfolding worker_ok_def by auto
  then show ?thesis using assms pce unfolding ctl_def by (elim conjE, intro conjI) simp_all
qed

lemma no_waiters_closed: "pool_inv s \<Longrightarrow> life s \<noteq> Open \<Longrightarrow> \<not> has_state s w Waiting"
  using pool_invD(2) [of s] by (auto simp: settled_def)

text \<open>A change of phase and actors while nobody waits.\<close>

lemma phase_inv:
  fixes s :: "'v read_pool"
  assumes "pool_inv s" and "life s \<noteq> Open" and "ctl l (outstanding s = 0) (f (actors s))"
    and "dispatching (f (actors s)) = dispatching (actors s)"
    and "pending_reads (f (actors s)) = pending_reads (actors s)"
    and "next_read (f (actors s)) = next_read (actors s)" "answers (f (actors s)) = answers (actors s)"
    and "l \<noteq> Pausing" "l \<noteq> Closing"
  shows "pool_inv ((with_actors f s)\<lparr>life := l\<rparr>)"
proof -
  let ?t = "(with_actors f s)\<lparr>life := l\<rparr>"
  note pre = pool_preD [OF pool_invD(1) [OF assms(1)]]
  have set: "settled ?t"
    by (rule settled_life) (use no_waiters_closed [OF assms(1,2)] in simp)
  have fr: "actors ?t = f (actors s)" "life ?t = l" "outstanding ?t = outstanding s"
      "queue_capacity ?t = queue_capacity s" "adm_core ?t \<longleftrightarrow> adm_core s"
    by (simp_all add: core_update_free)
  have "pool_owned ?t = pool_owned s"
    using assms(4,5) by (simp add: pool_owned_def pool_extra_def adm_simps)
  moreover have "reads_ok (f (actors s))" using pre(6) assms(5-7) by (simp add: reads_ok_def)
  ultimately have "pool_pre ?t"
    using pre(1,3,4) assms(3) set by (intro pool_preI) (simp_all only: fr)
  then show ?thesis using set assms(8,9) unfolding pool_inv_def by simp
qed

lemma pool_resume_inv:
  assumes "pool_inv s" and "resume_pool pid s = (r, t)"
  shows "pool_inv t"
proof (cases "life s = Paused \<and> assert_owner_process_locked pid s = Inr ()")
  case True
  let ?f = "\<lambda>a. a\<lparr>pause_controls_enqueued := False, pause_ack_count := 0, pause_complete := None\<rparr>"
  have "ctl Open (outstanding s = 0) (?f (actors s))"
    using pool_preD(5) [OF pool_invD(1) [OF assms(1)]] True by (intro resume_ctl) simp
  then have "pool_inv ((with_actors ?f s)\<lparr>life := Open\<rparr>)"
    using True by (intro phase_inv [OF assms(1)]) simp_all
  with True assms(2) show ?thesis by (simp add: resume_pool_def)
next
  case False
  with assms show ?thesis by (auto simp: resume_pool_def split: sum.splits if_splits)
qed

lemma fail_pause_frame [simp]:
  "read_workers (fail_pause a) = read_workers a" "next_worker (fail_pause a) = next_worker a"
  "pause_controls_enqueued (fail_pause a) = pause_controls_enqueued a"
  "pause_ack_count (fail_pause a) = pause_ack_count a"
  "pool_stop_enqueued (fail_pause a) = pool_stop_enqueued a"
  "stopped_worker_count (fail_pause a) = stopped_worker_count a"
  "fatal_error (fail_pause a) = fatal_error a" "pool_closed (fail_pause a) = pool_closed a"
  "dispatching (fail_pause a) = dispatching a" "next_read (fail_pause a) = next_read a"
  "answers (fail_pause a) = answers a" "pending_reads (fail_pause a) = pending_reads a"
  by (simp_all add: fail_pause_def)

lemma close_ctl:
  assumes "ctl l z a" and "l \<in> {Open, Pausing, Paused}"
  shows "ctl Closing z (fail_pause a)"
proof -
  have "\<forall>w \<in> set (read_workers a).
      worker_ok Closing (pause_controls_enqueued a) (pool_stop_enqueued a) (fatal_error a \<noteq> None) w"
    using assms worker_ok_life [of l _ _ _ _ Closing] unfolding ctl_def by blast
  then show ?thesis using assms unfolding ctl_def by (elim conjE, intro conjI) auto
qed

lemma new_workers:
  assumes "ctl New z a" and "w \<in> set (read_workers a)"
  shows "thread w = NotRunning" "rqueue w = []" "slot w = None" "\<not> connection_open w" "\<not> stopped w"
proof -
  have "worker_ok New False False False w" using assms unfolding ctl_def by auto
  then show "thread w = NotRunning" "rqueue w = []" "slot w = None" "\<not> connection_open w" "\<not> stopped w"
    unfolding worker_ok_def by (cases "thread w"; simp add: serving_def)+
qed

lemma pool_close_inv:
  assumes "pool_inv s" and "close_pool pid s = (r, t)"
  shows "pool_inv t"
proof -
  note pre = pool_preD [OF pool_invD(1) [OF assms(1)]]
  consider (new) "life s = New" | (live) "life s \<in> {Open, Pausing, Paused}" "assert_owner_process_locked pid s = Inr ()"
    | (same) "t = s"
    using assms(2) pre(5)
    by (cases "life s") (auto simp: close_pool_def ctl_def split: sum.splits if_splits)
  then show ?thesis
  proof cases
    case new
    let ?f = "pool_closed_update (\<lambda>_. FutureDone)"
    have c: "ctl New (outstanding s = 0) (actors s)" using pre(5) new by simp
    have "\<forall>w \<in> set (read_workers (actors s)). worker_ok Closed False False False w"
      using new_workers [OF c] unfolding worker_ok_def by (auto simp: serving_def pauses_def)
    then have "ctl Closed (outstanding s = 0) (?f (actors s))"
      using c unfolding ctl_def by (elim conjE, intro conjI) simp_all
    then have "pool_inv ((with_actors ?f s)\<lparr>life := Closed\<rparr>)"
      using new by (intro phase_inv [OF assms(1)]) simp_all
    with new assms(2) show ?thesis by (simp add: close_pool_def)
  next
    case live
    have "ctl Closing (outstanding s = 0) (fail_pause (actors s))" using pre(5) live(1) by (rule close_ctl)
    note rj = reject_pre [where f = fail_pause and l = Closing, OF assms(1) this]
    have "pool_inv (advance_lifecycle_locked (with_actors fail_pause (reject_waiters (s\<lparr>life := Closing\<rparr>))))"
      by (rule advance_section) (rule rj; simp)+
    with live assms(2) show ?thesis by (auto simp: close_pool_def)
  qed (use assms in simp)
qed

lemma pending_none: "\<forall>w \<in> set (read_workers a). worker_reads w = [] \<Longrightarrow> pending_reads a = []"
  by (simp add: pending_reads_def)

lemma start_ok_ctl:
  assumes "ctl New z a"
  shows "ctl Open z' (a\<lparr>owner_pid := p, read_workers := map (thread_update (\<lambda>_. Getting)) (read_workers a)\<rparr>)"
proof -
  have "\<forall>w \<in> set (map (thread_update (\<lambda>_. Getting)) (read_workers a)). worker_ok Open False False False w"
    using new_workers [OF assms] unfolding worker_ok_def
    by (auto simp: serving_def pauses_def handle_ok_def handle_of_def)
  then show ?thesis using assms unfolding ctl_def by (elim conjE, intro conjI) (simp_all add: o_def)
qed

lemma start_failed_ctl:
  assumes "ctl New z a" and "n < length (read_workers a)"
  shows "ctl Closed z (a\<lparr>owner_pid := p,
     read_workers := map (\<lambda>w. w\<lparr>thread := Gone, stopped := True\<rparr>) (take n (read_workers a))
       @ drop n (read_workers a),
     stopped_worker_count := stopped_worker_count a + n, fatal_error := Some e,
     pool_closed := (if pool_closed a = FuturePending then FutureError else pool_closed a)\<rparr>)"
proof -
  let ?g = "\<lambda>w. w\<lparr>thread := Gone, stopped := True\<rparr>" and ?ws = "read_workers a"
  note nw = new_workers [OF assms(1)]
  have "worker_ok Closed False False True w" if "w \<in> set (drop n ?ws)" for w
    using nw [of w] in_set_dropD [OF that] unfolding worker_ok_def by (auto simp: serving_def pauses_def)
  moreover have "worker_ok Closed False False True (?g w)" if "w \<in> set (take n ?ws)" for w
    using nw [of w] in_set_takeD [OF that] unfolding worker_ok_def by (auto simp: serving_def pauses_def)
  ultimately have ok: "\<forall>w \<in> set (map ?g (take n ?ws) @ drop n ?ws). worker_ok Closed False False True w"
    by auto
  have "stopped_worker_count a = 0"
    using assms(1) nw sum_list_map_const [of ?ws "\<lambda>w. of_bool (stopped w)" 0] unfolding ctl_def by simp
  moreover have "sum_list (map (\<lambda>w. of_bool (stopped w)) (drop n ?ws)) = (0 :: nat)"
    using nw in_set_dropD by (fastforce simp: sum_list_eq_0_iff)
  ultimately have cnt: "stopped_worker_count a + n
      = sum_list (map (\<lambda>w. of_bool (stopped w)) (map ?g (take n ?ws) @ drop n ?ws))"
    using assms(2) by (simp add: o_def sum_list_triv)
  show ?thesis using assms ok cnt unfolding ctl_def by (elim conjE, intro conjI) simp_all
qed

lemma pool_start_step_inv:
  assumes "pool_inv s" and "start_pool pid n s = (r, t)"
  shows "pool_inv t"
proof (cases "life s = New")
  case True
  note pre = pool_preD [OF pool_invD(1) [OF assms(1)]]
  have c: "ctl New (outstanding s = 0) (actors s)" using pre(5) True by simp
  note nw = new_workers [OF c]
  have none: "pending_reads (actors s) = []"
    using nw by (intro pending_none) (simp add: worker_reads_def in_hand_def)
  show ?thesis
  proof (cases "max_connections s \<le> n")
    case ok: True
    let ?f = "\<lambda>a. a\<lparr>owner_pid := Some pid, read_workers := map (thread_update (\<lambda>_. Getting)) (read_workers a)\<rparr>"
    have "pending_reads (?f (actors s)) = []"
      using nw by (intro pending_none) (simp add: worker_reads_def in_hand_def)
    then have "pool_inv ((with_actors ?f s)\<lparr>life := Open\<rparr>)"
      using True none start_ok_ctl [OF c] by (intro phase_inv [OF assms(1)]) simp_all
    with True ok assms(2) show ?thesis by (simp add: start_pool_def)
  next
    case failed: False
    let ?f = "\<lambda>a. a\<lparr>owner_pid := Some pid,
       read_workers := map (\<lambda>w. w\<lparr>thread := Gone, stopped := True\<rparr>) (take n (read_workers a))
         @ drop n (read_workers a),
       stopped_worker_count := stopped_worker_count a + n,
       fatal_error := Some (OtherError ''cannot start thread''),
       pool_closed := (if pool_closed a = FuturePending then FutureError else pool_closed a)\<rparr>"
    have "pending_reads (?f (actors s)) = []"
      using nw by (intro pending_none) (auto simp: worker_reads_def in_hand_def dest: in_set_takeD in_set_dropD)
    moreover have "ctl Closed (outstanding s = 0) (?f (actors s))"
      using failed by (intro start_failed_ctl [OF c]) (simp add: max_connections_def)
    ultimately have "pool_inv ((with_actors ?f s)\<lparr>life := Closed\<rparr>)"
      using True none by (intro phase_inv [OF assms(1)]) simp_all
    with True failed assms(2) show ?thesis by (simp add: start_pool_def)
  qed
qed (use assms in \<open>auto simp: start_pool_def split: if_splits\<close>)

section \<open>The steps of the workers\<close>

lemma worker_take_simps:
  assumes "rqueue w = x # q" and "thread w = Getting"
  shows "worker_reads (worker_take w) = worker_reads w" "pauses (worker_take w) = pauses w"
    "stopped (worker_take w) = stopped w" "handle_of (worker_take w) = handle_of w"
  using assms by (cases x; simp add: worker_take_def worker_reads_def in_hand_def pauses_def handle_of_def)+

lemma worker_take_ok:
  assumes ok: "worker_ok l p st f w" and w: "thread w = Getting" "rqueue w = x # q"
    and st: "st \<longrightarrow> l \<in> {Closing, Closed}"
  shows "worker_ok l p st f (worker_take w)"
proof (cases x)
  case PoolStop
  have "q = []" using ok w PoolStop unfolding worker_ok_def by (auto split: if_splits)
  with ok w st PoolStop worker_take_simps [OF w(2,1)] show ?thesis
    unfolding worker_ok_def by (simp add: worker_take_def serving_def)
next
  case PoolPause
  with ok w st worker_take_simps [OF w(2,1)] show ?thesis
    unfolding worker_ok_def by (simp add: worker_take_def serving_def split: if_splits)
next
  case (ReadRequest r)
  with ok w st worker_take_simps [OF w(2,1)] show ?thesis
    unfolding worker_ok_def by (simp add: worker_take_def serving_def split: if_splits)
qed

lemma inv_worker:
  assumes "pool_inv s" and "at_pc s i p"
  shows "i < length (read_workers (actors s))" "thread (read_workers (actors s) ! i) = p"
    "ctl (life s) (outstanding s = 0) (actors s)"
    "worker_ok (life s) (pause_controls_enqueued (actors s)) (pool_stop_enqueued (actors s))
       (fatal_error (actors s) \<noteq> None) (read_workers (actors s) ! i)"
proof -
  show i: "i < length (read_workers (actors s))" "thread (read_workers (actors s) ! i) = p"
    using assms(2) by (simp_all add: at_pc_def max_connections_def)
  show "ctl (life s) (outstanding s = 0) (actors s)" using pool_preD(5) [OF pool_invD(1) [OF assms(1)]] .
  then show "worker_ok (life s) (pause_controls_enqueued (actors s)) (pool_stop_enqueued (actors s))
       (fatal_error (actors s) \<noteq> None) (read_workers (actors s) ! i)"
    using i(1) by (rule ctl_worker)
qed

lemma pool_get_inv:
  assumes "pool_inv s" and "at_pc s i Getting" and "rqueue (read_workers (actors s) ! i) \<noteq> []"
  shows "pool_inv (with_actors (upd_worker i worker_take) s)"
proof -
  note w = inv_worker [OF assms(1,2)]
  obtain x q where q: "rqueue (read_workers (actors s) ! i) = x # q" using assms(3) by (cases "rqueue (read_workers (actors s) ! i)") auto
  note g = worker_take_simps [OF q w(2)]
  have "pool_stop_enqueued (actors s) \<longrightarrow> life s \<in> {Closing, Closed}" using w(3) unfolding ctl_def by blast
  from worker_take_ok [OF w(4,2) q this] show ?thesis
    using g w(1) by (intro upd_pool_inv [OF assms(1)] upd_ctl [OF w(3)]) (simp_all add: max_connections_def)
qed

text \<open>A held request means owned capacity: no controls are on their way, save a failure's.\<close>

lemma pending_busy:
  assumes "pool_inv s" and "i < length (read_workers (actors s))"
    and "worker_reads (read_workers (actors s) ! i) \<noteq> []"
  shows "0 < outstanding s" "\<not> pause_controls_enqueued (actors s)"
    "pool_stop_enqueued (actors s) \<Longrightarrow> fatal_error (actors s) \<noteq> None"
proof -
  note pre = pool_preD [OF pool_invD(1) [OF assms(1)]]
  have "pending_reads (actors s) \<noteq> []"
    using assms(2,3) nth_mem [OF assms(2)] unfolding pending_reads_def by fastforce
  then have "0 < length (pending_reads (actors s))" by simp
  then show out: "0 < outstanding s"
    using pre(3) unfolding pool_owned_def pool_extra_def by linarith
  then show "\<not> pause_controls_enqueued (actors s)"
    "pool_stop_enqueued (actors s) \<Longrightarrow> fatal_error (actors s) \<noteq> None"
    using pre(5) unfolding ctl_def by auto
qed

definition answer_read ::
  "nat \<Rightarrow> (read_worker \<Rightarrow> read_worker) \<Rightarrow> nat \<Rightarrow> 'v answer \<Rightarrow> 'v actors \<Rightarrow> 'v actors" where
  "answer_read i f r x a = (upd_worker i f a)\<lparr>answers := (answers a)(r \<mapsto> x)\<rparr>"

text \<open>A worker that answers a request it owns and releases the slot.\<close>

lemma answer_release:
  assumes inv: "pool_inv s" and i: "i < length (read_workers (actors s))"
    and reads: "mset (worker_reads (read_workers (actors s) ! i))
        = add_mset r (mset (worker_reads (f (read_workers (actors s) ! i))))"
    and ctl: "ctl (life s) False (upd_worker i f (actors s))"
  obtains t where "pool_release_capacity (with_actors (answer_read i f r x) s) = Inr t" and "pool_inv t"
proof -
  let ?a = "actors s" and ?b = "answer_read i f r x (actors s)"
  let ?s = "with_actors (answer_read i f r x) s"
  note pre = pool_preD [OF pool_invD(1) [OF inv]] and set = pool_invD(2) [OF inv]
  have pend: "mset (pending_reads ?a) = add_mset r (mset (pending_reads ?b))"
    using pending_upd [OF i, of f] unfolding reads by (simp add: answer_read_def)
  then have len: "length (pending_reads ?a) = Suc (length (pending_reads ?b))"
    by (metis size_mset size_add_mset)
  have disp: "dispatching ?b = dispatching ?a" by (simp add: answer_read_def)
  have own: "outstanding ?s = int (pool_owned ?s) + 1"
    using pre(3) len disp by (simp add: pool_owned_def pool_extra_def)
  have rd: "reads_ok ?b"
    by (rule reads_ok_answer [OF pre(6)]) (simp_all add: pend, simp_all add: answer_read_def)
  have "ctl (life s) False ?b" using ctl by (rule ctl_cong) (simp_all add: answer_read_def)
  moreover have "(outstanding s = 0) = False" using own by simp
  ultimately have "ctl (life ?s) (outstanding ?s = 0) (actors ?s)"
    by (simp only: with_actors_frame)
  then have "pool_pre (?s\<lparr>outstanding := outstanding ?s - 1\<rparr>)"
    using pre(1,4) set own rd by (intro release_pre) (simp_all only: with_actors_frame with_actors_waiters)
  from grant_advance_section [OF this] have "pool_inv (advance_lifecycle_locked (schedule_admission_grants
      (grant_waiters_locked (?s\<lparr>outstanding := outstanding ?s - 1\<rparr>))))" .
  moreover have "\<not> outstanding ?s \<le> 0" using own by simp
  ultimately show ?thesis by (intro that) (simp_all only: pool_release_capacity_def if_False)
qed

lemma pool_run_inv:
  assumes inv: "pool_inv s" and at: "at_pc s i (Reading r)"
  shows "pool_inv (worker_run envs i r s)"
proof -
  note w = inv_worker [OF inv at]
  let ?w = "read_workers (actors s) ! i"
  have reads: "worker_reads ?w = r # read_ids (rqueue ?w)" using w(2) by (simp add: worker_reads_def in_hand_def)
  then have "worker_reads ?w \<noteq> []" by simp
  note busy = pending_busy [OF inv w(1) this]
  have hok: "handle_ok (handle_of ?w)" using w(2,4) unfolding worker_ok_def by (simp add: serving_def)
  show ?thesis
  proof (cases "run_read envs (handle_of ?w)")
    case (Inl eh)
    obtain e h where eh: "eh = (e, h)" by (cases eh rule: prod.exhaust)
    let ?f = "\<lambda>w. w\<lparr>thread := Crashed r e, connection_open := snd h\<rparr>"
    have "worker_ok (life s) (pause_controls_enqueued (actors s)) (pool_stop_enqueued (actors s))
        (fatal_error (actors s) \<noteq> None) (?f ?w)"
      using w(2,4) busy(2) unfolding worker_ok_def by (auto simp: serving_def pauses_def)
    then have "pool_inv (with_actors (upd_worker i ?f) s)"
      using w(1,2) by (intro upd_pool_inv [OF inv] upd_ctl [OF w(3)])
        (simp_all add: max_connections_def worker_reads_def in_hand_def pauses_def)
    with Inl eh show ?thesis by (simp add: worker_run_def)
  next
    case (Inr xh)
    obtain x h where xh: "xh = (x, h)" by (cases xh rule: prod.exhaust)
    let ?f = "\<lambda>w. set_handle h (w\<lparr>thread := Getting\<rparr>)"
    have "handle_ok h" using run_read_handle [OF hok] Inr xh by blast
    then have "worker_ok (life s) (pause_controls_enqueued (actors s)) (pool_stop_enqueued (actors s))
        (fatal_error (actors s) \<noteq> None) (?f ?w)"
      using w(2,4) busy(2) unfolding worker_ok_def
      by (auto simp: serving_def pauses_def set_handle_def handle_of_def)
    then have ct: "ctl (life s) False (upd_worker i ?f (actors s))"
      using w busy(1) by (intro upd_ctl) (simp_all add: pauses_def set_handle_def)
    have "mset (worker_reads ?w) = add_mset r (mset (worker_reads (?f ?w)))"
      unfolding reads by (simp add: worker_reads_def in_hand_def set_handle_def)
    from answer_release [OF inv w(1) this ct]
    obtain t where "pool_release_capacity (with_actors (answer_read i ?f r x) s) = Inr t" "pool_inv t" .
    with Inr xh show ?thesis by (simp add: worker_run_def answer_read_def [abs_def])
  qed
qed

lemma pool_fail_active_inv:
  assumes inv: "pool_inv s" and at: "at_pc s i (FailActive r e)"
  shows "pool_inv (worker_fail_active i r e s)"
proof -
  note w = inv_worker [OF inv at]
  let ?w = "read_workers (actors s) ! i" and ?f = "thread_update (\<lambda>_. FailQueue e)"
  have reads: "worker_reads ?w = r # read_ids (rqueue ?w)" using w(2) by (simp add: worker_reads_def in_hand_def)
  then have "worker_reads ?w \<noteq> []" by simp
  note busy = pending_busy [OF inv w(1) this]
  have "r \<in> set (pending_reads (actors s))"
    using reads nth_mem [OF w(1)] unfolding pending_reads_def by (auto intro!: bexI [of _ ?w])
  then have "r \<in># mset_set {q. q < next_read (actors s) \<and> answers (actors s) q = None}"
    using pool_preD(6) [OF pool_invD(1) [OF inv]] by (simp add: reads_ok_def flip: set_mset_mset)
  then have open_read: "answers (actors s) r = None" by simp
  have "worker_ok (life s) (pause_controls_enqueued (actors s)) (pool_stop_enqueued (actors s))
      (fatal_error (actors s) \<noteq> None) (?f ?w)"
    using w(2,4) busy(2) unfolding worker_ok_def by (auto simp: serving_def pauses_def)
  then have ct: "ctl (life s) False (upd_worker i ?f (actors s))"
    using w busy(1) by (intro upd_ctl) (simp_all add: pauses_def)
  have "mset (worker_reads ?w) = add_mset r (mset (worker_reads (?f ?w)))"
    unfolding reads by (simp add: worker_reads_def in_hand_def)
  from answer_release [OF inv w(1) this ct]
  obtain t where t: "pool_release_capacity (with_actors (answer_read i ?f r (AnswerError e)) s) = Inr t" "pool_inv t" .
  have "with_actors (\<lambda>a. (upd_worker i ?f a)\<lparr>answers := (if answers a r = None then (answers a)(r \<mapsto> AnswerError e)
      else answers a)\<rparr>) s = with_actors (answer_read i ?f r (AnswerError e)) s"
    using open_read by (simp add: with_actors_def answer_read_def)
  with t show ?thesis unfolding worker_fail_active_def Let_def by simp
qed

lemma with_actors_comp: "with_actors f (with_actors g s) = with_actors (\<lambda>a. f (g a)) s"
  by (simp add: with_actors_def)

lemma pool_fail_queue_inv:
  assumes inv: "pool_inv s" and at: "at_pc s i (FailQueue e)"
  shows "pool_inv (fail_worker_queue i e s)"
proof -
  note w = inv_worker [OF inv at]
  let ?w = "read_workers (actors s) ! i" and ?a = "actors s"
  have f: "fatal_error ?a \<noteq> None" "life s = Closing" using w(2,4) unfolding worker_ok_def by auto
  then have st: "pool_stop_enqueued ?a" "\<not> pause_controls_enqueued ?a" using w(3) unfolding ctl_def by auto
  have ok: "worker_ok Closing False True True ?w" using w(4) f st by simp
  have step: "pool_inv (with_actors (upd_worker i g) s)"
    if "worker_ok Closing False True True (g ?w)" "stopped (g ?w) = stopped ?w"
      "worker_reads (g ?w) = worker_reads ?w" for g
  proof -
    have "pauses (g ?w) = pauses ?w" using ok that(1) unfolding worker_ok_def by simp
    then have "ctl (life s) (outstanding s = 0) (upd_worker i g ?a)"
      using that f st w(1) by (intro upd_ctl [OF w(3)]) simp_all
    then show ?thesis using that(3) w(1) by (intro upd_pool_inv [OF inv]) (simp_all add: max_connections_def)
  qed
  show ?thesis
  proof (cases "rqueue ?w")
    case Nil
    have "pool_inv (with_actors (upd_worker i (thread_update (\<lambda>_. Finishing))) s)"
      using ok w(2) Nil by (intro step) (auto simp: worker_ok_def serving_def pauses_def worker_reads_def in_hand_def)
    with Nil show ?thesis by (simp add: fail_worker_queue_def)
  next
    case (Cons x q)
    have q: "worker_ok Closing False True True (?w\<lparr>rqueue := q\<rparr>)"
      using ok w(2) Cons unfolding worker_ok_def by (auto simp: serving_def pauses_def split: if_splits)
    show ?thesis
    proof (cases x)
      case (ReadRequest r)
      let ?f = "rqueue_update (\<lambda>_. q)"
      have reads: "worker_reads ?w = r # worker_reads (?f ?w)"
        using w(2) Cons ReadRequest by (simp add: worker_reads_def in_hand_def)
      then have "worker_reads ?w \<noteq> []" by simp
      note busy = pending_busy [OF inv w(1) this]
      have ct: "ctl (life s) False (upd_worker i ?f ?a)"
        using w(1,3) busy(1) q f st ok by (intro upd_ctl) (simp_all add: pauses_def Cons ReadRequest)
      have "mset (worker_reads ?w) = add_mset r (mset (worker_reads (?f ?w)))" unfolding reads by simp
      from answer_release [OF inv w(1) this ct]
      obtain t where "pool_release_capacity (with_actors (answer_read i ?f r (AnswerError e)) s) = Inr t" "pool_inv t" .
      with Cons ReadRequest show ?thesis by (simp add: fail_worker_queue_def answer_read_def [abs_def])
    next
      case PoolPause
      have "pool_inv (with_actors (upd_worker i (rqueue_update (\<lambda>_. q))) s)"
        using q Cons PoolPause by (intro step) (simp_all add: worker_reads_def)
      with Cons PoolPause show ?thesis by (simp add: fail_worker_queue_def)
    next
      case PoolStop
      have "pool_inv (with_actors (upd_worker i (rqueue_update (\<lambda>_. q))) s)"
        using q Cons PoolStop by (intro step) (simp_all add: worker_reads_def)
      with Cons PoolStop show ?thesis by (simp add: fail_worker_queue_def)
    qed
  qed
qed

lemma fail_others_ctl:
  assumes c: "ctl l False a" and "l \<in> {Open, Pausing, Closing}" "fatal_error a = None" "\<not> pool_stop_enqueued a"
    and i: "i < length (read_workers a)" and crashed: "thread (read_workers a ! i) = Crashed r e"
  shows "ctl Closing False (upd_worker i (thread_update (\<lambda>_. FailActive r e))
     ((fail_pause (a\<lparr>fatal_error := Some e\<rparr>))
       \<lparr>pool_stop_enqueued := True,
        read_workers := (map (put_item PoolStop) (read_workers a))[i := read_workers a ! i]\<rparr>))"
proof -
  let ?ws = "read_workers a" and ?w = "read_workers a ! i"
  have np: "\<not> pause_controls_enqueued a" using c unfolding ctl_def by blast
  have old: "worker_ok l False False False w" if "w \<in> set ?ws" for w
    using c np assms(3,4) that unfolding ctl_def by auto
  have others: "worker_ok Closing False True True (put_item PoolStop w)" if "w \<in> set ?ws" for w
    using old [OF that] assms(2) unfolding worker_ok_def by (auto simp: pauses_def handle_of_def)
  have self: "worker_ok Closing False True True (?w\<lparr>thread := FailActive r e\<rparr>)"
    using old [OF nth_mem [OF i]] crashed unfolding worker_ok_def by (auto simp: pauses_def serving_def)
  have "\<forall>w \<in> set ((map (put_item PoolStop) ?ws)[i := ?w\<lparr>thread := FailActive r e\<rparr>]).
      worker_ok Closing False True True w"
    by (rule ball_update) (use others self in auto)
  moreover have "sum_list (map (\<lambda>w. of_bool (stopped w)) ((map (put_item PoolStop) ?ws)[i := ?w\<lparr>thread := FailActive r e\<rparr>]))
      = (sum_list (map (\<lambda>w. of_bool (stopped w)) ?ws) :: nat)"
    using sum_list_map_update [of i "map (put_item PoolStop) ?ws" "\<lambda>w. of_bool (stopped w)"
        "?w\<lparr>thread := FailActive r e\<rparr>"] i by (simp add: o_def)
  ultimately show ?thesis
    using c i np assms(2) unfolding ctl_def by (elim conjE, intro conjI) auto
qed

lemma pool_begin_failure_inv:
  assumes inv: "pool_inv s" and at: "at_pc s i (Crashed r e)"
  shows "pool_inv (begin_worker_failure i r e s)"
proof -
  note w = inv_worker [OF inv at]
  let ?w = "read_workers (actors s) ! i" and ?g = "thread_update (\<lambda>_. FailActive r e)"
  have reads: "worker_reads ?w = r # read_ids (rqueue ?w)" using w(2) by (simp add: worker_reads_def in_hand_def)
  then have "worker_reads ?w \<noteq> []" by simp
  note busy = pending_busy [OF inv w(1) this]
  have same: "worker_reads (?g ?w) = worker_reads ?w" using w(2) by (simp add: worker_reads_def in_hand_def)
  have live: "life s \<noteq> New" "life s \<noteq> Closed" using w(2,4) unfolding worker_ok_def by auto
  show ?thesis
  proof (cases "fatal_error (actors s)")
    case (Some e')
    then have "life s = Closing" using w(3) live unfolding ctl_def by auto
    then have "worker_ok (life s) (pause_controls_enqueued (actors s)) (pool_stop_enqueued (actors s))
        (fatal_error (actors s) \<noteq> None) (?g ?w)"
      using w(2,4) Some unfolding worker_ok_def by (auto simp: pauses_def serving_def)
    then have "ctl (life s) (outstanding s = 0) (upd_worker i ?g (actors s))"
      using w(1,2) by (intro upd_ctl [OF w(3)]) (simp_all add: pauses_def)
    then have "pool_inv (with_actors (upd_worker i ?g) s)"
      using w(1) same by (intro upd_pool_inv [OF inv]) (simp_all add: max_connections_def)
    with Some show ?thesis by (simp add: begin_worker_failure_def)
  next
    case None
    then have ns: "\<not> pool_stop_enqueued (actors s)" using busy(3) by blast
    have l: "life s \<in> {Open, Pausing, Closing}"
      using w(3) live busy(2) unfolding ctl_def by (cases "life s") auto
    let ?h = "\<lambda>a. let b = fail_pause (a\<lparr>fatal_error := Some e\<rparr>) in
              if pool_stop_enqueued b then b
              else b\<lparr>pool_stop_enqueued := True,
                     read_workers := (map (put_item PoolStop) (read_workers b))[i := read_workers b ! i]\<rparr>"
    let ?k = "\<lambda>a. upd_worker i ?g (?h a)"
    have k: "?k (actors s) = upd_worker i ?g ((fail_pause (actors s\<lparr>fatal_error := Some e\<rparr>))
       \<lparr>pool_stop_enqueued := True, read_workers := (map (put_item PoolStop) (read_workers (actors s)))
          [i := read_workers (actors s) ! i]\<rparr>)"
      using ns by (simp add: Let_def)
    have "(outstanding s = 0) = False" using busy(1) by simp
    then have ct: "ctl Closing (outstanding s = 0) (?k (actors s))"
      unfolding k using fail_others_ctl [OF _ l None ns w(1,2)] w(3) by simp
    have "pending_reads (a\<lparr>read_workers := (map (put_item PoolStop) (read_workers b))[i := read_workers b ! i]\<rparr>)
        = pending_reads b" if "i < length (read_workers b)" for a b :: "'a actors"
      using that by (auto simp: pending_reads_def worker_reads_def nth_list_update
          intro!: arg_cong [where f = concat] nth_equalityI)
    then have pr: "pending_reads (?k (actors s)) = pending_reads (actors s)"
      unfolding k using w(1) same by (subst pending_upd_same) simp_all
    have fr: "dispatching (?k (actors s)) = dispatching (actors s)"
        "next_read (?k (actors s)) = next_read (actors s)" "answers (?k (actors s)) = answers (actors s)"
      unfolding k by simp_all
    note rj = reject_pre [where f = ?k and l = Closing, OF inv ct fr(1) pr fr(2,3)]
    have st: "pool_stop_enqueued (?k (actors s))" unfolding k by simp
    have "pool_inv (with_actors ?k (reject_waiters (s\<lparr>life := Closing\<rparr>)))"
      unfolding pool_inv_def using rj st by (simp add: adm_simps del: upd_worker_frame)
    with None show ?thesis by (simp add: begin_worker_failure_def with_actors_comp)
  qed
qed

lemma pool_finish_ctl:
  assumes c: "ctl Closing z a" and i: "i < length (read_workers a)"
    and w: "thread (read_workers a ! i) = Finishing"
    and b: "b = (upd_worker i (\<lambda>w. w\<lparr>thread := Gone, slot := None, connection_open := False, stopped := True\<rparr>) a)
        \<lparr>stopped_worker_count := Suc (stopped_worker_count a)\<rparr>"
  shows "stopped_worker_count b \<noteq> length (read_workers b) \<Longrightarrow> ctl Closing z b"
    and "stopped_worker_count b = length (read_workers b) \<Longrightarrow> fut \<noteq> FuturePending \<Longrightarrow>
      ctl Closed z (b\<lparr>pool_closed := fut\<rparr>)"
proof -
  let ?w = "read_workers a ! i"
  let ?w' = "?w\<lparr>thread := Gone, slot := None, connection_open := False, stopped := True\<rparr>"
  let ?p = "pause_controls_enqueued a" and ?f = "fatal_error a \<noteq> None"
  have rw: "read_workers b = (read_workers a)[i := ?w']" by (simp add: b)
  have ok: "worker_ok Closing ?p (pool_stop_enqueued a) ?f ?w" using c i by (rule ctl_worker)
  then have st: "pool_stop_enqueued a" "rqueue ?w = []" "\<not> stopped ?w" "pauses ?w = 0"
    using w unfolding worker_ok_def by (auto simp: pauses_def)
  have "worker_ok Closing ?p True ?f ?w'"
    using st(2) unfolding worker_ok_def by (simp add: pauses_def serving_def)
  moreover have "\<forall>x \<in> set (read_workers a). worker_ok Closing ?p True ?f x"
    using c st(1) unfolding ctl_def by auto
  ultimately have all: "\<forall>x \<in> set (read_workers b). worker_ok Closing ?p True ?f x"
    unfolding rw by (intro ball_update)
  have ps: "sum_list (map pauses (read_workers b)) = sum_list (map pauses (read_workers a))"
    using sum_list_map_update [OF i, of pauses ?w'] st(2,4) by (simp add: rw pauses_def)
  have "stopped_worker_count a = sum_list (map (\<lambda>w. of_bool (stopped w)) (read_workers a))"
    using c unfolding ctl_def by blast
  then have cnt: "stopped_worker_count b = sum_list (map (\<lambda>w. of_bool (stopped w)) (read_workers b))"
    using sum_list_map_update [OF i, of "\<lambda>w. of_bool (stopped w)" ?w'] st(3) by (simp add: rw b)
  have fr: "next_worker b = next_worker a" "pause_controls_enqueued b = ?p"
      "pause_ack_count b = pause_ack_count a" "pool_stop_enqueued b = pool_stop_enqueued a"
      "fatal_error b = fatal_error a" "pool_closed b = pool_closed a"
      "length (read_workers b) = length (read_workers a)"
      "stopped_worker_count b = Suc (stopped_worker_count a)"
    by (simp_all add: b)
  have less: "stopped_worker_count a < length (read_workers a)" using c unfolding ctl_def by blast
  show "ctl Closing z b" if ne: "stopped_worker_count b \<noteq> length (read_workers b)"
  proof -
    have "stopped_worker_count b < length (read_workers b)" using ne less fr(7,8) by linarith
    then show ?thesis
      using c all st(1) cnt unfolding ctl_def fr(1-7) ps by (elim conjE, intro conjI) simp_all
  qed
  show "ctl Closed z (b\<lparr>pool_closed := fut\<rparr>)"
    if full: "stopped_worker_count b = length (read_workers b)" and "fut \<noteq> FuturePending"
  proof -
    have "filter stopped (read_workers b) = read_workers b"
      using cnt full length_filter_less [of _ "read_workers b" stopped]
      by (intro filter_True) (metis sum_stopped less_irrefl of_nat_id)
    then have "stopped x" if "x \<in> set (read_workers b)" for x
      using that by (metis filter_id_conv)
    then have "thread x = Gone" if "x \<in> set (read_workers b)" for x
      using all that unfolding worker_ok_def by blast
    then have "\<forall>x \<in> set (read_workers b). worker_ok Closed ?p True ?f x"
      using all unfolding worker_ok_def by (auto simp: serving_def)
    with c st(1) cnt that(2) show ?thesis
      unfolding ctl_def by (elim conjE, intro conjI) (simp_all add: fr ps)
  qed
qed

lemma pool_finish_inv:
  assumes inv: "pool_inv s" and at: "at_pc s i Finishing"
  shows "pool_inv (worker_finish i s)"
proof -
  note w = inv_worker [OF inv at]
  let ?w = "read_workers (actors s) ! i"
  let ?g = "\<lambda>w. w\<lparr>thread := Gone, slot := None, connection_open := False, stopped := True\<rparr>"
  let ?h = "\<lambda>a. (upd_worker i ?g a)\<lparr>stopped_worker_count := Suc (stopped_worker_count a)\<rparr>"
  let ?b = "?h (actors s)"
  have st: "\<not> stopped ?w" "life s = Closing" using w(2,4) unfolding worker_ok_def by auto
  note fc = pool_finish_ctl [OF w(3) [unfolded st(2)] w(1,2) refl]
  have pr: "pending_reads ?b = pending_reads (actors s)"
    using pending_upd_same [OF w(1), of ?g] w(2) by (simp add: worker_reads_def in_hand_def)
  have eq: "with_actors (\<lambda>a. (upd_worker i (stopped_update (\<lambda>_. True)) a)
        \<lparr>stopped_worker_count := stopped_worker_count a + 1\<rparr>)
      (with_actors (upd_worker i (connection_open_update (\<lambda>_. False)))
        (with_actors (upd_worker i (\<lambda>w. set_handle (close_connection (handle_of w)) (w\<lparr>thread := Gone\<rparr>))) s))
      = with_actors ?h s"
    using w(1) by (simp add: with_actors_def upd_worker_def set_handle_def close_connection_none)
  have notst: "\<not> stopped (read_workers (actors (with_actors (upd_worker i (connection_open_update (\<lambda>_. False)))
        (with_actors (upd_worker i (\<lambda>w. set_handle (close_connection (handle_of w)) (w\<lparr>thread := Gone\<rparr>))) s))) ! i)"
    using w(1) st(1) by (simp add: set_handle_def)
  show ?thesis
  proof (cases "stopped_worker_count ?b = length (read_workers ?b)")
    case False
    then have "pool_pre (with_actors ?h s)"
      using fc(1) pr st(2) by (intro pool_pre_actors [OF pool_invD(1) [OF inv]]) simp_all
    then have "pool_inv (with_actors ?h s)" using inv unfolding pool_inv_def by simp
    moreover have "worker_finish i s = with_actors ?h s"
      using False notst unfolding worker_finish_def worker_stopped_def Let_def eq by (simp add: max_connections_def)
    ultimately show ?thesis by simp
  next
    case True
    let ?fut = "if fatal_error (actors s) = None then FutureDone else FutureError"
    let ?k = "\<lambda>a. (?h a)\<lparr>pool_closed := (if fatal_error a = None then FutureDone else FutureError)\<rparr>"
    have "pool_closed (actors s) = FuturePending" using w(3) st(2) unfolding ctl_def by auto
    then have "worker_finish i s = (with_actors ?k s)\<lparr>life := Closed\<rparr>"
      using True notst unfolding worker_finish_def worker_stopped_def Let_def eq
      by (simp add: max_connections_def with_actors_def)
    moreover have "ctl Closed (outstanding s = 0) (?k (actors s))" using fc(2) [OF True, of ?fut] by simp
    then have "pool_inv ((with_actors ?k s)\<lparr>life := Closed\<rparr>)"
      using st(2) pr by (intro phase_inv [OF inv]) simp_all
    ultimately show ?thesis by simp
  qed
qed

lemma pause_ack_ctl:
  assumes c: "ctl l z a" and i: "i < length (read_workers a)" and w: "thread (read_workers a ! i) = PauseGot"
    and b: "b = (upd_worker i (\<lambda>w. w\<lparr>thread := Getting, slot := None, connection_open := False\<rparr>) a)
        \<lparr>pause_ack_count := Suc (pause_ack_count a)\<rparr>"
  shows "pause_ack_count b \<noteq> length (read_workers b) \<Longrightarrow> ctl l z b"
    and "l \<noteq> Pausing \<Longrightarrow> ctl l z b"
    and "pause_ack_count b = length (read_workers b) \<Longrightarrow> l = Pausing \<Longrightarrow>
      ctl Paused z (b\<lparr>pause_complete := Some FutureDone\<rparr>) \<and> pause_complete b = Some FuturePending"
proof -
  let ?w = "read_workers a ! i"
  let ?w' = "?w\<lparr>thread := Getting, slot := None, connection_open := False\<rparr>"
  let ?f = "fatal_error a \<noteq> None" and ?st = "pool_stop_enqueued a"
  have ok: "worker_ok l (pause_controls_enqueued a) ?st ?f ?w" using c i by (rule ctl_worker)
  have p1: "pauses ?w = Suc (pauses ?w')" using w by (simp add: pauses_def)
  then have pce: "pause_controls_enqueued a" using ok unfolding worker_ok_def by (auto split: if_splits)
  have "worker_ok l True ?st ?f ?w'"
    using ok pce w p1 unfolding worker_ok_def by (simp add: serving_def handle_ok_def handle_of_def)
  moreover have "\<forall>x \<in> set (read_workers a). worker_ok l True ?st ?f x"
    using c pce unfolding ctl_def by auto
  moreover have rw: "read_workers b = (read_workers a)[i := ?w']" by (simp add: b)
  ultimately have all: "\<forall>x \<in> set (read_workers b). worker_ok l True ?st ?f x"
    unfolding rw by (intro ball_update)
  have sum: "pause_ack_count b + sum_list (map pauses (read_workers b)) = length (read_workers a)"
  proof -
    have "pause_ack_count a + sum_list (map pauses (read_workers a)) = length (read_workers a)"
      using c pce unfolding ctl_def by blast
    then show ?thesis using sum_list_map_update [OF i, of pauses ?w'] p1 by (simp add: rw b)
  qed
  have cnt: "sum_list (map (\<lambda>w. of_bool (stopped w)) (read_workers b))
      = (sum_list (map (\<lambda>w. of_bool (stopped w)) (read_workers a)) :: nat)"
    using sum_list_map_update [OF i, of "\<lambda>w. of_bool (stopped w)" ?w'] by (simp add: rw)
  have fr: "next_worker b = next_worker a" "pause_controls_enqueued b = pause_controls_enqueued a"
      "pause_complete b = pause_complete a" "pool_stop_enqueued b = ?st"
      "fatal_error b = fatal_error a" "pool_closed b = pool_closed a"
      "length (read_workers b) = length (read_workers a)"
      "stopped_worker_count b = stopped_worker_count a"
    by (simp_all add: b)
  have np: "l \<noteq> Paused"
  proof
    assume "l = Paused"
    then have "pause_ack_count a = length (read_workers a)" using c unfolding ctl_def by blast
    then show False using sum by (simp add: b)
  qed
  have base: "ctl l z b" if "l = Pausing \<longrightarrow> pause_ack_count b < length (read_workers a)"
    using c all sum that np pce unfolding ctl_def fr cnt by (elim conjE, intro conjI) simp_all
  show "ctl l z b" if "pause_ack_count b \<noteq> length (read_workers b)"
    using that sum fr(7) by (intro base) linarith
  show "ctl l z b" if "l \<noteq> Pausing" using that by (intro base) simp
  show "ctl Paused z (b\<lparr>pause_complete := Some FutureDone\<rparr>) \<and> pause_complete b = Some FuturePending"
    if full: "pause_ack_count b = length (read_workers b)" and l: "l = Pausing"
  proof
    show "pause_complete b = Some FuturePending" using c l fr(3) unfolding ctl_def by simp
    have "\<forall>x \<in> set (read_workers b). worker_ok Paused True ?st ?f x"
      using all l worker_ok_life [of Pausing _ _ _ _ Paused] by blast
    then show "ctl Paused z (b\<lparr>pause_complete := Some FutureDone\<rparr>)"
      using c l full sum cnt pce unfolding ctl_def by (elim conjE, intro conjI) (simp_all add: fr)
  qed
qed

lemma pool_worker_pause_inv:
  assumes inv: "pool_inv s" and at: "at_pc s i PauseGot"
  shows "pool_inv (worker_pause i s)"
proof -
  note w = inv_worker [OF inv at]
  let ?w = "read_workers (actors s) ! i"
  let ?g = "\<lambda>w. w\<lparr>thread := Getting, slot := None, connection_open := False\<rparr>"
  let ?h = "\<lambda>a. (upd_worker i ?g a)\<lparr>pause_ack_count := Suc (pause_ack_count a)\<rparr>"
  let ?b = "?h (actors s)"
  note pc = pause_ack_ctl [OF w(3,1,2) refl]
  have hok: "handle_ok (handle_of ?w)" using w(2,4) unfolding worker_ok_def by (simp add: serving_def)
  have eq: "with_actors (pause_ack_count_update Suc) (with_actors (upd_worker i
      (\<lambda>w. set_handle (close_connection (handle_of w)) (w\<lparr>thread := Getting\<rparr>))) s) = with_actors ?h s"
    using w(1) close_connection_ok [OF hok]
    by (simp add: with_actors_def upd_worker_def set_handle_def)
  have pr: "pending_reads ?b = pending_reads (actors s)"
    using pending_upd_same [OF w(1), of ?g] w(2) by (simp add: worker_reads_def in_hand_def)
  show ?thesis
  proof (cases "pause_ack_count ?b = length (read_workers ?b) \<and> life s = Pausing")
    case False
    then have "ctl (life s) (outstanding s = 0) ?b" using pc(1,2) by blast
    then have "pool_pre (with_actors ?h s)"
      using pr by (intro pool_pre_actors [OF pool_invD(1) [OF inv]]) simp_all
    then have "pool_inv (with_actors ?h s)" using inv unfolding pool_inv_def by simp
    moreover have "worker_pause i s = with_actors ?h s"
      using False unfolding worker_pause_def acknowledge_pause_def Let_def eq by (auto simp: max_connections_def)
    ultimately show ?thesis by simp
  next
    case True
    let ?k = "\<lambda>a. (?h a)\<lparr>pause_complete := Some FutureDone\<rparr>"
    from pc(3) True have c: "ctl Paused (outstanding s = 0) (?k (actors s))"
        and "pause_complete ?b = Some FuturePending" by blast+
    then have "worker_pause i s = (with_actors ?k s)\<lparr>life := Paused\<rparr>"
      using True unfolding worker_pause_def acknowledge_pause_def Let_def eq
      by (simp add: max_connections_def with_actors_def)
    moreover have "pool_inv ((with_actors ?k s)\<lparr>life := Paused\<rparr>)"
      using True c pr by (intro phase_inv [OF inv]) simp_all
    ultimately show ?thesis by simp
  qed
qed

section \<open>Every step keeps the invariant\<close>

inductive_cases pool_stepE: "pool_step s t"

lemma pool_step_inv: "pool_inv s \<Longrightarrow> pool_step s t \<Longrightarrow> pool_inv t"
  by (erule pool_stepE)
    (auto intro: pool_start_step_inv pool_acquire_inv pool_set_future_inv pool_cancel_inv
      pool_deliver_inv pool_undeliverable_inv pool_rejection_inv pool_resume_waiter_inv
      pool_submit_inv pool_pause_inv pool_resume_inv pool_close_inv pool_get_inv
      pool_worker_pause_inv pool_run_inv pool_begin_failure_inv pool_fail_active_inv
      pool_fail_queue_inv pool_finish_inv)

lemma pool_start_inv:
  assumes "pool_start s"
  shows "pool_inv s"
proof -
  obtain n c m d where init: "pool_init n c m d = Inr s" using assms by (auto simp: pool_start_def)
  then have n: "0 < nat n" "0 < nat c" and s: "s = \<lparr>queue_capacity = nat c, max_waiters = nat m, life = New,
      outstanding = 0, admission_waiters = [], waiters = Map.empty, next_waiter = 0,
      scheduled = [], rejections = [],
      actors = \<lparr>read_workers = replicate (nat n) new_worker, next_worker = 0,
        pause_controls_enqueued = False, pause_ack_count = 0, pause_complete = None,
        pool_stop_enqueued = False, stopped_worker_count = 0, fatal_error = None,
        pool_closed = FuturePending, owner_pid = None, dispatching = 0, next_read = 0,
        answers = Map.empty\<rparr>\<rparr>"
    by (auto simp: pool_init_def split: if_splits)
  have ok: "worker_ok New False False False new_worker"
    by (simp add: worker_ok_def new_worker_def pauses_def serving_def)
  have none: "pending_reads (actors s) = []"
    by (rule pending_none) (simp add: s new_worker_def worker_reads_def in_hand_def)
  have adm: "adm_core s" "settled s" "granted s = {}"
    by (auto simp: s adm_core_def settled_def granted_def has_state_def waiting_count_def)
  have "sum_list (map (\<lambda>w. of_bool (stopped w)) (replicate (nat n) new_worker)) = (0 :: nat)"
    by (simp add: sum_list_replicate new_worker_def)
  then have "ctl New True (actors s)" using n ok unfolding ctl_def by (simp add: s)
  then have "pool_pre s"
    using none adm n by (intro pool_preI) (simp_all add: pool_owned_def pool_extra_def reads_ok_def, simp_all add: s)
  then show ?thesis using adm unfolding pool_inv_def by (simp add: s)
qed

interpretation pool_sys: step_system "pool_start :: 'v read_pool \<Rightarrow> bool" pool_step pool_inv
  by unfold_locales (rule pool_start_inv pool_step_inv; assumption)+

section \<open>The contract with maintenance\<close>

text \<open>
  What maintenance relies on, as a transition system over the phase of the pool and the number of
  reads that somebody owns: new reads are admitted only while the pool is available and within its
  capacity; in every other phase the number can only fall; a drain becomes exclusive access only
  when no read is owned, and exclusive access ends with none. There is no other change of phase,
  and a pool that is down stays down.
\<close>

datatype phase = NotUp | Available | Draining | Exclusive | Down

inductive contract :: "nat \<Rightarrow> phase \<times> nat \<Rightarrow> phase \<times> nat \<Rightarrow> bool" for capacity where
  serve: "m \<le> capacity \<Longrightarrow> contract capacity (Available, n) (Available, m)"
| settle: "m \<le> n \<Longrightarrow> contract capacity (p, n) (p, m)"
| come_up: "contract capacity (NotUp, 0) (Available, 0)"
| drain: "contract capacity (Available, n) (Draining, n)"
| exclusive: "contract capacity (Draining, 0) (Exclusive, 0)"
| reopen: "contract capacity (Exclusive, 0) (Available, 0)"
| shut_down: "contract capacity (p, n) (Down, n)"

fun pool_phase :: "life \<Rightarrow> phase" where
  "pool_phase New = NotUp"
| "pool_phase Starting = NotUp"
| "pool_phase Open = Available"
| "pool_phase Pausing = Draining"
| "pool_phase Paused = Exclusive"
| "pool_phase Closing = Down"
| "pool_phase Closed = Down"

definition pool_abs :: "'v read_pool \<Rightarrow> phase \<times> nat" where
  "pool_abs s = (pool_phase (life s), pool_owned s)"

text \<open>How a step moves the phase and the owned capacity.\<close>

definition moves :: "'v read_pool \<Rightarrow> 'v read_pool \<Rightarrow> bool" where
  "moves s t \<longleftrightarrow>
     life t = life s \<and> (life s = Open \<or> outstanding t \<le> outstanding s)
     \<or> outstanding t = outstanding s
       \<and> ((life s, life t) \<in> {(New, Open), (Open, Pausing), (Pausing, Paused), (Paused, Open)}
          \<or> life t = Closing \<or> life t = Closed)"

lemma advance_frame [simp]:
  "life (advance_lifecycle_locked s) = life s"
  "outstanding (advance_lifecycle_locked s) = outstanding s"
  by (simp_all add: advance_lifecycle_locked_def)

lemma grant_moves:
  "outstanding s \<le> n \<Longrightarrow> life s = Open \<or> outstanding (snd (grant_waiters_locked s)) \<le> n"
  by (simp add: grant_waiters_locked_def)

lemma release_moves:
  "pool_release_capacity s = Inr t \<Longrightarrow> life t = life s \<and> (life s = Open \<or> outstanding t \<le> outstanding s)"
  using grant_moves [of "s\<lparr>outstanding := outstanding s - 1\<rparr>" "outstanding s"]
  by (auto simp: pool_release_capacity_def adm_simps split: if_splits)

lemma release_or_moves:
  assumes "life v = life s" and "outstanding v = outstanding s"
  shows "moves s (case pool_release_capacity v of Inl _ \<Rightarrow> with_actors f v | Inr t \<Rightarrow> t)"
  using release_moves [of v] assms by (cases "pool_release_capacity v") (auto simp: moves_def)

lemma cancel_moves:
  "life (pool_cancel_admission w s) = life s"
  "life s = Open \<or> outstanding (pool_cancel_admission w s) \<le> outstanding s"
  using grant_moves [OF drop_outstanding [of w s]]
  by (simp_all add: pool_cancel_admission_def adm_simps)

lemma deliver_moves:
  "life (pool_deliver_grant w s) = life s \<and> (life s = Open \<or> outstanding (pool_deliver_grant w s) \<le> outstanding s)"
proof (cases "deliver_admission_grant w s")
  case (Inl t)
  then have "life t = life s" "outstanding t = outstanding s"
    by (auto simp: deliver_admission_grant_def adm_simps split: if_splits)
  with Inl show ?thesis by (simp add: pool_deliver_grant_def)
next
  case (Inr t)
  let ?d = "(drop_admission w s)\<lparr>scheduled := remove1 w (scheduled s)\<rparr>"
  have "pool_deliver_grant w s = advance_lifecycle_locked (schedule_admission_grants (grant_waiters_locked ?d))"
    using Inr deliver_grant_drop [OF Inr] by (simp add: pool_deliver_grant_def)
  then show ?thesis
    using grant_moves [of ?d "outstanding s"] drop_outstanding [of w s] by (simp add: adm_simps)
qed

lemma pool_step_moves:
  assumes "pool_step s t"
  shows "moves s t"
  using assms
proof cases
  case (start pid n r)
  then show ?thesis by (auto simp: start_pool_def moves_def split: if_splits)
next
  case (acquire pid r)
  then show ?thesis
    by (auto simp: pool_acquire_capacity_def pool_raise_if_not_open_def bindR_Inr_iff moves_def adm_simps
        split: sum.splits if_splits option.splits prod.splits dest!: arg_cong [of "acquire_locked _ _" _ "\<lambda>x. life (snd x)"])
next
  case (cancelled w)
  then show ?thesis using cancel_moves [where w = w and s = s] by (simp add: moves_def)
next
  case (delivered w)
  then show ?thesis using deliver_moves [where w = w and s = s] by (simp add: moves_def)
next
  case (undeliverable w)
  then show ?thesis using cancel_moves [where w = w and s = "s\<lparr>scheduled := remove1 w (scheduled s)\<rparr>"]
    by (simp add: moves_def pool_grant_undeliverable_def)
next
  case (resumed w r)
  then show ?thesis using cancel_moves [where w = w and s = s]
    by (auto simp: pool_resume_waiter_def moves_def consume_admission_def adm_simps split: option.splits if_splits)
next
  case (submitted r)
  then show ?thesis by (auto simp: pool_submit_def moves_def Let_def split: if_splits)
next
  case (pausing pid r)
  then show ?thesis by (auto simp: pause_and_drain_def moves_def adm_simps split: sum.splits if_splits)
next
  case (resuming pid r)
  then show ?thesis by (auto simp: resume_pool_def moves_def split: sum.splits if_splits)
next
  case (closing pid r)
  then show ?thesis by (auto simp: close_pool_def moves_def adm_simps split: sum.splits if_splits)
next
  case (paused i)
  then show ?thesis by (simp add: worker_pause_def acknowledge_pause_def moves_def Let_def)
next
  case (ran i q envs)
  then show ?thesis
    by (cases "run_read envs (handle_of (read_workers (actors s) ! i))")
      (auto simp: worker_run_def Let_def intro!: release_or_moves, simp_all add: moves_def)
next
  case (failure_begun i q e)
  then show ?thesis by (simp add: begin_worker_failure_def moves_def adm_simps)
next
  case (active_failed i q e)
  then show ?thesis by (simp add: worker_fail_active_def Let_def release_or_moves)
next
  case (queue_failed i e)
  then show ?thesis
    by (auto simp: fail_worker_queue_def Let_def split: list.splits pool_item.splits intro!: release_or_moves)
      (simp_all add: moves_def)
next
  case (finished i)
  then show ?thesis by (simp add: worker_finish_def worker_stopped_def moves_def Let_def)
qed (simp_all add: moves_def deliver_admission_rejection_def adm_simps)

lemma moves_contract:
  assumes "pool_inv s" and "pool_inv t" and "moves s t"
  shows "contract (queue_capacity t) (pool_abs s) (pool_abs t)"
proof -
  note s = pool_preD [OF pool_invD(1) [OF assms(1)]] and t = pool_preD [OF pool_invD(1) [OF assms(2)]]
  have own: "outstanding s = int (pool_owned s)" "outstanding t = int (pool_owned t)" using s(3) t(3) by simp_all
  have cap: "pool_owned t \<le> queue_capacity t" using t(1) own(2) by (simp add: adm_core_def)
  have z: "pool_owned x = 0" if "pool_inv x" "life x = Paused" for x :: "'a read_pool"
    using pool_preD(3,5) [OF pool_invD(1) [OF that(1)]] that(2) unfolding ctl_def by auto
  have n: "pool_owned s = 0" if "life s = New"
    using s(3,5) that unfolding ctl_def by auto
  show ?thesis
  proof (cases "life t = life s")
    case True
    then show ?thesis using assms(3) own cap by (auto simp: moves_def pool_abs_def intro: contract.intros)
  next
    case False
    then have eq: "pool_owned t = pool_owned s"
      and "(life s, life t) \<in> {(New, Open), (Open, Pausing), (Pausing, Paused), (Paused, Open)}
          \<or> life t = Closing \<or> life t = Closed"
      using assms(3) own by (auto simp: moves_def)
    then show ?thesis using z [OF assms(1)] z [OF assms(2)] n by (auto simp: pool_abs_def intro: contract.intros)
  qed
qed

lemma admission_refused: "life s \<noteq> Open \<Longrightarrow> \<exists>e. pool_acquire_capacity pid s = (Inl e, s)"
  by (auto simp: pool_acquire_capacity_def pool_raise_if_not_open_def bindR_Inr_iff split: sum.splits)

section \<open>Properties\<close>

text \<open>
  In every reachable state of the read pool, under every interleaving, the capacity
  counter is exactly the number of slots that somebody owns (granted waiters, callers about
  to dispatch, queued and running reads); it lies between zero and the configured capacity,
  and at most \<open>max_waiters\<close> callers wait.
\<close>

theorem pool_capacity:
  assumes "pool_start s0" and "pool_step\<^sup>*\<^sup>* s0 s"
  shows "outstanding s = int (pool_owned s) \<and> outstanding s \<le> int (queue_capacity s)
       \<and> waiting_count s \<le> max_waiters s"
proof -
  have "pool_inv s" using assms by (rule pool_sys.reachable_inv)
  note pre = pool_preD [OF pool_invD(1) [OF this]]
  show ?thesis using pre(1,3) unfolding adm_core_def by blast
qed

text \<open>
  C17: Whenever the pool is paused, no read is queued, running or about to be dispatched, no
  worker has a connection to the database, and the future that maintenance awaits is done:
  the database file can be replaced.
\<close>

theorem pool_paused_exclusive:
  assumes "pool_start s0" and "pool_step\<^sup>*\<^sup>* s0 s" and "life s = Paused"
  shows "outstanding s = 0 \<and> pending_reads (actors s) = [] \<and> dispatching (actors s) = 0
       \<and> pause_complete (actors s) = Some FutureDone
       \<and> (\<forall>w \<in> set (read_workers (actors s)). slot w = None \<and> \<not> connection_open w)"
proof -
  have inv: "pool_inv s" using assms(1,2) by (rule pool_sys.reachable_inv)
  note pre = pool_preD [OF pool_invD(1) [OF inv]]
  let ?a = "actors s"
  have c: "pause_controls_enqueued ?a" "outstanding s = 0" "pause_complete ?a = Some FutureDone"
    using pre(5) assms(3) unfolding ctl_def by auto
  have "pause_ack_count ?a + sum_list (map pauses (read_workers ?a)) = length (read_workers ?a)"
      "pause_ack_count ?a = length (read_workers ?a)"
    using pre(5) c(1) assms(3) unfolding ctl_def by blast+
  then have "pauses w = 0" if "w \<in> set (read_workers ?a)" for w
    using that by (auto simp: sum_list_eq_0_iff)
  moreover have "worker_ok Paused True (pool_stop_enqueued ?a) (fatal_error ?a \<noteq> None) w"
    if "w \<in> set (read_workers ?a)" for w
    using pre(5) c(1) assms(3) that unfolding ctl_def by auto
  ultimately have "\<forall>w \<in> set (read_workers ?a). slot w = None \<and> \<not> connection_open w"
    unfolding worker_ok_def by blast
  moreover have "pool_owned s = 0" using pre(3) c(2) by simp
  ultimately show ?thesis using c by (simp add: pool_owned_def pool_extra_def)
qed

text \<open>
  C18: Every read accepted by \<open>_submit\<close> is, in every reachable state, either answered or
  pending with exactly one worker, never both and never lost; and once the pool is closed
  every accepted read has been answered.
\<close>

theorem pool_answers_every_read:
  assumes "pool_start s0" and "pool_step\<^sup>*\<^sup>* s0 s"
  shows "distinct (pending_reads (actors s))
       \<and> (\<forall>r. r < next_read (actors s) \<longrightarrow>
            (answers (actors s) r = None \<longleftrightarrow> r \<in> set (pending_reads (actors s))))
       \<and> (life s = Closed \<longrightarrow> (\<forall>r. r < next_read (actors s) \<longrightarrow> answers (actors s) r \<noteq> None))"
proof -
  have inv: "pool_inv s" using assms by (rule pool_sys.reachable_inv)
  note pre = pool_preD [OF pool_invD(1) [OF inv]]
  let ?open = "{r. r < next_read (actors s) \<and> answers (actors s) r = None}"
  have eq: "mset (pending_reads (actors s)) = mset_set ?open" using pre(6) by (simp add: reads_ok_def)
  have mem: "set (pending_reads (actors s)) = ?open"
    by (metis eq finite_set_mset_mset_set set_mset_mset finite_Collect_conjI finite_Collect_less_nat)
  have "distinct (pending_reads (actors s))"
    unfolding distinct_count_atmost_1 eq mem by (simp add: count_mset_set')
  moreover have "pending_reads (actors s) = []" if closed: "life s = Closed"
  proof (rule pending_none, rule ballI)
    fix w assume "w \<in> set (read_workers (actors s))"
    then have "worker_ok Closed (pause_controls_enqueued (actors s)) (pool_stop_enqueued (actors s))
        (fatal_error (actors s) \<noteq> None) w"
      using pre(5) closed unfolding ctl_def by auto
    then show "worker_reads w = []"
      unfolding worker_ok_def by (cases "thread w") (simp_all add: worker_reads_def in_hand_def serving_def)
  qed
  ultimately show ?thesis using mem by auto
qed

text \<open>
  C19: The pool implements the contract maintenance relies on: every single step of every run is one
  step of \<open>contract\<close> on the phase and the number of owned reads (granted waiters, callers about to
  dispatch, queued and running reads), so that from the start of a pause until it is resumed the
  number of owned reads never rises and exclusive access begins with none; and outside the open
  phase an attempt to acquire capacity is an error that changes nothing.
\<close>

theorem pool_refines_contract:
  assumes "pool_start s0" and "pool_step\<^sup>*\<^sup>* s0 s" and "pool_step s t"
  shows "contract (queue_capacity t) (pool_abs s) (pool_abs t)
       \<and> (life s \<noteq> Open \<longrightarrow> (\<exists>e. pool_acquire_capacity pid s = (Inl e, s)))"
proof -
  have "pool_inv s" using assms(1,2) by (rule pool_sys.reachable_inv)
  moreover from this assms(3) have "pool_inv t" by (rule pool_step_inv)
  ultimately show ?thesis using pool_step_moves [OF assms(3)] moves_contract admission_refused by blast
qed

definition worker_enabled :: "read_worker \<Rightarrow> bool" where
  "worker_enabled w =
     (case thread w of NotRunning \<Rightarrow> False | Gone \<Rightarrow> False | Getting \<Rightarrow> rqueue w \<noteq> [] | _ \<Rightarrow> True)"

lemma reads_enabled:
  "worker_ok l p st f w \<Longrightarrow> worker_reads w \<noteq> [] \<Longrightarrow> worker_enabled w"
  unfolding worker_ok_def
  by (cases "thread w") (auto simp: worker_enabled_def worker_reads_def in_hand_def)

lemma pauses_enabled: "worker_ok l p st f w \<Longrightarrow> pauses w \<noteq> 0 \<Longrightarrow> worker_enabled w"
  unfolding worker_ok_def by (cases "thread w") (auto simp: worker_enabled_def pauses_def)

lemma unstopped_enabled:
  "worker_ok Closing p True f w \<Longrightarrow> \<not> stopped w \<Longrightarrow> worker_enabled w"
  unfolding worker_ok_def by (cases "thread w") (auto simp: worker_enabled_def serving_def)

text \<open>
  Pausing and closing never get stuck: in every reachable state in which the pool drains,
  a worker has something to do, a caller is about to dispatch, or a granted waiter's delivery
  is scheduled or its future is done, so that the owner can take its next step.
\<close>

theorem pool_drain_not_stuck:
  assumes "pool_start s0" and "pool_step\<^sup>*\<^sup>* s0 s" and "life s = Pausing \<or> life s = Closing"
  shows "(\<exists>w \<in> set (read_workers (actors s)). worker_enabled w) \<or> 0 < dispatching (actors s)
       \<or> (\<exists>v. has_state s v Granted \<and> (v \<in> set (scheduled s) \<or> future_done s v))"
proof -
  have inv: "pool_inv s" using assms(1,2) by (rule pool_sys.reachable_inv)
  note pre = pool_preD [OF pool_invD(1) [OF inv]]
  let ?a = "actors s"
  have ok: "worker_ok (life s) (pause_controls_enqueued ?a) (pool_stop_enqueued ?a) (fatal_error ?a \<noteq> None) w"
    if "w \<in> set (read_workers ?a)" for w using pre(5) that unfolding ctl_def by auto
  consider (idle) "outstanding s = 0" | (granted) v where "has_state s v Granted"
    | (dispatch) "0 < dispatching ?a" | (pending) w where "w \<in> set (read_workers ?a)" "worker_reads w \<noteq> []"
    using pre(3) pending_none [of ?a]
    by (fastforce simp: pool_owned_def pool_extra_def granted_def)
  then show ?thesis
  proof cases
    case idle
    show ?thesis
    proof (cases "life s = Pausing")
      case True
      then have "pause_controls_enqueued ?a" using inv idle unfolding pool_inv_def by blast
      moreover have "pause_ack_count ?a < length (read_workers ?a)" using pre(5) True unfolding ctl_def by blast
      ultimately have "sum_list (map pauses (read_workers ?a)) \<noteq> 0"
        using pre(5) unfolding ctl_def by linarith
      then obtain w where "w \<in> set (read_workers ?a)" "pauses w \<noteq> 0"
        using sum_list_map_const [of "read_workers ?a" pauses 0] by auto
      with ok pauses_enabled show ?thesis by blast
    next
      case False
      then have cl: "life s = Closing" using assms(3) by blast
      then have st: "pool_stop_enqueued ?a" using inv idle unfolding pool_inv_def by blast
      have "sum_list (map (\<lambda>w. of_bool (stopped w)) (read_workers ?a)) < length (read_workers ?a)"
        using pre(5) cl unfolding ctl_def by force
      then have "filter stopped (read_workers ?a) \<noteq> read_workers ?a" by (auto simp: sum_stopped)
      then obtain w where "w \<in> set (read_workers ?a)" "\<not> stopped w" by (metis filter_id_conv)
      with ok [of w] cl st unstopped_enabled show ?thesis by auto
    qed
  next
    case granted
    with pre(1) show ?thesis unfolding adm_core_def by blast
  next
    case pending
    with ok reads_enabled show ?thesis by blast
  qed blast
qed

section \<open>A run: one read, a pause and the end\<close>

text \<open>A pool of one worker and one slot, in the states of the run below.\<close>

definition ex_pool :: "life \<Rightarrow> int \<Rightarrow> nat actors \<Rightarrow> nat read_pool" where
  "ex_pool l n a = \<lparr>queue_capacity = 1, max_waiters = 1, life = l, outstanding = n,
     admission_waiters = [], waiters = Map.empty, next_waiter = 0, scheduled = [], rejections = [],
     actors = a\<rparr>"

definition ex_actors :: "nat actors" where
  "ex_actors = \<lparr>read_workers = [new_worker], next_worker = 0, pause_controls_enqueued = False,
     pause_ack_count = 0, pause_complete = None, pool_stop_enqueued = False,
     stopped_worker_count = 0, fatal_error = None, pool_closed = FuturePending, owner_pid = None,
     dispatching = 0, next_read = 0, answers = Map.empty\<rparr>"

definition ex_running :: "nat actors" where
  "ex_running = ex_actors\<lparr>owner_pid := Some 7, next_read := 1,
     read_workers := [new_worker\<lparr>thread := Reading 0\<rparr>]\<rparr>"

definition ex_answered :: "nat actors" where
  "ex_answered = ex_running\<lparr>pause_complete := Some FuturePending, answers := [0 \<mapsto> AnswerValue 7],
     pause_controls_enqueued := True,
     read_workers := [new_worker\<lparr>thread := Getting, rqueue := [PoolPause], connection_open := True,
       slot := Some \<lparr>slot_identity = (1, 2), usable = True\<rparr>\<rparr>]\<rparr>"

definition ex_paused :: "nat actors" where
  "ex_paused = ex_answered\<lparr>pause_complete := Some FutureDone, pause_ack_count := 1,
     read_workers := [new_worker\<lparr>thread := Getting\<rparr>]\<rparr>"

definition ex_stopped :: "nat actors" where
  "ex_stopped = ex_paused\<lparr>pool_stop_enqueued := True, stopped_worker_count := 1, pool_closed := FutureDone,
     read_workers := [new_worker\<lparr>thread := Gone, stopped := True\<rparr>]\<rparr>"

declare rtranclp.rtrancl_into_rtrancl [trans]

lemmas pool_eval = ex_pool_def ex_actors_def ex_running_def ex_answered_def ex_paused_def ex_stopped_def
  new_worker_def with_actors_def upd_worker_def put_item_def put_all_def max_connections_def
  start_pool_def pool_acquire_capacity_def pool_raise_if_not_open_def assert_owner_process_locked_def
  acquire_locked_def discard_inactive_waiters_locked_def pool_submit_def worker_take_def Let_def
  pause_and_drain_def reject_waiters_def advance_lifecycle_locked_def worker_run_def set_handle_def
  handle_of_def pool_release_capacity_def grant_waiters_locked_def schedule_admission_grants_def
  worker_pause_def acknowledge_pause_def close_connection_def close_pool_def fail_pause_def
  worker_finish_def worker_stopped_def

lemma ex_pool_start: "pool_start (ex_pool New 0 ex_actors)"
  unfolding pool_start_def
  by (intro exI [of _ 1] exI [of _ "1 :: rat"]) (simp add: pool_init_def ex_pool_def ex_actors_def)

lemma ex_read_fresh: "run_read (ex_env, ex_env) (None, False)
    = Inr (AnswerValue 7, (Some \<lparr>slot_identity = (1, 2), usable = True\<rparr>, True))"
  by (simp add: read_eval)

lemma ex_to_running: "pool_step\<^sup>*\<^sup>* (ex_pool New 0 ex_actors) (ex_pool Open 1 ex_running)"
proof -
  let ?a = "ex_actors\<lparr>owner_pid := Some 7, read_workers := [new_worker\<lparr>thread := Getting\<rparr>]\<rparr>"
  let ?q = "?a\<lparr>next_read := 1, read_workers := [new_worker\<lparr>thread := Getting, rqueue := [ReadRequest 0]\<rparr>]\<rparr>"
  have "pool_step\<^sup>*\<^sup>* (ex_pool New 0 ex_actors) (ex_pool Open 0 ?a)"
    by (rule r_into_rtranclp, rule pool_step.start [where pid = 7 and n = 1]) (simp add: pool_eval)
  also have "pool_step (ex_pool Open 0 ?a) (ex_pool Open 1 (?a\<lparr>dispatching := 1\<rparr>))"
    by (rule pool_step.acquire [where pid = 7]) (simp add: pool_eval)
  also have "pool_step (ex_pool Open 1 (?a\<lparr>dispatching := 1\<rparr>)) (ex_pool Open 1 ?q)"
    by (rule pool_step.submitted [where r = "Inr 0"]) (simp_all add: pool_eval)
  also have "pool_step (ex_pool Open 1 ?q) (with_actors (upd_worker 0 worker_take) (ex_pool Open 1 ?q))"
    by (rule pool_step.got) (simp_all add: pool_eval at_pc_def)
  also have "with_actors (upd_worker 0 worker_take) (ex_pool Open 1 ?q) = ex_pool Open 1 ex_running"
    by (simp add: pool_eval)
  finally show ?thesis .
qed

abbreviation (input) ex_draining :: "nat read_pool" where
  "ex_draining \<equiv> ex_pool Pausing 1 (ex_running\<lparr>pause_complete := Some FuturePending\<rparr>)"

lemma ex_to_draining: "pool_step (ex_pool Open 1 ex_running) ex_draining"
  by (rule pool_step.pausing [where pid = 7]) (simp add: pool_eval)

lemma ex_to_paused: "pool_step\<^sup>*\<^sup>* ex_draining (ex_pool Paused 0 ex_paused)"
proof -
  have run: "worker_run (ex_env, ex_env) 0 0 ex_draining = ex_pool Pausing 0 ex_answered"
    by (simp add: pool_eval ex_read_fresh)
  have "pool_step\<^sup>*\<^sup>* ex_draining (worker_run (ex_env, ex_env) 0 0 ex_draining)"
    by (rule r_into_rtranclp, rule pool_step.ran) (simp add: at_pc_def pool_eval)
  also have "pool_step (worker_run (ex_env, ex_env) 0 0 ex_draining)
      (with_actors (upd_worker 0 worker_take) (ex_pool Pausing 0 ex_answered))"
    unfolding run by (rule pool_step.got) (simp_all add: pool_eval at_pc_def)
  also have "pool_step (with_actors (upd_worker 0 worker_take) (ex_pool Pausing 0 ex_answered))
      (worker_pause 0 (with_actors (upd_worker 0 worker_take) (ex_pool Pausing 0 ex_answered)))"
    by (rule pool_step.paused) (simp add: pool_eval at_pc_def)
  also have "worker_pause 0 (with_actors (upd_worker 0 worker_take) (ex_pool Pausing 0 ex_answered))
      = ex_pool Paused 0 ex_paused"
    by (simp add: pool_eval)
  finally show ?thesis .
qed

lemma ex_to_closed: "pool_step\<^sup>*\<^sup>* (ex_pool Paused 0 ex_paused) (ex_pool Closed 0 ex_stopped)"
proof -
  let ?c = "ex_pool Closing 0 (ex_paused\<lparr>pool_stop_enqueued := True,
      read_workers := [new_worker\<lparr>thread := Getting, rqueue := [PoolStop]\<rparr>]\<rparr>)"
  have "pool_step\<^sup>*\<^sup>* (ex_pool Paused 0 ex_paused) ?c"
    by (rule r_into_rtranclp, rule pool_step.closing [where pid = 7]) (simp add: pool_eval)
  also have "pool_step ?c (with_actors (upd_worker 0 worker_take) ?c)"
    by (rule pool_step.got) (simp_all add: pool_eval at_pc_def)
  also have "pool_step (with_actors (upd_worker 0 worker_take) ?c)
      (worker_finish 0 (with_actors (upd_worker 0 worker_take) ?c))"
    by (rule pool_step.finished) (simp add: pool_eval at_pc_def)
  also have "worker_finish 0 (with_actors (upd_worker 0 worker_take) ?c) = ex_pool Closed 0 ex_stopped"
    by (simp add: pool_eval)
  finally show ?thesis .
qed

lemma ex_draining_reached: "pool_step\<^sup>*\<^sup>* (ex_pool New 0 ex_actors) ex_draining"
  using ex_to_running ex_to_draining by (rule rtranclp.rtrancl_into_rtrancl)

lemma ex_paused_reached: "pool_step\<^sup>*\<^sup>* (ex_pool New 0 ex_actors) (ex_pool Paused 0 ex_paused)"
  using ex_draining_reached ex_to_paused by (rule rtranclp_trans)

lemma ex_closed_reached: "pool_step\<^sup>*\<^sup>* (ex_pool New 0 ex_actors) (ex_pool Closed 0 ex_stopped)"
  using ex_paused_reached ex_to_closed by (rule rtranclp_trans)

theorem pool_capacity_witness:
  "pool_owned (ex_pool Open 1 ex_running) = 1 \<and> outstanding (ex_pool Open 1 ex_running) = 1"
  using pool_capacity [OF ex_pool_start ex_to_running] by (simp add: ex_pool_def)

theorem pool_paused_exclusive_witness:
  "dispatching (actors (ex_pool Paused 0 ex_paused)) = 0
   \<and> slot (hd (read_workers (actors (ex_pool Paused 0 ex_paused)))) = None"
  using pool_paused_exclusive [OF ex_pool_start ex_paused_reached]
  by (simp add: ex_pool_def ex_paused_def)

theorem pool_answers_every_read_witness: "answers (actors (ex_pool Closed 0 ex_stopped)) 0 \<noteq> None"
  using pool_answers_every_read [OF ex_pool_start ex_closed_reached]
  by (simp add: ex_pool_def ex_stopped_def ex_paused_def ex_answered_def ex_running_def)

theorem pool_refines_contract_witness: "contract 1 (Available, 1) (Draining, 1)"
proof -
  have "granted (ex_pool l n a) = {}" for l n a by (simp add: ex_pool_def granted_def has_state_def)
  then have "pool_owned (ex_pool Open 1 ex_running) = 1" "pool_owned ex_draining = 1"
    by (simp_all add: pool_owned_def pool_extra_def pending_reads_def worker_reads_def in_hand_def pool_eval)
  then show ?thesis
    using pool_refines_contract [OF ex_pool_start ex_to_running ex_to_draining]
    by (simp add: pool_abs_def, simp add: ex_pool_def)
qed

theorem pool_drain_not_stuck_witness:
  "\<exists>w \<in> set (read_workers (actors ex_draining)). worker_enabled w"
  using pool_drain_not_stuck [OF ex_pool_start ex_draining_reached]
  by (simp add: ex_pool_def ex_running_def ex_actors_def has_state_def)

end
