(* ===== verification/Retention.thy ===== *)
theory Retention
  imports Mail_Accept
begin

text \<open>
  Retention (\<^verbatim>\<open>src/app/runtime.py\<close>, \<open>_cleanup_expired_messages_operation\<close> and the methods it
  calls): a snapshot of the expired deliveries is taken, the parser is kept away from the
  messages they may orphan, and one transaction revalidates the snapshot, deletes the
  deliveries and the messages that lost their last one, queues the files of these messages
  for collection, recounts the mailboxes and trims the other tables, each by a bounded batch.
\<close>

section \<open>Tables\<close>

record attachment =
  att_id :: string
  att_message_id :: string
  att_storage_path :: string

record gc_task =
  gc_id :: int
  gc_path :: string
  gc_reason :: string
  gc_attempts :: int
  gc_last_error :: "string option"
  gc_next_attempt :: "string option"
  gc_created_at :: string
  gc_updated_at :: string

text \<open>The columns of \<open>audit_logs\<close> retention reads.\<close>

record audit_row =
  audit_id :: int
  audit_created_at :: string

record run_row =
  run_id :: string
  run_kind :: string
  run_status :: string
  run_started_at :: string
  run_finished_at :: "string option"
  run_details :: "string option"
  run_error :: "string option"

record retention_db = ingest_db +
  attachments :: "attachment list"
  file_gc_tasks :: "gc_task list"
  next_gc_id :: int
  audit_logs :: "audit_row list"
  maintenance_runs :: "run_row list"

record retention_settings =
  empty_mailbox_retention_seconds :: int
  smtp_session_retention_seconds :: int
  metric_retention_seconds :: int
  audit_retention_days :: int
  maintenance_run_retention_days :: int
  cleanup_batch_size :: nat

definition with_mail :: "(mail_db \<Rightarrow> mail_db) \<Rightarrow> retention_db \<Rightarrow> retention_db" where
  "with_mail f db = db\<lparr>mail := f (mail db)\<rparr>"

section \<open>Selecting a batch\<close>

text \<open>\<open>WHERE p ORDER BY k1, k2 LIMIT n\<close>.\<close>

definition select_oldest ::
  "nat \<Rightarrow> ('a \<Rightarrow> 'k :: linorder) \<Rightarrow> ('a \<Rightarrow> 'j :: linorder) \<Rightarrow> ('a \<Rightarrow> bool) \<Rightarrow> 'a list \<Rightarrow> 'a list" where
  "select_oldest n k1 k2 p xs = take n (sort_key k1 (sort_key k2 (filter p xs)))"

definition cutoff_timestamp :: "int \<Rightarrow> int \<Rightarrow> int \<Rightarrow> string result" where
  "cutoff_timestamp clock seconds days =
     (let t = clock - (seconds + 86400 * days)
      in if valid_time t then Inr (utc_text t) else Inl (OverflowError ''date value out of range''))"

definition due :: "string \<Rightarrow> delivery \<Rightarrow> bool" where
  "due now d = (case dl_expires_at d of None \<Rightarrow> False | Some e \<Rightarrow> e \<le> now)"

record batch_row =
  b_id :: string
  b_message_id :: string
  b_mailbox_id :: int
  b_status :: delivery_status

definition batch_row_of :: "delivery \<Rightarrow> batch_row" where
  "batch_row_of d =
     \<lparr>b_id = dl_id d, b_message_id = dl_message_id d, b_mailbox_id = dl_mailbox_id d, b_status = dl_status d\<rparr>"

definition due_batch :: "string \<Rightarrow> nat \<Rightarrow> mail_db \<Rightarrow> delivery list" where
  "due_batch now limit db = select_oldest limit (\<lambda>d. the (dl_expires_at d)) dl_id (due now) (deliveries db)"

definition expiration_batch_snapshot :: "string \<Rightarrow> nat \<Rightarrow> mail_db \<Rightarrow> batch_row list \<times> string list" where
  "expiration_batch_snapshot now limit db =
     (let batch = due_batch now limit db;
          fully_expiring = (\<lambda>m. length (filter (\<lambda>d. dl_message_id d = m) batch)
                             = length (filter (\<lambda>d. dl_message_id d = m) (deliveries db)))
      in (map batch_row_of batch, sort (remdups (filter fully_expiring (map dl_message_id batch)))))"

section \<open>The transaction\<close>

definition still_due :: "string \<Rightarrow> mail_db \<Rightarrow> batch_row \<Rightarrow> bool" where
  "still_due now db b = list_ex (\<lambda>d. dl_id d = b_id b \<and> dl_status d = b_status b \<and> due now d) (deliveries db)"

definition orphan_messages :: "batch_row list \<Rightarrow> mail_db \<Rightarrow> string list" where
  "orphan_messages batch db =
     remdups (filter (\<lambda>m. \<not> list_ex (\<lambda>d. dl_message_id d = m) (deliveries db)) (map b_message_id batch))"

record retention_result =
  n_messages :: nat
  n_deliveries :: nat
  n_mailboxes :: nat
  n_attachments :: nat
  n_smtp_sessions :: nat
  n_metric_buckets :: nat
  n_audit_logs :: nat
  n_maintenance_runs :: nat
  n_raw_size_bytes :: int
  n_file_gc_pending :: nat

definition empty_retention_result :: retention_result where
  "empty_retention_result = \<lparr>n_messages = 0, n_deliveries = 0, n_mailboxes = 0, n_attachments = 0,
     n_smtp_sessions = 0, n_metric_buckets = 0, n_audit_logs = 0, n_maintenance_runs = 0,
     n_raw_size_bytes = 0, n_file_gc_pending = 0\<rparr>"

text \<open>\<open>INSERT INTO file_gc_tasks ... ON CONFLICT(storage_path) DO UPDATE\<close>.\<close>

definition queue_gc_path :: "string \<Rightarrow> string \<Rightarrow> retention_db \<Rightarrow> retention_db" where
  "queue_gc_path now path db =
     (if list_ex (\<lambda>t. gc_path t = path) (file_gc_tasks db) then
        db\<lparr>file_gc_tasks := map (\<lambda>t. if gc_path t = path then t\<lparr>gc_updated_at := now\<rparr> else t) (file_gc_tasks db)\<rparr>
      else
        db\<lparr>file_gc_tasks := file_gc_tasks db @
             [\<lparr>gc_id = next_gc_id db, gc_path = path, gc_reason = ''retention'', gc_attempts = 0, gc_last_error = None,
               gc_next_attempt = None, gc_created_at = now, gc_updated_at = now\<rparr>],
           next_gc_id := next_gc_id db + 1\<rparr>)"

text \<open>The files of a message: raw, bodies and manifest; an empty text is no path.\<close>

definition message_paths :: "message \<Rightarrow> string list result" where
  "message_paths m =
     bindR (manifest_path (msg_id m) (received_at m)) (\<lambda>p.
       Inr (filter (\<lambda>x. x \<noteq> []) (List.map_filter id [Some (raw_path m), text_body_path m, html_body_path m, Some p])))"

definition queue_orphan_message_files ::
  "string \<Rightarrow> string list \<Rightarrow> retention_result \<Rightarrow> retention_db \<Rightarrow> (retention_result \<times> retention_db) result" where
  "queue_orphan_message_files now orphans res db =
     (let message_rows = filter (\<lambda>m. msg_id m \<in> set orphans) (messages (mail db));
          attachment_rows = filter (\<lambda>a. att_message_id a \<in> set orphans) (attachments db)
      in bindR (mapR message_paths message_rows) (\<lambda>pathss.
           let paths = sort (remdups (map att_storage_path attachment_rows @ concat pathss))
           in Inr (res\<lparr>n_raw_size_bytes := n_raw_size_bytes res + sum_list (map msg_raw_size message_rows),
                       n_attachments := length attachment_rows\<rparr>,
                   fold (queue_gc_path now) paths db)))"

text \<open>\<open>DELETE FROM messages\<close> with its cascades to deliveries and attachments.\<close>

definition delete_messages :: "string list \<Rightarrow> retention_db \<Rightarrow> retention_db" where
  "delete_messages ms db =
     db\<lparr>mail := (delete_deliveries (\<lambda>d. dl_message_id d \<in> set ms) (mail db))
          \<lparr>messages := filter (\<lambda>m. msg_id m \<notin> set ms) (messages (mail db))\<rparr>,
        attachments := filter (\<lambda>a. att_message_id a \<notin> set ms) (attachments db)\<rparr>"

definition refresh_summary :: "string \<Rightarrow> delivery list \<Rightarrow> mailbox \<Rightarrow> mailbox" where
  "refresh_summary now ds m =
     m\<lparr>first_seen_at := (case earliest_of ds of None \<Rightarrow> first_seen_at m | Some t \<Rightarrow> t),
       last_seen_at := (case latest_of ds of None \<Rightarrow> now | Some t \<Rightarrow> t),
       latest_message_at := latest_of ds,
       message_count := int (length ds)\<rparr>"

definition refresh_retention_mailbox_summaries :: "string \<Rightarrow> int list \<Rightarrow> mail_db \<Rightarrow> mail_db" where
  "refresh_retention_mailbox_summaries now affected db =
     db\<lparr>mailboxes := map (\<lambda>m. if mb_id m \<in> set affected then refresh_summary now (active_in db (mb_id m)) m else m)
          (mailboxes db)\<rparr>"

definition delete_stale_empty_mailbox_batch :: "string \<Rightarrow> nat \<Rightarrow> mail_db \<Rightarrow> nat \<times> mail_db" where
  "delete_stale_empty_mailbox_batch cutoff limit db =
     (let stale = select_oldest limit last_seen_at mb_id
            (\<lambda>m. message_count m = 0 \<and> latest_message_at m = None \<and> last_seen_at m \<le> cutoff
                 \<and> \<not> list_ex (\<lambda>d. dl_mailbox_id d = mb_id m) (deliveries db)) (mailboxes db)
      in (length stale, db\<lparr>mailboxes := filter (\<lambda>m. mb_id m \<notin> mb_id ` set stale) (mailboxes db)\<rparr>))"

definition last_activity :: "session_row \<Rightarrow> string" where
  "last_activity r =
     (case coalesce (disconnect_at r) (last_command_at r) of Some t \<Rightarrow> t | None \<Rightarrow> connect_at r)"

text \<open>\<open>DELETE FROM smtp_sessions\<close>; the sessions of kept messages become null.\<close>

definition forget_sessions :: "string set \<Rightarrow> message \<Rightarrow> message" where
  "forget_sessions gone m =
     (case msg_session_id m of None \<Rightarrow> m | Some s \<Rightarrow> if s \<in> gone then m\<lparr>msg_session_id := None\<rparr> else m)"

definition delete_stale_smtp_session_batch ::
  "string \<Rightarrow> nat \<Rightarrow> string list \<Rightarrow> retention_db \<Rightarrow> nat \<times> retention_db" where
  "delete_stale_smtp_session_batch cutoff limit active db =
     (let stale = select_oldest limit last_activity ss_id
            (\<lambda>r. last_activity r \<le> cutoff \<and> (ss_status r \<noteq> ''open'' \<or> ss_id r \<notin> set active)) (smtp_sessions db);
          gone = ss_id ` set stale
      in (length stale,
          db\<lparr>smtp_sessions := filter (\<lambda>r. ss_id r \<notin> gone) (smtp_sessions db),
             mail := (mail db)\<lparr>messages := map (forget_sessions gone) (messages (mail db))\<rparr>\<rparr>))"

definition delete_old_metric_batch :: "string \<Rightarrow> nat \<Rightarrow> retention_db \<Rightarrow> nat \<times> retention_db" where
  "delete_old_metric_batch cutoff limit db =
     (let old = select_oldest limit bucket_ts bucket_ts (\<lambda>r. bucket_ts r < cutoff) (metric_buckets db)
      in (length old, db\<lparr>metric_buckets := filter (\<lambda>r. bucket_ts r \<notin> bucket_ts ` set old) (metric_buckets db)\<rparr>))"

definition delete_old_audit_batch :: "string \<Rightarrow> nat \<Rightarrow> retention_db \<Rightarrow> nat \<times> retention_db" where
  "delete_old_audit_batch cutoff limit db =
     (let old = select_oldest limit audit_created_at audit_id (\<lambda>r. audit_created_at r < cutoff) (audit_logs db)
      in (length old, db\<lparr>audit_logs := filter (\<lambda>r. audit_id r \<notin> audit_id ` set old) (audit_logs db)\<rparr>))"

definition run_finished_before :: "string \<Rightarrow> run_row \<Rightarrow> bool" where
  "run_finished_before cutoff r =
     (run_status r \<in> {''succeeded'', ''failed''}
      \<and> (case run_finished_at r of None \<Rightarrow> False | Some t \<Rightarrow> t < cutoff))"

definition delete_old_maintenance_run_batch :: "string \<Rightarrow> nat \<Rightarrow> retention_db \<Rightarrow> nat \<times> retention_db" where
  "delete_old_maintenance_run_batch cutoff limit db =
     (let old = select_oldest limit (\<lambda>r. the (run_finished_at r)) run_id (run_finished_before cutoff) (maintenance_runs db)
      in (length old, db\<lparr>maintenance_runs := filter (\<lambda>r. run_id r \<notin> run_id ` set old) (maintenance_runs db)\<rparr>))"

text \<open>
  What the transaction takes from outside: the outcome of the authorization check, the clock
  when it runs and the sessions that are connected.
\<close>

record expire_env =
  ee_authorized :: "unit result"
  ee_clock :: int
  ee_active_sessions :: "string list"

text \<open>The deliveries and messages of the batch.\<close>

definition expire_mail ::
  "string \<Rightarrow> int \<Rightarrow> batch_row list \<Rightarrow> retention_db \<Rightarrow> (retention_result \<times> retention_db) result" where
  "expire_mail now clock snapshot db =
     (let batch = filter (still_due now (mail db)) snapshot;
          db1 = with_mail (delete_deliveries (\<lambda>d. dl_id d \<in> b_id ` set batch)) db;
          res = empty_retention_result\<lparr>n_deliveries := length batch\<rparr>;
          orphans = orphan_messages batch (mail db1)
      in bindR (if orphans = [] then Inr (res, db1)
                else bindR (queue_orphan_message_files now orphans res db1) (\<lambda>(res1, db2).
                  Inr (res1\<lparr>n_messages := length (filter (\<lambda>m. msg_id m \<in> set orphans) (messages (mail db2)))\<rparr>,
                       delete_messages orphans db2))) (\<lambda>(res2, db3).
           Inr (res2,
                if batch = [] then db3
                else with_mail (refresh_retention_mailbox_summaries (utc_now clock) (map b_mailbox_id batch)) db3)))"

definition expire_delivery_batch ::
  "retention_settings \<Rightarrow> expire_env \<Rightarrow> string \<Rightarrow> batch_row list \<Rightarrow> retention_db \<Rightarrow> (retention_result \<times> retention_db) result" where
  "expire_delivery_batch cfg env now snapshot db =
     (let limit = cleanup_batch_size cfg; cutoff = cutoff_timestamp (ee_clock env) in
      bindR (ee_authorized env) (\<lambda>_.
      bindR (expire_mail now (ee_clock env) snapshot db) (\<lambda>(res, db1).
      bindR (cutoff (empty_mailbox_retention_seconds cfg) 0) (\<lambda>c1.
      bindR (cutoff (smtp_session_retention_seconds cfg) 0) (\<lambda>c2.
      bindR (cutoff (metric_retention_seconds cfg) 0) (\<lambda>c3.
      bindR (cutoff 0 (audit_retention_days cfg)) (\<lambda>c4.
      bindR (cutoff 0 (maintenance_run_retention_days cfg)) (\<lambda>c5.
        let (k1, m1) = delete_stale_empty_mailbox_batch c1 limit (mail db1);
            (k2, db2) = delete_stale_smtp_session_batch c2 limit (ee_active_sessions env) (db1\<lparr>mail := m1\<rparr>);
            (k3, db3) = delete_old_metric_batch c3 limit db2;
            (k4, db4) = delete_old_audit_batch c4 limit db3;
            (k5, db5) = delete_old_maintenance_run_batch c5 limit db4
        in Inr (res\<lparr>n_mailboxes := n_mailboxes res + k1, n_smtp_sessions := k2, n_metric_buckets := k3,
                    n_audit_logs := k4, n_maintenance_runs := k5,
                    n_file_gc_pending := length (file_gc_tasks db5)\<rparr>, db5)))))))))"

text \<open>
  One cleanup: the snapshot, the parser kept away from its candidates, and the transaction.
\<close>

definition cleanup_round ::
  "retention_settings \<Rightarrow> expire_env \<Rightarrow> string \<Rightarrow> retention_db \<Rightarrow> (retention_result \<times> retention_db) result" where
  "cleanup_round cfg env now db =
     expire_delivery_batch cfg env now (fst (expiration_batch_snapshot now (cleanup_batch_size cfg) (mail db))) db"

fun cleanup_rounds ::
  "nat \<Rightarrow> retention_settings \<Rightarrow> expire_env \<Rightarrow> string \<Rightarrow> retention_db \<Rightarrow> retention_db result" where
  "cleanup_rounds 0 cfg env now db = Inr db"
| "cleanup_rounds (Suc n) cfg env now db =
     bindR (cleanup_round cfg env now db) (\<lambda>(res, db1). cleanup_rounds n cfg env now db1)"

section \<open>The mail tables after a batch\<close>

lemma queue_gc_path_mail [simp]: "mail (queue_gc_path now p db) = mail db"
  by (simp add: queue_gc_path_def)

lemma fold_queue_gc_mail [simp]: "mail (fold (queue_gc_path now) ps db) = mail db"
  by (induction ps arbitrary: db) auto

lemma with_mail_mail [simp]: "mail (with_mail f db) = f (mail db)"
  by (simp add: with_mail_def)

lemma delete_no_deliveries:
  assumes "\<forall>d \<in> set (deliveries db). \<not> p d"
  shows "delete_deliveries p db = db"
proof -
  have "filter (\<lambda>d. \<not> p d) (deliveries db) = deliveries db" using assms by simp
  moreover have "\<not> list_ex (\<lambda>d. p d \<and> dl_id d = i) (deliveries db)" for i
    using assms by (auto simp: list_ex_iff)
  ultimately show ?thesis by (simp add: delete_deliveries_def)
qed

text \<open>The batch that is still due, and what the transaction makes of the mail tables.\<close>

definition purge :: "batch_row list \<Rightarrow> mail_db \<Rightarrow> mail_db" where
  "purge batch db =
     (let db1 = delete_deliveries (\<lambda>d. dl_id d \<in> b_id ` set batch) db
      in db1\<lparr>messages := filter (\<lambda>m. msg_id m \<notin> set (orphan_messages batch db1)) (messages db1)\<rparr>)"

lemma purge_fields [simp]:
  "deliveries (purge batch db) = filter (\<lambda>d. dl_id d \<notin> b_id ` set batch) (deliveries db)"
  "mailboxes (purge batch db) = mailboxes db" "domains (purge batch db) = domains db"
  "next_mailbox_id (purge batch db) = next_mailbox_id db"
  by (simp_all add: purge_def delete_deliveries_def Let_def)

lemma expire_mail_form:
  assumes "expire_mail now clock snapshot db = Inr (res, db')"
    and "batch = filter (still_due now (mail db)) snapshot"
  shows "mail db' = (if batch = [] then purge batch (mail db)
           else refresh_retention_mailbox_summaries (utc_now clock) (map b_mailbox_id batch) (purge batch (mail db)))"
    and "n_deliveries res = length batch"
proof -
  define db1 where "db1 = with_mail (delete_deliveries (\<lambda>d. dl_id d \<in> b_id ` set batch)) db"
  define orphans where "orphans = orphan_messages batch (mail db1)"
  have none: "delete_deliveries (\<lambda>d. dl_message_id d \<in> set orphans) (mail db1) = mail db1"
    by (rule delete_no_deliveries) (auto simp: orphans_def orphan_messages_def list_ex_iff)
  have pg: "purge batch (mail db) = (mail db1)\<lparr>messages := filter (\<lambda>m. msg_id m \<notin> set orphans) (messages (mail db1))\<rparr>"
    by (simp add: purge_def db1_def orphans_def Let_def)
  obtain res2 db3 where step: "(if orphans = [] then Inr (empty_retention_result\<lparr>n_deliveries := length batch\<rparr>, db1)
      else bindR (queue_orphan_message_files now orphans (empty_retention_result\<lparr>n_deliveries := length batch\<rparr>) db1)
        (\<lambda>(res1, db2). Inr (res1\<lparr>n_messages := length (filter (\<lambda>m. msg_id m \<in> set orphans) (messages (mail db2)))\<rparr>,
                       delete_messages orphans db2))) = Inr (res2, db3)"
      and fin: "res = res2" "db' = (if batch = [] then db3
         else with_mail (refresh_retention_mailbox_summaries (utc_now clock) (map b_mailbox_id batch)) db3)"
    using assms(1) unfolding expire_mail_def assms(2) [symmetric] db1_def [symmetric] orphans_def [symmetric] Let_def
    by (auto simp: bindR_Inr_iff)
  have "mail db3 = purge batch (mail db) \<and> n_deliveries res2 = length batch"
  proof (cases "orphans = []")
    case True
    with step show ?thesis by (auto simp: pg)
  next
    case False
    with step none show ?thesis
      by (auto simp: bindR_Inr_iff queue_orphan_message_files_def delete_messages_def pg Let_def)
  qed
  then show "mail db' = (if batch = [] then purge batch (mail db)
           else refresh_retention_mailbox_summaries (utc_now clock) (map b_mailbox_id batch) (purge batch (mail db)))"
    "n_deliveries res = length batch"
    using fin by auto
qed

lemma purge_keys: "store_keys db \<Longrightarrow> store_keys (purge batch db)"
  by (auto simp: store_keys_def purge_def delete_deliveries_def Let_def intro: distinct_map_filter)

lemma purge_refs:
  assumes "store_refs db" and "\<forall>d \<in> set (deliveries db). dl_message_id d \<in> msg_id ` set (messages db)"
  shows "store_refs (purge batch db)"
proof -
  let ?db1 = "delete_deliveries (\<lambda>d. dl_id d \<in> b_id ` set batch) db"
  have kept: "msg_id ` set (messages (purge batch db)) = msg_id ` set (messages db) - set (orphan_messages batch ?db1)"
    by (auto simp: purge_def delete_deliveries_def Let_def)
  have "dl_message_id d \<notin> set (orphan_messages batch ?db1)" if "d \<in> set (deliveries (purge batch db))" for d
    using that by (auto simp: orphan_messages_def list_ex_iff delete_deliveries_def)
  moreover have "lv_delivery_id e \<in> dl_id ` set (deliveries (purge batch db))"
    if "e \<in> set (live_events (purge batch db))" for e
  proof -
    have e: "e \<in> set (live_events db)" "\<not> list_ex (\<lambda>d. dl_id d \<in> b_id ` set batch \<and> dl_id d = lv_delivery_id e) (deliveries db)"
      using that by (auto simp: purge_def delete_deliveries_def Let_def)
    then obtain d where "d \<in> set (deliveries db)" "dl_id d = lv_delivery_id e"
      using assms(1) by (auto simp: store_refs_def)
    moreover from this e(2) have "dl_id d \<notin> b_id ` set batch" by (auto simp: list_ex_iff)
    ultimately show ?thesis by (intro image_eqI [of _ _ d]) simp_all
  qed
  moreover have "dl_message_id d \<in> msg_id ` set (messages db)" "dl_mailbox_id d \<in> mb_id ` set (mailboxes db)"
    if "d \<in> set (deliveries (purge batch db))" for d
    using that assms by (auto simp: store_refs_def)
  ultimately show ?thesis
    using assms(1) unfolding store_refs_def kept by simp
qed

text \<open>
  The rows of a snapshot that still tell the mailbox of their delivery: the transaction
  revalidates status and expiry of a row, not its mailbox.
\<close>

definition rows_current :: "batch_row list \<Rightarrow> mail_db \<Rightarrow> bool" where
  "rows_current batch db \<longleftrightarrow>
     (\<forall>b \<in> set batch. \<forall>d \<in> set (deliveries db). dl_id d = b_id b \<longrightarrow> dl_mailbox_id d = b_mailbox_id b)"

lemma active_in_fields: "deliveries a = deliveries b \<Longrightarrow> active_in a = active_in b"
  by (simp add: active_in_def fun_eq_iff)

lemma refreshed_counts:
  assumes "store_counts db" and "rows_current batch db"
  shows "store_counts (refresh_retention_mailbox_summaries now (map b_mailbox_id batch) (purge batch db))"
proof -
  let ?p = "purge batch db"
  have same: "active_in ?p i = active_in db i" if "i \<notin> b_mailbox_id ` set batch" for i
  proof -
    have "dl_id d \<notin> b_id ` set batch" if "d \<in> set (deliveries db)" "dl_mailbox_id d = i" for d
      using assms(2) that \<open>i \<notin> b_mailbox_id ` set batch\<close> by (auto simp: rows_current_def)
    then show ?thesis by (auto simp: active_in_def intro!: filter_cong)
  qed
  let ?r = "refresh_retention_mailbox_summaries now (map b_mailbox_id batch) ?p"
  have act: "active_in ?r = active_in ?p"
    by (rule active_in_fields) (simp add: refresh_retention_mailbox_summaries_def)
  have boxes: "set (mailboxes ?r) = (\<lambda>m. if mb_id m \<in> b_mailbox_id ` set batch
      then refresh_summary now (active_in ?p (mb_id m)) m else m) ` set (mailboxes db)"
    by (simp add: refresh_retention_mailbox_summaries_def)
  show ?thesis
    using assms(1) same unfolding store_counts_def act boxes
    by (auto simp: refresh_summary_def)
qed

lemma mailbox_columns:
  assumes "\<And>m. mb_id (g m) = mb_id m" "\<And>m. mb_address (g m) = mb_address m"
    "\<And>m. mb_domain_id (g m) = mb_domain_id m"
  shows "store_keys (db\<lparr>mailboxes := map g (mailboxes db)\<rparr>) \<longleftrightarrow> store_keys db"
    and "store_refs (db\<lparr>mailboxes := map g (mailboxes db)\<rparr>) \<longleftrightarrow> store_refs db"
proof -
  have "mb_id \<circ> g = mb_id" "mb_address \<circ> g = mb_address" "mb_id ` g ` S = mb_id ` S" for S
    by (simp_all add: fun_eq_iff assms image_image)
  then show "store_keys (db\<lparr>mailboxes := map g (mailboxes db)\<rparr>) \<longleftrightarrow> store_keys db"
    "store_refs (db\<lparr>mailboxes := map g (mailboxes db)\<rparr>) \<longleftrightarrow> store_refs db"
    unfolding store_keys_def store_refs_def by (simp_all add: assms)
qed

lemma refresh_keys_refs:
  "store_keys (refresh_retention_mailbox_summaries now xs db) \<longleftrightarrow> store_keys db"
  "store_refs (refresh_retention_mailbox_summaries now xs db) \<longleftrightarrow> store_refs db"
  unfolding refresh_retention_mailbox_summaries_def
  by (rule mailbox_columns; simp add: refresh_summary_def)+

lemma expire_mail_inv:
  assumes inv: "store_inv (mail db)" and run: "expire_mail now clock snapshot db = Inr (res, db')"
    and cur: "rows_current (filter (still_due now (mail db)) snapshot) (mail db)"
  shows "store_inv (mail db')"
proof -
  let ?b = "filter (still_due now (mail db)) snapshot"
  have keys: "store_keys (purge ?b (mail db))" using inv by (intro purge_keys) (simp add: store_inv_def)
  have refs: "store_refs (purge ?b (mail db))"
    using inv by (intro purge_refs) (auto simp: store_inv_def store_refs_def)
  show ?thesis
  proof (cases "?b = []")
    case True
    have "active_in (purge ?b (mail db)) = active_in (mail db)"
      unfolding True by (rule active_in_fields) simp
    then have "store_counts (purge ?b (mail db))" using inv unfolding True by (simp add: store_inv_def store_counts_def)
    with keys refs True expire_mail_form(1) [OF run refl] show ?thesis by (simp add: store_inv_def)
  next
    case False
    with keys refs expire_mail_form(1) [OF run refl] refreshed_counts [OF _ cur] inv
    show ?thesis by (simp add: store_inv_def refresh_keys_refs)
  qed
qed

section \<open>The other tables\<close>

lemma select_oldest_set: "set (select_oldest n k1 k2 p xs) \<subseteq> {x \<in> set xs. p x}"
  using set_take_subset [of n "sort_key k1 (sort_key k2 (filter p xs))"]
  by (auto simp: select_oldest_def)

lemma length_select_oldest: "length (select_oldest n k1 k2 p xs) = min n (length (filter p xs))"
  by (simp add: select_oldest_def)

lemma delete_empty_mailboxes_inv:
  assumes "store_inv db"
  shows "store_inv (snd (delete_stale_empty_mailbox_batch cutoff limit db))"
    and "deliveries (snd (delete_stale_empty_mailbox_batch cutoff limit db)) = deliveries db"
    and "messages (snd (delete_stale_empty_mailbox_batch cutoff limit db)) = messages db"
proof -
  define stale where "stale = select_oldest limit last_seen_at mb_id
      (\<lambda>m. message_count m = 0 \<and> latest_message_at m = None \<and> last_seen_at m \<le> cutoff
         \<and> \<not> list_ex (\<lambda>d. dl_mailbox_id d = mb_id m) (deliveries db)) (mailboxes db)"
  let ?t = "db\<lparr>mailboxes := filter (\<lambda>m. mb_id m \<notin> mb_id ` set stale) (mailboxes db)\<rparr>"
  have t: "snd (delete_stale_empty_mailbox_batch cutoff limit db) = ?t"
    by (simp add: delete_stale_empty_mailbox_batch_def stale_def Let_def)
  have empty: "dl_mailbox_id d \<notin> mb_id ` set stale" if "d \<in> set (deliveries db)" for d
    using that select_oldest_set [of limit last_seen_at mb_id] by (force simp: stale_def list_ex_iff)
  have "active_in ?t = active_in db" by (rule active_in_fields) simp
  then have "store_counts ?t" using assms by (simp add: store_inv_def store_counts_def)
  moreover have "store_keys ?t" using assms by (auto simp: store_inv_def store_keys_def intro: distinct_map_filter)
  moreover have "store_refs ?t"
    using assms empty by (fastforce simp: store_inv_def store_refs_def)
  ultimately show "store_inv (snd (delete_stale_empty_mailbox_batch cutoff limit db))"
    by (simp add: t store_inv_def)
  show "deliveries (snd (delete_stale_empty_mailbox_batch cutoff limit db)) = deliveries db"
    "messages (snd (delete_stale_empty_mailbox_batch cutoff limit db)) = messages db"
    by (simp_all add: t)
qed

lemma forget_sessions_id [simp]: "msg_id (forget_sessions g m) = msg_id m" "received_at (forget_sessions g m) = received_at m"
  by (simp_all add: forget_sessions_def split: option.splits)

lemma message_columns_inv:
  assumes "store_inv db" and "\<And>m. msg_id (f m) = msg_id m"
  shows "store_inv (db\<lparr>messages := map f (messages db)\<rparr>)"
proof -
  have "msg_id \<circ> f = msg_id" "msg_id ` f ` S = msg_id ` S" for S
    by (simp_all add: fun_eq_iff assms(2) image_image)
  moreover have "active_in (db\<lparr>messages := map f (messages db)\<rparr>) = active_in db" by (rule active_in_fields) simp
  ultimately show ?thesis
    using assms(1) unfolding store_inv_def store_keys_def store_refs_def store_counts_def by simp
qed

text \<open>The mail tables after the whole transaction, given those after \<open>expire_mail\<close>.\<close>

lemma expire_delivery_batch_mail:
  assumes "expire_delivery_batch cfg env now snapshot db = Inr (res, db')"
  obtains res1 db1 c gone where "expire_mail now (ee_clock env) snapshot db = Inr (res1, db1)"
    and "n_deliveries res = n_deliveries res1" and "file_gc_tasks db' = file_gc_tasks db1"
    and "mail db' = (snd (delete_stale_empty_mailbox_batch c (cleanup_batch_size cfg) (mail db1)))
           \<lparr>messages := map (forget_sessions gone)
              (messages (snd (delete_stale_empty_mailbox_batch c (cleanup_batch_size cfg) (mail db1))))\<rparr>"
proof -
  from assms obtain res1 db1 c1 where em: "expire_mail now (ee_clock env) snapshot db = Inr (res1, db1)"
    and c1: "cutoff_timestamp (ee_clock env) (empty_mailbox_retention_seconds cfg) 0 = Inr c1"
    by (auto simp: expire_delivery_batch_def bindR_Inr_iff Let_def)
  show ?thesis
    using assms em c1
    by (intro that [OF em, where c = c1 and gone = "ss_id ` set (select_oldest (cleanup_batch_size cfg) last_activity ss_id
          (\<lambda>r. last_activity r \<le> projr (cutoff_timestamp (ee_clock env) (smtp_session_retention_seconds cfg) 0)
             \<and> (ss_status r \<noteq> ''open'' \<or> ss_id r \<notin> set (ee_active_sessions env))) (smtp_sessions db1))"])
      (auto simp: expire_delivery_batch_def bindR_Inr_iff Let_def case_prod_unfold
        delete_stale_smtp_session_batch_def delete_old_metric_batch_def delete_old_audit_batch_def
        delete_old_maintenance_run_batch_def)
qed

section \<open>What a batch deletes\<close>

definition due_count :: "string \<Rightarrow> mail_db \<Rightarrow> nat" where
  "due_count now db = length (filter (due now) (deliveries db))"

lemma expire_mail_deliveries:
  assumes "expire_mail now clock snapshot db = Inr (res, db')"
  shows "deliveries (mail db') = filter (\<lambda>d. dl_id d \<notin> b_id ` set (filter (still_due now (mail db)) snapshot))
           (deliveries (mail db))"
    and "set (messages (mail db')) \<subseteq> set (messages (mail db))"
proof -
  define batch where "batch = filter (still_due now (mail db)) snapshot"
  have form: "mail db' = (if batch = [] then purge batch (mail db)
      else refresh_retention_mailbox_summaries (utc_now clock) (map b_mailbox_id batch) (purge batch (mail db)))"
    by (rule expire_mail_form(1) [OF assms batch_def])
  then have "deliveries (mail db') = deliveries (purge batch (mail db))"
    "messages (mail db') = messages (purge batch (mail db))"
    by (auto simp: refresh_retention_mailbox_summaries_def)
  then show "deliveries (mail db') = filter (\<lambda>d. dl_id d \<notin> b_id ` set (filter (still_due now (mail db)) snapshot))
           (deliveries (mail db))" "set (messages (mail db')) \<subseteq> set (messages (mail db))"
    by (simp add: batch_def, auto simp: purge_def delete_deliveries_def Let_def)
qed

lemma expire_batch_spec:
  assumes "store_inv (mail db)" and "expire_delivery_batch cfg env now snapshot db = Inr (res, db')"
    and "batch = filter (still_due now (mail db)) snapshot" and "rows_current batch (mail db)"
  shows "store_inv (mail db')" and "n_deliveries res = length batch"
    and "deliveries (mail db') = filter (\<lambda>d. dl_id d \<notin> b_id ` set batch) (deliveries (mail db))"
    and "received_at ` set (messages (mail db')) \<subseteq> received_at ` set (messages (mail db))"
proof -
  from expire_delivery_batch_mail [OF assms(2)] obtain res1 db1 c gone
    where em: "expire_mail now (ee_clock env) snapshot db = Inr (res1, db1)"
      and res: "n_deliveries res = n_deliveries res1" and gc: "file_gc_tasks db' = file_gc_tasks db1"
      and m: "mail db' = (snd (delete_stale_empty_mailbox_batch c (cleanup_batch_size cfg) (mail db1)))
           \<lparr>messages := map (forget_sessions gone)
              (messages (snd (delete_stale_empty_mailbox_batch c (cleanup_batch_size cfg) (mail db1))))\<rparr>" .
  have inv1: "store_inv (mail db1)" using expire_mail_inv [OF assms(1) em] assms(3,4) by simp
  note del = delete_empty_mailboxes_inv [OF inv1, of c "cleanup_batch_size cfg"]
  show "store_inv (mail db')" unfolding m by (rule message_columns_inv [OF del(1)]) simp
  show "n_deliveries res = length batch" using res expire_mail_form(2) [OF em assms(3)] by simp
  show "deliveries (mail db') = filter (\<lambda>d. dl_id d \<notin> b_id ` set batch) (deliveries (mail db))"
    using expire_mail_deliveries(1) [OF em] assms(3) del(2) by (simp add: m)
  show "received_at ` set (messages (mail db')) \<subseteq> received_at ` set (messages (mail db))"
    using expire_mail_deliveries(2) [OF em] del(3) by (auto simp: m)
qed

text \<open>The files of the messages a batch deletes.\<close>

definition queued_paths :: "retention_db \<Rightarrow> string set" where
  "queued_paths db = gc_path ` set (file_gc_tasks db)"

lemma queue_gc_path_queued [simp]: "queued_paths (queue_gc_path now p db) = insert p (queued_paths db)"
proof -
  have "gc_path \<circ> (\<lambda>t :: gc_task. if gc_path t = p then t\<lparr>gc_updated_at := now\<rparr> else t) = gc_path" by (auto simp: fun_eq_iff)
  then have "gc_path ` set (map (\<lambda>t. if gc_path t = p then t\<lparr>gc_updated_at := now\<rparr> else t) ts) = gc_path ` set ts" for ts :: "gc_task list"
    by (simp only: list.set_map image_comp)
  then show ?thesis by (auto simp: queued_paths_def queue_gc_path_def list_ex_iff simp del: list.set_map)
qed

lemma fold_queue_gc_queued [simp]: "queued_paths (fold (queue_gc_path now) ps db) = queued_paths db \<union> set ps"
  by (induction ps arbitrary: db) auto

lemma mapR_set: "mapR f xs = Inr ys \<Longrightarrow> x \<in> set xs \<Longrightarrow> \<exists>y \<in> set ys. f x = Inr y"
  by (induction xs arbitrary: ys) (auto simp: bindR_Inr_iff)

lemma queue_orphan_files:
  assumes "queue_orphan_message_files now orphans res db = Inr (res', db')"
  shows "m \<in> set (messages (mail db)) \<Longrightarrow> msg_id m \<in> set orphans
      \<Longrightarrow> \<exists>ps. message_paths m = Inr ps \<and> set ps \<subseteq> queued_paths db'"
    and "a \<in> set (attachments db) \<Longrightarrow> att_message_id a \<in> set orphans \<Longrightarrow> att_storage_path a \<in> queued_paths db'"
    and "queued_paths db \<subseteq> queued_paths db'"
proof -
  obtain pss where pss: "mapR message_paths (filter (\<lambda>m. msg_id m \<in> set orphans) (messages (mail db))) = Inr pss"
    and db': "db' = fold (queue_gc_path now) (sort (remdups
        (map att_storage_path (filter (\<lambda>a. att_message_id a \<in> set orphans) (attachments db)) @ concat pss))) db"
    using assms by (auto simp: queue_orphan_message_files_def Let_def bindR_Inr_iff)
  show "\<exists>ps. message_paths m = Inr ps \<and> set ps \<subseteq> queued_paths db'"
    if "m \<in> set (messages (mail db))" "msg_id m \<in> set orphans"
    using mapR_set [OF pss, of m] that by (auto simp: db')
  show "a \<in> set (attachments db) \<Longrightarrow> att_message_id a \<in> set orphans \<Longrightarrow> att_storage_path a \<in> queued_paths db'"
    "queued_paths db \<subseteq> queued_paths db'"
    by (auto simp: db')
qed

lemma expire_mail_files:
  assumes run: "expire_mail now clock snapshot db = Inr (res, db')"
    and m: "m \<in> set (messages (mail db))" "msg_id m \<notin> msg_id ` set (messages (mail db'))"
  shows "\<exists>ps. message_paths m = Inr ps \<and> set ps \<subseteq> queued_paths db'"
    and "a \<in> set (attachments db) \<Longrightarrow> att_message_id a = msg_id m \<Longrightarrow> att_storage_path a \<in> queued_paths db'"
proof -
  define batch where "batch = filter (still_due now (mail db)) snapshot"
  define db1 where "db1 = with_mail (delete_deliveries (\<lambda>d. dl_id d \<in> b_id ` set batch)) db"
  define orphans where "orphans = orphan_messages batch (mail db1)"
  define res0 where "res0 = empty_retention_result\<lparr>n_deliveries := length batch\<rparr>"
  have "messages (mail db') = messages (purge batch (mail db))"
    using expire_mail_form(1) [OF run batch_def] by (auto simp: refresh_retention_mailbox_summaries_def)
  then have orphan: "msg_id m \<in> set orphans"
    using m by (auto simp: purge_def orphans_def db1_def delete_deliveries_def Let_def)
  then have "orphans \<noteq> []" by auto
  with run obtain res1 db2 where q: "queue_orphan_message_files now orphans res0 db1 = Inr (res1, db2)"
    and fin: "file_gc_tasks db' = file_gc_tasks db2"
    unfolding expire_mail_def batch_def [symmetric] db1_def [symmetric] orphans_def [symmetric] res0_def [symmetric] Let_def
    by (auto simp: bindR_Inr_iff delete_messages_def with_mail_def split: if_splits)
  have same: "queued_paths db' = queued_paths db2" by (simp add: queued_paths_def fin)
  have "messages (mail db1) = messages (mail db)" "attachments db1 = attachments db"
    by (simp_all add: db1_def with_mail_def delete_deliveries_def)
  then show "\<exists>ps. message_paths m = Inr ps \<and> set ps \<subseteq> queued_paths db'"
    "a \<in> set (attachments db) \<Longrightarrow> att_message_id a = msg_id m \<Longrightarrow> att_storage_path a \<in> queued_paths db'"
    using queue_orphan_files(1,2) [OF q] m(1) orphan by (simp_all add: same)
qed

lemma removed_deliveries:
  assumes "store_inv db" and "d \<in> set (deliveries db)" and "dl_id d \<in> b_id ` set (filter (still_due now db) snapshot)"
  shows "due now d \<and> (\<exists>b \<in> set snapshot. b_id b = dl_id d \<and> b_status b = dl_status d)"
proof -
  from assms(3) obtain b e where b: "b \<in> set snapshot" "b_id b = dl_id d"
    and e: "e \<in> set (deliveries db)" "dl_id e = b_id b" "dl_status e = b_status b" "due now e"
    by (auto simp: still_due_def list_ex_iff)
  moreover have "e = d"
    using assms(1,2) e(1,2) b(2) by (auto simp: store_inv_def store_keys_def distinct_map inj_on_def)
  ultimately show ?thesis by auto
qed

text \<open>The batch of a fresh snapshot.\<close>

lemma due_batch_set: "set (due_batch now n db) \<subseteq> {d \<in> set (deliveries db). due now d}"
  unfolding due_batch_def by (rule select_oldest_set)

lemma fresh_snapshot:
  assumes "store_keys db"
  shows "filter (still_due now db) (fst (expiration_batch_snapshot now n db)) = map batch_row_of (due_batch now n db)"
    and "rows_current (map batch_row_of (due_batch now n db)) db"
    and "b_id ` set (map batch_row_of (due_batch now n db)) = dl_id ` set (due_batch now n db)"
proof -
  have "still_due now db (batch_row_of d)" if "d \<in> set (due_batch now n db)" for d
    using that due_batch_set [of now n db] by (auto simp: still_due_def batch_row_of_def list_ex_iff)
  then show "filter (still_due now db) (fst (expiration_batch_snapshot now n db)) = map batch_row_of (due_batch now n db)"
    by (simp add: expiration_batch_snapshot_def Let_def filter_map o_def)
  show "rows_current (map batch_row_of (due_batch now n db)) db"
  proof -
    have "d = e" if "d \<in> set (deliveries db)" "e \<in> set (deliveries db)" "dl_id d = dl_id e" for d e
      using that assms by (auto simp: store_keys_def distinct_map inj_on_def)
    then show ?thesis using due_batch_set [of now n db] by (auto simp: rows_current_def batch_row_of_def)
  qed
  show "b_id ` set (map batch_row_of (due_batch now n db)) = dl_id ` set (due_batch now n db)"
    by (simp add: image_image batch_row_of_def)
qed

lemma length_filter_taken:
  assumes "distinct (map f zs)" and "mset ys = mset zs"
  shows "length (filter (\<lambda>z. f z \<notin> f ` set (take n ys)) zs) = length zs - n"
proof -
  let ?P = "\<lambda>z. f z \<notin> f ` set (take n ys)"
  have dys: "distinct (map f ys)" using assms by (metis mset_map mset_eq_imp_distinct_iff)
  have "filter ?P (take n ys) = []" by (simp add: filter_empty_conv)
  moreover have "filter ?P (drop n ys) = drop n ys"
  proof (rule filter_True, rule ballI)
    fix z assume "z \<in> set (drop n ys)"
    moreover have "set (take n (map f ys)) \<inter> set (drop n (map f ys)) = {}"
      using dys by (rule set_take_disj_set_drop_if_distinct) simp
    ultimately show "?P z" by (auto simp: take_map drop_map)
  qed
  ultimately have "length (filter ?P ys) = length ys - n"
    by (metis append_Nil append_take_drop_id filter_append length_drop)
  moreover have "length (filter ?P zs) = length (filter ?P ys)"
    using assms(2) by (metis mset_filter size_mset)
  moreover have "length ys = length zs" using assms(2) by (metis size_mset)
  ultimately show ?thesis by simp
qed

lemma due_after:
  assumes "store_keys db"
    and "deliveries db' = filter (\<lambda>d. dl_id d \<notin> dl_id ` set (due_batch now n db)) (deliveries db)"
  shows "due_count now db' = due_count now db - n"
    and "filter (\<lambda>d. \<not> due now d) (deliveries db') = filter (\<lambda>d. \<not> due now d) (deliveries db)"
proof -
  let ?zs = "filter (due now) (deliveries db)"
  have d: "distinct (map dl_id (deliveries db))" using assms(1) by (simp add: store_keys_def)
  have "mset (sort_key (\<lambda>d. the (dl_expires_at d)) (sort_key dl_id ?zs)) = mset ?zs" by simp
  from length_filter_taken [OF distinct_map_filter [OF d] this, of n]
  show "due_count now db' = due_count now db - n"
    by (simp add: due_count_def assms(2) due_batch_def select_oldest_def conj_commute)
  have "dl_id d \<notin> dl_id ` set (due_batch now n db)" if "d \<in> set (deliveries db)" "\<not> due now d" for d
    using that d due_batch_set [of now n db] by (auto simp: distinct_map inj_on_def)
  then show "filter (\<lambda>d. \<not> due now d) (deliveries db') = filter (\<lambda>d. \<not> due now d) (deliveries db)"
    by (auto simp: assms(2) intro!: filter_cong)
qed

section \<open>When a batch commits\<close>

definition retention_ready :: "retention_settings \<Rightarrow> expire_env \<Rightarrow> mail_db \<Rightarrow> bool" where
  "retention_ready cfg env db \<longleftrightarrow>
     ee_authorized env = Inr ()
     \<and> (\<forall>s \<in> {empty_mailbox_retention_seconds cfg, smtp_session_retention_seconds cfg, metric_retention_seconds cfg,
           86400 * audit_retention_days cfg, 86400 * maintenance_run_retention_days cfg}. valid_time (ee_clock env - s))
     \<and> (\<forall>t \<in> received_at ` set (messages db). parse_utc t \<noteq> None)"

lemma message_paths_ok: "parse_utc (received_at m) \<noteq> None \<Longrightarrow> \<exists>ps. message_paths m = Inr ps"
  by (auto simp: message_paths_def manifest_path_def dated_path_def path_date_parts_def split: prod.splits)

lemma mapR_ok: "\<forall>x \<in> set xs. \<exists>y. f x = Inr y \<Longrightarrow> \<exists>ys. mapR f xs = Inr ys"
  by (induction xs) auto

lemma expire_mail_ok:
  assumes "\<forall>t \<in> received_at ` set (messages (mail db)). parse_utc t \<noteq> None"
  shows "\<exists>r. expire_mail now clock snapshot db = Inr r"
proof -
  have "\<exists>r. queue_orphan_message_files now orphans res (with_mail (delete_deliveries p) db) = Inr r" for orphans res p
  proof -
    let ?rows = "filter (\<lambda>m. msg_id m \<in> set orphans) (messages (mail db))"
    have "\<exists>ps. mapR message_paths ?rows = Inr ps"
      using assms by (intro mapR_ok) (auto intro: message_paths_ok)
    then show ?thesis
      by (auto simp: queue_orphan_message_files_def delete_deliveries_def Let_def)
  qed
  note q = this
  show ?thesis
    unfolding expire_mail_def Let_def
    using q by (auto simp: bindR_Inr_iff split: prod.splits)
qed

lemma cutoff_ok:
  assumes "retention_ready cfg env db"
  shows "\<exists>c. cutoff_timestamp (ee_clock env) (empty_mailbox_retention_seconds cfg) 0 = Inr c"
    and "\<exists>c. cutoff_timestamp (ee_clock env) (smtp_session_retention_seconds cfg) 0 = Inr c"
    and "\<exists>c. cutoff_timestamp (ee_clock env) (metric_retention_seconds cfg) 0 = Inr c"
    and "\<exists>c. cutoff_timestamp (ee_clock env) 0 (audit_retention_days cfg) = Inr c"
    and "\<exists>c. cutoff_timestamp (ee_clock env) 0 (maintenance_run_retention_days cfg) = Inr c"
  using assms by (simp_all add: retention_ready_def cutoff_timestamp_def Let_def)

lemma expire_delivery_batch_ok:
  assumes "retention_ready cfg env (mail db)"
  shows "\<exists>res db'. expire_delivery_batch cfg env now snapshot db = Inr (res, db')"
proof -
  have "\<forall>t \<in> received_at ` set (messages (mail db)). parse_utc t \<noteq> None" "ee_authorized env = Inr ()"
    using assms by (simp_all add: retention_ready_def)
  then obtain r1 db1 where em: "expire_mail now (ee_clock env) snapshot db = Inr (r1, db1)"
    using expire_mail_ok [of db now "ee_clock env" snapshot] by (metis prod.exhaust)
  from cutoff_ok [OF assms] obtain c1 c2 c3 c4 c5
    where "cutoff_timestamp (ee_clock env) (empty_mailbox_retention_seconds cfg) 0 = Inr c1"
      "cutoff_timestamp (ee_clock env) (smtp_session_retention_seconds cfg) 0 = Inr c2"
      "cutoff_timestamp (ee_clock env) (metric_retention_seconds cfg) 0 = Inr c3"
      "cutoff_timestamp (ee_clock env) 0 (audit_retention_days cfg) = Inr c4"
      "cutoff_timestamp (ee_clock env) 0 (maintenance_run_retention_days cfg) = Inr c5" by blast
  with em \<open>ee_authorized env = Inr ()\<close> show ?thesis
    by (simp add: expire_delivery_batch_def Let_def case_prod_unfold)
qed

text \<open>One cleanup of a store that is ready: it commits, removes up to a batch of the due deliveries and nothing else.\<close>

lemma cleanup_round_spec:
  assumes "store_inv (mail db)" and "retention_ready cfg env (mail db)"
  obtains res db' where "cleanup_round cfg env now db = Inr (res, db')"
    and "store_inv (mail db')" and "retention_ready cfg env (mail db')"
    and "due_count now (mail db') = due_count now (mail db) - cleanup_batch_size cfg"
    and "filter (\<lambda>d. \<not> due now d) (deliveries (mail db')) = filter (\<lambda>d. \<not> due now d) (deliveries (mail db))"
proof -
  define snap where "snap = fst (expiration_batch_snapshot now (cleanup_batch_size cfg) (mail db))"
  define batch where "batch = due_batch now (cleanup_batch_size cfg) (mail db)"
  have keys: "store_keys (mail db)" using assms(1) by (simp add: store_inv_def)
  obtain res db' where run: "expire_delivery_batch cfg env now snap db = Inr (res, db')"
    using expire_delivery_batch_ok [OF assms(2)] by blast
  have rows: "map batch_row_of batch = filter (still_due now (mail db)) snap"
    "rows_current (map batch_row_of batch) (mail db)" "b_id ` set (map batch_row_of batch) = dl_id ` set batch"
    using fresh_snapshot [OF keys, of now "cleanup_batch_size cfg"] by (simp_all only: snap_def batch_def)
  note spec = expire_batch_spec [OF assms(1) run rows(1,2)]
  have dl: "deliveries (mail db') = filter (\<lambda>d. dl_id d \<notin> dl_id ` set batch) (deliveries (mail db))"
    using spec(3) unfolding rows(3) .
  have "retention_ready cfg env (mail db')"
    using assms(2) subsetD [OF spec(4)] unfolding retention_ready_def by blast
  moreover have "cleanup_round cfg env now db = Inr (res, db')"
    using run by (simp only: cleanup_round_def snap_def)
  ultimately show thesis
    using that spec(1) due_after [OF keys dl [unfolded batch_def]] by blast
qed

text \<open>
  C22: retention ends. On a consistent store whose messages carry readable reception times,
  every cleanup commits, and \<open>n\<close> cleanups with batches of \<open>b\<close> deliveries remove all due deliveries
  as soon as there are at most \<open>n * b\<close> of them; every delivery that is not due is still there,
  unchanged and in its order, and the store is consistent.
\<close>

theorem retention_terminates:
  assumes "store_inv (mail db)" and "retention_ready cfg env (mail db)"
    and "due_count now (mail db) \<le> n * cleanup_batch_size cfg"
  shows "\<exists>db'. cleanup_rounds n cfg env now db = Inr db' \<and> due_count now (mail db') = 0
           \<and> deliveries (mail db') = filter (\<lambda>d. \<not> due now d) (deliveries (mail db))
           \<and> store_inv (mail db')"
  using assms
proof (induction n arbitrary: db)
  case 0
  then have "filter (due now) (deliveries (mail db)) = []" by (simp add: due_count_def)
  then have "filter (\<lambda>d. \<not> due now d) (deliveries (mail db)) = deliveries (mail db)"
    by (simp add: filter_empty_conv)
  with 0 show ?case by (simp add: due_count_def)
next
  case (Suc n)
  from cleanup_round_spec [OF Suc.prems(1,2), of now] obtain res db1
    where one: "cleanup_round cfg env now db = Inr (res, db1)"
      and next_ready: "store_inv (mail db1)" "retention_ready cfg env (mail db1)"
      and less: "due_count now (mail db1) = due_count now (mail db) - cleanup_batch_size cfg"
      and same: "filter (\<lambda>d. \<not> due now d) (deliveries (mail db1)) = filter (\<lambda>d. \<not> due now d) (deliveries (mail db))" .
  have "due_count now (mail db1) \<le> n * cleanup_batch_size cfg" using less Suc.prems(3) by simp
  from Suc.IH [OF next_ready this] one same show ?case by simp
qed

text \<open>
  C23: what one retention transaction may delete, whatever happened since its snapshot was taken. If the
  snapshot still names the mailboxes of its deliveries, a committed transaction keeps the store consistent
  (references, unique keys and the message counts of all mailboxes); a delivery it removed was in the snapshot
  with the status it still has and is due; a message it removed has no delivery left, and every file of such a
  message (raw, bodies, manifest and attachments) is queued for collection.
\<close>

theorem expire_batch_safe:
  assumes "store_inv (mail db)" and "rows_current snapshot (mail db)"
    and "expire_delivery_batch cfg env now snapshot db = Inr (res, db')"
  shows "store_inv (mail db')
    \<and> (\<forall>d \<in> set (deliveries (mail db)) - set (deliveries (mail db')).
          due now d \<and> (\<exists>b \<in> set snapshot. b_id b = dl_id d \<and> b_status b = dl_status d))
    \<and> (\<forall>m \<in> set (messages (mail db)). msg_id m \<notin> msg_id ` set (messages (mail db')) \<longrightarrow>
          (\<forall>d \<in> set (deliveries (mail db')). dl_message_id d \<noteq> msg_id m)
          \<and> (\<exists>ps. message_paths m = Inr ps \<and> set ps \<subseteq> queued_paths db')
          \<and> (\<forall>a \<in> set (attachments db). att_message_id a = msg_id m \<longrightarrow> att_storage_path a \<in> queued_paths db'))"
proof -
  let ?batch = "filter (still_due now (mail db)) snapshot"
  from expire_delivery_batch_mail [OF assms(3)] obtain res1 db1 c gone
    where em: "expire_mail now (ee_clock env) snapshot db = Inr (res1, db1)"
      and gc: "file_gc_tasks db' = file_gc_tasks db1"
      and m: "mail db' = (snd (delete_stale_empty_mailbox_batch c (cleanup_batch_size cfg) (mail db1)))
           \<lparr>messages := map (forget_sessions gone)
              (messages (snd (delete_stale_empty_mailbox_batch c (cleanup_batch_size cfg) (mail db1))))\<rparr>" .
  have cur: "rows_current ?batch (mail db)" using assms(2) by (auto simp: rows_current_def)
  note spec = expire_batch_spec [OF assms(1,3) refl cur]
  have removed: "due now d \<and> (\<exists>b \<in> set snapshot. b_id b = dl_id d \<and> b_status b = dl_status d)"
    if "d \<in> set (deliveries (mail db)) - set (deliveries (mail db'))" for d
    using that unfolding spec(3) by (intro removed_deliveries [OF assms(1)]) auto
  have no_delivery: "dl_message_id d \<noteq> msg_id m"
    if "msg_id m \<notin> msg_id ` set (messages (mail db'))" "d \<in> set (deliveries (mail db'))" for d m
  proof -
    have "dl_message_id d \<in> msg_id ` set (messages (mail db'))"
      using spec(1) that(2) by (simp add: store_inv_def store_refs_def)
    with that(1) show ?thesis by metis
  qed
  have kept: "msg_id ` set (messages (mail db')) = msg_id ` set (messages (mail db1))"
    using delete_empty_mailboxes_inv(3) [OF expire_mail_inv [OF assms(1) em cur], of c "cleanup_batch_size cfg"]
    by (simp add: m image_image)
  have queued: "queued_paths db' = queued_paths db1" by (simp add: queued_paths_def gc)
  note files = expire_mail_files [OF em, folded kept queued]
  show ?thesis
    using spec(1) removed by (intro conjI ballI impI) (simp_all add: no_delivery files)
qed

section \<open>Witnesses\<close>

text \<open>
  Two messages, one delivered to both mailboxes. The deliveries of the first mailbox are due; the
  second message has no other delivery.
\<close>

definition ex_retention :: retention_db where
  "ex_retention = \<lparr>mail = ex_store\<lparr>
       messages := map (\<lambda>m. m\<lparr>received_at := ''2024-03-22T15:59:59Z''\<rparr>) [ex_message ''m'', ex_message ''n''],
       mailboxes := [(ex_mailbox 1 1 ''b+x'' ''d.co'')\<lparr>message_count := 2\<rparr>, ex_mailbox 2 1 ''b'' ''d.co''],
       deliveries := [ex_delivery ''p'' ''m'' 1, (ex_delivery ''q'' ''m'' 2)\<lparr>dl_expires_at := None\<rparr>, ex_delivery ''r'' ''n'' 1]\<rparr>,
     smtp_sessions = [], metric_buckets = [], rehome_audit = [],
     attachments = [\<lparr>att_id = ''a'', att_message_id = ''n'', att_storage_path = ''f''\<rparr>],
     file_gc_tasks = [], next_gc_id = 1, audit_logs = [], maintenance_runs = []\<rparr>"

definition ex_retention_settings :: retention_settings where
  "ex_retention_settings = \<lparr>empty_mailbox_retention_seconds = 86400, smtp_session_retention_seconds = 86400,
     metric_retention_seconds = 86400, audit_retention_days = 1, maintenance_run_retention_days = 1, cleanup_batch_size = 2\<rparr>"

definition ex_expire_env :: expire_env where
  "ex_expire_env = \<lparr>ee_authorized = Inr (), ee_clock = 69120000, ee_active_sessions = []\<rparr>"

lemma ex_retention_inv: "store_inv (mail ex_retention)"
  by code_simp

lemma ex_retention_ready: "retention_ready ex_retention_settings ex_expire_env (mail ex_retention)"
  by code_simp

lemma ex_due_count: "due_count ''9'' (mail ex_retention) \<le> 1 * cleanup_batch_size ex_retention_settings"
  by code_simp

theorem retention_terminates_witness:
  "\<exists>db'. cleanup_rounds 1 ex_retention_settings ex_expire_env ''9'' ex_retention = Inr db'
     \<and> due_count ''9'' (mail db') = 0
     \<and> deliveries (mail db') = filter (\<lambda>d. \<not> due ''9'' d) (deliveries (mail ex_retention)) \<and> store_inv (mail db')"
  by (rule retention_terminates [OF ex_retention_inv ex_retention_ready ex_due_count])

definition ex_snapshot :: "batch_row list" where
  "ex_snapshot = fst (expiration_batch_snapshot ''9'' 2 (mail ex_retention))"

definition ex_expired :: "retention_result \<times> retention_db" where
  "ex_expired = projr (expire_delivery_batch ex_retention_settings ex_expire_env ''9'' ex_snapshot ex_retention)"

lemma ex_expire: "expire_delivery_batch ex_retention_settings ex_expire_env ''9'' ex_snapshot ex_retention
    = Inr (fst ex_expired, snd ex_expired)"
  using expire_delivery_batch_ok [OF ex_retention_ready, of "''9''" ex_snapshot] by (auto simp: ex_expired_def)

lemma ex_rows_current: "rows_current ex_snapshot (mail ex_retention)"
  by code_simp

lemma ex_expired_messages:
  "''n'' \<notin> msg_id ` set (messages (mail (snd (projr (expire_mail ''9'' 69120000 ex_snapshot ex_retention)))))"
  by code_simp

lemma ex_removed: "''n'' \<notin> msg_id ` set (messages (mail (snd ex_expired)))"
proof -
  from expire_delivery_batch_mail [OF ex_expire] obtain res1 db1 c gone
    where em: "expire_mail ''9'' (ee_clock ex_expire_env) ex_snapshot ex_retention = Inr (res1, db1)"
      and "mail (snd ex_expired) = (snd (delete_stale_empty_mailbox_batch c (cleanup_batch_size ex_retention_settings) (mail db1)))
           \<lparr>messages := map (forget_sessions gone)
              (messages (snd (delete_stale_empty_mailbox_batch c (cleanup_batch_size ex_retention_settings) (mail db1))))\<rparr>" .
  then have "msg_id ` set (messages (mail (snd ex_expired))) = msg_id ` set (messages (mail db1))"
    by (simp add: delete_stale_empty_mailbox_batch_def Let_def image_image)
  with ex_expired_messages em show ?thesis by (simp add: ex_expire_env_def)
qed

theorem expire_batch_safe_witness:
  "store_inv (mail (snd ex_expired)) \<and> ''f'' \<in> queued_paths (snd ex_expired)"
proof -
  let ?m = "(ex_message ''n'')\<lparr>received_at := ''2024-03-22T15:59:59Z''\<rparr>"
  let ?a = "\<lparr>att_id = ''a'', att_message_id = ''n'', att_storage_path = ''f''\<rparr>"
  note safe = expire_batch_safe [OF ex_retention_inv ex_rows_current ex_expire]
  have "?m \<in> set (messages (mail ex_retention))" "?a \<in> set (attachments ex_retention)"
    by (simp_all add: ex_retention_def)
  moreover have "msg_id ?m \<notin> msg_id ` set (messages (mail (snd ex_expired)))" "att_message_id ?a = msg_id ?m"
    using ex_removed by (simp_all add: ex_message_def)
  ultimately have "att_storage_path ?a \<in> queued_paths (snd ex_expired)" using safe by blast
  with safe show ?thesis by simp
qed

text \<open>
  The premise on the mailboxes of the snapshot is needed. Here the first mailbox is merged into the
  second between the snapshot and the transaction: the transaction still deletes the deliveries, which now
  lie in the second mailbox, but recounts only the first.
\<close>

definition ex_rehomed :: retention_db where
  "ex_rehomed = with_mail (\<lambda>m. snd (projr (promote_mailbox_ownership 1 ex_promoting_match m))) ex_retention"

lemma ex_rehomed_inv: "store_inv (mail ex_rehomed)" "\<not> rows_current ex_snapshot (mail ex_rehomed)"
  by code_simp+

definition ex_miscounted :: mail_db where
  "ex_miscounted =
     mail (snd (projr (expire_mail ''9'' (ee_clock ex_expire_env) ex_snapshot ex_rehomed)))"

lemma retention_miscounts_rehomed:
  "map message_count (mailboxes ex_miscounted) = [2]" "map dl_id (deliveries ex_miscounted) = [''q'']"
  by code_simp+

end
