(* ===== verification/Storage_Tree.thy ===== *)
theory Storage_Tree
  imports Prelude "HOL-Library.Sublist"
begin

text \<open>
  The storage directory (\<^verbatim>\<open>src/app/runtime.py\<close>): a tree of directories, regular files and links,
  the paths the program builds in it, the walk down to the parent of a path that follows no
  link, the removal of a file, and the walk over a whole directory.
\<close>

section \<open>The tree\<close>

text \<open>What \<open>os.stat(..., follow_symlinks=False)\<close> tells of a regular file; the signature has all of it.\<close>

record file_stat =
  st_dev :: int
  st_ino :: int
  st_mode :: int
  st_size :: int
  st_mtime_ns :: int
  st_ctime_ns :: int

text \<open>The text of a file as \<open>json.loads\<close> reads it; \<open>None\<close> when decoding or parsing raises.\<close>

type_synonym content = "json option"

text \<open>\<open>Special\<close> is a link or a device; its flag is what \<open>is_dir\<close> of the directory entry says.\<close>

datatype node =
    Directory "(string \<times> node) list"
  | Regular file_stat content
  | Special bool

type_synonym path = "string list"

fun lookup_node :: "path \<Rightarrow> node \<Rightarrow> node option" where
  "lookup_node [] t = Some t"
| "lookup_node (x # p) (Directory es) = (case map_of es x of None \<Rightarrow> None | Some n \<Rightarrow> lookup_node p n)"
| "lookup_node (x # p) _ = None"

fun remove_node :: "path \<Rightarrow> node \<Rightarrow> node" where
  "remove_node [x] (Directory es) = Directory (filter (\<lambda>e. fst e \<noteq> x) es)"
| "remove_node (x # p) (Directory es) = Directory (map (\<lambda>e. if fst e = x then (fst e, remove_node p (snd e)) else e) es)"
| "remove_node _ t = t"

text \<open>The regular file at a path.\<close>

fun node_file :: "node \<Rightarrow> (file_stat \<times> content) option" where
  "node_file (Regular st c) = Some (st, c)"
| "node_file _ = None"

definition file_at :: "path \<Rightarrow> node \<Rightarrow> (file_stat \<times> content) option" where
  "file_at p t = Option.bind (lookup_node p t) node_file"

section \<open>Paths\<close>

definition slash :: char where
  "slash = CHR ''/''"

definition is_absolute :: "string \<Rightarrow> bool" where
  "is_absolute s = (take 1 s = [slash])"

text \<open>\<open>Path(s).parts\<close> of a relative path: empty components and single dots disappear.\<close>

definition path_parts :: "string \<Rightarrow> path" where
  "path_parts s = filter (\<lambda>p. p \<noteq> [] \<and> p \<noteq> ''.'') (split_by (\<lambda>c. c = slash) s)"

definition as_posix :: "path \<Rightarrow> string" where
  "as_posix p = (if p = [] then ''.'' else join_with slash p)"

text \<open>\<open>Path(name).stem\<close>.\<close>

definition path_stem :: "string \<Rightarrow> string" where
  "path_stem name =
     (let tail = takeWhile (\<lambda>c. c \<noteq> CHR ''.'') (rev name);
          i = length name - Suc (length tail)
      in if length tail < length name \<and> 0 < i \<and> tail \<noteq> [] then take i name else name)"

section \<open>Opening without following links\<close>

text \<open>The loop of \<open>os.open(part, O_DIRECTORY | O_NOFOLLOW, dir_fd=...)\<close>.\<close>

fun open_directories :: "path \<Rightarrow> node \<Rightarrow> node result" where
  "open_directories [] (Directory es) = Inr (Directory es)"
| "open_directories (x # p) (Directory es) =
     (case map_of es x of
        None \<Rightarrow> Inl (FileNotFoundError x)
      | Some n \<Rightarrow> open_directories p n)"
| "open_directories _ _ = Inl (OSError ''Not a directory'')"

definition open_storage_parent_no_follow :: "string \<Rightarrow> node \<Rightarrow> (path \<times> string) result" where
  "open_storage_parent_no_follow storage_path t =
     (if is_absolute storage_path then Inl (ValueError ''storage path must be relative'')
      else let parts = path_parts storage_path in
      if length parts < 2 \<or> list_ex (\<lambda>p. p = [] \<or> p = ''.'' \<or> p = ''..'') parts
      then Inl (ValueError ''invalid storage path'')
      else bindR (open_directories (butlast parts) t) (\<lambda>_. Inr (butlast parts, last parts)))"

text \<open>What the operating system may refuse: the error of an unlink, and a failing rmdir.\<close>

record io_env =
  unlink_error :: "path \<Rightarrow> exn option"
  rmdir_refused :: "path \<Rightarrow> bool"

text \<open>
  Pruning the directories of a removed file, innermost first, until one is not empty. The
  argument is the directory's path from the inside out.
\<close>

fun prune_directories :: "io_env \<Rightarrow> string list \<Rightarrow> node \<Rightarrow> node" where
  "prune_directories io [] t = t"
| "prune_directories io (x # rev_dir) t =
     (let p = rev (x # rev_dir) in
      case lookup_node p t of
        Some (Directory []) \<Rightarrow>
          if rmdir_refused io p then t else prune_directories io rev_dir (remove_node p t)
      | _ \<Rightarrow> t)"

definition safe_unlink_gc_path :: "io_env \<Rightarrow> string \<Rightarrow> node \<Rightarrow> unit result \<times> node" where
  "safe_unlink_gc_path io storage_path t =
     (case open_storage_parent_no_follow storage_path t of
        Inl e \<Rightarrow> (Inl e, t)
      | Inr (dir, name) \<Rightarrow>
          (case lookup_node (dir @ [name]) t of
             None \<Rightarrow> (Inr (), t)
           | Some (Regular st c) \<Rightarrow>
               (case unlink_error io (dir @ [name]) of
                  Some e \<Rightarrow> (Inl e, t)
                | None \<Rightarrow> (Inr (), prune_directories io (rev dir) (remove_node (dir @ [name]) t)))
           | Some _ \<Rightarrow> (Inl (OSError ''GC target is not a regular file''), t)))"

section \<open>Walking a directory\<close>

text \<open>One directory of \<open>os.walk\<close>: its subdirectories and its other entries, sorted; links to directories are dropped.\<close>

definition entry_names :: "(node \<Rightarrow> bool) \<Rightarrow> (string \<times> node) list \<Rightarrow> string list" where
  "entry_names p es = sort (filter (\<lambda>x. case map_of es x of Some n \<Rightarrow> p n | None \<Rightarrow> False) (remdups (map fst es)))"

definition is_directory :: "node \<Rightarrow> bool" where
  "is_directory n = (case n of Directory _ \<Rightarrow> True | _ \<Rightarrow> False)"

definition is_file_entry :: "node \<Rightarrow> bool" where
  "is_file_entry n = (case n of Directory _ \<Rightarrow> False | Regular _ _ \<Rightarrow> True | Special d \<Rightarrow> \<not> d)"

text \<open>How much there is below a node; a walk visits no more.\<close>

fun node_weight :: "node \<Rightarrow> nat" where
  "node_weight (Directory es) = sum_list (map (\<lambda>e. Suc (node_weight (snd e))) es)"
| "node_weight _ = 0"

section \<open>Removing a file\<close>

lemma map_of_remove_entry: "map_of (filter (\<lambda>e. fst e \<noteq> x) es) y = (if y = x then None else map_of es y)"
  by (induction es) auto

lemma map_of_update_entry:
  "map_of (map (\<lambda>e. if fst e = x then (fst e, f (snd e)) else e) es) y
     = (if y = x then map_option f (map_of es x) else map_of es y)"
  by (induction es) auto

lemma lookup_remove:
  assumes "p \<noteq> []"
  shows "lookup_node q (remove_node p t) =
    (if prefix p q then None
     else if prefix q p then map_option (remove_node (drop (length q) p)) (lookup_node q t)
     else lookup_node q t)"
  using assms
proof (induction p t arbitrary: q rule: remove_node.induct)
  case (1 x es)
  then show ?case by (cases q) (auto simp: map_of_remove_entry split: option.splits)
next
  case (2 x y p es)
  show ?case
  proof (cases q)
    case (Cons z q')
    show ?thesis
    proof (cases "map_of es x")
      case (Some n)
      then have "(x, n) \<in> set es" by (rule map_of_SomeD)
      from 2(1) [OF this, of q'] Some show ?thesis
        by (simp add: Cons map_of_update_entry split: option.splits)
    qed (auto simp: Cons map_of_update_entry)
  qed simp
qed (case_tac q; simp)+

lemma node_file_remove [simp]: "node_file (remove_node p n) = node_file n"
  by (cases "(p, n)" rule: remove_node.cases) simp_all

lemma file_at_remove:
  assumes "p \<noteq> []"
  shows "file_at q (remove_node p t) = (if prefix p q then None else file_at q t)"
  by (cases "lookup_node q t") (simp_all add: file_at_def lookup_remove [OF assms])

lemma lookup_leaf:
  "lookup_node p (Regular st c) = (if p = [] then Some (Regular st c) else None)"
  "lookup_node p (Special d) = (if p = [] then Some (Special d) else None)"
  by (cases p; simp)+

lemma lookup_append: "lookup_node (p @ q) t = Option.bind (lookup_node p t) (lookup_node q)"
  by (induction p t rule: lookup_node.induct) (auto split: option.splits)

lemma lookup_below:
  assumes "lookup_node p t = Some n" and "n = Regular st c \<or> n = Directory []" and "strict_prefix p q"
  shows "lookup_node q t = None"
proof -
  from assms(3) obtain x r where "q = p @ x # r" by (auto elim: strict_prefixE')
  then show ?thesis using assms(1,2) by (auto simp: lookup_append)
qed

text \<open>A file whose removal is not below another: exactly it disappears.\<close>

lemma file_at_unlink:
  assumes "p \<noteq> []" and "lookup_node p t = Some (Regular st c)"
  shows "file_at q (remove_node p t) = (if q = p then None else file_at q t)"
  using lookup_below [OF assms(2), of st c q]
  by (simp add: file_at_remove [OF assms(1)] prefix_order.less_le) (simp add: file_at_def)

lemma file_at_rmdir:
  assumes "p \<noteq> []" and "lookup_node p t = Some (Directory [])"
  shows "file_at q (remove_node p t) = file_at q t"
proof (cases "prefix p q")
  case True
  then have "lookup_node q t = None \<or> q = p" using lookup_below [OF assms(2)] prefix_order.less_le by blast
  with True assms(2) show ?thesis by (auto simp: file_at_remove [OF assms(1)]) (auto simp: file_at_def)
qed (simp add: file_at_remove [OF assms(1)])

lemma file_at_prune: "file_at q (prune_directories io d t) = file_at q t"
proof (induction io d t rule: prune_directories.induct)
  case (2 io x d t)
  then show ?case
    by (auto simp: Let_def file_at_rmdir split: option.splits node.splits list.splits)
qed simp

lemma open_directories_iff:
  "open_directories p t = Inr n \<longleftrightarrow> lookup_node p t = Some n \<and> is_directory n"
  by (induction p t rule: open_directories.induct)
    (auto simp: is_directory_def lookup_leaf split: option.splits if_splits)

lemma open_parent_ok:
  assumes "open_storage_parent_no_follow s t = Inr (dir, name)"
  shows "path_parts s = dir @ [name]" and "dir \<noteq> []" and "\<not> is_absolute s" and "''..'' \<notin> set (path_parts s)"
    and "\<exists>es. lookup_node dir t = Some (Directory es)"
proof -
  have l: "2 \<le> length (path_parts s)" and d: "dir = butlast (path_parts s)" "name = last (path_parts s)"
    and r: "\<not> is_absolute s" "''..'' \<notin> set (path_parts s)" "\<exists>n. open_directories dir t = Inr n"
    using assms by (auto simp: open_storage_parent_no_follow_def Let_def bindR_Inr_iff list_ex_iff split: if_splits)
  then have "path_parts s \<noteq> []" by auto
  then show "path_parts s = dir @ [name]" by (simp add: d)
  show "dir \<noteq> []" using l by (cases "path_parts s" rule: rev_cases) (auto simp: d)
  show "\<exists>es. lookup_node dir t = Some (Directory es)"
    using r(3) by (auto simp: open_directories_iff is_directory_def) (case_tac n; simp)
qed (use assms in \<open>auto simp: open_storage_parent_no_follow_def Let_def bindR_Inr_iff list_ex_iff split: if_splits\<close>)

text \<open>What collecting one path does to the files of the store.\<close>

lemma safe_unlink_files:
  assumes "safe_unlink_gc_path io s t = (r, t')"
  shows "file_at q t' = (if r = Inr () \<and> q = path_parts s then None else file_at q t)"
proof (cases "open_storage_parent_no_follow s t")
  case (Inl e)
  with assms show ?thesis by (auto simp: safe_unlink_gc_path_def)
next
  case (Inr dn)
  obtain dir name where dn: "dn = (dir, name)" by (cases dn) blast
  note parts = open_parent_ok(1) [OF Inr [unfolded dn]]
  show ?thesis
  proof (cases "lookup_node (dir @ [name]) t")
    case None
    with assms Inr dn parts show ?thesis by (auto simp: safe_unlink_gc_path_def file_at_def)
  next
    case (Some n)
    with assms Inr dn parts show ?thesis
      by (cases n) (auto simp: safe_unlink_gc_path_def file_at_prune file_at_unlink split: option.splits)
  qed
qed

end
