(* ===== verification/File_Gc.thy ===== *)
theory File_Gc
  imports Retention Storage_Tree
begin

text \<open>
  Collecting the files of deleted messages (\<^verbatim>\<open>src/app/runtime.py\<close>, \<open>_drain_file_gc\<close>): a bounded batch
  of due tasks, half of it from the new ones and half from the retries, each file removed without following
  links; a finished task leaves the queue, a failed one is retried after a growing delay.
\<close>

section \<open>The due tasks\<close>

text \<open>The loop that alternates the two streams.\<close>

fun alternate :: "nat \<Rightarrow> 'a list \<Rightarrow> 'a list \<Rightarrow> 'a list" where
  "alternate 0 ps rs = []"
| "alternate (Suc n) [] [] = []"
| "alternate (Suc n) (p # ps) [] = p # alternate n ps []"
| "alternate (Suc n) [] (r # rs) = r # alternate n [] rs"
| "alternate (Suc 0) (p # ps) (r # rs) = [p]"
| "alternate (Suc (Suc n)) (p # ps) (r # rs) = p # r # alternate n ps rs"

lemma alternate_code [code]:
  "alternate n ps rs =
     (if n = 0 then []
      else (case ps of
        [] \<Rightarrow> (case rs of [] \<Rightarrow> [] | r # rs' \<Rightarrow> r # alternate (n - 1) [] rs')
      | p # ps' \<Rightarrow> (case rs of
            [] \<Rightarrow> p # alternate (n - 1) ps' []
          | r # rs' \<Rightarrow> if n = 1 then [p] else p # r # alternate (n - 2) ps' rs')))"
  by (cases "(n, ps, rs)" rule: alternate.cases) simp_all

definition retry_due :: "string \<Rightarrow> gc_task \<Rightarrow> bool" where
  "retry_due now t = (case gc_next_attempt t of None \<Rightarrow> False | Some a \<Rightarrow> a \<le> now)"

definition load_due_file_gc_tasks :: "string \<Rightarrow> nat \<Rightarrow> retention_db \<Rightarrow> gc_task list" where
  "load_due_file_gc_tasks now limit db =
     alternate limit
       (select_oldest limit gc_id gc_id (\<lambda>t. gc_next_attempt t = None) (file_gc_tasks db))
       (select_oldest limit (\<lambda>t. the (gc_next_attempt t)) gc_id (retry_due now) (file_gc_tasks db))"

section \<open>Collecting\<close>

text \<open>\<open>exc.__class__.__name__\<close> and \<open>str(exc)\<close>.\<close>

fun exn_name :: "exn \<Rightarrow> string" where
  "exn_name (ValueError m) = ''ValueError''"
| "exn_name (TypeError m) = ''TypeError''"
| "exn_name UnicodeError = ''UnicodeError''"
| "exn_name (LookupError m) = ''LookupError''"
| "exn_name (RuntimeError m) = ''RuntimeError''"
| "exn_name (PermissionError m) = ''PermissionError''"
| "exn_name (PermissionDenied m) = ''PermissionDenied''"
| "exn_name (ApiKeyAuthorizationError m) = ''ApiKeyAuthorizationError''"
| "exn_name (HTTPException n m) = ''HTTPException''"
| "exn_name (IntegrityError m) = ''IntegrityError''"
| "exn_name (OverflowError m) = ''OverflowError''"
| "exn_name (OSError m) = ''OSError''"
| "exn_name (FileNotFoundError m) = ''FileNotFoundError''"
| "exn_name RecipientPolicyChanged = ''RecipientPolicyChanged''"

fun exn_message :: "exn \<Rightarrow> string" where
  "exn_message (ValueError m) = m"
| "exn_message (TypeError m) = m"
| "exn_message UnicodeError = []"
| "exn_message (LookupError m) = m"
| "exn_message (RuntimeError m) = m"
| "exn_message (PermissionError m) = m"
| "exn_message (PermissionDenied m) = m"
| "exn_message (ApiKeyAuthorizationError m) = m"
| "exn_message (HTTPException n m) = m"
| "exn_message (IntegrityError m) = m"
| "exn_message (OverflowError m) = m"
| "exn_message (OSError m) = m"
| "exn_message (FileNotFoundError m) = m"
| "exn_message RecipientPolicyChanged = []"

fun delete_gc_paths :: "io_env \<Rightarrow> gc_task list \<Rightarrow> node \<Rightarrow> (gc_task \<times> string option) list \<times> node" where
  "delete_gc_paths io [] t = ([], t)"
| "delete_gc_paths io (k # ks) t =
     (let (r, t1) = safe_unlink_gc_path io (gc_path k) t;
          err = (case r of Inr _ \<Rightarrow> None | Inl e \<Rightarrow> Some (take 1000 (exn_name e @ '': '' @ exn_message e)));
          (rest, t2) = delete_gc_paths io ks t1
      in ((k, err) # rest, t2))"

definition retry_seconds :: "int \<Rightarrow> int" where
  "retry_seconds attempts = min 3600 (30 * 2 ^ nat (min (attempts - 1) 7))"

text \<open>The row of a failed task: \<open>k\<close> is the task as it was loaded.\<close>

definition retried :: "int \<Rightarrow> gc_task \<Rightarrow> string \<Rightarrow> gc_task \<Rightarrow> gc_task" where
  "retried clock k err t = t\<lparr>gc_attempts := gc_attempts k + 1, gc_last_error := Some err,
     gc_next_attempt := Some (utc_text (clock + retry_seconds (gc_attempts k + 1))), gc_updated_at := utc_now clock\<rparr>"

text \<open>\<open>apply_outcomes\<close>: the writer's transaction over the outcomes.\<close>

fun apply_outcomes :: "int \<Rightarrow> (gc_task \<times> string option) list \<Rightarrow> retention_db \<Rightarrow> retention_db result" where
  "apply_outcomes clock [] db = Inr db"
| "apply_outcomes clock ((k, None) # os) db =
     apply_outcomes clock os (db\<lparr>file_gc_tasks := filter (\<lambda>t. gc_id t \<noteq> gc_id k) (file_gc_tasks db)\<rparr>)"
| "apply_outcomes clock ((k, Some err) # os) db =
     (if \<not> valid_time (clock + retry_seconds (gc_attempts k + 1)) then Inl (OverflowError ''date value out of range'')
      else apply_outcomes clock os (db\<lparr>file_gc_tasks :=
        map (\<lambda>t. if gc_id t = gc_id k then retried clock k err t else t) (file_gc_tasks db)\<rparr>))"

record gc_result =
  file_gc_deleted :: nat
  file_gc_failed :: nat
  file_gc_pending :: nat

definition drain_file_gc ::
  "io_env \<Rightarrow> int \<Rightarrow> nat \<Rightarrow> retention_db \<Rightarrow> node \<Rightarrow> (gc_result \<times> retention_db) result \<times> node" where
  "drain_file_gc io clock limit db t =
     (let rows = load_due_file_gc_tasks (utc_now clock) limit db in
      if rows = [] then
        (Inr (\<lparr>file_gc_deleted = 0, file_gc_failed = 0, file_gc_pending = length (file_gc_tasks db)\<rparr>, db), t)
      else
        let (outcomes, t1) = delete_gc_paths io rows t;
            deleted = length (filter (\<lambda>out. snd out = None) outcomes)
        in (bindR (apply_outcomes clock outcomes db) (\<lambda>db1.
              Inr (\<lparr>file_gc_deleted = deleted, file_gc_failed = length outcomes - deleted,
                    file_gc_pending = length (file_gc_tasks db1)\<rparr>, db1)), t1))"

section \<open>Bounds and fairness of a batch\<close>

lemma alternate_one: "alternate n ps [] = take n ps" "alternate n [] ps = take n ps"
  by (induction n arbitrary: ps; case_tac ps; simp)+

lemma length_alternate: "length (alternate n ps rs) = min n (length ps + length rs)"
  by (induction n ps rs rule: alternate.induct) auto

lemma set_alternate: "set (alternate n ps rs) \<subseteq> set ps \<union> set rs"
  by (induction n ps rs rule: alternate.induct) auto

lemma distinct_alternate:
  "distinct (map f ps) \<Longrightarrow> distinct (map f rs) \<Longrightarrow> f ` set ps \<inter> f ` set rs = {} \<Longrightarrow> distinct (map f (alternate n ps rs))"
proof (induction n ps rs rule: alternate.induct)
  case (6 n p ps r rs)
  then show ?case using set_alternate [of n ps rs] by auto
qed (auto simp: alternate_one dest: in_set_takeD intro: distinct_take simp flip: take_map)

text \<open>How many of each stream a batch takes; the first stream gets the odd place.\<close>

lemma alternate_exact:
  "set (alternate n ps rs) =
     set (take (max (Suc n div 2) (n - length rs)) ps) \<union> set (take (max (n div 2) (n - length ps)) rs)"
proof (induction n ps rs rule: alternate.induct)
  case (3 n p ps)
  then show ?case by (simp add: alternate_one max_def)
next
  case (4 n r rs)
  then show ?case by (simp add: alternate_one max_def)
next
  case (6 n p ps r rs)
  have "max (Suc (Suc (Suc n)) div 2) (Suc (Suc n) - length (r # rs)) = Suc (max (Suc n div 2) (n - length rs))"
    "max (Suc (Suc n) div 2) (Suc (Suc n) - length (p # ps)) = Suc (max (n div 2) (n - length ps))"
    by (auto simp: max_def)
  then show ?case using 6 by auto
qed auto

definition gc_keys :: "retention_db \<Rightarrow> bool" where
  "gc_keys db \<longleftrightarrow> distinct (map gc_id (file_gc_tasks db))"

lemma distinct_select_oldest:
  "distinct (map f xs) \<Longrightarrow> distinct (map f (select_oldest n k1 k2 p xs))"
proof -
  assume "distinct (map f xs)"
  then have "distinct (map f (filter p xs))" by (rule distinct_map_filter)
  moreover have "mset (map f (sort_key k1 (sort_key k2 (filter p xs)))) = mset (map f (filter p xs))" by simp
  ultimately have "distinct (map f (sort_key k1 (sort_key k2 (filter p xs))))" by (metis mset_eq_imp_distinct_iff)
  then show ?thesis by (simp add: select_oldest_def flip: take_map)
qed

lemma due_tasks:
  assumes "gc_keys db" and rows_def: "rows = load_due_file_gc_tasks now limit db"
  shows "set rows \<subseteq> set (file_gc_tasks db)" and "distinct (map gc_id rows)" and "length rows \<le> limit"
    and "k \<in> set rows \<Longrightarrow> gc_next_attempt k = None \<or> retry_due now k"
proof -
  let ?p = "select_oldest limit gc_id gc_id (\<lambda>t. gc_next_attempt t = None) (file_gc_tasks db)"
  let ?r = "select_oldest limit (\<lambda>t. the (gc_next_attempt t)) gc_id (retry_due now) (file_gc_tasks db)"
  have p: "set ?p \<subseteq> {t \<in> set (file_gc_tasks db). gc_next_attempt t = None}" by (rule select_oldest_set)
  have r: "set ?r \<subseteq> {t \<in> set (file_gc_tasks db). retry_due now t}" by (rule select_oldest_set)
  show "set rows \<subseteq> set (file_gc_tasks db)" "k \<in> set rows \<Longrightarrow> gc_next_attempt k = None \<or> retry_due now k"
    using set_alternate [of limit ?p ?r] p r by (auto simp: rows_def load_due_file_gc_tasks_def)
  show "length rows \<le> limit" by (simp add: rows_def load_due_file_gc_tasks_def length_alternate)
  have inj: "a = b" if "a \<in> set (file_gc_tasks db)" "b \<in> set (file_gc_tasks db)" "gc_id a = gc_id b" for a b
    using assms(1) that by (auto simp: gc_keys_def distinct_map inj_on_def)
  have "gc_id ` set ?p \<inter> gc_id ` set ?r = {}"
    using p r inj by (fastforce simp: retry_due_def)
  then show "distinct (map gc_id rows)"
    using assms(1) unfolding rows_def load_due_file_gc_tasks_def gc_keys_def
    by (intro distinct_alternate distinct_select_oldest)
qed

text \<open>The two streams of due work, oldest first.\<close>

definition new_tasks :: "retention_db \<Rightarrow> gc_task list" where
  "new_tasks db = sort_key gc_id (filter (\<lambda>k. gc_next_attempt k = None) (file_gc_tasks db))"

definition due_retries :: "string \<Rightarrow> retention_db \<Rightarrow> gc_task list" where
  "due_retries now db = sort_key (\<lambda>k. the (gc_next_attempt k)) (sort_key gc_id (filter (retry_due now) (file_gc_tasks db)))"

lemma due_exact:
  "set (load_due_file_gc_tasks now limit db) =
     set (take (max (Suc limit div 2) (limit - length (due_retries now db))) (new_tasks db))
     \<union> set (take (max (limit div 2) (limit - length (new_tasks db))) (due_retries now db))"
proof -
  have "sort_key gc_id (sort_key gc_id xs) = sort_key gc_id xs" for xs :: "gc_task list"
    by (rule sort_key_id_if_sorted) simp
  then have "load_due_file_gc_tasks now limit db = alternate limit (take limit (new_tasks db)) (take limit (due_retries now db))"
    by (simp add: load_due_file_gc_tasks_def select_oldest_def new_tasks_def due_retries_def)
  moreover have "min limit (max (Suc limit div 2) (limit - n)) = max (Suc limit div 2) (limit - n)" for n by auto
  moreover have "min limit (max (limit div 2) (limit - n)) = max (limit div 2) (limit - n)" for n by auto
  moreover have "limit - min (length xs) limit = limit - length xs" for xs :: "gc_task list" by auto
  ultimately show ?thesis by (simp add: alternate_exact min.commute [of limit])
qed

text \<open>With a batch size of one, a new task keeps every due retry out of the batch.\<close>

lemma retries_starve_at_one:
  assumes "new_tasks db \<noteq> []" and "k \<in> set (load_due_file_gc_tasks now 1 db)"
  shows "gc_next_attempt k = None"
proof -
  have "1 - length (new_tasks db) = 0" using assms(1) by (cases "new_tasks db") simp_all
  then have "k \<in> set (new_tasks db)" using assms(2) due_exact [of now 1 db] by (auto dest: in_set_takeD)
  then show ?thesis by (simp add: new_tasks_def)
qed

section \<open>What a batch does\<close>

lemma delete_gc_paths_effect:
  assumes "delete_gc_paths io ks t = (outcomes, t')"
  shows "map fst outcomes = ks
    \<and> file_at q t' = (if \<exists>k. (k, None) \<in> set outcomes \<and> path_parts (gc_path k) = q then None else file_at q t)"
  using assms
proof (induction ks arbitrary: t outcomes)
  case (Cons k ks)
  obtain r t1 where u: "safe_unlink_gc_path io (gc_path k) t = (r, t1)" by (cases "safe_unlink_gc_path io (gc_path k) t")
  obtain rest where d: "delete_gc_paths io ks t1 = (rest, t')"
    and out: "outcomes = (k, case r of Inr _ \<Rightarrow> None | Inl e \<Rightarrow> Some (take 1000 (exn_name e @ '': '' @ exn_message e))) # rest"
    using Cons.prems u by (auto simp: Let_def split: prod.splits)
  show ?case using Cons.IH [OF d] safe_unlink_files [OF u, of q]
    by (cases r) (auto simp: out split: if_splits)
qed simp

definition settle :: "int \<Rightarrow> (gc_task \<times> string option) list \<Rightarrow> gc_task \<Rightarrow> gc_task option" where
  "settle clock outcomes t =
     (case map_of (map (\<lambda>out. (gc_id (fst out), out)) outcomes) (gc_id t) of
        None \<Rightarrow> Some t
      | Some (k, None) \<Rightarrow> None
      | Some (k, Some err) \<Rightarrow> Some (retried clock k err t))"

text \<open>What becomes of one task.\<close>

lemma retried_id [simp]: "gc_id (retried clock k err t) = gc_id t"
  by (simp add: retried_def)

lemma settle_absent: "gc_id t \<notin> gc_id ` fst ` set outcomes \<Longrightarrow> settle clock outcomes t = Some t"
proof -
  assume "gc_id t \<notin> gc_id ` fst ` set outcomes"
  then have "map_of (map (\<lambda>out. (gc_id (fst out), out)) outcomes) (gc_id t) = None"
    by (simp add: map_of_eq_None_iff image_image)
  then show ?thesis by (simp add: settle_def)
qed

lemma map_filter_filter: "List.map_filter f (filter p xs) = List.map_filter (\<lambda>x. if p x then f x else None) xs"
  by (induction xs) (simp_all add: List.map_filter_simps split: option.splits)

lemma in_map_filter: "y \<in> set (List.map_filter f xs) \<longleftrightarrow> (\<exists>x \<in> set xs. f x = Some y)"
  by (force simp: List.map_filter_def)

lemma map_filter_map': "List.map_filter f (map g xs) = List.map_filter (\<lambda>x. f (g x)) xs"
  by (simp add: List.map_filter_def filter_map o_def)

lemma apply_outcomes_settle:
  assumes "apply_outcomes clock outcomes db = Inr db'" and "distinct (map (gc_id \<circ> fst) outcomes)"
  shows "file_gc_tasks db' = List.map_filter (settle clock outcomes) (file_gc_tasks db)"
  using assms
proof (induction clock outcomes db rule: apply_outcomes.induct)
  case (1 clock db)
  have "List.map_filter Some xs = xs" for xs :: "gc_task list" by (induction xs) (simp_all add: List.map_filter_simps)
  moreover have "settle clock [] = Some" by (rule ext) (simp add: settle_def)
  ultimately show ?case using 1 by simp
next
  case (2 clock k os db)
  have fresh: "settle clock os t = Some t" if "gc_id t = gc_id k" for t
    using 2(3) that by (intro settle_absent) (auto simp: image_image)
  have "(\<lambda>t. if gc_id t \<noteq> gc_id k then settle clock os t else None) = settle clock ((k, None) # os)"
    by (rule ext) (auto simp: settle_def)
  with 2 show ?case by (simp add: map_filter_filter)
next
  case (3 clock k err os db)
  have fresh: "settle clock os t = Some t" if "gc_id t = gc_id k" for t
    using 3(3) that by (intro settle_absent) (auto simp: image_image)
  have "(\<lambda>t. settle clock os (if gc_id t = gc_id k then retried clock k err t else t)) = settle clock ((k, Some err) # os)"
  proof (rule ext)
    fix t
    show "settle clock os (if gc_id t = gc_id k then retried clock k err t else t) = settle clock ((k, Some err) # os) t"
      by (cases "gc_id t = gc_id k") (simp_all add: fresh, simp_all add: settle_def)
  qed
  with 3 show ?case by (simp add: map_filter_map' split: if_splits)
qed

lemma retry_seconds_bounds: "1 \<le> n \<Longrightarrow> 30 \<le> retry_seconds n \<and> retry_seconds n \<le> 3600"
  using one_le_power [of "2 :: int" "nat (min (n - 1) 7)"] by (simp add: retry_seconds_def)

lemma outcome_of:
  assumes "map_of (map (\<lambda>out. (gc_id (fst out), out)) outcomes) i = Some out"
  shows "out \<in> set outcomes" and "gc_id (fst out) = i"
  using map_of_SomeD [OF assms] by auto

lemma settle_cases:
  assumes "settle clock outcomes t = Some t'"
  shows "t' = t \<or> (\<exists>k err. (k, Some err) \<in> set outcomes \<and> gc_id k = gc_id t \<and> t' = retried clock k err t)"
proof (cases "map_of (map (\<lambda>out. (gc_id (fst out), out)) outcomes) (gc_id t)")
  case (Some out)
  obtain k e where out: "out = (k, e)" by (cases out) blast
  with assms Some outcome_of [OF Some] show ?thesis by (cases e) (auto simp: settle_def)
qed (use assms in \<open>simp add: settle_def\<close>)

lemma settle_None:
  assumes "settle clock outcomes t = None"
  shows "\<exists>k. (k, None) \<in> set outcomes \<and> gc_id k = gc_id t"
proof (cases "map_of (map (\<lambda>out. (gc_id (fst out), out)) outcomes) (gc_id t)")
  case (Some out)
  obtain k e where out: "out = (k, e)" by (cases out) blast
  with assms Some outcome_of [OF Some] show ?thesis by (cases e) (auto simp: settle_def)
qed (use assms in \<open>simp add: settle_def\<close>)

lemma settle_id: "settle clock outcomes t = Some t' \<Longrightarrow> gc_id t' = gc_id t"
  by (auto simp: settle_def split: option.splits)

text \<open>The parts of a drain that commits.\<close>

lemma drain_file_gc_parts:
  assumes "drain_file_gc io clock limit db t = (Inr (res, db'), t')" and "gc_keys db"
  obtains outcomes where "map fst outcomes = load_due_file_gc_tasks (utc_now clock) limit db"
    and "\<And>q. file_at q t' = (if \<exists>k. (k, None) \<in> set outcomes \<and> path_parts (gc_path k) = q then None else file_at q t)"
    and "file_gc_tasks db' = List.map_filter (settle clock outcomes) (file_gc_tasks db)"
proof (cases "load_due_file_gc_tasks (utc_now clock) limit db = []")
  case True
  have "settle clock [] = Some" by (rule ext) (simp add: settle_def)
  then have "List.map_filter (settle clock []) xs = xs" for xs
    by (induction xs) (simp_all add: List.map_filter_simps)
  with that [of "[]"] True assms(1) show ?thesis by (simp add: drain_file_gc_def)
next
  case False
  obtain outcomes t1 where d: "delete_gc_paths io (load_due_file_gc_tasks (utc_now clock) limit db) t = (outcomes, t1)"
    by (cases "delete_gc_paths io (load_due_file_gc_tasks (utc_now clock) limit db) t")
  note eff = delete_gc_paths_effect [OF d]
  have ids: "distinct (map (gc_id \<circ> fst) outcomes)"
    using due_tasks(2) [OF assms(2) refl, of "utc_now clock" limit] eff by (metis list.map_comp)
  have t: "t' = t1" and ap: "apply_outcomes clock outcomes db = Inr db'"
    using assms(1) False d by (auto simp: drain_file_gc_def Let_def bindR_Inr_iff)
  show ?thesis using that [of outcomes] eff apply_outcomes_settle [OF ap ids] unfolding t by blast
qed

text \<open>The outcomes of a batch and the tasks they settle.\<close>

lemma settled:
  assumes "gc_keys db" and rows: "map fst outcomes = load_due_file_gc_tasks now limit db"
    and tasks: "file_gc_tasks db' = List.map_filter (settle clock outcomes) (file_gc_tasks db)"
  shows "k \<in> set (file_gc_tasks db) \<Longrightarrow> gc_id k \<notin> gc_id ` set (file_gc_tasks db') \<Longrightarrow> (k, None) \<in> set outcomes"
    and "k' \<in> set (file_gc_tasks db') \<Longrightarrow> k' \<in> set (file_gc_tasks db)
           \<or> (\<exists>k err. (k, Some err) \<in> set outcomes \<and> k' = retried clock k err k)"
proof -
  have inj: "a = b" if "a \<in> set (file_gc_tasks db)" "b \<in> set (file_gc_tasks db)" "gc_id a = gc_id b" for a b
    using assms(1) that by (auto simp: gc_keys_def distinct_map inj_on_def)
  have mem: "k \<in> set (file_gc_tasks db)" if "(k, e) \<in> set outcomes" for k e
    using that due_tasks(1) [OF assms(1) refl] rows by (metis fst_conv image_eqI list.set_map subsetD)
  show "(k, None) \<in> set outcomes"
    if k: "k \<in> set (file_gc_tasks db)" "gc_id k \<notin> gc_id ` set (file_gc_tasks db')" for k
  proof -
    have "settle clock outcomes k = None"
    proof (rule ccontr)
      assume "settle clock outcomes k \<noteq> None"
      then obtain k' where "settle clock outcomes k = Some k'" by auto
      with k settle_id [OF this] show False by (metis in_map_filter tasks image_eqI)
    qed
    from settle_None [OF this] inj mem k(1) show ?thesis by blast
  qed
  show "k' \<in> set (file_gc_tasks db) \<or> (\<exists>k err. (k, Some err) \<in> set outcomes \<and> k' = retried clock k err k)"
    if k': "k' \<in> set (file_gc_tasks db')" for k'
  proof -
    from k' obtain k where k: "k \<in> set (file_gc_tasks db)" "settle clock outcomes k = Some k'"
      by (auto simp: tasks in_map_filter)
    from settle_cases [OF k(2)] inj mem k(1) show ?thesis by blast
  qed
qed

text \<open>
  C24: collecting files is safe and loses no work. When a drain commits, the only files that are gone are those of due
  tasks of the queue, at most a batch of them, and no other file changed. A task left the queue only with its file gone
  (or never there); every task in the queue afterwards is as it was, or it failed and its next attempt is 30 seconds to
  one hour away. The batch is exactly the oldest new tasks and the oldest due retries, in equal parts with the odd place
  for a new task; a stream with less to offer leaves its places to the other. So each stream has the oldest half batch,
  rounded down for the retries: a batch of one takes a retry only when there is no new task.
\<close>

theorem gc_drain_safe:
  assumes "drain_file_gc io clock limit db t = (Inr (res, db'), t')" and "gc_keys db"
    and "\<forall>k \<in> set (file_gc_tasks db). 0 \<le> gc_attempts k"
    and "batch = load_due_file_gc_tasks (utc_now clock) limit db"
  shows "length batch \<le> limit
    \<and> (\<forall>q. file_at q t' \<noteq> file_at q t \<longrightarrow> file_at q t' = None \<and> (\<exists>k \<in> set batch. path_parts (gc_path k) = q))
    \<and> (\<forall>k \<in> set (file_gc_tasks db). gc_id k \<notin> gc_id ` set (file_gc_tasks db') \<longrightarrow>
          k \<in> set batch \<and> file_at (path_parts (gc_path k)) t' = None)
    \<and> (\<forall>k' \<in> set (file_gc_tasks db'). k' \<in> set (file_gc_tasks db)
          \<or> (\<exists>k \<in> set batch. \<exists>err delay. k' = retried clock k err k \<and> gc_next_attempt k' = Some (utc_text (clock + delay))
                \<and> 30 \<le> delay \<and> delay \<le> 3600))
    \<and> set batch =
        set (take (max (Suc limit div 2) (limit - length (due_retries (utc_now clock) db))) (new_tasks db))
        \<union> set (take (max (limit div 2) (limit - length (new_tasks db))) (due_retries (utc_now clock) db))"
proof -
  from drain_file_gc_parts [OF assms(1,2)] obtain outcomes
    where rows: "map fst outcomes = batch"
      and files: "\<And>q. file_at q t' = (if \<exists>k. (k, None) \<in> set outcomes \<and> path_parts (gc_path k) = q then None else file_at q t)"
      and tasks: "file_gc_tasks db' = List.map_filter (settle clock outcomes) (file_gc_tasks db)"
    unfolding assms(4) by blast
  note due = due_tasks [OF assms(2,4)]
  note outs = settled [OF assms(2) rows [unfolded assms(4)] tasks]
  have mem: "k \<in> set batch" if "(k, e) \<in> set outcomes" for k e using that rows by force
  have gone: "k \<in> set batch \<and> file_at (path_parts (gc_path k)) t' = None"
    if "k \<in> set (file_gc_tasks db)" "gc_id k \<notin> gc_id ` set (file_gc_tasks db')" for k
    using outs(1) [OF that] mem by (auto simp: files)
  have kept: "k' \<in> set (file_gc_tasks db) \<or> (\<exists>k \<in> set batch. \<exists>err delay. k' = retried clock k err k
        \<and> gc_next_attempt k' = Some (utc_text (clock + delay)) \<and> 30 \<le> delay \<and> delay \<le> 3600)"
    if "k' \<in> set (file_gc_tasks db')" for k'
  proof -
    have "30 \<le> retry_seconds (gc_attempts k + 1) \<and> retry_seconds (gc_attempts k + 1) \<le> 3600"
      if "(k, e) \<in> set outcomes" for k e
      using assms(3) mem [OF that] due(1) by (intro retry_seconds_bounds) auto
    moreover have "gc_next_attempt (retried clock k err k) = Some (utc_text (clock + retry_seconds (gc_attempts k + 1)))" for k err
      by (simp add: retried_def)
    ultimately show ?thesis using outs(2) [OF that] mem by metis
  qed
  have only: "file_at q t' = None \<and> (\<exists>k \<in> set batch. path_parts (gc_path k) = q)" if "file_at q t' \<noteq> file_at q t" for q
    using that mem by (auto simp: files split: if_splits)
  show ?thesis
    using due(3) only gone kept due_exact [where limit = limit and db = db and now = "utc_now clock"] unfolding assms(4) [symmetric]
    by (intro conjI allI ballI impI) blast+
qed

section \<open>Witness\<close>

definition ex_stat :: file_stat where
  "ex_stat = \<lparr>st_dev = 1, st_ino = 2, st_mode = 33152, st_size = 3, st_mtime_ns = 5, st_ctime_ns = 5\<rparr>"

definition ex_gc_task :: "int \<Rightarrow> string \<Rightarrow> gc_task" where
  "ex_gc_task i p = \<lparr>gc_id = i, gc_path = p, gc_reason = ''retention'', gc_attempts = 0, gc_last_error = None, gc_next_attempt = None,
     gc_created_at = ''1'', gc_updated_at = ''1''\<rparr>"

text \<open>A file and a directory to be collected, and a file that is not.\<close>

definition ex_gc_db :: retention_db where
  "ex_gc_db = ex_retention\<lparr>file_gc_tasks := [ex_gc_task 1 ''raw/x'', ex_gc_task 2 ''raw/d'']\<rparr>"

definition ex_tree :: node where
  "ex_tree = Directory [(''raw'', Directory [(''x'', Regular ex_stat None), (''d'', Directory []), (''y'', Regular ex_stat None)])]"

definition ex_io :: io_env where
  "ex_io = \<lparr>unlink_error = (\<lambda>_. None), rmdir_refused = (\<lambda>_. False)\<rparr>"

definition ex_drained :: "(gc_result \<times> retention_db) \<times> node" where
  "ex_drained = apfst projr (drain_file_gc ex_io 69120000 5 ex_gc_db ex_tree)"

lemma ex_drain: "drain_file_gc ex_io 69120000 5 ex_gc_db ex_tree
    = (Inr (fst (fst ex_drained), snd (fst ex_drained)), snd ex_drained)"
proof -
  have "case fst (drain_file_gc ex_io 69120000 5 ex_gc_db ex_tree) of Inr _ \<Rightarrow> True | Inl _ \<Rightarrow> False" by code_simp
  then show ?thesis by (auto simp: ex_drained_def split: sum.splits intro: prod_eqI)
qed

lemma ex_gc_tasks: "gc_keys ex_gc_db" "ex_gc_task 1 ''raw/x'' \<in> set (file_gc_tasks ex_gc_db)"
  "\<forall>k \<in> set (file_gc_tasks ex_gc_db). 0 \<le> gc_attempts k"
  by (simp_all add: gc_keys_def ex_gc_db_def ex_gc_task_def)

lemma ex_gc_left: "gc_id ` set (file_gc_tasks (snd (fst ex_drained))) = {2}"
  by code_simp

theorem gc_drain_safe_witness:
  "length (load_due_file_gc_tasks (utc_now 69120000) 5 ex_gc_db) \<le> 5
     \<and> file_at [''raw'', ''x''] (snd ex_drained) = None"
proof -
  note safe = gc_drain_safe [OF ex_drain ex_gc_tasks(1,3) refl]
  have "gc_id (ex_gc_task 1 ''raw/x'') \<notin> gc_id ` set (file_gc_tasks (snd (fst ex_drained)))"
    unfolding ex_gc_left by (simp add: ex_gc_task_def)
  with safe ex_gc_tasks(2) have "file_at (path_parts (gc_path (ex_gc_task 1 ''raw/x''))) (snd ex_drained) = None" by blast
  moreover have "path_parts (gc_path (ex_gc_task 1 ''raw/x'')) = [''raw'', ''x'']" by code_simp
  ultimately show ?thesis using safe by simp
qed

end
