(* ===== verification/Artifact_Sweep.thy ===== *)
theory Artifact_Sweep
  imports File_Gc
begin

text \<open>
  Sweeping the storage directory (\<^verbatim>\<open>src/app/runtime.py\<close>, \<open>_sweep_retained_artifacts\<close>): a suspended
  walk hands out old regular files batch by batch; quarantined files go by age, other files only when neither
  the database nor a message in acceptance nor a manifest nor a quarantine record refers to them, and only
  when the file is still the one the walk saw.
\<close>

section \<open>The suspended walk\<close>

record candidate =
  storage_path :: string
  stat_signature :: file_stat

text \<open>
  The generator \<open>_iter_old_regular_artifacts\<close> between two calls of \<open>next\<close>: the categories and directories still to
  visit and the files of the current directory still to look at. Modification times are in nanoseconds; the cutoff
  is a whole number of seconds.
\<close>

record sweep_iter =
  it_categories :: "string list"
  it_cutoff :: int
  it_left :: "string list"
  it_stack :: "path list"
  it_dir :: path
  it_files :: "string list"

definition iter_old_regular_artifacts :: "string list \<Rightarrow> int \<Rightarrow> sweep_iter" where
  "iter_old_regular_artifacts categories cutoff =
     \<lparr>it_categories = categories, it_cutoff = cutoff, it_left = sort categories, it_stack = [], it_dir = [], it_files = []\<rparr>"

definition weight_at :: "node \<Rightarrow> path \<Rightarrow> nat" where
  "weight_at t p = (case lookup_node p t of None \<Rightarrow> 0 | Some n \<Rightarrow> node_weight n)"

definition iter_weight :: "node \<Rightarrow> sweep_iter \<Rightarrow> nat" where
  "iter_weight t it = length (it_files it) + sum_list (map (\<lambda>d. Suc (weight_at t d)) (it_stack it))
     + sum_list (map (\<lambda>c. Suc (Suc (weight_at t [c]))) (it_left it))"

lemma sum_names:
  "(\<Sum>x \<in> fst ` set es. f (the (map_of es x))) \<le> sum_list (map (\<lambda>e. f (snd e)) es)" for f :: "node \<Rightarrow> nat"
proof (induction es)
  case (Cons e es)
  let ?S = "fst ` set es"
  have "(\<Sum>x \<in> insert (fst e) ?S. f (the (map_of (e # es) x)))
      = f (snd e) + (\<Sum>x \<in> ?S - {fst e}. f (the (map_of (e # es) x)))"
    by (subst sum.insert_remove) simp_all
  also have "(\<Sum>x \<in> ?S - {fst e}. f (the (map_of (e # es) x))) = (\<Sum>x \<in> ?S - {fst e}. f (the (map_of es x)))"
    by (intro sum.cong) auto
  also have "\<dots> \<le> (\<Sum>x \<in> ?S. f (the (map_of es x)))" by (intro sum_mono2) auto
  finally show ?case using Cons by simp
qed simp

lemma map_of_name: "map_of es x = Some n \<Longrightarrow> x \<in> fst ` set es"
  by (metis domI dom_map_of_conv_image_fst)

lemma entry_names_set: "set (entry_names p es) = {x. \<exists>n. map_of es x = Some n \<and> p n}"
  by (auto simp: entry_names_def map_of_name split: option.splits)

lemma entry_names_distinct: "distinct (entry_names p es)"
  by (simp add: entry_names_def)

lemma visit_weight:
  "length (entry_names is_file_entry es)
     + sum_list (map (\<lambda>x. Suc (case map_of es x of None \<Rightarrow> 0 | Some n \<Rightarrow> node_weight n)) (entry_names is_directory es))
   \<le> node_weight (Directory es)"
proof -
  let ?F = "set (entry_names is_file_entry es)" and ?D = "set (entry_names is_directory es)"
  let ?w = "\<lambda>x. Suc (node_weight (the (map_of es x)))"
  have "sum_list (map (\<lambda>x. Suc (case map_of es x of None \<Rightarrow> 0 | Some n \<Rightarrow> node_weight n)) (entry_names is_directory es))
      = sum ?w ?D"
    using entry_names_set [of is_directory es]
    by (subst sum_list_distinct_conv_sum_set [OF entry_names_distinct]) (auto intro: sum.cong)
  moreover have "length (entry_names is_file_entry es) \<le> sum ?w ?F"
    using sum_mono [of ?F "\<lambda>_. 1 :: nat" ?w] distinct_card [OF entry_names_distinct [of is_file_entry es]] by simp
  moreover have "sum ?w ?F + sum ?w ?D \<le> sum ?w (fst ` set es)"
  proof -
    have "\<not> (is_file_entry n \<and> is_directory n)" for n by (cases n) (simp_all add: is_file_entry_def is_directory_def)
    then have "?F \<inter> ?D = {}" by (auto simp: entry_names_set)
    then have "sum ?w ?F + sum ?w ?D = sum ?w (?F \<union> ?D)" by (simp add: sum.union_disjoint)
    also have "\<dots> \<le> sum ?w (fst ` set es)"
      by (intro sum_mono2) (auto simp: entry_names_set map_of_name)
    finally show ?thesis .
  qed
  moreover have "sum ?w (fst ` set es) \<le> node_weight (Directory es)"
    using sum_names [of "\<lambda>n. Suc (node_weight n)" es] by simp
  ultimately show ?thesis by linarith
qed

lemma visit_less:
  assumes "lookup_node d t = Some (Directory es)" and "it_files it = []" and "it_stack it = d # ds"
  shows "iter_weight t (it\<lparr>it_dir := d, it_files := entry_names is_file_entry es,
      it_stack := map (\<lambda>x. d @ [x]) (entry_names is_directory es) @ ds\<rparr>) < iter_weight t it"
proof -
  have "weight_at t (d @ [x]) = (case map_of es x of None \<Rightarrow> 0 | Some n \<Rightarrow> node_weight n)" for x
    using assms(1) by (simp add: weight_at_def lookup_append split: option.splits)
  moreover have "weight_at t d = node_weight (Directory es)" using assms(1) by (simp add: weight_at_def)
  ultimately show ?thesis
    using visit_weight [of es] assms(2,3) by (simp add: iter_weight_def o_def)
qed

text \<open>
  One step of the walk. The code compares \<open>st_mtime\<close>, a floating point number of seconds, with the
  cutoff; here both are whole nanoseconds, so that a file within the rounding of that number around
  the cutoff may fall on the other side of it.
\<close>

function next_artifact :: "node \<Rightarrow> sweep_iter \<Rightarrow> (candidate \<times> sweep_iter) option" where
  "next_artifact t it =
     (case it_files it of
        f # fs \<Rightarrow>
          (let it' = it\<lparr>it_files := fs\<rparr>; p = it_dir it @ [f] in
           case file_at p t of
             Some (st, c) \<Rightarrow>
               if st_mtime_ns st \<ge> it_cutoff it then next_artifact t it'
               else Some (\<lparr>storage_path = as_posix p, stat_signature = st\<rparr>, it')
           | None \<Rightarrow> next_artifact t it')
      | [] \<Rightarrow>
          (case it_stack it of
             d # ds \<Rightarrow>
               (case lookup_node d t of
                  Some (Directory es) \<Rightarrow>
                    next_artifact t (it\<lparr>it_dir := d, it_files := entry_names is_file_entry es,
                      it_stack := map (\<lambda>x. d @ [x]) (entry_names is_directory es) @ ds\<rparr>)
                | _ \<Rightarrow> next_artifact t (it\<lparr>it_stack := ds\<rparr>))
           | [] \<Rightarrow>
               (case it_left it of
                  [] \<Rightarrow> None
                | c # cs \<Rightarrow> next_artifact t (it\<lparr>it_left := cs, it_stack := [[c]]\<rparr>))))"
  by pat_completeness auto
termination
  by (relation "measure (\<lambda>(t, it). iter_weight t it)") (use visit_less in \<open>auto simp: iter_weight_def\<close>)

declare next_artifact.simps [simp del]

text \<open>\<open>_select_artifact_sweep_candidates\<close>: the walks are kept by cursor name until they end.\<close>

fun take_candidates :: "nat \<Rightarrow> node \<Rightarrow> sweep_iter \<Rightarrow> candidate list \<times> sweep_iter option" where
  "take_candidates 0 t it = ([], Some it)"
| "take_candidates (Suc n) t it =
     (case next_artifact t it of
        None \<Rightarrow> ([], None)
      | Some (c, it') \<Rightarrow> (let (cs, rest) = take_candidates n t it' in (c # cs, rest)))"

type_synonym iterators = "string \<rightharpoonup> sweep_iter"

definition sweep_iterator :: "string list \<Rightarrow> int \<Rightarrow> string \<Rightarrow> iterators \<Rightarrow> sweep_iter" where
  "sweep_iterator categories cutoff cursor_name its =
     (case its cursor_name of
        Some it \<Rightarrow> if it_categories it = categories then it else iter_old_regular_artifacts categories cutoff
      | None \<Rightarrow> iter_old_regular_artifacts categories cutoff)"

definition select_artifact_sweep_candidates ::
  "string list \<Rightarrow> int \<Rightarrow> nat \<Rightarrow> string \<Rightarrow> node \<Rightarrow> iterators \<Rightarrow> candidate list \<times> iterators" where
  "select_artifact_sweep_candidates categories cutoff limit cursor_name t its =
     (let (selected, rest) = take_candidates limit t (sweep_iterator categories cutoff cursor_name its)
      in (selected, its(cursor_name := rest)))"

definition close_artifact_sweep_iterator :: "string \<Rightarrow> iterators \<Rightarrow> iterators" where
  "close_artifact_sweep_iterator cursor_name its = its(cursor_name := None)"

definition reset_artifact_sweep_iterators :: "iterators \<Rightarrow> iterators" where
  "reset_artifact_sweep_iterators its = (\<lambda>_. None)"

section \<open>Walking at once\<close>

text \<open>The files of a directory in the order of \<open>os.walk\<close> with sorted names.\<close>

lemma child_weight:
  assumes "map_of es x = Some n"
  shows "node_weight n < node_weight (Directory es)"
proof -
  have "Suc (node_weight n) \<in> set (map (\<lambda>e. Suc (node_weight (snd e))) es)"
    using map_of_SomeD [OF assms] by force
  from member_le_sum_list [OF this] show ?thesis by simp
qed

function walk_files :: "path \<Rightarrow> node \<Rightarrow> path list" where
  "walk_files p (Directory es) =
     map (\<lambda>x. p @ [x]) (entry_names is_file_entry es)
     @ concat (map (\<lambda>x. case map_of es x of Some n \<Rightarrow> walk_files (p @ [x]) n | None \<Rightarrow> []) (entry_names is_directory es))"
| "walk_files p (Regular st c) = []"
| "walk_files p (Special d) = []"
  by pat_completeness auto
termination
  by (relation "measure (\<lambda>(p, n). node_weight n)") (use child_weight in auto)

definition walk_at :: "node \<Rightarrow> path \<Rightarrow> path list" where
  "walk_at t p = (case lookup_node p t of Some n \<Rightarrow> walk_files p n | None \<Rightarrow> [])"

section \<open>What protects a file\<close>

definition artifact_message_id :: "string \<Rightarrow> string option" where
  "artifact_message_id s =
     (let parts = path_parts s in
      if 3 \<le> length parts \<and> parts ! 0 = ''attachments'' then Some (parts ! 1)
      else if 2 \<le> length parts \<and> parts ! 0 \<in> {''raw'', ''text'', ''html''} then Some (path_stem (last parts))
      else None)"

text \<open>The paths in the columns the sweep asks for.\<close>

definition database_paths :: "retention_db \<Rightarrow> string list" where
  "database_paths db =
     map raw_path (messages (mail db)) @ List.map_filter text_body_path (messages (mail db))
     @ List.map_filter html_body_path (messages (mail db)) @ map att_storage_path (attachments db)
     @ map gc_path (file_gc_tasks db)"

definition database_artifact_references :: "retention_db \<Rightarrow> string list \<Rightarrow> string list" where
  "database_artifact_references db candidate_paths = filter (\<lambda>p. p \<in> set (database_paths db)) candidate_paths"

definition MAX_MANIFEST_SWEEP_BYTES :: int where
  "MAX_MANIFEST_SWEEP_BYTES = 16 * 1024 * 1024"

text \<open>\<open>_read_storage_file_no_follow\<close>: the text of a bounded regular file.\<close>

definition read_storage_file_no_follow :: "string \<Rightarrow> int \<Rightarrow> node \<Rightarrow> content result" where
  "read_storage_file_no_follow s bound t =
     bindR (open_storage_parent_no_follow s t) (\<lambda>(dir, name).
       case lookup_node (dir @ [name]) t of
         None \<Rightarrow> Inl (FileNotFoundError s)
       | Some (Special d) \<Rightarrow> Inl (OSError ''Too many levels of symbolic links'')
       | Some (Directory es) \<Rightarrow> Inl (ValueError ''storage file is not a bounded regular file'')
       | Some (Regular st c) \<Rightarrow>
           if st_size st > bound then Inl (ValueError ''storage file is not a bounded regular file'')
           else Inr c)"

definition json_get :: "json \<Rightarrow> string \<Rightarrow> json" where
  "json_get j k = (case j of JObject kvs \<Rightarrow> (case map_of kvs k of Some v \<Rightarrow> v | None \<Rightarrow> JNull) | _ \<Rightarrow> JNull)"

definition is_object :: "json \<Rightarrow> bool" where
  "is_object j = (case j of JObject _ \<Rightarrow> True | _ \<Rightarrow> False)"

definition manifest_values :: "json \<Rightarrow> json list" where
  "manifest_values payload =
     json_get payload ''raw_path'' #
     (let parsed = json_get payload ''parsed'' in
      if is_object parsed then
        json_get parsed ''text_body_path'' # json_get parsed ''html_body_path'' #
        (case json_get parsed ''attachments'' of
           JArray items \<Rightarrow> map (\<lambda>i. json_get i ''storage_path'') (filter is_object items)
         | _ \<Rightarrow> [])
      else [])"

definition value_reference :: "json \<Rightarrow> string option" where
  "value_reference v =
     (case v of
        JString s \<Rightarrow>
          if s = [] \<or> is_absolute s \<or> ''..'' \<in> set (path_parts s) then None else Some (as_posix (path_parts s))
      | _ \<Rightarrow> None)"

definition read_manifest_artifact_references :: "string \<Rightarrow> node \<Rightarrow> string list result" where
  "read_manifest_artifact_references s t =
     bindR (read_storage_file_no_follow s MAX_MANIFEST_SWEEP_BYTES t) (\<lambda>c.
       case c of
         None \<Rightarrow> Inl (ValueError ''json'')
       | Some payload \<Rightarrow>
           if is_object payload then Inr (List.map_filter value_reference (manifest_values payload))
           else Inl (ValueError ''manifest is not an object''))"

text \<open>The first manifest of each message, in the order of the walk.\<close>

fun match_names :: "string list \<Rightarrow> path list \<Rightarrow> (string \<times> string) list" where
  "match_names expected [] = []"
| "match_names expected (p # ps) =
     (case find (\<lambda>m. last p = m @ ''.json'') expected of
        Some m \<Rightarrow> (as_posix p, m) # match_names (removeAll m expected) ps
      | None \<Rightarrow> match_names expected ps)"

definition matching_manifest_paths :: "string list \<Rightarrow> node \<Rightarrow> (string \<times> string) list" where
  "matching_manifest_paths message_ids t = match_names message_ids (walk_at t [''manifests''])"

text \<open>The manifest of a raw, text or html file: it has the date of the file in its path.\<close>

definition manifest_of :: "path \<Rightarrow> string \<Rightarrow> string" where
  "manifest_of parts m = as_posix [''manifests'', parts ! 1, parts ! 2, parts ! 3, m @ ''.json'']"

text \<open>\<open>(manifest path, artifact path)\<close> for every manifest that may own a candidate.\<close>

definition manifest_candidates :: "string list \<Rightarrow> node \<Rightarrow> (string \<times> string) list" where
  "manifest_candidates candidate_paths t =
     (let with_id = List.map_filter (\<lambda>s. map_option (\<lambda>m. (s, m)) (artifact_message_id s)) candidate_paths;
          dated = List.map_filter (\<lambda>(s, m). let parts = path_parts s in
            if parts ! 0 \<noteq> ''attachments'' \<and> 5 \<le> length parts
            then Some (manifest_of parts m, s) else None) with_id;
          attachment_message_ids = remdups (map snd (filter (\<lambda>(s, m). path_parts s ! 0 = ''attachments'') with_id));
          found = concat (map (\<lambda>(mp, m). map (\<lambda>(s, _). (mp, s)) (filter (\<lambda>(s, m'). m' = m) with_id))
            (matching_manifest_paths attachment_message_ids t))
      in dated @ found)"

definition is_not_found :: "exn \<Rightarrow> bool" where
  "is_not_found e = (case e of FileNotFoundError _ \<Rightarrow> True | _ \<Rightarrow> False)"

definition manifest_artifact_references :: "string list \<Rightarrow> node \<Rightarrow> string list" where
  "manifest_artifact_references candidate_paths t =
     concat (map (\<lambda>(mp, s).
       case read_manifest_artifact_references mp t of
         Inl e \<Rightarrow> if is_not_found e then [] else [s]
       | Inr refs \<Rightarrow> filter (\<lambda>p. p \<in> set refs) candidate_paths) (manifest_candidates candidate_paths t))"

definition remove_suffix :: "string \<Rightarrow> string \<Rightarrow> string" where
  "remove_suffix suf s = (if ends_with s suf then take (length s - length suf) s else s)"

definition quarantine_stem :: "string \<Rightarrow> string" where
  "quarantine_stem file_name = remove_suffix ''.error'' (remove_suffix ''.json'' file_name)"

definition quarantine_names :: "string \<Rightarrow> string \<Rightarrow> bool" where
  "quarantine_names file_name m =
     (ends_with file_name ''.json''
      \<and> (let stem = quarantine_stem file_name in stem = m \<or> take (length m + 1) stem = m @ ''-''))"

definition matching_quarantine_paths :: "string list \<Rightarrow> node \<Rightarrow> (string \<times> string list) list" where
  "matching_quarantine_paths message_ids t =
     filter (\<lambda>(p, ms). ms \<noteq> [])
       (map (\<lambda>p. (as_posix p, filter (quarantine_names (last p)) message_ids)) (walk_at t [''quarantine'']))"

definition quarantine_artifact_references :: "string list \<Rightarrow> node \<Rightarrow> string list" where
  "quarantine_artifact_references candidate_paths t =
     (let message_ids = remdups (List.map_filter artifact_message_id candidate_paths)
      in concat (map (\<lambda>(qp, ms).
           case read_manifest_artifact_references qp t of
             Inl e \<Rightarrow> filter (\<lambda>s. case artifact_message_id s of Some m \<Rightarrow> m \<in> set ms | None \<Rightarrow> False) candidate_paths
           | Inr refs \<Rightarrow> filter (\<lambda>p. p \<in> set refs) candidate_paths) (matching_quarantine_paths message_ids t)))"

text \<open>
  \<open>_protected_artifact_paths\<close>: the quarantine records are read from the tree \<open>tq\<close>, the manifests later
  from \<open>tm\<close>.
\<close>

definition protected_artifact_paths ::
  "retention_db \<Rightarrow> string list \<Rightarrow> string list \<Rightarrow> node \<Rightarrow> node \<Rightarrow> string list" where
  "protected_artifact_paths db active_ids paths tq tm =
     (let candidate_paths = remdups paths;
          in_use = database_artifact_references db candidate_paths
            @ filter (\<lambda>s. case artifact_message_id s of Some m \<Rightarrow> m \<in> set active_ids | None \<Rightarrow> False) candidate_paths;
          quarantined = quarantine_artifact_references (filter (\<lambda>s. s \<notin> set in_use) candidate_paths) tq;
          manifested = manifest_artifact_references (filter (\<lambda>s. s \<notin> set (in_use @ quarantined)) candidate_paths) tm
      in remdups (in_use @ quarantined @ manifested))"

section \<open>The sweep\<close>

definition safe_unlink_sweep_candidate :: "io_env \<Rightarrow> candidate \<Rightarrow> node \<Rightarrow> bool result \<times> node" where
  "safe_unlink_sweep_candidate io c t =
     (case open_storage_parent_no_follow (storage_path c) t of
        Inl e \<Rightarrow> (Inl e, t)
      | Inr (dir, name) \<Rightarrow>
          (case lookup_node (dir @ [name]) t of
             Some (Regular st txt) \<Rightarrow>
               if st \<noteq> stat_signature c then (Inr False, t)
               else (case unlink_error io (dir @ [name]) of
                       Some e \<Rightarrow> (Inl e, t)
                     | None \<Rightarrow> (Inr True, remove_node (dir @ [name]) t))
           | _ \<Rightarrow> (Inr False, t)))"

definition is_os_error :: "exn \<Rightarrow> bool" where
  "is_os_error e = (case e of OSError _ \<Rightarrow> True | FileNotFoundError _ \<Rightarrow> True | _ \<Rightarrow> False)"

text \<open>
  The loop over the candidates: deleted and failed. \<open>others k\<close> is what other threads and processes do to
  the tree before the k-th candidate; the comparison of the signature and the unlink are one step.
\<close>

fun unlink_candidates ::
  "io_env \<Rightarrow> (nat \<Rightarrow> node \<Rightarrow> node) \<Rightarrow> candidate list \<Rightarrow> node \<Rightarrow> (nat \<times> nat) result \<times> node" where
  "unlink_candidates io others [] t = (Inr (0, 0), t)"
| "unlink_candidates io others (c # cs) t =
     (case safe_unlink_sweep_candidate io c (others 0 t) of
        (Inl e, t1) \<Rightarrow>
          if is_os_error e
          then (case unlink_candidates io (\<lambda>k. others (Suc k)) cs t1 of (r, t2) \<Rightarrow> (bindR r (\<lambda>(d, f). Inr (d, Suc f)), t2))
          else (Inl e, t1)
      | (Inr b, t1) \<Rightarrow>
          (case unlink_candidates io (\<lambda>k. others (Suc k)) cs t1 of (r, t2) \<Rightarrow> (bindR r (\<lambda>(d, f). Inr (of_bool b + d, f)), t2)))"

record sweep_settings =
  artifact_sweep_batch_size :: nat
  quarantine_retention_days :: int
  orphan_artifact_grace_seconds :: int

record sweep_result =
  quarantine_files_deleted :: nat
  quarantine_files_failed :: nat
  quarantine_files_examined :: nat
  orphan_artifacts_deleted :: nat
  orphan_artifacts_failed :: nat
  orphan_artifacts_examined :: nat
  orphan_artifacts_protected :: nat

text \<open>\<open>_timestamp_epoch\<close>: seconds since 1970; the calendar of the model counts from the year 1.\<close>

definition timestamp_epoch :: "string \<Rightarrow> int result" where
  "timestamp_epoch s = (case parse_utc s of None \<Rightarrow> Inl (ValueError ''Invalid isoformat string'') | Some k \<Rightarrow> Inr (k - 62135596800))"

definition nanoseconds :: "int \<Rightarrow> int" where
  "nanoseconds seconds = seconds * 1000000000"

text \<open>
  The sweep and what happens around it: \<open>sw_quarantine_others k\<close> is what others do to the tree before the
  k-th quarantined file is removed; \<open>sw_others\<close> what they do between selecting the orphans and reading the
  quarantine records (0), before reading the manifests (1), and before the k-th orphan is removed (\<open>k + 2\<close>).
\<close>

record sweep_env =
  sw_io :: io_env
  sw_quarantine_others :: "nat \<Rightarrow> node \<Rightarrow> node"
  sw_others :: "nat \<Rightarrow> node \<Rightarrow> node"
  sw_active_ids :: "string list"

definition sweep_quarantine ::
  "sweep_settings \<Rightarrow> sweep_env \<Rightarrow> int \<Rightarrow> node \<Rightarrow> iterators \<Rightarrow> ((nat \<times> nat \<times> nat) result \<times> node) \<times> iterators" where
  "sweep_quarantine cfg env now_epoch t its =
     (let cutoff = nanoseconds (now_epoch - quarantine_retention_days cfg * 86400);
          (cands, its1) = select_artifact_sweep_candidates [''quarantine''] cutoff (artifact_sweep_batch_size cfg) ''quarantine'' t its;
          (r, t1) = unlink_candidates (sw_io env) (sw_quarantine_others env) cands t
      in ((bindR r (\<lambda>(d, f). Inr (d, f, length cands)), t1), its1))"

definition orphan_categories :: "string list" where
  "orphan_categories = [''attachments'', ''html'', ''raw'', ''text'']"

definition sweep_orphans ::
  "sweep_settings \<Rightarrow> sweep_env \<Rightarrow> int \<Rightarrow> retention_db \<Rightarrow> node \<Rightarrow> iterators
     \<Rightarrow> ((nat \<times> nat \<times> nat \<times> nat) result \<times> node) \<times> iterators" where
  "sweep_orphans cfg env now_epoch db t its =
     (let cutoff = nanoseconds (now_epoch - orphan_artifact_grace_seconds cfg);
          (cands, its1) = select_artifact_sweep_candidates orphan_categories cutoff (artifact_sweep_batch_size cfg) ''orphan'' t its;
          tq = sw_others env 0 t; tm = sw_others env 1 tq;
          protected = protected_artifact_paths db (sw_active_ids env) (map storage_path cands) tq tm;
          (r, t3) = unlink_candidates (sw_io env) (\<lambda>k. sw_others env (k + 2))
            (filter (\<lambda>c. storage_path c \<notin> set protected) cands) tm
      in ((bindR r (\<lambda>(d, f). Inr (d, f, length cands, length protected)), t3), its1))"

definition sweep_retained_artifacts ::
  "sweep_settings \<Rightarrow> sweep_env \<Rightarrow> string \<Rightarrow> retention_db \<Rightarrow> node \<Rightarrow> iterators
     \<Rightarrow> (sweep_result result \<times> node) \<times> iterators" where
  "sweep_retained_artifacts cfg env now db t its =
     (case timestamp_epoch now of
        Inl e \<Rightarrow> ((Inl e, t), its)
      | Inr now_epoch \<Rightarrow>
          (case sweep_quarantine cfg env now_epoch t its of
             ((Inl e, t1), its1) \<Rightarrow> ((Inl e, t1), its1)
           | ((Inr (qd, qf, qe), t1), its1) \<Rightarrow>
               (case sweep_orphans cfg env now_epoch db t1 its1 of
                  ((r, t2), its2) \<Rightarrow>
                    ((bindR r (\<lambda>(od, ofl, oe, opr). Inr
                        \<lparr>quarantine_files_deleted = qd, quarantine_files_failed = qf, quarantine_files_examined = qe,
                         orphan_artifacts_deleted = od, orphan_artifacts_failed = ofl, orphan_artifacts_examined = oe,
                         orphan_artifacts_protected = opr\<rparr>), t2), its2))))"

section \<open>The walk hands out the reference walk\<close>

definition old_candidate :: "node \<Rightarrow> int \<Rightarrow> path \<Rightarrow> candidate option" where
  "old_candidate t cutoff p =
     (case file_at p t of
        Some (st, c) \<Rightarrow> if st_mtime_ns st \<ge> cutoff then None else Some \<lparr>storage_path = as_posix p, stat_signature = st\<rparr>
      | None \<Rightarrow> None)"

text \<open>What a suspended walk has still to hand out, if the tree does not change.\<close>

definition remaining :: "node \<Rightarrow> sweep_iter \<Rightarrow> candidate list" where
  "remaining t it = List.map_filter (old_candidate t (it_cutoff it))
     (map (\<lambda>f. it_dir it @ [f]) (it_files it) @ concat (map (walk_at t) (it_stack it))
      @ concat (map (\<lambda>c. walk_at t [c]) (it_left it)))"

lemma walk_at_visit:
  assumes "lookup_node d t = Some (Directory es)"
  shows "walk_at t d = map (\<lambda>x. d @ [x]) (entry_names is_file_entry es)
      @ concat (map (\<lambda>x. walk_at t (d @ [x])) (entry_names is_directory es))"
  using assms by (simp add: walk_at_def lookup_append option.case_distrib cong: option.case_cong)

lemma walk_at_other:
  assumes "\<nexists>es. lookup_node d t = Some (Directory es)"
  shows "walk_at t d = []"
  using assms by (auto simp: walk_at_def split: option.splits) (case_tac x2; simp)

lemma map_filter_append: "List.map_filter f (xs @ ys) = List.map_filter f xs @ List.map_filter f ys"
  by (simp add: List.map_filter_def)

text \<open>The steps of the walk that hand out nothing.\<close>

lemma next_artifact_skip:
  "it_files it = f # fs \<Longrightarrow> old_candidate t (it_cutoff it) (it_dir it @ [f]) = None
     \<Longrightarrow> next_artifact t it = next_artifact t (it\<lparr>it_files := fs\<rparr>)"
  "it_files it = [] \<Longrightarrow> it_stack it = d # ds \<Longrightarrow> lookup_node d t = Some (Directory es)
     \<Longrightarrow> next_artifact t it = next_artifact t (it\<lparr>it_dir := d, it_files := entry_names is_file_entry es,
            it_stack := map (\<lambda>x. d @ [x]) (entry_names is_directory es) @ ds\<rparr>)"
  "it_files it = [] \<Longrightarrow> it_stack it = d # ds \<Longrightarrow> \<nexists>es. lookup_node d t = Some (Directory es)
     \<Longrightarrow> next_artifact t it = next_artifact t (it\<lparr>it_stack := ds\<rparr>)"
  "it_files it = [] \<Longrightarrow> it_stack it = [] \<Longrightarrow> it_left it = c # cs
     \<Longrightarrow> next_artifact t it = next_artifact t (it\<lparr>it_left := cs, it_stack := [[c]]\<rparr>)"
  by (subst next_artifact.simps, auto simp: old_candidate_def Let_def split: option.splits node.splits if_splits)+

lemma next_artifact_found:
  assumes "it_files it = f # fs" and "old_candidate t (it_cutoff it) (it_dir it @ [f]) = Some c"
  shows "next_artifact t it = Some (c, it\<lparr>it_files := fs\<rparr>)"
  using assms by (subst next_artifact.simps) (auto simp: old_candidate_def Let_def split: option.splits if_splits)

text \<open>Induction along one call of \<open>next\<close>.\<close>

lemma iter_induct [case_names skip found visit missing category finished]:
  fixes P :: "sweep_iter \<Rightarrow> bool"
  assumes skip: "\<And>it f fs. it_files it = f # fs \<Longrightarrow> old_candidate t (it_cutoff it) (it_dir it @ [f]) = None
      \<Longrightarrow> P (it\<lparr>it_files := fs\<rparr>) \<Longrightarrow> P it"
    and found: "\<And>it f fs c. it_files it = f # fs \<Longrightarrow> old_candidate t (it_cutoff it) (it_dir it @ [f]) = Some c \<Longrightarrow> P it"
    and visit: "\<And>it d ds es. it_files it = [] \<Longrightarrow> it_stack it = d # ds \<Longrightarrow> lookup_node d t = Some (Directory es)
      \<Longrightarrow> P (it\<lparr>it_dir := d, it_files := entry_names is_file_entry es,
            it_stack := map (\<lambda>x. d @ [x]) (entry_names is_directory es) @ ds\<rparr>) \<Longrightarrow> P it"
    and missing: "\<And>it d ds. it_files it = [] \<Longrightarrow> it_stack it = d # ds \<Longrightarrow> \<nexists>es. lookup_node d t = Some (Directory es)
      \<Longrightarrow> P (it\<lparr>it_stack := ds\<rparr>) \<Longrightarrow> P it"
    and cat: "\<And>it c cs. it_files it = [] \<Longrightarrow> it_stack it = [] \<Longrightarrow> it_left it = c # cs
      \<Longrightarrow> P (it\<lparr>it_left := cs, it_stack := [[c]]\<rparr>) \<Longrightarrow> P it"
    and finished: "\<And>it. it_files it = [] \<Longrightarrow> it_stack it = [] \<Longrightarrow> it_left it = [] \<Longrightarrow> P it"
  shows "P it"
proof (induction "iter_weight t it" arbitrary: it rule: less_induct)
  case less
  consider f fs where "it_files it = f # fs" | d ds where "it_files it = []" "it_stack it = d # ds"
    | c cs where "it_files it = []" "it_stack it = []" "it_left it = c # cs"
    | "it_files it = []" "it_stack it = []" "it_left it = []"
    by (metis list.exhaust)
  then show ?case
  proof cases
    case (1 f fs)
    have "P (it\<lparr>it_files := fs\<rparr>)" by (rule less) (simp add: iter_weight_def 1)
    with 1 skip found show ?thesis by (cases "old_candidate t (it_cutoff it) (it_dir it @ [f])") blast+
  next
    case (2 d ds)
    show ?thesis
    proof (cases "\<exists>es. lookup_node d t = Some (Directory es)")
      case True
      then obtain es where es: "lookup_node d t = Some (Directory es)" by blast
      from visit [OF 2 es less [OF visit_less [OF es 2]]] show ?thesis .
    next
      case False
      have "P (it\<lparr>it_stack := ds\<rparr>)" by (rule less) (simp add: iter_weight_def 2)
      with missing [OF 2 False] show ?thesis .
    qed
  next
    case (3 c cs)
    have "P (it\<lparr>it_left := cs, it_stack := [[c]]\<rparr>)" by (rule less) (simp add: iter_weight_def 3)
    with cat [OF 3] show ?thesis .
  next
    case 4
    then show ?thesis by (rule finished)
  qed
qed

lemma next_artifact_finished:
  "it_files it = [] \<Longrightarrow> it_stack it = [] \<Longrightarrow> it_left it = [] \<Longrightarrow> next_artifact t it = None"
  by (simp add: next_artifact.simps)

lemmas next_artifact_steps = next_artifact_skip next_artifact_found next_artifact_finished

lemma next_artifact_remaining:
  "case next_artifact t it of
     None \<Rightarrow> remaining t it = []
   | Some (c, it') \<Rightarrow> remaining t it = c # remaining t it'"
proof (induction it rule: iter_induct [where t = t])
  case (visit it d ds es)
  have "remaining t it = remaining t (it\<lparr>it_dir := d, it_files := entry_names is_file_entry es,
      it_stack := map (\<lambda>x. d @ [x]) (entry_names is_directory es) @ ds\<rparr>)"
    using visit walk_at_visit [of d t es] by (simp add: remaining_def o_def)
  with visit.IH next_artifact_skip(2) [OF visit.hyps(1-3)] show ?case by (simp split: option.splits prod.splits)
next
  case (skip it f fs)
  have "remaining t it = remaining t (it\<lparr>it_files := fs\<rparr>)"
    using skip.hyps by (simp add: remaining_def List.map_filter_simps)
  with skip.IH next_artifact_skip(1) [OF skip.hyps] show ?case by (simp split: option.splits prod.splits)
next
  case (found it f fs c)
  then show ?case by (simp add: next_artifact_found remaining_def List.map_filter_simps)
next
  case (missing it d ds)
  have "remaining t it = remaining t (it\<lparr>it_stack := ds\<rparr>)"
    using missing.hyps walk_at_other by (simp add: remaining_def)
  with missing.IH next_artifact_skip(3) [OF missing.hyps] show ?case by (simp split: option.splits prod.splits)
next
  case (category it c cs)
  have "remaining t it = remaining t (it\<lparr>it_left := cs, it_stack := [[c]]\<rparr>)"
    using category.hyps by (simp add: remaining_def)
  with category.IH next_artifact_skip(4) [OF category.hyps] show ?case by (simp split: option.splits prod.splits)
next
  case (finished it)
  then show ?case by (simp add: next_artifact_finished remaining_def List.map_filter_simps)
qed

lemma take_candidates_spec:
  "fst (take_candidates n t it) = take n (remaining t it)
   \<and> (case snd (take_candidates n t it) of
        None \<Rightarrow> length (remaining t it) < n
      | Some it' \<Rightarrow> n \<le> length (remaining t it) \<and> remaining t it' = drop n (remaining t it))"
proof (induction n arbitrary: it)
  case (Suc n)
  show ?case
  proof (cases "next_artifact t it")
    case None
    with next_artifact_remaining [of t it] show ?thesis by simp
  next
    case (Some cit)
    obtain c it' where cit: "cit = (c, it')" by (cases cit) blast
    with Some next_artifact_remaining [of t it] have "remaining t it = c # remaining t it'" by simp
    with Suc.IH [of it'] show ?thesis by (auto simp: Some cit case_prod_unfold split: option.splits)
  qed
qed simp

text \<open>
  C26: the suspended walk is the reference walk. A batch takes the next \<open>n\<close> old regular files, in the order of a full
  walk over the sorted categories, from where the last batch stopped; the walk is forgotten exactly when a batch
  finds fewer than \<open>n\<close>. So on an unchanged tree the batches of a pass together are the full walk, nothing twice.
\<close>

theorem sweep_pass_exact:
  "fst (take_candidates n t it) = take n (remaining t it)
   \<and> (case snd (take_candidates n t it) of
        None \<Rightarrow> length (remaining t it) < n
      | Some it' \<Rightarrow> n \<le> length (remaining t it) \<and> remaining t it' = drop n (remaining t it))
   \<and> remaining t (iter_old_regular_artifacts categories cutoff) =
        List.map_filter (old_candidate t cutoff) (concat (map (\<lambda>c. walk_at t [c]) (sort categories)))"
  using take_candidates_spec [of n t it] by (simp add: remaining_def iter_old_regular_artifacts_def)

section \<open>What the sweep deletes\<close>

lemma file_at_Regular: "lookup_node p t = Some (Regular st c) \<Longrightarrow> file_at p t = Some (st, c)"
  by (simp add: file_at_def)

lemma sweep_unlink_files:
  assumes "safe_unlink_sweep_candidate io c t = (r, t')"
  shows "file_at q t' = (if r = Inr True \<and> q = path_parts (storage_path c) then None else file_at q t)"
    and "r = Inr True \<Longrightarrow> \<exists>txt. file_at (path_parts (storage_path c)) t = Some (stat_signature c, txt)"
proof -
  have "file_at q t' = (if r = Inr True \<and> q = path_parts (storage_path c) then None else file_at q t)
    \<and> (r = Inr True \<longrightarrow> (\<exists>txt. file_at (path_parts (storage_path c)) t = Some (stat_signature c, txt)))"
  proof (cases "open_storage_parent_no_follow (storage_path c) t")
    case (Inr dn)
    obtain dir name where dn: "dn = (dir, name)" by (cases dn) blast
    note parts = open_parent_ok(1) [OF Inr [unfolded dn]]
    show ?thesis
    proof (cases "lookup_node (dir @ [name]) t")
      case (Some n)
      with assms Inr dn parts show ?thesis
        by (cases n) (auto simp: safe_unlink_sweep_candidate_def file_at_unlink file_at_Regular split: option.splits if_splits)
    qed (use assms Inr dn in \<open>auto simp: safe_unlink_sweep_candidate_def\<close>)
  qed (use assms in \<open>auto simp: safe_unlink_sweep_candidate_def\<close>)
  then show "file_at q t' = (if r = Inr True \<and> q = path_parts (storage_path c) then None else file_at q t)"
    "r = Inr True \<Longrightarrow> \<exists>txt. file_at (path_parts (storage_path c)) t = Some (stat_signature c, txt)"
    by blast+
qed

text \<open>The trees right before and right after each candidate of the loop.\<close>

fun unlink_steps :: "io_env \<Rightarrow> (nat \<Rightarrow> node \<Rightarrow> node) \<Rightarrow> candidate list \<Rightarrow> node \<Rightarrow> (node \<times> node) list" where
  "unlink_steps io others [] t = []"
| "unlink_steps io others (c # cs) t =
     (case safe_unlink_sweep_candidate io c (others 0 t) of (r, t1) \<Rightarrow>
        (others 0 t, t1) #
          (case r of Inl e \<Rightarrow> if is_os_error e then unlink_steps io (\<lambda>k. others (Suc k)) cs t1 else []
           | Inr _ \<Rightarrow> unlink_steps io (\<lambda>k. others (Suc k)) cs t1))"

lemma unlink_steps_last:
  "snd (unlink_candidates io others cs t) = (if unlink_steps io others cs t = [] then t else snd (last (unlink_steps io others cs t)))"
  by (induction cs arbitrary: others t) (auto simp: case_prod_unfold split: sum.splits)

text \<open>The change of one file by a step of the loop.\<close>

lemma unlink_steps_files:
  assumes "(b, a) \<in> set (unlink_steps io others cs t)" and "file_at q a \<noteq> file_at q b"
  shows "file_at q a = None \<and> (\<exists>c \<in> set cs. path_parts (storage_path c) = q \<and> (\<exists>txt. file_at q b = Some (stat_signature c, txt)))"
  using assms(1)
proof (induction cs arbitrary: others t)
  case (Cons c cs)
  obtain r1 t1 where u: "safe_unlink_sweep_candidate io c (others 0 t) = (r1, t1)"
    by (cases "safe_unlink_sweep_candidate io c (others 0 t)")
  from Cons.prems u have "(b, a) = (others 0 t, t1) \<or> (b, a) \<in> set (unlink_steps io (\<lambda>k. others (Suc k)) cs t1)"
    by (auto split: sum.splits if_splits)
  then show ?case
  proof
    assume "(b, a) = (others 0 t, t1)"
    then show ?thesis using assms(2) sweep_unlink_files(1) [OF u, of q] sweep_unlink_files(2) [OF u] by (auto split: if_splits)
  next
    assume "(b, a) \<in> set (unlink_steps io (\<lambda>k. others (Suc k)) cs t1)"
    from Cons.IH [OF this] show ?thesis by auto
  qed
qed simp

text \<open>Names a file system can hold; the text of a path then tells the path.\<close>

definition name_ok :: "string \<Rightarrow> bool" where
  "name_ok x \<longleftrightarrow> x \<noteq> [] \<and> x \<noteq> ''.'' \<and> x \<noteq> ''..'' \<and> slash \<notin> set x"

fun tree_ok :: "node \<Rightarrow> bool" where
  "tree_ok (Directory es) \<longleftrightarrow> (\<forall>e \<in> set es. name_ok (fst e) \<and> tree_ok (snd e))"
| "tree_ok _ \<longleftrightarrow> True"

lemma tree_ok_lookup: "tree_ok t \<Longrightarrow> lookup_node p t = Some n \<Longrightarrow> \<forall>x \<in> set p. name_ok x"
proof (induction p t rule: lookup_node.induct)
  case (2 x p es)
  then obtain m where m: "map_of es x = Some m" "lookup_node p m = Some n" by (auto split: option.splits)
  have "(x, m) \<in> set es" using m(1) by (rule map_of_SomeD)
  with 2 m show ?case by force
qed auto

lemma split_join:
  assumes "ws \<noteq> []" and "\<forall>w \<in> set ws. d \<notin> set w"
  shows "split_by (\<lambda>c. c = d) (join_with d ws) = ws"
  using assms
proof (induction d ws rule: join_with.induct)
  case (2 d w)
  then show ?case by (auto simp: list_all_iff intro!: split_by_none)
next
  case (3 d w v ws)
  have "split_by (\<lambda>c. c = d) (w @ d # s) = w # split_by (\<lambda>c. c = d) s" if "d \<notin> set w" for s
    using that by (induction w) auto
  with 3 show ?case by simp
qed simp

lemma path_parts_posix:
  assumes "p \<noteq> []" and "\<forall>x \<in> set p. name_ok x"
  shows "path_parts (as_posix p) = p"
proof -
  have "split_by (\<lambda>c. c = slash) (join_with slash p) = p"
    using assms by (intro split_join) (auto simp: name_ok_def)
  then show ?thesis using assms by (simp add: path_parts_def as_posix_def name_ok_def)
qed

lemma old_candidate_path:
  assumes "old_candidate t cutoff p = Some c" and "tree_ok t" and "p \<noteq> []"
  shows "path_parts (storage_path c) = p" and "storage_path c = as_posix p"
    and "\<exists>txt. file_at p t = Some (stat_signature c, txt)" and "st_mtime_ns (stat_signature c) < cutoff"
proof -
  from assms(1) obtain st body where f: "file_at p t = Some (st, body)" "st_mtime_ns st < cutoff"
    and c: "c = \<lparr>storage_path = as_posix p, stat_signature = st\<rparr>"
    by (auto simp: old_candidate_def split: option.splits if_splits)
  then have "\<exists>n. lookup_node p t = Some n" by (auto simp: file_at_def bind_eq_Some_conv)
  with tree_ok_lookup [OF assms(2)] path_parts_posix [OF assms(3)]
  show "path_parts (storage_path c) = p" by (auto simp: c)
  show "storage_path c = as_posix p" "\<exists>txt. file_at p t = Some (stat_signature c, txt)"
    "st_mtime_ns (stat_signature c) < cutoff"
    using f by (simp_all add: c)
qed

text \<open>A walk stays in its categories.\<close>

definition in_category :: "string list \<Rightarrow> path \<Rightarrow> bool" where
  "in_category cats p \<longleftrightarrow> (\<exists>c q. p = c # q \<and> c \<in> set cats)"

definition iter_ok :: "sweep_iter \<Rightarrow> bool" where
  "iter_ok it \<longleftrightarrow> set (it_left it) \<subseteq> set (it_categories it)
     \<and> (\<forall>d \<in> set (it_stack it). in_category (it_categories it) d)
     \<and> (it_files it \<noteq> [] \<longrightarrow> in_category (it_categories it) (it_dir it))"

lemma in_category_append: "in_category cats p \<Longrightarrow> in_category cats (p @ q)"
  by (auto simp: in_category_def)

lemma walk_files_below: "q \<in> set (walk_files p n) \<Longrightarrow> \<exists>r. q = p @ r"
proof (induction p n arbitrary: q rule: walk_files.induct)
  case (1 p es)
  from "1.prems" consider x where "q = p @ [x]"
    | x n where "x \<in> set (entry_names is_directory es)" "map_of es x = Some n" "q \<in> set (walk_files (p @ [x]) n)"
    by (auto split: option.splits dest: sym)
  then show ?case
  proof cases
    case 2
    from "1.IH" [OF this] show ?thesis by auto
  qed auto
qed simp_all

lemma remaining_candidates:
  assumes "iter_ok it" and "c \<in> set (remaining t it)"
  obtains p where "old_candidate t (it_cutoff it) p = Some c" and "in_category (it_categories it) p"
proof -
  from assms(2) obtain p where p: "old_candidate t (it_cutoff it) p = Some c"
    and "p \<in> set (map (\<lambda>f. it_dir it @ [f]) (it_files it)) \<or> (\<exists>d \<in> set (it_stack it). p \<in> set (walk_at t d))
       \<or> (\<exists>k \<in> set (it_left it). p \<in> set (walk_at t [k]))"
    by (auto simp: remaining_def in_map_filter)
  moreover have "in_category cats p" if "p \<in> set (walk_at t d)" "in_category cats d" for d cats
    using that walk_files_below by (fastforce simp: walk_at_def in_category_append split: option.splits)
  ultimately have "in_category (it_categories it) p"
    using assms(1) by (auto simp: iter_ok_def in_category_def)
  with p that show ?thesis by blast
qed

text \<open>What is known of a path that is not protected.\<close>

lemma not_quarantined:
  assumes "s \<in> set paths" and "s \<notin> set (quarantine_artifact_references paths t)" and "artifact_message_id s = Some m"
    and "w \<in> set (walk_at t [''quarantine''])" and "quarantine_names (last w) m"
  shows "\<exists>refs. read_manifest_artifact_references (as_posix w) t = Inr refs \<and> s \<notin> set refs"
proof -
  define ids where "ids = remdups (List.map_filter artifact_message_id paths)"
  define ms where "ms = filter (quarantine_names (last w)) ids"
  have "m \<in> set ids" using assms(1,3) by (auto simp: ids_def in_map_filter)
  with assms(5) have m: "m \<in> set ms" by (simp add: ms_def)
  then have "(as_posix w, ms) \<in> set (matching_quarantine_paths ids t)"
    using assms(4) unfolding matching_quarantine_paths_def ms_def by (auto simp: filter_empty_conv)
  then have "s \<notin> set (case read_manifest_artifact_references (as_posix w) t of
       Inl e \<Rightarrow> filter (\<lambda>s. case artifact_message_id s of Some m \<Rightarrow> m \<in> set ms | None \<Rightarrow> False) paths
     | Inr refs \<Rightarrow> filter (\<lambda>p. p \<in> set refs) paths)"
    using assms(2) unfolding quarantine_artifact_references_def Let_def ids_def [symmetric] by force
  then show ?thesis using assms(1,3) m by (auto split: sum.splits)
qed

lemma not_manifested:
  assumes "s \<in> set paths" and "s \<notin> set (manifest_artifact_references paths t)" and "artifact_message_id s = Some m"
    and "path_parts s ! 0 \<noteq> ''attachments''" and "5 \<le> length (path_parts s)"
  shows "case read_manifest_artifact_references (manifest_of (path_parts s) m) t of
       Inl e \<Rightarrow> is_not_found e
     | Inr refs \<Rightarrow> s \<notin> set refs"
proof -
  let ?mp = "manifest_of (path_parts s) m"
  define ids where "ids = List.map_filter (\<lambda>s. map_option (\<lambda>m. (s, m)) (artifact_message_id s)) paths"
  define dated where "dated = List.map_filter (\<lambda>(s, m). let parts = path_parts s in
      if parts ! 0 \<noteq> ''attachments'' \<and> 5 \<le> length parts then Some (manifest_of parts m, s) else None) ids"
  have "(s, m) \<in> set ids" using assms(1,3) by (auto simp: ids_def in_map_filter)
  then have "(?mp, s) \<in> set dated" using assms(4,5) by (force simp: dated_def in_map_filter Let_def)
  then have "(?mp, s) \<in> set (manifest_candidates paths t)"
    by (simp add: manifest_candidates_def Let_def ids_def [symmetric] dated_def)
  then have "s \<notin> set (case read_manifest_artifact_references ?mp t of
       Inl e \<Rightarrow> if is_not_found e then [] else [s]
     | Inr refs \<Rightarrow> filter (\<lambda>p. p \<in> set refs) paths)"
    using assms(2) unfolding manifest_artifact_references_def by force
  then show ?thesis using assms(1) by (auto split: sum.splits if_splits)
qed

lemma match_names_first:
  assumes "m \<in> set expected" and "find (\<lambda>w. last w = m @ ''.json'') ps = Some w"
  shows "(as_posix w, m) \<in> set (match_names expected ps)"
  using assms
proof (induction ps arbitrary: expected)
  case (Cons p ps)
  show ?case
  proof (cases "find (\<lambda>m. last p = m @ ''.json'') expected")
    case None
    then have "last p \<noteq> m @ ''.json''" using Cons.prems(1) by (auto simp: find_None_iff)
    then show ?thesis using Cons None by simp
  next
    case (Some m')
    then have m': "last p = m' @ ''.json''" by (auto simp: find_Some_iff)
    show ?thesis
    proof (cases "m' = m")
      case True
      then show ?thesis using Cons.prems(2) Some m' by simp
    next
      case False
      then have "last p \<noteq> m @ ''.json''" using m' by simp
      then show ?thesis using Cons False Some by simp
    qed
  qed
qed simp

lemma not_manifested_attachment:
  assumes "s \<in> set paths" and "s \<notin> set (manifest_artifact_references paths t)" and "artifact_message_id s = Some m"
    and "path_parts s ! 0 = ''attachments''" and "find (\<lambda>w. last w = m @ ''.json'') (walk_at t [''manifests'']) = Some w"
  shows "case read_manifest_artifact_references (as_posix w) t of
       Inl e \<Rightarrow> is_not_found e
     | Inr refs \<Rightarrow> s \<notin> set refs"
proof -
  define ids where "ids = List.map_filter (\<lambda>s. map_option (\<lambda>m. (s, m)) (artifact_message_id s)) paths"
  define ms where "ms = remdups (map snd (filter (\<lambda>(s, m). path_parts s ! 0 = ''attachments'') ids))"
  have id: "(s, m) \<in> set ids" using assms(1,3) by (auto simp: ids_def in_map_filter)
  then have "m \<in> set ms" using assms(4) by (force simp: ms_def)
  then have found: "(as_posix w, m) \<in> set (matching_manifest_paths ms t)"
    using match_names_first assms(5) by (simp add: matching_manifest_paths_def)
  have "(as_posix w, s) \<in> set (concat (map (\<lambda>(mp, m). map (\<lambda>(s, _). (mp, s)) (filter (\<lambda>(s, m'). m' = m) ids))
      (matching_manifest_paths ms t)))"
    using found id by force
  then have "(as_posix w, s) \<in> set (manifest_candidates paths t)"
    by (simp add: manifest_candidates_def Let_def ids_def [symmetric] ms_def [symmetric])
  then have "s \<notin> set (case read_manifest_artifact_references (as_posix w) t of
       Inl e \<Rightarrow> if is_not_found e then [] else [s]
     | Inr refs \<Rightarrow> filter (\<lambda>p. p \<in> set refs) paths)"
    using assms(2) unfolding manifest_artifact_references_def by force
  then show ?thesis using assms(1) by (auto split: sum.splits if_splits)
qed

text \<open>
  A file nothing refers to, seen from its path: no row, no message in acceptance, no quarantine record
  of its message in \<open>tq\<close>, and in \<open>tm\<close> not the manifest of its message: for a raw, text or html file the
  one under the date in its path, for an attachment the first of that name in the manifest directory.
  A record that is there and cannot be read counts as a reference.
\<close>

definition not_referring :: "node \<Rightarrow> string \<Rightarrow> string \<Rightarrow> bool" where
  "not_referring t mp s =
     (case read_manifest_artifact_references mp t of Inl e \<Rightarrow> is_not_found e | Inr refs \<Rightarrow> s \<notin> set refs)"

definition unreferenced :: "retention_db \<Rightarrow> string list \<Rightarrow> node \<Rightarrow> node \<Rightarrow> string \<Rightarrow> bool" where
  "unreferenced db active_ids tq tm s \<longleftrightarrow>
     s \<notin> set (database_paths db)
     \<and> (\<forall>m. artifact_message_id s = Some m \<longrightarrow>
          m \<notin> set active_ids
          \<and> (\<forall>w \<in> set (walk_at tq [''quarantine'']). quarantine_names (last w) m \<longrightarrow>
               (\<exists>refs. read_manifest_artifact_references (as_posix w) tq = Inr refs \<and> s \<notin> set refs))
          \<and> (path_parts s ! 0 \<noteq> ''attachments'' \<and> 5 \<le> length (path_parts s) \<longrightarrow>
               not_referring tm (manifest_of (path_parts s) m) s)
          \<and> (path_parts s ! 0 = ''attachments'' \<longrightarrow>
               (case find (\<lambda>w. last w = m @ ''.json'') (walk_at tm [''manifests'']) of
                  None \<Rightarrow> True
                | Some w \<Rightarrow> not_referring tm (as_posix w) s)))"

lemma unprotected_unreferenced:
  assumes "s \<in> set paths" and "s \<notin> set (protected_artifact_paths db active_ids paths tq tm)"
  shows "unreferenced db active_ids tq tm s"
proof -
  define cands where "cands = remdups paths"
  define in_use where "in_use = database_artifact_references db cands
      @ filter (\<lambda>s. case artifact_message_id s of Some m \<Rightarrow> m \<in> set active_ids | None \<Rightarrow> False) cands"
  define qs where "qs = filter (\<lambda>s. s \<notin> set in_use) cands"
  define ms where "ms = filter (\<lambda>s. s \<notin> set (in_use @ quarantine_artifact_references qs tq)) cands"
  have s: "s \<in> set cands" "s \<notin> set in_use" "s \<notin> set (quarantine_artifact_references qs tq)"
    "s \<notin> set (manifest_artifact_references ms tm)"
    using assms unfolding protected_artifact_paths_def Let_def cands_def [symmetric] in_use_def [symmetric]
      qs_def [symmetric] ms_def [symmetric] by (auto simp: cands_def)
  then have "s \<in> set qs" "s \<in> set ms" by (simp_all add: qs_def ms_def)
  with s show ?thesis
    unfolding unreferenced_def
    using not_quarantined [of s qs tq] not_manifested [of s ms tm] not_manifested_attachment [of s ms tm]
    by (auto simp: in_use_def database_artifact_references_def not_referring_def split: option.split)
qed

lemma next_artifact_ok:
  "iter_ok it \<Longrightarrow> next_artifact t it = Some (c, it') \<Longrightarrow>
     iter_ok it' \<and> it_cutoff it' = it_cutoff it \<and> it_categories it' = it_categories it"
proof (induction it rule: iter_induct [where t = t])
  case (visit it d ds es)
  have "in_category (it_categories it) d" using visit.prems(1) visit.hyps by (simp add: iter_ok_def)
  then have "iter_ok (it\<lparr>it_dir := d, it_files := entry_names is_file_entry es,
      it_stack := map (\<lambda>x. d @ [x]) (entry_names is_directory es) @ ds\<rparr>)"
    using visit.prems(1) visit.hyps by (auto simp: iter_ok_def in_category_append)
  with visit.IH visit.prems(2) next_artifact_skip(2) [OF visit.hyps(1-3)] show ?case by simp
next
  case (category it d ds)
  have "iter_ok (it\<lparr>it_left := ds, it_stack := [[d]]\<rparr>)"
    using category.prems(1) category.hyps by (simp add: iter_ok_def in_category_def)
  with category.IH category.prems(2) next_artifact_skip(4) [OF category.hyps] show ?case by simp
qed (auto simp: next_artifact_steps iter_ok_def)

lemma take_candidates_ok:
  "iter_ok it \<Longrightarrow> snd (take_candidates n t it) = Some it' \<Longrightarrow>
     iter_ok it' \<and> it_cutoff it' = it_cutoff it \<and> it_categories it' = it_categories it"
proof (induction n arbitrary: it)
  case (Suc n)
  then obtain c it1 where "next_artifact t it = Some (c, it1)" "snd (take_candidates n t it1) = Some it'"
    by (auto split: option.splits prod.splits)
  with Suc.IH [of it1] next_artifact_ok [OF Suc.prems(1)] show ?case by metis
qed simp

definition iters_ok :: "int \<Rightarrow> iterators \<Rightarrow> bool" where
  "iters_ok cutoff its \<longleftrightarrow> (\<forall>it. its ''orphan'' = Some it \<longrightarrow> iter_ok it \<and> it_cutoff it \<le> cutoff)"

lemma sweep_iterator_ok:
  assumes "iters_ok cutoff its"
  shows "iter_ok (sweep_iterator cats cutoff ''orphan'' its)" "it_cutoff (sweep_iterator cats cutoff ''orphan'' its) \<le> cutoff"
    "it_categories (sweep_iterator cats cutoff ''orphan'' its) = cats"
  using assms
  by (auto simp: sweep_iterator_def iters_ok_def iter_old_regular_artifacts_def iter_ok_def split: option.splits)

text \<open>The trees around each unlink of the orphan sweep.\<close>

definition orphan_unlinks :: "sweep_settings \<Rightarrow> sweep_env \<Rightarrow> int \<Rightarrow> retention_db \<Rightarrow> node \<Rightarrow> iterators \<Rightarrow> (node \<times> node) list" where
  "orphan_unlinks cfg env now_epoch db t its =
     (let cutoff = nanoseconds (now_epoch - orphan_artifact_grace_seconds cfg);
          cands = fst (select_artifact_sweep_candidates orphan_categories cutoff (artifact_sweep_batch_size cfg) ''orphan'' t its);
          tq = sw_others env 0 t; tm = sw_others env 1 tq;
          protected = protected_artifact_paths db (sw_active_ids env) (map storage_path cands) tq tm
      in unlink_steps (sw_io env) (\<lambda>k. sw_others env (k + 2)) (filter (\<lambda>c. storage_path c \<notin> set protected) cands) tm)"

text \<open>
  C25: the orphan sweep deletes only garbage, whatever other threads and processes do to the storage
  directory between selecting the files, reading the quarantine records, reading the manifests, and each
  unlink. A file that an unlink of the sweep removes lay in one of the four artifact directories, was
  last modified before the grace period and had the same signature when the walk saw it and when it was
  removed; it was named by no row of the database and no file-collection task, belonged to no message in
  acceptance, no quarantine record of its message referred to it, and neither did the manifest of its
  message: the one under its date for a raw, text or html file, the first of its name in the manifest
  directory for an attachment. A record that is there but cannot be read counts as referring. No step
  changes any other file, and the tree the sweep returns is the one after its last step.
\<close>

theorem sweep_orphans_safe:
  assumes "cutoff = nanoseconds (now_epoch - orphan_artifact_grace_seconds cfg)" and "iters_ok cutoff its" and "tree_ok t"
    and "tq = sw_others env 0 t" and "tm = sw_others env 1 tq"
    and "steps = orphan_unlinks cfg env now_epoch db t its"
  shows "snd (fst (sweep_orphans cfg env now_epoch db t its)) = (if steps = [] then tm else snd (last steps))
    \<and> (\<forall>b a q. (b, a) \<in> set steps \<and> file_at q a \<noteq> file_at q b \<longrightarrow>
          file_at q a = None \<and> in_category orphan_categories q
          \<and> (\<exists>st body body2. file_at q t = Some (st, body) \<and> file_at q b = Some (st, body2) \<and> st_mtime_ns st < cutoff)
          \<and> unreferenced db (sw_active_ids env) tq tm (as_posix q))"
proof -
  define it where "it = sweep_iterator orphan_categories cutoff ''orphan'' its"
  define cands where "cands = fst (take_candidates (artifact_sweep_batch_size cfg) t it)"
  define prot where "prot = protected_artifact_paths db (sw_active_ids env) (map storage_path cands) tq tm"
  note ok = sweep_iterator_ok [OF assms(2), of orphan_categories, folded it_def]
  let ?loop = "\<lambda>f. f (sw_io env) (\<lambda>k. sw_others env (k + 2)) (filter (\<lambda>c. storage_path c \<notin> set prot) cands) tm"
  have steps: "steps = ?loop unlink_steps"
    unfolding assms(6) orphan_unlinks_def Let_def select_artifact_sweep_candidates_def assms(1) [symmetric] it_def [symmetric]
      assms(4) [symmetric] assms(5) [symmetric]
    by (simp add: cands_def prot_def case_prod_unfold)
  have tree: "snd (fst (sweep_orphans cfg env now_epoch db t its)) = snd (?loop unlink_candidates)"
    unfolding sweep_orphans_def Let_def select_artifact_sweep_candidates_def assms(1) [symmetric] it_def [symmetric]
      assms(4) [symmetric] assms(5) [symmetric]
    by (simp add: cands_def prot_def case_prod_unfold)
  have gone: "file_at q a = None \<and> in_category orphan_categories q
      \<and> (\<exists>st body body2. file_at q t = Some (st, body) \<and> file_at q b = Some (st, body2) \<and> st_mtime_ns st < cutoff)
      \<and> unreferenced db (sw_active_ids env) tq tm (as_posix q)"
    if "(b, a) \<in> set steps" "file_at q a \<noteq> file_at q b" for b a q
  proof -
    from unlink_steps_files [OF that [unfolded steps]] obtain c body2 where gone: "file_at q a = None"
      and c: "c \<in> set cands" "storage_path c \<notin> set prot" and q: "path_parts (storage_path c) = q"
      and b: "file_at q b = Some (stat_signature c, body2)"
      by auto
    have "c \<in> set (remaining t it)"
      using c(1) take_candidates_spec [of "artifact_sweep_batch_size cfg" t it] by (auto simp: cands_def dest: in_set_takeD)
    from remaining_candidates [OF ok(1) this] obtain p where p: "old_candidate t (it_cutoff it) p = Some c"
      "in_category orphan_categories p" unfolding ok(3) .
    then have "p \<noteq> []" by (auto simp: in_category_def)
    note path = old_candidate_path [OF p(1) assms(3) this]
    have "unreferenced db (sw_active_ids env) tq tm (storage_path c)"
      using c by (intro unprotected_unreferenced [of _ "map storage_path cands"]) (auto simp: prot_def)
    with path p(2) have "in_category orphan_categories q" "unreferenced db (sw_active_ids env) tq tm (as_posix q)"
        "\<exists>body. file_at q t = Some (stat_signature c, body)" "st_mtime_ns (stat_signature c) < cutoff"
      using ok(2) q by auto
    then show ?thesis using gone b by blast
  qed
  show ?thesis unfolding tree unlink_steps_last steps [symmetric] using gone by blast
qed

lemma iters_ok_later: "iters_ok cutoff its \<Longrightarrow> cutoff \<le> cutoff' \<Longrightarrow> iters_ok cutoff' its"
  by (auto simp: iters_ok_def)

text \<open>The condition on the suspended walk holds again after the sweep, and for every later cutoff.\<close>

lemma sweep_orphans_iters:
  assumes "sweep_orphans cfg env now_epoch db t its = (x, its')"
    and "cutoff = nanoseconds (now_epoch - orphan_artifact_grace_seconds cfg)" and "iters_ok cutoff its"
  shows "iters_ok cutoff its'"
proof -
  define it where "it = sweep_iterator orphan_categories cutoff ''orphan'' its"
  note ok = sweep_iterator_ok [OF assms(3), of orphan_categories, folded it_def]
  have "its' = its(''orphan'' := snd (take_candidates (artifact_sweep_batch_size cfg) t it))"
    using assms(1) unfolding sweep_orphans_def Let_def select_artifact_sweep_candidates_def assms(2) [symmetric] it_def [symmetric]
    by (auto split: prod.splits)
  then show ?thesis using take_candidates_ok [OF ok(1)] ok(2) by (auto simp: iters_ok_def)
qed

section \<open>Witness\<close>

text \<open>An old file of no message, an old file of a message and a young one.\<close>

definition ex_sweep_tree :: node where
  "ex_sweep_tree = Directory [(''raw'', Directory [(''x.eml'', Regular ex_stat None), (''m'', Regular ex_stat None),
     (''y.eml'', Regular (ex_stat\<lparr>st_mtime_ns := 10 ^ 18\<rparr>) None)])]"

definition ex_sweep_settings :: sweep_settings where
  "ex_sweep_settings = \<lparr>artifact_sweep_batch_size = 5, quarantine_retention_days = 1, orphan_artifact_grace_seconds = 10\<rparr>"

definition ex_sweep_env :: sweep_env where
  "ex_sweep_env = \<lparr>sw_io = ex_io, sw_quarantine_others = (\<lambda>_ t. t), sw_others = (\<lambda>_ t. t), sw_active_ids = [''a'']\<rparr>"

definition ex_orphan_unlinks :: "(node \<times> node) list" where
  "ex_orphan_unlinks = orphan_unlinks ex_sweep_settings ex_sweep_env 100 ex_gc_db ex_sweep_tree Map.empty"

lemma ex_swept_files:
  "ex_orphan_unlinks \<noteq> []" "file_at [''raw'', ''x.eml''] (snd (last ex_orphan_unlinks)) = None"
  "file_at [''raw'', ''x.eml''] (fst (last ex_orphan_unlinks)) = Some (ex_stat, None)" "tree_ok ex_sweep_tree"
  by code_simp+

theorem sweep_orphans_safe_witness:
  "file_at [''raw'', ''x.eml''] (snd (last ex_orphan_unlinks)) = None
     \<and> unreferenced ex_gc_db [''a''] ex_sweep_tree ex_sweep_tree (as_posix [''raw'', ''x.eml''])"
proof -
  have ok: "iters_ok (nanoseconds (100 - orphan_artifact_grace_seconds ex_sweep_settings)) Map.empty" by (simp add: iters_ok_def)
  have step: "(fst (last ex_orphan_unlinks), snd (last ex_orphan_unlinks)) \<in> set ex_orphan_unlinks" using ex_swept_files(1) by simp
  have "file_at [''raw'', ''x.eml''] (snd (last ex_orphan_unlinks)) \<noteq> file_at [''raw'', ''x.eml''] (fst (last ex_orphan_unlinks))"
    using ex_swept_files(2,3) by simp
  with step have "unreferenced ex_gc_db (sw_active_ids ex_sweep_env) (sw_others ex_sweep_env 0 ex_sweep_tree)
      (sw_others ex_sweep_env 1 (sw_others ex_sweep_env 0 ex_sweep_tree)) (as_posix [''raw'', ''x.eml''])"
    using sweep_orphans_safe [OF refl ok ex_swept_files(4) refl refl ex_orphan_unlinks_def] by blast
  then show ?thesis using ex_swept_files(2) by (simp add: ex_sweep_env_def)
qed

end
