(* ===== verification/Cleanup.thy ===== *)
theory Cleanup
  imports Artifact_Sweep
begin

text \<open>
  The retention cleanup as a whole (\<^verbatim>\<open>src/app/runtime.py\<close>, \<open>_cleanup_expired_messages_operation\<close>): the
  snapshot, the parser kept away from the messages it may delete, the transaction, the collection of
  files and the sweep, in the critical section of \<open>_mail_store_lock\<close>.
\<close>

record cleanup_state =
  cl_db :: retention_db
  cl_queue :: parse_queue
  cl_tree :: node
  cl_iterators :: iterators

record cleanup_settings =
  cl_retention :: retention_settings
  cl_file_gc_batch_size :: nat
  cl_sweep :: sweep_settings

record cleanup_env =
  cl_expire :: expire_env
  cl_sweep_env :: sweep_env

text \<open>Up to the await of \<open>wait_until_not_active\<close>.\<close>

definition cleanup_begin ::
  "cleanup_settings \<Rightarrow> string \<Rightarrow> cleanup_state \<Rightarrow> ((batch_row list \<times> string list \<times> nat) \<times> cleanup_state) result" where
  "cleanup_begin cfg now st =
     (let (delivery_batch, candidates) = expiration_batch_snapshot now (cleanup_batch_size (cl_retention cfg)) (mail (cl_db st))
      in if candidates = [] then Inr ((delivery_batch, candidates, 0), st)
         else bindR (remove_pending (\<lambda>task. message_id task \<in> set candidates) (cl_queue st)) (\<lambda>(q, dropped).
           Inr ((delivery_batch, candidates, dropped), st\<lparr>cl_queue := q\<rparr>)))"

definition parser_idle :: "string list \<Rightarrow> parse_queue \<Rightarrow> bool" where
  "parser_idle candidates q = snd (wait_until_not_active (\<lambda>i. i \<in> set candidates) q)"

text \<open>After it; the clock of the collection is that of the transaction.\<close>

definition cleanup_finish ::
  "cleanup_settings \<Rightarrow> cleanup_env \<Rightarrow> string \<Rightarrow> batch_row list \<Rightarrow> cleanup_state
     \<Rightarrow> (retention_result \<times> gc_result \<times> sweep_result) result \<times> cleanup_state" where
  "cleanup_finish cfg env now delivery_batch st =
     (case expire_delivery_batch (cl_retention cfg) (cl_expire env) now delivery_batch (cl_db st) of
        Inl e \<Rightarrow> (Inl e, st)
      | Inr (res, db1) \<Rightarrow>
          (case drain_file_gc (sw_io (cl_sweep_env env)) (ee_clock (cl_expire env)) (cl_file_gc_batch_size cfg) db1 (cl_tree st) of
             (Inl e, t1) \<Rightarrow> (Inl e, st\<lparr>cl_db := db1, cl_tree := t1\<rparr>)
           | (Inr (gc, db2), t1) \<Rightarrow>
               (case sweep_retained_artifacts (cl_sweep cfg) (cl_sweep_env env) now db2 t1 (cl_iterators st) of
                  ((Inl e, t2), its) \<Rightarrow> (Inl e, st\<lparr>cl_db := db2, cl_tree := t2, cl_iterators := its\<rparr>)
                | ((Inr sw, t2), its) \<Rightarrow>
                    (Inr (res, gc, sw), st\<lparr>cl_db := db2, cl_tree := t2, cl_iterators := its\<rparr>))))"

section \<open>The parser is kept away\<close>

text \<open>A message of the batch that is no candidate had a delivery outside the batch.\<close>

lemma not_candidate:
  assumes "store_keys db" and "m \<in> b_message_id ` set (fst (expiration_batch_snapshot now n db))"
    and "m \<notin> set (snd (expiration_batch_snapshot now n db))"
  shows "\<exists>d \<in> set (deliveries db). dl_message_id d = m \<and> dl_id d \<notin> b_id ` set (fst (expiration_batch_snapshot now n db))"
proof (rule ccontr)
  define batch where "batch = due_batch now n db"
  let ?of = "\<lambda>ds. filter (\<lambda>d. dl_message_id d = m) ds"
  assume none: "\<not> ?thesis"
  have keys: "distinct (map dl_id (deliveries db))" using assms(1) by (simp add: store_keys_def)
  have sub: "set batch \<subseteq> set (deliveries db)" using due_batch_set [of now n db] by (auto simp: batch_def)
  have m: "m \<in> dl_message_id ` set batch"
    using assms(2) by (auto simp: expiration_batch_snapshot_def Let_def batch_row_of_def batch_def)
  have "d \<in> set (deliveries db) \<Longrightarrow> dl_message_id d = m \<Longrightarrow> dl_id d \<in> dl_id ` set batch" for d
    using none by (auto simp: expiration_batch_snapshot_def Let_def batch_row_of_def batch_def image_image)
  then have "set (?of batch) = set (?of (deliveries db))"
    using sub keys by (auto simp: distinct_map inj_on_def)
  moreover have "distinct batch"
    using distinct_select_oldest [OF keys] by (auto simp: batch_def due_batch_def distinct_map)
  ultimately have "length (?of batch) = length (?of (deliveries db))"
    using keys by (metis distinct_card distinct_filter distinct_map)
  then have "m \<in> set (snd (expiration_batch_snapshot now n db))"
    using m by (auto simp: expiration_batch_snapshot_def Let_def batch_def [symmetric])
  with assms(3) show False by simp
qed

text \<open>A message the transaction deletes is one of the batch and has no delivery left outside it.\<close>

lemma purged_messages:
  assumes "x \<in> set (messages db)" and "msg_id x \<notin> msg_id ` set (messages (purge batch db))"
  shows "msg_id x \<in> b_message_id ` set batch"
    and "d \<in> set (deliveries db) \<Longrightarrow> dl_message_id d = msg_id x \<Longrightarrow> dl_id d \<in> b_id ` set batch"
  using assms by (auto simp: purge_def delete_deliveries_def Let_def orphan_messages_def list_ex_iff)

lemma expire_message_ids:
  assumes "expire_delivery_batch cfg env now snapshot db = Inr (res, db')"
  shows "msg_id ` set (messages (mail db'))
    = msg_id ` set (messages (purge (filter (still_due now (mail db)) snapshot) (mail db)))"
proof -
  from expire_delivery_batch_mail [OF assms] obtain res1 db1 c gone
    where em: "expire_mail now (ee_clock env) snapshot db = Inr (res1, db1)"
      and m: "mail db' = (snd (delete_stale_empty_mailbox_batch c (cleanup_batch_size cfg) (mail db1)))
           \<lparr>messages := map (forget_sessions gone)
              (messages (snd (delete_stale_empty_mailbox_batch c (cleanup_batch_size cfg) (mail db1))))\<rparr>" .
  have "msg_id ` set (messages (mail db')) = msg_id ` set (messages (mail db1))"
    by (simp add: m delete_stale_empty_mailbox_batch_def Let_def image_image)
  moreover have "messages (mail db1) = messages (purge (filter (still_due now (mail db)) snapshot) (mail db))"
    using expire_mail_form(1) [OF em refl] by (simp add: refresh_retention_mailbox_summaries_def)
  ultimately show ?thesis by simp
qed

lemma apply_outcomes_mail: "apply_outcomes clock outcomes db = Inr db' \<Longrightarrow> mail db' = mail db"
  by (induction clock outcomes db rule: apply_outcomes.induct) (auto split: if_splits)

lemma drain_file_gc_mail: "drain_file_gc io clock limit db t = (Inr (gc, db'), t') \<Longrightarrow> mail db' = mail db"
  by (auto simp: drain_file_gc_def Let_def bindR_Inr_iff apply_outcomes_mail split: if_splits prod.splits)

lemma cleanup_finish_mail:
  assumes "cleanup_finish cfg env now batch st = (r, st')"
    and "expire_delivery_batch (cl_retention cfg) (cl_expire env) now batch (cl_db st) = Inr (res, db1)"
  shows "mail (cl_db st') = mail db1"
  using assms by (auto simp: cleanup_finish_def drain_file_gc_mail split: sum.splits prod.splits)

lemma cleanup_finish_messages:
  assumes "cleanup_finish cfg env now batch st = (r, st')"
    and "msg_id ` set (messages (mail (cl_db st'))) \<noteq> msg_id ` set (messages (mail (cl_db st)))"
  shows "msg_id ` set (messages (mail (cl_db st')))
    = msg_id ` set (messages (purge (filter (still_due now (mail (cl_db st))) batch) (mail (cl_db st))))"
proof (cases "expire_delivery_batch (cl_retention cfg) (cl_expire env) now batch (cl_db st)")
  case (Inl e)
  with assms show ?thesis by (simp add: cleanup_finish_def)
next
  case (Inr x)
  obtain res db1 where x: "x = (res, db1)" by (cases x) blast
  from expire_message_ids [OF Inr [unfolded x]] cleanup_finish_mail [OF assms(1) Inr [unfolded x]] show ?thesis by simp
qed

lemma begin_candidates:
  assumes "cleanup_begin cfg now st = Inr ((batch, candidates, dropped), st1)" and "pq_inv (cl_queue st)"
  shows "expiration_batch_snapshot now (cleanup_batch_size (cl_retention cfg)) (mail (cl_db st)) = (batch, candidates)"
    and "Some task \<in> set (q_items (cl_queue st1)) \<Longrightarrow> message_id task \<notin> set candidates"
proof -
  let ?p = "\<lambda>task. message_id task \<in> set candidates"
  show snap: "expiration_batch_snapshot now (cleanup_batch_size (cl_retention cfg)) (mail (cl_db st)) = (batch, candidates)"
    using assms(1) by (auto simp: cleanup_begin_def Let_def bindR_Inr_iff split: prod.splits if_splits)
  from remove_pending_ok [OF assms(2), of ?p] obtain q where
    "remove_pending ?p (cl_queue st) = Inr (q, length (filter (\<lambda>it. \<not> kept ?p it) (q_items (cl_queue st))))"
    "q_items q = filter (kept ?p) (q_items (cl_queue st))" by blast
  then show "Some task \<in> set (q_items (cl_queue st1)) \<Longrightarrow> message_id task \<notin> set candidates"
    using assms(1) snap by (auto simp: cleanup_begin_def kept_def split: if_splits)
qed

text \<open>
  C27: when retention deletes a message under the parser. After the first half of a cleanup, the wait for
  the parser and whatever other tasks did meanwhile, a message that the rest of the cleanup deletes is
  one of the candidates the parser was kept away from: no worker has it, and a task for it is in the queue
  only if it was queued again meanwhile. The only exception is a message that at the time of the snapshot
  had a delivery outside the batch and lost that delivery before the transaction, which a rehome of
  mailboxes can cause because it does not take the mail store lock.
\<close>

theorem cleanup_excludes_parser:
  assumes "store_inv (mail (cl_db st))" and "pq_reachable (cl_queue st)"
    and "cleanup_begin cfg now st = Inr ((batch, candidates, dropped), st1)"
    and "parser_idle candidates (cl_queue st2)"
    and "cleanup_finish cfg env now batch st2 = (r, st3)"
    and "m \<in> set (messages (mail (cl_db st2)))" and "msg_id m \<notin> msg_id ` set (messages (mail (cl_db st3)))"
  shows "msg_id m \<in> set candidates \<and> msg_id m \<notin> active_message_ids (cl_queue st2)
      \<and> (\<forall>task. Some task \<in> set (q_items (cl_queue st2)) \<and> message_id task = msg_id m \<longrightarrow>
            Some task \<notin> set (q_items (cl_queue st1)))
    \<or> (\<exists>d \<in> set (deliveries (mail (cl_db st))). dl_message_id d = msg_id m \<and> dl_id d \<notin> b_id ` set batch
        \<and> (\<forall>d' \<in> set (deliveries (mail (cl_db st2))). dl_message_id d' = msg_id m \<longrightarrow> dl_id d' \<noteq> dl_id d))"
proof -
  let ?n = "cleanup_batch_size (cl_retention cfg)" and ?db = "mail (cl_db st)"
  note start = begin_candidates [OF assms(3) pq_reachable_inv [OF assms(2)]]
  have keys: "store_keys ?db" using assms(1) by (simp add: store_inv_def)
  let ?still = "filter (still_due now (mail (cl_db st2))) batch"
  have "msg_id ` set (messages (mail (cl_db st3))) = msg_id ` set (messages (purge ?still (mail (cl_db st2))))"
    using cleanup_finish_messages [OF assms(5)] assms(6,7) by auto
  with assms(7) have gone: "msg_id m \<notin> msg_id ` set (messages (purge ?still (mail (cl_db st2))))" by simp
  have inb: "msg_id m \<in> b_message_id ` set batch" using purged_messages(1) [OF assms(6) gone] by auto
  have rest: "dl_id d \<in> b_id ` set batch" if "d \<in> set (deliveries (mail (cl_db st2)))" "dl_message_id d = msg_id m" for d
    using purged_messages(2) [OF assms(6) gone that] by auto
  show ?thesis
  proof (cases "msg_id m \<in> set candidates")
    case True
    with assms(4) have "msg_id m \<notin> active_message_ids (cl_queue st2)"
      by (auto simp: parser_idle_def wait_until_not_active_def split: if_splits)
    with True start(2) show ?thesis by metis
  next
    case False
    from not_candidate [OF keys, of "msg_id m" now ?n] start(1) inb False
    obtain d where "d \<in> set (deliveries ?db)" "dl_message_id d = msg_id m" "dl_id d \<notin> b_id ` set batch" by auto
    then show ?thesis using rest by metis
  qed
qed

section \<open>Witness\<close>

text \<open>The expired message \<open>n\<close> waits in the parse queue.\<close>

definition ex_parse_queue :: parse_queue where
  "ex_parse_queue = the (pq_runs [TryEnqueue (ex_task ''n'')] (projr (parse_queue_init 1 1 100)))"

lemma ex_parse_queue_reachable: "pq_reachable ex_parse_queue"
proof -
  have "pq_reachable (projr (parse_queue_init 1 1 100))"
    by (rule pq_init [of 1 1 100]) (simp add: parse_queue_init_def)
  moreover have "pq_runs [TryEnqueue (ex_task ''n'')] (projr (parse_queue_init 1 1 100)) \<noteq> None"
    by (simp add: pq_eval)
  ultimately show ?thesis unfolding ex_parse_queue_def by (metis option.exhaust_sel pq_runs_reachable)
qed

definition ex_cleanup :: cleanup_state where
  "ex_cleanup = \<lparr>cl_db = ex_retention, cl_queue = ex_parse_queue, cl_tree = ex_sweep_tree, cl_iterators = Map.empty\<rparr>"

definition ex_cleanup_settings :: cleanup_settings where
  "ex_cleanup_settings = \<lparr>cl_retention = ex_retention_settings, cl_file_gc_batch_size = 5, cl_sweep = ex_sweep_settings\<rparr>"

definition ex_cleanup_env :: cleanup_env where
  "ex_cleanup_env = \<lparr>cl_expire = ex_expire_env, cl_sweep_env = ex_sweep_env\<rparr>"

definition ex_begun :: cleanup_state where
  "ex_begun = ex_cleanup\<lparr>cl_queue := fst (projr (remove_pending (\<lambda>task. message_id task = ''n'') ex_parse_queue))\<rparr>"

lemma ex_snapshot_candidates: "expiration_batch_snapshot ''9'' 2 (mail ex_retention) = (ex_snapshot, [''n''])"
  by code_simp

lemma ex_begin: "cleanup_begin ex_cleanup_settings ''9'' ex_cleanup = Inr ((ex_snapshot, [''n''], 1), ex_begun)"
proof -
  have r: "remove_pending (\<lambda>task. message_id task = ''n'') ex_parse_queue
      = Inr (fst (projr (remove_pending (\<lambda>task. message_id task = ''n'') ex_parse_queue)), 1)"
    by (simp add: ex_parse_queue_def pq_eval remove_pending_def)
  show ?thesis
    by (simp add: cleanup_begin_def ex_snapshot_candidates ex_begun_def ex_cleanup_def ex_cleanup_settings_def ex_retention_settings_def)
      (subst r, simp)
qed

theorem cleanup_excludes_parser_witness:
  "''n'' \<notin> active_message_ids (cl_queue ex_begun) \<and> Some (ex_task ''n'') \<notin> set (q_items (cl_queue ex_begun))"
proof -
  define fin where "fin = cleanup_finish ex_cleanup_settings ex_cleanup_env ''9'' ex_snapshot ex_begun"
  have fin: "cleanup_finish ex_cleanup_settings ex_cleanup_env ''9'' ex_snapshot ex_begun = (fst fin, snd fin)"
    by (simp add: fin_def)
  have db: "cl_db ex_begun = ex_retention" by (simp add: ex_begun_def ex_cleanup_def)
  define m where "m = (ex_message ''n'')\<lparr>received_at := ''2024-03-22T15:59:59Z''\<rparr>"
  have m: "msg_id m = ''n''" by (simp add: m_def ex_message_def)
  have "mail (cl_db (snd fin)) = mail (snd ex_expired)"
    by (rule cleanup_finish_mail [OF fin, of "fst ex_expired"])
      (use ex_expire in \<open>simp add: db ex_cleanup_settings_def ex_cleanup_env_def\<close>)
  then have gone: "msg_id m \<notin> msg_id ` set (messages (mail (cl_db (snd fin))))"
    using ex_removed by (simp add: m)
  have idle: "parser_idle [''n''] (cl_queue ex_begun)"
    by (simp add: parser_idle_def wait_until_not_active_def ex_begun_def ex_parse_queue_def pq_eval remove_pending_def)
  have inv: "store_inv (mail (cl_db ex_cleanup))" "pq_reachable (cl_queue ex_cleanup)"
    by (simp_all add: ex_cleanup_def ex_parse_queue_reachable ex_retention_inv)
  have "m \<in> set (messages (mail (cl_db ex_begun)))" by (simp add: db ex_retention_def m_def)
  moreover have "ex_snapshot = map batch_row_of (due_batch ''9'' 2 (mail ex_retention))"
    by (simp add: ex_snapshot_def expiration_batch_snapshot_def Let_def)
  ultimately have "''n'' \<in> set [''n''] \<and> ''n'' \<notin> active_message_ids (cl_queue ex_begun)
      \<and> (\<forall>task. Some task \<in> set (q_items (cl_queue ex_begun)) \<and> message_id task = ''n'' \<longrightarrow>
            Some task \<notin> set (q_items (cl_queue ex_begun)))"
    using cleanup_excludes_parser [OF inv ex_begin idle fin _ gone] db m by (auto simp: ex_cleanup_def)
  then show ?thesis by (auto simp: ex_task_def)
qed

text \<open>
  The exception happens: with a batch of one delivery, the message \<open>m\<close> with two due deliveries is no
  candidate; a rehome merges the other delivery into the one of the batch, and the transaction deletes
  the message although the parser was not kept away from it.
\<close>

definition ex_split_store :: retention_db where
  "ex_split_store = ex_retention\<lparr>mail := ex_store\<lparr>
     messages := [(ex_message ''m'')\<lparr>received_at := ''2024-03-22T15:59:59Z''\<rparr>],
     deliveries := [ex_delivery ''p'' ''m'' 1, (ex_delivery ''q'' ''m'' 2)\<lparr>dl_expires_at := Some ''8''\<rparr>]\<rparr>\<rparr>"

definition ex_split_rehomed :: retention_db where
  "ex_split_rehomed = with_mail (\<lambda>m. snd (projr (promote_mailbox_ownership 1 ex_promoting_match m))) ex_split_store"

lemma retention_deletes_parsed_message:
  "snd (expiration_batch_snapshot ''9'' 1 (mail ex_split_store)) = []"
  "map msg_id (messages (mail ex_split_rehomed)) = [''m'']"
  "messages (mail (snd (projr (expire_mail ''9'' 69120000
     (fst (expiration_batch_snapshot ''9'' 1 (mail ex_split_store))) ex_split_rehomed)))) = []"
  by code_simp+

end
