(* ===== verification/Permissions.thy ===== *)
theory Permissions
  imports Prelude
begin

text \<open>
  \<^verbatim>\<open>src/app/auth/permissions.py\<close>: scopes and roles, the permission context of a caller, the
  check of a mailbox access against a context, and the containment test that bounds what a
  caller may delegate to an API key. The lemmas show that containment is sound for mailbox
  access, for the operational limits, and closed under chains of delegation.
\<close>

section \<open>Scopes and roles\<close>

definition VALID_DOMAIN_GRANT_MODES :: "string list" where
  "VALID_DOMAIN_GRANT_MODES = [''none'', ''selected'', ''all'']"

definition PUBLIC_API_KEY_SCOPES :: "string list" where
  "PUBLIC_API_KEY_SCOPES = [''public.read'']"

definition SERVICE_API_KEY_SCOPES :: "string list" where
  "SERVICE_API_KEY_SCOPES =
     [''public.read'', ''live.read'', ''domains.read'', ''domains.write'', ''mailboxes.read'',
      ''mailboxes.write'', ''messages.read'', ''messages.write'', ''smtp.read'', ''audit.read'',
      ''system.read'']"

definition ADMIN_API_KEY_SCOPES :: "string list" where
  "ADMIN_API_KEY_SCOPES =
     SERVICE_API_KEY_SCOPES @
     [''system.write'', ''api_keys.read'', ''api_keys.write'', ''admins.read'', ''admins.write'',
      ''admins.credentials.write'', ''admins.sessions.write'']"

definition VALID_API_KEY_SCOPES :: "string list" where
  "VALID_API_KEY_SCOPES =
     remdups (PUBLIC_API_KEY_SCOPES @ SERVICE_API_KEY_SCOPES @ ADMIN_API_KEY_SCOPES)"

definition API_KEY_KIND_SCOPES :: "string \<rightharpoonup> string list" where
  "API_KEY_KIND_SCOPES =
     [''public'' \<mapsto> PUBLIC_API_KEY_SCOPES, ''service'' \<mapsto> SERVICE_API_KEY_SCOPES,
      ''admin'' \<mapsto> ADMIN_API_KEY_SCOPES]"

definition VIEWER_SCOPES :: "string list" where
  "VIEWER_SCOPES =
     [''live.read'', ''domains.read'', ''mailboxes.read'', ''messages.read'', ''smtp.read'',
      ''audit.read'', ''system.read'', ''api_keys.read'', ''admins.read'']"

definition OPERATOR_SCOPES :: "string list" where
  "OPERATOR_SCOPES = VIEWER_SCOPES @ [''domains.write'', ''mailboxes.write'', ''messages.write'']"

definition ROLE_SCOPES :: "string \<rightharpoonup> string list" where
  "ROLE_SCOPES =
     [''viewer'' \<mapsto> VIEWER_SCOPES, ''operator'' \<mapsto> OPERATOR_SCOPES,
      ''superadmin'' \<mapsto> ADMIN_API_KEY_SCOPES]"

record permission_context =
  scopes :: "string list"
  domain_ids :: "int list"
  mailbox_patterns :: "ustr list"
  domain_grant_mode :: string
  api_key_id :: "int option"
  public_id :: string
  ctx_name :: string
  ctx_kind :: string
  legacy_credential :: bool
  rate_limit_per_min :: int
  allowed_ip_cidrs :: "string list"
  expires_at :: "string option"
  allow_header :: bool
  allow_query :: bool
  admin_id :: "int option"
  admin_session_id :: "string option"

fun validate_scope_loop ::
  "string \<Rightarrow> string list \<Rightarrow> string list \<Rightarrow> string list \<Rightarrow> string list result" where
  "validate_scope_loop kind allowed normalized [] = Inr normalized"
| "validate_scope_loop kind allowed normalized (raw_scope # rest) =
     (let scope = str_strip raw_scope in
      if scope = [] then Inl (ValueError ''invalid empty api key scope'')
      else if scope \<notin> set VALID_API_KEY_SCOPES then
        Inl (ValueError (''invalid api key scope: '' @ scope))
      else if scope \<notin> set allowed then
        Inl (ValueError (''api key kind '' @ kind @ '' cannot use scope: '' @ scope))
      else if scope \<in> set normalized then validate_scope_loop kind allowed normalized rest
      else validate_scope_loop kind allowed (normalized @ [scope]) rest)"

definition validate_scopes_for_kind :: "string \<Rightarrow> string list \<Rightarrow> string list result" where
  "validate_scopes_for_kind kind raw_scopes =
     (case API_KEY_KIND_SCOPES kind of
        None \<Rightarrow> Inl (ValueError ''invalid api key kind'')
      | Some allowed \<Rightarrow>
          if 100 < length raw_scopes then Inl (ValueError ''too many api key scopes'')
          else bindR (validate_scope_loop kind allowed [] raw_scopes) (\<lambda>normalized.
            if normalized = [] then Inl (ValueError ''api key scopes are required'')
            else Inr normalized))"

text \<open>
  The administrator a role context is made for: a bare role, or the mapping of a session,
  where a missing \<open>admin_id\<close> key (outer \<open>None\<close>) falls back to \<open>id\<close>.
\<close>

record admin_mapping =
  am_role :: "string option"
  am_session_id :: "string option"
  am_id :: "int option"
  am_username :: "string option"
  am_display_name :: "string option"
  am_admin_id :: "int option option"

datatype admin_arg = RoleName string | AdminMapping admin_mapping

text \<open>Python's \<open>a or b\<close> on optional text and numbers.\<close>

definition text_or :: "string option \<Rightarrow> string \<Rightarrow> string" where
  "text_or t d = (case t of None \<Rightarrow> d | Some s \<Rightarrow> if s = [] then d else s)"

definition int_text_or :: "int option \<Rightarrow> string \<Rightarrow> string" where
  "int_text_or i d = (case i of None \<Rightarrow> d | Some n \<Rightarrow> if n = 0 then d else show_int n)"

definition role_context ::
  "string \<Rightarrow> string \<Rightarrow> string \<Rightarrow> int option \<Rightarrow> string option \<Rightarrow> permission_context result" where
  "role_context role pid nm aid sid =
     (case ROLE_SCOPES role of
        None \<Rightarrow> Inl (PermissionDenied ''invalid admin role'')
      | Some role_scopes \<Rightarrow>
          Inr \<lparr>scopes = sort role_scopes, domain_ids = [], mailbox_patterns = [],
               domain_grant_mode = ''all'', api_key_id = None, public_id = pid, ctx_name = nm,
               ctx_kind = ''admin'', legacy_credential = False, rate_limit_per_min = 0,
               allowed_ip_cidrs = [], expires_at = None, allow_header = True, allow_query = True,
               admin_id = aid, admin_session_id = sid\<rparr>)"

fun role_permission_context :: "admin_arg \<Rightarrow> permission_context result" where
  "role_permission_context (RoleName role) = role_context role (''role:'' @ role) role None None"
| "role_permission_context (AdminMapping a) =
     (let role = text_or (am_role a) [];
          pid = text_or (am_session_id a)
                  (int_text_or (am_id a) (text_or (am_username a) ''admin''));
          nm = text_or (am_display_name a) (text_or (am_username a) pid);
          aid = (case am_admin_id a of None \<Rightarrow> am_id a | Some v \<Rightarrow> v)
      in role_context role pid nm aid (am_session_id a))"

definition require_admin_role_scope ::
  "permission_context \<Rightarrow> string \<Rightarrow> permission_context result" where
  "require_admin_role_scope context required_scope =
     (if required_scope \<notin> set VALID_API_KEY_SCOPES then
        Inl (ValueError (''invalid required scope: '' @ required_scope))
      else if required_scope \<notin> set (scopes context) then Inl (PermissionDenied required_scope)
      else Inr context)"

section \<open>Mailbox globs\<close>

text \<open>
  \<^verbatim>\<open>fnmatch.fnmatchcase\<close>: a star matches any text, a question mark one character, a
  bracket expression that is closed one character of its class; everything else is literal.
\<close>

datatype glob_token = GStar | GAny | GClass ustr | GLit nat

text \<open>The body of a bracket expression: up to the first closing bracket after its start.\<close>

definition class_body :: "ustr \<Rightarrow> (ustr \<times> ustr) option" where
  "class_body s =
     (let lead = (if take 1 s = [33] then 1 else 0);
          skip = (if take 1 (drop lead s) = [93] then lead + 1 else lead);
          rest = dropWhile (\<lambda>c. c \<noteq> 93) (drop skip s)
      in if rest = [] then None else Some (take (length s - length rest) s, tl rest))"

lemma class_body_shorter: "class_body s = Some (b, r) \<Longrightarrow> length r < length s"
proof -
  assume "class_body s = Some (b, r)"
  then obtain k where k: "dropWhile (\<lambda>c. c \<noteq> 93) (drop k s) \<noteq> []"
      "r = tl (dropWhile (\<lambda>c. c \<noteq> 93) (drop k s))"
    by (auto simp: class_body_def Let_def split: if_splits)
  have "length (dropWhile (\<lambda>c. c \<noteq> 93) (drop k s)) \<le> length s"
    using length_dropWhile_le [of "\<lambda>c. c \<noteq> 93" "drop k s"] by simp
  with k show "length r < length s" by (cases "dropWhile (\<lambda>c. c \<noteq> 93) (drop k s)") auto
qed

function glob_tokens :: "ustr \<Rightarrow> glob_token list" where
  "glob_tokens [] = []"
| "glob_tokens (c # s) =
     (if c = 42 then GStar # glob_tokens s
      else if c = 63 then GAny # glob_tokens s
      else if c = 91 then
        (case class_body s of
           None \<Rightarrow> GLit c # glob_tokens s
         | Some (b, r) \<Rightarrow> GClass b # glob_tokens r)
      else GLit c # glob_tokens s)"
  by pat_completeness auto
termination
  by (relation "measure length") (auto dest: class_body_shorter)

fun glob_match :: "pylib \<Rightarrow> glob_token list \<Rightarrow> ustr \<Rightarrow> bool" where
  "glob_match L [] s = (s = [])"
| "glob_match L (GStar # ts) [] = glob_match L ts []"
| "glob_match L (GStar # ts) (c # s) = (glob_match L ts (c # s) \<or> glob_match L (GStar # ts) s)"
| "glob_match L (GAny # ts) [] = False"
| "glob_match L (GAny # ts) (c # s) = glob_match L ts s"
| "glob_match L (GClass b # ts) [] = False"
| "glob_match L (GClass b # ts) (c # s) = (char_class L b c \<and> glob_match L ts s)"
| "glob_match L (GLit d # ts) [] = False"
| "glob_match L (GLit d # ts) (c # s) = (c = d \<and> glob_match L ts s)"

definition mailbox_pattern_matches :: "pylib \<Rightarrow> ustr \<Rightarrow> ustr \<Rightarrow> bool" where
  "mailbox_pattern_matches L mailbox_address mailbox_pattern =
     glob_match L (glob_tokens mailbox_pattern) mailbox_address"

section \<open>Delegation\<close>

text \<open>The policy of an API key as \<open>create_key\<close> requests it and \<open>_load_key\<close> reads it.\<close>

record key_policy =
  kp_scopes :: "string list"
  kp_domain_grant_mode :: string
  kp_domain_ids :: "int list"
  kp_mailbox_patterns :: "ustr list"
  kp_rate_limit_per_min :: int
  kp_allowed_ip_cidrs :: "string list"
  kp_expires_at :: "string option"
  kp_allow_header :: bool
  kp_allow_query :: bool

definition parse_api_key_expiration :: "pylib \<Rightarrow> string option \<Rightarrow> int option" where
  "parse_api_key_expiration L value =
     (case value of
        None \<Rightarrow> None
      | Some s \<Rightarrow>
          if s = [] then None
          else (case fromisoformat L (replace_Z s) of
                  None \<Rightarrow> None
                | Some (Naive t) \<Rightarrow> Some t
                | Some (Aware t) \<Rightarrow> Some t))"

definition subnet_of :: "ip_network \<Rightarrow> ip_network \<Rightarrow> bool" where
  "subnet_of a b \<longleftrightarrow>
     network_address b \<le> network_address a \<and> broadcast_address a \<le> broadcast_address b"

fun parse_networks :: "pylib \<Rightarrow> string list \<Rightarrow> ip_network list option" where
  "parse_networks L [] = Some []"
| "parse_networks L (c # cs) =
     (case parse_ip_network L c of
        None \<Rightarrow> None
      | Some n \<Rightarrow> map_option ((#) n) (parse_networks L cs))"

definition networks_within :: "ip_network list \<Rightarrow> ip_network list \<Rightarrow> bool" where
  "networks_within parents targets \<longleftrightarrow>
     parents = [] \<or>
     (targets \<noteq> [] \<and>
      list_all (\<lambda>child. list_ex (\<lambda>parent.
        net_version child = net_version parent \<and> subnet_of child parent) parents) targets)"

definition delegated_api_key_policy_is_within_principal ::
  "pylib \<Rightarrow> permission_context \<Rightarrow> key_policy \<Rightarrow> bool" where
  "delegated_api_key_policy_is_within_principal L actor target =
     (if kp_rate_limit_per_min target < 0 then False
      else if 0 < rate_limit_per_min actor
          \<and> (kp_rate_limit_per_min target = 0
             \<or> rate_limit_per_min actor < kp_rate_limit_per_min target) then False
      else case (parse_networks L (allowed_ip_cidrs actor),
                 parse_networks L (kp_allowed_ip_cidrs target)) of
        (Some parents, Some targets) \<Rightarrow>
          if \<not> networks_within parents targets then False
          else if expires_at actor \<noteq> None
              \<and> (case (parse_api_key_expiration L (kp_expires_at target),
                       parse_api_key_expiration L (expires_at actor)) of
                   (Some t, Some p) \<Rightarrow> p < t
                 | _ \<Rightarrow> True) then False
          else if kp_allow_header target \<and> \<not> allow_header actor then False
          else if kp_allow_query target \<and> \<not> allow_query actor then False
          else True
      | _ \<Rightarrow> False)"

definition effective_scopes :: "string list \<Rightarrow> string list" where
  "effective_scopes ss =
     ss @ map (\<lambda>s. drop_last 6 s @ ''.read'') (filter (\<lambda>s. ends_with s ''.write'') ss)"

text \<open>\<open>None\<close> stands for every domain.\<close>

definition allowed_domains :: "permission_context \<Rightarrow> int set option" where
  "allowed_domains actor =
     (if domain_grant_mode actor = ''all'' then None
      else if domain_grant_mode actor = ''selected'' then Some (set (domain_ids actor))
      else Some {})"

definition target_domains_ok :: "int set option \<Rightarrow> key_policy \<Rightarrow> bool" where
  "target_domains_ok allowed target =
     (let mode = (if kp_domain_grant_mode target = [] then ''none'' else kp_domain_grant_mode target)
      in if mode = ''all'' then allowed = None
         else if mode = ''selected'' then
           (case allowed of None \<Rightarrow> True | Some A \<Rightarrow> set (kp_domain_ids target) \<subseteq> A)
         else mode = ''none'')"

definition target_pattern_ok :: "pylib \<Rightarrow> ustr list \<Rightarrow> ustr \<Rightarrow> bool" where
  "target_pattern_ok L principal_patterns p =
     (if p \<in> set principal_patterns then True
      else if 42 \<in> set p \<or> 63 \<in> set p then False
      else list_ex (mailbox_pattern_matches L p) principal_patterns)"

definition api_key_is_within_principal ::
  "pylib \<Rightarrow> permission_context \<Rightarrow> key_policy \<Rightarrow> bool" where
  "api_key_is_within_principal L actor target =
     (if \<not> delegated_api_key_policy_is_within_principal L actor target then False
      else if \<not> set (kp_scopes target) \<subseteq> set (effective_scopes (scopes actor)) then False
      else if \<not> target_domains_ok (allowed_domains actor) target then False
      else if mailbox_patterns actor \<noteq> [] then
        kp_mailbox_patterns target \<noteq> []
        \<and> list_all (target_pattern_ok L (mailbox_patterns actor)) (kp_mailbox_patterns target)
      else True)"

definition ensure_mailbox_access ::
  "pylib \<Rightarrow> permission_context \<Rightarrow> ustr \<Rightarrow> int \<Rightarrow> string \<Rightarrow> unit result" where
  "ensure_mailbox_access L grants mailbox_address domain_id required_scope =
     (if required_scope \<notin> set (scopes grants) then Inl (PermissionDenied required_scope)
      else if legacy_credential grants then Inr ()
      else
        bindR
          (if domain_grant_mode grants = ''all'' then Inr ()
           else if domain_grant_mode grants = ''selected'' then
             (if domain_id \<notin> set (domain_ids grants) then
                Inl (PermissionDenied ''domain grant missing'')
              else Inr ())
           else if domain_grant_mode grants = ''none'' then
             Inl (PermissionDenied ''domain grant missing'')
           else Inl (PermissionDenied ''invalid domain grant mode''))
          (\<lambda>_.
             if mailbox_patterns grants \<noteq> []
                \<and> \<not> list_ex (mailbox_pattern_matches L mailbox_address) (mailbox_patterns grants)
             then Inl (PermissionDenied ''mailbox grant missing'')
             else Inr ()))"

section \<open>Lemmas\<close>

lemma glob_tokens_literal:
  "42 \<notin> set p \<Longrightarrow> 63 \<notin> set p \<Longrightarrow> 91 \<notin> set p \<Longrightarrow> glob_tokens p = map GLit p"
  by (induction p) auto

lemma glob_match_literal: "glob_match L (map GLit p) s \<longleftrightarrow> s = p"
proof (induction p arbitrary: s)
  case (Cons c p)
  then show ?case by (cases s) auto
qed simp

lemma mailbox_pattern_literal:
  "42 \<notin> set p \<Longrightarrow> 63 \<notin> set p \<Longrightarrow> 91 \<notin> set p \<Longrightarrow> mailbox_pattern_matches L a p \<longleftrightarrow> a = p"
  by (simp add: mailbox_pattern_matches_def glob_tokens_literal glob_match_literal)

text \<open>A star pattern matches exactly the texts with the literal rest as suffix.\<close>

lemma glob_match_star_literal:
  "glob_match L (GStar # map GLit p) s \<longleftrightarrow> ends_with s p"
proof (induction s)
  case Nil
  then show ?case by (auto simp: glob_match_literal ends_with_iff)
next
  case (Cons c s)
  then show ?case by (auto simp: glob_match_literal ends_with_iff Cons_eq_append_conv)
qed

lemma effective_scopes_idem:
  "set (effective_scopes (effective_scopes ss)) = set (effective_scopes ss)"
proof -
  have "\<not> ends_with (x @ ''.read'') ''.write''" for x
    by (auto simp: ends_with_iff append_eq_append_conv2 Cons_eq_append_conv)
  then show ?thesis by (auto simp: effective_scopes_def)
qed

lemma effective_scopes_mono: "set ss \<subseteq> set ts \<Longrightarrow> set (effective_scopes ss) \<subseteq> set (effective_scopes ts)"
  by (auto simp: effective_scopes_def)

lemma networks_within_trans:
  assumes "networks_within a b" "networks_within b c"
  shows "networks_within a c"
proof (cases "a = []")
  case False
  with assms have "c \<noteq> []" by (auto simp: networks_within_def)
  moreover have "\<exists>p \<in> set a. net_version n = net_version p \<and> subnet_of n p" if "n \<in> set c" for n
  proof -
    from assms that False obtain m where m: "m \<in> set b" "net_version n = net_version m" "subnet_of n m"
      by (auto simp: networks_within_def list_all_iff list_ex_iff)
    moreover from assms(1) m(1) False obtain p where
      "p \<in> set a" "net_version m = net_version p" "subnet_of m p"
      by (auto simp: networks_within_def list_all_iff list_ex_iff)
    ultimately show ?thesis by (intro bexI [of _ p]) (auto simp: subnet_of_def)
  qed
  ultimately show ?thesis by (auto simp: networks_within_def list_all_iff list_ex_iff)
qed (simp add: networks_within_def)

lemma parse_networks_set:
  "parse_networks L cs = Some ns \<Longrightarrow> n \<in> set ns \<longleftrightarrow> (\<exists>c \<in> set cs. parse_ip_network L c = Some n)"
  by (induction cs arbitrary: ns) (auto split: option.splits)

lemma delegated_policy_iff:
  "delegated_api_key_policy_is_within_principal L P T \<longleftrightarrow>
     0 \<le> kp_rate_limit_per_min T
     \<and> (0 < rate_limit_per_min P \<longrightarrow>
          0 < kp_rate_limit_per_min T \<and> kp_rate_limit_per_min T \<le> rate_limit_per_min P)
     \<and> (\<exists>ps ts. parse_networks L (allowed_ip_cidrs P) = Some ps
          \<and> parse_networks L (kp_allowed_ip_cidrs T) = Some ts \<and> networks_within ps ts)
     \<and> (expires_at P \<noteq> None \<longrightarrow>
          (\<exists>t p. parse_api_key_expiration L (kp_expires_at T) = Some t
             \<and> parse_api_key_expiration L (expires_at P) = Some p \<and> t \<le> p))
     \<and> (kp_allow_header T \<longrightarrow> allow_header P) \<and> (kp_allow_query T \<longrightarrow> allow_query P)"
  unfolding delegated_api_key_policy_is_within_principal_def
  by (cases "parse_networks L (allowed_ip_cidrs P)"; cases "parse_networks L (kp_allowed_ip_cidrs T)";
      cases "parse_api_key_expiration L (kp_expires_at T)";
      cases "parse_api_key_expiration L (expires_at P)")
    auto

lemma within_iff:
  "api_key_is_within_principal L P T \<longleftrightarrow>
     delegated_api_key_policy_is_within_principal L P T
     \<and> set (kp_scopes T) \<subseteq> set (effective_scopes (scopes P))
     \<and> target_domains_ok (allowed_domains P) T
     \<and> (mailbox_patterns P \<noteq> [] \<longrightarrow> kp_mailbox_patterns T \<noteq> []
          \<and> (\<forall>p \<in> set (kp_mailbox_patterns T). target_pattern_ok L (mailbox_patterns P) p))"
  by (auto simp: api_key_is_within_principal_def list_all_iff)

text \<open>The context an API key authenticates to.\<close>

definition key_context :: "key_policy \<Rightarrow> permission_context" where
  "key_context T =
     \<lparr>scopes = kp_scopes T, domain_ids = kp_domain_ids T, mailbox_patterns = kp_mailbox_patterns T,
      domain_grant_mode = (if kp_domain_grant_mode T = [] then ''none'' else kp_domain_grant_mode T),
      api_key_id = Some 0, public_id = [], ctx_name = [], ctx_kind = [], legacy_credential = False,
      rate_limit_per_min = kp_rate_limit_per_min T, allowed_ip_cidrs = kp_allowed_ip_cidrs T,
      expires_at = kp_expires_at T, allow_header = kp_allow_header T,
      allow_query = kp_allow_query T, admin_id = None, admin_session_id = None\<rparr>"

text \<open>Stored patterns hold no bracket: \<open>_normalize_mailbox_patterns\<close> refuses them.\<close>

definition no_brackets :: "key_policy \<Rightarrow> bool" where
  "no_brackets T \<longleftrightarrow> list_all (\<lambda>p. 91 \<notin> set p) (kp_mailbox_patterns T)"

lemma target_domains_trans:
  assumes "target_domains_ok (allowed_domains P) C"
    and "target_domains_ok (allowed_domains (key_context C)) G"
  shows "target_domains_ok (allowed_domains P) G"
  using assms
  by (auto simp: target_domains_ok_def allowed_domains_def key_context_def Let_def
      split: if_splits option.splits)

lemma target_pattern_trans:
  assumes "\<forall>p \<in> set cs. target_pattern_ok L ps p" and "\<forall>p \<in> set cs. 91 \<notin> set p"
    and "target_pattern_ok L cs g"
  shows "target_pattern_ok L ps g"
proof (cases "g \<in> set cs")
  case True
  with assms(1) show ?thesis by blast
next
  case False
  with assms(3) obtain c where c: "c \<in> set cs" "mailbox_pattern_matches L g c"
    and lit: "42 \<notin> set g" "63 \<notin> set g"
    by (auto simp: target_pattern_ok_def list_ex_iff split: if_splits)
  show ?thesis
  proof (cases "c \<in> set ps")
    case True
    with c lit show ?thesis by (auto simp: target_pattern_ok_def list_ex_iff)
  next
    case no: False
    with assms(1,2) c have "g = c"
      by (auto simp: target_pattern_ok_def mailbox_pattern_literal split: if_splits)
    with False c show ?thesis by simp
  qed
qed

lemma ensure_mailbox_access_iff:
  "ensure_mailbox_access L g a d s = Inr v \<longleftrightarrow>
     s \<in> set (scopes g) \<and>
     (legacy_credential g \<or>
      (domain_grant_mode g = ''all'' \<or> domain_grant_mode g = ''selected'' \<and> d \<in> set (domain_ids g))
      \<and> (mailbox_patterns g = [] \<or> (\<exists>p \<in> set (mailbox_patterns g). mailbox_pattern_matches L a p)))"
  by (auto simp: ensure_mailbox_access_def list_ex_iff)

lemma key_context_simps [simp]:
  "scopes (key_context T) = kp_scopes T"
  "mailbox_patterns (key_context T) = kp_mailbox_patterns T"
  "rate_limit_per_min (key_context T) = kp_rate_limit_per_min T"
  "allowed_ip_cidrs (key_context T) = kp_allowed_ip_cidrs T"
  "expires_at (key_context T) = kp_expires_at T"
  "allow_header (key_context T) = kp_allow_header T"
  "allow_query (key_context T) = kp_allow_query T"
  "domain_ids (key_context T) = kp_domain_ids T"
  "\<not> legacy_credential (key_context T)"
  by (simp_all add: key_context_def)

lemma delegated_policy_trans:
  assumes "delegated_api_key_policy_is_within_principal L P C"
    and "delegated_api_key_policy_is_within_principal L (key_context C) G"
  shows "delegated_api_key_policy_is_within_principal L P G"
proof -
  note PC = assms(1) [unfolded delegated_policy_iff]
  note CG = assms(2) [unfolded delegated_policy_iff key_context_simps]
  from PC CG have "0 < rate_limit_per_min P \<longrightarrow>
      0 < kp_rate_limit_per_min G \<and> kp_rate_limit_per_min G \<le> rate_limit_per_min P" by auto
  moreover from PC CG have "\<exists>ps ts. parse_networks L (allowed_ip_cidrs P) = Some ps
      \<and> parse_networks L (kp_allowed_ip_cidrs G) = Some ts \<and> networks_within ps ts"
    by (metis networks_within_trans option.inject)
  moreover have "\<exists>t p. parse_api_key_expiration L (kp_expires_at G) = Some t
      \<and> parse_api_key_expiration L (expires_at P) = Some p \<and> t \<le> p" if "expires_at P \<noteq> None"
  proof -
    from PC that obtain t p where tp: "parse_api_key_expiration L (kp_expires_at C) = Some t"
        "parse_api_key_expiration L (expires_at P) = Some p" "t \<le> p" by blast
    then have "kp_expires_at C \<noteq> None" by (cases "kp_expires_at C") (auto simp: parse_api_key_expiration_def)
    with CG tp show ?thesis by fastforce
  qed
  ultimately show ?thesis using PC CG unfolding delegated_policy_iff by blast
qed

text \<open>The elements of a list in the order of their first occurrence, after those already seen.\<close>

fun first_occurrences :: "'a list \<Rightarrow> 'a list \<Rightarrow> 'a list" where
  "first_occurrences seen [] = seen"
| "first_occurrences seen (x # xs) =
     first_occurrences (if x \<in> set seen then seen else seen @ [x]) xs"

lemma set_first_occurrences: "set (first_occurrences seen xs) = set seen \<union> set xs"
  by (induction xs arbitrary: seen) auto

lemma distinct_first_occurrences: "distinct seen \<Longrightarrow> distinct (first_occurrences seen xs)"
  by (induction xs arbitrary: seen) auto

lemma first_occurrences_empty: "first_occurrences [] xs = [] \<longleftrightarrow> xs = []"
  using set_first_occurrences [of "[]" xs] by (metis Un_empty empty_set set_empty2 Un_empty_left)

lemma kind_scopes_valid:
  assumes "API_KEY_KIND_SCOPES kind = Some allowed"
  shows "set allowed \<subseteq> set VALID_API_KEY_SCOPES" and "[] \<notin> set allowed"
  using assms
  by (auto simp: API_KEY_KIND_SCOPES_def VALID_API_KEY_SCOPES_def PUBLIC_API_KEY_SCOPES_def
      SERVICE_API_KEY_SCOPES_def ADMIN_API_KEY_SCOPES_def split: if_splits)

lemma validate_scope_loop_iff:
  assumes "set allowed \<subseteq> set VALID_API_KEY_SCOPES" and "[] \<notin> set allowed"
  shows "validate_scope_loop kind allowed seen raw = Inr out \<longleftrightarrow>
     set (map str_strip raw) \<subseteq> set allowed \<and> out = first_occurrences seen (map str_strip raw)"
proof (induction raw arbitrary: seen)
  case (Cons r raw)
  then show ?case using assms by (cases "str_strip r = []") (auto simp: Let_def)
qed auto

section \<open>Properties\<close>

text \<open>
  C3: delegation never escalates along a chain: if a key is within its creator's authority
  and that key, acting as a principal, creates another key within its own authority, the
  second key is within the first creator's authority too (scopes, domains, mailbox patterns,
  rate limit, networks, expiry and transports).
\<close>

theorem delegation_chain_within:
  assumes "api_key_is_within_principal L P C" and "no_brackets C"
    and "api_key_is_within_principal L (key_context C) G"
  shows "api_key_is_within_principal L P G"
proof -
  note PC = assms(1) [unfolded within_iff]
  note CG = assms(3) [unfolded within_iff]
  have "set (kp_scopes G) \<subseteq> set (effective_scopes (scopes P))"
    using PC CG effective_scopes_mono [of "kp_scopes C" "effective_scopes (scopes P)"]
    by (auto simp: effective_scopes_idem)
  moreover have "delegated_api_key_policy_is_within_principal L P G"
    using PC CG delegated_policy_trans by blast
  moreover have "target_domains_ok (allowed_domains P) G"
    using PC CG target_domains_trans by blast
  moreover have "target_pattern_ok L (mailbox_patterns P) p"
    if "mailbox_patterns P \<noteq> []" "p \<in> set (kp_mailbox_patterns G)" for p
    using PC CG that assms(2) target_pattern_trans [of "kp_mailbox_patterns C" L "mailbox_patterns P" p]
    by (auto simp: no_brackets_def list_all_iff)
  ultimately show ?thesis using PC CG by (auto simp: within_iff)
qed

text \<open>
  C4: a key within a non-legacy principal's authority can reach no mailbox the principal
  cannot reach: whenever \<open>ensure_mailbox_access\<close> admits the key, the scope is one of the
  principal's effective scopes (write implies read) and the principal's own domain and
  mailbox grants admit the same mailbox.
\<close>

theorem delegated_access_sound:
  assumes "api_key_is_within_principal L P T" and "no_brackets T"
    and "ensure_mailbox_access L (key_context T) a d s = Inr ()"
  shows "s \<in> set (effective_scopes (scopes P))
         \<and> ensure_mailbox_access L (P\<lparr>scopes := [s]\<rparr>) a d s = Inr ()"
proof -
  note W = assms(1) [unfolded within_iff]
  note A = assms(3) [unfolded ensure_mailbox_access_iff]
  have "s \<in> set (effective_scopes (scopes P))"
    using W A by (auto simp: key_context_def)
  moreover have "domain_grant_mode P = ''all'' \<or> domain_grant_mode P = ''selected'' \<and> d \<in> set (domain_ids P)"
    using W A
    by (auto simp: key_context_def target_domains_ok_def allowed_domains_def Let_def
        split: if_splits option.splits)
  moreover have "\<exists>p \<in> set (mailbox_patterns P). mailbox_pattern_matches L a p"
    if ne: "mailbox_patterns P \<noteq> []"
  proof -
    from W A ne obtain t where t: "t \<in> set (kp_mailbox_patterns T)" "mailbox_pattern_matches L a t"
        "target_pattern_ok L (mailbox_patterns P) t"
      by (auto simp: key_context_def)
    show ?thesis
    proof (cases "t \<in> set (mailbox_patterns P)")
      case False
      with t assms(2) have "a = t"
        by (auto simp: target_pattern_ok_def mailbox_pattern_literal no_brackets_def list_all_iff
            split: if_splits)
      with t False show ?thesis by (auto simp: target_pattern_ok_def list_ex_iff split: if_splits)
    qed (use t in blast)
  qed
  ultimately show ?thesis by (auto simp: ensure_mailbox_access_iff)
qed

text \<open>
  a key within a principal's authority keeps the principal's operational limits: its
  rate limit is no looser, every address its networks contain is in one of the principal's
  networks, it expires no later, and it uses no transport the principal may not use.
\<close>

theorem delegated_limits_sound:
  assumes "api_key_is_within_principal L P T"
  shows "(0 < rate_limit_per_min P \<longrightarrow>
            0 < kp_rate_limit_per_min T \<and> kp_rate_limit_per_min T \<le> rate_limit_per_min P)
         \<and> (allowed_ip_cidrs P \<noteq> [] \<longrightarrow> kp_allowed_ip_cidrs T \<noteq> []
            \<and> (\<forall>c n x. c \<in> set (kp_allowed_ip_cidrs T) \<and> parse_ip_network L c = Some n
                 \<and> network_address n \<le> x \<and> x \<le> broadcast_address n \<longrightarrow>
               (\<exists>c' \<in> set (allowed_ip_cidrs P). \<exists>m. parse_ip_network L c' = Some m
                 \<and> net_version m = net_version n
                 \<and> network_address m \<le> x \<and> x \<le> broadcast_address m)))
         \<and> (expires_at P \<noteq> None \<longrightarrow>
            (\<exists>t p. parse_api_key_expiration L (kp_expires_at T) = Some t
               \<and> parse_api_key_expiration L (expires_at P) = Some p \<and> t \<le> p))
         \<and> (kp_allow_header T \<longrightarrow> allow_header P) \<and> (kp_allow_query T \<longrightarrow> allow_query P)"
proof -
  from assms have D: "delegated_api_key_policy_is_within_principal L P T" by (simp add: within_iff)
  then obtain ps ts where nets: "parse_networks L (allowed_ip_cidrs P) = Some ps"
      "parse_networks L (kp_allowed_ip_cidrs T) = Some ts" "networks_within ps ts"
    by (auto simp: delegated_policy_iff)
  have "\<exists>c' \<in> set (allowed_ip_cidrs P). \<exists>m. parse_ip_network L c' = Some m
          \<and> net_version m = net_version n \<and> network_address m \<le> x \<and> x \<le> broadcast_address m"
    if "allowed_ip_cidrs P \<noteq> []" "c \<in> set (kp_allowed_ip_cidrs T)" "parse_ip_network L c = Some n"
      "network_address n \<le> x" "x \<le> broadcast_address n" for c n x
  proof -
    have "ps \<noteq> []" using nets(1) that(1) by (cases "allowed_ip_cidrs P") (auto split: option.splits)
    moreover have "n \<in> set ts" using parse_networks_set [OF nets(2)] that by blast
    ultimately obtain m where "m \<in> set ps" "net_version n = net_version m" "subnet_of n m"
      using nets(3) by (auto simp: networks_within_def list_all_iff list_ex_iff)
    with parse_networks_set [OF nets(1), of m] that show ?thesis
      by (fastforce simp: subnet_of_def)
  qed
  moreover have "kp_allowed_ip_cidrs T \<noteq> []" if "allowed_ip_cidrs P \<noteq> []"
    using nets that by (cases "allowed_ip_cidrs P") (auto simp: networks_within_def split: option.splits)
  ultimately show ?thesis using D unfolding delegated_policy_iff by blast
qed

text \<open>
  \<open>validate_scopes_for_kind\<close> accepts a list of scopes exactly when the kind exists, the
  list has 1 to 100 entries and every stripped entry is a scope of that kind; the result
  holds each of them once, in first-occurrence order.
\<close>

theorem validate_scopes_for_kind_spec:
  "validate_scopes_for_kind kind raw = Inr out \<longleftrightarrow>
     (\<exists>allowed. API_KEY_KIND_SCOPES kind = Some allowed
        \<and> raw \<noteq> [] \<and> length raw \<le> 100
        \<and> set (map str_strip raw) \<subseteq> set allowed
        \<and> out = first_occurrences [] (map str_strip raw))"
proof -
  have "validate_scopes_for_kind kind raw = Inr out \<longleftrightarrow>
      raw \<noteq> [] \<and> length raw \<le> 100 \<and> set (map str_strip raw) \<subseteq> set allowed
      \<and> out = first_occurrences [] (map str_strip raw)"
    if k: "API_KEY_KIND_SCOPES kind = Some allowed" for allowed
    using kind_scopes_valid [OF k] validate_scope_loop_iff [of allowed kind "[]" raw]
      first_occurrences_empty [of "map str_strip raw"]
    by (cases "validate_scope_loop kind allowed [] raw")
      (auto simp: validate_scopes_for_kind_def k split: if_splits)
  then show ?thesis by (auto simp: validate_scopes_for_kind_def split: option.splits)
qed


text \<open>A concrete library and a chain of three policies for the witnesses.\<close>

definition ex_pylib :: pylib where
  "ex_pylib =
     \<lparr>parse_ip_network = (\<lambda>s. if s = ''10.0.0.0/8''
        then Some \<lparr>net_version = 4, network_address = 167772160, broadcast_address = 184549375\<rparr>
        else if s = ''10.1.0.0/16''
        then Some \<lparr>net_version = 4, network_address = 167837696, broadcast_address = 167903231\<rparr>
        else None),
      parse_ip_address = (\<lambda>_. None),
      fromisoformat = (\<lambda>s. if s = ''2030'' then Some (Aware 30) else if s = ''2029'' then Some (Naive 29)
        else None),
      char_class = (\<lambda>_ _. False)\<rparr>"

definition ex_parent :: key_policy where
  "ex_parent =
     \<lparr>kp_scopes = [''messages.write'', ''domains.read''], kp_domain_grant_mode = ''selected'',
      kp_domain_ids = [1, 2], kp_mailbox_patterns = [u ''*@a.b'', u ''x@c.d''],
      kp_rate_limit_per_min = 60, kp_allowed_ip_cidrs = [''10.0.0.0/8''],
      kp_expires_at = Some ''2030'', kp_allow_header = True, kp_allow_query = False\<rparr>"

definition ex_child :: key_policy where
  "ex_child = ex_parent\<lparr>kp_scopes := [''messages.read''], kp_domain_ids := [2],
     kp_mailbox_patterns := [u ''*@a.b'', u ''y@a.b''], kp_rate_limit_per_min := 30,
     kp_allowed_ip_cidrs := [''10.1.0.0/16''], kp_expires_at := Some ''2029''\<rparr>"

definition ex_grandchild :: key_policy where
  "ex_grandchild = ex_child\<lparr>kp_mailbox_patterns := [u ''z@a.b''], kp_rate_limit_per_min := 10\<rparr>"

lemmas permission_eval =
  ex_pylib_def ex_parent_def ex_child_def ex_grandchild_def key_context_def no_brackets_def
  api_key_is_within_principal_def delegated_api_key_policy_is_within_principal_def
  networks_within_def subnet_of_def parse_api_key_expiration_def effective_scopes_def
  ends_with_def drop_last_def replace_Z_def
  allowed_domains_def target_domains_ok_def target_pattern_ok_def mailbox_pattern_matches_def
  ensure_mailbox_access_def u_def Let_def

lemma ex_child_within: "api_key_is_within_principal ex_pylib (key_context ex_parent) ex_child"
  by (simp add: permission_eval)

lemma ex_grandchild_within:
  "api_key_is_within_principal ex_pylib (key_context ex_child) ex_grandchild"
  by (simp add: permission_eval)

theorem delegation_chain_within_witness:
  "api_key_is_within_principal ex_pylib (key_context ex_parent) ex_grandchild"
proof (rule delegation_chain_within [OF ex_child_within _ ex_grandchild_within])
  show "no_brackets ex_child" by (simp add: permission_eval)
qed

theorem delegated_access_sound_witness:
  "ensure_mailbox_access ex_pylib ((key_context ex_parent)\<lparr>scopes := [''messages.read'']\<rparr>)
     (u ''q@a.b'') 2 ''messages.read'' = Inr ()"
proof (rule delegated_access_sound [OF ex_child_within, THEN conjunct2])
  show "no_brackets ex_child" by (simp add: permission_eval)
  show "ensure_mailbox_access ex_pylib (key_context ex_child) (u ''q@a.b'') 2 ''messages.read'' = Inr ()"
    by (simp add: permission_eval)
qed

theorem delegated_limits_sound_witness:
  "0 < kp_rate_limit_per_min ex_child \<and> kp_rate_limit_per_min ex_child \<le> 60
   \<and> kp_allowed_ip_cidrs ex_child \<noteq> []"
proof -
  have "rate_limit_per_min (key_context ex_parent) = 60"
      "allowed_ip_cidrs (key_context ex_parent) \<noteq> []" by (simp_all add: ex_parent_def)
  with delegated_limits_sound [OF ex_child_within] show ?thesis by auto
qed

theorem validate_scopes_for_kind_spec_witness:
  "validate_scopes_for_kind ''public'' ['' public.read'', ''public.read''] = Inr [''public.read'']"
  by (rule validate_scopes_for_kind_spec [THEN iffD2])
    (simp add: API_KEY_KIND_SCOPES_def PUBLIC_API_KEY_SCOPES_def str_strip_def strip_by_def rstrip_by_def
      ascii_space_def)

end
