(* ===== verification/Config.thy ===== *)
theory Config
  imports Permissions
begin

text \<open>
  Configuration (\<^verbatim>\<open>src/app/config.py\<close>): the settings as the environment gives them, and the validation of
  \<open>Settings.__post_init__\<close>. A settings object is the map of its attributes; the two paths are left out.
\<close>

section \<open>Limits\<close>

definition DEFAULT_BOOTSTRAP_ADMIN_PASSWORD :: string where
  "DEFAULT_BOOTSTRAP_ADMIN_PASSWORD = ''change-me-now''"

definition DEFAULT_ADMIN_TOKEN :: string where
  "DEFAULT_ADMIN_TOKEN = ''dev-admin-token''"

definition DEFAULT_PUBLIC_API_KEY :: string where
  "DEFAULT_PUBLIC_API_KEY = ''public-demo-key''"

definition MAX_MESSAGE_SIZE_LIMIT_BYTES :: int where
  "MAX_MESSAGE_SIZE_LIMIT_BYTES = 1073741824"

definition MAX_RECIPIENTS_LIMIT :: int where
  "MAX_RECIPIENTS_LIMIT = 10000"

definition MAX_SMTP_CONNECTIONS_LIMIT :: int where
  "MAX_SMTP_CONNECTIONS_LIMIT = 100000"

definition MAX_RATE_LIMIT_COUNT :: int where
  "MAX_RATE_LIMIT_COUNT = 10000000"

definition DEFAULT_SMTP_MAX_CONCURRENT_CONNECTIONS :: int where
  "DEFAULT_SMTP_MAX_CONCURRENT_CONNECTIONS = 1024"

definition DEFAULT_SMTP_CONNECTION_RATE_LIMIT_COUNT :: int where
  "DEFAULT_SMTP_CONNECTION_RATE_LIMIT_COUNT = 60000"

definition MAX_RETENTION_DAYS :: int where
  "MAX_RETENTION_DAYS = 36500"

definition MAX_CLEANUP_BATCH_SIZE :: int where
  "MAX_CLEANUP_BATCH_SIZE = 10000"

definition MAX_HTTP_REQUEST_BODY_LIMIT_BYTES :: int where
  "MAX_HTTP_REQUEST_BODY_LIMIT_BYTES = 67108864"

definition MAX_HTTP_LIVE_CONNECTIONS_LIMIT :: int where
  "MAX_HTTP_LIVE_CONNECTIONS_LIMIT = 100000"

definition MAX_HTTP_CONCURRENCY_LIMIT :: int where
  "MAX_HTTP_CONCURRENCY_LIMIT = 100000"

definition MAX_HTTP_BODY_MEMORY_BUDGET_BYTES :: int where
  "MAX_HTTP_BODY_MEMORY_BUDGET_BYTES = 8589934592"

definition MAX_PARSE_QUEUE_MESSAGES_LIMIT :: int where
  "MAX_PARSE_QUEUE_MESSAGES_LIMIT = 1000000"

definition MAX_PARSE_QUEUE_BYTES_LIMIT :: int where
  "MAX_PARSE_QUEUE_BYTES_LIMIT = 1099511627776"

definition MAX_MESSAGE_PREVIEW_BODY_BYTES :: int where
  "MAX_MESSAGE_PREVIEW_BODY_BYTES = 16777216"

definition MAX_MESSAGE_PREVIEW_HEADERS_BYTES :: int where
  "MAX_MESSAGE_PREVIEW_HEADERS_BYTES = 1048576"

definition MAX_MESSAGE_PREVIEW_INLINE_ITEM_BYTES :: int where
  "MAX_MESSAGE_PREVIEW_INLINE_ITEM_BYTES = 8388608"

definition MAX_MESSAGE_PREVIEW_INLINE_TOTAL_BYTES :: int where
  "MAX_MESSAGE_PREVIEW_INLINE_TOTAL_BYTES = 33554432"

lemmas config_constants = DEFAULT_BOOTSTRAP_ADMIN_PASSWORD_def
  DEFAULT_ADMIN_TOKEN_def
  DEFAULT_PUBLIC_API_KEY_def
  MAX_MESSAGE_SIZE_LIMIT_BYTES_def
  MAX_RECIPIENTS_LIMIT_def
  MAX_SMTP_CONNECTIONS_LIMIT_def
  MAX_RATE_LIMIT_COUNT_def
  DEFAULT_SMTP_MAX_CONCURRENT_CONNECTIONS_def
  DEFAULT_SMTP_CONNECTION_RATE_LIMIT_COUNT_def
  MAX_RETENTION_DAYS_def
  MAX_CLEANUP_BATCH_SIZE_def
  MAX_HTTP_REQUEST_BODY_LIMIT_BYTES_def
  MAX_HTTP_LIVE_CONNECTIONS_LIMIT_def
  MAX_HTTP_CONCURRENCY_LIMIT_def
  MAX_HTTP_BODY_MEMORY_BUDGET_BYTES_def
  MAX_PARSE_QUEUE_MESSAGES_LIMIT_def
  MAX_PARSE_QUEUE_BYTES_LIMIT_def
  MAX_MESSAGE_PREVIEW_BODY_BYTES_def
  MAX_MESSAGE_PREVIEW_HEADERS_BYTES_def
  MAX_MESSAGE_PREVIEW_INLINE_ITEM_BYTES_def
  MAX_MESSAGE_PREVIEW_INLINE_TOTAL_BYTES_def

section \<open>Validation\<close>

type_synonym settings = "string \<rightharpoonup> pyval"

text \<open>A call of \<open>_validate_integer_range\<close>: the name in the message, the attribute, minimum and maximum.\<close>

type_synonym integer_limit = "string \<times> string \<times> int \<times> int"

definition http_limits :: "integer_limit list" where
  "http_limits = [
     (''PORT'', ''port'', 1, 65535),
     (''HTTP_MAX_REQUEST_BODY_BYTES'', ''http_max_request_body_bytes'', 1, MAX_HTTP_REQUEST_BODY_LIMIT_BYTES),
     (''HTTP_LIVE_CONNECTION_LIMIT'', ''http_live_connection_limit'', 1, MAX_HTTP_LIVE_CONNECTIONS_LIMIT),
     (''HTTP_REQUEST_BODY_TIMEOUT_SECONDS'', ''http_request_body_timeout_seconds'', 1, 300),
     (''HTTP_CONCURRENCY_LIMIT'', ''http_concurrency_limit'', 1, MAX_HTTP_CONCURRENCY_LIMIT),
     (''HTTP_BODY_MEMORY_BUDGET_BYTES'', ''http_body_memory_budget_bytes'', 1, MAX_HTTP_BODY_MEMORY_BUDGET_BYTES)]"

definition database_limits :: "integer_limit list" where
  "database_limits = [
     (''DATABASE_WRITE_QUEUE_CAPACITY'', ''database_write_queue_capacity'', 1, 100000),
     (''DATABASE_WRITE_MAX_WAITERS'', ''database_write_max_waiters'', 1, 100000),
     (''DATABASE_READ_POOL_SIZE'', ''database_read_pool_size'', 1, 256),
     (''DATABASE_READ_QUEUE_CAPACITY'', ''database_read_queue_capacity'', 1, 100000),
     (''DATABASE_READ_MAX_WAITERS'', ''database_read_max_waiters'', 1, 100000)]"

definition smtp_limits :: "integer_limit list" where
  "smtp_limits = [
     (''DATABASE_READ_TIMEOUT_SECONDS'', ''database_read_timeout_seconds'', 1, 300),
     (''SMTP_PORT'', ''smtp_port'', 1, 65535),
     (''MAX_MESSAGE_SIZE_BYTES'', ''max_message_size_bytes'', 1, MAX_MESSAGE_SIZE_LIMIT_BYTES),
     (''MAX_RECIPIENTS_PER_MESSAGE'', ''max_recipients_per_message'', 1, MAX_RECIPIENTS_LIMIT),
     (''SMTP_IDLE_TIMEOUT_SECONDS'', ''smtp_idle_timeout_seconds'', 1, 86400),
     (''SMTP_MAX_CONCURRENT_CONNECTIONS'', ''smtp_max_concurrent_connections'', 0, MAX_SMTP_CONNECTIONS_LIMIT),
     (''SMTP_CONNECTION_RATE_LIMIT_COUNT'', ''smtp_connection_rate_limit_count'', 0, MAX_RATE_LIMIT_COUNT),
     (''SMTP_CONNECTION_RATE_LIMIT_WINDOW_SECONDS'', ''smtp_connection_rate_limit_window_seconds'', 1, 86400)]"

definition parse_limits :: "integer_limit list" where
  "parse_limits = [
     (''PARSE_WORKER_COUNT'', ''parse_worker_count'', 1, 128),
     (''PARSE_QUEUE_MAX_MESSAGES'', ''parse_queue_max_messages'', 1, MAX_PARSE_QUEUE_MESSAGES_LIMIT),
     (''PARSE_QUEUE_MAX_BYTES'', ''parse_queue_max_bytes'', 1, MAX_PARSE_QUEUE_BYTES_LIMIT)]"

definition preview_limits :: "integer_limit list" where
  "preview_limits = [
     (''MESSAGE_PREVIEW_BODY_BYTES'', ''message_preview_body_bytes'', 1, MAX_MESSAGE_PREVIEW_BODY_BYTES),
     (''MESSAGE_PREVIEW_HEADERS_BYTES'', ''message_preview_headers_bytes'', 1, MAX_MESSAGE_PREVIEW_HEADERS_BYTES),
     (''MESSAGE_PREVIEW_INLINE_ITEM_BYTES'', ''message_preview_inline_item_bytes'', 1, MAX_MESSAGE_PREVIEW_INLINE_ITEM_BYTES),
     (''MESSAGE_PREVIEW_INLINE_TOTAL_BYTES'', ''message_preview_inline_total_bytes'', 1, MAX_MESSAGE_PREVIEW_INLINE_TOTAL_BYTES)]"

definition disk_limits :: "integer_limit list" where
  "disk_limits = [
     (''DISK_WARNING_THRESHOLD_PERCENT'', ''disk_warning_threshold_percent'', 1, 100)]"

definition retention_limits :: "integer_limit list" where
  "retention_limits = [
     (''CATCH_ALL_RETENTION_DAYS'', ''catch_all_retention_days'', 0, MAX_RETENTION_DAYS),
     (''RETENTION_CLEANUP_INTERVAL_SECONDS'', ''retention_cleanup_interval_seconds'', 1, 86400),
     (''SMTP_SESSION_RETENTION_SECONDS'', ''smtp_session_retention_seconds'', 1, 315360000),
     (''EMPTY_MAILBOX_RETENTION_SECONDS'', ''empty_mailbox_retention_seconds'', 1, 315360000),
     (''METRIC_RETENTION_SECONDS'', ''metric_retention_seconds'', 1, 315360000),
     (''AUDIT_RETENTION_DAYS'', ''audit_retention_days'', 1, MAX_RETENTION_DAYS),
     (''CLEANUP_BATCH_SIZE'', ''cleanup_batch_size'', 1, MAX_CLEANUP_BATCH_SIZE),
     (''FILE_GC_BATCH_SIZE'', ''file_gc_batch_size'', 1, MAX_CLEANUP_BATCH_SIZE),
     (''MAINTENANCE_RUN_RETENTION_DAYS'', ''maintenance_run_retention_days'', 1, MAX_RETENTION_DAYS),
     (''QUARANTINE_RETENTION_DAYS'', ''quarantine_retention_days'', 1, MAX_RETENTION_DAYS),
     (''ORPHAN_ARTIFACT_GRACE_SECONDS'', ''orphan_artifact_grace_seconds'', 1, 315360000),
     (''ARTIFACT_SWEEP_BATCH_SIZE'', ''artifact_sweep_batch_size'', 1, MAX_CLEANUP_BATCH_SIZE)]"

definition validate_integer_range :: "string \<Rightarrow> pyval option \<Rightarrow> int \<Rightarrow> int \<Rightarrow> unit result" where
  "validate_integer_range key v minimum maximum =
     (case v of
        Some (PyInt n) \<Rightarrow> if n < minimum \<or> n > maximum then Inl (ValueError (''invalid '' @ key)) else Inr ()
      | _ \<Rightarrow> Inl (ValueError (''invalid '' @ key)))"

fun validate_limit :: "settings \<Rightarrow> integer_limit \<Rightarrow> unit result" where
  "validate_limit s (key, attr, lo, hi) = validate_integer_range key (s attr) lo hi"

definition int_attr :: "settings \<Rightarrow> string \<Rightarrow> int" where
  "int_attr s a = (case s a of Some (PyInt n) \<Rightarrow> n | _ \<Rightarrow> 0)"

definition text_attr :: "settings \<Rightarrow> string \<Rightarrow> string" where
  "text_attr s a = (case s a of Some (PyStr t) \<Rightarrow> t | _ \<Rightarrow> [])"

text \<open>\<open>if a < b: raise ValueError(message)\<close>.\<close>

definition require_at_least :: "settings \<Rightarrow> string \<Rightarrow> string \<Rightarrow> string \<Rightarrow> unit result" where
  "require_at_least s a b msg = (if int_attr s a < int_attr s b then Inl (ValueError msg) else Inr ())"

text \<open>
  \<open>ipaddress.ip_address(host).is_loopback\<close>; the parser is a parameter. An IPv6 address is loopback when it
  is \<open>::1\<close>; newer Python releases also count the IPv4 addresses mapped into IPv6, whose listeners are
  here treated as exposed.
\<close>

definition is_loopback :: "nat \<times> nat \<Rightarrow> bool" where
  "is_loopback ip = (if fst ip = 4 then snd ip div 2 ^ 24 = 127 else snd ip = 1)"

definition host_exposes_network :: "pylib \<Rightarrow> string \<Rightarrow> bool" where
  "host_exposes_network L host =
     (let normalized = str_lower (strip_by (\<lambda>c. c = CHR ''['' \<or> c = CHR '']'') (str_strip host)) in
      if normalized \<in> {[], ''localhost''} then False
      else (case parse_ip_address L normalized of None \<Rightarrow> True | Some ip \<Rightarrow> \<not> is_loopback ip))"

definition legacy_secret_enabled :: "string \<Rightarrow> string \<Rightarrow> bool" where
  "legacy_secret_enabled v dflt = (let text = str_strip v in text \<noteq> [] \<and> text \<noteq> dflt)"

text \<open>The first error of a sequence of checks.\<close>

fun first_error :: "unit result list \<Rightarrow> unit result" where
  "first_error [] = Inr ()"
| "first_error (r # rs) = bindR r (\<lambda>_. first_error rs)"

definition str_upper :: "string \<Rightarrow> string" where
  "str_upper = map (\<lambda>c. let n = of_char c :: nat in if 97 \<le> n \<and> n \<le> 122 then char_of (n - 32) else c)"

definition or_default :: "string \<Rightarrow> string \<Rightarrow> string" where
  "or_default s d = (if s = [] then d else s)"

definition exposed_without_limit :: "pylib \<Rightarrow> settings \<Rightarrow> bool" where
  "exposed_without_limit L s \<longleftrightarrow>
     host_exposes_network L (text_attr s ''smtp_host'') \<and> int_attr s ''smtp_max_concurrent_connections'' = 0"

text \<open>The checks up to the disk threshold, in their order.\<close>

definition post_init_limits :: "pylib \<Rightarrow> settings \<Rightarrow> unit result" where
  "post_init_limits L s = first_error (
     map (validate_limit s) http_limits
     @ require_at_least s ''http_body_memory_budget_bytes'' ''http_max_request_body_bytes''
         ''HTTP_BODY_MEMORY_BUDGET_BYTES must be at least HTTP_MAX_REQUEST_BODY_BYTES''
     # map (validate_limit s) database_limits
     @ require_at_least s ''database_read_queue_capacity'' ''database_read_pool_size''
         ''DATABASE_READ_QUEUE_CAPACITY must be at least DATABASE_READ_POOL_SIZE''
     # map (validate_limit s) smtp_limits
     @ (if exposed_without_limit L s
        then Inl (ValueError ''SMTP_MAX_CONCURRENT_CONNECTIONS must be non-zero for a non-loopback SMTP_HOST'') else Inr ())
     # map (validate_limit s) parse_limits
     @ require_at_least s ''parse_queue_max_bytes'' ''max_message_size_bytes''
         ''PARSE_QUEUE_MAX_BYTES must be at least MAX_MESSAGE_SIZE_BYTES''
     # map (validate_limit s) preview_limits
     @ require_at_least s ''message_preview_inline_total_bytes'' ''message_preview_inline_item_bytes''
         ''MESSAGE_PREVIEW_INLINE_ITEM_BYTES must not exceed MESSAGE_PREVIEW_INLINE_TOTAL_BYTES''
     # map (validate_limit s) disk_limits)"

text \<open>The texts, stripped and checked.\<close>

definition INGRESS_MODES :: "string list" where
  "INGRESS_MODES = [''managed_only'', ''managed_plus_catchall'']"

definition text_setting :: "(string \<Rightarrow> string) \<Rightarrow> string \<Rightarrow> settings \<Rightarrow> string \<Rightarrow> string" where
  "text_setting fold_case dflt s attr = or_default (fold_case (str_strip (text_attr s attr))) dflt"

definition normalized_texts :: "settings \<Rightarrow> settings" where
  "normalized_texts s =
     (let s1 = (if legacy_secret_enabled (text_attr s ''admin_token'') DEFAULT_ADMIN_TOKEN then s
                else s(''legacy_admin_token_enabled'' \<mapsto> PyBool False));
          s2 = (if legacy_secret_enabled (text_attr s ''public_api_key'') DEFAULT_PUBLIC_API_KEY then s1
                else s1(''legacy_public_api_key_enabled'' \<mapsto> PyBool False))
      in s2(''log_level'' \<mapsto> PyStr (text_setting str_upper ''INFO'' s ''log_level''),
            ''log_format'' \<mapsto> PyStr (text_setting str_lower ''json'' s ''log_format''),
            ''metrics_token'' \<mapsto> PyStr (str_strip (text_attr s ''metrics_token'')),
            ''api_cursor_secret'' \<mapsto> PyStr (str_strip (text_attr s ''api_cursor_secret'')),
            ''ingress_mode'' \<mapsto> PyStr (text_setting str_lower ''managed_only'' s ''ingress_mode'')))"

definition require :: "bool \<Rightarrow> string \<Rightarrow> unit result" where
  "require c msg = (if c then Inr () else Inl (ValueError msg))"

definition post_init_texts :: "settings \<Rightarrow> settings result" where
  "post_init_texts s =
     (let s' = normalized_texts s; secret = text_attr s' ''api_cursor_secret'' in
      bindR (first_error [
          require (text_attr s' ''log_level'' \<in> {''CRITICAL'', ''ERROR'', ''WARNING'', ''INFO'', ''DEBUG''}) ''invalid LOG_LEVEL'',
          require (text_attr s' ''log_format'' \<in> {''json'', ''text''}) ''invalid LOG_FORMAT'',
          require (secret = [] \<or> 32 \<le> length secret) ''API_CURSOR_SECRET must contain at least 32 characters'',
          require (0 \<le> int_attr s' ''readiness_min_free_disk_bytes'') ''invalid READINESS_MIN_FREE_DISK_BYTES'',
          require (text_attr s' ''ingress_mode'' \<in> set INGRESS_MODES) ''invalid INGRESS_MODE''])
        (\<lambda>_. Inr s'))"

definition post_init :: "pylib \<Rightarrow> settings \<Rightarrow> settings result" where
  "post_init L s =
     bindR (post_init_limits L s) (\<lambda>_.
     bindR (post_init_texts s) (\<lambda>s1.
     bindR (first_error (map (validate_limit s1) retention_limits)) (\<lambda>_. Inr s1)))"

section \<open>Reading the environment\<close>

type_synonym environ = "string \<rightharpoonup> string"

definition coerce_str :: "environ \<Rightarrow> string \<Rightarrow> string \<Rightarrow> string" where
  "coerce_str raw key dflt = (case raw key of None \<Rightarrow> dflt | Some v \<Rightarrow> v)"

definition coerce_int :: "environ \<Rightarrow> string \<Rightarrow> int \<Rightarrow> int result" where
  "coerce_int raw key dflt =
     (case raw key of
        None \<Rightarrow> Inr dflt
      | Some v \<Rightarrow> if str_strip v = [] then Inr dflt
          else (case parse_int v of Some n \<Rightarrow> Inr n | None \<Rightarrow> Inl (ValueError ''invalid literal for int() with base 10'')))"

definition coerce_bool :: "environ \<Rightarrow> string \<Rightarrow> bool \<Rightarrow> bool result" where
  "coerce_bool raw key dflt =
     (case raw key of
        None \<Rightarrow> Inr dflt
      | Some v \<Rightarrow> if str_strip v = [] then Inr dflt
          else let normalized = str_lower (str_strip v) in
          if normalized \<in> {''1'', ''true'', ''yes'', ''on''} then Inr True
          else if normalized \<in> {''0'', ''false'', ''no'', ''off''} then Inr False
          else Inl (ValueError (''invalid '' @ key)))"

text \<open>The keyword arguments of \<open>Settings(...)\<close> in \<open>default_settings\<close>.\<close>

datatype field_source =
    TextField string string
  | IntField string int
  | BoolField string bool
  | SecretField string string

definition settings_fields :: "(string \<times> field_source) list" where
  "settings_fields = [
     (''bootstrap_admin_username'', TextField ''BOOTSTRAP_ADMIN_USERNAME'' ''admin''),
     (''bootstrap_admin_password'', TextField ''BOOTSTRAP_ADMIN_PASSWORD'' DEFAULT_BOOTSTRAP_ADMIN_PASSWORD),
     (''session_cookie_name'', TextField ''SESSION_COOKIE_NAME'' ''rapid_inbox_session''),
     (''host'', TextField ''HOST'' ''127.0.0.1''),
     (''port'', IntField ''PORT'' 8000),
     (''http_max_request_body_bytes'', IntField ''HTTP_MAX_REQUEST_BODY_BYTES'' 1048576),
     (''http_live_connection_limit'', IntField ''HTTP_LIVE_CONNECTION_LIMIT'' 256),
     (''http_request_body_timeout_seconds'', IntField ''HTTP_REQUEST_BODY_TIMEOUT_SECONDS'' 15),
     (''http_body_memory_budget_bytes'', IntField ''HTTP_BODY_MEMORY_BUDGET_BYTES'' 268435456),
     (''http_concurrency_limit'', IntField ''HTTP_CONCURRENCY_LIMIT'' 1000),
     (''database_write_queue_capacity'', IntField ''DATABASE_WRITE_QUEUE_CAPACITY'' 256),
     (''database_write_max_waiters'', IntField ''DATABASE_WRITE_MAX_WAITERS'' 1024),
     (''database_read_pool_size'', IntField ''DATABASE_READ_POOL_SIZE'' 1),
     (''database_read_queue_capacity'', IntField ''DATABASE_READ_QUEUE_CAPACITY'' 256),
     (''database_read_max_waiters'', IntField ''DATABASE_READ_MAX_WAITERS'' 1024),
     (''database_read_timeout_seconds'', IntField ''DATABASE_READ_TIMEOUT_SECONDS'' 5),
     (''smtp_host'', TextField ''SMTP_HOST'' ''127.0.0.1''),
     (''smtp_port'', IntField ''SMTP_PORT'' 25),
     (''max_message_size_bytes'', IntField ''MAX_MESSAGE_SIZE_BYTES'' 52428800),
     (''max_recipients_per_message'', IntField ''MAX_RECIPIENTS_PER_MESSAGE'' 20),
     (''smtp_idle_timeout_seconds'', IntField ''SMTP_IDLE_TIMEOUT_SECONDS'' 30),
     (''smtp_max_concurrent_connections'', IntField ''SMTP_MAX_CONCURRENT_CONNECTIONS'' DEFAULT_SMTP_MAX_CONCURRENT_CONNECTIONS),
     (''smtp_connection_rate_limit_count'', IntField ''SMTP_CONNECTION_RATE_LIMIT_COUNT'' DEFAULT_SMTP_CONNECTION_RATE_LIMIT_COUNT),
     (''smtp_connection_rate_limit_window_seconds'', IntField ''SMTP_CONNECTION_RATE_LIMIT_WINDOW_SECONDS'' 60),
     (''smtp_close_after_data'', BoolField ''SMTP_CLOSE_AFTER_DATA'' True),
     (''parse_worker_count'', IntField ''PARSE_WORKER_COUNT'' 4),
     (''parse_queue_max_messages'', IntField ''PARSE_QUEUE_MAX_MESSAGES'' 10000),
     (''parse_queue_max_bytes'', IntField ''PARSE_QUEUE_MAX_BYTES'' 536870912),
     (''message_preview_body_bytes'', IntField ''MESSAGE_PREVIEW_BODY_BYTES'' 131072),
     (''message_preview_headers_bytes'', IntField ''MESSAGE_PREVIEW_HEADERS_BYTES'' 65536),
     (''message_preview_inline_item_bytes'', IntField ''MESSAGE_PREVIEW_INLINE_ITEM_BYTES'' 65536),
     (''message_preview_inline_total_bytes'', IntField ''MESSAGE_PREVIEW_INLINE_TOTAL_BYTES'' 262144),
     (''fsync_storage_writes'', BoolField ''FSYNC_STORAGE_WRITES'' False),
     (''disk_warning_threshold_percent'', IntField ''DISK_WARNING_THRESHOLD_PERCENT'' 85),
     (''ingress_mode'', TextField ''INGRESS_MODE'' ''managed_only''),
     (''catch_all_public_web_enabled'', BoolField ''CATCH_ALL_PUBLIC_WEB_ENABLED'' False),
     (''catch_all_public_api_enabled'', BoolField ''CATCH_ALL_PUBLIC_API_ENABLED'' False),
     (''catch_all_retention_days'', IntField ''CATCH_ALL_RETENTION_DAYS'' 0),
     (''retention_cleanup_interval_seconds'', IntField ''RETENTION_CLEANUP_INTERVAL_SECONDS'' 30),
     (''smtp_session_retention_seconds'', IntField ''SMTP_SESSION_RETENTION_SECONDS'' 86400),
     (''empty_mailbox_retention_seconds'', IntField ''EMPTY_MAILBOX_RETENTION_SECONDS'' 86400),
     (''metric_retention_seconds'', IntField ''METRIC_RETENTION_SECONDS'' 604800),
     (''audit_retention_days'', IntField ''AUDIT_RETENTION_DAYS'' 90),
     (''cleanup_batch_size'', IntField ''CLEANUP_BATCH_SIZE'' 1000),
     (''file_gc_batch_size'', IntField ''FILE_GC_BATCH_SIZE'' 500),
     (''maintenance_run_retention_days'', IntField ''MAINTENANCE_RUN_RETENTION_DAYS'' 30),
     (''quarantine_retention_days'', IntField ''QUARANTINE_RETENTION_DAYS'' 30),
     (''orphan_artifact_grace_seconds'', IntField ''ORPHAN_ARTIFACT_GRACE_SECONDS'' 86400),
     (''artifact_sweep_batch_size'', IntField ''ARTIFACT_SWEEP_BATCH_SIZE'' 500),
     (''log_level'', TextField ''LOG_LEVEL'' ''INFO''),
     (''log_format'', TextField ''LOG_FORMAT'' ''json''),
     (''request_log_enabled'', BoolField ''REQUEST_LOG_ENABLED'' True),
     (''metrics_enabled'', BoolField ''METRICS_ENABLED'' True),
     (''metrics_token'', TextField ''METRICS_TOKEN'' []),
     (''api_cursor_secret'', TextField ''API_CURSOR_SECRET'' []),
     (''readiness_min_free_disk_bytes'', IntField ''READINESS_MIN_FREE_DISK_BYTES'' 67108864),
     (''admin_token'', TextField ''ADMIN_TOKEN'' DEFAULT_ADMIN_TOKEN),
     (''public_api_key'', TextField ''PUBLIC_API_KEY'' DEFAULT_PUBLIC_API_KEY),
     (''legacy_admin_token_enabled'', SecretField ''ADMIN_TOKEN'' DEFAULT_ADMIN_TOKEN),
     (''legacy_public_api_key_enabled'', SecretField ''PUBLIC_API_KEY'' DEFAULT_PUBLIC_API_KEY)]"

fun read_field :: "environ \<Rightarrow> field_source \<Rightarrow> pyval result" where
  "read_field raw (TextField key dflt) = Inr (PyStr (coerce_str raw key dflt))"
| "read_field raw (IntField key dflt) = bindR (coerce_int raw key dflt) (\<lambda>n. Inr (PyInt n))"
| "read_field raw (BoolField key dflt) = bindR (coerce_bool raw key dflt) (\<lambda>b. Inr (PyBool b))"
| "read_field raw (SecretField key dflt) = Inr (PyBool (legacy_secret_enabled (coerce_str raw key dflt) dflt))"

definition default_settings :: "pylib \<Rightarrow> environ \<Rightarrow> settings result" where
  "default_settings L raw =
     bindR (mapR (\<lambda>(attr, src). bindR (read_field raw src) (\<lambda>v. Inr (attr, v))) settings_fields) (\<lambda>kvs.
       post_init L (map_of kvs))"

section \<open>What validation establishes\<close>

definition startup_limits :: "integer_limit list" where
  "startup_limits = http_limits @ database_limits @ smtp_limits @ parse_limits @ preview_limits @ disk_limits"

definition integer_limits :: "integer_limit list" where
  "integer_limits = startup_limits @ retention_limits"

definition BOOLEAN_ATTRIBUTES :: "string list" where
  "BOOLEAN_ATTRIBUTES = [''catch_all_public_web_enabled'', ''catch_all_public_api_enabled'']"

definition within :: "settings \<Rightarrow> integer_limit \<Rightarrow> bool" where
  "within s l = (case l of (key, attr, lo, hi) \<Rightarrow>
     (case s attr of Some (PyInt n) \<Rightarrow> lo \<le> n \<and> n \<le> hi | _ \<Rightarrow> False))"

definition is_boolean :: "pyval option \<Rightarrow> bool" where
  "is_boolean v = (case v of Some (PyBool b) \<Rightarrow> True | _ \<Rightarrow> False)"

text \<open>
  Well-typed settings: every integer in its range, the catch-all switches booleans, the ingress mode one of two,
  and a message of the largest size fits the parse queue.
\<close>

definition settings_typed :: "settings \<Rightarrow> bool" where
  "settings_typed s \<longleftrightarrow>
     list_all (within s) integer_limits
     \<and> list_all (\<lambda>a. is_boolean (s a)) BOOLEAN_ATTRIBUTES
     \<and> text_attr s ''ingress_mode'' \<in> set INGRESS_MODES
     \<and> int_attr s ''max_message_size_bytes'' \<le> int_attr s ''parse_queue_max_bytes''"

lemma first_error_iff: "first_error rs = Inr () \<longleftrightarrow> (\<forall>r \<in> set rs. r = Inr ())"
  by (induction rs) (auto simp: bindR_Inr_iff)

lemma validate_limit_iff: "validate_limit s l = Inr () \<longleftrightarrow> within s l"
  by (cases l rule: prod_cases4) (auto simp: validate_integer_range_def within_def split: option.splits pyval.splits)

definition TEXT_ATTRIBUTES :: "string list" where
  "TEXT_ATTRIBUTES = [''legacy_admin_token_enabled'', ''legacy_public_api_key_enabled'', ''log_level'', ''log_format'',
     ''metrics_token'', ''api_cursor_secret'', ''ingress_mode'']"

lemma normalized_texts_other: "a \<notin> set TEXT_ATTRIBUTES \<Longrightarrow> normalized_texts s a = s a"
  by (simp add: normalized_texts_def TEXT_ATTRIBUTES_def Let_def)

lemma post_init_texts_ok:
  assumes "post_init_texts s = Inr s'"
  shows "s' = normalized_texts s" and "text_attr s' ''ingress_mode'' \<in> set INGRESS_MODES"
proof -
  from assms show s': "s' = normalized_texts s" by (simp add: post_init_texts_def Let_def bindR_Inr_iff)
  from assms have "require (text_attr s' ''ingress_mode'' \<in> set INGRESS_MODES) ''invalid INGRESS_MODE'' = Inr ()"
    unfolding post_init_texts_def Let_def s' [symmetric] by (auto simp: bindR_Inr_iff)
  then show "text_attr s' ''ingress_mode'' \<in> set INGRESS_MODES" by (simp add: require_def split: if_splits)
qed

lemma post_init_texts_other: "post_init_texts s = Inr s' \<Longrightarrow> a \<notin> set TEXT_ATTRIBUTES \<Longrightarrow> s' a = s a"
  using post_init_texts_ok(1) normalized_texts_other by blast

lemma limits_not_text:
  "list_all (\<lambda>l. fst (snd l) \<notin> set TEXT_ATTRIBUTES) integer_limits"
  "list_all (\<lambda>a. a \<notin> set TEXT_ATTRIBUTES) BOOLEAN_ATTRIBUTES"
  by code_simp+

lemma within_cong: "s (fst (snd l)) = s' (fst (snd l)) \<Longrightarrow> within s l \<longleftrightarrow> within s' l"
  by (cases l rule: prod_cases4) (simp add: within_def)

lemma post_init_typed:
  assumes "post_init L s = Inr s'" and "list_all (\<lambda>a. is_boolean (s a)) BOOLEAN_ATTRIBUTES"
  shows "settings_typed s' \<and> \<not> exposed_without_limit L s'"
proof -
  from assms(1) have lim: "post_init_limits L s = Inr ()" and texts: "post_init_texts s = Inr s'"
    and ret: "first_error (map (validate_limit s') retention_limits) = Inr ()"
    by (auto simp: post_init_def bindR_Inr_iff)
  note other = post_init_texts_other [OF texts]
  have start: "within s l" if "l \<in> set startup_limits" for l
    using lim that unfolding post_init_limits_def first_error_iff startup_limits_def
    by (auto simp: validate_limit_iff [symmetric])
  have "within s' l" if "l \<in> set integer_limits" for l
  proof (cases "l \<in> set retention_limits")
    case True
    with ret show ?thesis by (simp add: first_error_iff validate_limit_iff)
  next
    case False
    with that have "within s l" by (intro start) (simp add: integer_limits_def)
    moreover have "fst (snd l) \<notin> set TEXT_ATTRIBUTES" using that limits_not_text(1) by (simp add: list_all_iff)
    then have "s' (fst (snd l)) = s (fst (snd l))" by (rule other)
    ultimately show ?thesis using within_cong [of s' l s] by blast
  qed
  moreover have "is_boolean (s' a)" if "a \<in> set BOOLEAN_ATTRIBUTES" for a
    using assms(2) that limits_not_text(2) other [of a] by (auto simp: list_all_iff)
  moreover have same: "s' ''max_message_size_bytes'' = s ''max_message_size_bytes''"
    "s' ''parse_queue_max_bytes'' = s ''parse_queue_max_bytes''" "s' ''smtp_host'' = s ''smtp_host''"
    "s' ''smtp_max_concurrent_connections'' = s ''smtp_max_concurrent_connections''"
    by (rule other, simp add: TEXT_ATTRIBUTES_def)+
  have "require_at_least s ''parse_queue_max_bytes'' ''max_message_size_bytes''
         ''PARSE_QUEUE_MAX_BYTES must be at least MAX_MESSAGE_SIZE_BYTES'' = Inr ()"
    "(if exposed_without_limit L s
        then Inl (ValueError ''SMTP_MAX_CONCURRENT_CONNECTIONS must be non-zero for a non-loopback SMTP_HOST'') else Inr ())
      = (Inr () :: unit result)"
    using lim unfolding post_init_limits_def first_error_iff by simp_all
  then have "int_attr s ''max_message_size_bytes'' \<le> int_attr s ''parse_queue_max_bytes''" "\<not> exposed_without_limit L s"
    by (auto simp: require_at_least_def split: if_splits)
  then have "int_attr s' ''max_message_size_bytes'' \<le> int_attr s' ''parse_queue_max_bytes''" "\<not> exposed_without_limit L s'"
    by (simp_all add: int_attr_def text_attr_def exposed_without_limit_def same)
  ultimately show ?thesis
    using post_init_texts_ok(2) [OF texts] by (simp add: settings_typed_def list_all_iff)
qed

lemma read_fields:
  assumes "mapR (\<lambda>(attr, src). bindR (f src) (\<lambda>v. Inr (attr, v))) fs = Inr kvs" and "map_of fs a = Some src"
  shows "\<exists>v. f src = Inr v \<and> map_of kvs a = Some v"
  using assms
proof (induction fs arbitrary: kvs)
  case (Cons x fs)
  then show ?case by (cases x) (auto simp: bindR_Inr_iff split: if_splits)
qed simp

lemma default_settings_ok:
  assumes "default_settings L raw = Inr s"
  shows "settings_typed s \<and> \<not> exposed_without_limit L s"
proof -
  from assms obtain kvs where kvs: "mapR (\<lambda>(attr, src). bindR (read_field raw src) (\<lambda>v. Inr (attr, v))) settings_fields = Inr kvs"
    and init: "post_init L (map_of kvs) = Inr s"
    by (auto simp: default_settings_def bindR_Inr_iff)
  have "map_of settings_fields ''catch_all_public_web_enabled'' = Some (BoolField ''CATCH_ALL_PUBLIC_WEB_ENABLED'' False)"
    "map_of settings_fields ''catch_all_public_api_enabled'' = Some (BoolField ''CATCH_ALL_PUBLIC_API_ENABLED'' False)"
    by code_simp+
  with read_fields [OF kvs] have "list_all (\<lambda>a. is_boolean (map_of kvs a)) BOOLEAN_ATTRIBUTES"
    by (fastforce simp: BOOLEAN_ATTRIBUTES_def is_boolean_def bindR_Inr_iff)
  with post_init_typed [OF init] show ?thesis by blast
qed

section \<open>The declared settings\<close>

text \<open>
  What the rest of the program may assume of its settings, written down apart from the code: the range of
  every integer in plain numbers (\<open>None\<close>: no upper bound), the type of every other attribute, and the
  relations between them.
\<close>

definition declared_ranges :: "(string \<times> int \<times> int option) list" where
  "declared_ranges = [
     (''port'', 1, Some 65535),
     (''http_max_request_body_bytes'', 1, Some 67108864),
     (''http_live_connection_limit'', 1, Some 100000),
     (''http_request_body_timeout_seconds'', 1, Some 300),
     (''http_concurrency_limit'', 1, Some 100000),
     (''http_body_memory_budget_bytes'', 1, Some 8589934592),
     (''database_write_queue_capacity'', 1, Some 100000),
     (''database_write_max_waiters'', 1, Some 100000),
     (''database_read_pool_size'', 1, Some 256),
     (''database_read_queue_capacity'', 1, Some 100000),
     (''database_read_max_waiters'', 1, Some 100000),
     (''database_read_timeout_seconds'', 1, Some 300),
     (''smtp_port'', 1, Some 65535),
     (''max_message_size_bytes'', 1, Some 1073741824),
     (''max_recipients_per_message'', 1, Some 10000),
     (''smtp_idle_timeout_seconds'', 1, Some 86400),
     (''smtp_max_concurrent_connections'', 0, Some 100000),
     (''smtp_connection_rate_limit_count'', 0, Some 10000000),
     (''smtp_connection_rate_limit_window_seconds'', 1, Some 86400),
     (''parse_worker_count'', 1, Some 128),
     (''parse_queue_max_messages'', 1, Some 1000000),
     (''parse_queue_max_bytes'', 1, Some 1099511627776),
     (''message_preview_body_bytes'', 1, Some 16777216),
     (''message_preview_headers_bytes'', 1, Some 1048576),
     (''message_preview_inline_item_bytes'', 1, Some 8388608),
     (''message_preview_inline_total_bytes'', 1, Some 33554432),
     (''disk_warning_threshold_percent'', 1, Some 100),
     (''catch_all_retention_days'', 0, Some 36500),
     (''retention_cleanup_interval_seconds'', 1, Some 86400),
     (''smtp_session_retention_seconds'', 1, Some 315360000),
     (''empty_mailbox_retention_seconds'', 1, Some 315360000),
     (''metric_retention_seconds'', 1, Some 315360000),
     (''audit_retention_days'', 1, Some 36500),
     (''cleanup_batch_size'', 1, Some 10000),
     (''file_gc_batch_size'', 1, Some 10000),
     (''maintenance_run_retention_days'', 1, Some 36500),
     (''quarantine_retention_days'', 1, Some 36500),
     (''orphan_artifact_grace_seconds'', 1, Some 315360000),
     (''artifact_sweep_batch_size'', 1, Some 10000),
     (''readiness_min_free_disk_bytes'', 0, None)]"

fun in_range :: "int \<times> int option \<Rightarrow> int \<Rightarrow> bool" where
  "in_range (lo, None) n \<longleftrightarrow> lo \<le> n"
| "in_range (lo, Some hi) n \<longleftrightarrow> lo \<le> n \<and> n \<le> hi"

definition field_declared :: "settings \<Rightarrow> string \<times> field_source \<Rightarrow> bool" where
  "field_declared s f =
     (case f of
        (a, TextField _ _) \<Rightarrow> (case s a of Some (PyStr _) \<Rightarrow> True | _ \<Rightarrow> False)
      | (a, BoolField _ _) \<Rightarrow> is_boolean (s a)
      | (a, SecretField _ _) \<Rightarrow> is_boolean (s a)
      | (a, IntField _ _) \<Rightarrow>
          (case (map_of declared_ranges a, s a) of (Some r, Some (PyInt n)) \<Rightarrow> in_range r n | _ \<Rightarrow> False))"

definition local_smtp_host :: "pylib \<Rightarrow> settings \<Rightarrow> bool" where
  "local_smtp_host L s \<longleftrightarrow>
     (let h = str_lower (strip_by (\<lambda>c. c = CHR ''['' \<or> c = CHR '']'') (str_strip (text_attr s ''smtp_host''))) in
      h = [] \<or> h = ''localhost''
      \<or> (\<exists>v n. parse_ip_address L h = Some (v, n) \<and> (if v = 4 then 127 * 2 ^ 24 \<le> n \<and> n < 128 * 2 ^ 24 else n = 1)))"

definition settings_declared :: "pylib \<Rightarrow> settings \<Rightarrow> bool" where
  "settings_declared L s \<longleftrightarrow>
     list_all (field_declared s) settings_fields
     \<and> int_attr s ''http_max_request_body_bytes'' \<le> int_attr s ''http_body_memory_budget_bytes''
     \<and> int_attr s ''database_read_pool_size'' \<le> int_attr s ''database_read_queue_capacity''
     \<and> int_attr s ''max_message_size_bytes'' \<le> int_attr s ''parse_queue_max_bytes''
     \<and> int_attr s ''message_preview_inline_item_bytes'' \<le> int_attr s ''message_preview_inline_total_bytes''
     \<and> text_attr s ''log_level'' \<in> {''CRITICAL'', ''ERROR'', ''WARNING'', ''INFO'', ''DEBUG''}
     \<and> text_attr s ''log_format'' \<in> {''json'', ''text''}
     \<and> text_attr s ''ingress_mode'' \<in> {''managed_only'', ''managed_plus_catchall''}
     \<and> (text_attr s ''api_cursor_secret'' = [] \<or> 32 \<le> length (text_attr s ''api_cursor_secret''))
     \<and> (int_attr s ''smtp_max_concurrent_connections'' = 0 \<longrightarrow> local_smtp_host L s)"

lemma ranges_checked:
  "list_all (\<lambda>(a, src). case src of
       IntField _ _ \<Rightarrow> a = ''readiness_min_free_disk_bytes''
         \<or> list_ex (\<lambda>(k, a', lo, hi). a' = a \<and> map_of declared_ranges a = Some (lo, Some hi)) integer_limits
     | _ \<Rightarrow> True) settings_fields"
  "map_of declared_ranges ''readiness_min_free_disk_bytes'' = Some (0, None)"
  "distinct (map fst settings_fields)"
  by code_simp+

lemma loopback_range: "is_loopback (v, n) \<longleftrightarrow> (if v = 4 then 127 * 2 ^ 24 \<le> n \<and> n < 128 * 2 ^ 24 else n = 1)"
proof -
  have "n div 2 ^ 24 = 127 \<longleftrightarrow> 127 * 2 ^ 24 \<le> n \<and> n < 128 * (2 ^ 24 :: nat)" by auto
  then show ?thesis by (simp add: is_loopback_def)
qed

lemma exposed_or_local: "\<not> host_exposes_network L (text_attr s ''smtp_host'') \<longleftrightarrow> local_smtp_host L s"
  by (auto simp: host_exposes_network_def local_smtp_host_def Let_def simp flip: loopback_range split: option.splits)

text \<open>The type of a value read and of the attribute after validation.\<close>

lemma normalized_texts_types:
  "is_boolean (s a) \<Longrightarrow> a \<notin> {''log_level'', ''log_format'', ''metrics_token'', ''api_cursor_secret'', ''ingress_mode''}
     \<Longrightarrow> is_boolean (normalized_texts s a)"
  "s a = Some (PyStr t) \<Longrightarrow> a \<notin> {''legacy_admin_token_enabled'', ''legacy_public_api_key_enabled''}
     \<Longrightarrow> \<exists>t. normalized_texts s a = Some (PyStr t)"
  by (auto simp: normalized_texts_def Let_def is_boolean_def split: if_splits)

lemma field_kinds:
  "list_all (\<lambda>(a, src). case src of
       TextField _ _ \<Rightarrow> a \<notin> {''legacy_admin_token_enabled'', ''legacy_public_api_key_enabled''}
     | IntField _ _ \<Rightarrow> a \<notin> set TEXT_ATTRIBUTES
     | _ \<Rightarrow> a \<notin> {''log_level'', ''log_format'', ''metrics_token'', ''api_cursor_secret'', ''ingress_mode''}) settings_fields"
  by code_simp

lemma post_init_texts_checks:
  assumes "post_init_texts s = Inr s'"
  shows "text_attr s' ''log_level'' \<in> {''CRITICAL'', ''ERROR'', ''WARNING'', ''INFO'', ''DEBUG''}"
    and "text_attr s' ''log_format'' \<in> {''json'', ''text''}"
    and "text_attr s' ''api_cursor_secret'' = [] \<or> 32 \<le> length (text_attr s' ''api_cursor_secret'')"
    and "0 \<le> int_attr s' ''readiness_min_free_disk_bytes''"
  using assms unfolding post_init_texts_def Let_def post_init_texts_ok(1) [OF assms, symmetric]
  by (auto simp: bindR_Inr_iff require_def split: if_splits)

lemma default_settings_declared:
  assumes "default_settings L raw = Inr s"
  shows "settings_declared L s"
proof -
  from assms obtain kvs where kvs: "mapR (\<lambda>(attr, src). bindR (read_field raw src) (\<lambda>v. Inr (attr, v))) settings_fields = Inr kvs"
    and init: "post_init L (map_of kvs) = Inr s"
    by (auto simp: default_settings_def bindR_Inr_iff)
  let ?s = "map_of kvs"
  from init have lim: "post_init_limits L ?s = Inr ()" and texts: "post_init_texts ?s = Inr s"
    by (auto simp: post_init_def bindR_Inr_iff)
  note other = post_init_texts_other [OF texts] and checks = post_init_texts_checks [OF texts]
  have typed: "settings_typed s" "\<not> exposed_without_limit L s" using default_settings_ok [OF assms] by simp_all
  have read: "\<exists>v. read_field raw src = Inr v \<and> ?s a = Some v" if "(a, src) \<in> set settings_fields" for a src
    using read_fields [OF kvs] map_of_is_SomeI [OF ranges_checked(3) that] by blast
  have "field_declared s (a, src)" if f: "(a, src) \<in> set settings_fields" for a src
  proof (cases src)
    case (TextField k d)
    then have "\<exists>t. ?s a = Some (PyStr t)" "a \<notin> {''legacy_admin_token_enabled'', ''legacy_public_api_key_enabled''}"
      using read [OF f] field_kinds f by (auto simp: list_all_iff)
    then show ?thesis using normalized_texts_types(2) post_init_texts_ok(1) [OF texts] TextField
      by (fastforce simp: field_declared_def)
  next
    case (BoolField k d)
    then have "is_boolean (?s a)" "a \<notin> {''log_level'', ''log_format'', ''metrics_token'', ''api_cursor_secret'', ''ingress_mode''}"
      using read [OF f] field_kinds f by (auto simp: list_all_iff is_boolean_def bindR_Inr_iff)
    then show ?thesis using normalized_texts_types(1) post_init_texts_ok(1) [OF texts] BoolField by (simp add: field_declared_def)
  next
    case (SecretField k d)
    then have "is_boolean (?s a)" "a \<notin> {''log_level'', ''log_format'', ''metrics_token'', ''api_cursor_secret'', ''ingress_mode''}"
      using read [OF f] field_kinds f by (auto simp: list_all_iff is_boolean_def)
    then show ?thesis using normalized_texts_types(1) post_init_texts_ok(1) [OF texts] SecretField by (simp add: field_declared_def)
  next
    case (IntField k d)
    then have a: "a \<notin> set TEXT_ATTRIBUTES" using field_kinds f by (auto simp: list_all_iff)
    obtain n where n: "s a = Some (PyInt n)" using read [OF f] IntField other [OF a] by (auto simp: bindR_Inr_iff)
    show ?thesis
    proof (cases "a = ''readiness_min_free_disk_bytes''")
      case True
      then show ?thesis using n checks(4) ranges_checked(2) IntField by (simp add: field_declared_def int_attr_def)
    next
      case False
      then obtain k' lo hi where l: "(k', a, lo, hi) \<in> set integer_limits" and r: "map_of declared_ranges a = Some (lo, Some hi)"
        using ranges_checked(1) f IntField by (fastforce simp: list_all_iff list_ex_iff)
      have "within s (k', a, lo, hi)" using typed(1) l by (simp add: settings_typed_def list_all_iff)
      then show ?thesis using n r IntField by (simp add: field_declared_def within_def)
    qed
  qed
  then have fields: "list_all (field_declared s) settings_fields" by (auto simp: list_all_iff)
  have same: "s a = ?s a" if "a \<in> {''http_max_request_body_bytes'', ''http_body_memory_budget_bytes'', ''database_read_pool_size'',
      ''database_read_queue_capacity'', ''message_preview_inline_item_bytes'', ''message_preview_inline_total_bytes''}" for a
    by (rule other) (use that in \<open>auto simp: TEXT_ATTRIBUTES_def\<close>)
  have "int_attr ?s ''http_max_request_body_bytes'' \<le> int_attr ?s ''http_body_memory_budget_bytes''"
    "int_attr ?s ''database_read_pool_size'' \<le> int_attr ?s ''database_read_queue_capacity''"
    "int_attr ?s ''message_preview_inline_item_bytes'' \<le> int_attr ?s ''message_preview_inline_total_bytes''"
    using lim unfolding post_init_limits_def first_error_iff by (auto simp: require_at_least_def split: if_splits)
  then have rel: "int_attr s ''http_max_request_body_bytes'' \<le> int_attr s ''http_body_memory_budget_bytes''"
    "int_attr s ''database_read_pool_size'' \<le> int_attr s ''database_read_queue_capacity''"
    "int_attr s ''message_preview_inline_item_bytes'' \<le> int_attr s ''message_preview_inline_total_bytes''"
    by (simp_all add: int_attr_def same)
  have "int_attr s ''smtp_max_concurrent_connections'' = 0 \<longrightarrow> local_smtp_host L s"
    using typed(2) exposed_or_local by (auto simp: exposed_without_limit_def)
  then show ?thesis unfolding settings_declared_def
    using fields rel checks(1-3) typed(1) by (simp add: settings_typed_def INGRESS_MODES_def)
qed

lemma declared_int:
  assumes "settings_declared L s" and "(a, IntField k d) \<in> set settings_fields" and "map_of declared_ranges a = Some (lo, Some hi)"
  shows "lo \<le> int_attr s a" and "int_attr s a \<le> hi"
proof -
  have "field_declared s (a, IntField k d)" using assms(1,2) unfolding settings_declared_def list_all_iff by blast
  then have "(case s a of Some (PyInt n) \<Rightarrow> in_range (lo, Some hi) n | _ \<Rightarrow> False)"
    by (simp add: field_declared_def assms(3) split: option.splits)
  then show "lo \<le> int_attr s a" "int_attr s a \<le> hi"
    by (simp_all add: int_attr_def split: option.splits pyval.splits)
qed

section \<open>Examples\<close>

definition ex_pylib :: pylib where
  "ex_pylib = \<lparr>parse_ip_network = (\<lambda>_. None), parse_ip_address = (\<lambda>_. None),
     fromisoformat = (\<lambda>_. None), char_class = (\<lambda>_ _. False)\<rparr>"

text \<open>Empty values mean the defaults.\<close>

definition ex_environ :: environ where
  "ex_environ = [''SMTP_HOST'' \<mapsto> [], ''LOG_LEVEL'' \<mapsto> [], ''LOG_FORMAT'' \<mapsto> [], ''INGRESS_MODE'' \<mapsto> [],
     ''ADMIN_TOKEN'' \<mapsto> [], ''PUBLIC_API_KEY'' \<mapsto> []]"

definition ex_settings :: settings where
  "ex_settings = projr (default_settings ex_pylib ex_environ)"

lemma ex_settings_read:
  "default_settings ex_pylib ex_environ = Inr ex_settings"
proof -
  have "case default_settings ex_pylib ex_environ of
      Inr _ \<Rightarrow> True | Inl _ \<Rightarrow> False" by code_simp
  then show ?thesis by (auto simp: ex_settings_def split: sum.splits)
qed

end
