(* ===== verification/Runtime_Settings.thy ===== *)
theory Runtime_Settings
  imports Config
begin

text \<open>
  Settings that change while the program runs (\<^verbatim>\<open>src/app/services/settings.py\<close>): an update is checked key by
  key, its values are stored as text, applied to the live settings and read back from the text at the next start.
\<close>

section \<open>Tables\<close>

definition NON_NEGATIVE_INTEGER_SETTINGS :: "string list" where
  "NON_NEGATIVE_INTEGER_SETTINGS =
     [''smtp_max_concurrent_connections'', ''smtp_connection_rate_limit_count'', ''catch_all_retention_days'']"

definition BOOLEAN_SETTINGS :: "string list" where
  "BOOLEAN_SETTINGS = [''catch_all_public_web_enabled'', ''catch_all_public_api_enabled'']"

definition MAXIMUM_INTEGER_SETTINGS :: "(string \<times> int) list" where
  "MAXIMUM_INTEGER_SETTINGS = [
     (''max_message_size_bytes'', MAX_MESSAGE_SIZE_LIMIT_BYTES),
     (''max_recipients_per_message'', MAX_RECIPIENTS_LIMIT),
     (''smtp_idle_timeout_seconds'', 86400),
     (''smtp_max_concurrent_connections'', MAX_SMTP_CONNECTIONS_LIMIT),
     (''smtp_connection_rate_limit_count'', MAX_RATE_LIMIT_COUNT),
     (''smtp_connection_rate_limit_window_seconds'', 86400),
     (''disk_warning_threshold_percent'', 100),
     (''catch_all_retention_days'', MAX_RETENTION_DAYS),
     (''retention_cleanup_interval_seconds'', 86400),
     (''smtp_session_retention_seconds'', 315360000),
     (''empty_mailbox_retention_seconds'', 315360000),
     (''metric_retention_seconds'', 315360000),
     (''audit_retention_days'', MAX_RETENTION_DAYS),
     (''cleanup_batch_size'', MAX_CLEANUP_BATCH_SIZE),
     (''file_gc_batch_size'', MAX_CLEANUP_BATCH_SIZE)]"

definition INTEGER_SETTINGS :: "string list" where
  "INTEGER_SETTINGS = [
     ''max_message_size_bytes'', ''max_recipients_per_message'', ''smtp_idle_timeout_seconds'',
     ''smtp_max_concurrent_connections'', ''smtp_connection_rate_limit_count'',
     ''smtp_connection_rate_limit_window_seconds'', ''disk_warning_threshold_percent'', ''catch_all_retention_days'',
     ''retention_cleanup_interval_seconds'', ''smtp_session_retention_seconds'', ''empty_mailbox_retention_seconds'',
     ''metric_retention_seconds'', ''audit_retention_days'', ''cleanup_batch_size'', ''file_gc_batch_size'']"

definition SUPPORTED_SETTINGS :: "string list" where
  "SUPPORTED_SETTINGS = [
     ''max_message_size_bytes'', ''max_recipients_per_message'', ''smtp_idle_timeout_seconds'',
     ''smtp_max_concurrent_connections'', ''smtp_connection_rate_limit_count'',
     ''smtp_connection_rate_limit_window_seconds'', ''disk_warning_threshold_percent'', ''ingress_mode'',
     ''catch_all_public_web_enabled'', ''catch_all_public_api_enabled'', ''catch_all_retention_days'',
     ''retention_cleanup_interval_seconds'', ''smtp_session_retention_seconds'', ''empty_mailbox_retention_seconds'',
     ''metric_retention_seconds'', ''audit_retention_days'', ''cleanup_batch_size'', ''file_gc_batch_size'']"

section \<open>Coercion\<close>

text \<open>
  \<open>int(value)\<close>; a float is refused before unless it is integral. A list or an object in the payload
  is refused like \<open>None\<close>.
\<close>

fun py_int :: "pyval \<Rightarrow> int option" where
  "py_int (PyInt n) = Some n"
| "py_int (PyStr s) = parse_int s"
| "py_int (PyFloat m e) = (if 2 ^ e dvd m then Some (m div 2 ^ e) else None)"
| "py_int _ = None"

definition invalid :: "string \<Rightarrow> 'a result" where
  "invalid key = Inl (ValueError (''invalid '' @ key))"

definition coerce_at_least :: "int \<Rightarrow> string \<Rightarrow> pyval \<Rightarrow> int result" where
  "coerce_at_least minimum key v =
     (case py_int v of
        None \<Rightarrow> invalid key
      | Some n \<Rightarrow>
          if n < minimum then invalid key
          else (case map_of MAXIMUM_INTEGER_SETTINGS key of
                  Some maximum \<Rightarrow> if n > maximum then invalid key else Inr n
                | None \<Rightarrow> Inr n))"

definition coerce_positive_int :: "string \<Rightarrow> pyval \<Rightarrow> int result" where
  "coerce_positive_int = coerce_at_least 1"

definition coerce_non_negative_int :: "string \<Rightarrow> pyval \<Rightarrow> int result" where
  "coerce_non_negative_int = coerce_at_least 0"

definition setting_coerce_bool :: "string \<Rightarrow> pyval \<Rightarrow> bool result" where
  "setting_coerce_bool key v =
     (case v of
        PyBool b \<Rightarrow> Inr b
      | PyInt n \<Rightarrow> if n = 0 then Inr False else if n = 1 then Inr True else invalid key
      | PyStr s \<Rightarrow>
          let t = str_lower (str_strip s) in
          if t \<in> {''1'', ''true'', ''yes'', ''on''} then Inr True
          else if t \<in> {''0'', ''false'', ''no'', ''off''} then Inr False
          else invalid key
      | _ \<Rightarrow> invalid key)"

text \<open>\<open>str(value).strip().lower()\<close>, when it is one of the modes; the text of no other value is.\<close>

definition mode_of :: "pyval \<Rightarrow> string option" where
  "mode_of v =
     (case v of
        PyStr s \<Rightarrow> let mode = str_lower (str_strip s) in if mode \<in> set INGRESS_MODES then Some mode else None
      | _ \<Rightarrow> None)"

text \<open>
  The last branch of the code, \<open>_coerce_text_value\<close>, is for keys that are none of these; \<open>validate_supported_keys\<close>
  has refused them before (\<open>supported_kinds\<close> below), so it is an error here.
\<close>

definition normalize_value :: "string \<Rightarrow> pyval \<Rightarrow> string result" where
  "normalize_value key v =
     (if key \<in> set BOOLEAN_SETTINGS then bindR (setting_coerce_bool key v) (\<lambda>b. Inr (if b then ''1'' else ''0''))
      else if key = ''ingress_mode'' then
        (case mode_of v of Some mode \<Rightarrow> Inr mode | None \<Rightarrow> Inl (ValueError ''invalid ingress_mode''))
      else if key \<in> set NON_NEGATIVE_INTEGER_SETTINGS then bindR (coerce_non_negative_int key v) (\<lambda>n. Inr (show_int n))
      else if key \<in> set INTEGER_SETTINGS then bindR (coerce_positive_int key v) (\<lambda>n. Inr (show_int n))
      else Inl (RuntimeError ''unsupported settings key''))"

definition normalize_payload :: "(string \<times> pyval) list \<Rightarrow> (string \<times> string) list result" where
  "normalize_payload = mapR (\<lambda>(key, v). bindR (normalize_value key v) (\<lambda>t. Inr (key, t)))"

definition join_comma :: "string list \<Rightarrow> string" where
  "join_comma ks = concat (map (\<lambda>i. (if i = 0 then [] else '', '') @ ks ! i) [0..<length ks])"

definition validate_supported_keys :: "(string \<times> pyval) list \<Rightarrow> unit result" where
  "validate_supported_keys payload =
     (let unsupported = sort (remdups (filter (\<lambda>k. k \<notin> set SUPPORTED_SETTINGS) (map fst payload)))
      in if unsupported = [] then Inr () else Inl (ValueError (''unsupported settings: '' @ join_comma unsupported)))"

text \<open>Reading a stored text back; a text that is not valid gives the current value.\<close>

definition deserialize_value :: "settings \<Rightarrow> string \<Rightarrow> pyval \<Rightarrow> pyval option" where
  "deserialize_value base key v =
     (if key \<in> set BOOLEAN_SETTINGS then
        (case setting_coerce_bool key v of Inr b \<Rightarrow> Some (PyBool b) | Inl _ \<Rightarrow> base key)
      else if key = ''ingress_mode'' then (case mode_of v of Some mode \<Rightarrow> Some (PyStr mode) | None \<Rightarrow> base key)
      else if key \<in> set NON_NEGATIVE_INTEGER_SETTINGS then
        (case coerce_non_negative_int key v of Inr n \<Rightarrow> Some (PyInt n) | Inl _ \<Rightarrow> base key)
      else if key \<in> set INTEGER_SETTINGS then
        (case coerce_positive_int key v of Inr n \<Rightarrow> Some (PyInt n) | Inl _ \<Rightarrow> base key)
      else Some v)"

section \<open>The service\<close>

record setting_row =
  set_key :: string
  set_value :: string
  set_updated_at :: string

record settings_service =
  live :: settings
  snapshot :: "(string \<times> pyval option) list"
  rows :: "setting_row list"

definition base_settings :: "settings \<Rightarrow> (string \<times> pyval option) list" where
  "base_settings s = map (\<lambda>k. (k, s k)) SUPPORTED_SETTINGS"

definition refresh_snapshot :: "settings_service \<Rightarrow> settings_service" where
  "refresh_snapshot st = st\<lparr>snapshot := base_settings (live st)\<rparr>"

definition stored :: "setting_row list \<Rightarrow> string \<rightharpoonup> string" where
  "stored rs = map_of (map (\<lambda>r. (set_key r, set_value r)) rs)"

text \<open>\<open>INSERT ... ON CONFLICT(key) DO UPDATE\<close>.\<close>

definition upsert_setting :: "string \<Rightarrow> string \<times> string \<Rightarrow> setting_row list \<Rightarrow> setting_row list" where
  "upsert_setting now kv rs =
     (if list_ex (\<lambda>r. set_key r = fst kv) rs
      then map (\<lambda>r. if set_key r = fst kv then r\<lparr>set_value := snd kv, set_updated_at := now\<rparr> else r) rs
      else rs @ [\<lparr>set_key = fst kv, set_value = snd kv, set_updated_at = now\<rparr>])"

definition apply_live_settings :: "(string \<times> pyval option) list \<Rightarrow> settings \<Rightarrow> settings" where
  "apply_live_settings updates s =
     foldl (\<lambda>s (k, v). if s k \<noteq> None then s(k := v) else s) s updates"

definition validate_parse_queue_budget :: "(string \<times> pyval option) list \<Rightarrow> settings \<Rightarrow> unit result" where
  "validate_parse_queue_budget updates s =
     (let size = (case map_of updates ''max_message_size_bytes'' of
                    Some (Some (PyInt n)) \<Rightarrow> n
                  | _ \<Rightarrow> int_attr s ''max_message_size_bytes'')
      in if size > int_attr s ''parse_queue_max_bytes''
         then Inl (ValueError ''invalid max_message_size_bytes: exceeds parse queue byte budget'') else Inr ())"

definition load_persisted :: "settings \<Rightarrow> setting_row list \<Rightarrow> (string \<times> pyval option) list" where
  "load_persisted s rs =
     map (\<lambda>r. (set_key r, deserialize_value s (set_key r) (PyStr (set_value r))))
       (filter (\<lambda>r. set_key r \<in> set SUPPORTED_SETTINGS) (sort_key set_key rs))"

text \<open>What \<open>_sync_ingress_policy\<close> asks of the catch-all domain.\<close>

record ingress_policy =
  pol_enabled :: bool
  pol_public_web :: bool
  pol_public_api :: bool
  pol_retention_days :: "int option"
  pol_max_message_size :: int

definition ingress_policy_of :: "settings_service \<Rightarrow> ingress_policy" where
  "ingress_policy_of st =
     (let s = (\<lambda>k. case map_of (load_persisted (live st) (rows st)) k of Some v \<Rightarrow> v | None \<Rightarrow> live st k);
          days = int_attr s ''catch_all_retention_days''
      in \<lparr>pol_enabled = (text_attr s ''ingress_mode'' = ''managed_plus_catchall''),
          pol_public_web = (s ''catch_all_public_web_enabled'' = Some (PyBool True)),
          pol_public_api = (s ''catch_all_public_api_enabled'' = Some (PyBool True)),
          pol_retention_days = (if days = 0 then None else Some days),
          pol_max_message_size = int_attr s ''max_message_size_bytes''\<rparr>)"

definition load_persisted_settings :: "settings_service \<Rightarrow> (ingress_policy \<times> settings_service) result" where
  "load_persisted_settings st =
     (let settings = load_persisted (live st) (rows st) in
      bindR (validate_parse_queue_budget settings (live st)) (\<lambda>_.
        let st1 = refresh_snapshot (st\<lparr>live := apply_live_settings settings (live st)\<rparr>)
        in Inr (ingress_policy_of st1, st1)))"

definition update_settings ::
  "unit result \<Rightarrow> string \<Rightarrow> (string \<times> pyval) list \<Rightarrow> settings_service \<Rightarrow> (ingress_policy option \<times> settings_service) result" where
  "update_settings authorized now payload st =
     bindR (validate_supported_keys payload) (\<lambda>_.
     bindR (normalize_payload payload) (\<lambda>normalized.
       if normalized = [] then Inr (None, st)
       else
         let updates = map (\<lambda>(k, t). (k, deserialize_value (live st) k (PyStr t))) normalized in
         bindR (validate_parse_queue_budget updates (live st)) (\<lambda>_.
         bindR authorized (\<lambda>_.
           let st1 = refresh_snapshot (st\<lparr>rows := fold (upsert_setting now) normalized (rows st),
                                           live := apply_live_settings updates (live st)\<rparr>)
           in Inr (Some (ingress_policy_of st1), st1)))))"

section \<open>The tables fit the configuration\<close>

definition limit_of :: "string \<rightharpoonup> int \<times> int" where
  "limit_of = map_of (map (\<lambda>(key, attr, lo, hi). (attr, lo, hi)) integer_limits)"

text \<open>An update admits exactly the range the configuration declares, for each of the fifteen integers.\<close>

lemma tables_agree:
  "list_all (\<lambda>k. limit_of k = Some (if k \<in> set NON_NEGATIVE_INTEGER_SETTINGS then 0 else 1, the (map_of MAXIMUM_INTEGER_SETTINGS k))
     \<and> map_of MAXIMUM_INTEGER_SETTINGS k \<noteq> None) INTEGER_SETTINGS"
  by code_simp

lemma limit_attributes:
  "distinct (map (fst \<circ> snd) integer_limits)"
  "list_all (\<lambda>l. fst (snd l) \<in> set SUPPORTED_SETTINGS \<longrightarrow> fst (snd l) \<in> set INTEGER_SETTINGS) integer_limits"
  by code_simp+

lemma supported_kinds:
  "list_all (\<lambda>k. k \<in> set BOOLEAN_SETTINGS \<or> k = ''ingress_mode'' \<or> k \<in> set INTEGER_SETTINGS) SUPPORTED_SETTINGS"
  "list_all (\<lambda>k. k \<notin> set BOOLEAN_SETTINGS \<and> k \<noteq> ''ingress_mode'') INTEGER_SETTINGS"
  "''ingress_mode'' \<notin> set BOOLEAN_SETTINGS" "''parse_queue_max_bytes'' \<notin> set SUPPORTED_SETTINGS"
  "list_all (\<lambda>k. k \<in> set INTEGER_SETTINGS) NON_NEGATIVE_INTEGER_SETTINGS"
  "''max_message_size_bytes'' \<in> set INTEGER_SETTINGS"
  by code_simp+

definition plain :: "char \<Rightarrow> bool" where
  "plain c \<longleftrightarrow> \<not> ascii_upper (of_char c) \<and> \<not> ascii_space (of_char c)"

lemma plain_text: "list_all plain s \<Longrightarrow> str_lower (str_strip s) = s"
proof -
  assume p: "list_all plain s"
  then have "str_strip s = s" by (auto simp: str_strip_def plain_def list_all_iff intro!: strip_by_none)
  moreover have "str_lower s = s"
    using p by (auto simp: str_lower_def ascii_lower_def plain_def list_all_iff intro!: map_idI)
  ultimately show ?thesis by simp
qed

lemma plain_texts: "list_all plain ''managed_only''" "list_all plain ''managed_plus_catchall''"
  "list_all plain ''1''" "list_all plain ''0''"
  by (simp_all add: plain_def ascii_upper_def ascii_space_def)

lemma mode_texts: "mode \<in> set INGRESS_MODES \<Longrightarrow> mode_of (PyStr mode) = Some mode"
  using plain_text [OF plain_texts(1)] plain_text [OF plain_texts(2)] by (auto simp: mode_of_def INGRESS_MODES_def)

lemma bool_texts: "setting_coerce_bool k (PyStr ''1'') = Inr True" "setting_coerce_bool k (PyStr ''0'') = Inr False"
  using plain_text [OF plain_texts(3)] plain_text [OF plain_texts(4)] by (simp_all add: setting_coerce_bool_def)

section \<open>Texts read back\<close>

text \<open>The values a key may have.\<close>

definition value_typed :: "string \<Rightarrow> pyval \<Rightarrow> bool" where
  "value_typed k v \<longleftrightarrow>
     (k \<in> set BOOLEAN_SETTINGS \<and> (\<exists>b. v = PyBool b))
     \<or> (k = ''ingress_mode'' \<and> (\<exists>mode \<in> set INGRESS_MODES. v = PyStr mode))
     \<or> (k \<in> set INTEGER_SETTINGS \<and> (\<exists>n lo hi. v = PyInt n \<and> limit_of k = Some (lo, hi) \<and> lo \<le> n \<and> n \<le> hi))"

lemma coerce_at_least_text:
  assumes "coerce_at_least minimum k v = Inr n"
  shows "coerce_at_least minimum k (PyStr (show_int n)) = Inr n" and "minimum \<le> n"
    and "map_of MAXIMUM_INTEGER_SETTINGS k = Some hi \<Longrightarrow> n \<le> hi"
  using assms
  by (auto simp: coerce_at_least_def parse_int_show_int invalid_def split: option.splits if_splits)

lemma normalize_value_typed:
  assumes "normalize_value k v = Inr t" and "k \<in> set SUPPORTED_SETTINGS"
  obtains w where "value_typed k w" and "\<And>base. deserialize_value base k (PyStr t) = Some w"
proof -
  consider (bool) "k \<in> set BOOLEAN_SETTINGS" | (mode) "k = ''ingress_mode''" | (int) "k \<in> set INTEGER_SETTINGS"
    using supported_kinds(1) assms(2) by (auto simp: list_all_iff)
  then show ?thesis
  proof cases
    case bool
    with assms(1) obtain b where "t = (if b then ''1'' else ''0'')" by (auto simp: normalize_value_def bindR_Inr_iff)
    with bool that [of "PyBool b"] show ?thesis by (cases b) (auto simp: value_typed_def deserialize_value_def bool_texts)
  next
    case mode
    with assms(1) supported_kinds(3) have "t \<in> set INGRESS_MODES"
      by (auto simp: normalize_value_def mode_of_def Let_def split: option.splits pyval.splits if_splits)
    with mode supported_kinds(3) that [of "PyStr t"] show ?thesis
      by (simp add: value_typed_def deserialize_value_def mode_texts)
  next
    case int
    let ?lo = "if k \<in> set NON_NEGATIVE_INTEGER_SETTINGS then 0 else 1 :: int"
    have kind: "k \<notin> set BOOLEAN_SETTINGS" "k \<noteq> ''ingress_mode''" using int supported_kinds(2) by (auto simp: list_all_iff)
    with assms(1) int obtain n where n: "coerce_at_least ?lo k v = Inr n" "t = show_int n"
      by (auto simp: normalize_value_def bindR_Inr_iff coerce_positive_int_def coerce_non_negative_int_def split: if_splits)
    from int tables_agree obtain hi where hi: "limit_of k = Some (?lo, hi)" "map_of MAXIMUM_INTEGER_SETTINGS k = Some hi"
      by (auto simp: list_all_iff)
    note bk = coerce_at_least_text [OF n(1)]
    have "value_typed k (PyInt n)" using int hi bk(2) bk(3) [OF hi(2)] by (auto simp: value_typed_def)
    moreover have "deserialize_value base k (PyStr t) = Some (PyInt n)" for base
      using bk(1) kind int n(2)
      by (auto simp: deserialize_value_def coerce_positive_int_def coerce_non_negative_int_def split: if_splits)
    ultimately show ?thesis by (rule that)
  qed
qed

section \<open>Updating\<close>

lemma stored_update:
  "stored (map (\<lambda>r. if set_key r = key then r\<lparr>set_value := t, set_updated_at := now\<rparr> else r) rs) k
     = (if k = key then map_option (\<lambda>_. t) (stored rs key) else stored rs k)"
proof (induction rs)
  case (Cons r rs)
  then show ?case by (cases "set_key r = key"; cases "k = key") (auto simp: stored_def)
qed (simp add: stored_def)

lemma stored_None: "stored rs k = None \<longleftrightarrow> \<not> list_ex (\<lambda>r. set_key r = k) rs"
  by (induction rs) (auto simp: stored_def)

lemma stored_upsert: "stored (upsert_setting now kv rs) k = (if k = fst kv then Some (snd kv) else stored rs k)"
proof (cases "list_ex (\<lambda>r. set_key r = fst kv) rs")
  case True
  then show ?thesis using stored_None [of rs "fst kv"] by (auto simp: upsert_setting_def stored_update)
next
  case False
  then have "stored rs (fst kv) = None" by (simp add: stored_None)
  with False show ?thesis by (auto simp: stored_def upsert_setting_def map_add_def split: option.splits)
qed

lemma stored_upserts:
  assumes "distinct (map fst kvs)"
  shows "stored (fold (upsert_setting now) kvs rs) k = (case map_of kvs k of Some t \<Rightarrow> Some t | None \<Rightarrow> stored rs k)"
  using assms
proof (induction kvs arbitrary: rs)
  case (Cons kv kvs)
  then have "map_of kvs (fst kv) = None" by (simp add: map_of_eq_None_iff)
  with Cons show ?case by (cases "k = fst kv") (auto simp: stored_upsert split: option.splits)
qed simp

lemma apply_live_settings_map:
  assumes "distinct (map fst us)" and "\<forall>w \<in> set us. s (fst w) \<noteq> None \<and> snd w \<noteq> None"
  shows "apply_live_settings us s k = (case map_of us k of Some v \<Rightarrow> v | None \<Rightarrow> s k)"
  using assms
proof (induction us arbitrary: s)
  case Nil
  then show ?case by (simp add: apply_live_settings_def)
next
  case (Cons u us)
  have "apply_live_settings (u # us) s = apply_live_settings us (s(fst u := snd u))"
    using Cons.prems(2) by (simp add: apply_live_settings_def case_prod_unfold)
  moreover have "\<forall>w \<in> set us. (s(fst u := snd u)) (fst w) \<noteq> None \<and> snd w \<noteq> None" using Cons.prems(2) by simp
  moreover have "map_of us (fst u) = None" "distinct (map fst us)" using Cons.prems(1) by (simp_all add: map_of_eq_None_iff)
  moreover from calculation(2,4) have "apply_live_settings us (s(fst u := snd u)) k
      = (case map_of us k of Some v \<Rightarrow> v | None \<Rightarrow> (s(fst u := snd u)) k)"
    by (intro Cons.IH)
  ultimately show ?case by (cases "k = fst u") (auto split: option.splits)
qed

lemma mapR_keys:
  assumes "mapR (\<lambda>(k, v). bindR (f k v) (\<lambda>t. Inr (k, t))) xs = Inr ys"
  shows "map fst ys = map fst xs" and "(k, t) \<in> set ys \<Longrightarrow> \<exists>v. (k, v) \<in> set xs \<and> f k v = Inr t"
proof -
  have "map fst ys = map fst xs \<and> (\<forall>(k, t) \<in> set ys. \<exists>v. (k, v) \<in> set xs \<and> f k v = Inr t)"
    using assms
  proof (induction xs arbitrary: ys)
    case (Cons x xs)
    then obtain t ys' where x: "f (fst x) (snd x) = Inr t" "ys = (fst x, t) # ys'"
      and ys': "mapR (\<lambda>(k, v). bindR (f k v) (\<lambda>t. Inr (k, t))) xs = Inr ys'"
      by (auto simp: bindR_Inr_iff case_prod_unfold)
    from Cons.IH [OF ys'] x show ?case by (cases x) fastforce
  qed simp
  then show "map fst ys = map fst xs" "(k, t) \<in> set ys \<Longrightarrow> \<exists>v. (k, v) \<in> set xs \<and> f k v = Inr t" by auto
qed

lemma map_of_keyed: "map_of (map (\<lambda>(k, t). (k, g k)) xs) k = (if k \<in> fst ` set xs then Some (g k) else None)"
  by (induction xs) auto

text \<open>An update that is accepted: the texts, the values they read back as, and the state after.\<close>

lemma update_settings_parts:
  assumes "update_settings authorized now payload st = Inr (pol, st')"
    and "distinct (map fst payload)" and "\<forall>k \<in> set SUPPORTED_SETTINGS. live st k \<noteq> None"
  obtains texts vals where "map fst texts = map fst payload" and "set (map fst payload) \<subseteq> set SUPPORTED_SETTINGS"
    and "\<And>k t. (k, t) \<in> set texts \<Longrightarrow> value_typed k (vals k) \<and> (\<forall>base. deserialize_value base k (PyStr t) = Some (vals k))"
    and "\<And>k. live st' k = (if k \<in> fst ` set payload then Some (vals k) else live st k)"
    and "\<And>k. stored (rows st') k = (case map_of texts k of Some t \<Rightarrow> Some t | None \<Rightarrow> stored (rows st) k)"
    and "payload = [] \<or> validate_parse_queue_budget (map (\<lambda>(k, t). (k, Some (vals k))) texts) (live st) = Inr ()"
proof -
  from assms(1) obtain texts where texts: "normalize_payload payload = Inr texts" and sup: "validate_supported_keys payload = Inr ()"
    by (auto simp: update_settings_def bindR_Inr_iff)
  have keys: "map fst texts = map fst payload" and from_payload: "\<And>k t. (k, t) \<in> set texts \<Longrightarrow> \<exists>v. normalize_value k v = Inr t"
    using mapR_keys [OF texts [unfolded normalize_payload_def]] by auto
  have supported: "set (map fst payload) \<subseteq> set SUPPORTED_SETTINGS"
  proof -
    from sup have "sort (remdups (filter (\<lambda>k. k \<notin> set SUPPORTED_SETTINGS) (map fst payload))) = []"
      by (simp add: validate_supported_keys_def Let_def split: if_splits)
    then have "set (sort (remdups (filter (\<lambda>k. k \<notin> set SUPPORTED_SETTINGS) (map fst payload)))) = {}" by simp
    then show ?thesis by auto
  qed
  have dist: "distinct (map fst texts)" using keys assms(2) by simp
  have tk: "fst ` set texts = fst ` set payload" using keys by (metis list.set_map)
  define vals where "vals = (\<lambda>k. the (deserialize_value (live st) k (PyStr (the (map_of texts k)))))"
  have typed: "value_typed k (vals k) \<and> (\<forall>base. deserialize_value base k (PyStr t) = Some (vals k))" if kt: "(k, t) \<in> set texts" for k t
  proof -
    from from_payload [OF kt] obtain v where v: "normalize_value k v = Inr t" ..
    have "k \<in> set SUPPORTED_SETTINGS" using kt keys supported by (metis fst_conv image_eqI list.set_map subsetD)
    from normalize_value_typed [OF v this] obtain w where w: "value_typed k w" "\<And>base. deserialize_value base k (PyStr t) = Some w"
      by blast
    have "map_of texts k = Some t" using dist kt by simp
    with w show ?thesis by (simp add: vals_def)
  qed
  let ?us = "map (\<lambda>(k, t). (k, Some (vals k))) texts"
  have us: "map (\<lambda>(k, t). (k, deserialize_value (live st) k (PyStr t))) texts = ?us"
    using typed by (auto intro!: map_cong)
  have "live st' k = (if k \<in> fst ` set payload then Some (vals k) else live st k)
      \<and> stored (rows st') k = (case map_of texts k of Some t \<Rightarrow> Some t | None \<Rightarrow> stored (rows st) k)
      \<and> (payload = [] \<or> validate_parse_queue_budget ?us (live st) = Inr ())" for k
  proof (cases "texts = []")
    case True
    with keys assms(1) texts sup show ?thesis by (simp add: update_settings_def)
  next
    case False
    have "map fst ?us = map fst texts" by (simp add: case_prod_unfold)
    then have "distinct (map fst ?us)" using dist by (simp only:)
    moreover have "\<forall>u \<in> set ?us. live st (fst u) \<noteq> None \<and> snd u \<noteq> None"
    proof (rule ballI)
      fix u assume "u \<in> set ?us"
      then have "fst u \<in> set (map fst payload)" "snd u \<noteq> None" unfolding keys [symmetric] by force+
      with supported assms(3) show "live st (fst u) \<noteq> None \<and> snd u \<noteq> None" by blast
    qed
    ultimately have "apply_live_settings ?us (live st) k = (case map_of ?us k of Some v \<Rightarrow> v | None \<Rightarrow> live st k)"
      by (rule apply_live_settings_map)
    moreover have "map_of ?us k = (if k \<in> fst ` set payload then Some (Some (vals k)) else None)"
      by (simp add: map_of_keyed tk)
    moreover have "live st' = apply_live_settings ?us (live st)" "rows st' = fold (upsert_setting now) texts (rows st)"
      "validate_parse_queue_budget ?us (live st) = Inr ()"
      using assms(1) texts sup False us by (auto simp: update_settings_def bindR_Inr_iff refresh_snapshot_def Let_def)
    ultimately show ?thesis using stored_upserts [OF dist] by simp
  qed
  with keys supported typed show ?thesis by (intro that [of texts vals]) auto
qed

lemma typed_present:
  assumes "settings_typed s" and "k \<in> set SUPPORTED_SETTINGS"
  shows "s k \<noteq> None"
proof -
  consider (bool) "k \<in> set BOOLEAN_SETTINGS" | (mode) "k = ''ingress_mode''" | (int) "k \<in> set INTEGER_SETTINGS"
    using supported_kinds(1) assms(2) by (auto simp: list_all_iff)
  then show ?thesis
  proof cases
    case bool
    then show ?thesis using assms(1)
      by (auto simp: settings_typed_def BOOLEAN_SETTINGS_def BOOLEAN_ATTRIBUTES_def is_boolean_def split: option.splits)
  next
    case mode
    then show ?thesis using assms(1)
      by (auto simp: settings_typed_def text_attr_def INGRESS_MODES_def split: option.splits)
  next
    case int
    with tables_agree have "limit_of k \<noteq> None" by (auto simp: list_all_iff)
    then obtain l where "l \<in> set integer_limits" "fst (snd l) = k"
      by (auto simp: limit_of_def map_of_eq_None_iff)
    with assms(1) show ?thesis
      by (cases l rule: prod_cases4) (auto simp: settings_typed_def list_all_iff within_def split: option.splits)
  qed
qed

lemma limit_of_limit: "l \<in> set integer_limits \<Longrightarrow> limit_of (fst (snd l)) = Some (snd (snd l))"
proof -
  assume l: "l \<in> set integer_limits"
  have "map fst (map (\<lambda>(key, attr, lo, hi). (attr, lo, hi)) integer_limits) = map (fst \<circ> snd) integer_limits"
    by (simp add: case_prod_unfold)
  then have "distinct (map fst (map (\<lambda>(key, attr, lo, hi). (attr, lo, hi)) integer_limits))"
    using limit_attributes(1) by (simp only:)
  moreover have "(fst (snd l), snd (snd l)) \<in> set (map (\<lambda>(key, attr, lo, hi). (attr, lo, hi)) integer_limits)"
    using l by (cases l rule: prod_cases4) force
  ultimately show ?thesis unfolding limit_of_def by (rule map_of_is_SomeI)
qed

lemma value_kinds:
  assumes "value_typed k v"
  shows "k \<in> set BOOLEAN_SETTINGS \<Longrightarrow> \<exists>b. v = PyBool b"
    and "k = ''ingress_mode'' \<Longrightarrow> \<exists>mode \<in> set INGRESS_MODES. v = PyStr mode"
    and "k \<in> set INTEGER_SETTINGS \<Longrightarrow> \<exists>n lo hi. v = PyInt n \<and> limit_of k = Some (lo, hi) \<and> lo \<le> n \<and> n \<le> hi"
  using assms supported_kinds(2,3) by (auto simp: value_typed_def list_all_iff)

lemma settings_typed_update:
  assumes "settings_typed s" and "K \<subseteq> set SUPPORTED_SETTINGS" and "\<forall>k \<in> K. value_typed k (vals k)"
    and s': "\<And>k. s' k = (if k \<in> K then Some (vals k) else s k)"
    and "int_attr s' ''max_message_size_bytes'' \<le> int_attr s' ''parse_queue_max_bytes''"
  shows "settings_typed s'"
proof -
  have "within s' l" if l: "l \<in> set integer_limits" for l
  proof (cases "fst (snd l) \<in> K")
    case True
    with assms(2) limit_attributes(2) l have "fst (snd l) \<in> set INTEGER_SETTINGS" by (auto simp: list_all_iff)
    with value_kinds(3) assms(3) True obtain n lo hi
      where "vals (fst (snd l)) = PyInt n" "limit_of (fst (snd l)) = Some (lo, hi)" "lo \<le> n" "n \<le> hi" by metis
    with limit_of_limit [OF l] True show ?thesis by (cases l rule: prod_cases4) (simp add: within_def s')
  next
    case False
    with assms(1) l within_cong [of s' l s] show ?thesis by (simp add: s' settings_typed_def list_all_iff)
  qed
  moreover have "is_boolean (s' a)" if "a \<in> set BOOLEAN_ATTRIBUTES" for a
  proof (cases "a \<in> K")
    case True
    have "a \<in> set BOOLEAN_SETTINGS" using that by (simp add: BOOLEAN_ATTRIBUTES_def BOOLEAN_SETTINGS_def)
    with value_kinds(1) assms(3) True obtain b where "vals a = PyBool b" by metis
    with True show ?thesis by (simp add: s' is_boolean_def)
  qed (use assms(1) that in \<open>simp add: s' settings_typed_def list_all_iff\<close>)
  moreover have "text_attr s' ''ingress_mode'' \<in> set INGRESS_MODES"
  proof (cases "''ingress_mode'' \<in> K")
    case True
    with value_kinds(2) [OF _ refl] assms(3) show ?thesis by (force simp: s' text_attr_def)
  qed (use assms(1) in \<open>simp add: s' settings_typed_def text_attr_def\<close>)
  ultimately show ?thesis using assms(5) by (simp add: settings_typed_def list_all_iff)
qed

text \<open>
  C29: live settings stay well typed. An update that is accepted leaves every integer in the range the configuration declares,
  the switches booleans, the mode valid and the largest message within the parse queue's budget; it changes the keys of its
  payload and nothing else; and for each of them the text it stored reads back as the live value whatever the settings are when
  it is read, so a restart restores the same settings.
\<close>

theorem update_settings_typed:
  assumes "settings_typed (live st)" and "distinct (map fst payload)"
    and "update_settings authorized now payload st = Inr (pol, st')"
  shows "settings_typed (live st')
    \<and> (\<forall>k. k \<notin> fst ` set payload \<longrightarrow> live st' k = live st k)
    \<and> (\<forall>k \<in> fst ` set payload. \<exists>t. stored (rows st') k = Some t
          \<and> (\<forall>base. deserialize_value base k (PyStr t) = live st' k))"
proof -
  from update_settings_parts [OF assms(3,2)] typed_present [OF assms(1)] obtain texts vals
    where keys: "map fst texts = map fst payload" and sup: "set (map fst payload) \<subseteq> set SUPPORTED_SETTINGS"
      and typed: "\<And>k t. (k, t) \<in> set texts \<Longrightarrow> value_typed k (vals k) \<and> (\<forall>base. deserialize_value base k (PyStr t) = Some (vals k))"
      and lv: "\<And>k. live st' k = (if k \<in> fst ` set payload then Some (vals k) else live st k)"
      and sto: "\<And>k. stored (rows st') k = (case map_of texts k of Some t \<Rightarrow> Some t | None \<Rightarrow> stored (rows st) k)"
      and budget: "payload = [] \<or> validate_parse_queue_budget (map (\<lambda>(k, t). (k, Some (vals k))) texts) (live st) = Inr ()"
    by blast
  let ?K = "fst ` set payload"
  have tk: "fst ` set texts = ?K" using keys by (metis list.set_map)
  have vt: "\<forall>k \<in> ?K. value_typed k (vals k)" using typed tk by (metis (no_types, lifting) image_iff prod.collapse)
  have parse: "''parse_queue_max_bytes'' \<notin> ?K" using sup supported_kinds(4) by auto
  have "int_attr (live st') ''max_message_size_bytes'' \<le> int_attr (live st') ''parse_queue_max_bytes''"
  proof (cases "''max_message_size_bytes'' \<in> ?K")
    case True
    then obtain n where n: "vals ''max_message_size_bytes'' = PyInt n" using vt value_kinds(3) supported_kinds(6) by metis
    from True budget have "validate_parse_queue_budget (map (\<lambda>(k, t). (k, Some (vals k))) texts) (live st) = Inr ()" by auto
    then have "n \<le> int_attr (live st) ''parse_queue_max_bytes''"
      using True by (auto simp: validate_parse_queue_budget_def map_of_keyed tk n split: if_splits)
    with True parse n show ?thesis by (simp add: lv int_attr_def)
  qed (use assms(1) parse in \<open>simp add: lv int_attr_def settings_typed_def\<close>)
  then have "settings_typed (live st')" using sup vt lv by (intro settings_typed_update [OF assms(1), of ?K vals]) auto
  moreover have "\<exists>t. stored (rows st') k = Some t \<and> (\<forall>base. deserialize_value base k (PyStr t) = live st' k)" if "k \<in> ?K" for k
  proof -
    from that tk obtain t where "map_of texts k = Some t" by (metis domD dom_map_of_conv_image_fst)
    with typed [OF map_of_SomeD [OF this]] that show ?thesis by (simp add: sto lv)
  qed
  ultimately show ?thesis using lv by simp
qed

text \<open>
  What an update does not check: the connection limit of an SMTP listener on a network interface can be set to zero,
  which the configuration refuses at start.
\<close>

lemma zero_connections:
  "validate_supported_keys [(''smtp_max_concurrent_connections'', PyInt 0)] = Inr ()"
  "normalize_payload [(''smtp_max_concurrent_connections'', PyInt 0)] = Inr [(''smtp_max_concurrent_connections'', ''0'')]"
  "coerce_non_negative_int ''smtp_max_concurrent_connections'' (PyStr ''0'') = Inr 0"
  "''smtp_max_concurrent_connections'' \<notin> set BOOLEAN_SETTINGS"
  "''smtp_max_concurrent_connections'' \<in> set NON_NEGATIVE_INTEGER_SETTINGS"
  "''smtp_max_concurrent_connections'' \<in> set SUPPORTED_SETTINGS"
  by code_simp+

lemma update_removes_connection_limit:
  assumes "settings_typed (live st)" and "host_exposes_network L (text_attr (live st) ''smtp_host'')"
  shows "\<exists>pol st'. update_settings (Inr ()) now [(''smtp_max_concurrent_connections'', PyInt 0)] st = Inr (pol, st')
    \<and> exposed_without_limit L (live st')"
proof -
  let ?k = "''smtp_max_concurrent_connections''"
  have d: "deserialize_value (live st) ?k (PyStr ''0'') = Some (PyInt 0)"
    using zero_connections(3-5) by (simp add: deserialize_value_def)
  have b: "validate_parse_queue_budget [(?k, Some (PyInt 0))] (live st) = Inr ()"
    using assms(1) by (simp add: validate_parse_queue_budget_def settings_typed_def)
  have p: "live st ?k \<noteq> None" using assms(1) zero_connections(6) by (rule typed_present)
  define st' where "st' = refresh_snapshot (st\<lparr>rows := fold (upsert_setting now) [(?k, ''0'')] (rows st),
      live := apply_live_settings [(?k, Some (PyInt 0))] (live st)\<rparr>)"
  have "update_settings (Inr ()) now [(?k, PyInt 0)] st = Inr (Some (ingress_policy_of st'), st')"
    by (simp add: update_settings_def zero_connections(1,2) d b st'_def Let_def)
  moreover have "exposed_without_limit L (live st')"
    using p assms(2)
    by (simp add: st'_def refresh_snapshot_def apply_live_settings_def exposed_without_limit_def int_attr_def text_attr_def)
  ultimately show ?thesis by blast
qed

section \<open>Witness\<close>

definition ex_service :: settings_service where
  "ex_service = \<lparr>live = ex_settings, snapshot = [], rows = []\<rparr>"

definition ex_payload :: "(string \<times> pyval) list" where
  "ex_payload = [(''cleanup_batch_size'', PyStr '' 70 ''), (''catch_all_public_web_enabled'', PyInt 1)]"

lemma ex_settings_typed: "settings_typed (live ex_service)"
  using default_settings_ok [OF ex_settings_read] by (simp add: ex_service_def)

lemma ex_payload_texts:
  "validate_supported_keys ex_payload = Inr ()" "distinct (map fst ex_payload)"
  "normalize_payload ex_payload = Inr [(''cleanup_batch_size'', ''70''), (''catch_all_public_web_enabled'', ''1'')]"
  by code_simp+

lemma ex_update: "\<exists>pol st'. update_settings (Inr ()) ''2'' ex_payload ex_service = Inr (pol, st')"
proof -
  have "int_attr (live ex_service) ''max_message_size_bytes'' \<le> int_attr (live ex_service) ''parse_queue_max_bytes''"
    using ex_settings_typed by (simp add: settings_typed_def)
  then have "validate_parse_queue_budget [(''cleanup_batch_size'', v), (''catch_all_public_web_enabled'', w)] (live ex_service) = Inr ()" for v w
    by (simp add: validate_parse_queue_budget_def)
  then show ?thesis by (simp add: update_settings_def ex_payload_texts Let_def)
qed

theorem update_settings_typed_witness:
  "\<exists>pol st' t. update_settings (Inr ()) ''2'' ex_payload ex_service = Inr (pol, st') \<and> settings_typed (live st')
     \<and> stored (rows st') ''cleanup_batch_size'' = Some t
     \<and> deserialize_value Map.empty ''cleanup_batch_size'' (PyStr t) = live st' ''cleanup_batch_size''"
proof -
  from ex_update obtain pol st' where run: "update_settings (Inr ()) ''2'' ex_payload ex_service = Inr (pol, st')" by blast
  have "''cleanup_batch_size'' \<in> fst ` set ex_payload" by (simp add: ex_payload_def)
  with run update_settings_typed [OF ex_settings_typed ex_payload_texts(2) run] show ?thesis by blast
qed

end
