(* ===== verification/Api_Keys.thy ===== *)
theory Api_Keys
  imports Permissions Timestamps
begin

text \<open>
  \<^verbatim>\<open>src/app/auth/api_keys.py\<close>, the management half of \<open>ApiKeyService\<close>: the tables of keys, grants
  and administrators, the normalisation of a requested policy, the reload of the acting
  principal inside the transaction, and creating, updating, revoking, rotating and deleting a
  key. The lemmas show that no operation reaches a key outside the authority its caller has at
  that moment, and that the tables stay consistent.

  Texts of this theory (names, descriptions, identifiers) hold ASCII characters; mailbox patterns
  are arbitrary Unicode text.
\<close>

section \<open>Tables\<close>

text \<open>
  The column \<open>allowed_ip_cidrs\<close> as the code reads it: \<open>NoCidrs\<close> is \<open>NULL\<close> or the empty text,
  \<open>BadJson\<close> a text \<open>json.loads\<close> refuses, \<open>CidrJson\<close> the value of any other text.
\<close>

datatype cidr_column = NoCidrs | BadJson | CidrJson json

record api_key_row =
  k_id :: int
  k_public_id :: string
  k_name :: string
  k_description :: "string option"
  k_kind :: string
  k_prefix :: string
  k_secret_hash :: string
  k_owner_admin_id :: "int option"
  k_status :: string
  k_grant_mode :: string
  k_allow_header :: bool
  k_allow_query :: bool
  k_rate_limit :: int
  k_cidrs :: cidr_column
  k_expires_at :: "string option"
  k_last_used_at :: "string option"
  k_last_used_ip :: "string option"
  k_revoked_at :: "string option"
  k_created_by :: "int option"
  k_created_at :: string

record admin_row =
  a_id :: int
  a_username :: string
  a_display_name :: "string option"
  a_password_hash :: string
  a_role :: string
  a_is_active :: bool
  a_must_change_password :: bool
  a_created_at :: string
  a_updated_at :: string
  a_last_login_at :: "string option"
  a_last_login_ip :: "string option"

record admin_session_row =
  s_id :: string
  s_admin_id :: int
  s_token_hash :: string
  s_created_at :: string
  s_expires_at :: string
  s_revoked_at :: "string option"
  s_last_seen_at :: "string option"
  s_last_ip :: "string option"
  s_user_agent :: "string option"

text \<open>\<open>key_sequence\<close> is the last identifier of the autoincrement column; \<open>domain_keys\<close> are the domains.\<close>

record auth_db =
  key_rows :: "api_key_row list"
  key_scopes :: "(int \<times> string) list"
  key_domains :: "(int \<times> int) list"
  key_patterns :: "(int \<times> ustr) list"
  key_sequence :: int
  admin_rows :: "admin_row list"
  admin_sequence :: int
  session_rows :: "admin_session_row list"
  domain_keys :: "int list"

text \<open>
  Library functions the service calls: the parsers and Unicode tables of the prelude, the
  canonical text of a network, SHA-256 of an ASCII text, and \<open>str\<close> of a JSON value that is not a
  string.
\<close>

record keylib =
  kl_py :: pylib
  kl_unicode :: unicode
  with_prefixlen :: "ip_network \<Rightarrow> string"
  sha256_hex :: "string \<Rightarrow> string"
  json_str :: "json \<Rightarrow> string"

section \<open>Normalisation\<close>

definition VALID_API_KEY_KINDS :: "string list" where
  "VALID_API_KEY_KINDS = [''admin'', ''public'', ''service'']"

definition VALID_API_KEY_STATUSES :: "string list" where
  "VALID_API_KEY_STATUSES = [''active'', ''revoked'', ''expired'', ''disabled'']"

definition MAX_MAILBOX_PATTERNS :: nat where
  "MAX_MAILBOX_PATTERNS = 100"

definition MAX_ALLOWED_IP_CIDRS :: nat where
  "MAX_ALLOWED_IP_CIDRS = 100"

definition KEY_RATE_LIMIT_COUNT :: int where
  "KEY_RATE_LIMIT_COUNT = 10000000"

text \<open>\<open>make_api_key\<close>: the random prefix and secret are arguments.\<close>

definition make_api_key :: "keylib \<Rightarrow> string \<Rightarrow> string \<Rightarrow> string \<Rightarrow> string \<times> string \<times> string" where
  "make_api_key K kind prefix secret =
     (prefix, ''ri_'' @ kind @ ''_'' @ prefix @ ''_'' @ secret, sha256_hex K secret)"

definition has_control :: "string \<Rightarrow> bool" where
  "has_control s = list_ex (\<lambda>c. (of_char c :: nat) < 32) s"

definition normalize_name :: "string \<Rightarrow> string result" where
  "normalize_name value =
     (let name = str_strip value in
      if name = [] \<or> 200 < length name \<or> has_control name then Inl (ValueError ''invalid api key name'')
      else Inr name)"

definition nullable_text :: "string option \<Rightarrow> string option" where
  "nullable_text value =
     (case value of None \<Rightarrow> None | Some v \<Rightarrow> if str_strip v = [] then None else Some (str_strip v))"

definition normalize_description :: "string option \<Rightarrow> string option result" where
  "normalize_description value =
     (case nullable_text value of
        None \<Rightarrow> Inr None
      | Some d \<Rightarrow> if 4000 < length d then Inl (ValueError ''invalid api key description'') else Inr (Some d))"

fun key_coerce_bool :: "string \<Rightarrow> pyval \<Rightarrow> bool result" where
  "key_coerce_bool field_name (PyBool b) = Inr b"
| "key_coerce_bool field_name (PyInt n) =
     (if n = 0 then Inr False else if n = 1 then Inr True else Inl (ValueError (''invalid '' @ field_name)))"
| "key_coerce_bool field_name _ = Inl (ValueError (''invalid '' @ field_name))"

text \<open>\<open>int(value)\<close>, which truncates a float towards zero.\<close>

fun int_of_value :: "pyval \<Rightarrow> int result" where
  "int_of_value PyNone = Inl (TypeError ''int() argument must be a string or a number'')"
| "int_of_value (PyBool b) = Inr (if b then 1 else 0)"
| "int_of_value (PyInt n) = Inr n"
| "int_of_value (PyFloat m e) = Inr (if m < 0 then - (- m div 2 ^ e) else m div 2 ^ e)"
| "int_of_value PyNan = Inl (ValueError ''cannot convert float NaN to integer'')"
| "int_of_value PyInf = Inl (OverflowError ''cannot convert float infinity to integer'')"
| "int_of_value (PyStr s) =
     (case parse_int s of None \<Rightarrow> Inl (ValueError ''invalid literal for int()'') | Some n \<Rightarrow> Inr n)"

text \<open>\<open>except (TypeError, ValueError)\<close> with the message that replaces it.\<close>

definition or_value_error :: "string \<Rightarrow> 'a result \<Rightarrow> 'a result" where
  "or_value_error message r =
     (case r of Inl (TypeError _) \<Rightarrow> Inl (ValueError message) | Inl (ValueError _) \<Rightarrow> Inl (ValueError message) | _ \<Rightarrow> r)"

fun has_fraction :: "pyval \<Rightarrow> bool" where
  "has_fraction (PyFloat m e) = (\<not> 2 ^ e dvd m)"
| "has_fraction PyNan = True"
| "has_fraction PyInf = True"
| "has_fraction _ = False"

definition is_bool :: "pyval \<Rightarrow> bool" where
  "is_bool v = (case v of PyBool _ \<Rightarrow> True | _ \<Rightarrow> False)"

definition key_coerce_non_negative_int :: "string \<Rightarrow> pyval \<Rightarrow> int result" where
  "key_coerce_non_negative_int field_name value =
     (let message = ''invalid '' @ field_name in
      if is_bool value \<or> has_fraction value then Inl (ValueError message)
      else bindR (or_value_error message (int_of_value value)) (\<lambda>n.
        if n < 0 then Inl (ValueError message)
        else if field_name = ''rate_limit_per_min'' \<and> KEY_RATE_LIMIT_COUNT < n then Inl (ValueError message)
        else Inr n))"

definition unique_int :: "pyval \<Rightarrow> int result" where
  "unique_int value =
     (if is_bool value then Inl (ValueError ''invalid domain id'')
      else bindR (or_value_error ''invalid domain id'' (int_of_value value)) (\<lambda>n.
        if n < 1 then Inl (ValueError ''invalid domain id'') else Inr n))"

text \<open>The loops keep the first occurrence of every value.\<close>

definition unique_int_values :: "pyval list \<Rightarrow> int list result" where
  "unique_int_values values =
     (if 10000 < length values then Inl (ValueError ''too many domain ids'')
      else bindR (mapR unique_int values) (\<lambda>ns. Inr (first_occurrences [] ns)))"

definition normalize_pattern :: "unicode \<Rightarrow> ustr \<Rightarrow> ustr result" where
  "normalize_pattern U value =
     (let pattern = py_strip U value in
      if pattern = [] then Inl (ValueError ''invalid empty mailbox pattern'')
      else if 320 < length pattern \<or> list_ex (\<lambda>c. c < 32) pattern \<or> 91 \<in> set pattern \<or> 93 \<in> set pattern
        then Inl (ValueError ''invalid mailbox pattern'')
      else if length (filter (\<lambda>c. c = 64) pattern) \<noteq> 1
        then Inl (ValueError ''mailbox pattern must contain exactly one @'')
      else Inr pattern)"

definition normalize_mailbox_patterns :: "unicode \<Rightarrow> ustr list \<Rightarrow> ustr list result" where
  "normalize_mailbox_patterns U values =
     (if MAX_MAILBOX_PATTERNS < length values then Inl (ValueError ''too many mailbox patterns'')
      else bindR (mapR (normalize_pattern U) values) (\<lambda>ps. Inr (first_occurrences [] ps)))"

definition canonical_cidr :: "keylib \<Rightarrow> string \<Rightarrow> string result" where
  "canonical_cidr K value =
     (case parse_ip_network (kl_py K) value of
        None \<Rightarrow> Inl (ValueError (value @ '' does not appear to be an IPv4 or IPv6 network''))
      | Some n \<Rightarrow> Inr (with_prefixlen K n))"

definition normalize_ip_cidrs :: "keylib \<Rightarrow> string list \<Rightarrow> string list result" where
  "normalize_ip_cidrs K values =
     (if MAX_ALLOWED_IP_CIDRS < length values then Inl (ValueError ''too many allowed IP networks'')
      else bindR (mapR (canonical_cidr K) values) (\<lambda>cs. Inr (first_occurrences [] cs)))"

definition dump_cidrs :: "string list \<Rightarrow> cidr_column" where
  "dump_cidrs cs = (if cs = [] then NoCidrs else CidrJson (JArray (map JString cs)))"

definition json_item_text :: "keylib \<Rightarrow> json \<Rightarrow> string" where
  "json_item_text K j = (case j of JString s \<Rightarrow> s | _ \<Rightarrow> json_str K j)"

definition decode_allowed_ip_cidrs :: "keylib \<Rightarrow> cidr_column \<Rightarrow> string list" where
  "decode_allowed_ip_cidrs K value =
     (case value of
        CidrJson (JString s) \<Rightarrow> [s]
      | CidrJson (JArray js) \<Rightarrow> filter (\<lambda>s. str_strip s \<noteq> []) (map (json_item_text K) js)
      | _ \<Rightarrow> [])"

definition normalize_domain_grant_mode :: "string \<Rightarrow> string result" where
  "normalize_domain_grant_mode value =
     (let mode = str_lower (str_strip value) in
      if mode \<notin> set VALID_DOMAIN_GRANT_MODES then Inl (ValueError ''invalid domain grant mode'') else Inr mode)"

definition validate_domain_grants :: "string \<Rightarrow> int list \<Rightarrow> unit result" where
  "validate_domain_grants mode ds =
     (if mode \<in> {''none'', ''all''} \<and> ds \<noteq> []
      then Inl (ValueError (''domain ids are not allowed in '' @ mode @ '' grant mode'')) else Inr ())"

text \<open>An expiry is absent, a text or a \<open>datetime\<close>; \<open>astimezone\<close> raises outside the years 1 to 9999.\<close>

datatype expiry_value = NoExpiry | ExpiryText string | ExpiryDatetime py_datetime

definition utc_expiration :: "py_datetime \<Rightarrow> string option result" where
  "utc_expiration parsed =
     (case parsed of
        Naive _ \<Rightarrow> Inl (ValueError ''expires_at must include a timezone'')
      | Aware t \<Rightarrow> if valid_time t then Inr (Some (utc_text t)) else Inl (OverflowError ''date value out of range''))"

fun normalize_expiration :: "keylib \<Rightarrow> expiry_value \<Rightarrow> string option result" where
  "normalize_expiration K NoExpiry = Inr None"
| "normalize_expiration K (ExpiryDatetime parsed) = utc_expiration parsed"
| "normalize_expiration K (ExpiryText value) =
     (let s = str_strip value in
      if s = [] then Inr None
      else (case fromisoformat (kl_py K) (replace_Z s) of
              None \<Rightarrow> Inl (ValueError ''invalid expires_at'')
            | Some parsed \<Rightarrow> utc_expiration parsed))"

definition expiration_is_due :: "keylib \<Rightarrow> string \<Rightarrow> string option \<Rightarrow> bool result" where
  "expiration_is_due K now value =
     (case value of
        None \<Rightarrow> Inr False
      | Some v \<Rightarrow>
          if v = [] then Inr False
          else (case normalize_expiration K (ExpiryText v) of
                  Inr None \<Rightarrow> Inr False
                | Inr (Some s) \<Rightarrow> Inr (s \<le> now)
                | Inl (ValueError _) \<Rightarrow> Inr True
                | Inl (TypeError _) \<Rightarrow> Inr True
                | Inl e \<Rightarrow> Inl e))"

section \<open>Reading a key\<close>

definition key_row :: "auth_db \<Rightarrow> int \<Rightarrow> api_key_row option" where
  "key_row db i = find (\<lambda>r. k_id r = i) (key_rows db)"

definition granted_to :: "int \<Rightarrow> (int \<times> 'a::linorder) list \<Rightarrow> 'a list" where
  "granted_to i rows = sort (map snd (filter (\<lambda>g. fst g = i) rows))"

definition row_policy :: "keylib \<Rightarrow> auth_db \<Rightarrow> api_key_row \<Rightarrow> key_policy" where
  "row_policy K db r =
     \<lparr>kp_scopes = granted_to (k_id r) (key_scopes db), kp_domain_grant_mode = k_grant_mode r,
      kp_domain_ids = granted_to (k_id r) (key_domains db),
      kp_mailbox_patterns = granted_to (k_id r) (key_patterns db),
      kp_rate_limit_per_min = k_rate_limit r,
      kp_allowed_ip_cidrs = decode_allowed_ip_cidrs K (k_cidrs r), kp_expires_at = k_expires_at r,
      kp_allow_header = k_allow_header r, kp_allow_query = k_allow_query r\<rparr>"

text \<open>\<open>_load_key\<close>: the row with the grants read from the other tables.\<close>

definition load_key :: "keylib \<Rightarrow> auth_db \<Rightarrow> int \<Rightarrow> (api_key_row \<times> key_policy) option" where
  "load_key K db i = map_option (\<lambda>r. (r, row_policy K db r)) (key_row db i)"

section \<open>The acting principal\<close>

definition policy_context ::
  "api_key_row \<Rightarrow> key_policy \<Rightarrow> string list \<Rightarrow> ustr list \<Rightarrow> string list \<Rightarrow> permission_context" where
  "policy_context r p ss ps cs =
     \<lparr>scopes = ss, domain_ids = kp_domain_ids p, mailbox_patterns = ps, domain_grant_mode = k_grant_mode r,
      api_key_id = Some (k_id r), public_id = k_public_id r, ctx_name = k_name r, ctx_kind = k_kind r,
      legacy_credential = False, rate_limit_per_min = k_rate_limit r, allowed_ip_cidrs = cs,
      expires_at = k_expires_at r, allow_header = k_allow_header r, allow_query = k_allow_query r,
      admin_id = None, admin_session_id = None\<rparr>"

text \<open>The mode falls back to \<open>none\<close> when the column is empty, which its constraint excludes.\<close>

definition acting_key :: "keylib \<Rightarrow> string \<Rightarrow> int \<Rightarrow> auth_db \<Rightarrow> permission_context result" where
  "acting_key K now i db =
     (let inactive = Inl (ApiKeyAuthorizationError ''acting api key is no longer active'') in
      case load_key K db i of
        None \<Rightarrow> inactive
      | Some (r, p) \<Rightarrow>
          if k_status r \<noteq> ''active'' then inactive
          else bindR (expiration_is_due K now (k_expires_at r)) (\<lambda>due.
            if due then inactive
            else (case bindR (validate_scopes_for_kind (k_kind r) (kp_scopes p)) (\<lambda>ss.
                       bindR (normalize_mailbox_patterns (kl_unicode K) (kp_mailbox_patterns p)) (\<lambda>ps.
                       bindR (normalize_ip_cidrs K (kp_allowed_ip_cidrs p)) (\<lambda>cs.
                         let mode = (if k_grant_mode r = [] then ''none'' else k_grant_mode r)
                         in Inr ((policy_context r p ss ps cs)\<lparr>domain_grant_mode := mode\<rparr>)))) of
                    Inl _ \<Rightarrow> Inl (ApiKeyAuthorizationError ''acting api key policy is invalid'')
                  | Inr c \<Rightarrow> Inr c)))"

definition acting_admin ::
  "string \<Rightarrow> string \<Rightarrow> int option \<Rightarrow> auth_db \<Rightarrow> permission_context result" where
  "acting_admin now sid aid db =
     (case List.find (\<lambda>s. s_id s = sid \<and> s_revoked_at s = None \<and> now < s_expires_at s) (session_rows db) of
        None \<Rightarrow> Inl (ApiKeyAuthorizationError ''acting admin session is no longer active'')
      | Some s \<Rightarrow>
          (case find (\<lambda>a. a_id a = s_admin_id s \<and> a_is_active a \<and> (aid = None \<or> aid = Some (a_id a))) (admin_rows db) of
             None \<Rightarrow> Inl (ApiKeyAuthorizationError ''acting admin session is no longer active'')
           | Some a \<Rightarrow>
               (case ROLE_SCOPES (a_role a) of
                  None \<Rightarrow> Inl (ApiKeyAuthorizationError ''acting admin role is invalid'')
                | Some role_scopes \<Rightarrow>
                    Inr \<lparr>scopes = sort role_scopes, domain_ids = [], mailbox_patterns = [],
                         domain_grant_mode = ''all'', api_key_id = None, public_id = sid,
                         ctx_name = text_or (a_display_name a) (a_username a), ctx_kind = ''admin'',
                         legacy_credential = False, rate_limit_per_min = 0, allowed_ip_cidrs = [],
                         expires_at = None, allow_header = True, allow_query = True,
                         admin_id = Some (a_id a), admin_session_id = Some sid\<rparr>)))"

definition has_required_scope :: "string \<Rightarrow> string list \<Rightarrow> bool" where
  "has_required_scope required ss =
     (required \<in> set ss
      \<or> ends_with required ''.read'' \<and> drop_last 5 required @ ''.write'' \<in> set ss)"

definition transaction_authorization_principal ::
  "keylib \<Rightarrow> string \<Rightarrow> string \<Rightarrow> bool \<Rightarrow> int option \<Rightarrow> permission_context option \<Rightarrow> auth_db
     \<Rightarrow> permission_context option result" where
  "transaction_authorization_principal K now required_scope require_global domain actor db =
     (case actor of
        None \<Rightarrow> Inr None
      | Some p \<Rightarrow>
          if legacy_credential p then Inr (Some p)
          else bindR
            (case api_key_id p of
               Some i \<Rightarrow> acting_key K now i db
             | None \<Rightarrow>
                 (case admin_session_id p of
                    Some sid \<Rightarrow> acting_admin now sid (admin_id p) db
                  | None \<Rightarrow> Inr p))
            (\<lambda>current.
               if \<not> has_required_scope required_scope (scopes current) then
                 Inl (ApiKeyAuthorizationError
                   (''acting principal no longer has required scope: '' @ required_scope))
               else if require_global \<and> domain_grant_mode current \<noteq> ''all'' then
                 Inl (ApiKeyAuthorizationError ''acting principal no longer has an all-domain grant'')
               else
                 (case domain of
                    None \<Rightarrow> Inr (Some current)
                  | Some d \<Rightarrow>
                      if domain_grant_mode current = ''all'' then Inr (Some current)
                      else if domain_grant_mode current = ''selected'' \<and> d \<in> set (domain_ids current)
                      then Inr (Some current)
                      else Inl (ApiKeyAuthorizationError
                        ''acting principal no longer has the target domain grant''))))"

definition transaction_management_principal ::
  "keylib \<Rightarrow> string \<Rightarrow> permission_context option \<Rightarrow> auth_db \<Rightarrow> permission_context option result" where
  "transaction_management_principal K now actor db =
     transaction_authorization_principal K now ''api_keys.write'' True None actor db"

definition assert_key_within_principal ::
  "keylib \<Rightarrow> permission_context option \<Rightarrow> key_policy \<Rightarrow> unit result" where
  "assert_key_within_principal K actor target =
     (case actor of
        None \<Rightarrow> Inr ()
      | Some p \<Rightarrow> if api_key_is_within_principal (kl_py K) p target then Inr ()
                  else Inl (ApiKeyAuthorizationError ''api key policy exceeds acting principal''))"

section \<open>Creating a key\<close>

definition key_conflict :: "string \<Rightarrow> 'a result" where
  "key_conflict table = Inl (IntegrityError (''constraint failed: '' @ table))"

text \<open>\<open>INSERT INTO api_keys\<close> with the constraints of the table; the row gets the next identifier.\<close>

definition insert_key_row :: "api_key_row \<Rightarrow> auth_db \<Rightarrow> (int \<times> auth_db) result" where
  "insert_key_row r db =
     (let admin_ok = (\<lambda>a. case a of None \<Rightarrow> True | Some i \<Rightarrow> i \<in> a_id ` set (admin_rows db));
          i = key_sequence db + 1
      in if list_ex (\<lambda>r'. k_public_id r' = k_public_id r \<or> k_prefix r' = k_prefix r
                          \<or> k_secret_hash r' = k_secret_hash r) (key_rows db)
            \<or> k_kind r \<notin> set VALID_API_KEY_KINDS \<or> k_status r \<notin> set VALID_API_KEY_STATUSES
            \<or> k_grant_mode r \<notin> set VALID_DOMAIN_GRANT_MODES
            \<or> \<not> admin_ok (k_owner_admin_id r) \<or> \<not> admin_ok (k_created_by r)
         then key_conflict ''api_keys''
         else Inr (i, db\<lparr>key_rows := key_rows db @ [r\<lparr>k_id := i\<rparr>], key_sequence := i\<rparr>))"

text \<open>One \<open>INSERT\<close> per value; \<open>ok\<close> is the foreign key of the value.\<close>

fun insert_grants :: "('a \<Rightarrow> bool) \<Rightarrow> int \<Rightarrow> 'a list \<Rightarrow> (int \<times> 'a) list \<Rightarrow> (int \<times> 'a) list result" where
  "insert_grants ok i [] rows = Inr rows"
| "insert_grants ok i (x # xs) rows =
     (if (i, x) \<in> set rows \<or> \<not> ok x then key_conflict ''grants''
      else insert_grants ok i xs (rows @ [(i, x)]))"

definition insert_all_grants ::
  "int \<Rightarrow> string list \<Rightarrow> int list \<Rightarrow> ustr list \<Rightarrow> auth_db \<Rightarrow> auth_db result" where
  "insert_all_grants i ss ds ps db =
     bindR (insert_grants (\<lambda>_. True) i ss (key_scopes db)) (\<lambda>scope_rows.
     bindR (insert_grants (\<lambda>d. d \<in> set (domain_keys db)) i ds (key_domains db)) (\<lambda>domain_rows.
     bindR (insert_grants (\<lambda>_. True) i ps (key_patterns db)) (\<lambda>pattern_rows.
       Inr (db\<lparr>key_scopes := scope_rows, key_domains := domain_rows, key_patterns := pattern_rows\<rparr>))))"

record key_request =
  kr_name :: string
  kr_kind :: string
  kr_scopes :: "string list"
  kr_domain_ids :: "pyval list"
  kr_patterns :: "ustr list"
  kr_mode :: "string option"
  kr_description :: "string option"
  kr_owner :: "int option"
  kr_created_by :: "int option"
  kr_status :: string
  kr_allow_header :: pyval
  kr_allow_query :: pyval
  kr_rate_limit :: pyval
  kr_cidrs :: "string list"
  kr_expires_at :: expiry_value

text \<open>What precedes the transaction: the requested policy with the name and the description.\<close>

definition requested_mode :: "string option \<Rightarrow> int list \<Rightarrow> string result" where
  "requested_mode mode ds =
     (case mode of None \<Rightarrow> Inr (if ds \<noteq> [] then ''selected'' else ''none'') | Some m \<Rightarrow> normalize_domain_grant_mode m)"

definition requested_policy :: "keylib \<Rightarrow> key_request \<Rightarrow> (string \<times> string option \<times> key_policy) result" where
  "requested_policy K q =
     (if kr_kind q \<notin> set VALID_API_KEY_KINDS then Inl (ValueError ''invalid api key kind'')
      else if kr_status q \<notin> set VALID_API_KEY_STATUSES then Inl (ValueError ''invalid api key status'')
      else
        bindR (normalize_name (kr_name q)) (\<lambda>name.
        bindR (normalize_description (kr_description q)) (\<lambda>description.
        bindR (validate_scopes_for_kind (kr_kind q) (kr_scopes q)) (\<lambda>ss.
        bindR (unique_int_values (kr_domain_ids q)) (\<lambda>ds.
        bindR (requested_mode (kr_mode q) ds) (\<lambda>mode.
        bindR (validate_domain_grants mode ds) (\<lambda>_.
        bindR (normalize_mailbox_patterns (kl_unicode K) (kr_patterns q)) (\<lambda>ps.
        bindR (normalize_ip_cidrs K (kr_cidrs q)) (\<lambda>cs.
        bindR (key_coerce_non_negative_int ''rate_limit_per_min'' (kr_rate_limit q)) (\<lambda>rate.
        bindR (key_coerce_bool ''allow_header'' (kr_allow_header q)) (\<lambda>header.
        bindR (key_coerce_bool ''allow_query'' (kr_allow_query q)) (\<lambda>qry.
        bindR (normalize_expiration K (kr_expires_at q)) (\<lambda>expires.
          Inr (name, description,
               \<lparr>kp_scopes = ss, kp_domain_grant_mode = mode, kp_domain_ids = ds, kp_mailbox_patterns = ps,
                kp_rate_limit_per_min = rate, kp_allowed_ip_cidrs = cs, kp_expires_at = expires,
                kp_allow_header = header, kp_allow_query = qry\<rparr>))))))))))))))"

text \<open>The random identifiers of a key.\<close>

record key_fresh =
  f_prefix :: string
  f_secret :: string
  f_public_id :: string

definition new_key_row ::
  "keylib \<Rightarrow> string \<Rightarrow> key_fresh \<Rightarrow> key_request \<Rightarrow> string \<Rightarrow> string option \<Rightarrow> key_policy \<Rightarrow> api_key_row" where
  "new_key_row K now f q name description p =
     (case make_api_key K (kr_kind q) (f_prefix f) (f_secret f) of (prefix, _, hash) \<Rightarrow>
        \<lparr>k_id = 0, k_public_id = f_public_id f, k_name = name, k_description = description,
         k_kind = kr_kind q, k_prefix = prefix, k_secret_hash = hash, k_owner_admin_id = kr_owner q,
         k_status = kr_status q, k_grant_mode = kp_domain_grant_mode p,
         k_allow_header = kp_allow_header p, k_allow_query = kp_allow_query p,
         k_rate_limit = kp_rate_limit_per_min p, k_cidrs = dump_cidrs (kp_allowed_ip_cidrs p),
         k_expires_at = kp_expires_at p, k_last_used_at = None, k_last_used_ip = None,
         k_revoked_at = None, k_created_by = kr_created_by q, k_created_at = now\<rparr>)"

text \<open>\<open>create_key\<close>: the identifier and the plain text of the new key.\<close>

definition create_key ::
  "keylib \<Rightarrow> string \<Rightarrow> permission_context option \<Rightarrow> key_fresh \<Rightarrow> key_request \<Rightarrow> auth_db
     \<Rightarrow> ((int \<times> string) \<times> auth_db) result" where
  "create_key K now actor f q db =
     bindR (requested_policy K q) (\<lambda>(name, description, p).
     bindR (transaction_management_principal K now actor db) (\<lambda>current.
     bindR (assert_key_within_principal K current p) (\<lambda>_.
     bindR (insert_key_row (new_key_row K now f q name description p) db) (\<lambda>(i, db1).
     bindR (insert_all_grants i (kp_scopes p) (kp_domain_ids p) (kp_mailbox_patterns p) db1) (\<lambda>db2.
       Inr ((i, fst (snd (make_api_key K (kr_kind q) (f_prefix f) (f_secret f)))), db2))))))"

section \<open>Changing a key\<close>

text \<open>A missing argument (\<open>_UNSET\<close>) is \<open>None\<close>.\<close>

record key_update =
  ku_name :: "string option"
  ku_description :: "string option option"
  ku_kind :: "string option"
  ku_status :: "string option"
  ku_allow_header :: "pyval option"
  ku_allow_query :: "pyval option"
  ku_rate_limit :: "pyval option"
  ku_cidrs :: "string list option"
  ku_expires_at :: "expiry_value option"
  ku_scopes :: "string list option"
  ku_domain_ids :: "pyval list option"
  ku_patterns :: "ustr list option"
  ku_mode :: "string option"

record key_changes =
  kc_name :: "string option"
  kc_description :: "string option option"
  kc_kind :: "string option"
  kc_status :: "string option"
  kc_allow_header :: "bool option"
  kc_allow_query :: "bool option"
  kc_rate_limit :: "int option"
  kc_cidrs :: "cidr_column option"
  kc_expires_at :: "string option option"
  kc_scopes :: "string list option"
  kc_domain_ids :: "int list option"
  kc_patterns :: "ustr list option"
  kc_mode :: "string option"

definition optR :: "('a \<Rightarrow> 'b result) \<Rightarrow> 'a option \<Rightarrow> 'b option result" where
  "optR f x = (case x of None \<Rightarrow> Inr None | Some v \<Rightarrow> bindR (f v) (\<lambda>w. Inr (Some w)))"

definition one_of :: "string list \<Rightarrow> string \<Rightarrow> string \<Rightarrow> string result" where
  "one_of allowed message value =
     (if str_strip value \<notin> set allowed then Inl (ValueError message) else Inr (str_strip value))"

text \<open>Domain identifiers without a mode switch the key to \<open>selected\<close>.\<close>

definition changed_mode :: "string option \<Rightarrow> int list option \<Rightarrow> string option result" where
  "changed_mode mode ds =
     (case mode of
        Some m \<Rightarrow> bindR (normalize_domain_grant_mode m) (\<lambda>m. Inr (Some m))
      | None \<Rightarrow> Inr (if ds = None then None else Some ''selected''))"

definition check_grants :: "string option \<Rightarrow> int list option \<Rightarrow> unit result" where
  "check_grants mode ds =
     (case (mode, ds) of (Some m, Some xs) \<Rightarrow> validate_domain_grants m xs | _ \<Rightarrow> Inr ())"

definition requested_changes :: "keylib \<Rightarrow> key_update \<Rightarrow> key_changes result" where
  "requested_changes K q =
     bindR (optR normalize_name (ku_name q)) (\<lambda>name.
     bindR (optR normalize_description (ku_description q)) (\<lambda>description.
     bindR (optR (one_of VALID_API_KEY_KINDS ''invalid api key kind'') (ku_kind q)) (\<lambda>kind.
     bindR (optR (one_of VALID_API_KEY_STATUSES ''invalid api key status'') (ku_status q)) (\<lambda>status.
     bindR (optR (key_coerce_bool ''allow_header'') (ku_allow_header q)) (\<lambda>header.
     bindR (optR (key_coerce_bool ''allow_query'') (ku_allow_query q)) (\<lambda>qry.
     bindR (optR (key_coerce_non_negative_int ''rate_limit_per_min'') (ku_rate_limit q)) (\<lambda>rate.
     bindR (optR (normalize_ip_cidrs K) (ku_cidrs q)) (\<lambda>cs.
     bindR (optR (normalize_expiration K) (ku_expires_at q)) (\<lambda>expires.
     bindR (optR unique_int_values (ku_domain_ids q)) (\<lambda>ds.
     bindR (optR (normalize_mailbox_patterns (kl_unicode K)) (ku_patterns q)) (\<lambda>ps.
     bindR (changed_mode (ku_mode q) ds) (\<lambda>mode.
     bindR (check_grants mode ds) (\<lambda>_.
       Inr \<lparr>kc_name = name, kc_description = description, kc_kind = kind, kc_status = status,
            kc_allow_header = header, kc_allow_query = qry, kc_rate_limit = rate,
            kc_cidrs = map_option dump_cidrs cs, kc_expires_at = expires, kc_scopes = ku_scopes q,
            kc_domain_ids = ds, kc_patterns = ps, kc_mode = mode\<rparr>)))))))))))))"

definition new_or :: "'a option \<Rightarrow> 'a \<Rightarrow> 'a" where
  "new_or x d = (case x of None \<Rightarrow> d | Some v \<Rightarrow> v)"

definition changed_revocation :: "string \<Rightarrow> string option \<Rightarrow> string option \<Rightarrow> string option" where
  "changed_revocation now status revoked =
     (case status of
        None \<Rightarrow> revoked
      | Some s \<Rightarrow> if s = ''revoked'' then Some (new_or revoked now) else None)"

definition apply_changes :: "string \<Rightarrow> key_changes \<Rightarrow> api_key_row \<Rightarrow> api_key_row" where
  "apply_changes now c r =
     r\<lparr>k_name := new_or (kc_name c) (k_name r), k_description := new_or (kc_description c) (k_description r),
       k_status := new_or (kc_status c) (k_status r),
       k_allow_header := new_or (kc_allow_header c) (k_allow_header r),
       k_allow_query := new_or (kc_allow_query c) (k_allow_query r),
       k_rate_limit := new_or (kc_rate_limit c) (k_rate_limit r),
       k_cidrs := new_or (kc_cidrs c) (k_cidrs r), k_expires_at := new_or (kc_expires_at c) (k_expires_at r),
       k_grant_mode := new_or (kc_mode c) (k_grant_mode r),
       k_revoked_at := changed_revocation now (kc_status c) (k_revoked_at r)\<rparr>"

definition update_key_row :: "int \<Rightarrow> (api_key_row \<Rightarrow> api_key_row) \<Rightarrow> auth_db \<Rightarrow> auth_db" where
  "update_key_row i f db = db\<lparr>key_rows := map (\<lambda>r. if k_id r = i then f r else r) (key_rows db)\<rparr>"

text \<open>\<open>DELETE\<close> of the grants of a key and the \<open>INSERT\<close>s of the new ones.\<close>

definition replace_grants ::
  "('a \<Rightarrow> bool) \<Rightarrow> int \<Rightarrow> 'a list option \<Rightarrow> (int \<times> 'a) list \<Rightarrow> (int \<times> 'a) list result" where
  "replace_grants ok i values rows =
     (case values of
        None \<Rightarrow> Inr rows
      | Some xs \<Rightarrow> insert_grants ok i xs (filter (\<lambda>g. fst g \<noteq> i) rows))"

text \<open>The domain grants are replaced, with nothing, also when the mode leaves \<open>selected\<close>.\<close>

definition replaced_domains :: "key_changes \<Rightarrow> int list option" where
  "replaced_domains c =
     (if kc_domain_ids c = None \<and> kc_mode c \<in> {Some ''none'', Some ''all''} then Some [] else kc_domain_ids c)"

definition update_key ::
  "keylib \<Rightarrow> string \<Rightarrow> permission_context option \<Rightarrow> int \<Rightarrow> key_update \<Rightarrow> auth_db
     \<Rightarrow> ((api_key_row \<times> key_policy) \<times> auth_db) result" where
  "update_key K now actor i q db =
     bindR (requested_changes K q) (\<lambda>c.
     bindR (transaction_management_principal K now actor db) (\<lambda>current.
     (case load_key K db i of
        None \<Rightarrow> Inl (LookupError ''api key not found'')
      | Some (r, p) \<Rightarrow>
          bindR (assert_key_within_principal K current p) (\<lambda>_.
          if kc_kind c \<noteq> None \<and> kc_kind c \<noteq> Some (k_kind r) then Inl (ValueError ''api key kind cannot be changed'')
          else
            bindR (optR (validate_scopes_for_kind (k_kind r)) (kc_scopes c)) (\<lambda>ss.
            bindR (check_grants (Some (new_or (kc_mode c) (k_grant_mode r))) (kc_domain_ids c)) (\<lambda>_.
            let db1 = update_key_row i (apply_changes now c) db in
            bindR (replace_grants (\<lambda>_. True) i ss (key_scopes db1)) (\<lambda>scope_rows.
            bindR (replace_grants (\<lambda>d. d \<in> set (domain_keys db1)) i (replaced_domains c) (key_domains db1)) (\<lambda>domain_rows.
            bindR (replace_grants (\<lambda>_. True) i (kc_patterns c) (key_patterns db1)) (\<lambda>pattern_rows.
            let db2 = db1\<lparr>key_scopes := scope_rows, key_domains := domain_rows, key_patterns := pattern_rows\<rparr> in
            (case load_key K db2 i of
               None \<Rightarrow> Inl (LookupError ''api key not found'')
             | Some (r', p') \<Rightarrow>
                 bindR (assert_key_within_principal K current p') (\<lambda>_. Inr ((r', p'), db2))))))))))))"

text \<open>The three operations on an existing key begin alike.\<close>

definition managed_key ::
  "keylib \<Rightarrow> string \<Rightarrow> permission_context option \<Rightarrow> int \<Rightarrow> auth_db \<Rightarrow> (api_key_row \<times> key_policy) result" where
  "managed_key K now actor i db =
     bindR (transaction_management_principal K now actor db) (\<lambda>current.
     (case load_key K db i of
        None \<Rightarrow> Inl (LookupError ''api key not found'')
      | Some (r, p) \<Rightarrow> bindR (assert_key_within_principal K current p) (\<lambda>_. Inr (r, p))))"

definition delete_key_rows :: "int \<Rightarrow> auth_db \<Rightarrow> auth_db" where
  "delete_key_rows i db =
     db\<lparr>key_rows := filter (\<lambda>r. k_id r \<noteq> i) (key_rows db),
        key_scopes := filter (\<lambda>g. fst g \<noteq> i) (key_scopes db),
        key_domains := filter (\<lambda>g. fst g \<noteq> i) (key_domains db),
        key_patterns := filter (\<lambda>g. fst g \<noteq> i) (key_patterns db)\<rparr>"

definition delete_key ::
  "keylib \<Rightarrow> string \<Rightarrow> permission_context option \<Rightarrow> int \<Rightarrow> auth_db \<Rightarrow> (int \<times> auth_db) result" where
  "delete_key K now actor i db =
     bindR (managed_key K now actor i db) (\<lambda>(r, p).
       if k_status r \<noteq> ''revoked'' then Inl (ValueError ''api key must be revoked before deletion'')
       else Inr (k_id r, delete_key_rows i db))"

definition revoke_key ::
  "keylib \<Rightarrow> string \<Rightarrow> permission_context option \<Rightarrow> int \<Rightarrow> auth_db \<Rightarrow> (string \<times> auth_db) result" where
  "revoke_key K now actor i db =
     bindR (managed_key K now actor i db) (\<lambda>(r, p).
       Inr (text_or (k_revoked_at r) now,
            update_key_row i (\<lambda>r. r\<lparr>k_status := ''revoked'', k_revoked_at := Some (new_or (k_revoked_at r) now)\<rparr>) db))"

text \<open>The \<open>UPDATE\<close> of a rotation is subject to the unique columns.\<close>

definition set_secret :: "int \<Rightarrow> string \<Rightarrow> string \<Rightarrow> auth_db \<Rightarrow> auth_db result" where
  "set_secret i prefix hash db =
     (if list_ex (\<lambda>r. k_id r \<noteq> i \<and> (k_prefix r = prefix \<or> k_secret_hash r = hash)) (key_rows db)
      then key_conflict ''api_keys''
      else Inr (update_key_row i (\<lambda>r. r\<lparr>k_prefix := prefix, k_secret_hash := hash\<rparr>) db))"

definition rotate_key ::
  "keylib \<Rightarrow> string \<Rightarrow> permission_context option \<Rightarrow> key_fresh \<Rightarrow> int \<Rightarrow> auth_db
     \<Rightarrow> (string \<times> auth_db) result" where
  "rotate_key K now actor f i db =
     bindR (managed_key K now actor i db) (\<lambda>(r, p).
       if k_status r \<noteq> ''active'' then Inl (ValueError ''only active api keys can be rotated'')
       else bindR (expiration_is_due K now (k_expires_at r)) (\<lambda>due.
         if due then Inl (ValueError ''expired api keys cannot be rotated'')
         else (case make_api_key K (k_kind r) (f_prefix f) (f_secret f) of (prefix, plain_text, hash) \<Rightarrow>
                 bindR (set_secret i prefix hash db) (\<lambda>db1. Inr (plain_text, db1)))))"

text \<open>Every management call, with the table contents it commits.\<close>

datatype key_op =
    CreateKey key_fresh key_request
  | UpdateKey int key_update
  | DeleteKey int
  | RevokeKey int
  | RotateKey key_fresh int

fun run_key_op :: "keylib \<Rightarrow> string \<Rightarrow> permission_context option \<Rightarrow> key_op \<Rightarrow> auth_db \<Rightarrow> auth_db result" where
  "run_key_op K now P (CreateKey f q) db = bindR (create_key K now P f q db) (\<lambda>x. Inr (snd x))"
| "run_key_op K now P (UpdateKey i q) db = bindR (update_key K now P i q db) (\<lambda>x. Inr (snd x))"
| "run_key_op K now P (DeleteKey i) db = bindR (delete_key K now P i db) (\<lambda>x. Inr (snd x))"
| "run_key_op K now P (RevokeKey i) db = bindR (revoke_key K now P i db) (\<lambda>x. Inr (snd x))"
| "run_key_op K now P (RotateKey f i) db = bindR (rotate_key K now P f i db) (\<lambda>x. Inr (snd x))"

end
