(* ===== verification/Key_Management.thy ===== *)
theory Key_Management
  imports Api_Keys
begin

text \<open>
  Facts on the management of API keys (\<^verbatim>\<open>src/app/auth/api_keys.py\<close>): what the normalisers leave of a
  requested policy, the invariant of the key tables, that every operation keeps it, and that no
  operation leaves the authority of its caller.
\<close>

section \<open>Stored policies\<close>

text \<open>What the service relies on in the library: a canonical network and a canonical time read back.\<close>

definition lib_ok :: "keylib \<Rightarrow> bool" where
  "lib_ok K \<longleftrightarrow>
     (\<forall>c n. parse_ip_network (kl_py K) c = Some n \<longrightarrow>
        parse_ip_network (kl_py K) (with_prefixlen K n) = Some n \<and> str_strip (with_prefixlen K n) \<noteq> [])
     \<and> (\<forall>t. valid_time t \<longrightarrow> fromisoformat (kl_py K) (replace_Z (utc_text t)) = Some (Aware t))"

text \<open>A row whose policy every reader accepts as it is stored.\<close>

definition key_wf :: "keylib \<Rightarrow> auth_db \<Rightarrow> api_key_row \<Rightarrow> bool" where
  "key_wf K db r \<longleftrightarrow>
     k_kind r \<in> set VALID_API_KEY_KINDS \<and> k_status r \<in> set VALID_API_KEY_STATUSES
     \<and> k_grant_mode r \<in> set VALID_DOMAIN_GRANT_MODES
     \<and> validate_scopes_for_kind (k_kind r) (granted_to (k_id r) (key_scopes db)) = Inr (granted_to (k_id r) (key_scopes db))
     \<and> normalize_mailbox_patterns (kl_unicode K) (granted_to (k_id r) (key_patterns db)) = Inr (granted_to (k_id r) (key_patterns db))
     \<and> (k_grant_mode r \<noteq> ''selected'' \<longrightarrow> granted_to (k_id r) (key_domains db) = [])
     \<and> 0 \<le> k_rate_limit r \<and> k_rate_limit r \<le> KEY_RATE_LIMIT_COUNT
     \<and> (\<exists>cs. k_cidrs r = dump_cidrs cs \<and> normalize_ip_cidrs K cs = Inr cs)
     \<and> (k_expires_at r = None \<or> (\<exists>t. valid_time t \<and> k_expires_at r = Some (utc_text t)))"

definition grants_ok :: "auth_db \<Rightarrow> (int \<times> 'a) list \<Rightarrow> bool" where
  "grants_ok db rows \<longleftrightarrow> distinct rows \<and> fst ` set rows \<subseteq> k_id ` set (key_rows db)"

definition key_inv :: "keylib \<Rightarrow> auth_db \<Rightarrow> bool" where
  "key_inv K db \<longleftrightarrow>
     distinct (map k_id (key_rows db)) \<and> distinct (map k_prefix (key_rows db))
     \<and> (\<forall>r \<in> set (key_rows db). k_id r \<le> key_sequence db \<and> key_wf K db r)
     \<and> grants_ok db (key_scopes db) \<and> grants_ok db (key_domains db) \<and> grants_ok db (key_patterns db)
     \<and> snd ` set (key_domains db) \<subseteq> set (domain_keys db)"

lemma first_occurrences_id: "distinct (seen @ xs) \<Longrightarrow> first_occurrences seen xs = seen @ xs"
  by (induction xs arbitrary: seen) auto

lemma strip_by_idem: "strip_by p (strip_by p xs) = strip_by p xs"
proof -
  let ?ys = "strip_by p xs"
  have last: "?ys = [] \<or> \<not> p (last ?ys)"
    using hd_dropWhile [of p "rev (dropWhile p xs)"]
    by (cases "?ys = []") (auto simp: strip_by_def rstrip_by_def last_rev)
  have first: "?ys = [] \<or> \<not> p (hd ?ys)"
  proof (cases "dropWhile p xs")
    case (Cons c cs)
    then have "\<not> p c" using hd_dropWhile [of p xs] by auto
    moreover have "?ys = [] \<or> hd ?ys = c"
      using Cons by (cases cs rule: rev_cases) (auto simp: strip_by_def rstrip_by_def dropWhile_append hd_append)
    ultimately show ?thesis by auto
  next
    case Nil
    then show ?thesis by (simp add: strip_by_def rstrip_by_def del: dropWhile_eq_Nil_conv)
  qed
  from first have "dropWhile p ?ys = ?ys" by (cases ?ys) auto
  with last show ?thesis by (simp add: strip_by_def [of p ?ys] rstrip_by_id)
qed

lemma mapR_id: "(\<And>x. x \<in> set xs \<Longrightarrow> f x = Inr x) \<Longrightarrow> mapR f xs = Inr xs"
  by (induction xs) auto

text \<open>
  The three list normalisers have one shape: a bound, a normaliser of elements that fixes its own
  results, and the first occurrences. Any arrangement of their output passes unchanged.
\<close>

definition normalize_list :: "nat \<Rightarrow> exn \<Rightarrow> ('a \<Rightarrow> 'b result) \<Rightarrow> 'a list \<Rightarrow> 'b list result" where
  "normalize_list n e f xs = (if n < length xs then Inl e else bindR (mapR f xs) (\<lambda>ys. Inr (first_occurrences [] ys)))"

lemmas list_normalizers =
  normalize_mailbox_patterns_def [folded normalize_list_def]
  normalize_ip_cidrs_def [folded normalize_list_def]

lemma length_first_occurrences: "length (first_occurrences seen xs) \<le> length seen + length xs"
proof (induction xs arbitrary: seen)
  case (Cons x xs)
  then show ?case using Cons [of seen] Cons [of "seen @ [x]"] by (auto simp: le_SucI)
qed simp

lemma normalize_list_result:
  assumes "normalize_list n e f xs = Inr ys"
  shows "distinct ys" and "length ys \<le> n" and "y \<in> set ys \<Longrightarrow> \<exists>x. f x = Inr y"
proof -
  obtain zs where z: "mapR f xs = Inr zs" "ys = first_occurrences [] zs" "length xs \<le> n"
    using assms by (auto simp: normalize_list_def bindR_Inr_iff split: if_splits)
  show "distinct ys" using z(2) by (simp add: distinct_first_occurrences)
  have "length zs = length xs" using z(1) by (auto simp: mapR_Inr dest: list_all2_lengthD)
  then show "length ys \<le> n" using z length_first_occurrences [of "[]" zs] by simp
  show "\<exists>x. f x = Inr y" if "y \<in> set ys"
  proof -
    have "y \<in> set zs" using that z(2) by (simp add: set_first_occurrences)
    then show ?thesis using z(1) by (auto simp: mapR_Inr list_all2_conv_all_nth in_set_conv_nth)
  qed
qed

lemma normalize_list_fixed:
  assumes "distinct ys" and "length ys \<le> n" and "\<And>y. y \<in> set ys \<Longrightarrow> f y = Inr y"
  shows "normalize_list n e f ys = Inr ys"
proof -
  have "mapR f ys = Inr ys" by (rule mapR_id) (rule assms(3))
  then show ?thesis using assms(1,2) by (simp add: normalize_list_def first_occurrences_id)
qed

lemma normalize_pattern_fixed: "normalize_pattern U x = Inr y \<Longrightarrow> normalize_pattern U y = Inr y"
proof -
  assume "normalize_pattern U x = Inr y"
  then have "y = py_strip U x" "normalize_pattern U x = Inr (py_strip U x)"
    by (auto simp: normalize_pattern_def Let_def split: if_splits)
  then show ?thesis by (simp add: normalize_pattern_def py_strip_def strip_by_idem Let_def split: if_splits)
qed

lemma canonical_cidr_fixed: "lib_ok K \<Longrightarrow> canonical_cidr K x = Inr y \<Longrightarrow> canonical_cidr K y = Inr y"
  by (auto simp: canonical_cidr_def lib_ok_def split: option.splits)

lemma normalize_patterns_arranged:
  assumes "normalize_mailbox_patterns U xs = Inr ys" and "distinct zs" and "set zs = set ys"
  shows "normalize_mailbox_patterns U zs = Inr zs"
proof -
  note r = assms(1) [unfolded list_normalizers]
  have "length zs = length ys"
    using assms(2,3) normalize_list_result(1) [OF r] by (metis distinct_card)
  moreover have "normalize_pattern U z = Inr z" if "z \<in> set zs" for z
    using that assms(3) normalize_list_result(3) [OF r] normalize_pattern_fixed by blast
  ultimately show ?thesis
    using assms(2) normalize_list_result(2) [OF r] unfolding list_normalizers
    by (intro normalize_list_fixed) auto
qed

lemma normalize_cidrs_fixed:
  assumes "lib_ok K" and "normalize_ip_cidrs K xs = Inr ys"
  shows "normalize_ip_cidrs K ys = Inr ys"
proof -
  note r = assms(2) [unfolded list_normalizers]
  have "canonical_cidr K y = Inr y" if "y \<in> set ys" for y
    using normalize_list_result(3) [OF r that] canonical_cidr_fixed [OF assms(1)] by blast
  then show ?thesis
    using normalize_list_result(1,2) [OF r] unfolding list_normalizers by (intro normalize_list_fixed) auto
qed

lemma decode_dump:
  assumes "lib_ok K" and "normalize_ip_cidrs K cs = Inr cs"
  shows "decode_allowed_ip_cidrs K (dump_cidrs cs) = cs"
proof -
  have "str_strip c \<noteq> []" if "c \<in> set cs" for c
    using normalize_list_result(3) [OF assms(2) [unfolded list_normalizers] that] assms(1)
    by (auto simp: canonical_cidr_def lib_ok_def split: option.splits)
  then show ?thesis by (simp add: decode_allowed_ip_cidrs_def dump_cidrs_def json_item_text_def o_def)
qed


lemma valid_scopes_strip: "s \<in> set VALID_API_KEY_SCOPES \<Longrightarrow> str_strip s = s"
  unfolding VALID_API_KEY_SCOPES_def PUBLIC_API_KEY_SCOPES_def SERVICE_API_KEY_SCOPES_def ADMIN_API_KEY_SCOPES_def
  by (auto simp: str_strip_def strip_by_def rstrip_by_def ascii_space_def)

lemma validate_scopes_iff:
  "validate_scopes_for_kind kind raw = Inr out \<longleftrightarrow>
     (\<exists>allowed. API_KEY_KIND_SCOPES kind = Some allowed \<and> length raw \<le> 100
        \<and> set (map str_strip raw) \<subseteq> set allowed \<and> out = first_occurrences [] (map str_strip raw) \<and> out \<noteq> [])"
  by (cases "API_KEY_KIND_SCOPES kind")
    (auto simp: validate_scopes_for_kind_def bindR_Inr_iff validate_scope_loop_iff [OF kind_scopes_valid])

lemma validate_scopes_arranged:
  assumes "validate_scopes_for_kind kind xs = Inr ys" and "distinct zs" and "set zs = set ys"
  shows "validate_scopes_for_kind kind zs = Inr zs"
proof -
  obtain allowed where a: "API_KEY_KIND_SCOPES kind = Some allowed" "length xs \<le> 100"
    "set (map str_strip xs) \<subseteq> set allowed" "ys = first_occurrences [] (map str_strip xs)" "ys \<noteq> []"
    using assms(1) unfolding validate_scopes_iff by blast
  have sub: "set zs \<subseteq> set allowed" using a(3,4) assms(3) by (auto simp: set_first_occurrences)
  have strip: "map str_strip zs = zs"
    using sub kind_scopes_valid(1) [OF a(1)] by (auto intro!: map_idI valid_scopes_strip)
  have "distinct ys" using a(4) by (simp add: distinct_first_occurrences)
  then have "length zs = length ys" using assms(2,3) by (metis distinct_card)
  then have "length zs \<le> 100" "zs \<noteq> []"
    using a length_first_occurrences [of "[]" "map str_strip xs"] by auto
  then show ?thesis
    unfolding validate_scopes_iff using a(1) sub strip assms(2) first_occurrences_id [of "[]" zs] by auto
qed

lemma validate_scopes_distinct: "validate_scopes_for_kind kind xs = Inr ys \<Longrightarrow> distinct ys"
  by (auto simp: validate_scopes_iff distinct_first_occurrences)

section \<open>Grant tables\<close>

lemma insert_grants_Inr:
  "insert_grants ok i xs rows = Inr rows' \<longleftrightarrow>
     rows' = rows @ map (Pair i) xs \<and> distinct xs \<and> (\<forall>x \<in> set xs. ok x \<and> (i, x) \<notin> set rows)"
  by (induction xs arbitrary: rows) (auto simp: key_conflict_def)

lemma set_granted: "set (granted_to i rows) = {x. (i, x) \<in> set rows}"
  by (force simp: granted_to_def)

lemma distinct_granted: "distinct rows \<Longrightarrow> distinct (granted_to i rows)"
  by (auto simp: granted_to_def distinct_map inj_on_def)

lemma granted_append_other: "j \<noteq> i \<Longrightarrow> granted_to j (rows @ map (Pair i) xs) = granted_to j rows"
  by (auto simp: granted_to_def filter_map o_def)

lemma granted_filter: "granted_to j (filter (\<lambda>g. fst g \<noteq> i) rows) = (if j = i then [] else granted_to j rows)"
  by (auto simp: granted_to_def conj_commute intro!: arg_cong [of _ _ "\<lambda>l. sort (map snd l)"] filter_cong)

lemma no_grants: "i \<notin> fst ` set rows \<Longrightarrow> filter (\<lambda>g. fst g = i) rows = []"
  by (auto simp: filter_empty_conv)

lemma granted_none: "i \<notin> fst ` set rows \<Longrightarrow> granted_to i rows = []"
  by (simp add: granted_to_def no_grants)

lemma granted_new:
  assumes "i \<notin> fst ` set rows"
  shows "granted_to i (rows @ map (Pair i) xs) = sort xs"
  using no_grants [OF assms] by (simp add: granted_to_def filter_map o_def)

text \<open>A table after its part for one key is kept or replaced.\<close>

lemma replace_grants_spec:
  assumes "replace_grants ok i values rows = Inr rows'"
  shows "j \<noteq> i \<Longrightarrow> granted_to j rows' = granted_to j rows"
    and "values = None \<Longrightarrow> rows' = rows"
    and "values = Some xs \<Longrightarrow> set (granted_to i rows') = set xs \<and> distinct (granted_to i rows')"
    and "distinct rows \<Longrightarrow> distinct rows'"
    and "fst ` set rows' \<subseteq> insert i (fst ` set rows)"
    and "snd ` set rows' \<subseteq> snd ` set rows \<union> {x. ok x}"
proof -
  have "i \<notin> fst ` set (filter (\<lambda>g. fst g \<noteq> i) rows)" by auto
  note new = granted_new [OF this]
  show "j \<noteq> i \<Longrightarrow> granted_to j rows' = granted_to j rows" "values = None \<Longrightarrow> rows' = rows"
    "values = Some xs \<Longrightarrow> set (granted_to i rows') = set xs \<and> distinct (granted_to i rows')"
    using assms
    by (auto simp: replace_grants_def insert_grants_Inr granted_append_other granted_filter new split: option.splits)
  show "distinct rows \<Longrightarrow> distinct rows'" "fst ` set rows' \<subseteq> insert i (fst ` set rows)"
    "snd ` set rows' \<subseteq> snd ` set rows \<union> {x. ok x}"
    using assms
    by (auto simp: replace_grants_def insert_grants_Inr distinct_map inj_on_def split: option.splits)
qed

section \<open>Requests\<close>

text \<open>What the normalisers leave of a requested policy for a key of a kind.\<close>

definition policy_ok :: "keylib \<Rightarrow> string \<Rightarrow> key_policy \<Rightarrow> bool" where
  "policy_ok K kind p \<longleftrightarrow>
     (\<exists>raw. validate_scopes_for_kind kind raw = Inr (kp_scopes p))
     \<and> (\<exists>raw. normalize_mailbox_patterns (kl_unicode K) raw = Inr (kp_mailbox_patterns p))
     \<and> (\<exists>raw. normalize_ip_cidrs K raw = Inr (kp_allowed_ip_cidrs p))
     \<and> kp_domain_grant_mode p \<in> set VALID_DOMAIN_GRANT_MODES
     \<and> (kp_domain_grant_mode p \<noteq> ''selected'' \<longrightarrow> kp_domain_ids p = [])
     \<and> 0 \<le> kp_rate_limit_per_min p \<and> kp_rate_limit_per_min p \<le> KEY_RATE_LIMIT_COUNT
     \<and> (kp_expires_at p = None \<or> (\<exists>t. valid_time t \<and> kp_expires_at p = Some (utc_text t)))"

lemma normalize_expiration_ok:
  "normalize_expiration K v = Inr x \<Longrightarrow> x = None \<or> (\<exists>t. valid_time t \<and> x = Some (utc_text t))"
  by (cases v) (auto simp: utc_expiration_def Let_def split: if_splits option.splits py_datetime.splits)

lemma rate_limit_ok:
  "key_coerce_non_negative_int ''rate_limit_per_min'' v = Inr n \<Longrightarrow> 0 \<le> n \<and> n \<le> KEY_RATE_LIMIT_COUNT"
  by (auto simp: key_coerce_non_negative_int_def Let_def bindR_Inr_iff split: if_splits)

lemma grant_mode_ok: "normalize_domain_grant_mode v = Inr m \<Longrightarrow> m \<in> set VALID_DOMAIN_GRANT_MODES"
  by (auto simp: normalize_domain_grant_mode_def Let_def split: if_splits)

lemma modes: "m \<in> set VALID_DOMAIN_GRANT_MODES \<longleftrightarrow> m \<in> {''none'', ''all''} \<or> m = ''selected''"
  by (auto simp: VALID_DOMAIN_GRANT_MODES_def)

lemma domain_grants_ok:
  assumes "validate_domain_grants m ds = Inr v" and "m \<in> set VALID_DOMAIN_GRANT_MODES" and "m \<noteq> ''selected''"
  shows "ds = []"
  using assms by (auto simp: validate_domain_grants_def modes split: if_splits)

lemma requested_mode_ok: "requested_mode m ds = Inr mode \<Longrightarrow> mode \<in> set VALID_DOMAIN_GRANT_MODES"
  by (auto simp: requested_mode_def modes split: option.splits if_splits dest: grant_mode_ok)

lemma requested_policy_ok:
  assumes "requested_policy K q = Inr (name, description, p)"
  shows "kr_kind q \<in> set VALID_API_KEY_KINDS" and "kr_status q \<in> set VALID_API_KEY_STATUSES"
    and "policy_ok K (kr_kind q) p"
proof -
  show kind: "kr_kind q \<in> set VALID_API_KEY_KINDS" "kr_status q \<in> set VALID_API_KEY_STATUSES"
    using assms by (auto simp: requested_policy_def split: if_splits)
  have "validate_scopes_for_kind (kr_kind q) (kr_scopes q) = Inr (kp_scopes p)
      \<and> normalize_mailbox_patterns (kl_unicode K) (kr_patterns q) = Inr (kp_mailbox_patterns p)
      \<and> normalize_ip_cidrs K (kr_cidrs q) = Inr (kp_allowed_ip_cidrs p)
      \<and> requested_mode (kr_mode q) (kp_domain_ids p) = Inr (kp_domain_grant_mode p)
      \<and> validate_domain_grants (kp_domain_grant_mode p) (kp_domain_ids p) = Inr ()
      \<and> key_coerce_non_negative_int ''rate_limit_per_min'' (kr_rate_limit q) = Inr (kp_rate_limit_per_min p)
      \<and> normalize_expiration K (kr_expires_at q) = Inr (kp_expires_at p)"
    using assms kind by (auto simp: requested_policy_def bindR_Inr_iff)
  then show "policy_ok K (kr_kind q) p"
    using requested_mode_ok domain_grants_ok rate_limit_ok normalize_expiration_ok unfolding policy_ok_def by blast
qed

lemma optR_Inr: "optR f x = Inr y \<longleftrightarrow> (case x of None \<Rightarrow> y = None | Some v \<Rightarrow> \<exists>w. f v = Inr w \<and> y = Some w)"
  by (auto simp: optR_def bindR_Inr_iff split: option.splits)

lemma optR_Some: "optR f x = Inr (Some w) \<Longrightarrow> \<exists>v. f v = Inr w"
  by (auto simp: optR_Inr split: option.splits)

text \<open>The same for the changes of an update, column by column.\<close>

definition changes_ok :: "keylib \<Rightarrow> key_changes \<Rightarrow> bool" where
  "changes_ok K c \<longleftrightarrow>
     (\<forall>s. kc_status c = Some s \<longrightarrow> s \<in> set VALID_API_KEY_STATUSES)
     \<and> (\<forall>n. kc_rate_limit c = Some n \<longrightarrow> 0 \<le> n \<and> n \<le> KEY_RATE_LIMIT_COUNT)
     \<and> (\<forall>col. kc_cidrs c = Some col \<longrightarrow> (\<exists>raw cs. normalize_ip_cidrs K raw = Inr cs \<and> col = dump_cidrs cs))
     \<and> (\<forall>e. kc_expires_at c = Some e \<longrightarrow> e = None \<or> (\<exists>t. valid_time t \<and> e = Some (utc_text t)))
     \<and> (\<forall>ps. kc_patterns c = Some ps \<longrightarrow> (\<exists>raw. normalize_mailbox_patterns (kl_unicode K) raw = Inr ps))
     \<and> (\<forall>m. kc_mode c = Some m \<longrightarrow> m \<in> set VALID_DOMAIN_GRANT_MODES)
     \<and> (kc_domain_ids c \<noteq> None \<longrightarrow> kc_mode c \<noteq> None)
     \<and> (\<forall>m ds. kc_mode c = Some m \<longrightarrow> kc_domain_ids c = Some ds \<longrightarrow> m \<noteq> ''selected'' \<longrightarrow> ds = [])"

lemma changed_mode_ok:
  assumes "changed_mode m ds = Inr mode"
  shows "mode = Some x \<Longrightarrow> x \<in> set VALID_DOMAIN_GRANT_MODES" and "ds \<noteq> None \<Longrightarrow> mode \<noteq> None"
  using assms by (auto simp: changed_mode_def modes bindR_Inr_iff split: option.splits if_splits dest!: grant_mode_ok)

lemma one_of_ok: "one_of allowed msg v = Inr w \<Longrightarrow> w \<in> set allowed"
  by (auto simp: one_of_def split: if_splits)

lemma requested_changes_parts:
  assumes "requested_changes K q = Inr c"
  shows "optR (one_of VALID_API_KEY_STATUSES ''invalid api key status'') (ku_status q) = Inr (kc_status c)"
    and "optR (key_coerce_non_negative_int ''rate_limit_per_min'') (ku_rate_limit q) = Inr (kc_rate_limit c)"
    and "\<exists>cs. optR (normalize_ip_cidrs K) (ku_cidrs q) = Inr cs \<and> kc_cidrs c = map_option dump_cidrs cs"
    and "optR (normalize_expiration K) (ku_expires_at q) = Inr (kc_expires_at c)"
    and "optR (normalize_mailbox_patterns (kl_unicode K)) (ku_patterns q) = Inr (kc_patterns c)"
    and "changed_mode (ku_mode q) (kc_domain_ids c) = Inr (kc_mode c)"
    and "check_grants (kc_mode c) (kc_domain_ids c) = Inr ()"
  using assms unfolding requested_changes_def bindR_Inr_iff by (elim exE conjE, force)+

lemma requested_changes_ok: "requested_changes K q = Inr c \<Longrightarrow> changes_ok K c"
proof -
  assume "requested_changes K q = Inr c"
  note p = requested_changes_parts [OF this]
  show ?thesis
    unfolding changes_ok_def
  proof (intro conjI allI impI)
    show "s \<in> set VALID_API_KEY_STATUSES" if "kc_status c = Some s" for s
      using optR_Some [OF p(1) [unfolded that]] one_of_ok by blast
    show "0 \<le> n" "n \<le> KEY_RATE_LIMIT_COUNT" if "kc_rate_limit c = Some n" for n
      using optR_Some [OF p(2) [unfolded that]] rate_limit_ok by blast+
    show "\<exists>raw cs. normalize_ip_cidrs K raw = Inr cs \<and> col = dump_cidrs cs" if "kc_cidrs c = Some col" for col
      using p(3) that optR_Some [of "normalize_ip_cidrs K" "ku_cidrs q"] by (auto simp: map_option_case split: option.splits) blast
    show "e = None \<or> (\<exists>t. valid_time t \<and> e = Some (utc_text t))" if "kc_expires_at c = Some e" for e
      using optR_Some [OF p(4) [unfolded that]] normalize_expiration_ok by blast
    show "\<exists>raw. normalize_mailbox_patterns (kl_unicode K) raw = Inr ps" if "kc_patterns c = Some ps" for ps
      using optR_Some [OF p(5) [unfolded that]] by blast
    show "m \<in> set VALID_DOMAIN_GRANT_MODES" if "kc_mode c = Some m" for m
      using changed_mode_ok(1) [OF p(6) that] .
    show "kc_mode c \<noteq> None" if "kc_domain_ids c \<noteq> None"
      using changed_mode_ok(2) [OF p(6) that] .
    show "ds = []" if "kc_mode c = Some m" "kc_domain_ids c = Some ds" "m \<noteq> ''selected''" for m ds
      using p(7) [unfolded that] that(3) domain_grants_ok [of m ds "()"] changed_mode_ok(1) [OF p(6) that(1)]
      by (simp add: check_grants_def)
  qed
qed

section \<open>The operations on the tables\<close>

lemma find_unique: "distinct (map f xs) \<Longrightarrow> x \<in> set xs \<Longrightarrow> find (\<lambda>y. f y = f x) xs = Some x"
  by (induction xs) (auto simp: image_iff)

lemma key_rowI: "distinct (map k_id (key_rows db)) \<Longrightarrow> r \<in> set (key_rows db) \<Longrightarrow> key_row db (k_id r) = Some r"
  unfolding key_row_def by (rule find_unique)

lemma key_row_Some: "key_row db i = Some r \<Longrightarrow> r \<in> set (key_rows db) \<and> k_id r = i"
  by (auto simp: key_row_def find_Some_iff)

lemma insert_key_row_Inr:
  "insert_key_row r db = Inr (i, db1) \<Longrightarrow>
     i = key_sequence db + 1 \<and> db1 = db\<lparr>key_rows := key_rows db @ [r\<lparr>k_id := i\<rparr>], key_sequence := i\<rparr>
     \<and> k_prefix r \<notin> k_prefix ` set (key_rows db)"
  by (auto simp: insert_key_row_def Let_def key_conflict_def list_ex_iff split: if_splits)

lemma create_key_Inr:
  assumes "create_key K now P f q db = Inr (out, db')"
  obtains name description p current r i where "requested_policy K q = Inr (name, description, p)"
    "transaction_management_principal K now P db = Inr current" "assert_key_within_principal K current p = Inr ()"
    "i = key_sequence db + 1" "r = (new_key_row K now f q name description p)\<lparr>k_id := i\<rparr>"
    "k_prefix r \<notin> k_prefix ` set (key_rows db)" "distinct (kp_domain_ids p)"
    "set (kp_domain_ids p) \<subseteq> set (domain_keys db)" "distinct (kp_scopes p)" "distinct (kp_mailbox_patterns p)"
    "out = (i, ''ri_'' @ kr_kind q @ ''_'' @ f_prefix f @ ''_'' @ f_secret f)"
    "db' = db\<lparr>key_rows := key_rows db @ [r], key_sequence := i,
                 key_scopes := key_scopes db @ map (Pair i) (kp_scopes p),
                 key_domains := key_domains db @ map (Pair i) (kp_domain_ids p),
                 key_patterns := key_patterns db @ map (Pair i) (kp_mailbox_patterns p)\<rparr>"
proof -
  obtain name description p current i db1 where c: "requested_policy K q = Inr (name, description, p)"
    "transaction_management_principal K now P db = Inr current"
    "assert_key_within_principal K current p = Inr ()"
    "insert_key_row (new_key_row K now f q name description p) db = Inr (i, db1)"
    "insert_all_grants i (kp_scopes p) (kp_domain_ids p) (kp_mailbox_patterns p) db1 = Inr db'"
    "out = (i, ''ri_'' @ kr_kind q @ ''_'' @ f_prefix f @ ''_'' @ f_secret f)"
    using assms by (auto simp: create_key_def bindR_Inr_iff make_api_key_def)
  note ins = insert_key_row_Inr [OF c(4)]
  have "db' = db1\<lparr>key_scopes := key_scopes db1 @ map (Pair i) (kp_scopes p),
                 key_domains := key_domains db1 @ map (Pair i) (kp_domain_ids p),
                 key_patterns := key_patterns db1 @ map (Pair i) (kp_mailbox_patterns p)\<rparr>
      \<and> distinct (kp_domain_ids p) \<and> set (kp_domain_ids p) \<subseteq> set (domain_keys db1)
      \<and> distinct (kp_scopes p) \<and> distinct (kp_mailbox_patterns p)"
    using c(5) by (auto simp: insert_all_grants_def bindR_Inr_iff insert_grants_Inr)
  then show ?thesis using ins by (intro that [OF c(1,2,3) _ refl]) (simp_all add: c(6))
qed


lemma update_key_Inr:
  assumes "update_key K now P i q db = Inr (out, db')"
  obtains c current r p ss scope_rows domain_rows pattern_rows where
    "changes_ok K c" "transaction_management_principal K now P db = Inr current" "load_key K db i = Some (r, p)"
    "assert_key_within_principal K current p = Inr ()"
    "optR (validate_scopes_for_kind (k_kind r)) (kc_scopes c) = Inr ss"
    "replace_grants (\<lambda>_. True) i ss (key_scopes db) = Inr scope_rows"
    "replace_grants (\<lambda>d. d \<in> set (domain_keys db)) i (replaced_domains c) (key_domains db) = Inr domain_rows"
    "replace_grants (\<lambda>_. True) i (kc_patterns c) (key_patterns db) = Inr pattern_rows"
    "db' = (update_key_row i (apply_changes now c) db)\<lparr>key_scopes := scope_rows, key_domains := domain_rows,
       key_patterns := pattern_rows\<rparr>"
    "load_key K db' i = Some out" "assert_key_within_principal K current (snd out) = Inr ()"
proof -
  obtain c where c: "requested_changes K q = Inr c" using assms by (auto simp: update_key_def bindR_Inr_iff)
  obtain current where current: "transaction_management_principal K now P db = Inr current"
    using assms by (auto simp: update_key_def bindR_Inr_iff)
  obtain r p where rp: "load_key K db i = Some (r, p)"
    using assms c current by (cases "load_key K db i") (auto simp: update_key_def)
  note u = assms [unfolded update_key_def, simplified c current rp bindR.simps option.case prod.case Let_def]
  from u obtain ss scope_rows domain_rows pattern_rows where v:
    "assert_key_within_principal K current p = Inr ()"
    "optR (validate_scopes_for_kind (k_kind r)) (kc_scopes c) = Inr ss"
    "replace_grants (\<lambda>_. True) i ss (key_scopes db) = Inr scope_rows"
    "replace_grants (\<lambda>d. d \<in> set (domain_keys db)) i (replaced_domains c) (key_domains db) = Inr domain_rows"
    "replace_grants (\<lambda>_. True) i (kc_patterns c) (key_patterns db) = Inr pattern_rows"
    and w: "(case load_key K ((update_key_row i (apply_changes now c) db)\<lparr>key_scopes := scope_rows,
               key_domains := domain_rows, key_patterns := pattern_rows\<rparr>) i of
               None \<Rightarrow> Inl (LookupError ''api key not found'')
             | Some (r', p') \<Rightarrow> bindR (assert_key_within_principal K current p') (\<lambda>_. Inr ((r', p'),
                 (update_key_row i (apply_changes now c) db)\<lparr>key_scopes := scope_rows,
                  key_domains := domain_rows, key_patterns := pattern_rows\<rparr>))) = Inr (out, db')"
    by (auto simp: bindR_Inr_iff update_key_row_def split: if_splits)
  from w show ?thesis
    using that [OF requested_changes_ok [OF c] current rp v]
    by (auto simp: bindR_Inr_iff split: option.splits)
qed

lemma managed_key_Inr:
  assumes "managed_key K now P i db = Inr (r, p)"
  obtains current where "transaction_management_principal K now P db = Inr current"
    "load_key K db i = Some (r, p)" "assert_key_within_principal K current p = Inr ()"
proof (cases "transaction_management_principal K now P db")
  case (Inr current)
  show ?thesis
  proof (cases "load_key K db i")
    case (Some x)
    with Inr assms show ?thesis
      by (cases x) (auto simp: managed_key_def bindR_Inr_iff intro: that)
  qed (use Inr assms in \<open>simp add: managed_key_def\<close>)
qed (use assms in \<open>simp add: managed_key_def\<close>)

text \<open>Revocation and rotation change columns that no reader of the policy looks at.\<close>

definition same_policy_columns :: "(api_key_row \<Rightarrow> api_key_row) \<Rightarrow> bool" where
  "same_policy_columns g \<longleftrightarrow>
     (\<forall>r. k_id (g r) = k_id r \<and> k_kind (g r) = k_kind r \<and> k_grant_mode (g r) = k_grant_mode r
        \<and> k_rate_limit (g r) = k_rate_limit r \<and> k_cidrs (g r) = k_cidrs r \<and> k_expires_at (g r) = k_expires_at r
        \<and> k_allow_header (g r) = k_allow_header r \<and> k_allow_query (g r) = k_allow_query r)"

lemma revoke_key_Inr:
  assumes "revoke_key K now P i db = Inr (out, db')"
  obtains g r p where "managed_key K now P i db = Inr (r, p)" "db' = update_key_row i g db" "same_policy_columns g"
    "\<And>r. k_prefix (g r) = k_prefix r" "\<And>r. k_status (g r) = ''revoked''"
proof -
  let ?g = "\<lambda>r. r\<lparr>k_status := ''revoked'', k_revoked_at := Some (new_or (k_revoked_at r) now)\<rparr>"
  obtain r p where "managed_key K now P i db = Inr (r, p)" "db' = update_key_row i ?g db"
    using assms by (auto simp: revoke_key_def bindR_Inr_iff)
  moreover have "same_policy_columns ?g" by (simp add: same_policy_columns_def)
  ultimately show ?thesis by (intro that [of r p ?g]) auto
qed

lemma rotate_key_Inr:
  assumes "rotate_key K now P f i db = Inr (out, db')"
  obtains g r p where "managed_key K now P i db = Inr (r, p)" "db' = update_key_row i g db" "same_policy_columns g"
    "\<And>r. k_prefix (g r) = f_prefix f" "\<And>r. k_status (g r) = k_status r"
    "\<And>r. r \<in> set (key_rows db) \<Longrightarrow> k_id r \<noteq> i \<Longrightarrow> k_prefix r \<noteq> f_prefix f"
proof -
  let ?g = "\<lambda>r. r\<lparr>k_prefix := f_prefix f, k_secret_hash := sha256_hex K (f_secret f)\<rparr>"
  obtain r p where "managed_key K now P i db = Inr (r, p)"
    and db': "set_secret i (f_prefix f) (sha256_hex K (f_secret f)) db = Inr db'"
    using assms by (auto simp: rotate_key_def bindR_Inr_iff make_api_key_def split: if_splits)
  moreover from db' have "db' = update_key_row i ?g db"
    "\<forall>r \<in> set (key_rows db). k_id r \<noteq> i \<longrightarrow> k_prefix r \<noteq> f_prefix f"
    by (auto simp: set_secret_def key_conflict_def list_ex_iff split: if_splits)
  moreover have "same_policy_columns ?g" by (simp add: same_policy_columns_def)
  ultimately show ?thesis by (intro that [of r p ?g]) auto
qed

lemma delete_key_Inr:
  assumes "delete_key K now P i db = Inr (out, db')"
  obtains r p where "managed_key K now P i db = Inr (r, p)" "db' = delete_key_rows i db" "k_status r = ''revoked''"
  using assms by (auto simp: delete_key_def bindR_Inr_iff split: if_splits)

lemma key_row_update:
  assumes "\<And>r. k_id (g r) = k_id r"
  shows "key_row (update_key_row i g db) j = map_option (if j = i then g else id) (key_row db j)"
proof -
  have "find (\<lambda>r. k_id r = j) (map (\<lambda>r. if k_id r = i then g r else r) rs)
      = map_option (if j = i then g else id) (find (\<lambda>r. k_id r = j) rs)" for rs
    by (induction rs) (auto simp: assms)
  then show ?thesis by (simp add: key_row_def update_key_row_def)
qed

lemma load_key_cong:
  assumes "key_row db' j = key_row db j" "granted_to j (key_scopes db') = granted_to j (key_scopes db)"
    "granted_to j (key_domains db') = granted_to j (key_domains db)"
    "granted_to j (key_patterns db') = granted_to j (key_patterns db)"
  shows "load_key K db' j = load_key K db j"
  using assms by (cases "key_row db j") (auto simp: load_key_def row_policy_def dest!: key_row_Some)

section \<open>The invariant is kept\<close>

lemma key_wf_granted:
  assumes "granted_to (k_id r) (key_scopes db') = granted_to (k_id r) (key_scopes db)"
    "granted_to (k_id r) (key_domains db') = granted_to (k_id r) (key_domains db)"
    "granted_to (k_id r) (key_patterns db') = granted_to (k_id r) (key_patterns db)"
  shows "key_wf K db' r = key_wf K db r"
  using assms by (simp add: key_wf_def)

lemma key_invD:
  assumes "key_inv K db"
  shows "distinct (map k_id (key_rows db))" "distinct (map k_prefix (key_rows db))"
    "r \<in> set (key_rows db) \<Longrightarrow> k_id r \<le> key_sequence db" "r \<in> set (key_rows db) \<Longrightarrow> key_wf K db r"
    "grants_ok db (key_scopes db)" "grants_ok db (key_domains db)" "grants_ok db (key_patterns db)"
    "snd ` set (key_domains db) \<subseteq> set (domain_keys db)"
  using assms by (auto simp: key_inv_def)

lemma new_key_wf:
  assumes "lib_ok K" and "requested_policy K q = Inr (name, description, p)"
    and r: "r = (new_key_row K now f q name description p)\<lparr>k_id := i\<rparr>"
    and "i \<notin> fst ` set (key_scopes db)" "i \<notin> fst ` set (key_domains db)" "i \<notin> fst ` set (key_patterns db)"
    and g: "key_scopes db' = key_scopes db @ map (Pair i) (kp_scopes p)"
      "key_domains db' = key_domains db @ map (Pair i) (kp_domain_ids p)"
      "key_patterns db' = key_patterns db @ map (Pair i) (kp_mailbox_patterns p)"
  shows "key_wf K db' r"
proof -
  note q = requested_policy_ok [OF assms(2)]
  note p = q(3) [unfolded policy_ok_def]
  have cols: "k_id r = i" "k_kind r = kr_kind q" "k_status r = kr_status q" "k_grant_mode r = kp_domain_grant_mode p"
    "k_rate_limit r = kp_rate_limit_per_min p" "k_cidrs r = dump_cidrs (kp_allowed_ip_cidrs p)"
    "k_expires_at r = kp_expires_at p"
    by (simp_all add: r new_key_row_def make_api_key_def)
  have granted: "granted_to i (key_scopes db') = sort (kp_scopes p)" "granted_to i (key_domains db') = sort (kp_domain_ids p)"
    "granted_to i (key_patterns db') = sort (kp_mailbox_patterns p)"
    using assms(4-6) by (simp_all add: g granted_new)
  have "validate_scopes_for_kind (kr_kind q) (sort (kp_scopes p)) = Inr (sort (kp_scopes p))"
  proof -
    obtain raw where raw: "validate_scopes_for_kind (kr_kind q) raw = Inr (kp_scopes p)" using p by blast
    then show ?thesis using validate_scopes_distinct [OF raw] by (intro validate_scopes_arranged [OF raw]) simp_all
  qed
  moreover have "normalize_mailbox_patterns (kl_unicode K) (sort (kp_mailbox_patterns p)) = Inr (sort (kp_mailbox_patterns p))"
  proof -
    obtain raw where raw: "normalize_mailbox_patterns (kl_unicode K) raw = Inr (kp_mailbox_patterns p)" using p by blast
    then show ?thesis using normalize_list_result(1) [OF raw [unfolded list_normalizers]]
      by (intro normalize_patterns_arranged [OF raw]) simp_all
  qed
  moreover have "normalize_ip_cidrs K (kp_allowed_ip_cidrs p) = Inr (kp_allowed_ip_cidrs p)"
    using p normalize_cidrs_fixed [OF assms(1)] by blast
  ultimately show ?thesis
    unfolding key_wf_def cols granted using q(1,2) p by (intro conjI) auto
qed

lemma fresh_key_id:
  assumes "key_inv K db"
  shows "key_sequence db + 1 \<notin> k_id ` set (key_rows db)"
    "key_sequence db + 1 \<notin> fst ` set (key_scopes db)" "key_sequence db + 1 \<notin> fst ` set (key_domains db)"
    "key_sequence db + 1 \<notin> fst ` set (key_patterns db)"
proof -
  show ids: "key_sequence db + 1 \<notin> k_id ` set (key_rows db)" using key_invD(3) [OF assms] by fastforce
  show "key_sequence db + 1 \<notin> fst ` set (key_scopes db)" "key_sequence db + 1 \<notin> fst ` set (key_domains db)"
    "key_sequence db + 1 \<notin> fst ` set (key_patterns db)"
    using ids key_invD(5-7) [OF assms] unfolding grants_ok_def by blast+
qed

lemma grants_ok_append:
  assumes "grants_ok db rows" and "i \<notin> fst ` set rows" and "distinct xs"
    and "insert i (k_id ` set (key_rows db)) \<subseteq> k_id ` set (key_rows db')"
  shows "grants_ok db' (rows @ map (Pair i) xs)"
proof -
  have "distinct (map (Pair i) xs)" using assms(3) by (simp add: distinct_map inj_on_def)
  moreover have "set rows \<inter> Pair i ` set xs = {}" using assms(2) by force
  moreover have "fst ` set (rows @ map (Pair i) xs) \<subseteq> k_id ` set (key_rows db')"
  proof -
    have "fst ` set (rows @ map (Pair i) xs) \<subseteq> insert i (fst ` set rows)" by auto
    also have "\<dots> \<subseteq> insert i (k_id ` set (key_rows db))" using assms(1) by (auto simp: grants_ok_def)
    finally show ?thesis using assms(4) by (rule order_trans)
  qed
  ultimately show ?thesis using assms(1) by (simp add: grants_ok_def)
qed

lemma create_key_inv:
  assumes "lib_ok K" and inv: "key_inv K db" and "create_key K now P f q db = Inr (out, db')"
  shows "key_inv K db'"
proof -
  from assms(3) obtain name description p current r i where q: "requested_policy K q = Inr (name, description, p)"
    and i: "i = key_sequence db + 1" and r: "r = (new_key_row K now f q name description p)\<lparr>k_id := i\<rparr>"
    and prefix: "k_prefix r \<notin> k_prefix ` set (key_rows db)" and ds: "distinct (kp_domain_ids p)"
      "set (kp_domain_ids p) \<subseteq> set (domain_keys db)" "distinct (kp_scopes p)" "distinct (kp_mailbox_patterns p)"
    and db': "db' = db\<lparr>key_rows := key_rows db @ [r], key_sequence := i,
                 key_scopes := key_scopes db @ map (Pair i) (kp_scopes p),
                 key_domains := key_domains db @ map (Pair i) (kp_domain_ids p),
                 key_patterns := key_patterns db @ map (Pair i) (kp_mailbox_patterns p)\<rparr>"
    by (rule create_key_Inr)
  note fresh = fresh_key_id [OF inv, folded i]
  have id: "k_id r = i" by (simp add: r)
  have rows: "key_rows db' = key_rows db @ [r]" "key_sequence db' = i" by (simp_all add: db')
  have sub: "insert i (k_id ` set (key_rows db)) \<subseteq> k_id ` set (key_rows db')" by (simp add: rows id)
  have wf: "key_wf K db' x \<and> k_id x \<le> i" if "x \<in> set (key_rows db')" for x
  proof (cases "x = r")
    case True
    have "key_wf K db' r" by (rule new_key_wf [OF assms(1) q r fresh(2-4)]) (simp_all add: db')
    then show ?thesis using True id by simp
  next
    case False
    then have x: "x \<in> set (key_rows db)" using that rows by auto
    then have "k_id x \<noteq> i" using fresh(1) by blast
    then have "key_wf K db' x = key_wf K db x" by (intro key_wf_granted) (simp_all add: db' granted_append_other)
    then show ?thesis using key_invD(3,4) [OF inv x] i by simp
  qed
  have "grants_ok db' (key_scopes db')" "grants_ok db' (key_domains db')" "grants_ok db' (key_patterns db')"
    using grants_ok_append [OF key_invD(5) [OF inv] fresh(2) ds(3) sub]
      grants_ok_append [OF key_invD(6) [OF inv] fresh(3) ds(1) sub]
      grants_ok_append [OF key_invD(7) [OF inv] fresh(4) ds(4) sub] by (simp_all add: db')
  moreover have "snd ` set (key_domains db') \<subseteq> set (domain_keys db')"
    using key_invD(8) [OF inv] ds(2) by (auto simp: db')
  moreover have "distinct (map k_id (key_rows db'))" "distinct (map k_prefix (key_rows db'))"
    using key_invD(1,2) [OF inv] fresh(1) prefix id by (simp_all add: rows)
  ultimately show ?thesis using wf by (simp add: key_inv_def rows(2))
qed

text \<open>Changing one row and the grants of its key.\<close>

lemma change_key_inv:
  assumes inv: "key_inv K db" and row: "key_row db i = Some r" and g: "\<And>r. k_id (g r) = k_id r"
    and db': "db' = (update_key_row i g db)\<lparr>key_scopes := S, key_domains := D, key_patterns := T\<rparr>"
    and rep: "replace_grants ok1 i v1 (key_scopes db) = Inr S" "replace_grants ok2 i v2 (key_domains db) = Inr D"
      "replace_grants ok3 i v3 (key_patterns db) = Inr T"
    and ok2: "\<And>d. ok2 d \<Longrightarrow> d \<in> set (domain_keys db)"
    and prefix: "distinct (map k_prefix (key_rows db'))" and wf: "key_wf K db' (g r)"
  shows "key_inv K db'"
proof -
  have rows: "key_rows db' = map (\<lambda>r. if k_id r = i then g r else r) (key_rows db)"
    by (simp add: db' update_key_row_def)
  have ids: "map k_id (key_rows db') = map k_id (key_rows db)" by (simp add: rows g o_def)
  then have idset: "k_id ` set (key_rows db') = k_id ` set (key_rows db)" by (metis set_map)
  have i: "i \<in> k_id ` set (key_rows db)" using key_row_Some [OF row] by auto
  have wfs: "key_wf K db' x \<and> k_id x \<le> key_sequence db'" if x': "x \<in> set (key_rows db')" for x
  proof -
    obtain y where y: "y \<in> set (key_rows db)" "x = (if k_id y = i then g y else y)" using x' rows by auto
    show ?thesis
    proof (cases "k_id y = i")
      case True
      then have "y = r" using key_rowI [OF key_invD(1) [OF inv] y(1)] row by simp
      then show ?thesis using y True wf key_invD(3) [OF inv y(1)] by (simp add: g db' update_key_row_def)
    next
      case False
      then have "key_wf K db' y = key_wf K db y"
        by (intro key_wf_granted) (simp_all add: db' replace_grants_spec(1) [OF rep(1)]
            replace_grants_spec(1) [OF rep(2)] replace_grants_spec(1) [OF rep(3)])
      then show ?thesis using y False key_invD(3,4) [OF inv y(1)] by (simp add: db' update_key_row_def)
    qed
  qed
  have "grants_ok db' S" "grants_ok db' D" "grants_ok db' T"
    using key_invD(5-7) [OF inv] i unfolding grants_ok_def idset
    by (meson insert_subsetI order_trans replace_grants_spec(4,5) rep)+
  moreover have "snd ` set D \<subseteq> set (domain_keys db)"
    using replace_grants_spec(6) [OF rep(2)] key_invD(8) [OF inv] ok2 by blast
  ultimately show ?thesis
    using wfs prefix key_invD(1) [OF inv] ids by (simp add: key_inv_def) (simp add: db' update_key_row_def)
qed

lemma replace_none: "replace_grants ok i None rows = Inr rows"
  by (simp add: replace_grants_def)

lemma new_or_simps [simp]: "new_or None d = d" "new_or (Some v) d = v"
  by (simp_all add: new_or_def)

lemma apply_changes_id [simp]: "k_id (apply_changes now c r) = k_id r" "k_prefix (apply_changes now c r) = k_prefix r"
    "k_kind (apply_changes now c r) = k_kind r"
  by (simp_all add: apply_changes_def)

lemma load_key_Some: "load_key K db i = Some (r, p) \<longleftrightarrow> key_row db i = Some r \<and> p = row_policy K db r"
  by (auto simp: load_key_def)

lemma changed_scopes_ok:
  assumes "validate_scopes_for_kind kind (granted_to i rows) = Inr (granted_to i rows)"
    and "optR (validate_scopes_for_kind kind) raw = Inr ss" and "replace_grants ok i ss rows = Inr rows'"
  shows "validate_scopes_for_kind kind (granted_to i rows') = Inr (granted_to i rows')"
proof (cases ss)
  case None
  then show ?thesis using assms(1) replace_grants_spec(2) [OF assms(3)] by simp
next
  case (Some xs)
  obtain v where "validate_scopes_for_kind kind v = Inr xs" using optR_Some [OF assms(2) [unfolded Some]] by blast
  then show ?thesis using replace_grants_spec(3) [OF assms(3) Some] by (intro validate_scopes_arranged) auto
qed

lemma changed_patterns_ok:
  assumes "normalize_mailbox_patterns U (granted_to i rows) = Inr (granted_to i rows)"
    and "\<forall>ps. v = Some ps \<longrightarrow> (\<exists>raw. normalize_mailbox_patterns U raw = Inr ps)"
    and "replace_grants ok i v rows = Inr rows'"
  shows "normalize_mailbox_patterns U (granted_to i rows') = Inr (granted_to i rows')"
proof (cases v)
  case None
  then show ?thesis using assms(1) replace_grants_spec(2) [OF assms(3)] by simp
next
  case (Some xs)
  obtain raw where "normalize_mailbox_patterns U raw = Inr xs" using assms(2) Some by blast
  then show ?thesis using replace_grants_spec(3) [OF assms(3) Some] by (intro normalize_patterns_arranged) auto
qed

lemma changed_domains_ok:
  assumes "changes_ok K c" and "replace_grants ok i (replaced_domains c) rows = Inr rows'"
    and "mode \<noteq> ''selected'' \<longrightarrow> granted_to i rows = []" and "new_or (kc_mode c) mode \<noteq> ''selected''"
  shows "granted_to i rows' = []"
proof (cases "kc_mode c")
  case None
  then have "kc_domain_ids c = None" using assms(1) by (auto simp: changes_ok_def)
  then have "replaced_domains c = None" using None by (simp add: replaced_domains_def)
  then show ?thesis using replace_grants_spec(2) [OF assms(2)] assms(3,4) None by simp
next
  case (Some m)
  then have m: "m \<noteq> ''selected''" "m \<in> set VALID_DOMAIN_GRANT_MODES" using assms(1,4) by (auto simp: changes_ok_def)
  have "replaced_domains c = Some []"
    using assms(1) Some m by (cases "kc_domain_ids c") (auto simp: replaced_domains_def changes_ok_def modes)
  then show ?thesis using replace_grants_spec(3) [OF assms(2)] by fastforce
qed

lemma changed_row_wf:
  assumes "lib_ok K" and c: "changes_ok K c" and wf: "key_wf K db r" and i: "k_id r = i"
    and "optR (validate_scopes_for_kind (k_kind r)) (kc_scopes c) = Inr ss"
    and rep: "replace_grants ok1 i ss (key_scopes db) = Inr S"
      "replace_grants ok2 i (replaced_domains c) (key_domains db) = Inr D"
      "replace_grants ok3 i (kc_patterns c) (key_patterns db) = Inr T"
    and db': "key_scopes db' = S" "key_domains db' = D" "key_patterns db' = T"
  shows "key_wf K db' (apply_changes now c r)"
proof -
  note w = wf [unfolded key_wf_def i]
  note c' = c [unfolded changes_ok_def]
  let ?r = "apply_changes now c r"
  have cols: "k_id ?r = i" "k_kind ?r = k_kind r" "k_status ?r = new_or (kc_status c) (k_status r)"
    "k_grant_mode ?r = new_or (kc_mode c) (k_grant_mode r)" "k_rate_limit ?r = new_or (kc_rate_limit c) (k_rate_limit r)"
    "k_cidrs ?r = new_or (kc_cidrs c) (k_cidrs r)" "k_expires_at ?r = new_or (kc_expires_at c) (k_expires_at r)"
    by (simp_all add: apply_changes_def i)
  have "validate_scopes_for_kind (k_kind r) (granted_to i (key_scopes db')) = Inr (granted_to i (key_scopes db'))"
    using w assms(5) changed_scopes_ok [OF _ _ rep(1)] db' by blast
  moreover have "normalize_mailbox_patterns (kl_unicode K) (granted_to i (key_patterns db')) = Inr (granted_to i (key_patterns db'))"
    unfolding db' using w c' by (intro changed_patterns_ok [OF _ _ rep(3)]) simp_all
  moreover have "new_or (kc_mode c) (k_grant_mode r) \<noteq> ''selected'' \<longrightarrow> granted_to i (key_domains db') = []"
    using w changed_domains_ok [OF c rep(2)] db' by blast
  moreover have "\<exists>cs. new_or (kc_cidrs c) (k_cidrs r) = dump_cidrs cs \<and> normalize_ip_cidrs K cs = Inr cs"
    using w c' normalize_cidrs_fixed [OF assms(1)] by (cases "kc_cidrs c") auto
  moreover have "new_or (kc_status c) (k_status r) \<in> set VALID_API_KEY_STATUSES"
    using w c' by (cases "kc_status c") auto
  moreover have "new_or (kc_mode c) (k_grant_mode r) \<in> set VALID_DOMAIN_GRANT_MODES"
    using w c' by (cases "kc_mode c") auto
  moreover have "0 \<le> new_or (kc_rate_limit c) (k_rate_limit r) \<and> new_or (kc_rate_limit c) (k_rate_limit r) \<le> KEY_RATE_LIMIT_COUNT"
    using w c' by (cases "kc_rate_limit c") auto
  moreover have "new_or (kc_expires_at c) (k_expires_at r) = None
      \<or> (\<exists>t. valid_time t \<and> new_or (kc_expires_at c) (k_expires_at r) = Some (utc_text t))"
    using w c' by (cases "kc_expires_at c") auto
  ultimately show ?thesis unfolding key_wf_def cols using w by (intro conjI) simp_all
qed

lemma update_key_inv:
  assumes "lib_ok K" and inv: "key_inv K db" and "update_key K now P i q db = Inr (out, db')"
  shows "key_inv K db'"
  using assms(3)
proof (rule update_key_Inr)
  fix c current r p ss S D T
  assume c: "changes_ok K c" and r: "load_key K db i = Some (r, p)"
    and ss: "optR (validate_scopes_for_kind (k_kind r)) (kc_scopes c) = Inr ss"
    and rep: "replace_grants (\<lambda>_. True) i ss (key_scopes db) = Inr S"
      "replace_grants (\<lambda>d. d \<in> set (domain_keys db)) i (replaced_domains c) (key_domains db) = Inr D"
      "replace_grants (\<lambda>_. True) i (kc_patterns c) (key_patterns db) = Inr T"
    and db': "db' = (update_key_row i (apply_changes now c) db)\<lparr>key_scopes := S, key_domains := D, key_patterns := T\<rparr>"
  note row = r [unfolded load_key_Some, THEN conjunct1]
  note rid = key_row_Some [OF row]
  have prefix: "map k_prefix (key_rows db') = map k_prefix (key_rows db)" by (simp add: db' update_key_row_def o_def)
  have "key_wf K db' (apply_changes now c r)"
    by (rule changed_row_wf [OF assms(1) c key_invD(4) [OF inv conjunct1 [OF rid]] conjunct2 [OF rid] ss rep])
      (simp_all add: db')
  then show ?thesis
    using key_invD(2) [OF inv] prefix
    by (intro change_key_inv [OF inv row apply_changes_id(1) db' rep]) simp_all
qed

text \<open>An update of other columns keeps the tables of grants.\<close>

lemma same_columns_inv:
  assumes inv: "key_inv K db" and g: "same_policy_columns g" and "managed_key K now P i db = Inr (r, p)"
    and "\<And>x. k_status x \<in> set VALID_API_KEY_STATUSES \<Longrightarrow> k_status (g x) \<in> set VALID_API_KEY_STATUSES"
    and prefix: "distinct (map k_prefix (key_rows (update_key_row i g db)))"
  shows "key_inv K (update_key_row i g db)"
proof -
  have row: "key_row db i = Some r" using assms(3) by (rule managed_key_Inr) (simp add: load_key_Some)
  note wf = key_invD(4) [OF inv conjunct1 [OF key_row_Some [OF row]]]
  have eq: "update_key_row i g db = (update_key_row i g db)\<lparr>key_scopes := key_scopes db,
      key_domains := key_domains db, key_patterns := key_patterns db\<rparr>" by (simp add: update_key_row_def)
  have "key_wf K (update_key_row i g db) (g r)"
    using wf g assms(4) by (simp add: key_wf_def same_policy_columns_def update_key_row_def)
  then show ?thesis
    using g prefix
    by (intro change_key_inv [OF inv row _ eq replace_none
          replace_none [where ok = "\<lambda>d. d \<in> set (domain_keys db)"] replace_none])
      (simp_all add: same_policy_columns_def)
qed

lemma rotate_prefixes:
  assumes "distinct (map k_id (key_rows db))" and "distinct (map k_prefix (key_rows db))"
    and "\<And>r. k_prefix (g r) = x" and "\<And>r. r \<in> set (key_rows db) \<Longrightarrow> k_id r \<noteq> i \<Longrightarrow> k_prefix r \<noteq> x"
  shows "distinct (map k_prefix (key_rows (update_key_row i g db)))"
proof -
  have "distinct (map k_id rs) \<Longrightarrow> distinct (map k_prefix rs) \<Longrightarrow> (\<And>r. r \<in> set rs \<Longrightarrow> k_id r \<noteq> i \<Longrightarrow> k_prefix r \<noteq> x)
      \<Longrightarrow> distinct (map (\<lambda>r. k_prefix (if k_id r = i then g r else r)) rs)" for rs
  proof (induction rs)
    case (Cons a rs)
    then have "k_prefix (if k_id a = i then g a else a) \<noteq> k_prefix (if k_id r = i then g r else r)" if "r \<in> set rs" for r
      using that Cons.prems(1,2) Cons.prems(3) [of r] Cons.prems(3) [of a] by (auto simp: assms(3) image_iff)
    moreover have "distinct (map (\<lambda>r. k_prefix (if k_id r = i then g r else r)) rs)" using Cons by simp
    ultimately show ?case unfolding list.map distinct.simps set_map by blast
  qed simp
  then show ?thesis using assms(1,2,4) by (simp add: update_key_row_def o_def)
qed

lemma revoke_key_inv:
  assumes inv: "key_inv K db" and "revoke_key K now P i db = Inr (out, db')"
  shows "key_inv K db'"
  using assms(2)
proof (rule revoke_key_Inr)
  fix g r p
  assume m: "managed_key K now P i db = Inr (r, p)" and db': "db' = update_key_row i g db"
    and g: "same_policy_columns g" "\<And>r. k_prefix (g r) = k_prefix r" "\<And>r. k_status (g r) = ''revoked''"
  have "map k_prefix (key_rows db') = map k_prefix (key_rows db)" by (simp add: db' update_key_row_def o_def g(2))
  then show ?thesis
    using key_invD(2) [OF inv] g(3) unfolding db'
    by (intro same_columns_inv [OF inv g(1) m]) (simp_all add: VALID_API_KEY_STATUSES_def)
qed

lemma rotate_key_inv:
  assumes inv: "key_inv K db" and "rotate_key K now P f i db = Inr (out, db')"
  shows "key_inv K db'"
  using assms(2)
proof (rule rotate_key_Inr)
  fix g r p
  assume m: "managed_key K now P i db = Inr (r, p)" and db': "db' = update_key_row i g db"
    and g: "same_policy_columns g" "\<And>r. k_prefix (g r) = f_prefix f" "\<And>r. k_status (g r) = k_status r"
    and new: "\<And>r. r \<in> set (key_rows db) \<Longrightarrow> k_id r \<noteq> i \<Longrightarrow> k_prefix r \<noteq> f_prefix f"
  show ?thesis
    unfolding db' using rotate_prefixes [OF key_invD(1,2) [OF inv] g(2) new] g(3)
    by (intro same_columns_inv [OF inv g(1) m]) simp_all
qed

lemma grants_ok_delete: "grants_ok db rows \<Longrightarrow> grants_ok (delete_key_rows i db) (filter (\<lambda>g. fst g \<noteq> i) rows)"
  by (fastforce simp: grants_ok_def delete_key_rows_def)

lemma delete_key_inv:
  assumes inv: "key_inv K db"
  shows "key_inv K (delete_key_rows i db)"
proof -
  let ?db = "delete_key_rows i db"
  have wf: "key_wf K ?db r \<and> k_id r \<le> key_sequence ?db" if "r \<in> set (key_rows ?db)" for r
  proof -
    have "key_wf K ?db r = key_wf K db r"
      using that by (intro key_wf_granted) (auto simp: delete_key_rows_def granted_filter)
    then show ?thesis using that key_invD(3,4) [OF inv, of r] by (simp add: delete_key_rows_def)
  qed
  have "grants_ok ?db (key_scopes ?db)" "grants_ok ?db (key_domains ?db)" "grants_ok ?db (key_patterns ?db)"
    using grants_ok_delete [OF key_invD(5) [OF inv], of i] grants_ok_delete [OF key_invD(6) [OF inv], of i]
      grants_ok_delete [OF key_invD(7) [OF inv], of i] by (simp_all add: delete_key_rows_def)
  moreover have "distinct (map k_id (key_rows ?db))" "distinct (map k_prefix (key_rows ?db))"
    using key_invD(1,2) [OF inv] by (simp_all add: delete_key_rows_def distinct_map_filter)
  moreover have "snd ` set (key_domains ?db) \<subseteq> set (domain_keys ?db)"
    using key_invD(8) [OF inv] by (auto simp: delete_key_rows_def)
  ultimately show ?thesis unfolding key_inv_def using wf by (intro conjI) simp_all
qed

lemma run_key_op_inv:
  assumes "lib_ok K" and "key_inv K db" and "run_key_op K now P op db = Inr db'"
  shows "key_inv K db'"
proof (cases op)
  case (CreateKey f q)
  then show ?thesis using assms create_key_inv [OF assms(1,2)] by (auto simp: bindR_Inr_iff)
next
  case (UpdateKey i q)
  then show ?thesis using assms update_key_inv [OF assms(1,2)] by (auto simp: bindR_Inr_iff)
next
  case (DeleteKey i)
  then show ?thesis using assms delete_key_inv [OF assms(2)] by (auto simp: bindR_Inr_iff elim!: delete_key_Inr)
next
  case (RevokeKey i)
  then show ?thesis using assms revoke_key_inv [OF assms(2)] by (auto simp: bindR_Inr_iff)
next
  case (RotateKey f i)
  then show ?thesis using assms rotate_key_inv [OF assms(2)] by (auto simp: bindR_Inr_iff)
qed


section \<open>Authority\<close>

fun op_target :: "auth_db \<Rightarrow> key_op \<Rightarrow> int" where
  "op_target db (CreateKey f q) = key_sequence db + 1"
| "op_target db (UpdateKey i q) = i"
| "op_target db (DeleteKey i) = i"
| "op_target db (RevokeKey i) = i"
| "op_target db (RotateKey f i) = i"

lemma assert_within: "assert_key_within_principal K current p = Inr v \<Longrightarrow> current = Some A
    \<Longrightarrow> api_key_is_within_principal (kl_py K) A p"
  by (auto simp: assert_key_within_principal_def split: if_splits)

text \<open>Containment looks at sets of scopes, domains and patterns.\<close>

lemma within_arranged:
  assumes "set (kp_scopes p) = set (kp_scopes p')" "set (kp_domain_ids p) = set (kp_domain_ids p')"
    "set (kp_mailbox_patterns p) = set (kp_mailbox_patterns p')" "kp_domain_grant_mode p = kp_domain_grant_mode p'"
    "kp_rate_limit_per_min p = kp_rate_limit_per_min p'" "kp_allowed_ip_cidrs p = kp_allowed_ip_cidrs p'"
    "kp_expires_at p = kp_expires_at p'" "kp_allow_header p = kp_allow_header p'" "kp_allow_query p = kp_allow_query p'"
  shows "api_key_is_within_principal L A p = api_key_is_within_principal L A p'"
proof -
  have "delegated_api_key_policy_is_within_principal L A p = delegated_api_key_policy_is_within_principal L A p'"
    by (simp only: delegated_policy_iff assms)
  moreover have "target_domains_ok (allowed_domains A) p = target_domains_ok (allowed_domains A) p'"
    by (simp only: target_domains_ok_def assms)
  moreover have "kp_mailbox_patterns p = [] \<longleftrightarrow> kp_mailbox_patterns p' = []" using assms(3) by (metis set_empty)
  ultimately show ?thesis using assms(1,3) by (simp add: within_iff)
qed

definition changed_key_within :: "keylib \<Rightarrow> permission_context option \<Rightarrow> int \<Rightarrow> auth_db \<Rightarrow> auth_db \<Rightarrow> bool" where
  "changed_key_within K current i db db' \<longleftrightarrow>
     (\<forall>j. j \<noteq> i \<longrightarrow> load_key K db' j = load_key K db j)
     \<and> (\<forall>A r p. current = Some A \<longrightarrow> load_key K db i = Some (r, p) \<or> load_key K db' i = Some (r, p)
          \<longrightarrow> api_key_is_within_principal (kl_py K) A p)"

lemma find_append: "find P (xs @ ys) = (case find P xs of None \<Rightarrow> find P ys | Some x \<Rightarrow> Some x)"
  by (induction xs) auto

lemma create_key_within:
  assumes "lib_ok K" and inv: "key_inv K db" and "create_key K now P f q db = Inr (out, db')"
  shows "\<exists>current. transaction_management_principal K now P db = Inr current
     \<and> changed_key_within K current (key_sequence db + 1) db db'"
  using assms(3)
proof (rule create_key_Inr)
  fix name description p current r i
  assume q: "requested_policy K q = Inr (name, description, p)"
    and cur: "transaction_management_principal K now P db = Inr current"
    and a: "assert_key_within_principal K current p = Inr ()" and i: "i = key_sequence db + 1"
    and r: "r = (new_key_row K now f q name description p)\<lparr>k_id := i\<rparr>"
    and db': "db' = db\<lparr>key_rows := key_rows db @ [r], key_sequence := i,
                 key_scopes := key_scopes db @ map (Pair i) (kp_scopes p),
                 key_domains := key_domains db @ map (Pair i) (kp_domain_ids p),
                 key_patterns := key_patterns db @ map (Pair i) (kp_mailbox_patterns p)\<rparr>"
  note fresh = fresh_key_id [OF inv, folded i]
  have id: "k_id r = i" by (simp add: r)
  have old: "key_row db i = None" using fresh(1) by (auto simp: key_row_def find_None_iff)
  have rows: "key_row db' j = (if j = i then Some r else key_row db j)" for j
    using old id by (simp add: key_row_def db' find_append split: option.splits)
  have pol: "row_policy K db' r = p\<lparr>kp_scopes := sort (kp_scopes p), kp_domain_ids := sort (kp_domain_ids p),
      kp_mailbox_patterns := sort (kp_mailbox_patterns p)\<rparr>"
  proof -
    have "normalize_ip_cidrs K (kp_allowed_ip_cidrs p) = Inr (kp_allowed_ip_cidrs p)"
      using requested_policy_ok(3) [OF q] normalize_cidrs_fixed [OF assms(1)] by (auto simp: policy_ok_def)
    then show ?thesis
      by (simp add: row_policy_def db' granted_new fresh id) (simp add: r new_key_row_def make_api_key_def decode_dump assms(1))
  qed
  have "load_key K db' j = load_key K db j" if "j \<noteq> i" for j
    using that by (intro load_key_cong) (simp_all add: rows, simp_all add: db' granted_append_other)
  moreover have "api_key_is_within_principal (kl_py K) A (row_policy K db' r)" if "current = Some A" for A
    using assert_within [OF a that] unfolding pol by (subst within_arranged [of _ p]) simp_all
  ultimately have "changed_key_within K current i db db'"
    using old by (auto simp: changed_key_within_def load_key_def rows)
  then show ?thesis using cur i by blast
qed

lemma update_key_within:
  assumes "update_key K now P i q db = Inr (out, db')"
  shows "\<exists>current. transaction_management_principal K now P db = Inr current \<and> changed_key_within K current i db db'"
  using assms
proof (rule update_key_Inr)
  fix c current r p ss S D T
  assume cur: "transaction_management_principal K now P db = Inr current" and old: "load_key K db i = Some (r, p)"
    and a: "assert_key_within_principal K current p = Inr ()"
    and rep: "replace_grants (\<lambda>_. True) i ss (key_scopes db) = Inr S"
      "replace_grants (\<lambda>d. d \<in> set (domain_keys db)) i (replaced_domains c) (key_domains db) = Inr D"
      "replace_grants (\<lambda>_. True) i (kc_patterns c) (key_patterns db) = Inr T"
    and db': "db' = (update_key_row i (apply_changes now c) db)\<lparr>key_scopes := S, key_domains := D, key_patterns := T\<rparr>"
    and new: "load_key K db' i = Some out" "assert_key_within_principal K current (snd out) = Inr ()"
  have "load_key K db' j = load_key K db j" if "j \<noteq> i" for j
  proof (rule load_key_cong)
    show "key_row db' j = key_row db j"
      using key_row_update [of "apply_changes now c" i db j] that by (simp add: db' key_row_def option.map_id0)
  qed (use that rep in \<open>simp_all add: db' replace_grants_spec(1)\<close>)
  then have "changed_key_within K current i db db'"
    using old new assert_within [OF a] assert_within [OF new(2)] by (auto simp: changed_key_within_def)
  then show ?thesis using cur by blast
qed

lemma same_columns_within:
  assumes "managed_key K now P i db = Inr (r, p)" and g: "same_policy_columns g"
  shows "\<exists>current. transaction_management_principal K now P db = Inr current
     \<and> changed_key_within K current i db (update_key_row i g db)"
  using assms(1)
proof (rule managed_key_Inr)
  fix current
  assume cur: "transaction_management_principal K now P db = Inr current" and old: "load_key K db i = Some (r, p)"
    and a: "assert_key_within_principal K current p = Inr ()"
  let ?db = "update_key_row i g db"
  have grants: "key_scopes ?db = key_scopes db" "key_domains ?db = key_domains db" "key_patterns ?db = key_patterns db"
    by (simp_all add: update_key_row_def)
  have row: "key_row ?db j = map_option (if j = i then g else id) (key_row db j)" for j
    using g by (intro key_row_update) (simp add: same_policy_columns_def)
  have "load_key K ?db j = load_key K db j" if "j \<noteq> i" for j
    by (rule load_key_cong) (simp_all add: row grants that option.map_id0)
  moreover have "load_key K ?db i = Some (g r, p)"
    using old g unfolding load_key_Some
    by (simp add: load_key_def row row_policy_def grants same_policy_columns_def)
  ultimately have "changed_key_within K current i db ?db"
    using old assert_within [OF a] by (auto simp: changed_key_within_def)
  then show ?thesis using cur by blast
qed

lemma delete_key_within:
  assumes "managed_key K now P i db = Inr (r, p)"
  shows "\<exists>current. transaction_management_principal K now P db = Inr current
     \<and> changed_key_within K current i db (delete_key_rows i db)"
  using assms
proof (rule managed_key_Inr)
  fix current
  assume cur: "transaction_management_principal K now P db = Inr current" and old: "load_key K db i = Some (r, p)"
    and a: "assert_key_within_principal K current p = Inr ()"
  let ?db = "delete_key_rows i db"
  have row: "key_row ?db j = (if j = i then None else key_row db j)" for j
  proof -
    have "find (\<lambda>r. k_id r = j) (filter (\<lambda>r. k_id r \<noteq> i) rs) = (if j = i then None else find (\<lambda>r. k_id r = j) rs)" for rs
      by (induction rs) auto
    from this [of "key_rows db"] show ?thesis by (simp add: key_row_def delete_key_rows_def)
  qed
  have "load_key K ?db j = load_key K db j" if "j \<noteq> i" for j
    using that by (intro load_key_cong) (simp_all add: row, simp_all add: delete_key_rows_def granted_filter)
  then have "changed_key_within K current i db ?db"
    using old assert_within [OF a] by (auto simp: changed_key_within_def row load_key_def)
  then show ?thesis using cur by blast
qed

lemma run_key_op_within:
  assumes "lib_ok K" and "key_inv K db" and "run_key_op K now P op db = Inr db'"
  shows "\<exists>current. transaction_management_principal K now P db = Inr current
     \<and> changed_key_within K current (op_target db op) db db'"
proof (cases op)
  case (CreateKey f q)
  then show ?thesis using assms create_key_within [OF assms(1,2)] by (auto simp: bindR_Inr_iff)
next
  case (UpdateKey i q)
  then show ?thesis using assms update_key_within by (auto simp: bindR_Inr_iff)
next
  case (DeleteKey i)
  then obtain out where "delete_key K now P i db = Inr (out, db')" using assms(3) by (auto simp: bindR_Inr_iff)
  then show ?thesis
  proof (rule delete_key_Inr)
    fix r p assume m: "managed_key K now P i db = Inr (r, p)" and db': "db' = delete_key_rows i db"
    show ?thesis using delete_key_within [OF m] DeleteKey db' by simp
  qed
next
  case (RevokeKey i)
  then obtain out where "revoke_key K now P i db = Inr (out, db')" using assms(3) by (auto simp: bindR_Inr_iff)
  then show ?thesis
  proof (rule revoke_key_Inr)
    fix g r p assume m: "managed_key K now P i db = Inr (r, p)" and db': "db' = update_key_row i g db"
      and g: "same_policy_columns g"
    show ?thesis using same_columns_within [OF m g] RevokeKey db' by simp
  qed
next
  case (RotateKey f i)
  then obtain out where "rotate_key K now P f i db = Inr (out, db')" using assms(3) by (auto simp: bindR_Inr_iff)
  then show ?thesis
  proof (rule rotate_key_Inr)
    fix g r p assume m: "managed_key K now P i db = Inr (r, p)" and db': "db' = update_key_row i g db"
      and g: "same_policy_columns g"
    show ?thesis using same_columns_within [OF m g] RotateKey db' by simp
  qed
qed

text \<open>The context a well-formed key acts with is its stored policy.\<close>

lemma acting_key_wf:
  assumes "lib_ok K" and "key_wf K db r" and "key_row db i = Some r" and "k_status r = ''active''"
    and "expiration_is_due K now (k_expires_at r) = Inr False"
  shows "acting_key K now i db =
     Inr (policy_context r (row_policy K db r) (kp_scopes (row_policy K db r))
       (kp_mailbox_patterns (row_policy K db r)) (kp_allowed_ip_cidrs (row_policy K db r)))"
proof -
  note wf = assms(2) [unfolded key_wf_def]
  obtain cs where cs: "k_cidrs r = dump_cidrs cs" "normalize_ip_cidrs K cs = Inr cs" using wf by blast
  have "k_grant_mode r \<noteq> []" using wf by (auto simp: modes)
  then show ?thesis
    using assms(3-5) wf cs decode_dump [OF assms(1) cs(2)]
    by (simp add: acting_key_def Let_def load_key_def row_policy_def policy_context_def)
qed

text \<open>
  The authority the tables give a caller, written over the tables alone. A session is live when
  it is neither revoked nor expired and its administrator, the one the caller claims to be if it
  claims one, is active; it then acts with the scopes of the administrator's present role on
  everything. A key acts with its granted scopes and the limits of its row while it is active and
  not expired. A context with neither is one the program made for itself.
\<close>

definition live_session :: "string \<Rightarrow> string \<Rightarrow> int option \<Rightarrow> string set \<Rightarrow> auth_db \<Rightarrow> bool" where
  "live_session now sid aid granted db \<longleftrightarrow>
     (\<exists>s \<in> set (session_rows db). \<exists>a \<in> set (admin_rows db). \<exists>ss. s_id s = sid \<and> s_revoked_at s = None \<and> now < s_expires_at s
        \<and> a_id a = s_admin_id s \<and> a_is_active a \<and> (aid = None \<or> aid = Some (a_id a))
        \<and> ROLE_SCOPES (a_role a) = Some ss \<and> granted = set ss)"

definition session_authority :: "string \<Rightarrow> string \<Rightarrow> int option \<Rightarrow> permission_context \<Rightarrow> auth_db \<Rightarrow> bool" where
  "session_authority now sid aid A db \<longleftrightarrow>
     live_session now sid aid (set (scopes A)) db \<and> domain_grant_mode A = ''all'' \<and> mailbox_patterns A = []
     \<and> allowed_ip_cidrs A = [] \<and> rate_limit_per_min A = 0 \<and> expires_at A = None
     \<and> allow_header A \<and> allow_query A"

definition key_authority :: "keylib \<Rightarrow> string \<Rightarrow> int \<Rightarrow> permission_context \<Rightarrow> auth_db \<Rightarrow> bool" where
  "key_authority K now k A db \<longleftrightarrow>
     (\<exists>r. key_row db k = Some r \<and> k_status r = ''active'' \<and> expiration_is_due K now (k_expires_at r) = Inr False
        \<and> set (scopes A) = str_strip ` {x. (k, x) \<in> set (key_scopes db)}
        \<and> domain_grant_mode A = (if k_grant_mode r = [] then ''none'' else k_grant_mode r)
        \<and> set (domain_ids A) = {d. (k, d) \<in> set (key_domains db)}
        \<and> normalize_mailbox_patterns (kl_unicode K) (granted_to k (key_patterns db)) = Inr (mailbox_patterns A)
        \<and> normalize_ip_cidrs K (decode_allowed_ip_cidrs K (k_cidrs r)) = Inr (allowed_ip_cidrs A)
        \<and> rate_limit_per_min A = k_rate_limit r \<and> expires_at A = k_expires_at r
        \<and> allow_header A = k_allow_header r \<and> allow_query A = k_allow_query r)"

definition stored_authority ::
  "keylib \<Rightarrow> string \<Rightarrow> permission_context \<Rightarrow> permission_context \<Rightarrow> auth_db \<Rightarrow> bool" where
  "stored_authority K now p A db =
     (case api_key_id p of
        Some k \<Rightarrow> key_authority K now k A db
      | None \<Rightarrow>
          (case admin_session_id p of
             Some sid \<Rightarrow> session_authority now sid (admin_id p) A db
           | None \<Rightarrow> A = p))"

lemma acting_admin_Inr:
  assumes "acting_admin now sid aid db = Inr c"
  shows "\<not> legacy_credential c" "api_key_id c = None" "admin_session_id c = Some sid"
    "session_authority now sid aid c db" "aid = None \<or> admin_id c = aid" "admin_id c \<noteq> None"
  using assms unfolding acting_admin_def session_authority_def live_session_def
  by (fastforce split: option.splits simp: find_Some_iff)+

lemma set_granted_to: "set (granted_to k rows) = {x. (k, x) \<in> set rows}"
  by (force simp: granted_to_def)

lemma acting_key_Inr:
  assumes "acting_key K now i db = Inr c"
  shows "\<not> legacy_credential c" "api_key_id c = Some i" "admin_session_id c = None" "key_authority K now i c db"
proof -
  obtain r p where r: "load_key K db i = Some (r, p)" using assms by (cases "load_key K db i") (auto simp: acting_key_def Let_def)
  then have i: "k_id r = i" "key_row db i = Some r" "p = row_policy K db r" using key_row_Some by (auto simp: load_key_Some)
  have e: "k_status r = ''active''" "expiration_is_due K now (k_expires_at r) = Inr False"
    using assms r by (auto simp: acting_key_def Let_def bindR_Inr_iff split: if_splits)
  let ?q = "bindR (validate_scopes_for_kind (k_kind r) (kp_scopes p)) (\<lambda>ss.
     bindR (normalize_mailbox_patterns (kl_unicode K) (kp_mailbox_patterns p)) (\<lambda>ps.
     bindR (normalize_ip_cidrs K (kp_allowed_ip_cidrs p)) (\<lambda>cs.
       Inr ((policy_context r p ss ps cs)\<lparr>domain_grant_mode := if k_grant_mode r = [] then ''none'' else k_grant_mode r\<rparr>))))"
  have "?q = Inr c" using assms r e by (cases ?q) (auto simp: acting_key_def Let_def)
  then obtain ss ps cs where n: "validate_scopes_for_kind (k_kind r) (kp_scopes p) = Inr ss"
      "normalize_mailbox_patterns (kl_unicode K) (kp_mailbox_patterns p) = Inr ps"
      "normalize_ip_cidrs K (kp_allowed_ip_cidrs p) = Inr cs"
    and c: "c = (policy_context r p ss ps cs)\<lparr>domain_grant_mode := if k_grant_mode r = [] then ''none'' else k_grant_mode r\<rparr>"
    by (auto simp: bindR_Inr_iff)
  show "\<not> legacy_credential c" "api_key_id c = Some i" "admin_session_id c = None"
    by (simp_all add: c policy_context_def i)
  have "set ss = str_strip ` {x. (i, x) \<in> set (key_scopes db)}"
    using n(1) by (auto simp: validate_scopes_iff set_first_occurrences i(3) row_policy_def set_granted_to i(1))
  then show "key_authority K now i c db"
    unfolding key_authority_def
    by (intro exI [of _ r]) (use n(2,3) e in \<open>simp add: c policy_context_def i row_policy_def set_granted_to\<close>)
qed

text \<open>What a transaction that needs a scope on all domains knows of its caller.\<close>

lemma authorization_principal:
  assumes "transaction_authorization_principal K now x True None (Some p) db = Inr current" and "\<not> legacy_credential p"
  obtains c where "current = Some c" "stored_authority K now p c db" "\<not> legacy_credential c" "api_key_id c = api_key_id p"
    "api_key_id p \<noteq> None \<longrightarrow> admin_session_id c = None"
    "api_key_id p = None \<longrightarrow> admin_session_id c = admin_session_id p \<and> (admin_id p = None \<or> admin_id c = admin_id p)"
    "has_required_scope x (scopes c)" "domain_grant_mode c = ''all''"
proof -
  let ?r = "case api_key_id p of Some i \<Rightarrow> acting_key K now i db
     | None \<Rightarrow> (case admin_session_id p of Some sid \<Rightarrow> acting_admin now sid (admin_id p) db | None \<Rightarrow> Inr p)"
  obtain c where c: "?r = Inr c" and cur: "current = Some c" and ok: "has_required_scope x (scopes c)" "domain_grant_mode c = ''all''"
    using assms by (auto simp: transaction_authorization_principal_def bindR_Inr_iff split: if_splits)
  show thesis
  proof (cases "api_key_id p")
    case (Some i)
    then have "acting_key K now i db = Inr c" using c by simp
    then show ?thesis using that [OF cur] acting_key_Inr [of K now i db c] Some ok by (simp add: stored_authority_def)
  next
    case None
    show ?thesis
    proof (cases "admin_session_id p")
      case (Some sid)
      then have "acting_admin now sid (admin_id p) db = Inr c" using c None by simp
      then show ?thesis
        using that [OF cur] acting_admin_Inr [of now sid "admin_id p" db c] Some None ok by (simp add: stored_authority_def)
    qed (use that [OF cur] c None assms(2) ok in \<open>simp add: stored_authority_def\<close>)
  qed
qed

lemma management_principal:
  assumes "transaction_management_principal K now P db = Inr current"
  shows "P = None \<longleftrightarrow> current = None"
    and "P = Some p \<Longrightarrow> legacy_credential p \<Longrightarrow> current = Some p"
    and "P = Some p \<Longrightarrow> \<not> legacy_credential p \<Longrightarrow>
      \<exists>A. current = Some A \<and> ''api_keys.write'' \<in> set (scopes A) \<and> domain_grant_mode A = ''all'' \<and> stored_authority K now p A db"
proof -
  note t = assms [unfolded transaction_management_principal_def]
  show "P = None \<longleftrightarrow> current = None" "P = Some p \<Longrightarrow> legacy_credential p \<Longrightarrow> current = Some p"
    using t by (cases P; auto simp: transaction_authorization_principal_def bindR_Inr_iff split: if_splits)+
  show "\<exists>A. current = Some A \<and> ''api_keys.write'' \<in> set (scopes A) \<and> domain_grant_mode A = ''all'' \<and> stored_authority K now p A db"
    if "P = Some p" "\<not> legacy_credential p"
    using t that
    by (auto elim!: authorization_principal simp: has_required_scope_def ends_with_def)
qed

section \<open>Properties\<close>

text \<open>
  C30: key management stays within the authority of its caller at the moment of the transaction. A
  committed call changes at most one key, and the policy of that key before and after the call is
  within the authority it runs under. For a caller with a key that authority is the stored policy of
  the key, which is active and not expired; for an administrator's session, which is neither revoked
  nor expired and belongs to an active administrator, it is the present role of that administrator;
  both hold \<open>api_keys.write\<close> on all domains. A legacy credential runs under the context it was given,
  which the tables do not restrict, and a call without a principal, made by the program itself, is
  not restricted.
\<close>

theorem key_ops_within_authority:
  assumes "lib_ok K" and "key_inv K db" and "run_key_op K now P op db = Inr db'"
  shows "\<exists>current i. transaction_management_principal K now P db = Inr current
     \<and> (\<forall>j. j \<noteq> i \<longrightarrow> load_key K db' j = load_key K db j)
     \<and> (\<forall>A r p. current = Some A \<longrightarrow> load_key K db i = Some (r, p) \<or> load_key K db' i = Some (r, p)
          \<longrightarrow> api_key_is_within_principal (kl_py K) A p)
     \<and> (P = None \<longleftrightarrow> current = None)
     \<and> (\<forall>p. P = Some p \<and> legacy_credential p \<longrightarrow> current = Some p)
     \<and> (\<forall>p. P = Some p \<and> \<not> legacy_credential p \<longrightarrow>
          (\<exists>A. current = Some A \<and> ''api_keys.write'' \<in> set (scopes A) \<and> domain_grant_mode A = ''all''
             \<and> stored_authority K now p A db))"
proof -
  let ?i = "op_target db op"
  obtain current where c: "transaction_management_principal K now P db = Inr current"
    and w: "changed_key_within K current ?i db db'"
    using run_key_op_within [OF assms] by blast
  show ?thesis
    using c w management_principal [OF c] unfolding changed_key_within_def
    by (intro exI [of _ current] exI [of _ ?i] conjI) auto
qed

text \<open>
  C31: every committed management call keeps the key tables well formed: identifiers and prefixes
  unique, grants only of existing keys and domains, domain grants only of keys in \<open>selected\<close> mode;
  and every key that is active and not expired acts with exactly its stored policy, so that the
  checks on reading never refuse a stored key.
\<close>

theorem key_tables_well_formed:
  assumes "lib_ok K" and "key_inv K db" and "run_key_op K now P op db = Inr db'"
  shows "key_inv K db'
     \<and> (\<forall>i r. key_row db' i = Some r \<and> k_status r = ''active'' \<and> expiration_is_due K now (k_expires_at r) = Inr False
         \<longrightarrow> acting_key K now i db' =
               Inr (policy_context r (row_policy K db' r) (kp_scopes (row_policy K db' r))
                 (kp_mailbox_patterns (row_policy K db' r)) (kp_allowed_ip_cidrs (row_policy K db' r))))"
  using run_key_op_inv [OF assms] acting_key_wf [OF assms(1)] key_invD(4) key_row_Some by blast

section \<open>A concrete store\<close>

text \<open>Times written by \<open>utc_text\<close> read back after the replacement of the final \<open>Z\<close>.\<close>

lemma replace_Z_app: "replace_Z (a @ b) = replace_Z a @ replace_Z b"
    "replace_Z (c # s) = (if c = CHR ''Z'' then ''+00:00'' else [c]) @ replace_Z s" "replace_Z [] = []"
  by (simp_all add: replace_Z_def)

lemma replace_Z_digits: "list_all is_digit s \<Longrightarrow> replace_Z s = s"
  by (induction s) (auto simp: replace_Z_def is_digit_def)

lemma replace_Z_utc: "replace_Z (utc_text t) = butlast (utc_text t) @ ''+00:00''"
  by (auto simp: utc_text_def Let_def replace_Z_app replace_Z_digits digits_all butlast_append split: prod.splits)

definition ex_iso :: "string \<Rightarrow> py_datetime option" where
  "ex_iso s = map_option Aware (parse_utc (take 19 s @ ''Z''))"

lemma ex_iso_utc: "valid_time t \<Longrightarrow> ex_iso (replace_Z (utc_text t)) = Some (Aware t)"
proof -
  assume t: "valid_time t"
  have "length (utc_text t) = 20" "last (utc_text t) = CHR ''Z''"
    by (auto simp: utc_text_def Let_def split: prod.splits)
  then have "take 19 (replace_Z (utc_text t)) @ ''Z'' = utc_text t"
    using append_butlast_last_id [of "utc_text t"] by (fastforce simp: replace_Z_utc)
  then show ?thesis using parse_utc_text [OF t] by (simp add: ex_iso_def)
qed

definition ex_keylib :: keylib where
  "ex_keylib =
     \<lparr>kl_py = \<lparr>parse_ip_network = (\<lambda>s. if s = ''10.0.0.0/8'' then
                  Some \<lparr>net_version = 4, network_address = 167772160, broadcast_address = 184549375\<rparr> else None),
               parse_ip_address = (\<lambda>s. if s = ''10.0.0.7'' then Some (4, 167772167) else None),
               fromisoformat = ex_iso, char_class = (\<lambda>_ _. False)\<rparr>,
      kl_unicode = \<lparr>u_isspace = (\<lambda>_. False), u_category_C = (\<lambda>_. False), u_lower = id, u_to_ascii = (\<lambda>_. None)\<rparr>,
      with_prefixlen = (\<lambda>_. ''10.0.0.0/8''), sha256_hex = rev, json_str = (\<lambda>_. [])\<rparr>"

lemma ex_lib_ok: "lib_ok ex_keylib"
  unfolding lib_ok_def
  by (auto simp: ex_keylib_def ex_iso_utc str_strip_def strip_by_def rstrip_by_def ascii_space_def)

definition ex_auth_db :: auth_db where
  "ex_auth_db =
     \<lparr>key_rows = [], key_scopes = [], key_domains = [], key_patterns = [], key_sequence = 0,
      admin_rows = [\<lparr>a_id = 1, a_username = ''root'', a_display_name = None, a_password_hash = [],
        a_role = ''superadmin'', a_is_active = True, a_must_change_password = False, a_created_at = [],
        a_updated_at = [], a_last_login_at = None, a_last_login_ip = None\<rparr>],
      admin_sequence = 1,
      session_rows = [\<lparr>s_id = ''s'', s_admin_id = 1, s_token_hash = [], s_created_at = [],
        s_expires_at = ''3'', s_revoked_at = None, s_last_seen_at = None, s_last_ip = None, s_user_agent = None\<rparr>],
      domain_keys = [5]\<rparr>"

definition ex_request :: key_request where
  "ex_request =
     \<lparr>kr_name = ''app'', kr_kind = ''public'', kr_scopes = [''public.read''], kr_domain_ids = [PyInt 5],
      kr_patterns = [u ''*@a''], kr_mode = None, kr_description = None, kr_owner = None, kr_created_by = None,
      kr_status = ''active'', kr_allow_header = PyBool True, kr_allow_query = PyBool False,
      kr_rate_limit = PyInt 60, kr_cidrs = [''10.0.0.0/8''], kr_expires_at = NoExpiry\<rparr>"

definition ex_fresh :: key_fresh where
  "ex_fresh = \<lparr>f_prefix = ''ab'', f_secret = ''x_y'', f_public_id = ''p''\<rparr>"

definition ex_admin :: permission_context where
  "ex_admin =
     \<lparr>scopes = [''api_keys.write'', ''public.read''], domain_ids = [], mailbox_patterns = [],
      domain_grant_mode = ''all'', api_key_id = None, public_id = ''s'', ctx_name = [], ctx_kind = ''admin'', legacy_credential = False, rate_limit_per_min = 0,
      allowed_ip_cidrs = [], expires_at = None, allow_header = True, allow_query = True, admin_id = None,
      admin_session_id = None\<rparr>"

lemma ex_auth_inv: "key_inv ex_keylib ex_auth_db"
  by (simp add: key_inv_def grants_ok_def ex_auth_db_def)

definition ex_policy :: key_policy where
  "ex_policy =
     \<lparr>kp_scopes = [''public.read''], kp_domain_grant_mode = ''selected'', kp_domain_ids = [5],
      kp_mailbox_patterns = [u ''*@a''], kp_rate_limit_per_min = 60, kp_allowed_ip_cidrs = [''10.0.0.0/8''],
      kp_expires_at = None, kp_allow_header = True, kp_allow_query = False\<rparr>"

lemmas key_eval = ex_keylib_def ex_auth_db_def ex_request_def ex_fresh_def ex_admin_def ex_policy_def

lemma ex_requested: "requested_policy ex_keylib ex_request = Inr (''app'', None, ex_policy)"
proof -
  have "validate_scopes_for_kind ''public'' [''public.read''] = Inr [''public.read'']"
    by (simp add: validate_scopes_for_kind_def API_KEY_KIND_SCOPES_def PUBLIC_API_KEY_SCOPES_def VALID_API_KEY_SCOPES_def
        str_strip_def strip_by_def rstrip_by_def ascii_space_def Let_def)
  moreover have "normalize_name ''app'' = Inr ''app''"
    by (simp add: normalize_name_def has_control_def str_strip_def strip_by_def rstrip_by_def ascii_space_def Let_def)
  moreover have "normalize_mailbox_patterns (kl_unicode ex_keylib) [u ''*@a''] = Inr [u ''*@a'']"
    by (simp add: normalize_mailbox_patterns_def normalize_pattern_def MAX_MAILBOX_PATTERNS_def py_strip_def strip_by_def
        rstrip_by_def py_isspace_def is_ascii_def ascii_space_def u_def Let_def)
  ultimately show ?thesis
    by (simp add: requested_policy_def key_eval VALID_API_KEY_KINDS_def VALID_API_KEY_STATUSES_def
        normalize_description_def nullable_text_def unique_int_values_def unique_int_def is_bool_def or_value_error_def
        requested_mode_def validate_domain_grants_def normalize_ip_cidrs_def canonical_cidr_def MAX_ALLOWED_IP_CIDRS_def
        key_coerce_non_negative_int_def KEY_RATE_LIMIT_COUNT_def Let_def)
qed

lemma ex_principal: "transaction_management_principal ex_keylib now (Some ex_admin) db = Inr (Some ex_admin)"
  by (simp add: transaction_management_principal_def transaction_authorization_principal_def has_required_scope_def
      ex_admin_def)

lemma ex_within: "assert_key_within_principal ex_keylib (Some ex_admin) ex_policy = Inr ()"
  by (simp add: assert_key_within_principal_def api_key_is_within_principal_def key_eval networks_within_def
      delegated_api_key_policy_is_within_principal_def effective_scopes_def target_domains_ok_def allowed_domains_def Let_def)

definition ex_created :: auth_db where
  "ex_created =
     ex_auth_db\<lparr>key_rows := [(new_key_row ex_keylib ''2'' ex_fresh ex_request ''app'' None ex_policy)\<lparr>k_id := 1\<rparr>],
       key_sequence := 1, key_scopes := [(1, ''public.read'')], key_domains := [(1, 5)], key_patterns := [(1, u ''*@a'')]\<rparr>"

lemma ex_create:
  "create_key ex_keylib ''2'' (Some ex_admin) ex_fresh ex_request ex_auth_db = Inr ((1, ''ri_public_ab_x_y''), ex_created)"
  by (simp add: create_key_def ex_requested ex_principal ex_within)
    (simp add: insert_key_row_def insert_all_grants_def new_key_row_def make_api_key_def ex_created_def key_eval
      VALID_API_KEY_KINDS_def VALID_API_KEY_STATUSES_def VALID_DOMAIN_GRANT_MODES_def Let_def)

lemma ex_create_op:
  "run_key_op ex_keylib ''2'' (Some ex_admin) (CreateKey ex_fresh ex_request) ex_auth_db = Inr ex_created"
  by (simp add: ex_create)

lemma ex_created_row: "map_option k_status (key_row ex_created 1) = Some ''active'' \<and> key_row ex_auth_db 1 = None"
  by (simp add: key_row_def ex_created_def ex_auth_db_def new_key_row_def make_api_key_def ex_request_def)

theorem key_ops_within_authority_witness:
  "transaction_management_principal ex_keylib ''2'' (Some ex_admin) ex_auth_db \<noteq> Inr None
   \<and> load_key ex_keylib ex_auth_db 1 = None \<and> load_key ex_keylib ex_created 1 \<noteq> None"
  using key_ops_within_authority [OF ex_lib_ok ex_auth_inv ex_create_op] ex_created_row
  by (auto simp: load_key_def ex_admin_def)

theorem key_tables_well_formed_witness: "key_inv ex_keylib ex_created \<and> key_row ex_created 1 \<noteq> None"
  using key_tables_well_formed [OF ex_lib_ok ex_auth_inv ex_create_op] ex_created_row by auto

end
