(* ===== verification/Ordered_Dict.thy ===== *)
theory Ordered_Dict
  imports Prelude Complex_Main
begin

text \<open>
  \<open>collections.OrderedDict\<close> as the caches and rate limiters of the program use it, and
  dictionaries of windows: per key, the times of its events with the oldest first.
\<close>

section \<open>Ordered dictionaries\<close>

text \<open>\<open>collections.OrderedDict\<close> with the oldest entry first; every assignment moves its key to the end.\<close>

definition od_pop :: "'k \<Rightarrow> ('k \<times> 'v) list \<Rightarrow> ('k \<times> 'v) list" where
  "od_pop k d = filter (\<lambda>e. fst e \<noteq> k) d"

definition od_put :: "'k \<Rightarrow> 'v \<Rightarrow> ('k \<times> 'v) list \<Rightarrow> ('k \<times> 'v) list" where
  "od_put k v d = od_pop k d @ [(k, v)]"

definition od_trim :: "nat \<Rightarrow> ('k \<times> 'v) list \<Rightarrow> ('k \<times> 'v) list" where
  "od_trim n d = drop (length d - n) d"

section \<open>Windows\<close>

type_synonym windows = "(string \<times> rat list) list"

definition window :: "windows \<Rightarrow> string \<Rightarrow> rat list" where
  "window ws k = (case map_of ws k of None \<Rightarrow> [] | Some w \<Rightarrow> w)"

section \<open>Lemmas\<close>

lemma set_od_pop: "set (od_pop k d) \<subseteq> set d"
  by (auto simp: od_pop_def)

lemma set_od_put: "set (od_put k v d) \<subseteq> insert (k, v) (set d)"
  by (auto simp: od_put_def od_pop_def)

lemma set_od_trim: "set (od_trim n d) \<subseteq> set d"
  by (auto simp: od_trim_def dest: in_set_dropD)

lemma length_od_trim: "length (od_trim n d) \<le> n"
  by (simp add: od_trim_def)

lemma length_od_pop: "length (od_pop k d) \<le> length d"
  by (simp add: od_pop_def)

lemma length_od_put_present: "map_of d k = Some v \<Longrightarrow> length (od_put k w d) \<le> length d"
proof -
  assume "map_of d k = Some v"
  then have "(k, v) \<in> set d" by (rule map_of_SomeD)
  then have "length (filter (\<lambda>e. fst e \<noteq> k) d) < length d" by (rule length_filter_less) simp
  then show ?thesis by (simp add: od_put_def od_pop_def)
qed

lemma map_of_other_keys: "map_of (filter (\<lambda>e. fst e \<noteq> k) ws) j = (if j = k then None else map_of ws j)"
  by (induction ws) auto

lemma window_put: "window (od_put k w ws) j = (if j = k then w else window ws j)"
  by (auto simp: window_def od_put_def od_pop_def map_add_def map_of_other_keys map_of_append split: option.splits)

lemma window_pop: "window (od_pop k ws) j = (if j = k then [] else window ws j)"
  by (simp add: window_def od_pop_def map_of_other_keys)

lemma keys_pop: "set (map fst (od_pop k ws)) = set (map fst ws) - {k}"
  by (auto simp: od_pop_def)

lemma keys_put: "set (map fst (od_put k w ws)) = insert k (set (map fst ws))"
  by (auto simp: od_put_def od_pop_def)

lemma distinct_pop: "distinct (map fst ws) \<Longrightarrow> distinct (map fst (od_pop k ws))"
  by (simp add: od_pop_def distinct_map_filter)

lemma distinct_put: "distinct (map fst ws) \<Longrightarrow> distinct (map fst (od_put k w ws))"
  using distinct_pop [of ws k] keys_pop [of k ws] by (auto simp: od_put_def)

lemma sorted_dropWhile: "sorted w \<Longrightarrow> dropWhile (\<lambda>x. x \<le> (c::rat)) w = filter (\<lambda>t. c < t) w"
proof (induction w)
  case (Cons x w)
  then show ?case by (auto simp: filter_id_conv intro!: sym [OF filter_True])
qed simp

lemma trim_id: "length d \<le> n \<Longrightarrow> od_trim n d = d"
  by (simp add: od_trim_def)

text \<open>Trimming forgets entries and changes none.\<close>

lemma distinct_trim: "distinct (map fst d) \<Longrightarrow> distinct (map fst (od_trim n d))"
  by (simp add: od_trim_def drop_map [symmetric])

lemma map_of_trim: "map_of (od_trim n d) x = None \<or> map_of (od_trim n d) x = map_of d x" if "distinct (map fst d)"
proof (cases "map_of (od_trim n d) x")
  case (Some v)
  then have "(x, v) \<in> set d" using set_od_trim map_of_SomeD by fastforce
  then show ?thesis using Some that by simp
qed simp

section \<open>Windows that follow a log\<close>

text \<open>The windows of length \<open>L\<close> agree with a complete log inside every window that is still to come.\<close>

definition tracks :: "rat \<Rightarrow> windows \<Rightarrow> (string \<Rightarrow> rat list) \<Rightarrow> rat \<Rightarrow> bool" where
  "tracks L ws f now \<longleftrightarrow> distinct (map fst ws) \<and>
     (\<forall>k. sorted (window ws k) \<and> (\<forall>t \<in> set (window ws k). t \<le> now)
        \<and> (\<forall>c \<ge> now - L. filter (\<lambda>t. c < t) (window ws k) = filter (\<lambda>t. c < t) (f k)))"

lemma tracks_later: "tracks L ws f now \<Longrightarrow> now \<le> now' \<Longrightarrow> tracks L ws f now'"
  unfolding tracks_def by (meson diff_right_mono order_trans)

lemma tracks_put:
  assumes "tracks L ws f now" and "w = filter (\<lambda>t. now - L < t) (f key) @ [now]"
  shows "tracks L (od_put key w ws) (f(key := f key @ [now])) now"
proof -
  let ?c = "now - L"
  have f: "filter (\<lambda>t. ?c < t) (window ws key) = filter (\<lambda>t. ?c < t) (f key)" "sorted (window ws key)"
    "\<forall>t \<in> set (window ws key). t \<le> now" using assms(1) by (simp_all add: tracks_def)
  have w: "w = filter (\<lambda>t. ?c < t) (window ws key) @ [now]" using assms(2) f(1) by simp
  have "sorted w" "\<forall>t \<in> set w. t \<le> now" using f(2,3) sorted_wrt_filter [OF f(2)] by (auto simp: w sorted_append)
  moreover have "filter (\<lambda>t. c < t) w = filter (\<lambda>t. c < t) (f key @ [now])" if "c \<ge> ?c" for c
    unfolding assms(2) filter_append filter_filter using that by (auto intro!: filter_cong)
  ultimately show ?thesis using assms(1) by (simp add: tracks_def window_put distinct_put)
qed

lemma tracks_clear: "tracks L ws f now \<Longrightarrow> tracks L (od_pop key ws) (f(key := [])) now"
  by (simp add: tracks_def window_pop distinct_pop)

section \<open>Windows that lose entries\<close>

text \<open>
  When entries are evicted the windows no longer agree with the log, but they never count more
  than it does.
\<close>

definition later_than :: "rat \<Rightarrow> rat list \<Rightarrow> nat" where
  "later_than c ts = length (filter (\<lambda>t. c < t) ts)"

definition within_log :: "windows \<Rightarrow> (string \<Rightarrow> rat list) \<Rightarrow> rat \<Rightarrow> bool" where
  "within_log ws f now \<longleftrightarrow> distinct (map fst ws) \<and>
     (\<forall>k. sorted (window ws k) \<and> (\<forall>t \<in> set (window ws k). t \<le> now) \<and> (\<forall>c. later_than c (window ws k) \<le> later_than c (f k)))"

lemma later_than_simps [simp]:
  "later_than c [] = 0" "later_than c (ts @ us) = later_than c ts + later_than c us"
  "later_than c [t] = (if c < t then 1 else 0)"
  by (simp_all add: later_than_def)

lemma later_than_dropWhile: "later_than c (dropWhile P ts) \<le> later_than c ts"
  by (induction ts) (auto simp: later_than_def)

lemma length_dropWhile_sorted: "sorted ts \<Longrightarrow> length (dropWhile (\<lambda>x. x \<le> c) ts) = later_than c ts"
  by (simp add: sorted_dropWhile later_than_def)

lemma within_logD:
  assumes "within_log ws f now"
  shows "distinct (map fst ws)" "sorted (window ws k)" "t \<in> set (window ws k) \<Longrightarrow> t \<le> now"
    "later_than c (window ws k) \<le> later_than c (f k)"
  using assms by (simp_all add: within_log_def)

lemma within_log_later: "within_log ws f now \<Longrightarrow> now \<le> now' \<Longrightarrow> within_log ws f now'"
  unfolding within_log_def by (meson order_trans)

lemma within_log_empty: "within_log [] f now"
  by (simp add: within_log_def window_def)

lemma within_log_pop: "within_log ws f now \<Longrightarrow> within_log (od_pop k ws) f now"
  by (simp add: within_log_def distinct_pop window_pop)

lemma within_log_clear: "within_log ws f now \<Longrightarrow> within_log (od_pop k ws) (f(k := [])) now"
  by (simp add: within_log_def distinct_pop window_pop)

lemma within_log_trim:
  assumes "within_log ws f now"
  shows "within_log (od_trim n ws) f now"
proof -
  note d = within_logD(1) [OF assms]
  have "window (od_trim n ws) k = [] \<or> window (od_trim n ws) k = window ws k" for k
    using map_of_trim [OF d, of n k] by (auto simp: window_def split: option.splits)
  then show ?thesis using assms distinct_trim [OF d] unfolding within_log_def by (metis later_than_simps(1) le0 sorted_simps(1) empty_iff list.set(1))
qed

lemma within_log_put:
  assumes "within_log ws f now" and "sorted w" "\<forall>t \<in> set w. t \<le> now" "\<forall>c. later_than c w \<le> later_than c (g k)"
    and "\<forall>j. j \<noteq> k \<longrightarrow> g j = f j"
  shows "within_log (od_put k w ws) g now"
  using assms by (simp add: within_log_def distinct_put window_put)

text \<open>The two ways a window is written back: shortened, and shortened with one more entry.\<close>

lemma within_log_shorten:
  assumes "within_log ws f now" and "w = dropWhile (\<lambda>x. x \<le> c) (window ws k)"
  shows "within_log (od_put k w ws) f now"
    and "within_log (od_put k (w @ [now]) ws) (f(k := f k @ [now])) now"
proof -
  have w: "sorted w" "\<forall>t \<in> set w. t \<le> now" "later_than b w \<le> later_than b (f k)" for b
    using within_logD(2-4) [OF assms(1)] assms(2) later_than_dropWhile [of b "\<lambda>x. x \<le> c" "window ws k"]
    by (auto simp: sorted_dropWhile sorted_wrt_filter intro: order_trans)
  show "within_log (od_put k w ws) f now" by (rule within_log_put [OF assms(1) w(1,2)]) (use w(3) in auto)
  show "within_log (od_put k (w @ [now]) ws) (f(k := f k @ [now])) now"
    by (rule within_log_put [OF assms(1)]) (use w in \<open>auto simp: sorted_append\<close>)
qed

end
