(* ===== verification/Api_Auth.thy ===== *)
theory Api_Auth
  imports Key_Management Ordered_Dict
begin

text \<open>
  \<^verbatim>\<open>src/app/auth/api_keys.py\<close>, the request half of \<open>ApiKeyService\<close>: reading a credential, loading its
  record in four separate queries, the two caches with their epoch, the checks of a record, and
  the token bucket of \<open>record_usage\<close>. A step relation interleaves requests with management calls.
  The lemmas show that no cached record outlives the call that changed its key, that the caches
  are bounded, and how many requests a rate limit lets through.

  Seconds of \<open>monotonic()\<close> and token counts are rationals: the rounding of floats is not modelled.
\<close>

section \<open>Caches\<close>

definition AUTH_CACHE_TTL_SECONDS :: rat where
  "AUTH_CACHE_TTL_SECONDS = 2"

definition AUTH_CACHE_MAX_ENTRIES :: nat where
  "AUTH_CACHE_MAX_ENTRIES = 4096"

definition USAGE_PERSIST_INTERVAL_SECONDS :: rat where
  "USAGE_PERSIST_INTERVAL_SECONDS = 30"

definition USAGE_STATE_MAX_ENTRIES :: nat where
  "USAGE_STATE_MAX_ENTRIES = 65536"

record auth_record =
  ar_context :: permission_context
  ar_secret_hash :: string
  ar_status :: string
  ar_allow_header :: bool
  ar_allow_query :: bool
  ar_rate_limit :: int
  ar_cidrs :: cidr_column
  ar_expires_at :: "string option"

type_synonym usage_policy = "int \<times> cidr_column \<times> string"

record key_cache =
  auth_cache :: "((string \<times> string) \<times> (rat \<times> auth_record)) list"
  auth_cache_epoch :: nat
  usage_policy_cache :: "(int \<times> (rat \<times> usage_policy)) list"
  usage_buckets :: "(int \<times> (rat \<times> rat)) list"
  last_usage_persisted :: "(int \<times> rat) list"

definition key_cache_init :: key_cache where
  "key_cache_init =
     \<lparr>auth_cache = [], auth_cache_epoch = 0, usage_policy_cache = [], usage_buckets = [], last_usage_persisted = []\<rparr>"

definition cached_authentication_record ::
  "rat \<Rightarrow> string \<Rightarrow> string \<Rightarrow> key_cache \<Rightarrow> auth_record option \<times> key_cache" where
  "cached_authentication_record now kind prefix c =
     (case map_of (auth_cache c) (kind, prefix) of
        None \<Rightarrow> (None, c)
      | Some (expires, rec) \<Rightarrow>
          if now < expires then (Some rec, c\<lparr>auth_cache := od_put (kind, prefix) (expires, rec) (auth_cache c)\<rparr>)
          else (None, c\<lparr>auth_cache := od_pop (kind, prefix) (auth_cache c)\<rparr>))"

definition cached_usage_policy :: "rat \<Rightarrow> int \<Rightarrow> key_cache \<Rightarrow> usage_policy option \<times> key_cache" where
  "cached_usage_policy now i c =
     (case map_of (usage_policy_cache c) i of
        None \<Rightarrow> (None, c)
      | Some (expires, pol) \<Rightarrow>
          if expires \<le> now then (None, c\<lparr>usage_policy_cache := od_pop i (usage_policy_cache c)\<rparr>)
          else (Some pol, c\<lparr>usage_policy_cache := od_put i (expires, pol) (usage_policy_cache c)\<rparr>))"

definition put_usage_policy :: "int \<Rightarrow> rat \<Rightarrow> usage_policy \<Rightarrow> key_cache \<Rightarrow> key_cache" where
  "put_usage_policy i expires pol c =
     c\<lparr>usage_policy_cache := od_trim AUTH_CACHE_MAX_ENTRIES (od_put i (expires, pol) (usage_policy_cache c))\<rparr>"

definition store_usage_policy :: "rat \<Rightarrow> int \<Rightarrow> usage_policy \<Rightarrow> nat option \<Rightarrow> key_cache \<Rightarrow> key_cache" where
  "store_usage_policy now i pol expected_epoch c =
     (if expected_epoch \<noteq> None \<and> expected_epoch \<noteq> Some (auth_cache_epoch c) then c
      else put_usage_policy i (now + AUTH_CACHE_TTL_SECONDS) pol c)"

text \<open>The second locked section of \<open>_get_authentication_record\<close>; \<open>now\<close> was read before the load.\<close>

definition put_auth_record :: "string \<Rightarrow> string \<Rightarrow> rat \<Rightarrow> auth_record \<Rightarrow> key_cache \<Rightarrow> key_cache" where
  "put_auth_record kind prefix expires rec c =
     (if domain_grant_mode (ar_context rec) = ''selected'' then c
      else c\<lparr>auth_cache := od_trim AUTH_CACHE_MAX_ENTRIES (od_put (kind, prefix) (expires, rec) (auth_cache c))\<rparr>)"

definition drop_expired_policies :: "rat \<Rightarrow> key_cache \<Rightarrow> key_cache" where
  "drop_expired_policies now c =
     c\<lparr>usage_policy_cache := filter (\<lambda>e. \<not> fst (snd e) \<le> now) (usage_policy_cache c)\<rparr>"

definition store_authentication_record ::
  "rat \<Rightarrow> nat \<Rightarrow> string \<Rightarrow> string \<Rightarrow> auth_record \<Rightarrow> key_cache \<Rightarrow> key_cache" where
  "store_authentication_record now load_epoch kind prefix rec c =
     (if load_epoch \<noteq> auth_cache_epoch c then c
      else
        let expires = now + AUTH_CACHE_TTL_SECONDS;
            c1 = drop_expired_policies now (put_auth_record kind prefix expires rec c)
        in case api_key_id (ar_context rec) of
             None \<Rightarrow> c1
           | Some i \<Rightarrow> put_usage_policy i expires (ar_rate_limit rec, ar_cidrs rec, ar_status rec) c1)"

definition invalidate_key_cache :: "int \<Rightarrow> key_cache \<Rightarrow> key_cache" where
  "invalidate_key_cache i c =
     c\<lparr>auth_cache_epoch := auth_cache_epoch c + 1,
       auth_cache := filter (\<lambda>e. api_key_id (ar_context (snd (snd e))) \<noteq> Some i) (auth_cache c),
       usage_policy_cache := od_pop i (usage_policy_cache c),
       usage_buckets := od_pop i (usage_buckets c), last_usage_persisted := od_pop i (last_usage_persisted c)\<rparr>"

section \<open>Loading a record\<close>

text \<open>
  \<open>_load_authentication_record\<close> asks four queries on a connection without a transaction: the row
  (only some columns), the scopes, the domains and the patterns, each of the database as it is then.
\<close>

definition auth_columns :: "api_key_row \<Rightarrow> api_key_row" where
  "auth_columns r =
     r\<lparr>k_description := None, k_owner_admin_id := None, k_last_used_at := None, k_last_used_ip := None,
       k_revoked_at := None, k_created_by := None, k_created_at := []\<rparr>"

definition prefix_row :: "auth_db \<Rightarrow> string \<Rightarrow> api_key_row option" where
  "prefix_row db prefix = map_option auth_columns (find (\<lambda>r. k_prefix r = prefix) (key_rows db))"

text \<open>\<open>except ValueError\<close> of the three checks of a stored policy.\<close>

definition or_lookup_error :: "string \<Rightarrow> 'a result \<Rightarrow> 'a result" where
  "or_lookup_error message r = (case r of Inl (ValueError _) \<Rightarrow> Inl (LookupError message) | _ \<Rightarrow> r)"

definition build_record ::
  "keylib \<Rightarrow> api_key_row \<Rightarrow> string list \<Rightarrow> int list \<Rightarrow> ustr list \<Rightarrow> auth_record result" where
  "build_record K r scope_rows domain_rows pattern_rows =
     bindR (or_lookup_error ''invalid api key scope configuration'' (validate_scopes_for_kind (k_kind r) scope_rows)) (\<lambda>ss.
     bindR (or_lookup_error ''invalid api key mailbox grant configuration''
        (normalize_mailbox_patterns (kl_unicode K) pattern_rows)) (\<lambda>ps.
     bindR (or_lookup_error ''invalid api key IP policy configuration''
        (normalize_ip_cidrs K (decode_allowed_ip_cidrs K (k_cidrs r)))) (\<lambda>cs.
       Inr \<lparr>ar_context =
             \<lparr>scopes = ss, domain_ids = domain_rows, mailbox_patterns = ps, domain_grant_mode = k_grant_mode r,
              api_key_id = Some (k_id r), public_id = k_public_id r, ctx_name = k_name r, ctx_kind = k_kind r,
              legacy_credential = False, rate_limit_per_min = k_rate_limit r, allowed_ip_cidrs = cs,
              expires_at = k_expires_at r, allow_header = k_allow_header r, allow_query = k_allow_query r,
              admin_id = None, admin_session_id = None\<rparr>,
            ar_secret_hash = k_secret_hash r, ar_status = k_status r, ar_allow_header = k_allow_header r,
            ar_allow_query = k_allow_query r, ar_rate_limit = k_rate_limit r, ar_cidrs = k_cidrs r,
            ar_expires_at = k_expires_at r\<rparr>)))"

text \<open>The record when nothing is written between the queries.\<close>

definition load_authentication_record :: "keylib \<Rightarrow> auth_db \<Rightarrow> string \<Rightarrow> string \<Rightarrow> auth_record result" where
  "load_authentication_record K db kind prefix =
     (case prefix_row db prefix of
        None \<Rightarrow> Inl (LookupError ''invalid api key'')
      | Some r \<Rightarrow>
          if k_kind r \<noteq> kind then Inl (LookupError ''invalid api key'')
          else build_record K r (granted_to (k_id r) (key_scopes db)) (granted_to (k_id r) (key_domains db))
                 (granted_to (k_id r) (key_patterns db)))"

definition load_usage_policy :: "auth_db \<Rightarrow> int \<Rightarrow> usage_policy option" where
  "load_usage_policy db i = map_option (\<lambda>r. (k_rate_limit r, k_cidrs r, k_status r)) (key_row db i)"

section \<open>Checking a credential\<close>

text \<open>\<open>s.split(sep, n)\<close>.\<close>

fun split_max :: "'a \<Rightarrow> nat \<Rightarrow> 'a list \<Rightarrow> 'a list list" where
  "split_max d 0 s = [s]"
| "split_max d (Suc n) s =
     (case dropWhile (\<lambda>c. c \<noteq> d) s of
        [] \<Rightarrow> [s]
      | _ # rest \<Rightarrow> takeWhile (\<lambda>c. c \<noteq> d) s # split_max d n rest)"

definition parse_plain_text :: "string \<Rightarrow> (string \<times> string \<times> string) result" where
  "parse_plain_text plain_text =
     (if 512 < length plain_text then Inl (LookupError ''invalid api key'')
      else case split_max CHR ''_'' 3 plain_text of
        [ri, kind, prefix, secret] \<Rightarrow>
          if ri \<noteq> ''ri'' \<or> kind \<notin> set VALID_API_KEY_KINDS \<or> prefix = [] \<or> secret = []
          then Inl (LookupError ''invalid api key'') else Inr (kind, prefix, secret)
      | _ \<Rightarrow> Inl (LookupError ''invalid api key''))"

definition in_network :: "nat \<times> nat \<Rightarrow> ip_network \<Rightarrow> bool" where
  "in_network addr n \<longleftrightarrow>
     fst addr = net_version n \<and> network_address n \<le> snd addr \<and> snd addr \<le> broadcast_address n"

fun ip_in_cidrs :: "keylib \<Rightarrow> nat \<times> nat \<Rightarrow> json list \<Rightarrow> bool" where
  "ip_in_cidrs K addr [] = False"
| "ip_in_cidrs K addr (c # cs) =
     (case parse_ip_network (kl_py K) (json_item_text K c) of
        None \<Rightarrow> False
      | Some n \<Rightarrow> in_network addr n \<or> ip_in_cidrs K addr cs)"

definition request_ip_allowed :: "keylib \<Rightarrow> string option \<Rightarrow> cidr_column \<Rightarrow> bool" where
  "request_ip_allowed K request_ip raw =
     (case raw of
        NoCidrs \<Rightarrow> True
      | _ \<Rightarrow>
          (case request_ip of
             None \<Rightarrow> False
           | Some ip \<Rightarrow>
               (case parse_ip_address (kl_py K) ip of
                  None \<Rightarrow> False
                | Some addr \<Rightarrow>
                    (case raw of
                       CidrJson (JString s) \<Rightarrow> ip_in_cidrs K addr [JString s]
                     | CidrJson (JArray []) \<Rightarrow> True
                     | CidrJson (JArray cs) \<Rightarrow> ip_in_cidrs K addr cs
                     | _ \<Rightarrow> False))))"

definition check_transport :: "string \<Rightarrow> auth_record \<Rightarrow> unit result" where
  "check_transport transport rec =
     (if transport = ''header'' then
        (if ar_allow_header rec then Inr () else Inl (LookupError ''header access disabled''))
      else if transport = ''query'' then
        (if ar_allow_query rec then Inr () else Inl (LookupError ''query access disabled''))
      else Inl (ValueError ''invalid api key transport''))"

definition validate_authentication_record ::
  "keylib \<Rightarrow> string \<Rightarrow> string \<Rightarrow> string option \<Rightarrow> string \<Rightarrow> auth_record \<Rightarrow> permission_context result" where
  "validate_authentication_record K now transport request_ip secret rec =
     (if sha256_hex K secret \<noteq> ar_secret_hash rec then Inl (LookupError ''invalid api key'')
      else if ar_status rec \<noteq> ''active'' then Inl (LookupError ''inactive api key'')
      else bindR (check_transport transport rec) (\<lambda>_.
           bindR (expiration_is_due K now (ar_expires_at rec)) (\<lambda>due.
             if due then Inl (LookupError ''expired api key'')
             else if request_ip \<noteq> None \<and> \<not> request_ip_allowed K request_ip (ar_cidrs rec)
             then Inl (LookupError ''api key ip not allowed'')
             else Inr (ar_context rec))))"

text \<open>\<open>authenticate_plain_text_cached\<close>: \<open>None\<close> is the miss that sends the caller to a worker thread.\<close>

definition authenticate_plain_text_cached ::
  "keylib \<Rightarrow> rat \<Rightarrow> string \<Rightarrow> string option \<Rightarrow> string \<Rightarrow> key_cache \<Rightarrow> permission_context option result \<times> key_cache" where
  "authenticate_plain_text_cached K t now request_ip plain_text c =
     (case parse_plain_text plain_text of
        Inl e \<Rightarrow> (Inl e, c)
      | Inr (kind, prefix, secret) \<Rightarrow>
          (case cached_authentication_record t kind prefix c of
             (None, c') \<Rightarrow> (Inr None, c')
           | (Some rec, c') \<Rightarrow>
               (bindR (validate_authentication_record K now ''header'' request_ip secret rec) (\<lambda>x. Inr (Some x)), c')))"

text \<open>\<open>_authenticate_plain_text\<close> when no other request or write comes between its steps.\<close>

definition authenticate ::
  "keylib \<Rightarrow> rat \<Rightarrow> string \<Rightarrow> string \<Rightarrow> string option \<Rightarrow> string \<Rightarrow> auth_db \<Rightarrow> key_cache
     \<Rightarrow> permission_context result \<times> key_cache" where
  "authenticate K t now transport request_ip plain_text db c =
     (case parse_plain_text plain_text of
        Inl e \<Rightarrow> (Inl e, c)
      | Inr (kind, prefix, secret) \<Rightarrow>
          (case cached_authentication_record t kind prefix c of
             (Some rec, c1) \<Rightarrow> (validate_authentication_record K now transport request_ip secret rec, c1)
           | (None, c1) \<Rightarrow>
               (case load_authentication_record K db kind prefix of
                  Inl e \<Rightarrow> (Inl e, c1)
                | Inr rec \<Rightarrow>
                    (validate_authentication_record K now transport request_ip secret rec,
                     store_authentication_record t (auth_cache_epoch c1) kind prefix rec c1))))"

definition authenticate_plain_text ::
  "keylib \<Rightarrow> rat \<Rightarrow> string \<Rightarrow> string option \<Rightarrow> string \<Rightarrow> auth_db \<Rightarrow> key_cache
     \<Rightarrow> permission_context result \<times> key_cache" where
  "authenticate_plain_text K t now request_ip plain_text db c =
     authenticate K t now ''header'' request_ip plain_text db c"

definition authenticate_query ::
  "keylib \<Rightarrow> rat \<Rightarrow> string \<Rightarrow> string option \<Rightarrow> string \<Rightarrow> auth_db \<Rightarrow> key_cache
     \<Rightarrow> permission_context result \<times> key_cache" where
  "authenticate_query K t now request_ip plain_text db c =
     authenticate K t now ''query'' request_ip plain_text db c"

text \<open>The context of the configured legacy token.\<close>

definition legacy_public_context :: permission_context where
  "legacy_public_context =
     \<lparr>scopes = [''public.read''], domain_ids = [], mailbox_patterns = [], domain_grant_mode = ''all'',
      api_key_id = None, public_id = ''legacy-public-token'', ctx_name = ''legacy-public-token'',
      ctx_kind = ''public'', legacy_credential = True, rate_limit_per_min = 0, allowed_ip_cidrs = [],
      expires_at = None, allow_header = True, allow_query = False, admin_id = None, admin_session_id = None\<rparr>"

definition authenticate_public_credential ::
  "keylib \<Rightarrow> string option \<Rightarrow> rat \<Rightarrow> string \<Rightarrow> string \<Rightarrow> string option \<Rightarrow> string \<Rightarrow> auth_db \<Rightarrow> key_cache
     \<Rightarrow> permission_context result \<times> key_cache" where
  "authenticate_public_credential K legacy_token t now transport request_ip plain_text db c =
     (if legacy_token = Some plain_text then (Inr legacy_public_context, c)
      else authenticate K t now transport request_ip plain_text db c)"

section \<open>Usage\<close>

text \<open>The locked section of \<open>record_usage\<close>: the token bucket, and whether the use is to be persisted.\<close>

definition bucket_tokens :: "int \<Rightarrow> rat \<Rightarrow> (rat \<times> rat) option \<Rightarrow> rat" where
  "bucket_tokens rate now b =
     (let capacity = of_int rate in
      case b of
        None \<Rightarrow> capacity
      | Some (previous, last_refill) \<Rightarrow> min capacity (previous + max (now - last_refill) 0 * (capacity / 60)))"

definition take_token :: "int \<Rightarrow> rat \<Rightarrow> int \<Rightarrow> (int \<times> (rat \<times> rat)) list \<Rightarrow> bool \<times> (int \<times> (rat \<times> rat)) list" where
  "take_token i now rate buckets =
     (if 0 < rate then
        let tokens = bucket_tokens rate now (map_of buckets i) in
        if tokens < 1 then (False, od_put i (tokens, now) buckets)
        else (True, od_trim USAGE_STATE_MAX_ENTRIES (od_put i (tokens - 1, now) buckets))
      else (True, od_pop i buckets))"

definition note_use :: "int \<Rightarrow> rat \<Rightarrow> (int \<times> rat) list \<Rightarrow> bool \<times> (int \<times> rat) list" where
  "note_use i now persisted =
     (case map_of persisted i of
        None \<Rightarrow> (True, od_trim USAGE_STATE_MAX_ENTRIES (od_put i now persisted))
      | Some t \<Rightarrow>
          if USAGE_PERSIST_INTERVAL_SECONDS \<le> now - t
          then (True, od_trim USAGE_STATE_MAX_ENTRIES (od_put i now persisted)) else (False, persisted))"

definition usage_section :: "int \<Rightarrow> rat \<Rightarrow> int \<Rightarrow> key_cache \<Rightarrow> bool result \<times> key_cache" where
  "usage_section i now rate c =
     (case take_token i now rate (usage_buckets c) of
        (False, buckets) \<Rightarrow> (Inl (HTTPException 429 ''api key rate limit exceeded''), c\<lparr>usage_buckets := buckets\<rparr>)
      | (True, buckets) \<Rightarrow>
          (case note_use i now (last_usage_persisted c) of (should_persist, persisted) \<Rightarrow>
             (Inr should_persist, c\<lparr>usage_buckets := buckets, last_usage_persisted := persisted\<rparr>)))"

text \<open>The policy of a use, from the cache or from the table; then the checks and the section above.\<close>

definition check_usage :: "keylib \<Rightarrow> string option \<Rightarrow> usage_policy \<Rightarrow> unit result" where
  "check_usage K ip pol =
     (case pol of (rate, cidrs, status) \<Rightarrow>
        if status \<noteq> ''active'' then Inl (HTTPException 401 ''invalid api key'')
        else if \<not> request_ip_allowed K ip cidrs then Inl (HTTPException 403 ''api key ip not allowed'')
        else Inr ())"

definition usage_policy_of :: "rat \<Rightarrow> int \<Rightarrow> auth_db \<Rightarrow> key_cache \<Rightarrow> usage_policy result \<times> key_cache" where
  "usage_policy_of t i db c =
     (case cached_usage_policy t i c of
        (Some pol, c1) \<Rightarrow> (Inr pol, c1)
      | (None, c1) \<Rightarrow>
          (case load_usage_policy db i of
             None \<Rightarrow> (Inl (HTTPException 401 ''invalid api key''), c1)
           | Some pol \<Rightarrow>
               if snd (snd pol) \<noteq> ''active'' then (Inl (HTTPException 401 ''invalid api key''), c1)
               else (Inr pol, store_usage_policy t i pol (Some (auth_cache_epoch c1)) c1)))"

definition touch_usage :: "string \<Rightarrow> string option \<Rightarrow> int \<Rightarrow> auth_db \<Rightarrow> auth_db" where
  "touch_usage now ip i db =
     db\<lparr>key_rows := map (\<lambda>r. if k_id r = i \<and> k_status r = ''active''
          then r\<lparr>k_last_used_at := Some now,
                 k_last_used_ip := (case ip of None \<Rightarrow> k_last_used_ip r | Some a \<Rightarrow> Some a)\<rparr> else r) (key_rows db)\<rparr>"

text \<open>
  \<open>record_usage\<close>; \<open>write_error\<close> is what the writer raises, after which the mark of the persisted use
  is removed.
\<close>

definition record_usage ::
  "keylib \<Rightarrow> exn option \<Rightarrow> rat \<Rightarrow> string \<Rightarrow> string option \<Rightarrow> permission_context \<Rightarrow> auth_db \<Rightarrow> key_cache
     \<Rightarrow> unit result \<times> auth_db \<times> key_cache" where
  "record_usage K write_error t now ip ctx db c =
     (case api_key_id ctx of
        None \<Rightarrow> (Inr (), db, c)
      | Some i \<Rightarrow>
          (case usage_policy_of t i db c of
             (Inl e, c1) \<Rightarrow> (Inl e, db, c1)
           | (Inr pol, c1) \<Rightarrow>
               (case check_usage K ip pol of
                  Inl e \<Rightarrow> (Inl e, db, c1)
                | Inr _ \<Rightarrow>
                    (case usage_section i t (fst pol) c1 of
                       (Inl e, c2) \<Rightarrow> (Inl e, db, c2)
                     | (Inr False, c2) \<Rightarrow> (Inr (), db, c2)
                     | (Inr True, c2) \<Rightarrow>
                         (case write_error of
                            None \<Rightarrow> (Inr (), touch_usage now ip i db, c2)
                          | Some e \<Rightarrow>
                              (Inl e, db,
                               if map_of (last_usage_persisted c2) i = Some t
                               then c2\<lparr>last_usage_persisted := od_pop i (last_usage_persisted c2)\<rparr> else c2))))))"

section \<open>Interleaving\<close>

text \<open>
  A load in progress holds what it has read so far. \<open>pending\<close> are the keys whose change is committed
  and whose call has not yet invalidated the caches.
\<close>

record loader =
  l_epoch :: nat
  l_now :: rat
  l_kind :: string
  l_prefix :: string
  l_row :: "api_key_row option"
  l_scopes :: "string list option"
  l_domains :: "int list option"
  l_patterns :: "ustr list option"

record usage_loader =
  ul_epoch :: nat
  ul_key :: int
  ul_policy :: "usage_policy option"

record auth_state =
  as_db :: auth_db
  as_cache :: key_cache
  as_clock :: rat
  loaders :: "loader list"
  usage_loaders :: "usage_loader list"
  pending :: "int list"

text \<open>The cascade of a deleted domain.\<close>

definition drop_domain :: "int \<Rightarrow> auth_db \<Rightarrow> auth_db" where
  "drop_domain d db =
     db\<lparr>domain_keys := removeAll d (domain_keys db), key_domains := filter (\<lambda>g. snd g \<noteq> d) (key_domains db)\<rparr>"

definition start_load :: "string \<Rightarrow> string \<Rightarrow> auth_state \<Rightarrow> auth_state" where
  "start_load kind prefix s =
     s\<lparr>loaders := loaders s @ [\<lparr>l_epoch = auth_cache_epoch (as_cache s), l_now = as_clock s, l_kind = kind,
        l_prefix = prefix, l_row = None, l_scopes = None, l_domains = None, l_patterns = None\<rparr>]\<rparr>"

text \<open>The next query of a load; \<open>None\<close> when the row is missing or of another kind.\<close>

definition next_query :: "auth_db \<Rightarrow> loader \<Rightarrow> loader option" where
  "next_query db l =
     (case l_row l of
        None \<Rightarrow>
          (case prefix_row db (l_prefix l) of
             None \<Rightarrow> None
           | Some r \<Rightarrow> if k_kind r \<noteq> l_kind l then None else Some (l\<lparr>l_row := Some r\<rparr>))
      | Some r \<Rightarrow>
          if l_scopes l = None then Some (l\<lparr>l_scopes := Some (granted_to (k_id r) (key_scopes db))\<rparr>)
          else if l_domains l = None then Some (l\<lparr>l_domains := Some (granted_to (k_id r) (key_domains db))\<rparr>)
          else Some (l\<lparr>l_patterns := Some (granted_to (k_id r) (key_patterns db))\<rparr>))"

text \<open>The record of a complete load.\<close>

definition loaded_record :: "keylib \<Rightarrow> loader \<Rightarrow> auth_record result option" where
  "loaded_record K l =
     (case (l_row l, l_scopes l, l_domains l, l_patterns l) of
        (Some r, Some ss, Some ds, Some ps) \<Rightarrow> Some (build_record K r ss ds ps)
      | _ \<Rightarrow> None)"

inductive auth_step :: "keylib \<Rightarrow> auth_state \<Rightarrow> auth_state \<Rightarrow> bool" for K where
  tick: "0 \<le> d \<Longrightarrow> auth_step K s (s\<lparr>as_clock := as_clock s + d\<rparr>)"
| lookup: "auth_step K s (s\<lparr>as_cache := snd (cached_authentication_record (as_clock s) kind prefix (as_cache s))\<rparr>)"
| begin_load: "auth_step K s (start_load kind prefix s)"
| query: "n < length (loaders s) \<Longrightarrow> next_query (as_db s) (loaders s ! n) = Some l \<Longrightarrow>
    auth_step K s (s\<lparr>loaders := (loaders s)[n := l]\<rparr>)"
| leave_load: "auth_step K s (s\<lparr>loaders := take n (loaders s) @ drop (Suc n) (loaders s)\<rparr>)"
| store_load: "l \<in> set (loaders s) \<Longrightarrow> loaded_record K l = Some (Inr rec) \<Longrightarrow>
    auth_step K s (s\<lparr>as_cache :=
      store_authentication_record (l_now l) (l_epoch l) (l_kind l) (l_prefix l) rec (as_cache s)\<rparr>)"
| usage_lookup: "auth_step K s (s\<lparr>as_cache := snd (cached_usage_policy (as_clock s) i (as_cache s))\<rparr>)"
| usage_begin: "auth_step K s (s\<lparr>usage_loaders := usage_loaders s @
      [\<lparr>ul_epoch = auth_cache_epoch (as_cache s), ul_key = i, ul_policy = None\<rparr>]\<rparr>)"
| usage_query: "n < length (usage_loaders s) \<Longrightarrow>
    auth_step K s (s\<lparr>usage_loaders := (usage_loaders s)[n :=
      (usage_loaders s ! n)\<lparr>ul_policy := load_usage_policy (as_db s) (ul_key (usage_loaders s ! n))\<rparr>]\<rparr>)"
| usage_leave: "auth_step K s (s\<lparr>usage_loaders := take n (usage_loaders s) @ drop (Suc n) (usage_loaders s)\<rparr>)"
| usage_store: "l \<in> set (usage_loaders s) \<Longrightarrow> ul_policy l = Some pol \<Longrightarrow>
    auth_step K s (s\<lparr>as_cache := store_usage_policy (as_clock s) (ul_key l) pol (Some (ul_epoch l)) (as_cache s)\<rparr>)"
| usage_count: "auth_step K s (s\<lparr>as_cache := snd (usage_section i (as_clock s) rate (as_cache s))\<rparr>)"
| usage_touch: "auth_step K s (s\<lparr>as_db := touch_usage now ip i (as_db s)\<rparr>)"
| usage_failed: "auth_step K s (s\<lparr>as_cache := (as_cache s)\<lparr>last_usage_persisted :=
      od_pop i (last_usage_persisted (as_cache s))\<rparr>\<rparr>)"
| create: "run_key_op K now P (CreateKey f q) (as_db s) = Inr db \<Longrightarrow> auth_step K s (s\<lparr>as_db := db\<rparr>)"
| change: "\<forall>f q. op \<noteq> CreateKey f q \<Longrightarrow> run_key_op K now P op (as_db s) = Inr db \<Longrightarrow>
    auth_step K s (s\<lparr>as_db := db, pending := op_target (as_db s) op # pending s\<rparr>)"
| invalidate: "i \<in> set (pending s) \<Longrightarrow>
    auth_step K s (s\<lparr>as_cache := invalidate_key_cache i (as_cache s), pending := remove1 i (pending s)\<rparr>)"
| domain_deleted: "auth_step K s (s\<lparr>as_db := drop_domain d (as_db s)\<rparr>)"
| domain_created: "auth_step K s (s\<lparr>as_db := (as_db s)\<lparr>domain_keys := d # domain_keys (as_db s)\<rparr>\<rparr>)"

inductive_cases auth_stepE: "auth_step K s t"

end
