(* ===== verification/Key_Caches.thy ===== *)
theory Key_Caches
  imports Api_Auth
begin

text \<open>
  Facts on the request half of \<open>ApiKeyService\<close> (\<^verbatim>\<open>src/app/auth/api_keys.py\<close>): the caches hold what the
  tables hold unless a change of that key awaits its invalidation, a created key authenticates
  with its policy, and the token bucket bounds the requests of a period.
\<close>

section \<open>What a change leaves alone\<close>

text \<open>Two databases agree, for authentication, on every key but one.\<close>

definition auth_frame :: "int \<Rightarrow> auth_db \<Rightarrow> auth_db \<Rightarrow> bool" where
  "auth_frame i db db' \<longleftrightarrow>
     (\<forall>j r. j \<noteq> i \<longrightarrow> key_row db j = Some r \<longrightarrow>
        (\<exists>r'. key_row db' j = Some r' \<and> auth_columns r' = auth_columns r)
        \<and> granted_to j (key_scopes db') = granted_to j (key_scopes db)
        \<and> granted_to j (key_patterns db') = granted_to j (key_patterns db)
        \<and> (k_grant_mode r \<noteq> ''selected'' \<longrightarrow> granted_to j (key_domains db') = granted_to j (key_domains db)))"

lemma auth_columns_simps [simp]:
  "k_id (auth_columns r) = k_id r" "k_prefix (auth_columns r) = k_prefix r" "k_kind (auth_columns r) = k_kind r"
  "k_grant_mode (auth_columns r) = k_grant_mode r" "k_rate_limit (auth_columns r) = k_rate_limit r"
  "k_cidrs (auth_columns r) = k_cidrs r" "k_status (auth_columns r) = k_status r"
  by (simp_all add: auth_columns_def)

lemma auth_columns_eqD:
  assumes "auth_columns r = auth_columns r'"
  shows "k_id r = k_id r'" "k_prefix r = k_prefix r'" "k_kind r = k_kind r'" "k_grant_mode r = k_grant_mode r'"
    "k_rate_limit r = k_rate_limit r'" "k_cidrs r = k_cidrs r'" "k_status r = k_status r'"
  using arg_cong [OF assms, of k_id] arg_cong [OF assms, of k_prefix] arg_cong [OF assms, of k_kind]
    arg_cong [OF assms, of k_grant_mode] arg_cong [OF assms, of k_rate_limit] arg_cong [OF assms, of k_cidrs]
    arg_cong [OF assms, of k_status] by simp_all

lemma find_in: "find P xs = Some x \<Longrightarrow> x \<in> set xs \<and> P x"
  by (auto simp: find_Some_iff)

lemma prefix_row_iff:
  assumes "key_inv K db"
  shows "prefix_row db p = Some c \<longleftrightarrow> (\<exists>r. key_row db (k_id c) = Some r \<and> k_prefix r = p \<and> c = auth_columns r)"
proof
  assume "prefix_row db p = Some c"
  then obtain r where r: "r \<in> set (key_rows db)" "k_prefix r = p" "c = auth_columns r"
    by (auto simp: prefix_row_def dest!: find_in)
  then have "key_row db (k_id c) = Some r" using key_rowI [OF key_invD(1) [OF assms] r(1)] by simp
  then show "\<exists>r. key_row db (k_id c) = Some r \<and> k_prefix r = p \<and> c = auth_columns r" using r by blast
next
  assume "\<exists>r. key_row db (k_id c) = Some r \<and> k_prefix r = p \<and> c = auth_columns r"
  then obtain r where r: "r \<in> set (key_rows db)" "k_prefix r = p" "c = auth_columns r" using key_row_Some by blast
  then show "prefix_row db p = Some c"
    using find_unique [OF key_invD(2) [OF assms] r(1)] by (simp add: prefix_row_def)
qed

lemma prefix_row_frame:
  assumes "key_inv K db" "key_inv K db'" "auth_frame i db db'" "prefix_row db p = Some c" "k_id c \<noteq> i"
  shows "prefix_row db' p = Some c"
proof -
  obtain r where r: "key_row db (k_id c) = Some r" "k_prefix r = p" "c = auth_columns r"
    using assms(4) unfolding prefix_row_iff [OF assms(1)] by blast
  then obtain r' where "key_row db' (k_id c) = Some r'" "auth_columns r' = auth_columns r"
    using assms(3,5) unfolding auth_frame_def by blast
  then show ?thesis unfolding prefix_row_iff [OF assms(2)] using r auth_columns_eqD(2) by metis
qed

lemma granted_frame:
  assumes "auth_frame i db db'" "key_row db j = Some r" "j \<noteq> i"
  shows "granted_to j (key_scopes db') = granted_to j (key_scopes db)"
    "granted_to j (key_patterns db') = granted_to j (key_patterns db)"
    "k_grant_mode r \<noteq> ''selected'' \<Longrightarrow> granted_to j (key_domains db') = granted_to j (key_domains db)"
  using assms unfolding auth_frame_def by blast+

lemma prefix_row_key:
  assumes "key_inv K db" "prefix_row db p = Some c"
  obtains r where "key_row db (k_id c) = Some r" "c = auth_columns r"
  using assms prefix_row_iff [OF assms(1)] by blast

lemma usage_policy_frame:
  assumes "auth_frame i db db'" "load_usage_policy db j = Some pol" "j \<noteq> i"
  shows "load_usage_policy db' j = Some pol"
proof -
  obtain r where r: "key_row db j = Some r" "pol = (k_rate_limit r, k_cidrs r, k_status r)"
    using assms(2) by (auto simp: load_usage_policy_def)
  then obtain r' where "key_row db' j = Some r'" "auth_columns r' = auth_columns r"
    using assms(1,3) unfolding auth_frame_def by blast
  then show ?thesis using r auth_columns_eqD(5-7) [of r' r] by (simp add: load_usage_policy_def)
qed

lemma build_record_owner:
  "build_record K r ss ds ps = Inr rec \<Longrightarrow> api_key_id (ar_context rec) = Some (k_id r)
     \<and> domain_grant_mode (ar_context rec) = k_grant_mode r
     \<and> (ar_rate_limit rec, ar_cidrs rec, ar_status rec) = (k_rate_limit r, k_cidrs r, k_status r)"
  by (auto simp: build_record_def bindR_Inr_iff)

lemma load_record_row:
  assumes "load_authentication_record K db kind p = Inr rec"
  obtains c where "prefix_row db p = Some c" "k_kind c = kind"
    "build_record K c (granted_to (k_id c) (key_scopes db)) (granted_to (k_id c) (key_domains db))
       (granted_to (k_id c) (key_patterns db)) = Inr rec"
  using assms by (auto simp: load_authentication_record_def split: option.splits if_splits)

lemma load_record_frame:
  assumes inv: "key_inv K db" "key_inv K db'" and frame: "auth_frame i db db'"
    and load: "load_authentication_record K db kind p = Inr rec"
    and "api_key_id (ar_context rec) = Some j" "j \<noteq> i" "domain_grant_mode (ar_context rec) \<noteq> ''selected''"
  shows "load_authentication_record K db' kind p = Inr rec"
  using load
proof (rule load_record_row)
  fix c
  assume c: "prefix_row db p = Some c" "k_kind c = kind"
    and b: "build_record K c (granted_to (k_id c) (key_scopes db)) (granted_to (k_id c) (key_domains db))
       (granted_to (k_id c) (key_patterns db)) = Inr rec"
  have j: "k_id c = j" "k_grant_mode c \<noteq> ''selected''" using build_record_owner [OF b] assms(5,7) by simp_all
  obtain r where r: "key_row db (k_id c) = Some r" "c = auth_columns r" using inv(1) c(1) by (rule prefix_row_key)
  have "prefix_row db' p = Some c" using prefix_row_frame [OF inv frame c(1)] j assms(6) by simp
  then show ?thesis
    using b c(2) j r granted_frame [OF frame r(1)] assms(6) by (simp add: load_authentication_record_def)
qed

section \<open>The caches are current\<close>

definition record_ok :: "keylib \<Rightarrow> auth_db \<Rightarrow> int list \<Rightarrow> (string \<times> string) \<times> (rat \<times> auth_record) \<Rightarrow> bool" where
  "record_ok K db pend e =
     (case e of ((kind, prefix), (_, rec)) \<Rightarrow>
        domain_grant_mode (ar_context rec) \<noteq> ''selected''
        \<and> (\<exists>i. api_key_id (ar_context rec) = Some i
             \<and> (i \<in> set pend \<or> load_authentication_record K db kind prefix = Inr rec)))"

definition policy_current :: "auth_db \<Rightarrow> int list \<Rightarrow> int \<Rightarrow> usage_policy \<Rightarrow> bool" where
  "policy_current db pend i pol \<longleftrightarrow> i \<in> set pend \<or> load_usage_policy db i = Some pol"

definition parts_current :: "auth_db \<Rightarrow> loader \<Rightarrow> api_key_row \<Rightarrow> bool" where
  "parts_current db l r \<longleftrightarrow>
     prefix_row db (l_prefix l) = Some r
     \<and> (\<forall>ss. l_scopes l = Some ss \<longrightarrow> ss = granted_to (k_id r) (key_scopes db))
     \<and> (\<forall>ds. l_domains l = Some ds \<longrightarrow> k_grant_mode r \<noteq> ''selected'' \<longrightarrow> ds = granted_to (k_id r) (key_domains db))
     \<and> (\<forall>ps. l_patterns l = Some ps \<longrightarrow> ps = granted_to (k_id r) (key_patterns db))"

definition loader_ok :: "auth_db \<Rightarrow> int list \<Rightarrow> nat \<Rightarrow> loader \<Rightarrow> bool" where
  "loader_ok db pend epoch l \<longleftrightarrow>
     l_epoch l \<le> epoch
     \<and> (case l_row l of
          None \<Rightarrow> l_scopes l = None \<and> l_domains l = None \<and> l_patterns l = None
        | Some r \<Rightarrow> k_kind r = l_kind l
            \<and> (l_epoch l = epoch \<longrightarrow> k_id r \<in> set pend \<or> parts_current db l r))"

definition usage_loader_ok :: "auth_db \<Rightarrow> int list \<Rightarrow> nat \<Rightarrow> usage_loader \<Rightarrow> bool" where
  "usage_loader_ok db pend epoch l \<longleftrightarrow>
     ul_epoch l \<le> epoch
     \<and> (\<forall>pol. ul_policy l = Some pol \<longrightarrow> ul_epoch l = epoch \<longrightarrow> policy_current db pend (ul_key l) pol)"

definition cache_ok :: "keylib \<Rightarrow> auth_db \<Rightarrow> int list \<Rightarrow> key_cache \<Rightarrow> bool" where
  "cache_ok K db pend c \<longleftrightarrow>
     (\<forall>e \<in> set (auth_cache c). record_ok K db pend e)
     \<and> (\<forall>e \<in> set (usage_policy_cache c). policy_current db pend (fst e) (snd (snd e)))
     \<and> length (auth_cache c) \<le> AUTH_CACHE_MAX_ENTRIES \<and> length (usage_policy_cache c) \<le> AUTH_CACHE_MAX_ENTRIES"

definition auth_inv :: "keylib \<Rightarrow> auth_state \<Rightarrow> bool" where
  "auth_inv K s \<longleftrightarrow>
     key_inv K (as_db s) \<and> cache_ok K (as_db s) (pending s) (as_cache s)
     \<and> (\<forall>l \<in> set (loaders s). loader_ok (as_db s) (pending s) (auth_cache_epoch (as_cache s)) l)
     \<and> (\<forall>l \<in> set (usage_loaders s). usage_loader_ok (as_db s) (pending s) (auth_cache_epoch (as_cache s)) l)"

lemma cache_okI:
  assumes "cache_ok K db pend c"
    and "set (auth_cache c') \<subseteq> set (auth_cache c) \<union> A" and "set (usage_policy_cache c') \<subseteq> set (usage_policy_cache c) \<union> U"
    and "\<forall>e \<in> A. record_ok K db pend e" and "\<forall>e \<in> U. policy_current db pend (fst e) (snd (snd e))"
    and "length (auth_cache c') \<le> AUTH_CACHE_MAX_ENTRIES" and "length (usage_policy_cache c') \<le> AUTH_CACHE_MAX_ENTRIES"
  shows "cache_ok K db pend c'"
  using assms unfolding cache_ok_def by blast

lemma cache_ok_same:
  "cache_ok K db pend c \<Longrightarrow> auth_cache c' = auth_cache c \<Longrightarrow> usage_policy_cache c' = usage_policy_cache c \<Longrightarrow>
   cache_ok K db pend c'"
  by (simp add: cache_ok_def)

lemma lookup_ok:
  assumes "cache_ok K db pend c"
  shows "cache_ok K db pend (snd (cached_authentication_record now kind prefix c))"
proof (cases "map_of (auth_cache c) (kind, prefix)")
  case (Some v)
  obtain e rec where v: "v = (e, rec)" by (cases v)
  note m = map_of_SomeD [OF Some]
  show ?thesis
    using assms m set_od_put [of "(kind, prefix)" v "auth_cache c"] set_od_pop [of "(kind, prefix)" "auth_cache c"]
      length_od_put_present [OF Some, of v] length_od_pop [of "(kind, prefix)" "auth_cache c"] Some v
    by (intro cache_okI [OF assms, where A = "{}" and U = "{}"])
      (auto simp: cached_authentication_record_def cache_ok_def)
qed (use assms in \<open>simp add: cached_authentication_record_def\<close>)

lemma usage_lookup_ok:
  assumes "cache_ok K db pend c"
  shows "cache_ok K db pend (snd (cached_usage_policy now i c))"
proof (cases "map_of (usage_policy_cache c) i")
  case (Some v)
  obtain e pol where v: "v = (e, pol)" by (cases v)
  note m = map_of_SomeD [OF Some]
  show ?thesis
    using assms m set_od_put [of i v "usage_policy_cache c"] set_od_pop [of i "usage_policy_cache c"]
      length_od_put_present [OF Some, of v] length_od_pop [of i "usage_policy_cache c"] Some v
    by (intro cache_okI [OF assms, where A = "{}" and U = "{}"])
      (auto simp: cached_usage_policy_def cache_ok_def)
qed (use assms in \<open>simp add: cached_usage_policy_def\<close>)

lemma put_usage_policy_ok:
  assumes "cache_ok K db pend c" and "policy_current db pend i pol"
  shows "cache_ok K db pend (put_usage_policy i e pol c)"
proof -
  let ?d = "od_put i (e, pol) (usage_policy_cache c)"
  have "set (od_trim AUTH_CACHE_MAX_ENTRIES ?d) \<subseteq> set (usage_policy_cache c) \<union> {(i, (e, pol))}"
    using set_od_trim [of AUTH_CACHE_MAX_ENTRIES ?d] set_od_put [of i "(e, pol)" "usage_policy_cache c"] by blast
  then show ?thesis
    using assms length_od_trim [of AUTH_CACHE_MAX_ENTRIES ?d]
    by (intro cache_okI [OF assms(1), where A = "{}" and U = "{(i, (e, pol))}"])
      (simp_all add: put_usage_policy_def cache_ok_def)
qed

lemma put_auth_record_ok:
  assumes "cache_ok K db pend c"
    and "domain_grant_mode (ar_context rec) \<noteq> ''selected'' \<Longrightarrow> record_ok K db pend ((kind, prefix), (e, rec))"
  shows "cache_ok K db pend (put_auth_record kind prefix e rec c)"
proof (cases "domain_grant_mode (ar_context rec) = ''selected''")
  case False
  let ?d = "od_put (kind, prefix) (e, rec) (auth_cache c)"
  have "set (od_trim AUTH_CACHE_MAX_ENTRIES ?d) \<subseteq> set (auth_cache c) \<union> {((kind, prefix), (e, rec))}"
    using set_od_trim [of AUTH_CACHE_MAX_ENTRIES ?d] set_od_put [of "(kind, prefix)" "(e, rec)" "auth_cache c"] by blast
  then show ?thesis
    using assms False length_od_trim [of AUTH_CACHE_MAX_ENTRIES ?d]
    by (intro cache_okI [OF assms(1), where A = "{((kind, prefix), (e, rec))}" and U = "{}"])
      (simp_all add: put_auth_record_def cache_ok_def)
qed (use assms in \<open>simp add: put_auth_record_def\<close>)

lemma drop_expired_ok: "cache_ok K db pend c \<Longrightarrow> cache_ok K db pend (drop_expired_policies now c)"
  by (rule cache_okI [where A = "{}" and U = "{}" and c = c])
    (auto simp: drop_expired_policies_def cache_ok_def intro: order_trans [OF length_filter_le])

lemma store_load_ok:
  assumes inv: "key_inv K db" and c: "cache_ok K db pend c" and l: "loader_ok db pend (auth_cache_epoch c) l"
    and rec: "loaded_record K l = Some (Inr rec)"
  shows "cache_ok K db pend (store_authentication_record (l_now l) (l_epoch l) (l_kind l) (l_prefix l) rec c)"
proof (cases "l_epoch l = auth_cache_epoch c")
  case True
  obtain r ss ds ps where parts: "l_row l = Some r" "l_scopes l = Some ss" "l_domains l = Some ds" "l_patterns l = Some ps"
    and b: "build_record K r ss ds ps = Inr rec"
    using rec by (auto simp: loaded_record_def split: option.splits)
  note own = build_record_owner [OF b]
  have cur: "k_id r \<in> set pend \<or> parts_current db l r" and kind: "k_kind r = l_kind l"
    using l parts True by (auto simp: loader_ok_def)
  have "record_ok K db pend ((l_kind l, l_prefix l), (e, rec))" if "domain_grant_mode (ar_context rec) \<noteq> ''selected''" for e
  proof (cases "k_id r \<in> set pend")
    case False
    then have "parts_current db l r" using cur by blast
    then have "load_authentication_record K db (l_kind l) (l_prefix l) = Inr rec"
      using parts b kind own that by (simp add: parts_current_def load_authentication_record_def)
    then show ?thesis using own that by (simp add: record_ok_def)
  qed (use own that in \<open>simp add: record_ok_def\<close>)
  moreover have "policy_current db pend (k_id r) (ar_rate_limit rec, ar_cidrs rec, ar_status rec)"
  proof (cases "k_id r \<in> set pend")
    case False
    then have "prefix_row db (l_prefix l) = Some r" using cur by (simp add: parts_current_def)
    then obtain x where "key_row db (k_id r) = Some x" "r = auth_columns x" by (rule prefix_row_key [OF inv])
    then show ?thesis using own by (simp add: policy_current_def load_usage_policy_def)
  qed (simp add: policy_current_def)
  ultimately show ?thesis
    using c own True
    by (auto simp: store_authentication_record_def Let_def intro!: put_usage_policy_ok drop_expired_ok put_auth_record_ok)
qed (use c in \<open>simp add: store_authentication_record_def\<close>)

lemma usage_store_ok:
  assumes "cache_ok K db pend c" "usage_loader_ok db pend (auth_cache_epoch c) l" "ul_policy l = Some pol"
  shows "cache_ok K db pend (store_usage_policy now (ul_key l) pol (Some (ul_epoch l)) c)"
  using assms by (auto simp: store_usage_policy_def usage_loader_ok_def intro: put_usage_policy_ok)

text \<open>A write that changes one key, which is pending afterwards or did not exist before.\<close>

definition db_change :: "keylib \<Rightarrow> auth_db \<Rightarrow> int list \<Rightarrow> auth_db \<Rightarrow> int list \<Rightarrow> bool" where
  "db_change K db pend db' pend' \<longleftrightarrow>
     key_inv K db \<and> key_inv K db' \<and> set pend \<subseteq> set pend'
     \<and> (\<exists>i. auth_frame i db db' \<and> (i \<in> set pend' \<or> key_row db i = None))"

lemma policy_current_change:
  assumes "db_change K db pend db' pend'" "policy_current db pend i pol"
  shows "policy_current db' pend' i pol"
proof -
  obtain j where j: "auth_frame j db db'" "j \<in> set pend' \<or> key_row db j = None" "set pend \<subseteq> set pend'"
    using assms(1) by (auto simp: db_change_def)
  consider "i \<in> set pend" | "load_usage_policy db i = Some pol" "i = j" | "load_usage_policy db i = Some pol" "i \<noteq> j"
    using assms(2) by (auto simp: policy_current_def)
  then show ?thesis
  proof cases
    case 2
    then have "j \<in> set pend'" using j(2) by (auto simp: load_usage_policy_def)
    then show ?thesis using 2 by (simp add: policy_current_def)
  qed (use j usage_policy_frame in \<open>auto simp: policy_current_def\<close>)
qed

lemma record_ok_change:
  assumes ch: "db_change K db pend db' pend'" and ok: "record_ok K db pend e"
  shows "record_ok K db' pend' e"
proof -
  obtain kind prefix t rec where e: "e = ((kind, prefix), (t, rec))" by (cases e) auto
  obtain j where j: "auth_frame j db db'" "j \<in> set pend' \<or> key_row db j = None" "set pend \<subseteq> set pend'"
    and inv: "key_inv K db" "key_inv K db'"
    using ch by (auto simp: db_change_def)
  obtain i where mode: "domain_grant_mode (ar_context rec) \<noteq> ''selected''" and i: "api_key_id (ar_context rec) = Some i"
    and cur: "i \<in> set pend \<or> load_authentication_record K db kind prefix = Inr rec"
    using ok e by (auto simp: record_ok_def)
  have "i \<in> set pend' \<or> load_authentication_record K db' kind prefix = Inr rec"
  proof (cases "i \<in> set pend")
    case False
    then have load: "load_authentication_record K db kind prefix = Inr rec" using cur by blast
    show ?thesis
    proof (cases "i = j")
      case True
      from load obtain c where c: "prefix_row db prefix = Some c" and b: "build_record K c (granted_to (k_id c) (key_scopes db))
          (granted_to (k_id c) (key_domains db)) (granted_to (k_id c) (key_patterns db)) = Inr rec"
        by (rule load_record_row)
      have "k_id c = i" using build_record_owner [OF b] i by simp
      then have "key_row db i \<noteq> None" using c prefix_row_iff [OF inv(1)] by fastforce
      then show ?thesis using j(2) True by auto
    qed (use load_record_frame [OF inv j(1) load i _ mode] in blast)
  qed (use j(3) in blast)
  then show ?thesis using mode i e by (simp add: record_ok_def)
qed

lemma parts_current_change:
  assumes ch: "db_change K db pend db' pend'" and "k_id r \<in> set pend \<or> parts_current db l r"
  shows "k_id r \<in> set pend' \<or> parts_current db' l r"
proof -
  obtain j where j: "auth_frame j db db'" "j \<in> set pend' \<or> key_row db j = None" "set pend \<subseteq> set pend'"
    and inv: "key_inv K db" "key_inv K db'"
    using ch by (auto simp: db_change_def)
  show ?thesis
  proof (cases "k_id r \<in> set pend")
    case False
    then have cur: "parts_current db l r" using assms(2) by blast
    then have p: "prefix_row db (l_prefix l) = Some r" by (simp add: parts_current_def)
    obtain x where x: "key_row db (k_id r) = Some x" "r = auth_columns x" using inv(1) p by (rule prefix_row_key)
    show ?thesis
    proof (cases "k_id r = j")
      case True
      then show ?thesis using j(2) x(1) by auto
    next
      case False
      then show ?thesis
        using cur prefix_row_frame [OF inv j(1) p] granted_frame [OF j(1) x(1)] x(2)
        by (auto simp: parts_current_def)
    qed
  qed (use j(3) in blast)
qed

lemma change_inv:
  assumes inv: "auth_inv K s" and ch: "db_change K (as_db s) (pending s) db' pend'"
  shows "auth_inv K (s\<lparr>as_db := db', pending := pend'\<rparr>)"
proof -
  have "loader_ok db' pend' e l" if "loader_ok (as_db s) (pending s) e l" for e l
    using that parts_current_change [OF ch] by (auto simp: loader_ok_def split: option.splits)
  moreover have "usage_loader_ok db' pend' e l" if "usage_loader_ok (as_db s) (pending s) e l" for e l
    using that policy_current_change [OF ch] by (auto simp: usage_loader_ok_def)
  moreover have "key_inv K db'" using ch by (simp add: db_change_def)
  ultimately show ?thesis
    using inv record_ok_change [OF ch] policy_current_change [OF ch] by (simp add: auth_inv_def cache_ok_def)
qed

text \<open>The writes.\<close>

lemma op_frame:
  assumes "lib_ok K" "key_inv K db" "run_key_op K now P op db = Inr db'"
  shows "auth_frame (op_target db op) db db'"
proof -
  have frame: "load_key K db' j = load_key K db j" if "j \<noteq> op_target db op" for j
    using run_key_op_within [OF assms] that by (auto simp: changed_key_within_def)
  show ?thesis
    unfolding auth_frame_def
  proof (intro allI impI)
    fix j r assume j: "j \<noteq> op_target db op" and r: "key_row db j = Some r"
    have "load_key K db' j = Some (r, row_policy K db r)" using frame [OF j] r by (simp add: load_key_def)
    then have "key_row db' j = Some r" and p: "row_policy K db' r = row_policy K db r" by (auto simp: load_key_Some)
    moreover have "k_id r = j" using key_row_Some [OF r] by simp
    moreover have "granted_to (k_id r) (key_scopes db') = granted_to (k_id r) (key_scopes db)"
      "granted_to (k_id r) (key_patterns db') = granted_to (k_id r) (key_patterns db)"
      "granted_to (k_id r) (key_domains db') = granted_to (k_id r) (key_domains db)"
      using arg_cong [OF p, of kp_scopes] arg_cong [OF p, of kp_mailbox_patterns] arg_cong [OF p, of kp_domain_ids]
      by (simp_all add: row_policy_def)
    ultimately show "(\<exists>r'. key_row db' j = Some r' \<and> auth_columns r' = auth_columns r)
        \<and> granted_to j (key_scopes db') = granted_to j (key_scopes db)
        \<and> granted_to j (key_patterns db') = granted_to j (key_patterns db)
        \<and> (k_grant_mode r \<noteq> ''selected'' \<longrightarrow> granted_to j (key_domains db') = granted_to j (key_domains db))" by simp
  qed
qed

lemma fresh_key_row: "key_inv K db \<Longrightarrow> key_row db (key_sequence db + 1) = None"
  using fresh_key_id(1) [of K db] unfolding key_row_def find_None_iff by (metis imageI)

lemma touch_rows:
  "\<exists>g. key_rows (touch_usage now ip i db) = map g (key_rows db)
     \<and> (\<forall>r. auth_columns (g r) = auth_columns r \<and> k_expires_at (g r) = k_expires_at r)"
  unfolding touch_usage_def
  by (rule exI [of _ "\<lambda>r. if k_id r = i \<and> k_status r = ''active''
        then r\<lparr>k_last_used_at := Some now,
               k_last_used_ip := (case ip of None \<Rightarrow> k_last_used_ip r | Some a \<Rightarrow> Some a)\<rparr> else r"])
    (simp add: auth_columns_def)

lemma touch_change:
  assumes "key_inv K db"
  shows "db_change K db pend (touch_usage now ip i db) pend"
proof -
  let ?db = "touch_usage now ip i db"
  obtain g where g: "key_rows ?db = map g (key_rows db)" "\<And>r. auth_columns (g r) = auth_columns r"
    "\<And>r. k_expires_at (g r) = k_expires_at r" using touch_rows by blast
  note cols = auth_columns_eqD [OF g(2)]
  have tables: "key_scopes ?db = key_scopes db" "key_domains ?db = key_domains db" "key_patterns ?db = key_patterns db"
    "key_sequence ?db = key_sequence db" "domain_keys ?db = domain_keys db" by (simp_all add: touch_usage_def)
  have "key_wf K ?db (g r) = key_wf K db r" for r by (simp add: key_wf_def tables cols g(3))
  moreover have "k_id ` set (key_rows ?db) = k_id ` set (key_rows db)" by (simp add: g(1) cols image_image)
  ultimately have inv: "key_inv K ?db" using assms by (simp add: key_inv_def grants_ok_def tables g(1) o_def cols)
  have "find (\<lambda>r. k_id r = j) (map g rs) = map_option g (find (\<lambda>r. k_id r = j) rs)" for j rs
    by (induction rs) (auto simp: cols)
  then have "key_row ?db j = map_option g (key_row db j)" for j by (simp add: key_row_def g(1))
  then have "auth_frame (key_sequence db + 1) db ?db" by (auto simp: auth_frame_def tables g(2))
  then show ?thesis using assms inv fresh_key_row by (auto simp: db_change_def)
qed

lemma granted_sub_none: "set rows' \<subseteq> set rows \<Longrightarrow> granted_to i rows = [] \<Longrightarrow> granted_to i rows' = []"
  by (metis set_granted empty_iff mem_Collect_eq subsetD set_empty2 subsetI subset_empty empty_set)

lemma drop_domain_change:
  assumes "key_inv K db"
  shows "db_change K db pend (drop_domain d db) pend"
proof -
  let ?db = "drop_domain d db"
  have tables: "key_rows ?db = key_rows db" "key_scopes ?db = key_scopes db" "key_patterns ?db = key_patterns db"
    "key_sequence ?db = key_sequence db" by (simp_all add: drop_domain_def)
  have none: "granted_to i (key_domains db) = [] \<Longrightarrow> granted_to i (key_domains ?db) = []" for i
    by (rule granted_sub_none) (auto simp: drop_domain_def)
  have "key_wf K ?db r" if "r \<in> set (key_rows db)" for r
    using key_invD(4) [OF assms that] none by (simp add: key_wf_def tables)
  moreover have "grants_ok ?db (key_domains ?db)" using key_invD(6) [OF assms] by (auto simp: grants_ok_def drop_domain_def)
  moreover have "snd ` set (key_domains ?db) \<subseteq> set (domain_keys ?db)"
    using key_invD(8) [OF assms] by (auto simp: drop_domain_def)
  ultimately have inv: "key_inv K ?db"
    using assms unfolding key_inv_def tables by (auto simp: grants_ok_def tables)
  have "granted_to j (key_domains ?db) = granted_to j (key_domains db)"
    if "key_row db j = Some r" "k_grant_mode r \<noteq> ''selected''" for j r
    using key_invD(4) [OF assms] key_row_Some [OF that(1)] that(2) none [of j] by (auto simp: key_wf_def)
  then have "auth_frame (key_sequence db + 1) db ?db" by (auto simp: auth_frame_def tables key_row_def)
  then show ?thesis using assms inv fresh_key_row by (auto simp: db_change_def)
qed

lemma add_domain_change:
  assumes "key_inv K db"
  shows "db_change K db pend (db\<lparr>domain_keys := d # domain_keys db\<rparr>) pend"
proof -
  have "key_inv K (db\<lparr>domain_keys := d # domain_keys db\<rparr>)"
    using assms by (auto simp: key_inv_def grants_ok_def key_wf_def)
  moreover have "auth_frame (key_sequence db + 1) db (db\<lparr>domain_keys := d # domain_keys db\<rparr>)"
    by (simp add: auth_frame_def key_row_def)
  ultimately show ?thesis using assms fresh_key_row by (auto simp: db_change_def)
qed


lemma op_change:
  assumes "lib_ok K" "key_inv K db" "run_key_op K now P op db = Inr db'"
    and "op_target db op \<in> set pend' \<or> (\<exists>f q. op = CreateKey f q)" "set pend \<subseteq> set pend'"
  shows "db_change K db pend db' pend'"
proof -
  have "op_target db op \<in> set pend' \<or> key_row db (op_target db op) = None"
    using assms(4) fresh_key_row [OF assms(2)] by auto
  then show ?thesis
    using assms(2,5) run_key_op_inv [OF assms(1-3)] op_frame [OF assms(1-3)] unfolding db_change_def by blast
qed

text \<open>The steps of the caches.\<close>

lemma auth_invD:
  assumes "auth_inv K s"
  shows "key_inv K (as_db s)" "cache_ok K (as_db s) (pending s) (as_cache s)"
    "l \<in> set (loaders s) \<Longrightarrow> loader_ok (as_db s) (pending s) (auth_cache_epoch (as_cache s)) l"
    "m \<in> set (usage_loaders s) \<Longrightarrow> usage_loader_ok (as_db s) (pending s) (auth_cache_epoch (as_cache s)) m"
  using assms by (auto simp: auth_inv_def)

lemma cache_inv:
  assumes "auth_inv K s" "cache_ok K (as_db s) (pending s) c" "auth_cache_epoch c = auth_cache_epoch (as_cache s)"
  shows "auth_inv K (s\<lparr>as_cache := c\<rparr>)"
  using assms by (simp add: auth_inv_def)

lemma epoch_kept [simp]:
  "auth_cache_epoch (snd (cached_authentication_record t kind prefix c)) = auth_cache_epoch c"
  "auth_cache_epoch (snd (cached_usage_policy t i c)) = auth_cache_epoch c"
  "auth_cache_epoch (store_usage_policy t i pol e c) = auth_cache_epoch c"
  "auth_cache_epoch (store_authentication_record t n kind prefix rec c) = auth_cache_epoch c"
  "auth_cache_epoch (snd (usage_section i t rate c)) = auth_cache_epoch c"
  by (simp_all add: cached_authentication_record_def cached_usage_policy_def store_usage_policy_def put_usage_policy_def
      store_authentication_record_def drop_expired_policies_def put_auth_record_def usage_section_def Let_def
      split: option.splits prod.splits bool.splits)

lemma usage_section_caches [simp]:
  "auth_cache (snd (usage_section i t rate c)) = auth_cache c"
  "usage_policy_cache (snd (usage_section i t rate c)) = usage_policy_cache c"
  by (simp_all add: usage_section_def split: prod.splits bool.splits)

lemma invalidate_inv:
  assumes inv: "auth_inv K s"
  shows "auth_inv K (s\<lparr>as_cache := invalidate_key_cache i (as_cache s), pending := remove1 i (pending s)\<rparr>)"
proof -
  let ?c = "invalidate_key_cache i (as_cache s)" and ?p = "remove1 i (pending s)"
  have rest: "j \<in> set ?p" if "j \<in> set (pending s)" "j \<noteq> i" for j using that by (simp add: in_set_remove1)
  note ok = auth_invD [OF inv]
  have "record_ok K (as_db s) ?p e" if "e \<in> set (auth_cache ?c)" for e
    using that ok(2) rest by (fastforce simp: invalidate_key_cache_def cache_ok_def record_ok_def)
  moreover have "policy_current (as_db s) ?p (fst e) (snd (snd e))" if "e \<in> set (usage_policy_cache ?c)" for e
    using that ok(2) rest by (auto simp: invalidate_key_cache_def cache_ok_def policy_current_def od_pop_def)
  moreover have "length (auth_cache ?c) \<le> AUTH_CACHE_MAX_ENTRIES" "length (usage_policy_cache ?c) \<le> AUTH_CACHE_MAX_ENTRIES"
    using ok(2) by (auto simp: invalidate_key_cache_def cache_ok_def od_pop_def intro: order_trans [OF length_filter_le])
  moreover have "loader_ok (as_db s) ?p (auth_cache_epoch ?c) l" if "l \<in> set (loaders s)" for l
    using ok(3) [OF that] by (auto simp: loader_ok_def invalidate_key_cache_def split: option.splits)
  moreover have "usage_loader_ok (as_db s) ?p (auth_cache_epoch ?c) l" if "l \<in> set (usage_loaders s)" for l
    using ok(4) [OF that] by (auto simp: usage_loader_ok_def invalidate_key_cache_def)
  ultimately show ?thesis using ok(1) by (simp add: auth_inv_def cache_ok_def)
qed

lemma next_query_ok:
  assumes "loader_ok db pend e l" "next_query db l = Some l'"
  shows "loader_ok db pend e l'"
proof (cases "l_row l")
  case None
  then obtain r where "prefix_row db (l_prefix l) = Some r" "k_kind r = l_kind l" "l' = l\<lparr>l_row := Some r\<rparr>"
    using assms(2) by (auto simp: next_query_def split: option.splits if_splits)
  then show ?thesis using assms(1) None by (simp add: loader_ok_def parts_current_def)
next
  case (Some r)
  then show ?thesis
    using assms by (auto simp: next_query_def loader_ok_def parts_current_def split: if_splits)
qed

lemma set_removed: "set (take n xs @ drop (Suc n) xs) \<subseteq> set xs"
  by (auto dest: in_set_takeD in_set_dropD)

lemma auth_step_inv:
  assumes "lib_ok K" "auth_inv K s" "auth_step K s t"
  shows "auth_inv K t"
  using assms(3)
proof cases
  case (lookup kind prefix)
  then show ?thesis using cache_inv [OF assms(2) lookup_ok [OF auth_invD(2) [OF assms(2)]]] by simp
next
  case (query n l)
  have "loader_ok (as_db s) (pending s) (auth_cache_epoch (as_cache s)) l"
    using query auth_invD(3) [OF assms(2)] next_query_ok by (meson nth_mem)
  then show ?thesis using query assms(2) set_update_subset_insert [of "loaders s" n l] by (auto simp: auth_inv_def)
next
  case (leave_load n)
  then show ?thesis using assms(2) set_removed [of n "loaders s"] by (auto simp: auth_inv_def)
next
  case (store_load l rec)
  then show ?thesis
    using cache_inv [OF assms(2) store_load_ok [OF auth_invD(1,2) [OF assms(2)] auth_invD(3) [OF assms(2)]]] by simp
next
  case (usage_lookup i)
  then show ?thesis using cache_inv [OF assms(2) usage_lookup_ok [OF auth_invD(2) [OF assms(2)]]] by simp
next
  case (usage_query n)
  let ?l = "(usage_loaders s ! n)\<lparr>ul_policy := load_usage_policy (as_db s) (ul_key (usage_loaders s ! n))\<rparr>"
  have "usage_loader_ok (as_db s) (pending s) (auth_cache_epoch (as_cache s)) ?l"
    using auth_invD(4) [OF assms(2) nth_mem [OF usage_query(2)]] by (simp add: usage_loader_ok_def policy_current_def)
  then show ?thesis
    using usage_query assms(2) set_update_subset_insert [of "usage_loaders s" n ?l] by (auto simp: auth_inv_def)
next
  case (usage_leave n)
  then show ?thesis using assms(2) set_removed [of n "usage_loaders s"] by (auto simp: auth_inv_def)
next
  case (usage_store l pol)
  then show ?thesis
    using cache_inv [OF assms(2) usage_store_ok [OF auth_invD(2) [OF assms(2)] auth_invD(4) [OF assms(2)]]] by simp
next
  case (usage_count i rate)
  then show ?thesis using cache_inv [OF assms(2) cache_ok_same [OF auth_invD(2) [OF assms(2)]]] by simp
next
  case (usage_failed i)
  then show ?thesis using cache_inv [OF assms(2) cache_ok_same [OF auth_invD(2) [OF assms(2)]]] by simp
next
  case (usage_touch now ip i)
  then show ?thesis using change_inv [OF assms(2) touch_change [OF auth_invD(1) [OF assms(2)]]] by simp
next
  case (domain_deleted d)
  then show ?thesis using change_inv [OF assms(2) drop_domain_change [OF auth_invD(1) [OF assms(2)]]] by simp
next
  case (domain_created d)
  then show ?thesis using change_inv [OF assms(2) add_domain_change [OF auth_invD(1) [OF assms(2)]]] by simp
next
  case (create now P f q db)
  then show ?thesis
    using change_inv [OF assms(2) op_change [OF assms(1) auth_invD(1) [OF assms(2)] create(2), of "pending s"]] by simp
next
  case (change op now P db)
  then show ?thesis
    using change_inv [OF assms(2) op_change [OF assms(1) auth_invD(1) [OF assms(2)] change(3),
          of "op_target (as_db s) op # pending s" "pending s"]] by auto
next
  case (invalidate i)
  then show ?thesis using invalidate_inv [OF assms(2)] by simp
qed (use assms(2) in \<open>auto simp: auth_inv_def start_load_def loader_ok_def usage_loader_ok_def\<close>)

definition auth_start :: "keylib \<Rightarrow> auth_state \<Rightarrow> bool" where
  "auth_start K s \<longleftrightarrow>
     key_inv K (as_db s) \<and> as_cache s = key_cache_init \<and> loaders s = [] \<and> usage_loaders s = [] \<and> pending s = []"

lemma auth_start_inv: "auth_start K s \<Longrightarrow> auth_inv K s"
  by (simp add: auth_start_def auth_inv_def key_cache_init_def cache_ok_def)

interpretation auth_sys: step_system "auth_start K" "auth_step K" "\<lambda>s. lib_ok K \<longrightarrow> auth_inv K s" for K
  by unfold_locales (use auth_start_inv auth_step_inv in blast)+

lemma cached_record_current:
  assumes "auth_inv K s" "cached_authentication_record t kind prefix (as_cache s) = (Some rec, c)"
  shows "\<exists>i. api_key_id (ar_context rec) = Some i
    \<and> (i \<in> set (pending s) \<or> load_authentication_record K (as_db s) kind prefix = Inr rec)"
proof -
  obtain e where "map_of (auth_cache (as_cache s)) (kind, prefix) = Some (e, rec)"
    using assms(2) by (auto simp: cached_authentication_record_def split: option.splits if_splits)
  then have "record_ok K (as_db s) (pending s) ((kind, prefix), (e, rec))"
    using auth_invD(2) [OF assms(1)] map_of_SomeD unfolding cache_ok_def by fast
  then show ?thesis by (auto simp: record_ok_def)
qed

lemma cached_policy_current:
  assumes "auth_inv K s" "cached_usage_policy t i (as_cache s) = (Some pol, c)"
  shows "i \<in> set (pending s) \<or> load_usage_policy (as_db s) i = Some pol"
proof -
  obtain e where "map_of (usage_policy_cache (as_cache s)) i = Some (e, pol)"
    using assms(2) by (auto simp: cached_usage_policy_def split: option.splits if_splits)
  then show ?thesis
    using auth_invD(2) [OF assms(1)] map_of_SomeD unfolding cache_ok_def policy_current_def by fastforce
qed

section \<open>Stored keys authenticate\<close>

lemma load_record_wf:
  assumes "lib_ok K" "key_inv K db" "key_row db i = Some r"
  shows "\<exists>rec. load_authentication_record K db (k_kind r) (k_prefix r) = Inr rec
     \<and> ar_context rec = policy_context r (row_policy K db r) (kp_scopes (row_policy K db r))
         (kp_mailbox_patterns (row_policy K db r)) (kp_allowed_ip_cidrs (row_policy K db r))
     \<and> ar_secret_hash rec = k_secret_hash r \<and> ar_status rec = k_status r \<and> ar_allow_header rec = k_allow_header r
     \<and> ar_allow_query rec = k_allow_query r \<and> ar_cidrs rec = k_cidrs r \<and> ar_expires_at rec = k_expires_at r"
proof -
  note r = key_row_Some [OF assms(3)]
  note wf = key_invD(4) [OF assms(2) conjunct1 [OF r], unfolded key_wf_def]
  obtain cs where cs: "k_cidrs r = dump_cidrs cs" "normalize_ip_cidrs K cs = Inr cs" using wf by blast
  have "prefix_row db (k_prefix r) = Some (auth_columns r)"
    unfolding prefix_row_iff [OF assms(2)] using assms(3) r by auto
  then show ?thesis
    using wf cs decode_dump [OF assms(1) cs(2)]
    by (simp add: load_authentication_record_def build_record_def or_lookup_error_def auth_columns_def row_policy_def
        policy_context_def)
qed

lemma split_max_app: "d \<notin> set a \<Longrightarrow> split_max d (Suc n) (a @ d # s) = a # split_max d n s"
  by (simp add: dropWhile_append takeWhile_append)

lemma kinds_plain: "kind \<in> set VALID_API_KEY_KINDS \<Longrightarrow> CHR ''_'' \<notin> set kind \<and> kind \<noteq> []"
  by (auto simp: VALID_API_KEY_KINDS_def)

lemma parse_made_key:
  assumes "kind \<in> set VALID_API_KEY_KINDS" "CHR ''_'' \<notin> set prefix" "prefix \<noteq> []" "secret \<noteq> []"
    and "length (''ri_'' @ kind @ ''_'' @ prefix @ ''_'' @ secret) \<le> 512"
  shows "parse_plain_text (''ri_'' @ kind @ ''_'' @ prefix @ ''_'' @ secret) = Inr (kind, prefix, secret)"
proof -
  let ?d = "CHR ''_''"
  have "split_max ?d 3 (''ri'' @ ?d # (kind @ ?d # (prefix @ ?d # secret))) = [''ri'', kind, prefix, secret]"
    using kinds_plain [OF assms(1)] assms(2)
    by (simp only: numeral_3_eq_3 split_max_app [of ?d "''ri''"] split_max_app [of ?d kind] split_max_app [of ?d prefix])
      (simp add: split_max_app [simplified])
  then show ?thesis using assms(1,3-5) by (simp add: parse_plain_text_def)
qed

lemma new_key_columns:
  assumes "r = (new_key_row K now f q name description p)\<lparr>k_id := i\<rparr>"
  shows "k_id r = i" "k_kind r = kr_kind q" "k_prefix r = f_prefix f" "k_secret_hash r = sha256_hex K (f_secret f)"
    "k_status r = kr_status q" "k_allow_header r = kp_allow_header p" "k_expires_at r = kp_expires_at p"
    "k_cidrs r = dump_cidrs (kp_allowed_ip_cidrs p)" "k_grant_mode r = kp_domain_grant_mode p"
    "k_rate_limit r = kp_rate_limit_per_min p" "k_allow_query r = kp_allow_query p"
  using assms by (simp_all add: new_key_row_def make_api_key_def)

section \<open>The token bucket\<close>

text \<open>What happens to the buckets: a use of a key under a rate limit, and the invalidation a management call ends with.\<close>

datatype usage_event = Use int rat int | Invalidate int

definition usage_event_step :: "usage_event \<Rightarrow> key_cache \<Rightarrow> bool \<times> key_cache" where
  "usage_event_step e c =
     (case e of
        Use i t rate \<Rightarrow> (case usage_section i t rate c of (Inl _, c') \<Rightarrow> (False, c') | (Inr _, c') \<Rightarrow> (True, c'))
      | Invalidate i \<Rightarrow> (False, invalidate_key_cache i c))"

fun usage_run :: "usage_event list \<Rightarrow> key_cache \<Rightarrow> key_cache" where
  "usage_run [] c = c"
| "usage_run (e # es) c = usage_run es (snd (usage_event_step e c))"

text \<open>How many uses of a key were let through, and how often its bucket was lost.\<close>

fun is_use :: "int \<Rightarrow> usage_event \<Rightarrow> bool" where
  "is_use i (Use j t rate) \<longleftrightarrow> j = i"
| "is_use i (Invalidate j) \<longleftrightarrow> False"

fun let_through :: "int \<Rightarrow> usage_event list \<Rightarrow> key_cache \<Rightarrow> nat" where
  "let_through i [] c = 0"
| "let_through i (e # es) c =
     (if is_use i e \<and> fst (usage_event_step e c) then 1 else 0) + let_through i es (snd (usage_event_step e c))"

abbreviation bucket :: "key_cache \<Rightarrow> int \<Rightarrow> (rat \<times> rat) option" where
  "bucket c i \<equiv> map_of (usage_buckets c) i"

fun bucket_losses :: "int \<Rightarrow> usage_event list \<Rightarrow> key_cache \<Rightarrow> nat" where
  "bucket_losses i [] c = 0"
| "bucket_losses i (e # es) c =
     (if bucket c i \<noteq> None \<and> bucket (snd (usage_event_step e c)) i = None then 1 else 0)
     + bucket_losses i es (snd (usage_event_step e c))"

text \<open>The clock of the uses, and the keys used.\<close>

fun use_times :: "usage_event list \<Rightarrow> rat list" where
  "use_times [] = []"
| "use_times (Use i t rate # es) = t # use_times es"
| "use_times (Invalidate i # es) = use_times es"

fun used_keys :: "usage_event list \<Rightarrow> int set" where
  "used_keys [] = {}"
| "used_keys (Use i t rate # es) = insert i (used_keys es)"
| "used_keys (Invalidate i # es) = used_keys es"

lemma use_times_append: "use_times (es @ es') = use_times es @ use_times es'"
  by (induction es rule: use_times.induct) auto

lemma used_keys_append: "used_keys (es @ es') = used_keys es \<union> used_keys es'"
  by (induction es rule: used_keys.induct) auto

lemma finite_used_keys: "finite (used_keys es)"
  by (induction es rule: used_keys.induct) auto

lemma map_of_od_pop: "map_of (od_pop k d) x = (if x = k then None else map_of d x)"
  by (induction d) (auto simp: od_pop_def)

lemma map_of_od_put: "map_of (od_put k v d) x = (if x = k then Some v else map_of d x)"
  by (simp add: od_put_def map_add_def map_of_od_pop split: option.splits)

lemma keys_of_put: "fst ` set (od_put k v d) = insert k (fst ` set d)"
  and keys_of_pop: "fst ` set (od_pop k d) = fst ` set d - {k}"
  using keys_put [of k v d] keys_pop [of k d] by simp_all

text \<open>Trimming keeps the bucket just written.\<close>

lemma map_of_trim_put: "0 < n \<Longrightarrow> map_of (od_trim n (od_put k v d)) k = Some v"
proof -
  assume "0 < n"
  moreover have "map_of (drop m (od_pop k d)) k = None" for m
    by (auto simp: map_of_eq_None_iff od_pop_def dest: in_set_dropD)
  ultimately show ?thesis by (simp add: od_trim_def od_put_def map_add_def)
qed

text \<open>The buckets: one per key, never overdrawn, last refilled in the past.\<close>

definition buckets_ok :: "rat \<Rightarrow> key_cache \<Rightarrow> bool" where
  "buckets_ok now c \<longleftrightarrow> distinct (map fst (usage_buckets c))
     \<and> (\<forall>i tok t. bucket c i = Some (tok, t) \<longrightarrow> 0 \<le> tok \<and> t \<le> now)"

lemma buckets_ok_later: "buckets_ok now c \<Longrightarrow> now \<le> now' \<Longrightarrow> buckets_ok now' c"
  unfolding buckets_ok_def by (meson order_trans)

lemma bucket_tokens_bounds:
  assumes "0 < rate" and "\<And>tok t0. b = Some (tok, t0) \<Longrightarrow> 0 \<le> tok \<and> t0 \<le> s" and "s \<le> t"
  shows "0 \<le> bucket_tokens rate t b" and "bucket_tokens rate t b \<le> of_int rate"
    and "bucket_tokens rate t b \<le> bucket_tokens rate s b + of_int rate / 60 * (t - s)"
proof -
  let ?k = "of_int rate / 60 :: rat"
  have k: "0 \<le> ?k" "0 \<le> (of_int rate :: rat)" using assms(1) by simp_all
  show "0 \<le> bucket_tokens rate t b" "bucket_tokens rate t b \<le> of_int rate"
    using assms k by (auto simp: bucket_tokens_def Let_def split: option.splits prod.splits)
  show "bucket_tokens rate t b \<le> bucket_tokens rate s b + ?k * (t - s)"
  proof (cases b)
    case None
    then show ?thesis using k assms(3) by (simp add: bucket_tokens_def)
  next
    case (Some x)
    obtain tok t0 where x: "x = (tok, t0)" by (cases x)
    have t0: "t0 \<le> s" using assms(2) Some x by blast
    have "tok + (t - t0) * ?k = (tok + (s - t0) * ?k) + ?k * (t - s)" by (simp add: field_simps)
    moreover have "min r (a + d) \<le> min r a + d" if "0 \<le> d" for r a d :: rat using that by (simp add: min_def)
    moreover have "0 \<le> ?k * (t - s)" using k assms(3) by simp
    ultimately have "min (of_int rate) (tok + (t - t0) * ?k) \<le> min (of_int rate) (tok + (s - t0) * ?k) + ?k * (t - s)"
      by metis
    then show ?thesis using t0 assms(3) by (simp add: Some x bucket_tokens_def Let_def)
  qed
qed

lemma bucket_tokens_now: "tok \<le> of_int rate \<Longrightarrow> bucket_tokens rate t (Some (tok, t)) = tok"
  by (simp add: bucket_tokens_def)

text \<open>One use: the key's own bucket, and the buckets of the other keys.\<close>

lemma use_step:
  assumes ok: "buckets_ok s c" and st: "s \<le> t" and step: "usage_event_step (Use i t rate) c = (acc, c')"
  shows "buckets_ok t c'"
    and "0 < rate \<Longrightarrow> acc = (1 \<le> bucket_tokens rate t (bucket c i))
      \<and> bucket c' i = Some (bucket_tokens rate t (bucket c i) - (if acc then 1 else 0), t)"
    and "j \<noteq> i \<Longrightarrow> bucket c' j = None \<or> bucket c' j = bucket c j"
    and "j \<noteq> i \<Longrightarrow> bucket c' j \<noteq> bucket c j \<Longrightarrow> USAGE_STATE_MAX_ENTRIES < card (insert i (fst ` set (usage_buckets c)))"
    and "fst ` set (usage_buckets c') \<subseteq> insert i (fst ` set (usage_buckets c))"
proof -
  let ?v = "bucket_tokens rate t (bucket c i)" and ?b = "usage_buckets c" and ?n = USAGE_STATE_MAX_ENTRIES
  have d: "distinct (map fst ?b)" using ok by (simp add: buckets_ok_def)
  have t: "take_token i t rate ?b = (acc, usage_buckets c')"
    using step by (auto simp: usage_event_step_def usage_section_def split: prod.splits sum.splits bool.splits)
  have n: "0 < ?n" by (simp add: USAGE_STATE_MAX_ENTRIES_def)
  have v: "0 \<le> ?v" if "0 < rate"
    using bucket_tokens_bounds(1) [OF that _ st] ok unfolding buckets_ok_def by blast
  have b': "usage_buckets c' = (if rate \<le> 0 then od_pop i ?b
      else if ?v < 1 then od_put i (?v, t) ?b else od_trim ?n (od_put i (?v - 1, t) ?b))" "rate \<le> 0 \<or> acc = (1 \<le> ?v)"
    using t by (auto simp: take_token_def Let_def split: if_splits)
  have dp: "distinct (map fst (od_put i w ?b))" for w using distinct_put [OF d] .
  show own: "acc = (1 \<le> ?v) \<and> bucket c' i = Some (?v - (if acc then 1 else 0), t)" if "0 < rate"
    using b' that map_of_trim_put [OF n] by (auto simp: map_of_od_put)
  show other: "bucket c' j = None \<or> bucket c' j = bucket c j" if "j \<noteq> i" for j
    using map_of_trim [OF dp, of ?n "(?v - 1, t)" j] that unfolding b'(1)
    by (auto simp: map_of_od_put map_of_od_pop split: if_splits)
  have "bucket c' i = None" if "\<not> 0 < rate" using b'(1) that by (simp add: map_of_od_pop)
  then have "\<forall>tok s'. bucket c' i = Some (tok, s') \<longrightarrow> 0 \<le> tok \<and> s' \<le> t"
    using own v by (cases "0 < rate") (auto split: if_splits)
  moreover have "0 \<le> tok \<and> s' \<le> t" if "bucket c j = Some (tok, s')" for j tok s'
    using ok st that unfolding buckets_ok_def by (meson order_trans)
  moreover have "distinct (map fst (usage_buckets c'))"
    unfolding b'(1) using distinct_pop [OF d] dp distinct_trim [OF dp] by auto
  ultimately show "buckets_ok t c'" using other unfolding buckets_ok_def by (metis option.distinct(1))
  show "fst ` set (usage_buckets c') \<subseteq> insert i (fst ` set ?b)"
    unfolding b'(1) using image_mono [OF set_od_trim [of ?n "od_put i (?v - 1, t) ?b"], of fst]
    by (simp add: keys_of_put keys_of_pop) blast
  show "?n < card (insert i (fst ` set ?b))" if "j \<noteq> i" "bucket c' j \<noteq> bucket c j"
  proof (rule ccontr)
    assume "\<not> ?n < card (insert i (fst ` set ?b))"
    moreover have "length (od_put i w ?b) = card (insert i (fst ` set ?b))" for w
      using distinct_card [OF dp [of w]] keys_put [of i w ?b] by simp
    ultimately have "od_trim ?n (od_put i w ?b) = od_put i w ?b" for w by (intro trim_id) simp
    then show False using that unfolding b'(1) by (auto simp: map_of_od_put map_of_od_pop split: if_splits)
  qed
qed

lemma invalidate_step:
  assumes ok: "buckets_ok t c" and step: "usage_event_step (Invalidate i) c = (acc, c')"
  shows "buckets_ok t c'" and "bucket c' j = (if j = i then None else bucket c j)"
    and "fst ` set (usage_buckets c') \<subseteq> fst ` set (usage_buckets c)"
  using assms distinct_pop set_od_pop [of i "usage_buckets c"]
  by (auto simp: usage_event_step_def invalidate_key_cache_def buckets_ok_def map_of_od_pop split: if_splits)

text \<open>A period in which every use of the key is measured by the same rate.\<close>

definition period_ok :: "int \<Rightarrow> int \<Rightarrow> rat \<Rightarrow> rat \<Rightarrow> usage_event list \<Rightarrow> bool" where
  "period_ok i rate t0 t1 es \<longleftrightarrow> t0 \<le> t1 \<and> sorted (use_times es) \<and> (\<forall>t \<in> set (use_times es). t0 \<le> t \<and> t \<le> t1)
     \<and> (\<forall>t x. Use i t x \<in> set es \<longrightarrow> x = rate)"

lemma period_Use: "period_ok i rate t0 t1 (Use j t x # es) \<Longrightarrow> period_ok i rate t t1 es \<and> t0 \<le> t \<and> t \<le> t1 \<and> (j = i \<longrightarrow> x = rate)"
  by (auto simp: period_ok_def)

lemma period_Invalidate: "period_ok i rate t0 t1 (Invalidate j # es) \<Longrightarrow> period_ok i rate t0 t1 es"
  by (auto simp: period_ok_def)

text \<open>From any state of the buckets: the tokens at hand, the refill, and a full bucket for every loss.\<close>

lemma bucket_bound:
  assumes "0 < rate" and "period_ok i rate t0 t1 es" and "buckets_ok t0 c"
  shows "of_nat (let_through i es c) \<le>
    bucket_tokens rate t0 (bucket c i) + of_int rate * of_nat (bucket_losses i es c) + of_int rate / 60 * (t1 - t0)"
  using assms(2-)
proof (induction es arbitrary: c t0)
  case Nil
  then show ?case
    using assms(1) bucket_tokens_bounds(1) [OF assms(1), of "bucket c i" t0 t0] by (auto simp: period_ok_def buckets_ok_def)
next
  case (Cons e es)
  let ?k = "of_int rate / 60 :: rat" and ?R = "of_int rate :: rat" and ?b = "bucket c i"
  obtain acc c' where st: "usage_event_step e c = (acc, c')" by fastforce
  have own: "0 \<le> tok \<and> t \<le> t0" if "bucket c i = Some (tok, t)" for tok t
    using Cons.prems(2) that unfolding buckets_ok_def by blast
  note nonneg = bucket_tokens_bounds(1) [where b = ?b, OF assms(1) own order_refl]
  have full: "bucket_tokens rate t' None = ?R" for t' by (simp add: bucket_tokens_def Let_def)
  have lost: "let_through i (e # es) c = let_through i es c'"
    "?R * of_nat (bucket_losses i (e # es) c) = ?R + ?R * of_nat (bucket_losses i es c')"
    if "\<not> is_use i e" "bucket c' i = None" "bucket c i \<noteq> None"
    using that by (auto simp: st algebra_simps)
  show ?case
  proof (cases e)
    case (Use j t x)
    note ok = period_Use [OF Cons.prems(1) [unfolded Use]]
    note u = use_step [OF Cons.prems(2) _ st [unfolded Use]]
    have "t0 \<le> t" using ok by blast
    note bt = bucket_tokens_bounds [where b = ?b, OF assms(1) own \<open>t0 \<le> t\<close>]
    have IH: "of_nat (let_through i es c') \<le> bucket_tokens rate t (bucket c' i) + ?R * of_nat (bucket_losses i es c') + ?k * (t1 - t)"
      using Cons.IH ok u(1) by blast
    have split: "?k * (t1 - t0) = ?k * (t1 - t) + ?k * (t - t0)" by (simp add: field_simps)
    show ?thesis
    proof (cases "j = i")
      case True
      have o: "acc = (1 \<le> bucket_tokens rate t (bucket c i))"
        "bucket c' i = Some (bucket_tokens rate t (bucket c i) - (if acc then 1 else 0), t)"
        using u(2) ok True assms(1) by auto
      have "bucket_tokens rate t (bucket c' i) = bucket_tokens rate t (bucket c i) - (if acc then 1 else 0)"
        unfolding o(2) using bt(2) by (intro bucket_tokens_now) simp
      moreover have "is_use i e" using Use True by simp
      ultimately show ?thesis using IH bt(3) split o(2) by (cases acc) (simp_all add: st add_divide_distrib)
    next
      case False
      have nu: "\<not> is_use i e" using False Use by simp
      consider "bucket c' i = bucket c i" | "bucket c' i = None" "bucket c i \<noteq> None"
        using u(3) [OF \<open>t0 \<le> t\<close> False [symmetric]] by metis
      then show ?thesis
      proof cases
        case 1
        then have "bucket_losses i (e # es) c = bucket_losses i es c'" "let_through i (e # es) c = let_through i es c'"
          using nu by (auto simp: st)
        then show ?thesis using IH bt(3) split 1 by (simp add: add_divide_distrib)
      next
        case 2
        have "0 \<le> ?k * (t - t0)" using assms(1) ok by simp
        then show ?thesis using IH nonneg split lost [OF nu 2] 2(1) by (simp add: full add_divide_distrib del: let_through.simps bucket_losses.simps)
      qed
    qed
  next
    case (Invalidate j)
    note v = invalidate_step [OF Cons.prems(2) st [unfolded Invalidate]]
    have IH: "of_nat (let_through i es c') \<le> bucket_tokens rate t0 (bucket c' i) + ?R * of_nat (bucket_losses i es c') + ?k * (t1 - t0)"
      using Cons.IH period_Invalidate [OF Cons.prems(1) [unfolded Invalidate]] v(1) by blast
    have nu: "\<not> is_use i e" using Invalidate by simp
    show ?thesis
    proof (cases "j = i \<and> bucket c i \<noteq> None")
      case True
      then have "bucket c' i = None" "bucket c i \<noteq> None" using v(2) by simp_all
      then show ?thesis using IH nonneg lost [OF nu] by (simp add: full del: let_through.simps bucket_losses.simps)
    next
      case False
      then have "bucket c' i = bucket c i" using v(2) by metis
      then have "bucket_losses i (e # es) c = bucket_losses i es c'" "let_through i (e # es) c = let_through i es c'"
        using nu by (auto simp: st)
      then show ?thesis using IH \<open>bucket c' i = bucket c i\<close> by simp
    qed
  qed
qed

text \<open>While the keys in use fit, a bucket is lost to an invalidation of its key only.\<close>

lemma losses_invalidated:
  assumes "0 < rate" and "period_ok i rate t0 t1 es" and "buckets_ok t0 c"
    and "card (fst ` set (usage_buckets c) \<union> used_keys es) \<le> USAGE_STATE_MAX_ENTRIES"
  shows "bucket_losses i es c \<le> count_list es (Invalidate i)"
  using assms(2-)
proof (induction es arbitrary: c t0)
  case (Cons e es)
  obtain acc c' where st: "usage_event_step e c = (acc, c')" by fastforce
  have less: "card (fst ` set (usage_buckets c') \<union> used_keys es) \<le> USAGE_STATE_MAX_ENTRIES"
    if "fst ` set (usage_buckets c') \<union> used_keys es \<subseteq> fst ` set (usage_buckets c) \<union> used_keys (e # es)"
    using card_mono [OF _ that] Cons.prems(3) finite_used_keys by fastforce
  show ?case
  proof (cases e)
    case (Use j t x)
    note ok = period_Use [OF Cons.prems(1) [unfolded Use]]
    note u = use_step [OF Cons.prems(2) _ st [unfolded Use]]
    have small: "card (insert j (fst ` set (usage_buckets c))) \<le> USAGE_STATE_MAX_ENTRIES"
      using card_mono [of "fst ` set (usage_buckets c) \<union> used_keys (e # es)" "insert j (fst ` set (usage_buckets c))"]
        Cons.prems(3) finite_used_keys Use by (auto intro: order_trans)
    have "bucket c' i = None \<Longrightarrow> bucket c i = None"
    proof (cases "j = i")
      case True
      then show "bucket c' i = None \<Longrightarrow> bucket c i = None" using u(2) ok assms(1) by auto
    next
      case False
      then have "bucket c' i = bucket c i" using u(4) [OF _ False [symmetric]] ok small by fastforce
      then show "bucket c' i = None \<Longrightarrow> bucket c i = None" by simp
    qed
    moreover have "bucket_losses i es c' \<le> count_list es (Invalidate i)"
      using Cons.IH [of t c'] ok u(1,5) less Use by auto
    ultimately show ?thesis by (auto simp: st [unfolded Use] Use)
  next
    case (Invalidate j)
    note v = invalidate_step [OF Cons.prems(2) st [unfolded Invalidate]]
    have "bucket_losses i es c' \<le> count_list es (Invalidate i)"
      using Cons.IH [of t0 c'] period_Invalidate [OF Cons.prems(1) [unfolded Invalidate]] v(1,3) less Invalidate by auto
    then show ?thesis using v(2) by (auto simp: st [unfolded Invalidate] Invalidate)
  qed
qed simp

text \<open>The states a history leads to.\<close>

lemma usage_run_ok:
  assumes "buckets_ok s c" and "sorted (use_times h)" and "\<forall>t \<in> set (use_times h). s \<le> t \<and> t \<le> t0" and "s \<le> t0"
  shows "buckets_ok t0 (usage_run h c)
    \<and> fst ` set (usage_buckets (usage_run h c)) \<subseteq> fst ` set (usage_buckets c) \<union> used_keys h"
  using assms
proof (induction h arbitrary: c s)
  case Nil
  then show ?case using buckets_ok_later by simp
next
  case (Cons e h)
  obtain acc c' where st: "usage_event_step e c = (acc, c')" by fastforce
  show ?case
  proof (cases e)
    case (Use j t x)
    note u = use_step [OF Cons.prems(1) _ st [unfolded Use]]
    have "s \<le> t" "t \<le> t0" "sorted (use_times h)" "\<forall>t' \<in> set (use_times h). t \<le> t' \<and> t' \<le> t0"
      using Cons.prems(2,3) by (auto simp: Use)
    then have IH: "buckets_ok t0 (usage_run h c')"
      "fst ` set (usage_buckets (usage_run h c')) \<subseteq> fst ` set (usage_buckets c') \<union> used_keys h"
      using Cons.IH [of t c'] u(1) by blast+
    have "fst ` set (usage_buckets c') \<subseteq> insert j (fst ` set (usage_buckets c))" using u(5) \<open>s \<le> t\<close> by blast
    then have "fst ` set (usage_buckets (usage_run h c')) \<subseteq> fst ` set (usage_buckets c) \<union> insert j (used_keys h)"
      using IH(2) by blast
    then show ?thesis using IH(1) by (simp add: st [unfolded Use] Use)
  next
    case (Invalidate j)
    note v = invalidate_step [OF Cons.prems(1) st [unfolded Invalidate]]
    have IH: "buckets_ok t0 (usage_run h c')"
      "fst ` set (usage_buckets (usage_run h c')) \<subseteq> fst ` set (usage_buckets c') \<union> used_keys h"
      using Cons.IH [of s c'] v(1) Cons.prems by (simp_all add: Invalidate)
    have "fst ` set (usage_buckets (usage_run h c')) \<subseteq> fst ` set (usage_buckets c) \<union> used_keys h"
      using IH(2) v(3) by blast
    then show ?thesis using IH(1) by (simp add: st [unfolded Invalidate] Invalidate)
  qed
qed

section \<open>Properties\<close>

text \<open>
  C32: a cached credential or usage policy is never older than the last finished change of its key:
  in every interleaving of requests, loads in progress, management calls, domain deletions and
  uses, what the caches return is what the tables hold, unless a call that has committed a change
  of that very key has not yet come to its invalidation; and both caches stay bounded.
\<close>

theorem auth_cache_current:
  assumes "lib_ok K" and "auth_start K s0" and "(auth_step K)\<^sup>*\<^sup>* s0 s"
  shows "(cached_authentication_record t kind prefix (as_cache s) = (Some rec, c) \<longrightarrow>
            (\<exists>i. api_key_id (ar_context rec) = Some i
               \<and> (i \<in> set (pending s) \<or> load_authentication_record K (as_db s) kind prefix = Inr rec)))
     \<and> (cached_usage_policy t i (as_cache s) = (Some pol, c') \<longrightarrow>
            i \<in> set (pending s) \<or> load_usage_policy (as_db s) i = Some pol)
     \<and> length (auth_cache (as_cache s)) \<le> AUTH_CACHE_MAX_ENTRIES
     \<and> length (usage_policy_cache (as_cache s)) \<le> AUTH_CACHE_MAX_ENTRIES"
proof -
  have inv: "auth_inv K s" using auth_sys.reachable_inv [OF assms(2,3)] assms(1) by simp
  show ?thesis
    using cached_record_current [OF inv] cached_policy_current [OF inv] auth_invD(2) [OF inv]
    unfolding cache_ok_def by blast
qed

text \<open>
  C33: a created key authenticates: the plain text that \<open>create_key\<close> returns, presented in the header
  from an allowed address before the key expires, is accepted, and the context it gives is that of
  the new key with exactly the requested policy.
\<close>

theorem created_key_authenticates:
  assumes "lib_ok K" and inv: "key_inv K db" and made: "create_key K now P f q db = Inr ((i, plain), db')"
    and q: "requested_policy K q = Inr (name, description, p)"
    and f: "CHR ''_'' \<notin> set (f_prefix f)" "f_prefix f \<noteq> []" "f_secret f \<noteq> []" "length plain \<le> 512"
    and "kr_status q = ''active''" "kp_allow_header p" "expiration_is_due K now (kp_expires_at p) = Inr False"
    and ip: "ip = None \<or> request_ip_allowed K ip (dump_cidrs (kp_allowed_ip_cidrs p))"
    and c: "map_of (auth_cache c) (kr_kind q, f_prefix f) = None"
  shows "\<exists>ctx c'. authenticate_plain_text K t now ip plain db' c = (Inr ctx, c')
     \<and> api_key_id ctx = Some i \<and> scopes ctx = sort (kp_scopes p) \<and> domain_ids ctx = sort (kp_domain_ids p)
     \<and> mailbox_patterns ctx = sort (kp_mailbox_patterns p) \<and> domain_grant_mode ctx = kp_domain_grant_mode p
     \<and> rate_limit_per_min ctx = kp_rate_limit_per_min p \<and> allowed_ip_cidrs ctx = kp_allowed_ip_cidrs p
     \<and> expires_at ctx = kp_expires_at p \<and> allow_query ctx = kp_allow_query p"
  using made
proof (rule create_key_Inr)
  fix name' description' p' current r i'
  assume q': "requested_policy K q = Inr (name', description', p')" and i: "i' = key_sequence db + 1"
    and r: "r = (new_key_row K now f q name' description' p')\<lparr>k_id := i'\<rparr>"
    and out: "(i, plain) = (i', ''ri_'' @ kr_kind q @ ''_'' @ f_prefix f @ ''_'' @ f_secret f)"
    and db': "db' = db\<lparr>key_rows := key_rows db @ [r], key_sequence := i',
                 key_scopes := key_scopes db @ map (Pair i') (kp_scopes p'),
                 key_domains := key_domains db @ map (Pair i') (kp_domain_ids p'),
                 key_patterns := key_patterns db @ map (Pair i') (kp_mailbox_patterns p')\<rparr>"
  have p: "p' = p" and i': "i' = i" using q q' out by auto
  note col = new_key_columns [OF r, unfolded p i']
  have inv': "key_inv K db'" using create_key_inv [OF assms(1) inv made] .
  have row: "key_row db' i = Some r"
    using key_rowI [OF key_invD(1) [OF inv'], of r] col(1) by (simp add: db')
  have fresh: "i \<notin> fst ` set (key_scopes db)" "i \<notin> fst ` set (key_domains db)" "i \<notin> fst ` set (key_patterns db)"
    using fresh_key_id(2-4) [OF inv] i i' by simp_all
  have cidrs: "decode_allowed_ip_cidrs K (dump_cidrs (kp_allowed_ip_cidrs p)) = kp_allowed_ip_cidrs p"
    using decode_dump [OF assms(1) normalize_cidrs_fixed [OF assms(1)]] requested_policy_ok(3) [OF q]
    by (auto simp: policy_ok_def)
  have pol: "kp_scopes (row_policy K db' r) = sort (kp_scopes p)" "kp_domain_ids (row_policy K db' r) = sort (kp_domain_ids p)"
    "kp_mailbox_patterns (row_policy K db' r) = sort (kp_mailbox_patterns p)"
    "kp_allowed_ip_cidrs (row_policy K db' r) = kp_allowed_ip_cidrs p"
    using fresh col cidrs by (simp_all add: row_policy_def db' p i' granted_new)
  have parse: "parse_plain_text plain = Inr (kr_kind q, f_prefix f, f_secret f)"
    using parse_made_key [OF requested_policy_ok(1) [OF q] f(1-3)] f(4) out by simp
  obtain rec where rec: "load_authentication_record K db' (kr_kind q) (f_prefix f) = Inr rec"
    "ar_context rec = policy_context r (row_policy K db' r) (kp_scopes (row_policy K db' r))
         (kp_mailbox_patterns (row_policy K db' r)) (kp_allowed_ip_cidrs (row_policy K db' r))"
    "ar_secret_hash rec = sha256_hex K (f_secret f)" "ar_status rec = ''active''" "ar_allow_header rec"
    "ar_cidrs rec = dump_cidrs (kp_allowed_ip_cidrs p)" "ar_expires_at rec = kp_expires_at p"
    using load_record_wf [OF assms(1) inv' row] col assms(9,10) by auto
  have "validate_authentication_record K now ''header'' ip (f_secret f) rec = Inr (ar_context rec)"
    using rec(3-) assms(11) ip by (auto simp: validate_authentication_record_def check_transport_def)
  moreover have "cached_authentication_record t (kr_kind q) (f_prefix f) c = (None, c)"
    using c by (simp add: cached_authentication_record_def)
  ultimately show ?thesis
    using parse rec(1,2) pol col by (simp add: authenticate_plain_text_def authenticate_def policy_context_def)
qed

text \<open>
  C34: the rate limit holds over every period of the service. Whatever uses of keys and invalidations
  came before, of the uses of a key between two instants, all measured by the limit of \<open>rate\<close> per minute
  and mixed with uses of other keys and with invalidations, at most \<open>rate\<close> plus the tokens refilled in
  that period are let through, and \<open>rate\<close> more each time the key's bucket is lost in the period. A
  bucket is lost when a management call invalidates the key, and otherwise only when more keys have
  been used than the service keeps buckets for.
\<close>

theorem usage_rate_bound:
  assumes "0 < rate" and "sorted (use_times h)" and "\<forall>t \<in> set (use_times h). t \<le> t0" and "period_ok i rate t0 t1 es"
  shows "of_nat (let_through i es (usage_run h key_cache_init)) \<le>
      of_int rate * (1 + of_nat (bucket_losses i es (usage_run h key_cache_init))) + of_int rate / 60 * (t1 - t0)
    \<and> (card (used_keys (h @ es)) \<le> USAGE_STATE_MAX_ENTRIES \<longrightarrow>
         bucket_losses i es (usage_run h key_cache_init) \<le> count_list es (Invalidate i))"
proof
  let ?c = "usage_run h key_cache_init"
  obtain s where s: "s \<le> t0" "\<forall>t \<in> set (use_times h). s \<le> t"
    using assms(3) by (intro that [of "Min (insert t0 (set (use_times h)))"]) auto
  have c: "buckets_ok t0 ?c" "fst ` set (usage_buckets ?c) \<subseteq> used_keys h"
    using usage_run_ok [of s key_cache_init h t0] assms(2,3) s by (simp_all add: buckets_ok_def key_cache_init_def)
  have "bucket_tokens rate t0 (bucket ?c i) \<le> of_int rate"
    using bucket_tokens_bounds(2) [OF assms(1) _ order_refl, of "bucket ?c i" t0] c(1) unfolding buckets_ok_def by blast
  with bucket_bound [OF assms(1,4) c(1)]
  show "of_nat (let_through i es ?c) \<le> of_int rate * (1 + of_nat (bucket_losses i es ?c)) + of_int rate / 60 * (t1 - t0)"
    by (simp add: algebra_simps)
  have "card (fst ` set (usage_buckets ?c) \<union> used_keys es) \<le> card (used_keys (h @ es))"
    using c(2) finite_used_keys by (intro card_mono) (auto simp: used_keys_append)
  then show "card (used_keys (h @ es)) \<le> USAGE_STATE_MAX_ENTRIES \<longrightarrow> bucket_losses i es ?c \<le> count_list es (Invalidate i)"
    using losses_invalidated [OF assms(1,4) c(1)] by linarith
qed

section \<open>Witnesses\<close>

definition ex_auth_state :: auth_state where
  "ex_auth_state =
     \<lparr>as_db = ex_created, as_cache = key_cache_init, as_clock = 0, loaders = [], usage_loaders = [], pending = []\<rparr>"

lemma ex_created_inv: "key_inv ex_keylib ex_created"
  using create_key_inv [OF ex_lib_ok ex_auth_inv ex_create] .

lemma ex_auth_start: "auth_start ex_keylib ex_auth_state"
  using ex_created_inv by (simp add: auth_start_def ex_auth_state_def)

lemma ex_policy_load: "load_usage_policy ex_created 1 = Some (60, dump_cidrs [''10.0.0.0/8''], ''active'')"
  by (simp add: load_usage_policy_def key_row_def ex_created_def new_key_row_def make_api_key_def ex_request_def ex_policy_def)

definition ex_used :: auth_state where
  "ex_used = ex_auth_state\<lparr>
     usage_loaders := [\<lparr>ul_epoch = 0, ul_key = 1, ul_policy = load_usage_policy ex_created 1\<rparr>],
     as_cache := key_cache_init\<lparr>usage_policy_cache := [(1, (2, (60, dump_cidrs [''10.0.0.0/8''], ''active'')))]\<rparr>\<rparr>"

lemma ex_used_reached: "(auth_step ex_keylib)\<^sup>*\<^sup>* ex_auth_state ex_used"
proof -
  let ?s1 = "ex_auth_state\<lparr>usage_loaders := [\<lparr>ul_epoch = 0, ul_key = 1, ul_policy = None\<rparr>]\<rparr>"
  let ?s2 = "ex_auth_state\<lparr>usage_loaders := [\<lparr>ul_epoch = 0, ul_key = 1, ul_policy = load_usage_policy ex_created 1\<rparr>]\<rparr>"
  have "auth_step ex_keylib ex_auth_state ?s1"
    using auth_step.usage_begin [of ex_keylib ex_auth_state 1] by (simp add: ex_auth_state_def key_cache_init_def)
  moreover have "auth_step ex_keylib ?s1 ?s2"
    using auth_step.usage_query [of 0 ?s1 ex_keylib] by (simp add: ex_auth_state_def)
  moreover have "auth_step ex_keylib ?s2 ex_used"
    using auth_step.usage_store [of "usage_loaders ?s2 ! 0" ?s2 "(60, dump_cidrs [''10.0.0.0/8''], ''active'')" ex_keylib]
    by (simp add: ex_auth_state_def ex_used_def ex_policy_load key_cache_init_def store_usage_policy_def put_usage_policy_def
        od_put_def od_pop_def od_trim_def AUTH_CACHE_MAX_ENTRIES_def AUTH_CACHE_TTL_SECONDS_def)
  ultimately show ?thesis by (meson converse_rtranclp_into_rtranclp rtranclp.rtrancl_refl)
qed

lemma ex_used_hit:
  "\<exists>c. cached_usage_policy 1 1 (as_cache ex_used) = (Some (60, dump_cidrs [''10.0.0.0/8''], ''active''), c)"
  by (simp add: ex_used_def cached_usage_policy_def key_cache_init_def)

theorem auth_cache_current_witness:
  "load_usage_policy (as_db ex_used) 1 = Some (60, dump_cidrs [''10.0.0.0/8''], ''active'')
   \<and> length (usage_policy_cache (as_cache ex_used)) = 1"
proof -
  obtain c where c: "cached_usage_policy 1 1 (as_cache ex_used) = (Some (60, dump_cidrs [''10.0.0.0/8''], ''active''), c)"
    using ex_used_hit by blast
  show ?thesis
    using auth_cache_current [OF ex_lib_ok ex_auth_start ex_used_reached, of 1 "[]" "[]" undefined c 1
        "(60, dump_cidrs [''10.0.0.0/8''], ''active'')" c] c
    by (simp add: ex_used_def ex_auth_state_def)
qed

lemma ex_ip_allowed: "request_ip_allowed ex_keylib (Some ''10.0.0.7'') (dump_cidrs (kp_allowed_ip_cidrs ex_policy))"
  by (simp add: request_ip_allowed_def dump_cidrs_def ex_policy_def ex_keylib_def json_item_text_def in_network_def)

theorem created_key_authenticates_witness:
  "\<exists>ctx c'. authenticate_plain_text ex_keylib 0 ''2'' (Some ''10.0.0.7'') ''ri_public_ab_x_y'' ex_created key_cache_init
       = (Inr ctx, c') \<and> api_key_id ctx = Some 1 \<and> domain_ids ctx = [5] \<and> scopes ctx = [''public.read'']"
proof -
  have "\<exists>ctx c'. authenticate_plain_text ex_keylib 0 ''2'' (Some ''10.0.0.7'') ''ri_public_ab_x_y'' ex_created key_cache_init
      = (Inr ctx, c') \<and> api_key_id ctx = Some 1 \<and> scopes ctx = sort (kp_scopes ex_policy)
     \<and> domain_ids ctx = sort (kp_domain_ids ex_policy)
     \<and> mailbox_patterns ctx = sort (kp_mailbox_patterns ex_policy) \<and> domain_grant_mode ctx = kp_domain_grant_mode ex_policy
     \<and> rate_limit_per_min ctx = kp_rate_limit_per_min ex_policy \<and> allowed_ip_cidrs ctx = kp_allowed_ip_cidrs ex_policy
     \<and> expires_at ctx = kp_expires_at ex_policy \<and> allow_query ctx = kp_allow_query ex_policy"
    by (rule created_key_authenticates [OF ex_lib_ok ex_auth_inv ex_create ex_requested])
      (use ex_ip_allowed in \<open>simp_all add: ex_fresh_def ex_request_def ex_policy_def expiration_is_due_def key_cache_init_def\<close>)
  then show ?thesis by (auto simp: ex_policy_def)
qed

text \<open>A key with a limit of one per minute, used, left alone for an hour, then used four times in a minute.\<close>

definition ex_period :: "usage_event list" where
  "ex_period = [Use 7 3600 1, Use 7 3601 1, Invalidate 7, Use 7 3602 1, Use 7 3660 1]"

theorem usage_rate_bound_witness:
  "let_through 7 ex_period (usage_run [Use 7 0 1] key_cache_init) = 2
   \<and> bucket_losses 7 ex_period (usage_run [Use 7 0 1] key_cache_init) = 1
   \<and> of_nat (let_through 7 ex_period (usage_run [Use 7 0 1] key_cache_init)) \<le> (1 * (1 + 1) + 1 / 60 * 60 :: rat)"
proof -
  have "bucket_losses 7 ex_period (usage_run [Use 7 0 1] key_cache_init) = 1"
    "let_through 7 ex_period (usage_run [Use 7 0 1] key_cache_init) = 2"
    by (simp_all add: ex_period_def usage_event_step_def usage_section_def take_token_def note_use_def bucket_tokens_def
        invalidate_key_cache_def od_put_def od_pop_def od_trim_def Let_def USAGE_STATE_MAX_ENTRIES_def
        USAGE_PERSIST_INTERVAL_SECONDS_def key_cache_init_def)
  moreover have "period_ok 7 1 3600 3660 ex_period" by (simp add: period_ok_def ex_period_def)
  ultimately show ?thesis
    using usage_rate_bound [of 1 "[Use 7 0 1]" 3600 7 3660 ex_period] by simp
qed

section \<open>A load that spans a change\<close>

text \<open>
  A load whose first query comes before a committed update and the others after it gives a record
  of a policy the key never had: here the new scope with the old grant of all domains.
\<close>

definition torn_before :: auth_db where
  "torn_before =
     ex_created\<lparr>key_rows := map (\<lambda>r. r\<lparr>k_kind := ''service'', k_grant_mode := ''all'', k_cidrs := NoCidrs\<rparr>) (key_rows ex_created),
       key_scopes := [(1, ''domains.read'')], key_domains := [], key_patterns := []\<rparr>"

definition torn_update :: key_update where
  "torn_update =
     \<lparr>ku_name = None, ku_description = None, ku_kind = None, ku_status = None, ku_allow_header = None,
      ku_allow_query = None, ku_rate_limit = None, ku_cidrs = None, ku_expires_at = None,
      ku_scopes = Some [''messages.read''], ku_domain_ids = None, ku_patterns = None, ku_mode = Some ''none''\<rparr>"

definition torn_after :: auth_db where
  "torn_after =
     torn_before\<lparr>key_rows := map (\<lambda>r. r\<lparr>k_grant_mode := ''none''\<rparr>) (key_rows torn_before), key_scopes := [(1, ''messages.read'')]\<rparr>"

definition torn_load :: loader where
  "torn_load =
     \<lparr>l_epoch = 0, l_now = 0, l_kind = ''service'', l_prefix = ''ab'', l_row = None, l_scopes = None,
      l_domains = None, l_patterns = None\<rparr>"

lemmas torn_defs = torn_before_def torn_after_def torn_update_def torn_load_def ex_created_def ex_auth_db_def ex_fresh_def
  ex_request_def ex_policy_def new_key_row_def make_api_key_def

lemma service_scopes:
  "validate_scopes_for_kind ''service'' [''domains.read''] = Inr [''domains.read'']"
  "validate_scopes_for_kind ''service'' [''messages.read''] = Inr [''messages.read'']"
  by (simp_all add: validate_scopes_for_kind_def API_KEY_KIND_SCOPES_def SERVICE_API_KEY_SCOPES_def VALID_API_KEY_SCOPES_def
      PUBLIC_API_KEY_SCOPES_def str_strip_def strip_by_def rstrip_by_def ascii_space_def Let_def)

lemma torn_update_commits: "\<exists>out. update_key ex_keylib ''2'' None 1 torn_update torn_before = Inr (out, torn_after)"
proof -
  have mode: "normalize_domain_grant_mode ''none'' = Inr ''none''"
    by code_simp
  show ?thesis
    by (simp add: update_key_def requested_changes_def torn_defs optR_def changed_mode_def check_grants_def mode service_scopes
        transaction_management_principal_def transaction_authorization_principal_def load_key_def key_row_def
        assert_key_within_principal_def update_key_row_def apply_changes_def new_or_def changed_revocation_def
        replace_grants_def replaced_domains_def Let_def)
qed

lemma torn_authentication:
  "\<exists>l1 l2 l3 l4 rec. next_query torn_before torn_load = Some l1 \<and> next_query torn_after l1 = Some l2
     \<and> next_query torn_after l2 = Some l3 \<and> next_query torn_after l3 = Some l4
     \<and> loaded_record ex_keylib l4 = Some (Inr rec) \<and> scopes (ar_context rec) = [''messages.read'']
     \<and> domain_grant_mode (ar_context rec) = ''all''"
  by (simp add: next_query_def prefix_row_def loaded_record_def build_record_def or_lookup_error_def service_scopes
      granted_to_def normalize_mailbox_patterns_def normalize_ip_cidrs_def MAX_MAILBOX_PATTERNS_def MAX_ALLOWED_IP_CIDRS_def
      decode_allowed_ip_cidrs_def auth_columns_def torn_defs)

end
