(* ===== verification/Admin_Auth.thy ===== *)
theory Admin_Auth
  imports Api_Auth
begin

text \<open>
  \<^verbatim>\<open>src/app/auth/sessions.py\<close> and \<^verbatim>\<open>src/app/auth/passwords.py\<close>: administrators, their passwords and
  sessions, and the window of failed logins. Every mutation reloads its caller inside the
  transaction. \<^verbatim>\<open>Admin_Accounts\<close> and \<^verbatim>\<open>Admin_Sessions\<close> hold the lemmas.
\<close>

section \<open>Passwords\<close>

text \<open>PBKDF2 is a parameter: password and salt to hexadecimal digest.\<close>

type_synonym pbkdf2 = "string \<Rightarrow> string \<Rightarrow> string"

definition hash_password :: "pbkdf2 \<Rightarrow> string \<Rightarrow> string \<Rightarrow> string" where
  "hash_password kdf salt password = salt @ ''$'' @ kdf password salt"

definition verify_password :: "pbkdf2 \<Rightarrow> string \<Rightarrow> string \<Rightarrow> bool" where
  "verify_password kdf password stored_hash =
     (case split_max CHR ''$'' 1 stored_hash of
        [salt, expected] \<Rightarrow> kdf password salt = expected
      | _ \<Rightarrow> False)"

definition MIN_ADMIN_PASSWORD_LENGTH :: nat where
  "MIN_ADMIN_PASSWORD_LENGTH = 12"

definition MAX_ADMIN_PASSWORD_LENGTH :: nat where
  "MAX_ADMIN_PASSWORD_LENGTH = 1024"

definition BOOTSTRAP_PASSWORD :: string where
  "BOOTSTRAP_PASSWORD = ''change-me-now''"

definition DUMMY_PASSWORD_HASH :: string where
  "DUMMY_PASSWORD_HASH =
     ''rapid-inbox-dummy-auth-salt-v1$3fdae81bd2c22471ad9ec67bf9379edf46e9ee7e8c62b37bc6834ce973e8df82''"

definition validate_new_password :: "string \<Rightarrow> unit result" where
  "validate_new_password password =
     (if length password < MIN_ADMIN_PASSWORD_LENGTH then Inl (ValueError ''password must be at least 12 characters'')
      else if MAX_ADMIN_PASSWORD_LENGTH < length password then Inl (ValueError ''password must be at most 1024 characters'')
      else if password = BOOTSTRAP_PASSWORD then Inl (ValueError ''password must not use the default bootstrap value'')
      else Inr ())"

section \<open>Authorization\<close>

definition normalize_username :: "string \<Rightarrow> string result" where
  "normalize_username value =
     (let username = str_strip value in
      if username = [] \<or> 128 < length username then Inl (ValueError ''invalid username'')
      else if has_control username then Inl (ValueError ''invalid username'')
      else Inr username)"

definition normalize_display_name :: "string option \<Rightarrow> string option result" where
  "normalize_display_name value =
     (case value of
        None \<Rightarrow> Inr None
      | Some v \<Rightarrow>
          let name = str_strip v in
          if name = [] then Inr None
          else if 200 < length name \<or> has_control name then Inl (ValueError ''invalid display name'')
          else Inr (Some name))"

definition normalize_role :: "string \<Rightarrow> string result" where
  "normalize_role value =
     (if ROLE_SCOPES (str_strip value) = None then Inl (ValueError ''invalid admin role'') else Inr (str_strip value))"

text \<open>The first loop of \<open>_transaction_admin_principal\<close>.\<close>

fun authorize_scopes ::
  "keylib \<Rightarrow> string \<Rightarrow> string list \<Rightarrow> permission_context option \<Rightarrow> auth_db \<Rightarrow> permission_context option result" where
  "authorize_scopes K now [] actor db = Inr actor"
| "authorize_scopes K now (s # ss) actor db =
     bindR (transaction_authorization_principal K now s True None actor db) (\<lambda>current.
       authorize_scopes K now ss current db)"

definition reload_admin :: "string \<Rightarrow> permission_context \<Rightarrow> auth_db \<Rightarrow> permission_context result" where
  "reload_admin now current db =
     (case admin_session_id current of
        None \<Rightarrow> Inr current
      | Some sid \<Rightarrow>
          bindR (acting_admin now sid (admin_id current) db) (\<lambda>c.
            Inr (c\<lparr>ctx_name := ''admin:'' @ show_int (case admin_id c of None \<Rightarrow> 0 | Some i \<Rightarrow> i)\<rparr>)))"

definition transaction_admin_principal ::
  "keylib \<Rightarrow> string \<Rightarrow> string list \<Rightarrow> permission_context option \<Rightarrow> auth_db \<Rightarrow> permission_context option result" where
  "transaction_admin_principal K now required actor db =
     bindR (authorize_scopes K now required actor db) (\<lambda>current.
       case current of
         None \<Rightarrow> Inr None
       | Some p \<Rightarrow>
           if legacy_credential p then Inr (Some p)
           else bindR (reload_admin now p db) (\<lambda>c.
             case find (\<lambda>s. \<not> has_required_scope s (scopes c)) required of
               Some s \<Rightarrow> Inl (ApiKeyAuthorizationError (''acting principal no longer has required scope: '' @ s))
             | None \<Rightarrow>
                 if domain_grant_mode c \<noteq> ''all''
                 then Inl (ApiKeyAuthorizationError ''acting principal no longer has an all-domain grant'')
                 else Inr (Some c)))"

definition assert_role_within_principal :: "permission_context option \<Rightarrow> string \<Rightarrow> unit result" where
  "assert_role_within_principal actor role =
     (case actor of
        None \<Rightarrow> Inr ()
      | Some p \<Rightarrow>
          if legacy_credential p then Inr ()
          else (case ROLE_SCOPES role of
                  None \<Rightarrow> Inl (ValueError ''invalid admin role'')
                | Some role_scopes \<Rightarrow>
                    if set role_scopes \<subseteq> set (effective_scopes (scopes p)) then Inr ()
                    else Inl (ApiKeyAuthorizationError ''admin role exceeds acting principal permissions'')))"

section \<open>Administrators\<close>

definition admin_by_id :: "auth_db \<Rightarrow> int \<Rightarrow> admin_row option" where
  "admin_by_id db i = find (\<lambda>a. a_id a = i) (admin_rows db)"

definition active_superadmin :: "admin_row \<Rightarrow> bool" where
  "active_superadmin a \<longleftrightarrow> a_role a = ''superadmin'' \<and> a_is_active a"

definition superadmin_count :: "auth_db \<Rightarrow> nat" where
  "superadmin_count db = length (filter active_superadmin (admin_rows db))"

definition ensure_active_superadmin_remains :: "admin_row \<Rightarrow> string \<Rightarrow> bool \<Rightarrow> bool \<Rightarrow> auth_db \<Rightarrow> unit result" where
  "ensure_active_superadmin_remains a next_role next_is_active deleting db =
     (if \<not> active_superadmin a then Inr ()
      else if \<not> deleting \<and> next_role = ''superadmin'' \<and> next_is_active then Inr ()
      else if superadmin_count db \<le> 1 then Inl (ValueError ''cannot remove last active superadmin'')
      else Inr ())"

text \<open>\<open>INSERT INTO admins\<close> with the unique name and the check of the role.\<close>

definition insert_admin :: "admin_row \<Rightarrow> auth_db \<Rightarrow> (int \<times> auth_db) result" where
  "insert_admin a db =
     (if a_username a \<in> a_username ` set (admin_rows db) \<or> ROLE_SCOPES (a_role a) = None then key_conflict ''admins''
      else let i = admin_sequence db + 1
           in Inr (i, db\<lparr>admin_rows := admin_rows db @ [a\<lparr>a_id := i\<rparr>], admin_sequence := i\<rparr>))"

text \<open>
  \<open>UPDATE admins\<close> of one row, with the unique name and the trigger
  \<open>prevent_last_active_superadmin_update\<close> of \<^verbatim>\<open>src/sqlite_schema.sql\<close>.
\<close>

definition update_admin_row :: "int \<Rightarrow> (admin_row \<Rightarrow> admin_row) \<Rightarrow> auth_db \<Rightarrow> auth_db result" where
  "update_admin_row i f db =
     (if list_ex (\<lambda>a. a_id a = i \<and> list_ex (\<lambda>b. a_id b \<noteq> i \<and> a_username b = a_username (f a)) (admin_rows db)) (admin_rows db)
      then key_conflict ''admins''
      else if list_ex (\<lambda>a. a_id a = i \<and> active_superadmin a \<and> \<not> active_superadmin (f a)) (admin_rows db)
          \<and> superadmin_count db \<le> 1
      then Inl (IntegrityError ''cannot remove last active superadmin'')
      else Inr (db\<lparr>admin_rows := map (\<lambda>a. if a_id a = i then f a else a) (admin_rows db)\<rparr>))"

text \<open>\<open>DELETE FROM admins\<close>: sessions are deleted, keys lose the reference.\<close>

definition forget_admin :: "int \<Rightarrow> int option \<Rightarrow> int option" where
  "forget_admin i x = (if x = Some i then None else x)"

definition delete_admin_row :: "int \<Rightarrow> auth_db \<Rightarrow> auth_db result" where
  "delete_admin_row i db =
     (if list_ex (\<lambda>a. a_id a = i \<and> active_superadmin a) (admin_rows db) \<and> superadmin_count db \<le> 1
      then Inl (IntegrityError ''cannot remove last active superadmin'')
      else Inr (db\<lparr>admin_rows := filter (\<lambda>a. a_id a \<noteq> i) (admin_rows db),
                   session_rows := filter (\<lambda>s. s_admin_id s \<noteq> i) (session_rows db),
                   key_rows := map (\<lambda>k. k\<lparr>k_owner_admin_id := forget_admin i (k_owner_admin_id k),
                                         k_created_by := forget_admin i (k_created_by k)\<rparr>) (key_rows db)\<rparr>))"

definition revoke_sessions_where :: "(admin_session_row \<Rightarrow> bool) \<Rightarrow> string \<Rightarrow> auth_db \<Rightarrow> auth_db" where
  "revoke_sessions_where p revoked_at db =
     db\<lparr>session_rows := map (\<lambda>s. if p s \<and> s_revoked_at s = None then s\<lparr>s_revoked_at := Some revoked_at\<rparr> else s) (session_rows db)\<rparr>"

definition revoke_admin_sessions_in_connection :: "int \<Rightarrow> string \<Rightarrow> string option \<Rightarrow> auth_db \<Rightarrow> auth_db" where
  "revoke_admin_sessions_in_connection i revoked_at except_session db =
     revoke_sessions_where (\<lambda>s. s_admin_id s = i \<and> except_session \<noteq> Some (s_id s)) revoked_at db"

record new_admin =
  na_username :: string
  na_password :: string
  na_role :: string
  na_display_name :: "string option"
  na_is_active :: pyval
  na_must_change :: pyval

text \<open>\<open>create_admin\<close>; the salt is random.\<close>

definition create_admin ::
  "keylib \<Rightarrow> pbkdf2 \<Rightarrow> string \<Rightarrow> string \<Rightarrow> permission_context option \<Rightarrow> new_admin \<Rightarrow> auth_db \<Rightarrow> (int \<times> auth_db) result" where
  "create_admin K kdf salt now actor n db =
     bindR (normalize_username (na_username n)) (\<lambda>username.
     bindR (normalize_role (na_role n)) (\<lambda>role.
     bindR (normalize_display_name (na_display_name n)) (\<lambda>display_name.
     bindR (key_coerce_bool ''is_active'' (na_is_active n)) (\<lambda>is_active.
     bindR (key_coerce_bool ''must_change_password'' (na_must_change n)) (\<lambda>must_change.
     bindR (validate_new_password (na_password n)) (\<lambda>_.
     bindR (transaction_admin_principal K now [''admins.write'', ''admins.credentials.write''] actor db) (\<lambda>current.
     bindR (assert_role_within_principal current role) (\<lambda>_.
       insert_admin \<lparr>a_id = 0, a_username = username, a_display_name = display_name,
         a_password_hash = hash_password kdf salt (na_password n), a_role = role, a_is_active = is_active,
         a_must_change_password = must_change, a_created_at = now, a_updated_at = now, a_last_login_at = None,
         a_last_login_ip = None\<rparr> db))))))))"

record admin_update =
  au_username :: "string option"
  au_display_name :: "string option option"
  au_role :: "string option"
  au_is_active :: "pyval option"
  au_must_change :: "pyval option"

definition apply_admin_update ::
  "string \<Rightarrow> string option \<Rightarrow> string option option \<Rightarrow> string option \<Rightarrow> bool option \<Rightarrow> bool option \<Rightarrow> admin_row \<Rightarrow> admin_row" where
  "apply_admin_update now username display_name role is_active must_change a =
     a\<lparr>a_username := new_or username (a_username a), a_display_name := new_or display_name (a_display_name a),
       a_role := new_or role (a_role a), a_is_active := new_or is_active (a_is_active a),
       a_must_change_password := new_or must_change (a_must_change_password a), a_updated_at := now\<rparr>"

definition update_admin ::
  "keylib \<Rightarrow> string \<Rightarrow> permission_context option \<Rightarrow> int \<Rightarrow> admin_update \<Rightarrow> auth_db \<Rightarrow> auth_db result" where
  "update_admin K now actor i q db =
     bindR (optR normalize_username (au_username q)) (\<lambda>username.
     bindR (optR normalize_display_name (au_display_name q)) (\<lambda>display_name.
     bindR (optR normalize_role (au_role q)) (\<lambda>role.
     bindR (optR (key_coerce_bool ''is_active'') (au_is_active q)) (\<lambda>is_active.
     bindR (optR (key_coerce_bool ''must_change_password'') (au_must_change q)) (\<lambda>must_change.
     if username = None \<and> display_name = None \<and> role = None \<and> is_active = None \<and> must_change = None then
       (case admin_by_id db i of None \<Rightarrow> Inl (LookupError ''admin not found'') | Some _ \<Rightarrow> Inr db)
     else
       bindR (transaction_admin_principal K now [''admins.write''] actor db) (\<lambda>current.
       case admin_by_id db i of
         None \<Rightarrow> Inl (LookupError ''admin not found'')
       | Some a \<Rightarrow>
           bindR (assert_role_within_principal current (a_role a)) (\<lambda>_.
           bindR (assert_role_within_principal current (new_or role (a_role a))) (\<lambda>_.
           bindR (ensure_active_superadmin_remains a (new_or role (a_role a)) (new_or is_active (a_is_active a)) False db) (\<lambda>_.
           bindR (update_admin_row i (apply_admin_update now username display_name role is_active must_change) db) (\<lambda>db1.
             Inr (if a_is_active a \<and> \<not> new_or is_active (a_is_active a)
                  then revoke_admin_sessions_in_connection i now None db1 else db1)))))))))))"

definition delete_admin ::
  "keylib \<Rightarrow> string \<Rightarrow> permission_context option \<Rightarrow> int \<Rightarrow> auth_db \<Rightarrow> auth_db result" where
  "delete_admin K now actor i db =
     bindR (transaction_admin_principal K now [''admins.write''] actor db) (\<lambda>current.
     case admin_by_id db i of
       None \<Rightarrow> Inl (LookupError ''admin not found'')
     | Some a \<Rightarrow>
         bindR (assert_role_within_principal current (a_role a)) (\<lambda>_.
         bindR (ensure_active_superadmin_remains a (a_role a) (a_is_active a) True db) (\<lambda>_.
           delete_admin_row i db)))"

definition ensure_bootstrap_admin ::
  "pbkdf2 \<Rightarrow> string \<Rightarrow> string \<Rightarrow> string \<Rightarrow> string \<Rightarrow> auth_db \<Rightarrow> auth_db result" where
  "ensure_bootstrap_admin kdf salt now username password db =
     (if admin_rows db \<noteq> [] then Inr db
      else bindR (insert_admin \<lparr>a_id = 0, a_username = username, a_display_name = None,
             a_password_hash = hash_password kdf salt password, a_role = ''superadmin'', a_is_active = True,
             a_must_change_password = True, a_created_at = now, a_updated_at = now, a_last_login_at = None,
             a_last_login_ip = None\<rparr> db) (\<lambda>x. Inr (snd x)))"

text \<open>
  \<open>change_admin_password\<close>: the worker thread proves the old password on the database it reads, the
  transaction runs on a later one.
\<close>

definition prove_password ::
  "pbkdf2 \<Rightarrow> string \<Rightarrow> int \<Rightarrow> string \<Rightarrow> string \<Rightarrow> auth_db \<Rightarrow> (string \<times> string) result" where
  "prove_password kdf salt i current_password new_password db =
     (case find (\<lambda>a. a_id a = i \<and> a_is_active a) (admin_rows db) of
        None \<Rightarrow> Inl (LookupError ''invalid admin credentials'')
      | Some a \<Rightarrow>
          if \<not> verify_password kdf current_password (a_password_hash a) then Inl (LookupError ''invalid admin credentials'')
          else if verify_password kdf new_password (a_password_hash a) then Inl (ValueError ''password must be changed'')
          else Inr (hash_password kdf salt new_password, a_password_hash a))"

definition set_password :: "string \<Rightarrow> bool \<Rightarrow> string \<Rightarrow> admin_row \<Rightarrow> admin_row" where
  "set_password hash must_change now a = a\<lparr>a_password_hash := hash, a_must_change_password := must_change, a_updated_at := now\<rparr>"

definition session_active :: "string \<Rightarrow> string \<Rightarrow> int \<Rightarrow> auth_db \<Rightarrow> bool" where
  "session_active now sid i db =
     (list_ex (\<lambda>s. s_id s = sid \<and> s_admin_id s = i \<and> s_revoked_at s = None \<and> now < s_expires_at s) (session_rows db)
      \<and> list_ex (\<lambda>a. a_id a = i \<and> a_is_active a) (admin_rows db))"

definition commit_password ::
  "string \<Rightarrow> int \<Rightarrow> string option \<Rightarrow> string \<Rightarrow> string \<Rightarrow> auth_db \<Rightarrow> auth_db result" where
  "commit_password now i current_session hash expected db =
     (if (case current_session of None \<Rightarrow> False | Some sid \<Rightarrow> \<not> session_active now sid i db) then
        Inl (ApiKeyAuthorizationError ''acting admin session is no longer active'')
      else if \<not> list_ex (\<lambda>a. a_id a = i \<and> a_is_active a \<and> a_password_hash a = expected) (admin_rows db) then
        Inl (LookupError ''invalid admin credentials'')
      else bindR (update_admin_row i (\<lambda>a. if a_is_active a \<and> a_password_hash a = expected then set_password hash False now a else a) db)
        (\<lambda>db1. Inr (revoke_admin_sessions_in_connection i now current_session db1)))"

definition change_admin_password ::
  "pbkdf2 \<Rightarrow> string \<Rightarrow> string \<Rightarrow> int \<Rightarrow> string \<Rightarrow> string \<Rightarrow> string option \<Rightarrow> auth_db \<Rightarrow> auth_db \<Rightarrow> auth_db result" where
  "change_admin_password kdf salt now i current_password new_password current_session db_read db =
     bindR (validate_new_password new_password) (\<lambda>_.
     if current_password = [] \<or> MAX_ADMIN_PASSWORD_LENGTH < length current_password
     then Inl (LookupError ''invalid admin credentials'')
     else bindR (prove_password kdf salt i current_password new_password db_read) (\<lambda>(hash, expected).
       commit_password now i current_session hash expected db))"

definition reset_admin_password ::
  "keylib \<Rightarrow> pbkdf2 \<Rightarrow> string \<Rightarrow> string \<Rightarrow> permission_context option \<Rightarrow> int \<Rightarrow> string \<Rightarrow> pyval \<Rightarrow> auth_db \<Rightarrow> auth_db result" where
  "reset_admin_password K kdf salt now actor i new_password must_change db =
     bindR (validate_new_password new_password) (\<lambda>_.
     bindR (key_coerce_bool ''must_change_password'' must_change) (\<lambda>must.
     bindR (transaction_admin_principal K now [''admins.credentials.write''] actor db) (\<lambda>current.
     case admin_by_id db i of
       None \<Rightarrow> Inl (LookupError ''admin not found'')
     | Some a \<Rightarrow>
         bindR (assert_role_within_principal current (a_role a)) (\<lambda>_.
         bindR (update_admin_row i (set_password (hash_password kdf salt new_password) must now) db) (\<lambda>db1.
           Inr (revoke_admin_sessions_in_connection i now None db1))))))"

section \<open>Sessions\<close>

definition SESSION_TOUCH_INTERVAL_SECONDS :: int where
  "SESSION_TOUCH_INTERVAL_SECONDS = 60"

record session_fresh =
  sf_id :: string
  sf_token :: string
  sf_expires_at :: string

text \<open>\<open>create_session\<close>; the identifier, the token and the end of the session are arguments.\<close>

definition create_session ::
  "keylib \<Rightarrow> string \<Rightarrow> session_fresh \<Rightarrow> int \<Rightarrow> string option \<Rightarrow> string option \<Rightarrow> string option \<Rightarrow> auth_db \<Rightarrow> auth_db result" where
  "create_session K now f i ip user_agent expected_hash db =
     (if \<not> list_ex (\<lambda>a. a_id a = i \<and> a_is_active a \<and> (expected_hash = None \<or> expected_hash = Some (a_password_hash a))) (admin_rows db)
      then Inl (LookupError ''admin not found'')
      else if list_ex (\<lambda>s. s_id s = sf_id f \<or> s_token_hash s = sha256_hex K (sf_token f)) (session_rows db)
      then key_conflict ''admin_sessions''
      else Inr (db\<lparr>session_rows := session_rows db @
        [\<lparr>s_id = sf_id f, s_admin_id = i, s_token_hash = sha256_hex K (sf_token f), s_created_at = now,
          s_expires_at = sf_expires_at f, s_revoked_at = None, s_last_seen_at = Some now, s_last_ip = ip,
          s_user_agent = user_agent\<rparr>]\<rparr>))"

text \<open>The read of \<open>get_session_admin\<close>.\<close>

definition session_admin :: "keylib \<Rightarrow> string \<Rightarrow> string \<Rightarrow> auth_db \<Rightarrow> (admin_session_row \<times> admin_row) option" where
  "session_admin K now token db =
     (case find (\<lambda>s. s_token_hash s = sha256_hex K token \<and> s_revoked_at s = None \<and> now < s_expires_at s) (session_rows db) of
        None \<Rightarrow> None
      | Some s \<Rightarrow> map_option (Pair s) (find (\<lambda>a. a_id a = s_admin_id s \<and> a_is_active a) (admin_rows db)))"

definition should_touch :: "string \<Rightarrow> string option \<Rightarrow> admin_session_row \<Rightarrow> bool" where
  "should_touch now ip s =
     (case (s_last_seen_at s, parse_utc now) of
        (Some seen, Some n) \<Rightarrow>
          (case parse_utc seen of
             None \<Rightarrow> True
           | Some t \<Rightarrow> SESSION_TOUCH_INTERVAL_SECONDS \<le> n - t \<or> ip \<noteq> None \<and> ip \<noteq> s_last_ip s)
      | _ \<Rightarrow> True)"

definition touch_session :: "string \<Rightarrow> string option \<Rightarrow> string \<Rightarrow> auth_db \<Rightarrow> auth_db" where
  "touch_session now ip sid db =
     db\<lparr>session_rows := map (\<lambda>s. if s_id s = sid \<and> s_revoked_at s = None
         then s\<lparr>s_last_seen_at := Some now, s_last_ip := (case ip of None \<Rightarrow> s_last_ip s | Some x \<Rightarrow> Some x)\<rparr> else s) (session_rows db)\<rparr>"

definition get_session_admin ::
  "keylib \<Rightarrow> string \<Rightarrow> string option \<Rightarrow> string \<Rightarrow> auth_db \<Rightarrow> (admin_session_row \<times> admin_row) result \<times> auth_db" where
  "get_session_admin K now ip token db =
     (case session_admin K now token db of
        None \<Rightarrow> (Inl (LookupError ''session not found''), db)
      | Some (s, a) \<Rightarrow> (Inr (s, a), if should_touch now ip s then touch_session now ip (s_id s) db else db))"

definition revoke_session :: "string \<Rightarrow> string \<Rightarrow> auth_db \<Rightarrow> auth_db" where
  "revoke_session now sid db = revoke_sessions_where (\<lambda>s. s_id s = sid) now db"

definition revoke_admin_sessions ::
  "keylib \<Rightarrow> string \<Rightarrow> permission_context option \<Rightarrow> int \<Rightarrow> string option \<Rightarrow> auth_db \<Rightarrow> auth_db result" where
  "revoke_admin_sessions K now actor i except_session db =
     bindR (transaction_admin_principal K now [''admins.sessions.write''] actor db) (\<lambda>current.
     case admin_by_id db i of
       None \<Rightarrow> Inl (LookupError ''admin not found'')
     | Some a \<Rightarrow>
         bindR (assert_role_within_principal current (a_role a)) (\<lambda>_.
           Inr (revoke_admin_sessions_in_connection i now except_session db)))"

section \<open>Failed logins\<close>

definition LOGIN_FAILURE_LIMIT :: nat where
  "LOGIN_FAILURE_LIMIT = 5"

definition LOGIN_IP_FAILURE_LIMIT :: nat where
  "LOGIN_IP_FAILURE_LIMIT = 50"

definition LOGIN_FAILURE_WINDOW_SECONDS :: rat where
  "LOGIN_FAILURE_WINDOW_SECONDS = 15 * 60"

definition LOGIN_FAILURE_MAX_KEYS :: nat where
  "LOGIN_FAILURE_MAX_KEYS = 10000"

record login_tracker =
  login_failures :: windows
  login_ip_failures :: windows

definition login_ip_key :: "string option \<Rightarrow> string" where
  "login_ip_key ip = take 128 (text_or ip ''unknown'')"

definition login_failure_key :: "keylib \<Rightarrow> string \<Rightarrow> string option \<Rightarrow> string" where
  "login_failure_key K username ip = login_ip_key ip @ '':'' @ sha256_hex K (str_lower (str_strip username))"

definition active_login_window :: "string \<Rightarrow> rat \<Rightarrow> windows \<Rightarrow> rat list option \<times> windows" where
  "active_login_window key cutoff ws =
     (case map_of ws key of
        None \<Rightarrow> (None, ws)
      | Some w \<Rightarrow>
          let w' = dropWhile (\<lambda>x. x \<le> cutoff) w in
          if w' = [] then (None, od_pop key ws) else (Some w', od_put key w' ws))"

definition record_login_window :: "string \<Rightarrow> rat \<Rightarrow> rat \<Rightarrow> windows \<Rightarrow> windows" where
  "record_login_window key now cutoff ws =
     (case active_login_window key cutoff ws of
        (Some w, ws') \<Rightarrow> od_put key (w @ [now]) ws'
      | (None, ws') \<Rightarrow> od_put key [now] (od_trim (LOGIN_FAILURE_MAX_KEYS - 1) ws'))"

definition assert_login_allowed ::
  "keylib \<Rightarrow> rat \<Rightarrow> string \<Rightarrow> string option \<Rightarrow> login_tracker \<Rightarrow> unit result \<times> login_tracker" where
  "assert_login_allowed K now username ip tr =
     (let cutoff = now - LOGIN_FAILURE_WINDOW_SECONDS in
      case active_login_window (login_failure_key K username ip) cutoff (login_failures tr) of (w, ws) \<Rightarrow>
      case active_login_window (login_ip_key ip) cutoff (login_ip_failures tr) of (ipw, ipws) \<Rightarrow>
        (if (case w of None \<Rightarrow> False | Some x \<Rightarrow> LOGIN_FAILURE_LIMIT \<le> length x)
            \<or> (case ipw of None \<Rightarrow> False | Some x \<Rightarrow> LOGIN_IP_FAILURE_LIMIT \<le> length x)
         then Inl (PermissionError ''too many login attempts'') else Inr (),
         \<lparr>login_failures = ws, login_ip_failures = ipws\<rparr>))"

definition record_login_failure :: "keylib \<Rightarrow> rat \<Rightarrow> string \<Rightarrow> string option \<Rightarrow> login_tracker \<Rightarrow> login_tracker" where
  "record_login_failure K now username ip tr =
     (let cutoff = now - LOGIN_FAILURE_WINDOW_SECONDS in
      \<lparr>login_failures = record_login_window (login_failure_key K username ip) now cutoff (login_failures tr),
       login_ip_failures = record_login_window (login_ip_key ip) now cutoff (login_ip_failures tr)\<rparr>)"

definition clear_login_failures :: "keylib \<Rightarrow> string \<Rightarrow> string option \<Rightarrow> login_tracker \<Rightarrow> login_tracker" where
  "clear_login_failures K username ip tr =
     tr\<lparr>login_failures := od_pop (login_failure_key K username ip) (login_failures tr)\<rparr>"

text \<open>The worker thread of a login, on the database it reads.\<close>

definition load_and_verify :: "pbkdf2 \<Rightarrow> string \<Rightarrow> string \<Rightarrow> auth_db \<Rightarrow> admin_row option \<times> bool" where
  "load_and_verify kdf username password db =
     (let row = find (\<lambda>a. a_username a = username \<and> a_is_active a) (admin_rows db) in
      (row, verify_password kdf password (case row of None \<Rightarrow> DUMMY_PASSWORD_HASH | Some a \<Rightarrow> a_password_hash a)))"

definition same_login :: "admin_row \<Rightarrow> admin_row \<Rightarrow> bool" where
  "same_login row a \<longleftrightarrow>
     a_id a = a_id row \<and> a_is_active a \<and> a_username a = a_username row \<and> a_password_hash a = a_password_hash row"

definition finalize_authentication :: "string \<Rightarrow> string option \<Rightarrow> admin_row \<Rightarrow> auth_db \<Rightarrow> bool \<times> auth_db" where
  "finalize_authentication now ip row db =
     (list_ex (same_login row) (admin_rows db),
      db\<lparr>admin_rows := map (\<lambda>a. if same_login row a
           then a\<lparr>a_last_login_at := Some now, a_last_login_ip := (case ip of None \<Rightarrow> a_last_login_ip a | Some x \<Rightarrow> Some x)\<rparr> else a)
         (admin_rows db)\<rparr>)"

text \<open>
  \<open>authenticate_admin\<close>: the first database is the one its worker reads, the second the one its
  transaction finds. The result carries the row and the hash that proves the password.
\<close>

definition authenticate_admin ::
  "keylib \<Rightarrow> pbkdf2 \<Rightarrow> rat \<Rightarrow> string \<Rightarrow> string \<Rightarrow> string \<Rightarrow> string option \<Rightarrow> auth_db \<Rightarrow> auth_db \<Rightarrow> login_tracker
     \<Rightarrow> (admin_row \<times> string) result \<times> auth_db \<times> login_tracker" where
  "authenticate_admin K kdf t now username password ip db_read db tr =
     (let failed = (\<lambda>tr. (Inl (LookupError ''invalid admin credentials''), db, record_login_failure K t username ip tr)) in
      case assert_login_allowed K t username ip tr of
        (Inl e, tr1) \<Rightarrow> (Inl e, db, tr1)
      | (Inr _, tr1) \<Rightarrow>
          if password = [] \<or> MAX_ADMIN_PASSWORD_LENGTH < length password then failed tr1
          else (case load_and_verify kdf username password db_read of
                  (Some row, True) \<Rightarrow>
                    (case finalize_authentication now ip row db of
                       (True, db1) \<Rightarrow> (Inr (row, a_password_hash row), db1, clear_login_failures K username ip tr1)
                     | (False, db1) \<Rightarrow> failed tr1)
                | _ \<Rightarrow> failed tr1))"

section \<open>Password work\<close>

text \<open>
  \<open>_run_password_work\<close> as a machine: callers wait for one of the slots, at most a bounded number of
  them, and a finished or failed computation gives its slot back.
\<close>

record password_work =
  pw_waiters :: nat
  pw_slots :: nat
  pw_running :: nat
  pw_open :: bool

definition PASSWORD_PENDING_LIMIT :: nat where
  "PASSWORD_PENDING_LIMIT = 64"

definition PASSWORD_WAITER_LIMIT :: nat where
  "PASSWORD_WAITER_LIMIT = 256"

definition password_enter :: "password_work \<Rightarrow> password_work result" where
  "password_enter s =
     (if PASSWORD_WAITER_LIMIT \<le> pw_waiters s then Inl (RuntimeError ''authentication work queue is full'')
      else Inr (s\<lparr>pw_waiters := pw_waiters s + 1\<rparr>))"

text \<open>A waiter that gets a slot starts the work, unless the executor is closed or refuses it.\<close>

inductive password_step :: "password_work \<Rightarrow> password_work \<Rightarrow> bool" where
  enter: "password_enter s = Inr t \<Longrightarrow> password_step s t"
| cancel: "0 < pw_waiters s \<Longrightarrow> password_step s (s\<lparr>pw_waiters := pw_waiters s - 1\<rparr>)"
| run: "0 < pw_waiters s \<Longrightarrow> 0 < pw_slots s \<Longrightarrow> pw_open s \<Longrightarrow>
    password_step s (s\<lparr>pw_waiters := pw_waiters s - 1, pw_slots := pw_slots s - 1, pw_running := pw_running s + 1\<rparr>)"
| refuse: "0 < pw_waiters s \<Longrightarrow> 0 < pw_slots s \<Longrightarrow> password_step s (s\<lparr>pw_waiters := pw_waiters s - 1\<rparr>)"
| finish: "0 < pw_running s \<Longrightarrow>
    password_step s (s\<lparr>pw_slots := pw_slots s + 1, pw_running := pw_running s - 1\<rparr>)"
| close: "password_step s (s\<lparr>pw_open := False\<rparr>)"

definition password_init :: password_work where
  "password_init = \<lparr>pw_waiters = 0, pw_slots = PASSWORD_PENDING_LIMIT, pw_running = 0, pw_open = True\<rparr>"

section \<open>Every write\<close>

datatype admin_op =
    CreateAdmin string new_admin
  | UpdateAdmin int admin_update
  | DeleteAdmin int
  | Bootstrap string string string
  | ChangePassword string int string string "string option" auth_db
  | ResetPassword string int string pyval
  | CreateSession session_fresh int "string option" "string option" "string option"
  | TouchSession string "string option"
  | RevokeSession string
  | RevokeAdminSessions int "string option"
  | FinishLogin admin_row "string option"

fun run_admin_op ::
  "keylib \<Rightarrow> pbkdf2 \<Rightarrow> string \<Rightarrow> permission_context option \<Rightarrow> admin_op \<Rightarrow> auth_db \<Rightarrow> auth_db result" where
  "run_admin_op K kdf now P (CreateAdmin salt n) db = bindR (create_admin K kdf salt now P n db) (\<lambda>x. Inr (snd x))"
| "run_admin_op K kdf now P (UpdateAdmin i q) db = update_admin K now P i q db"
| "run_admin_op K kdf now P (DeleteAdmin i) db = delete_admin K now P i db"
| "run_admin_op K kdf now P (Bootstrap salt name password) db = ensure_bootstrap_admin kdf salt now name password db"
| "run_admin_op K kdf now P (ChangePassword salt i old new sid db_read) db =
     change_admin_password kdf salt now i old new sid db_read db"
| "run_admin_op K kdf now P (ResetPassword salt i new must) db = reset_admin_password K kdf salt now P i new must db"
| "run_admin_op K kdf now P (CreateSession f i ip agent expected) db = create_session K now f i ip agent expected db"
| "run_admin_op K kdf now P (TouchSession sid ip) db = Inr (touch_session now ip sid db)"
| "run_admin_op K kdf now P (RevokeSession sid) db = Inr (revoke_session now sid db)"
| "run_admin_op K kdf now P (RevokeAdminSessions i sid) db = revoke_admin_sessions K now P i sid db"
| "run_admin_op K kdf now P (FinishLogin row ip) db = Inr (snd (finalize_authentication now ip row db))"

end
