(* ===== verification/Admin_Accounts.thy ===== *)
theory Admin_Accounts
  imports Admin_Auth Key_Caches
begin

text \<open>
  Administrator accounts: the invariant of the tables and that every call keeps it together with an
  active superadministrator, and that no call touches an account whose role is above its caller.
\<close>

section \<open>The invariant of the tables\<close>

definition admin_inv :: "auth_db \<Rightarrow> bool" where
  "admin_inv db \<longleftrightarrow>
     distinct (map a_id (admin_rows db)) \<and> distinct (map a_username (admin_rows db))
     \<and> (\<forall>a \<in> set (admin_rows db). a_id a \<le> admin_sequence db \<and> ROLE_SCOPES (a_role a) \<noteq> None)
     \<and> distinct (map s_id (session_rows db)) \<and> distinct (map s_token_hash (session_rows db))
     \<and> s_admin_id ` set (session_rows db) \<subseteq> a_id ` set (admin_rows db)"

lemma admin_invD:
  assumes "admin_inv db"
  shows "distinct (map a_id (admin_rows db))" "distinct (map a_username (admin_rows db))"
    "a \<in> set (admin_rows db) \<Longrightarrow> a_id a \<le> admin_sequence db"
    "a \<in> set (admin_rows db) \<Longrightarrow> ROLE_SCOPES (a_role a) \<noteq> None"
    "distinct (map s_id (session_rows db))" "distinct (map s_token_hash (session_rows db))"
    "s_admin_id ` set (session_rows db) \<subseteq> a_id ` set (admin_rows db)"
  using assms by (auto simp: admin_inv_def)

lemma admin_by_id_Some: "admin_by_id db i = Some a \<Longrightarrow> a \<in> set (admin_rows db) \<and> a_id a = i"
  by (auto simp: admin_by_id_def find_Some_iff)

text \<open>Changing the one row with an identifier.\<close>

lemma count_changed:
  assumes "distinct (map g xs)" and "x \<in> set xs" and "g x = i"
  shows "length (filter Q (map (\<lambda>a. if g a = i then f a else a) xs)) + (if Q x then 1 else 0)
       = length (filter Q xs) + (if Q (f x) then 1 else 0)"
  using assms
proof (induction xs)
  case (Cons y ys)
  show ?case
  proof (cases "g y = i")
    case True
    then have "y = x" using Cons.prems by (auto simp: image_iff)
    moreover have "map (\<lambda>a. if g a = i then f a else a) ys = ys"
      using Cons.prems(1) True by (intro map_idI) (auto simp: image_iff)
    ultimately show ?thesis using True by simp
  next
    case False
    then show ?thesis using Cons by auto
  qed
qed simp

lemma update_admin_row_Inr:
  assumes "update_admin_row i f db = Inr db'"
  shows "db' = db\<lparr>admin_rows := map (\<lambda>a. if a_id a = i then f a else a) (admin_rows db)\<rparr>"
    and "a \<in> set (admin_rows db) \<Longrightarrow> a_id a = i \<Longrightarrow> b \<in> set (admin_rows db) \<Longrightarrow> a_id b \<noteq> i \<Longrightarrow> a_username b \<noteq> a_username (f a)"
    and "a \<in> set (admin_rows db) \<Longrightarrow> a_id a = i \<Longrightarrow> active_superadmin a \<Longrightarrow> \<not> active_superadmin (f a) \<Longrightarrow> 1 < superadmin_count db"
  using assms by (auto simp: update_admin_row_def key_conflict_def list_ex_iff split: if_splits)

lemma update_row_inv:
  assumes inv: "admin_inv db" and up: "update_admin_row i f db = Inr db'"
    and f: "\<And>a. a_id (f a) = a_id a" "\<And>a. a \<in> set (admin_rows db) \<Longrightarrow> ROLE_SCOPES (a_role (f a)) \<noteq> None"
  shows "admin_inv db'" and "0 < superadmin_count db \<Longrightarrow> 0 < superadmin_count db'"
proof -
  note u = update_admin_row_Inr [OF up]
  let ?g = "\<lambda>a. if a_id a = i then f a else a"
  have r: "admin_rows db' = map ?g (admin_rows db)" "session_rows db' = session_rows db" "admin_sequence db' = admin_sequence db"
    by (simp_all add: u(1))
  have ids: "map a_id (map ?g (admin_rows db)) = map a_id (admin_rows db)" by (simp add: f(1))
  have names: "distinct (map a_username (map ?g (admin_rows db)))"
  proof -
    have "inj_on (\<lambda>a. a_username (?g a)) (set (admin_rows db))"
    proof (rule inj_onI)
      fix a b
      assume ab: "a \<in> set (admin_rows db)" "b \<in> set (admin_rows db)" "a_username (?g a) = a_username (?g b)"
      have one: "a_id a = a_id b \<Longrightarrow> a = b" "a_username a = a_username b \<Longrightarrow> a = b"
        using ab(1,2) admin_invD(1,2) [OF inv] by (auto simp: distinct_map inj_on_def)
      show "a = b"
      proof (cases "a_id a = a_id b")
        case False
        then show ?thesis using ab u(2) [of a b] u(2) [of b a] one(2) by (metis (full_types))
      qed (rule one(1))
    qed
    then show ?thesis using admin_invD(1) [OF inv] by (simp add: distinct_map o_def)
  qed
  have idset: "a_id ` set (admin_rows db') = a_id ` set (admin_rows db)"
    using arg_cong [OF ids, of set] by (simp only: r set_map)
  have rows: "\<forall>a \<in> set (admin_rows db'). a_id a \<le> admin_sequence db' \<and> ROLE_SCOPES (a_role a) \<noteq> None"
  proof
    fix x assume "x \<in> set (admin_rows db')"
    then obtain a where "a \<in> set (admin_rows db)" "x = ?g a" by (auto simp only: r set_map)
    then show "a_id x \<le> admin_sequence db' \<and> ROLE_SCOPES (a_role x) \<noteq> None"
      using admin_invD(3,4) [OF inv, of a] f(1) [of a] f(2) [of a] by (simp add: r)
  qed
  have sub: "s_admin_id ` set (session_rows db') \<subseteq> a_id ` set (admin_rows db')"
    using admin_invD(7) [OF inv] idset by (simp only: r)
  show "admin_inv db'"
    unfolding admin_inv_def
  proof (intro conjI)
    show "distinct (map a_id (admin_rows db'))" using admin_invD(1) [OF inv] ids by (simp only: r)
    show "distinct (map a_username (admin_rows db'))" using names by (simp only: r)
    show "\<forall>a \<in> set (admin_rows db'). a_id a \<le> admin_sequence db' \<and> ROLE_SCOPES (a_role a) \<noteq> None" by (rule rows)
    show "distinct (map s_id (session_rows db'))" using admin_invD(5) [OF inv] by (simp add: r)
    show "distinct (map s_token_hash (session_rows db'))" using admin_invD(6) [OF inv] by (simp add: r)
    show "s_admin_id ` set (session_rows db') \<subseteq> a_id ` set (admin_rows db')" by (rule sub)
  qed
  show "0 < superadmin_count db'" if pos: "0 < superadmin_count db"
  proof (cases "\<exists>a \<in> set (admin_rows db). a_id a = i")
    case True
    then obtain a where a: "a \<in> set (admin_rows db)" "a_id a = i" by blast
    have count: "superadmin_count db' + (if active_superadmin a then 1 else 0) = superadmin_count db + (if active_superadmin (f a) then 1 else 0)"
      using count_changed [OF admin_invD(1) [OF inv] a, of active_superadmin f] by (simp only: superadmin_count_def r)
    show ?thesis using count u(3) [OF a] pos by (cases "active_superadmin a"; cases "active_superadmin (f a)") simp_all
  next
    case False
    then have "map ?g (admin_rows db) = admin_rows db" by (intro map_idI) auto
    then show ?thesis using pos by (simp only: superadmin_count_def r)
  qed
qed

text \<open>Changes of sessions that keep identifiers, owners and tokens.\<close>

lemma map_sessions_inv:
  assumes "admin_inv db" and "\<And>s. s_id (g s) = s_id s \<and> s_admin_id (g s) = s_admin_id s \<and> s_token_hash (g s) = s_token_hash s"
  shows "admin_inv (db\<lparr>session_rows := map g (session_rows db)\<rparr>)"
    and "superadmin_count (db\<lparr>session_rows := map g (session_rows db)\<rparr>) = superadmin_count db"
  using assms by (auto simp: admin_inv_def superadmin_count_def o_def)

lemma revoke_where_inv:
  assumes "admin_inv db"
  shows "admin_inv (revoke_sessions_where p now db)" "superadmin_count (revoke_sessions_where p now db) = superadmin_count db"
  unfolding revoke_sessions_where_def by (rule map_sessions_inv [OF assms]; simp)+

lemma insert_admin_inv:
  assumes "admin_inv db" and "insert_admin a db = Inr (i, db')"
  shows "admin_inv db'" and "superadmin_count db \<le> superadmin_count db'"
proof -
  have ins: "a_username a \<notin> a_username ` set (admin_rows db)" "ROLE_SCOPES (a_role a) \<noteq> None"
    "db' = db\<lparr>admin_rows := admin_rows db @ [a\<lparr>a_id := admin_sequence db + 1\<rparr>], admin_sequence := admin_sequence db + 1\<rparr>"
    using assms(2) by (auto simp: insert_admin_def key_conflict_def Let_def split: if_splits)
  have new: "admin_sequence db + 1 \<notin> a_id ` set (admin_rows db)" using admin_invD(3) [OF assms(1)] by fastforce
  show "admin_inv db'"
    using admin_invD [OF assms(1)] ins new unfolding admin_inv_def by fastforce
  show "superadmin_count db \<le> superadmin_count db'" by (simp add: superadmin_count_def ins(3))
qed

lemma one_key: "distinct (map g xs) \<Longrightarrow> \<forall>x \<in> set xs. g x = i \<Longrightarrow> length xs \<le> 1"
proof (cases xs)
  case (Cons y ys)
  then show "distinct (map g xs) \<Longrightarrow> \<forall>x \<in> set xs. g x = i \<Longrightarrow> length xs \<le> 1" by (cases ys) auto
qed simp

lemma delete_admin_row_inv:
  assumes inv: "admin_inv db" and "delete_admin_row i db = Inr db'" and pos: "0 < superadmin_count db"
  shows "admin_inv db'" and "0 < superadmin_count db'"
proof -
  have d: "admin_rows db' = filter (\<lambda>a. a_id a \<noteq> i) (admin_rows db)" "session_rows db' = filter (\<lambda>s. s_admin_id s \<noteq> i) (session_rows db)"
    "admin_sequence db' = admin_sequence db"
    and c: "\<And>a. a \<in> set (admin_rows db) \<Longrightarrow> a_id a = i \<Longrightarrow> active_superadmin a \<Longrightarrow> 1 < superadmin_count db"
    using assms(2) by (auto simp: delete_admin_row_def list_ex_iff split: if_splits)
  show "admin_inv db'"
    using admin_invD [OF inv] unfolding admin_inv_def d by (auto simp: distinct_map_filter)
  show "0 < superadmin_count db'"
  proof (rule ccontr)
    assume "\<not> 0 < superadmin_count db'"
    then have none: "\<And>a. a \<in> set (admin_rows db) \<Longrightarrow> active_superadmin a \<Longrightarrow> a_id a = i"
      by (auto simp: superadmin_count_def d filter_empty_conv)
    obtain a where a: "a \<in> set (admin_rows db)" "active_superadmin a"
      using pos by (auto simp: superadmin_count_def filter_empty_conv)
    have "superadmin_count db \<le> 1"
      unfolding superadmin_count_def using none admin_invD(1) [OF inv]
      by (intro one_key [where g = a_id and i = i]) (auto simp: distinct_map_filter)
    then show False using c [OF a(1) none [OF a] a(2)] by simp
  qed
qed

lemma create_session_inv:
  assumes "admin_inv db" and "create_session K now f i ip agent expected db = Inr db'"
  shows "admin_inv db'" and "superadmin_count db' = superadmin_count db"
proof -
  obtain x where x: "db' = db\<lparr>session_rows := session_rows db @ [x]\<rparr>" "s_id x \<notin> s_id ` set (session_rows db)"
    "s_token_hash x \<notin> s_token_hash ` set (session_rows db)" "s_admin_id x \<in> a_id ` set (admin_rows db)"
    using assms(2) by (fastforce simp: create_session_def key_conflict_def list_ex_iff split: if_splits)
  show "admin_inv db'" using assms(1) x(2-) by (simp add: admin_inv_def x(1))
  show "superadmin_count db' = superadmin_count db" by (simp add: superadmin_count_def x(1))
qed

lemma map_admins_inv:
  assumes "admin_inv db" and g: "\<And>a. a_id (g a) = a_id a" "\<And>a. a_username (g a) = a_username a"
    "\<And>a. a_role (g a) = a_role a" "\<And>a. a_is_active (g a) = a_is_active a"
  shows "admin_inv (db\<lparr>admin_rows := map g (admin_rows db)\<rparr>)"
    and "superadmin_count (db\<lparr>admin_rows := map g (admin_rows db)\<rparr>) = superadmin_count db"
proof -
  have "active_superadmin (g a) = active_superadmin a" for a by (simp add: active_superadmin_def g)
  then show "superadmin_count (db\<lparr>admin_rows := map g (admin_rows db)\<rparr>) = superadmin_count db"
    by (simp add: superadmin_count_def filter_map o_def)
  show "admin_inv (db\<lparr>admin_rows := map g (admin_rows db)\<rparr>)"
    using assms(1) by (simp add: admin_inv_def o_def g image_image)
qed

lemma finalize_inv:
  assumes "admin_inv db"
  shows "admin_inv (snd (finalize_authentication now ip row db))"
    and "superadmin_count (snd (finalize_authentication now ip row db)) = superadmin_count db"
  unfolding finalize_authentication_def snd_conv by (rule map_admins_inv [OF assms]; simp)+

text \<open>What the operations leave.\<close>

lemma normalize_role_ok: "normalize_role v = Inr r \<Longrightarrow> ROLE_SCOPES r \<noteq> None"
  by (auto simp: normalize_role_def split: if_splits)

lemma new_role_ok:
  assumes "optR normalize_role v = Inr role" "ROLE_SCOPES r \<noteq> None"
  shows "ROLE_SCOPES (new_or role r) \<noteq> None"
  using assms by (cases v) (auto simp: optR_def new_or_def bindR_Inr_iff dest: normalize_role_ok)

lemma update_admin_Inr:
  assumes "update_admin K now P i q db = Inr db'"
  obtains "db' = db"
  | current a f db1 where "transaction_admin_principal K now [''admins.write''] P db = Inr current"
    "admin_by_id db i = Some a" "assert_role_within_principal current (a_role a) = Inr ()"
    "assert_role_within_principal current (a_role (f a)) = Inr ()" "update_admin_row i f db = Inr db1"
    "\<And>a. a_id (f a) = a_id a" "\<And>a. ROLE_SCOPES (a_role a) \<noteq> None \<Longrightarrow> ROLE_SCOPES (a_role (f a)) \<noteq> None"
    "db' = (if a_is_active a \<and> \<not> a_is_active (f a) then revoke_admin_sessions_in_connection i now None db1 else db1)"
proof -
  obtain username display_name role is_active must where n: "optR normalize_username (au_username q) = Inr username"
    "optR normalize_display_name (au_display_name q) = Inr display_name" "optR normalize_role (au_role q) = Inr role"
    "optR (key_coerce_bool ''is_active'') (au_is_active q) = Inr is_active"
    "optR (key_coerce_bool ''must_change_password'') (au_must_change q) = Inr must"
    using assms by (auto simp: update_admin_def bindR_Inr_iff)
  note u = assms [unfolded update_admin_def n bindR.simps]
  show thesis
  proof (cases "username = None \<and> display_name = None \<and> role = None \<and> is_active = None \<and> must = None")
    case True
    then show thesis using u that(1) by (auto split: option.splits)
  next
    case False
    let ?f = "apply_admin_update now username display_name role is_active must"
    have f: "a_id (?f a) = a_id a" "a_role (?f a) = new_or role (a_role a)" "a_is_active (?f a) = new_or is_active (a_is_active a)" for a
      by (simp_all add: apply_admin_update_def)
    have u': "bindR (transaction_admin_principal K now [''admins.write''] P db) (\<lambda>current.
       case admin_by_id db i of
         None \<Rightarrow> Inl (LookupError ''admin not found'')
       | Some a \<Rightarrow>
           bindR (assert_role_within_principal current (a_role a)) (\<lambda>_.
           bindR (assert_role_within_principal current (new_or role (a_role a))) (\<lambda>_.
           bindR (ensure_active_superadmin_remains a (new_or role (a_role a)) (new_or is_active (a_is_active a)) False db) (\<lambda>_.
           bindR (update_admin_row i ?f db) (\<lambda>db1.
             Inr (if a_is_active a \<and> \<not> new_or is_active (a_is_active a)
                  then revoke_admin_sessions_in_connection i now None db1 else db1)))))) = Inr db'"
      using u False by (simp only: if_False)
    obtain current where c: "transaction_admin_principal K now [''admins.write''] P db = Inr current"
      using u' by (auto simp: bindR_Inr_iff)
    obtain a where a: "admin_by_id db i = Some a" using u' c by (cases "admin_by_id db i") auto
    obtain db1 where "assert_role_within_principal current (a_role a) = Inr ()"
      "assert_role_within_principal current (new_or role (a_role a)) = Inr ()" "update_admin_row i ?f db = Inr db1"
      "db' = (if a_is_active a \<and> \<not> new_or is_active (a_is_active a) then revoke_admin_sessions_in_connection i now None db1 else db1)"
      using u' c a by (auto simp: bindR_Inr_iff)
    then show thesis using that(2) [of current a ?f db1] c a f new_role_ok [OF n(3)] by simp
  qed
qed

lemma delete_admin_Inr:
  assumes "delete_admin K now P i db = Inr db'"
  obtains current a where "transaction_admin_principal K now [''admins.write''] P db = Inr current"
    "admin_by_id db i = Some a" "assert_role_within_principal current (a_role a) = Inr ()" "delete_admin_row i db = Inr db'"
proof -
  obtain current where c: "transaction_admin_principal K now [''admins.write''] P db = Inr current"
    using assms by (auto simp: delete_admin_def bindR_Inr_iff)
  obtain a where a: "admin_by_id db i = Some a"
    using assms c by (cases "admin_by_id db i") (auto simp: delete_admin_def)
  show thesis using that [OF c a] assms c a by (auto simp: delete_admin_def bindR_Inr_iff)
qed

lemma reset_password_Inr:
  assumes "reset_admin_password K kdf salt now P i new must db = Inr db'"
  obtains current a m db1 where "transaction_admin_principal K now [''admins.credentials.write''] P db = Inr current"
    "admin_by_id db i = Some a" "assert_role_within_principal current (a_role a) = Inr ()"
    "update_admin_row i (set_password (hash_password kdf salt new) m now) db = Inr db1"
    "db' = revoke_admin_sessions_in_connection i now None db1"
proof -
  obtain m current where m: "key_coerce_bool ''must_change_password'' must = Inr m" "validate_new_password new = Inr ()"
    and c: "transaction_admin_principal K now [''admins.credentials.write''] P db = Inr current"
    using assms by (auto simp: reset_admin_password_def bindR_Inr_iff)
  obtain a where a: "admin_by_id db i = Some a"
    using assms c m by (cases "admin_by_id db i") (auto simp: reset_admin_password_def)
  show thesis using that [OF c a] assms c a m by (auto simp: reset_admin_password_def bindR_Inr_iff)
qed

lemma change_password_Inr:
  assumes "change_admin_password kdf salt now i old new sid db_read db = Inr db'"
  obtains hash expected db1 where
    "update_admin_row i (\<lambda>a. if a_is_active a \<and> a_password_hash a = expected then set_password hash False now a else a) db = Inr db1"
    "db' = revoke_admin_sessions_in_connection i now sid db1"
  using assms
  by (auto simp: change_admin_password_def commit_password_def bindR_Inr_iff split: if_splits option.splits)

lemma create_admin_Inr:
  assumes "create_admin K kdf salt now P n db = Inr (i, db')"
  obtains current a where "transaction_admin_principal K now [''admins.write'', ''admins.credentials.write''] P db = Inr current"
    "assert_role_within_principal current (a_role a) = Inr ()" "insert_admin a db = Inr (i, db')"
proof -
  obtain username role display_name active must current where
    c: "transaction_admin_principal K now [''admins.write'', ''admins.credentials.write''] P db = Inr current"
    and r: "assert_role_within_principal current role = Inr ()"
    and ins: "insert_admin \<lparr>a_id = 0, a_username = username, a_display_name = display_name,
         a_password_hash = hash_password kdf salt (na_password n), a_role = role, a_is_active = active,
         a_must_change_password = must, a_created_at = now, a_updated_at = now, a_last_login_at = None,
         a_last_login_ip = None\<rparr> db = Inr (i, db')"
    using assms by (auto simp: create_admin_def bindR_Inr_iff)
  show thesis by (rule that [OF c _ ins]) (simp add: r)
qed

lemma set_password_columns [simp]:
  "a_id (set_password h m now a) = a_id a" "a_role (set_password h m now a) = a_role a"
  by (simp_all add: set_password_def)

lemma revoke_in_connection_inv:
  assumes "admin_inv db"
  shows "admin_inv (revoke_admin_sessions_in_connection i now sid db)"
    "superadmin_count (revoke_admin_sessions_in_connection i now sid db) = superadmin_count db"
  using revoke_where_inv [OF assms] by (simp_all add: revoke_admin_sessions_in_connection_def)

lemma run_admin_op_inv:
  assumes inv: "admin_inv db" and pos: "0 < superadmin_count db" and run: "run_admin_op K kdf now P op db = Inr db'"
  shows "admin_inv db' \<and> 0 < superadmin_count db'"
proof (cases op)
  case (CreateAdmin salt n)
  then obtain i where "create_admin K kdf salt now P n db = Inr (i, db')" using run by (auto simp: bindR_Inr_iff)
  then show ?thesis by (rule create_admin_Inr) (use insert_admin_inv [OF inv] pos in fastforce)
next
  case (UpdateAdmin i q)
  then have "update_admin K now P i q db = Inr db'" using run by simp
  then show ?thesis
  proof (rule update_admin_Inr)
    fix current a f db1
    assume up: "update_admin_row i f db = Inr db1" and f: "\<And>a. a_id (f a) = a_id a"
      "\<And>a. ROLE_SCOPES (a_role a) \<noteq> None \<Longrightarrow> ROLE_SCOPES (a_role (f a)) \<noteq> None"
      and db': "db' = (if a_is_active a \<and> \<not> a_is_active (f a) then revoke_admin_sessions_in_connection i now None db1 else db1)"
    have "admin_inv db1" "0 < superadmin_count db1"
      using update_row_inv [OF inv up f(1)] f(2) admin_invD(4) [OF inv] pos by blast+
    then show ?thesis using revoke_in_connection_inv [of db1 i now None] by (simp add: db')
  qed (use inv pos in simp)
next
  case (DeleteAdmin i)
  then have "delete_admin K now P i db = Inr db'" using run by simp
  then show ?thesis by (rule delete_admin_Inr) (use delete_admin_row_inv [OF inv _ pos] in blast)
next
  case (Bootstrap salt name password)
  then show ?thesis
    using run inv pos insert_admin_inv [OF inv]
    by (auto simp: ensure_bootstrap_admin_def superadmin_count_def bindR_Inr_iff split: if_splits)
next
  case (ChangePassword salt i old new sid db_read)
  then have "change_admin_password kdf salt now i old new sid db_read db = Inr db'" using run by simp
  then show ?thesis
  proof (rule change_password_Inr)
    fix hash expected db1
    let ?f = "\<lambda>a. if a_is_active a \<and> a_password_hash a = expected then set_password hash False now a else a"
    assume up: "update_admin_row i ?f db = Inr db1" and db': "db' = revoke_admin_sessions_in_connection i now sid db1"
    have "admin_inv db1" "0 < superadmin_count db1"
      using update_row_inv [OF inv up] admin_invD(4) [OF inv] pos by simp_all
    then show ?thesis using revoke_in_connection_inv [of db1 i now sid] by (simp add: db')
  qed
next
  case (ResetPassword salt i new must)
  then have "reset_admin_password K kdf salt now P i new must db = Inr db'" using run by simp
  then show ?thesis
  proof (rule reset_password_Inr)
    fix current a m db1
    assume up: "update_admin_row i (set_password (hash_password kdf salt new) m now) db = Inr db1"
      and db': "db' = revoke_admin_sessions_in_connection i now None db1"
    have "admin_inv db1" "0 < superadmin_count db1"
      using update_row_inv [OF inv up] admin_invD(4) [OF inv] pos by simp_all
    then show ?thesis using revoke_in_connection_inv [of db1 i now None] by (simp add: db')
  qed
next
  case (CreateSession f i ip agent expected)
  then show ?thesis using run create_session_inv [OF inv, of K now f i ip agent expected db'] pos by simp
next
  case (TouchSession sid ip)
  then have db': "db' = touch_session now ip sid db" using run by simp
  show ?thesis
    using pos map_sessions_inv [OF inv, of "\<lambda>s. if s_id s = sid \<and> s_revoked_at s = None
         then s\<lparr>s_last_seen_at := Some now, s_last_ip := (case ip of None \<Rightarrow> s_last_ip s | Some x \<Rightarrow> Some x)\<rparr> else s"]
    by (simp add: db' touch_session_def)
next
  case (RevokeSession sid)
  then show ?thesis using run pos revoke_where_inv [OF inv] by (auto simp: revoke_session_def)
next
  case (RevokeAdminSessions i sid)
  then show ?thesis
    using run pos revoke_in_connection_inv [OF inv]
    by (auto simp: revoke_admin_sessions_def bindR_Inr_iff split: option.splits)
next
  case (FinishLogin row ip)
  then show ?thesis using run pos finalize_inv [OF inv, of now ip row] by simp
qed

section \<open>Sequences of calls\<close>

text \<open>Transactions one after the other; a call that raises is rolled back.\<close>

record admin_call =
  call_now :: string
  call_actor :: "permission_context option"
  call_op :: admin_op

definition admin_next :: "keylib \<Rightarrow> pbkdf2 \<Rightarrow> admin_call \<Rightarrow> auth_db \<Rightarrow> auth_db" where
  "admin_next K kdf c db =
     (case run_admin_op K kdf (call_now c) (call_actor c) (call_op c) db of Inl _ \<Rightarrow> db | Inr db' \<Rightarrow> db')"

definition run_admin_calls :: "keylib \<Rightarrow> pbkdf2 \<Rightarrow> admin_call list \<Rightarrow> auth_db \<Rightarrow> auth_db" where
  "run_admin_calls K kdf calls db = fold (admin_next K kdf) calls db"

definition admin_step :: "keylib \<Rightarrow> pbkdf2 \<Rightarrow> auth_db \<Rightarrow> auth_db \<Rightarrow> bool" where
  "admin_step K kdf db db' \<longleftrightarrow> (\<exists>c. db' = admin_next K kdf c db)"

definition admin_start :: "pbkdf2 \<Rightarrow> auth_db \<Rightarrow> bool" where
  "admin_start kdf db \<longleftrightarrow>
     (\<exists>salt now name password db0. admin_rows db0 = [] \<and> session_rows db0 = []
        \<and> ensure_bootstrap_admin kdf salt now name password db0 = Inr db)"

lemma admin_next_inv:
  assumes "admin_inv db \<and> 0 < superadmin_count db"
  shows "admin_inv (admin_next K kdf c db) \<and> 0 < superadmin_count (admin_next K kdf c db)"
proof (cases "run_admin_op K kdf (call_now c) (call_actor c) (call_op c) db")
  case (Inr db')
  then show ?thesis using run_admin_op_inv [of db K kdf] assms by (simp add: admin_next_def)
qed (use assms in \<open>simp add: admin_next_def\<close>)

interpretation admin_sys: step_system "admin_start kdf" "admin_step K kdf"
  "\<lambda>db. admin_inv db \<and> 0 < superadmin_count db" for K kdf
proof
  fix db db'
  show "admin_inv db \<and> 0 < superadmin_count db" if st: "admin_start kdf db"
  proof -
    obtain salt now name password db0 where z: "admin_rows db0 = []" "session_rows db0 = []"
      "ensure_bootstrap_admin kdf salt now name password db0 = Inr db"
      using st unfolding admin_start_def by blast
    let ?a = "\<lparr>a_id = admin_sequence db0 + 1, a_username = name, a_display_name = None,
             a_password_hash = hash_password kdf salt password, a_role = ''superadmin'', a_is_active = True,
             a_must_change_password = True, a_created_at = now, a_updated_at = now, a_last_login_at = None,
             a_last_login_ip = None\<rparr>"
    have "db = db0\<lparr>admin_rows := [?a], admin_sequence := admin_sequence db0 + 1\<rparr>" "ROLE_SCOPES ''superadmin'' \<noteq> None"
      using z by (auto simp: ensure_bootstrap_admin_def insert_admin_def key_conflict_def Let_def split: if_splits)
    then show ?thesis using z(2) by (simp add: admin_inv_def superadmin_count_def active_superadmin_def)
  qed
  show "admin_inv db' \<and> 0 < superadmin_count db'"
    if "admin_inv db \<and> 0 < superadmin_count db" "admin_step K kdf db db'"
    using that admin_next_inv by (auto simp: admin_step_def)
qed

lemma run_admin_calls_steps: "(admin_step K kdf)\<^sup>*\<^sup>* db (run_admin_calls K kdf calls db)"
proof (induction calls arbitrary: db)
  case (Cons c cs)
  have "admin_step K kdf db (admin_next K kdf c db)" by (auto simp: admin_step_def)
  then show ?case using Cons [of "admin_next K kdf c db"] by (simp add: run_admin_calls_def)
qed (simp add: run_admin_calls_def)

section \<open>The reach of an administrator\<close>

definition role_within :: "permission_context \<Rightarrow> string \<Rightarrow> bool" where
  "role_within p role \<longleftrightarrow> (\<exists>ss. ROLE_SCOPES role = Some ss \<and> set ss \<subseteq> set (effective_scopes (scopes p)))"

fun op_scopes :: "admin_op \<Rightarrow> string list" where
  "op_scopes (CreateAdmin salt n) = [''admins.write'', ''admins.credentials.write'']"
| "op_scopes (UpdateAdmin i q) = [''admins.write'']"
| "op_scopes (DeleteAdmin i) = [''admins.write'']"
| "op_scopes (ResetPassword salt i new must) = [''admins.credentials.write'']"
| "op_scopes (RevokeAdminSessions i sid) = [''admins.sessions.write'']"
| "op_scopes _ = []"

lemma role_within: "assert_role_within_principal (Some c) role = Inr x \<Longrightarrow> \<not> legacy_credential c \<Longrightarrow> role_within c role"
  by (auto simp: assert_role_within_principal_def role_within_def split: option.splits if_splits)

text \<open>What a call may touch: rows of administrators, and sessions of administrators, within a role.\<close>

definition touched_within :: "permission_context \<Rightarrow> auth_db \<Rightarrow> auth_db \<Rightarrow> bool" where
  "touched_within c db db' \<longleftrightarrow>
     (\<forall>a. (a \<in> set (admin_rows db)) \<noteq> (a \<in> set (admin_rows db')) \<longrightarrow> role_within c (a_role a))
     \<and> (\<forall>s. (s \<in> set (session_rows db)) \<noteq> (s \<in> set (session_rows db')) \<longrightarrow>
          (\<exists>a \<in> set (admin_rows db). a_id a = s_admin_id s \<and> role_within c (a_role a)))"

lemma touched_refl [simp]: "touched_within c db db"
  by (simp add: touched_within_def)

lemma touched_row:
  assumes "distinct (map a_id (admin_rows db))" and "a \<in> set (admin_rows db)" and "a_id a = i"
    and "\<And>b. b \<in> set (admin_rows db) \<Longrightarrow> a_id b \<noteq> i \<Longrightarrow> b \<in> set (admin_rows db')"
    and "\<And>b. b \<in> set (admin_rows db') \<Longrightarrow> b \<in> set (admin_rows db) \<or> b = f a"
    and "\<And>s. s_admin_id s \<noteq> i \<Longrightarrow> s \<in> set (session_rows db) \<longleftrightarrow> s \<in> set (session_rows db')"
    and "role_within c (a_role a)" "role_within c (a_role (f a))"
  shows "touched_within c db db'"
proof -
  have one: "b = a" if "b \<in> set (admin_rows db)" "a_id b = i" for b
    using assms(1-3) that by (auto simp: distinct_map inj_on_def)
  have "role_within c (a_role b)" if b: "(b \<in> set (admin_rows db)) \<noteq> (b \<in> set (admin_rows db'))" for b
  proof (cases "b \<in> set (admin_rows db)")
    case True
    then show ?thesis using assms(4) [of b] b one [of b] assms(7) by blast
  next
    case False
    then show ?thesis using assms(5) [of b] b assms(8) by blast
  qed
  moreover have "\<exists>a \<in> set (admin_rows db). a_id a = s_admin_id s \<and> role_within c (a_role a)"
    if "(s \<in> set (session_rows db)) \<noteq> (s \<in> set (session_rows db'))" for s
  proof -
    have "s_admin_id s = i" using assms(6) [of s] that by blast
    then show ?thesis using assms(2,3,7) by auto
  qed
  ultimately show ?thesis by (simp add: touched_within_def)
qed

lemma revoke_other_sessions:
  "s_admin_id s \<noteq> i \<Longrightarrow>
     s \<in> set (session_rows (revoke_admin_sessions_in_connection i now sid db)) \<longleftrightarrow> s \<in> set (session_rows db)"
  by (auto simp: revoke_admin_sessions_in_connection_def revoke_sessions_where_def image_iff split: if_splits)
     (metis+)?

lemma revoke_rows [simp]:
  "admin_rows (revoke_admin_sessions_in_connection i now sid db) = admin_rows db"
  "admin_sequence (revoke_admin_sessions_in_connection i now sid db) = admin_sequence db"
  by (simp_all add: revoke_admin_sessions_in_connection_def revoke_sessions_where_def)

lemma touched_update:
  assumes inv: "admin_inv db" and a: "admin_by_id db i = Some a" and up: "update_admin_row i f db = Inr db1"
    and "role_within c (a_role a)" "role_within c (a_role (f a))"
    and db': "db' = db1 \<or> db' = revoke_admin_sessions_in_connection i now sid db1"
  shows "touched_within c db db'"
proof (rule touched_row [where a = a and i = i and f = f])
  note r = update_admin_row_Inr(1) [OF up]
  have one: "b = a" if "b \<in> set (admin_rows db)" "a_id b = i" for b
    using admin_invD(1) [OF inv] admin_by_id_Some [OF a] that by (auto simp: distinct_map inj_on_def)
  have rows: "admin_rows db' = map (\<lambda>a. if a_id a = i then f a else a) (admin_rows db)" using db' by (auto simp: r)
  show "b \<in> set (admin_rows db')" if "b \<in> set (admin_rows db)" "a_id b \<noteq> i" for b
    using that unfolding rows set_map by (intro image_eqI [of _ _ b]) simp_all
  show "b \<in> set (admin_rows db) \<or> b = f a" if "b \<in> set (admin_rows db')" for b
    using that one unfolding rows set_map by (auto split: if_splits)
  show "s \<in> set (session_rows db) \<longleftrightarrow> s \<in> set (session_rows db')" if "s_admin_id s \<noteq> i" for s
    using db' revoke_other_sessions [OF that, of now sid db1] by (auto simp: r)
qed (use admin_invD(1) [OF inv] admin_by_id_Some [OF a] assms in auto)

lemma touched_insert:
  assumes "insert_admin a db = Inr (i, db')" and "role_within c (a_role a)"
  shows "touched_within c db db'"
  using assms by (auto simp: insert_admin_def key_conflict_def touched_within_def Let_def split: if_splits)

lemma touched_delete:
  assumes inv: "admin_inv db" and a: "admin_by_id db i = Some a" and "delete_admin_row i db = Inr db'"
    and "role_within c (a_role a)"
  shows "touched_within c db db'"
proof (rule touched_row [where a = a and i = i and f = id])
  have d: "admin_rows db' = filter (\<lambda>a. a_id a \<noteq> i) (admin_rows db)" "session_rows db' = filter (\<lambda>s. s_admin_id s \<noteq> i) (session_rows db)"
    using assms(3) by (auto simp: delete_admin_row_def split: if_splits)
  show "b \<in> set (admin_rows db')" if "b \<in> set (admin_rows db)" "a_id b \<noteq> i" for b using that by (simp add: d)
  show "b \<in> set (admin_rows db) \<or> b = id a" if "b \<in> set (admin_rows db')" for b using that by (simp add: d)
  show "s \<in> set (session_rows db) \<longleftrightarrow> s \<in> set (session_rows db')" if "s_admin_id s \<noteq> i" for s using that by (simp add: d)
qed (use admin_invD(1) [OF inv] admin_by_id_Some [OF a] assms in auto)

lemma touched_revoke:
  assumes inv: "admin_inv db" and a: "admin_by_id db i = Some a" and "role_within c (a_role a)"
  shows "touched_within c db (revoke_admin_sessions_in_connection i now sid db)"
  by (rule touched_row [where a = a and i = i and f = id])
     (use admin_invD(1) [OF inv] admin_by_id_Some [OF a] assms in \<open>auto simp: revoke_other_sessions\<close>)

text \<open>The principal of the transaction.\<close>

definition same_caller :: "permission_context \<Rightarrow> permission_context \<Rightarrow> bool" where
  "same_caller p c \<longleftrightarrow> \<not> legacy_credential c \<and> api_key_id c = api_key_id p
     \<and> (api_key_id p \<noteq> None \<longrightarrow> admin_session_id c = None)
     \<and> (api_key_id p = None \<longrightarrow> admin_session_id c = admin_session_id p \<and> (admin_id p = None \<or> admin_id c = admin_id p))"

lemma session_authority_any:
  "session_authority now sid aid A db \<Longrightarrow> bid = None \<or> aid = bid \<Longrightarrow> session_authority now sid bid A db"
  unfolding session_authority_def live_session_def by blast

lemma stored_authority_trans:
  assumes "same_caller p c" "stored_authority K now p c db" "stored_authority K now c d db"
  shows "stored_authority K now p d db"
  using assms session_authority_any [of now _ "admin_id c" d db "admin_id p"]
  by (auto simp: stored_authority_def same_caller_def split: option.splits)

lemma same_caller_trans: "same_caller p c \<Longrightarrow> same_caller c d \<Longrightarrow> same_caller p d"
  by (auto simp: same_caller_def)

lemma authorize_scopes_caller:
  assumes "authorize_scopes K now required (Some p) db = Inr current" and "\<not> legacy_credential p" and "required \<noteq> []"
  shows "\<exists>c. current = Some c \<and> same_caller p c \<and> stored_authority K now p c db"
  using assms
proof (induction required arbitrary: p)
  case (Cons x xs)
  obtain y where y: "transaction_authorization_principal K now x True None (Some p) db = Inr y"
    "authorize_scopes K now xs y db = Inr current" using Cons.prems by (auto simp: bindR_Inr_iff)
  obtain c where c: "y = Some c" "same_caller p c" "stored_authority K now p c db"
    by (rule authorization_principal [OF y(1) Cons.prems(2)]) (simp add: same_caller_def)
  show ?case
  proof (cases "xs = []")
    case False
    have "\<not> legacy_credential c" using c(2) by (simp add: same_caller_def)
    then obtain d where "current = Some d" "same_caller c d" "stored_authority K now c d db"
      using Cons.IH y(2) c(1) False by blast
    then show ?thesis using c same_caller_trans stored_authority_trans by blast
  qed (use y c in auto)
qed simp

text \<open>
  What the tables grant the caller when its transaction runs.
\<close>

lemma admin_principal:
  assumes "transaction_admin_principal K now required (Some p) db = Inr current" and "\<not> legacy_credential p"
    and "required \<noteq> []"
  obtains c where "current = Some c" "\<not> legacy_credential c" "domain_grant_mode c = ''all''"
    "\<forall>s \<in> set required. has_required_scope s (scopes c)" "stored_authority K now p c db"
proof -
  obtain x where x: "authorize_scopes K now required (Some p) db = Inr x"
    using assms by (auto simp: transaction_admin_principal_def bindR_Inr_iff)
  obtain q where q: "x = Some q" "same_caller p q" "stored_authority K now p q db"
    using authorize_scopes_caller [OF x assms(2,3)] by blast
  have l: "\<not> legacy_credential q" using q(2) by (simp add: same_caller_def)
  obtain c where c: "reload_admin now q db = Inr c" and cur: "current = Some c"
    and ok: "find (\<lambda>s. \<not> has_required_scope s (scopes c)) required = None" "domain_grant_mode c = ''all''"
    using assms x q(1) l
    by (auto simp: transaction_admin_principal_def bindR_Inr_iff split: option.splits if_splits)
  have r: "\<not> legacy_credential c \<and> stored_authority K now p c db"
  proof (cases "admin_session_id q")
    case (Some sid)
    then obtain d n where d: "acting_admin now sid (admin_id q) db = Inr d" "c = d\<lparr>ctx_name := n\<rparr>"
      using c by (auto simp: reload_admin_def bindR_Inr_iff)
    then have "session_authority now sid (admin_id q) c db" "\<not> legacy_credential c"
      using acting_admin_Inr [OF d(1)] by (simp_all add: session_authority_def)
    moreover have "api_key_id q = None" using q(2) Some by (auto simp: same_caller_def)
    ultimately show ?thesis
      using stored_authority_trans [OF q(2,3), of c] Some by (simp add: stored_authority_def)
  qed (use c l q in \<open>simp add: reload_admin_def\<close>)
  show thesis
  proof (rule that [OF cur])
    show "\<forall>s \<in> set required. has_required_scope s (scopes c)" using ok(1) by (auto simp: find_None_iff)
  qed (use r ok in simp_all)
qed

lemma principal_Some:
  assumes "transaction_admin_principal K now required (Some p) db = Inr current" and "\<not> legacy_credential p" and "required \<noteq> []"
    and "\<And>c. current = Some c \<Longrightarrow> \<not> legacy_credential c \<Longrightarrow> touched_within c db db'"
  shows "\<exists>c. transaction_admin_principal K now required (Some p) db = Inr (Some c) \<and> touched_within c db db'"
  by (rule admin_principal [OF assms(1-3)]) (use assms in blast)

lemma run_admin_op_within:
  assumes inv: "admin_inv db" and run: "run_admin_op K kdf now (Some p) op db = Inr db'" and op: "op_scopes op \<noteq> []"
    and l: "\<not> legacy_credential p" and "db' \<noteq> db"
  shows "\<exists>c. transaction_admin_principal K now (op_scopes op) (Some p) db = Inr (Some c) \<and> touched_within c db db'"
proof (cases op)
  case (CreateAdmin salt n)
  then obtain i where "create_admin K kdf salt now (Some p) n db = Inr (i, db')" using run by (auto simp: bindR_Inr_iff)
  then show ?thesis
  proof (rule create_admin_Inr)
    fix current a
    assume t: "transaction_admin_principal K now [''admins.write'', ''admins.credentials.write''] (Some p) db = Inr current"
      and r: "assert_role_within_principal current (a_role a) = Inr ()" and ins: "insert_admin a db = Inr (i, db')"
    show ?thesis
      unfolding CreateAdmin op_scopes.simps by (rule principal_Some [OF t l list.discI [OF refl]]) (use r touched_insert [OF ins] role_within in blast)
  qed
next
  case (UpdateAdmin i q)
  then have "update_admin K now (Some p) i q db = Inr db'" using run by simp
  then show ?thesis
  proof (rule update_admin_Inr)
    fix current a f db1
    assume t: "transaction_admin_principal K now [''admins.write''] (Some p) db = Inr current" and a: "admin_by_id db i = Some a"
      and r: "assert_role_within_principal current (a_role a) = Inr ()" "assert_role_within_principal current (a_role (f a)) = Inr ()"
      and up: "update_admin_row i f db = Inr db1"
      and db': "db' = (if a_is_active a \<and> \<not> a_is_active (f a) then revoke_admin_sessions_in_connection i now None db1 else db1)"
    have "db' = db1 \<or> db' = revoke_admin_sessions_in_connection i now None db1" using db' by simp
    then show ?thesis
      unfolding UpdateAdmin op_scopes.simps
      by (intro principal_Some [OF t l list.discI [OF refl]]) (use r touched_update [OF inv a up] role_within in blast)
  qed (use assms in simp)
next
  case (DeleteAdmin i)
  then have "delete_admin K now (Some p) i db = Inr db'" using run by simp
  then show ?thesis
  proof (rule delete_admin_Inr)
    fix current a
    assume t: "transaction_admin_principal K now [''admins.write''] (Some p) db = Inr current" and a: "admin_by_id db i = Some a"
      and r: "assert_role_within_principal current (a_role a) = Inr ()" and d: "delete_admin_row i db = Inr db'"
    show ?thesis
      unfolding DeleteAdmin op_scopes.simps
      by (rule principal_Some [OF t l list.discI [OF refl]]) (use r touched_delete [OF inv a d] role_within in blast)
  qed
next
  case (ResetPassword salt i new must)
  then have "reset_admin_password K kdf salt now (Some p) i new must db = Inr db'" using run by simp
  then show ?thesis
  proof (rule reset_password_Inr)
    fix current a m db1
    assume t: "transaction_admin_principal K now [''admins.credentials.write''] (Some p) db = Inr current"
      and a: "admin_by_id db i = Some a" and r: "assert_role_within_principal current (a_role a) = Inr ()"
      and up: "update_admin_row i (set_password (hash_password kdf salt new) m now) db = Inr db1"
      and db': "db' = revoke_admin_sessions_in_connection i now None db1"
    have "touched_within c db db'" if "role_within c (a_role a)" for c
      by (rule touched_update [OF inv a up that _ disjI2 [OF db']]) (simp add: that)
    then show ?thesis
      unfolding ResetPassword op_scopes.simps by (intro principal_Some [OF t l list.discI [OF refl]]) (use r role_within in blast)
  qed
next
  case (RevokeAdminSessions i sid)
  then obtain current where t: "transaction_admin_principal K now [''admins.sessions.write''] (Some p) db = Inr current"
    using run by (auto simp: revoke_admin_sessions_def bindR_Inr_iff)
  obtain a where a: "admin_by_id db i = Some a"
    using run t RevokeAdminSessions by (cases "admin_by_id db i") (auto simp: revoke_admin_sessions_def)
  have "assert_role_within_principal current (a_role a) = Inr ()" "db' = revoke_admin_sessions_in_connection i now sid db"
    using run t a RevokeAdminSessions by (auto simp: revoke_admin_sessions_def bindR_Inr_iff)
  then show ?thesis
    unfolding RevokeAdminSessions op_scopes.simps
    by (intro principal_Some [OF t l list.discI [OF refl]]) (use touched_revoke [OF inv a] role_within in blast)
qed (use op in simp_all)

section \<open>Sessions that have ended\<close>

definition token_dead :: "string \<Rightarrow> auth_db \<Rightarrow> bool" where
  "token_dead h db \<longleftrightarrow> (\<forall>s \<in> set (session_rows db). s_token_hash s = h \<longrightarrow> s_revoked_at s \<noteq> None)"

fun reuses_token :: "keylib \<Rightarrow> string \<Rightarrow> admin_op \<Rightarrow> bool" where
  "reuses_token K h (CreateSession f i ip agent expected) \<longleftrightarrow> sha256_hex K (sf_token f) = h"
| "reuses_token K h _ \<longleftrightarrow> False"

lemma dead_refused: "token_dead (sha256_hex K token) db \<Longrightarrow> session_admin K t token db = None"
  by (auto simp: token_dead_def session_admin_def find_Some_iff split: option.splits)

text \<open>The sessions after a committed call: old rows, perhaps revoked, touched or deleted, and the new session.\<close>

definition session_kept :: "admin_session_row \<Rightarrow> admin_session_row \<Rightarrow> bool" where
  "session_kept s s' \<longleftrightarrow> s_id s' = s_id s \<and> s_admin_id s' = s_admin_id s \<and> s_token_hash s' = s_token_hash s
     \<and> (s_revoked_at s \<noteq> None \<longrightarrow> s_revoked_at s' \<noteq> None)"

lemma session_kept_refl [simp]: "session_kept s s"
  by (simp add: session_kept_def)

lemma session_kept_trans: "session_kept s t \<Longrightarrow> session_kept t r \<Longrightarrow> session_kept s r"
  by (auto simp: session_kept_def)

definition sessions_follow :: "auth_db \<Rightarrow> auth_db \<Rightarrow> bool" where
  "sessions_follow db db' \<longleftrightarrow> (\<forall>s' \<in> set (session_rows db'). \<exists>s \<in> set (session_rows db). session_kept s s')"

lemma follow_refl [simp]: "session_rows db' = session_rows db \<Longrightarrow> sessions_follow db db'"
  by (auto simp: sessions_follow_def intro: session_kept_refl)

lemma follow_trans: "sessions_follow db db1 \<Longrightarrow> sessions_follow db1 db' \<Longrightarrow> sessions_follow db db'"
  unfolding sessions_follow_def by (meson session_kept_trans)

lemma follow_revoke [simp]: "sessions_follow db (revoke_sessions_where p now db)"
  by (auto simp: sessions_follow_def revoke_sessions_where_def session_kept_def image_iff)

lemma follow_revoke_in_connection [simp]: "sessions_follow db (revoke_admin_sessions_in_connection i now sid db)"
  by (simp add: revoke_admin_sessions_in_connection_def)

lemma follow_touch [simp]: "sessions_follow db (touch_session now ip sid db)"
  by (auto simp: sessions_follow_def touch_session_def session_kept_def image_iff)

lemma update_row_sessions: "update_admin_row i f db = Inr db' \<Longrightarrow> session_rows db' = session_rows db"
  by (drule update_admin_row_Inr(1)) simp

end
