(* ===== verification/Admin_Sessions.thy ===== *)
theory Admin_Sessions
  imports Admin_Accounts
begin

text \<open>
  Administrator sessions and logins: ended sessions stay ended, the throttle of failed logins
  agrees with a complete log, password work is bounded; and the properties of administration.
\<close>

section \<open>Ended sessions\<close>

lemma run_admin_op_follow:
  assumes run: "run_admin_op K kdf now P op db = Inr db'" and "\<nexists>f i ip agent expected. op = CreateSession f i ip agent expected"
  shows "sessions_follow db db'"
proof (cases op)
  case (CreateAdmin salt n)
  then show ?thesis
    using run by (auto simp: create_admin_def bindR_Inr_iff insert_admin_def key_conflict_def Let_def split: if_splits)
next
  case (UpdateAdmin i q)
  then have "update_admin K now P i q db = Inr db'" using run by simp
  then show ?thesis
  proof (rule update_admin_Inr)
    fix current a f db1
    assume up: "update_admin_row i f db = Inr db1"
      and "db' = (if a_is_active a \<and> \<not> a_is_active (f a) then revoke_admin_sessions_in_connection i now None db1 else db1)"
    then show ?thesis using follow_trans [OF follow_refl [OF update_row_sessions [OF up]], of db'] by simp
  qed simp
next
  case (DeleteAdmin i)
  then have "delete_admin K now P i db = Inr db'" using run by simp
  then show ?thesis
    by (rule delete_admin_Inr) (auto simp: delete_admin_row_def sessions_follow_def intro: session_kept_refl split: if_splits)
next
  case (Bootstrap salt name password)
  then show ?thesis
    using run by (auto simp: ensure_bootstrap_admin_def bindR_Inr_iff insert_admin_def key_conflict_def Let_def split: if_splits)
next
  case (ChangePassword salt i old new sid db_read)
  then have "change_admin_password kdf salt now i old new sid db_read db = Inr db'" using run by simp
  then show ?thesis
    by (rule change_password_Inr) (use follow_trans [OF follow_refl [OF update_row_sessions]] in simp)
next
  case (ResetPassword salt i new must)
  then have "reset_admin_password K kdf salt now P i new must db = Inr db'" using run by simp
  then show ?thesis
    by (rule reset_password_Inr) (use follow_trans [OF follow_refl [OF update_row_sessions]] in simp)
next
  case (RevokeAdminSessions i sid)
  then show ?thesis using run by (auto simp: revoke_admin_sessions_def bindR_Inr_iff split: option.splits)
next
  case (FinishLogin row ip)
  then show ?thesis using run by (auto simp: finalize_authentication_def)
qed (use assms in \<open>auto simp: revoke_session_def\<close>)

lemma dead_follow: "token_dead h db \<Longrightarrow> sessions_follow db db' \<Longrightarrow> token_dead h db'"
  unfolding token_dead_def sessions_follow_def session_kept_def by metis

lemma dead_next:
  assumes dead: "token_dead h db" and "\<not> reuses_token K h (call_op c)"
  shows "token_dead h (admin_next K kdf c db)"
proof (cases "run_admin_op K kdf (call_now c) (call_actor c) (call_op c) db")
  case (Inr db')
  show ?thesis
  proof (cases "\<exists>f i ip agent expected. call_op c = CreateSession f i ip agent expected")
    case True
    then show ?thesis
      using assms Inr
      by (auto simp: admin_next_def create_session_def key_conflict_def token_dead_def split: if_splits)
  next
    case False
    then have "sessions_follow db db'" by (intro run_admin_op_follow [OF Inr])
    then show ?thesis using dead_follow [OF dead] Inr by (simp add: admin_next_def)
  qed
qed (use dead in \<open>simp add: admin_next_def\<close>)

lemma dead_calls:
  "token_dead h db \<Longrightarrow> \<forall>c \<in> set calls. \<not> reuses_token K h (call_op c) \<Longrightarrow> token_dead h (run_admin_calls K kdf calls db)"
  unfolding run_admin_calls_def by (induction calls arbitrary: db) (auto simp: dead_next)

text \<open>The calls that end the sessions of an administrator, and the session they spare.\<close>

fun ends_sessions :: "admin_op \<Rightarrow> int \<Rightarrow> string option \<Rightarrow> auth_db \<Rightarrow> auth_db \<Rightarrow> bool" where
  "ends_sessions (DeleteAdmin j) i spared db db' \<longleftrightarrow> j = i"
| "ends_sessions (ResetPassword salt j new must) i spared db db' \<longleftrightarrow> j = i"
| "ends_sessions (ChangePassword salt j old new sid db_read) i spared db db' \<longleftrightarrow> j = i \<and> sid = spared"
| "ends_sessions (RevokeAdminSessions j sid) i spared db db' \<longleftrightarrow> j = i \<and> sid = spared"
| "ends_sessions (UpdateAdmin j q) i spared db db' \<longleftrightarrow>
     j = i \<and> list_ex (\<lambda>a. a_id a = i \<and> a_is_active a) (admin_rows db)
     \<and> list_ex (\<lambda>a. a_id a = i \<and> \<not> a_is_active a) (admin_rows db')"
| "ends_sessions _ i spared db db' \<longleftrightarrow> False"

lemma revoke_dead:
  assumes "distinct (map s_token_hash (session_rows db))" and "s \<in> set (session_rows db)" and "s_admin_id s = i" and "sid \<noteq> Some (s_id s)"
  shows "token_dead (s_token_hash s) (revoke_admin_sessions_in_connection i now sid db)"
proof -
  have one: "x = s" if "x \<in> set (session_rows db)" "s_token_hash x = s_token_hash s" for x
    using assms(1,2) that by (auto simp: distinct_map inj_on_def)
  show ?thesis
    using one assms(3,4)
    by (auto simp: token_dead_def revoke_admin_sessions_in_connection_def revoke_sessions_where_def split: if_splits)
qed

lemma ended_dead:
  assumes inv: "admin_inv db" and run: "run_admin_op K kdf now P op db = Inr db'"
    and ends: "ends_sessions op i spared db db'" and s: "s \<in> set (session_rows db)" "s_admin_id s = i" "spared \<noteq> Some (s_id s)"
  shows "token_dead (s_token_hash s) db'"
proof -
  note hashes = admin_invD(6) [OF inv]
  have after_update: "token_dead (s_token_hash s) (revoke_admin_sessions_in_connection i now sid db1)"
    if "update_admin_row i f db = Inr db1" "sid \<noteq> Some (s_id s)" for f db1 sid
    using revoke_dead [of db1 s i sid now] hashes s that(2) update_row_sessions [OF that(1)] by simp
  show ?thesis
  proof (cases op)
    case (DeleteAdmin j)
    then have "delete_admin K now P i db = Inr db'" using run ends by simp
    then show ?thesis
    proof (rule delete_admin_Inr)
      assume "delete_admin_row i db = Inr db'"
      then have "session_rows db' = filter (\<lambda>s. s_admin_id s \<noteq> i) (session_rows db)" by (auto simp: delete_admin_row_def split: if_splits)
      then show ?thesis using hashes s by (auto simp: token_dead_def distinct_map inj_on_def)
    qed
  next
    case (ResetPassword salt j new must)
    then have "reset_admin_password K kdf salt now P i new must db = Inr db'" using run ends by simp
    then show ?thesis by (rule reset_password_Inr) (use after_update in simp)
  next
    case (ChangePassword salt j old new sid db_read)
    then have "change_admin_password kdf salt now i old new spared db_read db = Inr db'" using run ends by simp
    then show ?thesis by (rule change_password_Inr) (use after_update s(3) in simp)
  next
    case (RevokeAdminSessions j sid)
    then have "db' = revoke_admin_sessions_in_connection i now spared db"
      using run ends by (auto simp: revoke_admin_sessions_def bindR_Inr_iff split: option.splits)
    then show ?thesis using revoke_dead [OF hashes s] by simp
  next
    case (UpdateAdmin j q)
    then have "update_admin K now P i q db = Inr db'" and e: "list_ex (\<lambda>a. a_id a = i \<and> a_is_active a) (admin_rows db)"
      "list_ex (\<lambda>a. a_id a = i \<and> \<not> a_is_active a) (admin_rows db')" using run ends by simp_all
    from this(1) show ?thesis
    proof (rule update_admin_Inr)
      assume "db' = db"
      then show ?thesis using e admin_invD(1) [OF inv] by (auto simp: list_ex_iff distinct_map inj_on_def)
    next
      fix current a f db1
      assume a: "admin_by_id db i = Some a" and up: "update_admin_row i f db = Inr db1" and fid: "\<And>a. a_id (f a) = a_id a"
        and db': "db' = (if a_is_active a \<and> \<not> a_is_active (f a) then revoke_admin_sessions_in_connection i now None db1 else db1)"
      have one: "b = a" if "b \<in> set (admin_rows db)" "a_id b = i" for b
        using admin_by_id_Some [OF a] admin_invD(1) [OF inv] that by (auto simp: distinct_map inj_on_def)
      have rows: "admin_rows db' = map (\<lambda>a. if a_id a = i then f a else a) (admin_rows db)"
        using db' update_admin_row_Inr(1) [OF up] by simp
      have "a_is_active a" using e(1) one by (auto simp: list_ex_iff)
      moreover have "\<not> a_is_active (f a)" using e(2) one fid unfolding rows by (auto simp: list_ex_iff split: if_splits)
      ultimately show ?thesis using after_update [OF up, of None] db' by simp
    qed
  qed (use ends in simp_all)
qed

section \<open>The window of failed logins\<close>

text \<open>Calls on the tracker, in the order of its lock.\<close>

datatype login_event = Check rat string "string option" | Failed rat string "string option" | Succeeded string "string option"

fun login_next :: "keylib \<Rightarrow> login_event \<Rightarrow> login_tracker \<Rightarrow> login_tracker" where
  "login_next K (Check t username ip) tr = snd (assert_login_allowed K t username ip tr)"
| "login_next K (Failed t username ip) tr = record_login_failure K t username ip tr"
| "login_next K (Succeeded username ip) tr = clear_login_failures K username ip tr"

definition run_logins :: "keylib \<Rightarrow> login_event list \<Rightarrow> login_tracker" where
  "run_logins K es = fold (login_next K) es \<lparr>login_failures = [], login_ip_failures = []\<rparr>"

text \<open>
  What the throttle promises, on a log that forgets nothing: the failures of a name from an address
  since its last success, and the failures of an address.
\<close>

record login_log =
  name_log :: "string \<Rightarrow> rat list"
  ip_log :: "string \<Rightarrow> rat list"

fun log_next :: "keylib \<Rightarrow> login_event \<Rightarrow> login_log \<Rightarrow> login_log" where
  "log_next K (Check t username ip) g = g"
| "log_next K (Failed t username ip) g =
     \<lparr>name_log = (name_log g)(login_failure_key K username ip := name_log g (login_failure_key K username ip) @ [t]),
      ip_log = (ip_log g)(login_ip_key ip := ip_log g (login_ip_key ip) @ [t])\<rparr>"
| "log_next K (Succeeded username ip) g = g\<lparr>name_log := (name_log g)(login_failure_key K username ip := [])\<rparr>"

definition full_log :: "keylib \<Rightarrow> login_event list \<Rightarrow> login_log" where
  "full_log K es = fold (log_next K) es \<lparr>name_log = (\<lambda>_. []), ip_log = (\<lambda>_. [])\<rparr>"

definition recent :: "rat \<Rightarrow> rat list \<Rightarrow> nat" where
  "recent now ts = length (filter (\<lambda>t. now - LOGIN_FAILURE_WINDOW_SECONDS < t) ts)"

fun event_times :: "login_event list \<Rightarrow> rat list" where
  "event_times [] = []"
| "event_times (Check t username ip # es) = t # event_times es"
| "event_times (Failed t username ip # es) = t # event_times es"
| "event_times (Succeeded username ip # es) = event_times es"

fun failure_keys :: "keylib \<Rightarrow> login_event list \<Rightarrow> (string \<times> string) list" where
  "failure_keys K [] = []"
| "failure_keys K (Failed t username ip # es) = (login_failure_key K username ip, login_ip_key ip) # failure_keys K es"
| "failure_keys K (_ # es) = failure_keys K es"

lemma active_window:
  "window (snd (active_login_window key c ws)) j = (if j = key then dropWhile (\<lambda>x. x \<le> c) (window ws key) else window ws j)"
  "fst (active_login_window key c ws) =
     (let w = dropWhile (\<lambda>x. x \<le> c) (window ws key) in if w = [] then None else Some w)"
  "distinct (map fst ws) \<Longrightarrow> distinct (map fst (snd (active_login_window key c ws)))"
  "set (map fst (snd (active_login_window key c ws))) \<subseteq> set (map fst ws)"
proof -
  have w: "map_of ws key = None \<Longrightarrow> window ws key = []" "map_of ws key = Some w \<Longrightarrow> window ws key = w" for w
    by (simp_all add: window_def)
  have k: "map_of ws key = Some w \<Longrightarrow> key \<in> set (map fst ws)" for w by (force dest: map_of_SomeD)
  show "window (snd (active_login_window key c ws)) j = (if j = key then dropWhile (\<lambda>x. x \<le> c) (window ws key) else window ws j)"
  proof (cases "map_of ws key")
    case (Some v)
    have e: "dropWhile (\<lambda>x. x \<le> c) v = [] \<Longrightarrow> snd (active_login_window key c ws) = od_pop key ws"
      "dropWhile (\<lambda>x. x \<le> c) v \<noteq> [] \<Longrightarrow> snd (active_login_window key c ws) = od_put key (dropWhile (\<lambda>x. x \<le> c) v) ws"
      using Some by (simp_all add: active_login_window_def Let_def del: dropWhile_eq_Nil_conv)
    show ?thesis
      using e w(2) [OF Some] by (cases "dropWhile (\<lambda>x. x \<le> c) v = []") (simp_all add: window_put window_pop del: dropWhile_eq_Nil_conv)
  qed (simp add: active_login_window_def w)
  show "fst (active_login_window key c ws) = (let w = dropWhile (\<lambda>x. x \<le> c) (window ws key) in if w = [] then None else Some w)"
    by (cases "map_of ws key") (simp_all add: active_login_window_def Let_def w)
  show "distinct (map fst ws) \<Longrightarrow> distinct (map fst (snd (active_login_window key c ws)))"
    by (cases "map_of ws key") (simp_all add: active_login_window_def Let_def distinct_put distinct_pop)
  show "set (map fst (snd (active_login_window key c ws))) \<subseteq> set (map fst ws)"
    using k by (cases "map_of ws key") (auto simp: active_login_window_def Let_def keys_put keys_pop simp del: set_map)
qed

lemma tracks_active:
  assumes "tracks LOGIN_FAILURE_WINDOW_SECONDS ws f now"
  shows "tracks LOGIN_FAILURE_WINDOW_SECONDS (snd (active_login_window key (now - LOGIN_FAILURE_WINDOW_SECONDS) ws)) f now"
    and "(case fst (active_login_window key (now - LOGIN_FAILURE_WINDOW_SECONDS) ws) of None \<Rightarrow> [] | Some w \<Rightarrow> w)
       = filter (\<lambda>t. now - LOGIN_FAILURE_WINDOW_SECONDS < t) (f key)"
proof -
  let ?c = "now - LOGIN_FAILURE_WINDOW_SECONDS"
  have srt: "sorted (window ws k)" for k using assms by (simp add: tracks_def)
  have d: "dropWhile (\<lambda>x. x \<le> ?c) (window ws key) = filter (\<lambda>t. ?c < t) (window ws key)" by (rule sorted_dropWhile [OF srt])
  have eq: "c \<ge> ?c \<Longrightarrow> filter (\<lambda>t. c < t) (window ws k) = filter (\<lambda>t. c < t) (f k)" for c k using assms by (simp add: tracks_def)
  have two: "filter (\<lambda>t. c < t) (filter (\<lambda>t. ?c < t) w) = filter (\<lambda>t. c < t) w" if "c \<ge> ?c" for c and w :: "rat list"
    unfolding filter_filter by (rule filter_cong) (use that in auto)
  show "tracks LOGIN_FAILURE_WINDOW_SECONDS (snd (active_login_window key ?c ws)) f now"
    unfolding tracks_def active_window(1) d
  proof (intro conjI allI)
    show "distinct (map fst (snd (active_login_window key ?c ws)))" using assms active_window(3) by (simp add: tracks_def)
    fix k
    have b: "\<forall>t \<in> set (window ws k). t \<le> now" for k using assms by (simp add: tracks_def)
    show "sorted (if k = key then filter (\<lambda>t. ?c < t) (window ws key) else window ws k)"
      using srt [of k] sorted_wrt_filter [OF srt [of key]] by simp
    show "\<forall>t \<in> set (if k = key then filter (\<lambda>t. ?c < t) (window ws key) else window ws k). t \<le> now"
      using b [of k] b [of key] by (cases "k = key") auto
    fix c
    show "?c \<le> c \<longrightarrow> filter (\<lambda>t. c < t) (if k = key then filter (\<lambda>t. ?c < t) (window ws key) else window ws k) = filter (\<lambda>t. c < t) (f k)"
      using two [of c "window ws key"] eq [of c key] eq [of c k] by (cases "k = key") (simp_all del: filter_filter)
  qed
  show "(case fst (active_login_window key ?c ws) of None \<Rightarrow> [] | Some w \<Rightarrow> w) = filter (\<lambda>t. ?c < t) (f key)"
    using eq [of ?c key] by (simp add: active_window(2) d Let_def)
qed

lemma tracks_record:
  assumes tr: "tracks LOGIN_FAILURE_WINDOW_SECONDS ws f now" and keys: "set (map fst ws) \<subseteq> A" "key \<in> A" "finite A" "card A \<le> LOGIN_FAILURE_MAX_KEYS"
  shows "tracks LOGIN_FAILURE_WINDOW_SECONDS (record_login_window key now (now - LOGIN_FAILURE_WINDOW_SECONDS) ws) (f(key := f key @ [now])) now
     \<and> set (map fst (record_login_window key now (now - LOGIN_FAILURE_WINDOW_SECONDS) ws)) \<subseteq> A"
proof -
  let ?c = "now - LOGIN_FAILURE_WINDOW_SECONDS"
  obtain r ws' where a: "active_login_window key ?c ws = (r, ws')" by (cases "active_login_window key ?c ws")
  note t = tracks_active [OF tr, of key, unfolded a fst_conv snd_conv]
  have sub: "set (map fst ws') \<subseteq> A" using active_window(4) [of key ?c ws] keys(1) a by simp
  show ?thesis
  proof (cases r)
    case (Some w)
    then show ?thesis
      using tracks_put [OF t(1), of "w @ [now]" key] t(2) a sub keys(2)
      by (simp add: record_login_window_def keys_put del: set_map)
  next
    case None
    have "window ws' key = []" using None a active_window(1,2) [of key ?c ws] by (auto simp: Let_def split: if_splits)
    then have "key \<notin> set (map fst ws') \<or> (\<exists>w. map_of ws' key = Some w)" by (auto simp: image_iff dest: weak_map_of_SomeI)
    have notin: "key \<notin> set (map fst ws')"
      using None a by (auto simp: active_login_window_def Let_def od_pop_def map_of_eq_None_iff split: option.splits if_splits)
    have "card (insert key (set (map fst ws'))) \<le> card A" using sub keys(2,3) by (intro card_mono) auto
    moreover have "card (set (map fst ws')) = length ws'" using t(1) distinct_card [of "map fst ws'"] by (simp add: tracks_def)
    ultimately have "length ws' \<le> LOGIN_FAILURE_MAX_KEYS - 1" using notin keys(4) by (simp del: set_map)
    then show ?thesis
      using tracks_put [OF t(1), of "[now]" key] t(2) None a sub keys(2)
      by (simp add: record_login_window_def trim_id keys_put del: set_map)
  qed
qed

text \<open>The tracker after a run of events agrees with the log inside every window still to come.\<close>

definition tracker_ok :: "login_tracker \<Rightarrow> login_log \<Rightarrow> rat \<Rightarrow> string set \<Rightarrow> string set \<Rightarrow> bool" where
  "tracker_ok tr g now A B \<longleftrightarrow>
     tracks LOGIN_FAILURE_WINDOW_SECONDS (login_failures tr) (name_log g) now \<and> tracks LOGIN_FAILURE_WINDOW_SECONDS (login_ip_failures tr) (ip_log g) now
     \<and> set (map fst (login_failures tr)) \<subseteq> A \<and> set (map fst (login_ip_failures tr)) \<subseteq> B"

lemma tracker_later: "tracker_ok tr g now A B \<Longrightarrow> now \<le> now' \<Longrightarrow> tracker_ok tr g now' A B"
  by (auto simp: tracker_ok_def intro: tracks_later)

lemma tracker_check:
  assumes "tracker_ok tr g now A B"
  shows "tracker_ok (snd (assert_login_allowed K now username ip tr)) g now A B"
    and "fst (assert_login_allowed K now username ip tr) =
      (if LOGIN_FAILURE_LIMIT \<le> recent now (name_log g (login_failure_key K username ip))
          \<or> LOGIN_IP_FAILURE_LIMIT \<le> recent now (ip_log g (login_ip_key ip))
       then Inl (PermissionError ''too many login attempts'') else Inr ())"
proof -
  let ?c = "now - LOGIN_FAILURE_WINDOW_SECONDS"
  obtain r ws where a: "active_login_window (login_failure_key K username ip) ?c (login_failures tr) = (r, ws)"
    by (cases "active_login_window (login_failure_key K username ip) ?c (login_failures tr)")
  obtain ri wsi where i: "active_login_window (login_ip_key ip) ?c (login_ip_failures tr) = (ri, wsi)"
    by (cases "active_login_window (login_ip_key ip) ?c (login_ip_failures tr)")
  have t: "tracks LOGIN_FAILURE_WINDOW_SECONDS (login_failures tr) (name_log g) now" "tracks LOGIN_FAILURE_WINDOW_SECONDS (login_ip_failures tr) (ip_log g) now"
    using assms by (simp_all add: tracker_ok_def)
  note ta = tracks_active [OF t(1), of "login_failure_key K username ip", unfolded a fst_conv snd_conv]
    and ti = tracks_active [OF t(2), of "login_ip_key ip", unfolded i fst_conv snd_conv]
  have sub: "set (map fst ws) \<subseteq> A" "set (map fst wsi) \<subseteq> B"
    using active_window(4) [of "login_failure_key K username ip" ?c "login_failures tr"]
      active_window(4) [of "login_ip_key ip" ?c "login_ip_failures tr"] a i assms by (auto simp: tracker_ok_def simp del: set_map)
  show "tracker_ok (snd (assert_login_allowed K now username ip tr)) g now A B"
    using ta(1) ti(1) sub by (simp add: assert_login_allowed_def Let_def a i tracker_ok_def)
  have n: "(case r of None \<Rightarrow> False | Some x \<Rightarrow> LOGIN_FAILURE_LIMIT \<le> length x)
      \<longleftrightarrow> LOGIN_FAILURE_LIMIT \<le> recent now (name_log g (login_failure_key K username ip))"
    using ta(2) by (cases r) (auto simp: recent_def LOGIN_FAILURE_LIMIT_def simp flip: ta(2))
  have m: "(case ri of None \<Rightarrow> False | Some x \<Rightarrow> LOGIN_IP_FAILURE_LIMIT \<le> length x)
      \<longleftrightarrow> LOGIN_IP_FAILURE_LIMIT \<le> recent now (ip_log g (login_ip_key ip))"
    using ti(2) by (cases ri) (auto simp: recent_def LOGIN_IP_FAILURE_LIMIT_def simp flip: ti(2))
  show "fst (assert_login_allowed K now username ip tr) =
      (if LOGIN_FAILURE_LIMIT \<le> recent now (name_log g (login_failure_key K username ip))
          \<or> LOGIN_IP_FAILURE_LIMIT \<le> recent now (ip_log g (login_ip_key ip))
       then Inl (PermissionError ''too many login attempts'') else Inr ())"
    by (simp add: assert_login_allowed_def Let_def a i n m)
qed

lemma tracker_failed:
  assumes "tracker_ok tr g now A B" and "login_failure_key K username ip \<in> A" "login_ip_key ip \<in> B"
    and "finite A" "finite B" "card A \<le> LOGIN_FAILURE_MAX_KEYS" "card B \<le> LOGIN_FAILURE_MAX_KEYS"
  shows "tracker_ok (record_login_failure K now username ip tr) (log_next K (Failed now username ip) g) now A B"
  using tracks_record [of "login_failures tr" "name_log g" now A "login_failure_key K username ip"]
    tracks_record [of "login_ip_failures tr" "ip_log g" now B "login_ip_key ip"] assms
  by (simp add: tracker_ok_def record_login_failure_def Let_def del: set_map)

lemma tracker_succeeded:
  "tracker_ok tr g now A B \<Longrightarrow> tracker_ok (clear_login_failures K username ip tr) (log_next K (Succeeded username ip) g) now A B"
  using keys_pop [of "login_failure_key K username ip" "login_failures tr"]
  by (auto simp: tracker_ok_def clear_login_failures_def tracks_clear simp del: set_map)

lemma tracker_run:
  assumes "tracker_ok tr g now A B" and "sorted (now # event_times es @ [later])" and "set (failure_keys K es) \<subseteq> A \<times> B"
    and fin: "finite A" "finite B" "card A \<le> LOGIN_FAILURE_MAX_KEYS" "card B \<le> LOGIN_FAILURE_MAX_KEYS"
  shows "tracker_ok (fold (login_next K) es tr) (fold (log_next K) es g) later A B"
  using assms(1-3)
proof (induction es arbitrary: tr g now)
  case Nil
  then show ?case by (auto intro: tracker_later)
next
  case (Cons e es)
  show ?case
  proof (cases e)
    case (Check t username ip)
    then have "tracker_ok tr g t A B" using Cons.prems by (auto intro: tracker_later)
    then show ?thesis using Cons.IH [OF tracker_check(1) [of tr g t A B K username ip]] Cons.prems Check by simp
  next
    case (Failed t username ip)
    then have "tracker_ok tr g t A B" using Cons.prems by (auto intro: tracker_later)
    then show ?thesis
      using Cons.IH [OF tracker_failed [of tr g t A B K username ip]] Cons.prems Failed fin by simp
  next
    case (Succeeded username ip)
    then show ?thesis using Cons.IH [OF tracker_succeeded [OF Cons.prems(1), of K username ip]] Cons.prems by simp
  qed
qed

text \<open>
  When the bound on the number of keys makes the program forget windows, what it counts is still in the log.
\<close>

definition tracker_within :: "login_tracker \<Rightarrow> login_log \<Rightarrow> rat \<Rightarrow> bool" where
  "tracker_within tr g now \<longleftrightarrow>
     within_log (login_failures tr) (name_log g) now \<and> within_log (login_ip_failures tr) (ip_log g) now"

lemma dropWhile_twice: "dropWhile P (dropWhile P xs) = dropWhile P xs"
  by (induction xs) simp_all

lemma active_within:
  assumes "within_log ws f now"
  shows "within_log (snd (active_login_window key c ws)) f now"
    and "fst (active_login_window key c ws) = Some w \<Longrightarrow> w = window (snd (active_login_window key c ws)) key
      \<and> w = dropWhile (\<lambda>x. x \<le> c) w \<and> length w \<le> later_than c (f key)"
proof -
  show "within_log (snd (active_login_window key c ws)) f now"
    using within_log_pop [OF assms, of key] within_log_shorten(1) [OF assms, of _ c key]
    by (auto simp: active_login_window_def Let_def assms window_def split: option.splits)
  assume "fst (active_login_window key c ws) = Some w"
  then have w: "w = dropWhile (\<lambda>x. x \<le> c) (window ws key)" by (simp add: active_window(2) Let_def split: if_splits)
  have "dropWhile (\<lambda>x. x \<le> c) w = w" unfolding w by (rule dropWhile_twice)
  then show "w = window (snd (active_login_window key c ws)) key \<and> w = dropWhile (\<lambda>x. x \<le> c) w \<and> length w \<le> later_than c (f key)"
    using within_logD(2,4) [OF assms, where k = key] by (simp add: active_window(1) w length_dropWhile_sorted)
qed

lemma record_within:
  assumes "within_log ws f now"
  shows "within_log (record_login_window key now c ws) (f(key := f key @ [now])) now"
proof -
  obtain r ws' where a: "active_login_window key c ws = (r, ws')" by fastforce
  note w = active_within [OF assms, of key c, unfolded a fst_conv snd_conv]
  show ?thesis
  proof (cases r)
    case None
    have "within_log (od_put key [now] (od_trim n ws')) (f(key := f key @ [now])) now" for n
      by (rule within_log_put [OF within_log_trim [OF w(1)]]) auto
    then show ?thesis using None a by (simp add: record_login_window_def)
  next
    case (Some v)
    then have "v = dropWhile (\<lambda>x. x \<le> c) (window ws' key)" using w(2) by metis
    from within_log_shorten(2) [OF w(1) this] show ?thesis using Some a by (simp add: record_login_window_def)
  qed
qed

lemma check_within:
  assumes "tracker_within tr g now"
  shows "tracker_within (snd (assert_login_allowed K now username ip tr)) g now"
    and "fst (assert_login_allowed K now username ip tr) \<noteq> Inr () \<Longrightarrow>
      LOGIN_FAILURE_LIMIT \<le> recent now (name_log g (login_failure_key K username ip))
      \<or> LOGIN_IP_FAILURE_LIMIT \<le> recent now (ip_log g (login_ip_key ip))"
proof -
  let ?c = "now - LOGIN_FAILURE_WINDOW_SECONDS"
  obtain r ws where a: "active_login_window (login_failure_key K username ip) ?c (login_failures tr) = (r, ws)" by fastforce
  obtain ri wsi where i: "active_login_window (login_ip_key ip) ?c (login_ip_failures tr) = (ri, wsi)" by fastforce
  have t: "within_log (login_failures tr) (name_log g) now" "within_log (login_ip_failures tr) (ip_log g) now"
    using assms by (simp_all add: tracker_within_def)
  note n = active_within [OF t(1), of "login_failure_key K username ip" ?c, unfolded a fst_conv snd_conv]
    and m = active_within [OF t(2), of "login_ip_key ip" ?c, unfolded i fst_conv snd_conv]
  show "tracker_within (snd (assert_login_allowed K now username ip tr)) g now"
    using n(1) m(1) by (simp add: assert_login_allowed_def Let_def a i tracker_within_def)
  show "LOGIN_FAILURE_LIMIT \<le> recent now (name_log g (login_failure_key K username ip))
      \<or> LOGIN_IP_FAILURE_LIMIT \<le> recent now (ip_log g (login_ip_key ip))"
    if "fst (assert_login_allowed K now username ip tr) \<noteq> Inr ()"
    using that n(2) m(2) unfolding recent_def later_than_def [symmetric]
    by (fastforce simp: assert_login_allowed_def Let_def a i split: if_splits option.splits)
qed

lemma within_run:
  assumes "tracker_within tr g now" and "sorted (now # event_times es @ [later])"
  shows "tracker_within (fold (login_next K) es tr) (fold (log_next K) es g) later"
  using assms
proof (induction es arbitrary: tr g now)
  case Nil
  then show ?case by (auto simp: tracker_within_def intro: within_log_later)
next
  case (Cons e es)
  have at: "tracker_within tr g t" if "now \<le> t" for t
    using Cons.prems(1) that by (auto simp: tracker_within_def intro: within_log_later)
  show ?case
  proof (cases e)
    case (Check t username ip)
    then show ?thesis using Cons.IH [OF check_within(1) [OF at [of t], of K username ip]] Cons.prems by simp
  next
    case (Failed t username ip)
    then have "tracker_within (login_next K e tr) (log_next K e g) t"
      using at [of t] Cons.prems record_within
      by (simp add: tracker_within_def record_login_failure_def Let_def)
    then show ?thesis using Cons.IH [of "login_next K e tr" "log_next K e g" t] Cons.prems Failed by simp
  next
    case (Succeeded username ip)
    then have "tracker_within (login_next K e tr) (log_next K e g) now"
      using Cons.prems by (simp add: tracker_within_def clear_login_failures_def within_log_clear)
    then show ?thesis using Cons.IH [of "login_next K e tr" "log_next K e g" now] Cons.prems Succeeded by simp
  qed
qed

text \<open>
  The log by names and addresses instead of by keys. Two attempts are of the same name when the names
  agree up to surrounding space and letter case, and from the same address when the first 128
  characters of the addresses agree (a missing or empty one counts as \<open>unknown\<close>).
\<close>

definition same_name :: "string \<Rightarrow> string \<Rightarrow> bool" where
  "same_name x y \<longleftrightarrow> str_lower (str_strip x) = str_lower (str_strip y)"

definition same_address :: "string option \<Rightarrow> string option \<Rightarrow> bool" where
  "same_address x y \<longleftrightarrow> take 128 (text_or x ''unknown'') = take 128 (text_or y ''unknown'')"

fun failures_step :: "string \<Rightarrow> string option \<Rightarrow> login_event \<Rightarrow> rat list \<Rightarrow> rat list" where
  "failures_step name address (Check t x ip) ts = ts"
| "failures_step name address (Failed t x ip) ts = (if same_name x name \<and> same_address ip address then ts @ [t] else ts)"
| "failures_step name address (Succeeded x ip) ts = (if same_name x name \<and> same_address ip address then [] else ts)"

definition failures_since_success :: "string \<Rightarrow> string option \<Rightarrow> login_event list \<Rightarrow> rat list" where
  "failures_since_success name address es = fold (failures_step name address) es []"

fun address_failures :: "string option \<Rightarrow> login_event list \<Rightarrow> rat list" where
  "address_failures address [] = []"
| "address_failures address (Failed t x ip # es) = (if same_address ip address then [t] else []) @ address_failures address es"
| "address_failures address (_ # es) = address_failures address es"

fun event_name :: "login_event \<Rightarrow> string" where
  "event_name (Check t x ip) = x" | "event_name (Failed t x ip) = x" | "event_name (Succeeded x ip) = x"

text \<open>The digests of the names that occur: hexadecimal, so without a colon, and different for different names.\<close>

definition digests_ok :: "keylib \<Rightarrow> string set \<Rightarrow> bool" where
  "digests_ok K names \<longleftrightarrow>
     inj_on (sha256_hex K) ((\<lambda>x. str_lower (str_strip x)) ` names)
     \<and> (\<forall>x \<in> names. CHR '':'' \<notin> set (sha256_hex K (str_lower (str_strip x))))"

lemma split_last_colon:
  assumes "a @ c # x = b @ c # y" and "c \<notin> set x" "c \<notin> set y"
  shows "a = b \<and> x = y"
  using assms by (auto simp: append_eq_append_conv2 Cons_eq_append_conv append_eq_Cons_conv)

lemma key_means_same:
  assumes "digests_ok K names" "x \<in> names" "y \<in> names"
  shows "login_failure_key K x ip = login_failure_key K y ip' \<longleftrightarrow> same_name x y \<and> same_address ip ip'"
proof -
  let ?h = "\<lambda>x. sha256_hex K (str_lower (str_strip x))"
  have "CHR '':'' \<notin> set (?h x)" "CHR '':'' \<notin> set (?h y)" using assms by (auto simp: digests_ok_def)
  then have "login_failure_key K x ip = login_failure_key K y ip' \<longleftrightarrow> login_ip_key ip = login_ip_key ip' \<and> ?h x = ?h y"
    using split_last_colon [of "login_ip_key ip" "CHR '':''" "?h x" "login_ip_key ip'" "?h y"]
    by (auto simp: login_failure_key_def)
  moreover have "?h x = ?h y \<longleftrightarrow> same_name x y"
    using assms by (auto simp: digests_ok_def same_name_def dest: inj_onD)
  ultimately show ?thesis by (auto simp: same_address_def login_ip_key_def)
qed

lemma log_by_name:
  assumes "digests_ok K (insert name (event_name ` set es))"
  shows "name_log (full_log K es) (login_failure_key K name address) = failures_since_success name address es"
proof -
  have "name_log (fold (log_next K) es g) (login_failure_key K name address)
      = fold (failures_step name address) es (name_log g (login_failure_key K name address))" for g
    using assms
  proof (induction es arbitrary: g)
    case (Cons e es)
    have "digests_ok K (insert name (event_name ` set es))"
      using Cons.prems unfolding digests_ok_def by (auto intro: inj_on_subset)
    moreover have "name_log (log_next K e g) (login_failure_key K name address)
        = failures_step name address e (name_log g (login_failure_key K name address))"
      using key_means_same [OF Cons.prems, of "event_name e" name _ address] by (cases e) (auto simp: eq_commute)
    ultimately show ?case using Cons.IH by simp
  qed simp
  then show ?thesis by (simp add: full_log_def failures_since_success_def)
qed

lemma log_by_address: "ip_log (full_log K es) (login_ip_key address) = address_failures address es"
proof -
  have "ip_log (fold (log_next K) es g) (login_ip_key address) = ip_log g (login_ip_key address) @ address_failures address es" for g
  proof (induction es arbitrary: g)
    case (Cons e es)
    then show ?case by (cases e) (auto simp: same_address_def login_ip_key_def)
  qed simp
  then show ?thesis by (simp add: full_log_def)
qed

section \<open>Password work\<close>

definition password_inv :: "password_work \<Rightarrow> bool" where
  "password_inv s \<longleftrightarrow> pw_running s + pw_slots s = PASSWORD_PENDING_LIMIT \<and> pw_waiters s \<le> PASSWORD_WAITER_LIMIT"

inductive_cases password_stepE: "password_step s t"

interpretation password_sys: step_system "\<lambda>s. s = password_init" password_step password_inv
proof
  fix s t
  show "password_inv s" if "s = password_init" using that by (simp add: password_inv_def password_init_def)
  show "password_inv t" if "password_inv s" "password_step s t"
    using that(2,1) by (cases rule: password_stepE) (auto simp: password_inv_def password_enter_def split: if_splits)
qed

lemma password_work_bounded:
  "password_step\<^sup>*\<^sup>* password_init s \<Longrightarrow> pw_running s \<le> PASSWORD_PENDING_LIMIT \<and> pw_waiters s \<le> PASSWORD_WAITER_LIMIT"
  using password_sys.reachable_inv [of password_init s] by (simp add: password_inv_def)

lemma split_once: "c \<notin> set a \<Longrightarrow> split_max c 1 (a @ c # b) = [a, b]"
proof -
  assume "c \<notin> set a"
  then have "\<forall>x \<in> set a. x \<noteq> c" by auto
  then show ?thesis by (simp add: dropWhile_append takeWhile_append)
qed

lemma verify_hash: "CHR ''$'' \<notin> set salt \<Longrightarrow> verify_password kdf q (hash_password kdf salt p) \<longleftrightarrow> kdf q salt = kdf p salt"
  using split_once [of "CHR ''$''" salt "kdf p salt"] by (simp add: verify_password_def hash_password_def)

section \<open>Properties\<close>

text \<open>
  C35: from the first start, which creates a superadministrator in an empty table, no sequence of
  committed calls (creation, update, deletion, password and session changes, by anyone) leaves the
  system without an active superadministrator, and the tables stay consistent: unique identifiers,
  names, session identifiers and tokens, known roles, every session with its administrator.
\<close>

theorem superadmin_remains:
  assumes "admin_rows db = []" and "session_rows db = []"
    and "ensure_bootstrap_admin kdf salt now name password db = Inr db0"
  shows "0 < superadmin_count (run_admin_calls K kdf calls db0) \<and> admin_inv (run_admin_calls K kdf calls db0)"
proof -
  have "admin_start kdf db0" using assms unfolding admin_start_def by blast
  then show ?thesis using admin_sys.reachable_inv [OF _ run_admin_calls_steps] by simp
qed

text \<open>
  C36: administration stays within the role of its caller. A committed call that names a principal
  (creation, update, deletion, password reset, revocation of sessions) and changes anything runs
  under the authority the tables give that principal at that moment, with the scopes the call needs
  and all domains: the granted scopes of a calling key, which is active and not expired, or the
  present role of the active administrator whose session, neither revoked nor expired, is calling.
  Every administrator row that is added, removed or changed, before and after the change, and the
  owner of every session that ends, has a role whose scopes that authority holds. Legacy credentials,
  which the code leaves unrestricted, and calls without a principal are not covered.
\<close>

theorem admin_ops_within_role:
  assumes "admin_inv db" and "run_admin_op K kdf now (Some p) op db = Inr db'" and "op_scopes op \<noteq> []"
    and "\<not> legacy_credential p" and "db' \<noteq> db"
  shows "\<exists>c. transaction_admin_principal K now (op_scopes op) (Some p) db = Inr (Some c)
     \<and> stored_authority K now p c db \<and> touched_within c db db'
     \<and> domain_grant_mode c = ''all'' \<and> (\<forall>s \<in> set (op_scopes op). has_required_scope s (scopes c))"
proof -
  obtain c where c: "transaction_admin_principal K now (op_scopes op) (Some p) db = Inr (Some c)" and t: "touched_within c db db'"
    using run_admin_op_within [OF assms] by blast
  show ?thesis by (rule admin_principal [OF c assms(4,3)]) (use c t in \<open>auto intro!: exI [of _ c]\<close>)
qed

text \<open>
  C37: a password change or reset, a deactivation, a deletion and a revocation end the sessions of
  the administrator for good, all but the one that is spared: the session that changes its own
  password, or that a revocation is told to keep, stays alive. Whatever calls follow, at whatever
  time, a token of any other session that existed before is never accepted again, unless a new
  session is created whose random token has the same digest.
\<close>

theorem credential_change_ends_sessions:
  assumes "admin_inv db" and "run_admin_op K kdf now P op db = Inr db'" and "ends_sessions op i spared db db'"
    and "s \<in> set (session_rows db)" "s_admin_id s = i" "spared \<noteq> Some (s_id s)" "s_token_hash s = sha256_hex K token"
    and "\<forall>c \<in> set calls. \<not> reuses_token K (sha256_hex K token) (call_op c)"
  shows "session_admin K t token (run_admin_calls K kdf calls db') = None"
  using dead_refused dead_calls [OF ended_dead [OF assms(1-6), unfolded assms(7)] assms(8)] by blast

text \<open>
  C38: what the login throttle refuses, on a log that never forgets. Whatever attempts came before, a
  login is refused only when the last fifteen minutes hold five failures of the name from the address
  since its last success there, or fifty failures of the address: no one is locked out by the attempts
  of others. While the failures seen come from at most \<open>LOGIN_FAILURE_MAX_KEYS\<close> (10,000) pairs of a name and an
  address and as many addresses, it is refused exactly then; beyond that the program
  forgets the least recently used. The clock does not go back, and SHA-256 tells the names that
  occur apart.
\<close>

theorem login_throttle_exact:
  assumes "sorted (event_times es @ [now])" and "digests_ok K (insert username (event_name ` set es))"
  shows "(fst (assert_login_allowed K now username ip (run_logins K es)) \<noteq> Inr () \<longrightarrow>
      5 \<le> recent now (failures_since_success username ip es) \<or> 50 \<le> recent now (address_failures ip es))
    \<and> (length (remdups (map fst (failure_keys K es))) \<le> LOGIN_FAILURE_MAX_KEYS
         \<and> length (remdups (map snd (failure_keys K es))) \<le> LOGIN_FAILURE_MAX_KEYS \<longrightarrow>
       fst (assert_login_allowed K now username ip (run_logins K es)) =
         (if 5 \<le> recent now (failures_since_success username ip es) \<or> 50 \<le> recent now (address_failures ip es)
          then Inl (PermissionError ''too many login attempts'') else Inr ()))"
proof (intro conjI impI)
  let ?A = "set (map fst (failure_keys K es))" and ?B = "set (map snd (failure_keys K es))"
  let ?first = "hd (event_times es @ [now])"
  let ?tr = "\<lparr>login_failures = [], login_ip_failures = []\<rparr>" and ?g = "\<lparr>name_log = (\<lambda>_. []), ip_log = (\<lambda>_. [])\<rparr>"
  note spec = log_by_name [OF assms(2), of ip] log_by_address [of K es ip]
    and limits = LOGIN_FAILURE_LIMIT_def LOGIN_IP_FAILURE_LIMIT_def
  have srt: "sorted (?first # event_times es @ [now])" using assms(1) by (cases "event_times es") auto
  have "tracker_within (run_logins K es) (full_log K es) now"
    unfolding run_logins_def full_log_def
    by (rule within_run [OF _ srt]) (simp add: tracker_within_def within_log_empty)
  from check_within(2) [OF this, of K username ip]
  show "5 \<le> recent now (failures_since_success username ip es) \<or> 50 \<le> recent now (address_failures ip es)"
    if "fst (assert_login_allowed K now username ip (run_logins K es)) \<noteq> Inr ()"
    using that by (simp add: spec limits)
  assume "length (remdups (map fst (failure_keys K es))) \<le> LOGIN_FAILURE_MAX_KEYS
      \<and> length (remdups (map snd (failure_keys K es))) \<le> LOGIN_FAILURE_MAX_KEYS"
  then have "card ?A \<le> LOGIN_FAILURE_MAX_KEYS" "card ?B \<le> LOGIN_FAILURE_MAX_KEYS"
    by (simp_all only: length_remdups_card_conv)
  moreover have "set (failure_keys K es) \<subseteq> ?A \<times> ?B" by force
  moreover have "tracker_ok ?tr ?g ?first ?A ?B" by (simp add: tracker_ok_def tracks_def window_def)
  ultimately have "tracker_ok (run_logins K es) (full_log K es) now ?A ?B"
    unfolding run_logins_def full_log_def by (intro tracker_run [OF _ srt]) simp_all
  then show "fst (assert_login_allowed K now username ip (run_logins K es)) =
      (if 5 \<le> recent now (failures_since_success username ip es) \<or> 50 \<le> recent now (address_failures ip es)
       then Inl (PermissionError ''too many login attempts'') else Inr ())"
    by (simp add: tracker_check(2) limits spec)
qed

text \<open>Witnesses.\<close>

definition ex_session_caller :: permission_context where
  "ex_session_caller = ex_admin\<lparr>admin_id := Some 1, admin_session_id := Some ''s''\<rparr>"

definition ex_acting :: permission_context where
  "ex_acting =
     \<lparr>scopes = sort ADMIN_API_KEY_SCOPES, domain_ids = [], mailbox_patterns = [], domain_grant_mode = ''all'',
      api_key_id = None, public_id = ''s'', ctx_name = ''root'', ctx_kind = ''admin'', legacy_credential = False,
      rate_limit_per_min = 0, allowed_ip_cidrs = [], expires_at = None, allow_header = True, allow_query = True,
      admin_id = Some 1, admin_session_id = Some ''s''\<rparr>"

lemma ex_acting_admin: "acting_admin ''2'' ''s'' (Some 1) ex_auth_db = Inr ex_acting"
  by (simp add: acting_admin_def ex_auth_db_def ex_acting_def ROLE_SCOPES_def text_or_def)

lemma ex_scopes: "''admins.sessions.write'' \<in> set (sort ADMIN_API_KEY_SCOPES)"
  by (simp add: ADMIN_API_KEY_SCOPES_def)

lemma ex_admin_principal:
  "\<exists>c. transaction_admin_principal ex_keylib ''2'' [''admins.sessions.write''] (Some ex_session_caller) ex_auth_db = Inr (Some c)
     \<and> scopes c = sort ADMIN_API_KEY_SCOPES \<and> \<not> legacy_credential c"
proof -
  have c: "api_key_id ex_session_caller = None" "admin_session_id ex_session_caller = Some ''s''" "admin_id ex_session_caller = Some 1"
    "legacy_credential ex_session_caller = False" by (simp_all add: ex_session_caller_def ex_admin_def)
  have a: "scopes ex_acting = sort ADMIN_API_KEY_SCOPES" "domain_grant_mode ex_acting = ''all''" "admin_session_id ex_acting = Some ''s''"
    "admin_id ex_acting = Some 1" "legacy_credential ex_acting = False" by (simp_all add: ex_acting_def)
  have r: "has_required_scope ''admins.sessions.write'' (sort ADMIN_API_KEY_SCOPES)" unfolding has_required_scope_def by (rule disjI1 [OF ex_scopes])
  have t: "transaction_authorization_principal ex_keylib ''2'' ''admins.sessions.write'' True None (Some ex_session_caller) ex_auth_db
      = Inr (Some ex_acting)"
    by (simp add: transaction_authorization_principal_def c a r ex_acting_admin)
  show ?thesis
    by (simp add: transaction_admin_principal_def t a reload_admin_def ex_acting_admin r)
qed

definition ex_signed_out :: auth_db where
  "ex_signed_out = revoke_admin_sessions_in_connection 1 ''2'' None ex_auth_db"

lemma ex_sign_out:
  "run_admin_op ex_keylib kdf ''2'' (Some ex_session_caller) (RevokeAdminSessions 1 None) ex_auth_db = Inr ex_signed_out"
proof -
  obtain c where c: "transaction_admin_principal ex_keylib ''2'' [''admins.sessions.write''] (Some ex_session_caller) ex_auth_db = Inr (Some c)"
    "scopes c = sort ADMIN_API_KEY_SCOPES" "\<not> legacy_credential c" using ex_admin_principal by blast
  have "set ADMIN_API_KEY_SCOPES \<subseteq> set (effective_scopes (sort ADMIN_API_KEY_SCOPES))" by (auto simp: effective_scopes_def)
  then have "assert_role_within_principal (Some c) ''superadmin'' = Inr ()"
    using c by (simp add: assert_role_within_principal_def ROLE_SCOPES_def)
  then show ?thesis
    using c(1) by (simp add: revoke_admin_sessions_def admin_by_id_def ex_signed_out_def ex_auth_db_def)
qed

lemma ex_admin_inv: "admin_inv ex_auth_db"
  by (simp add: admin_inv_def ex_auth_db_def ROLE_SCOPES_def)

lemma ex_signed_out_rows: "map s_revoked_at (session_rows ex_signed_out) = [Some ''2'']" "ex_signed_out \<noteq> ex_auth_db"
  by (simp_all add: ex_signed_out_def revoke_admin_sessions_in_connection_def revoke_sessions_where_def ex_auth_db_def)

definition ex_empty_db :: auth_db where
  "ex_empty_db = ex_auth_db\<lparr>admin_rows := [], session_rows := []\<rparr>"

definition ex_first_db :: auth_db where
  "ex_first_db = ex_auth_db\<lparr>admin_rows := [\<lparr>a_id = 2, a_username = ''root'', a_display_name = None,
     a_password_hash = ''s$p'', a_role = ''superadmin'', a_is_active = True, a_must_change_password = True, a_created_at = ''1'',
     a_updated_at = ''1'', a_last_login_at = None, a_last_login_ip = None\<rparr>], session_rows := [], admin_sequence := 2\<rparr>"

lemma ex_bootstrap: "ensure_bootstrap_admin (\<lambda>p s. p) ''s'' ''1'' ''root'' ''p'' ex_empty_db = Inr ex_first_db"
  by (simp add: ensure_bootstrap_admin_def insert_admin_def Let_def ex_empty_db_def ex_first_db_def ex_auth_db_def hash_password_def
      ROLE_SCOPES_def)

theorem superadmin_remains_witness:
  "0 < superadmin_count (run_admin_calls ex_keylib (\<lambda>p s. p)
     [\<lparr>call_now = ''2'', call_actor = None, call_op = DeleteAdmin 2\<rparr>] ex_first_db)"
  using superadmin_remains [OF _ _ ex_bootstrap, of ex_keylib "[\<lparr>call_now = ''2'', call_actor = None, call_op = DeleteAdmin 2\<rparr>]"]
  by (simp add: ex_empty_db_def)

theorem admin_ops_within_role_witness:
  "(\<exists>c. touched_within c ex_auth_db ex_signed_out \<and> live_session ''2'' ''s'' (admin_id ex_session_caller) (set (scopes c)) ex_auth_db)
   \<and> ex_signed_out \<noteq> ex_auth_db"
  using admin_ops_within_role [OF ex_admin_inv ex_sign_out [of "\<lambda>p s. p"]] ex_signed_out_rows(2)
  by (auto simp: ex_session_caller_def ex_admin_def stored_authority_def session_authority_def)

theorem credential_change_ends_sessions_witness:
  "session_admin ex_keylib ''2'' [] ex_auth_db \<noteq> None
   \<and> session_admin ex_keylib ''2'' [] (run_admin_calls ex_keylib (\<lambda>p s. p)
       [\<lparr>call_now = ''2'', call_actor = None, call_op = TouchSession ''s'' None\<rparr>] ex_signed_out) = None"
proof
  show "session_admin ex_keylib ''2'' [] ex_auth_db \<noteq> None"
    by (simp add: session_admin_def ex_auth_db_def ex_keylib_def)
  show "session_admin ex_keylib ''2'' [] (run_admin_calls ex_keylib (\<lambda>p s. p)
       [\<lparr>call_now = ''2'', call_actor = None, call_op = TouchSession ''s'' None\<rparr>] ex_signed_out) = None"
    by (rule credential_change_ends_sessions [OF ex_admin_inv ex_sign_out, where i = 1 and spared = None
          and s = "hd (session_rows ex_auth_db)"])
       (simp_all add: ex_auth_db_def ex_keylib_def)
qed

definition ex_failures :: "login_event list" where
  "ex_failures = replicate 5 (Failed 1 ''root'' None)"

lemma ex_digests: "digests_ok ex_keylib (insert ''root'' (event_name ` set ex_failures))"
proof -
  have "CHR '':'' \<notin> set (rev (str_lower (str_strip ''root'')))" by code_simp
  then show ?thesis by (simp add: digests_ok_def ex_failures_def ex_keylib_def)
qed

theorem login_throttle_exact_witness:
  "fst (assert_login_allowed ex_keylib 10 ''root'' None (run_logins ex_keylib ex_failures))
     = Inl (PermissionError ''too many login attempts'')
   \<and> fst (assert_login_allowed ex_keylib 910 ''root'' None (run_logins ex_keylib ex_failures)) = Inr ()"
proof -
  have "sorted (event_times ex_failures @ [10])" "sorted (event_times ex_failures @ [910])"
    "length (remdups (map fst (failure_keys ex_keylib ex_failures))) \<le> LOGIN_FAILURE_MAX_KEYS"
    "length (remdups (map snd (failure_keys ex_keylib ex_failures))) \<le> LOGIN_FAILURE_MAX_KEYS"
    "failures_since_success ''root'' None ex_failures = [1, 1, 1, 1, 1]" "address_failures None ex_failures = [1, 1, 1, 1, 1]"
    by (simp_all add: ex_failures_def numeral_nat LOGIN_FAILURE_MAX_KEYS_def failures_since_success_def same_name_def same_address_def)
  then show ?thesis
    using login_throttle_exact [OF _ ex_digests, of 10 None] login_throttle_exact [OF _ ex_digests, of 910 None]
    by (simp add: recent_def LOGIN_FAILURE_WINDOW_SECONDS_def)
qed

end
