(* ===== verification/Smtp_Limits.thy ===== *)
theory Smtp_Limits
  imports Ordered_Dict
begin

text \<open>
  Connection limits of the SMTP server: \<open>register_smtp_connection\<close> and \<open>release_smtp_connection\<close> of
  \<^verbatim>\<open>src/app/runtime.py\<close>, with the access-ordered windows per address and the second dictionary
  that orders addresses by their last accepted connection. The lemmas show that expiry from the
  front of that order removes exactly the stale windows, and which connections are refused.

  Seconds of \<open>monotonic()\<close> are rationals.
\<close>

section \<open>State\<close>

record connection_limiter =
  active_connections :: "(string \<times> string) list"
  ip_windows :: windows
  ip_expiry_order :: "string list"

definition connection_limiter_init :: connection_limiter where
  "connection_limiter_init = \<lparr>active_connections = [], ip_windows = [], ip_expiry_order = []\<rparr>"

text \<open>The live settings of the limits.\<close>

record limit_settings =
  max_concurrent_connections :: int
  connection_rate_limit_count :: int
  connection_rate_limit_window_seconds :: int

definition SMTP_IP_RATE_STATE_MAX_ENTRIES :: int where
  "SMTP_IP_RATE_STATE_MAX_ENTRIES = 65536"

definition SMTP_IP_RATE_STATE_MIN_ENTRIES :: int where
  "SMTP_IP_RATE_STATE_MIN_ENTRIES = 1024"

section \<open>Operations\<close>

fun evict_stale_smtp_ip_windows :: "rat \<Rightarrow> windows \<Rightarrow> string list \<Rightarrow> windows \<times> string list" where
  "evict_stale_smtp_ip_windows cutoff ws [] = (ws, [])"
| "evict_stale_smtp_ip_windows cutoff ws (ip # order) =
     (case map_of ws ip of
        None \<Rightarrow> evict_stale_smtp_ip_windows cutoff ws order
      | Some w \<Rightarrow>
          if w \<noteq> [] \<and> cutoff < last w then (ws, ip # order)
          else evict_stale_smtp_ip_windows cutoff (od_pop ip ws) order)"

definition smtp_ip_window_capacity :: "limit_settings \<Rightarrow> nat" where
  "smtp_ip_window_capacity S =
     nat (min SMTP_IP_RATE_STATE_MAX_ENTRIES
       (max SMTP_IP_RATE_STATE_MIN_ENTRIES (max (max_concurrent_connections S) 0 * 4)))"

text \<open>The window of an address: found and moved to the end, or new after the oldest ones made room.\<close>

definition open_ip_window :: "nat \<Rightarrow> string \<Rightarrow> windows \<Rightarrow> string list \<Rightarrow> rat list \<times> windows \<times> string list" where
  "open_ip_window capacity ip ws order =
     (case map_of ws ip of
        None \<Rightarrow>
          let kept = od_trim (capacity - 1) ws
          in ([], od_put ip [] kept, filter (\<lambda>x. x \<in> set (map fst kept) \<or> x \<notin> set (map fst ws)) order)
      | Some w \<Rightarrow> (w, od_put ip w ws, order))"

definition rate_section ::
  "limit_settings \<Rightarrow> rat \<Rightarrow> string \<Rightarrow> connection_limiter \<Rightarrow> bool \<times> connection_limiter" where
  "rate_section S now ip st =
     (let rate_limit = connection_rate_limit_count S; window_seconds = connection_rate_limit_window_seconds S in
      if 0 < rate_limit \<and> 0 < window_seconds then
        let cutoff = now - of_int window_seconds in
        (case evict_stale_smtp_ip_windows cutoff (ip_windows st) (ip_expiry_order st) of (ws, order) \<Rightarrow>
          (case open_ip_window (smtp_ip_window_capacity S) ip ws order of (w, ws1, order1) \<Rightarrow>
            let w1 = dropWhile (\<lambda>t. t \<le> cutoff) w in
            if rate_limit \<le> int (length w1)
            then (False, st\<lparr>ip_windows := od_put ip w1 ws1, ip_expiry_order := order1\<rparr>)
            else (True, st\<lparr>ip_windows := od_put ip (w1 @ [now]) ws1, ip_expiry_order := removeAll ip order1 @ [ip]\<rparr>)))
      else (True, st\<lparr>ip_windows := [], ip_expiry_order := if ip_windows st = [] then ip_expiry_order st else []\<rparr>))"

definition register_smtp_connection ::
  "limit_settings \<Rightarrow> rat \<Rightarrow> string \<Rightarrow> string \<Rightarrow> connection_limiter \<Rightarrow> (bool \<times> string option) \<times> connection_limiter" where
  "register_smtp_connection S now sid ip st =
     (if map_of (active_connections st) sid \<noteq> None then ((True, None), st)
      else if 0 < max_concurrent_connections S
          \<and> max_concurrent_connections S \<le> int (length (active_connections st))
      then ((False, Some ''concurrent connection limit exceeded''), st)
      else (case rate_section S now ip st of
              (False, st1) \<Rightarrow> ((False, Some ''per-ip connection rate limit exceeded''), st1)
            | (True, st1) \<Rightarrow>
                ((True, None), st1\<lparr>active_connections := active_connections st1 @ [(sid, ip)]\<rparr>)))"

definition release_smtp_connection :: "string \<Rightarrow> connection_limiter \<Rightarrow> bool \<times> connection_limiter" where
  "release_smtp_connection sid st =
     (map_of (active_connections st) sid \<noteq> None, st\<lparr>active_connections := od_pop sid (active_connections st)\<rparr>)"

section \<open>Runs\<close>

text \<open>Calls in the order of their lock; the settings are those of the moment.\<close>

datatype limit_event = Connect limit_settings rat string string | Release string

definition connect_result :: "limit_event \<Rightarrow> connection_limiter \<Rightarrow> bool" where
  "connect_result e st = (case e of Connect S t sid ip \<Rightarrow> fst (fst (register_smtp_connection S t sid ip st)) | Release sid \<Rightarrow> False)"

fun limits_next :: "limit_event \<Rightarrow> connection_limiter \<Rightarrow> connection_limiter" where
  "limits_next (Connect S t sid ip) st = snd (register_smtp_connection S t sid ip st)"
| "limits_next (Release sid) st = snd (release_smtp_connection sid st)"

section \<open>The order of expiry\<close>

text \<open>
  The second dictionary lists the addresses of the first by their last accepted connection.
\<close>

definition windows_inv :: "rat \<Rightarrow> windows \<Rightarrow> string list \<Rightarrow> bool" where
  "windows_inv now ws order \<longleftrightarrow>
     distinct (map fst ws) \<and> distinct order \<and> set order = set (map fst ws)
     \<and> (\<forall>k w. map_of ws k = Some w \<longrightarrow> w \<noteq> [] \<and> sorted w \<and> last w \<le> now)
     \<and> sorted (map (\<lambda>k. last (window ws k)) order)"

text \<open>What a full scan would leave.\<close>

definition fresh_windows :: "rat \<Rightarrow> windows \<Rightarrow> windows" where
  "fresh_windows cutoff ws = filter (\<lambda>e. cutoff < last (snd e)) ws"

lemma fresh_all: "(\<And>k w. map_of ws k = Some w \<Longrightarrow> cutoff < last w) \<Longrightarrow> distinct (map fst ws) \<Longrightarrow> fresh_windows cutoff ws = ws"
  unfolding fresh_windows_def by (intro filter_True) auto

lemma fresh_pop: "\<not> cutoff < last w \<Longrightarrow> map_of ws ip = Some w \<Longrightarrow> distinct (map fst ws) \<Longrightarrow>
    fresh_windows cutoff (od_pop ip ws) = fresh_windows cutoff ws"
  unfolding fresh_windows_def od_pop_def filter_filter
  by (rule filter_cong) (auto dest: map_of_SomeD eq_key_imp_eq_value)

lemma window_of: "map_of ws k = Some w \<Longrightarrow> window ws k = w"
  by (simp add: window_def)

lemma map_of_pop: "map_of (od_pop k ws) j = (if j = k then None else map_of ws j)"
  by (simp add: od_pop_def map_of_other_keys)

lemma windows_inv_pop:
  assumes "windows_inv now ws (ip # order)"
  shows "windows_inv now (od_pop ip ws) order"
proof -
  have e: "map (\<lambda>k. last (window (od_pop ip ws) k)) order = map (\<lambda>k. last (window ws k)) order"
    using assms by (auto simp: windows_inv_def window_pop)
  show ?thesis using assms keys_pop [of ip ws] unfolding windows_inv_def e by (auto simp: distinct_pop map_of_pop)
qed

lemma evict_stale:
  assumes "windows_inv now ws order"
  shows "fst (evict_stale_smtp_ip_windows cutoff ws order) = fresh_windows cutoff ws
     \<and> windows_inv now (fst (evict_stale_smtp_ip_windows cutoff ws order)) (snd (evict_stale_smtp_ip_windows cutoff ws order))"
  using assms
proof (induction order arbitrary: ws)
  case Nil
  then show ?case by (auto simp: windows_inv_def fresh_windows_def)
next
  case (Cons ip order)
  then obtain w where w: "map_of ws ip = Some w" "w \<noteq> []"
    by (metis list.set_intros(1) map_of_eq_None_iff not_Some_eq set_map windows_inv_def)
  have d: "distinct (map fst ws)" using Cons.prems by (simp add: windows_inv_def)
  show ?case
  proof (cases "cutoff < last w")
    case True
    have "cutoff < last v" if v: "map_of ws k = Some v" for k v
    proof -
      have "k \<in> set (ip # order)" using Cons.prems v by (metis map_of_SomeD fst_conv image_eqI set_map windows_inv_def)
      then have "last (window ws ip) \<le> last (window ws k)" using Cons.prems by (auto simp: windows_inv_def)
      then show ?thesis using True w v by (simp add: window_of)
    qed
    then show ?thesis using True w Cons.prems fresh_all [OF _ d, of cutoff] by simp
  next
    case False
    then have "evict_stale_smtp_ip_windows cutoff ws (ip # order) = evict_stale_smtp_ip_windows cutoff (od_pop ip ws) order"
      using w by simp
    then show ?thesis using Cons.IH [OF windows_inv_pop [OF Cons.prems]] fresh_pop [OF False w(1) d] by metis
  qed
qed

section \<open>The windows and the log\<close>

lemma od_put_put: "od_put k v (od_put k w d) = od_put k v d"
  by (simp add: od_put_def od_pop_def)

lemma map_of_put: "map_of (od_put k w ws) j = (if j = k then Some w else map_of ws j)"
  by (auto simp: od_put_def map_add_def map_of_pop map_of_append split: option.splits)

lemma window_fresh:
  assumes "distinct (map fst ws)"
  shows "window (fresh_windows c ws) k = (if c < last (window ws k) \<or> map_of ws k = None then window ws k else [])"
proof -
  have "map_of (fresh_windows c ws) k = (case map_of ws k of Some w \<Rightarrow> if c < last w then Some w else None | None \<Rightarrow> None)"
    using assms unfolding fresh_windows_def by (induction ws) (auto split: option.splits simp: map_of_eq_None_iff image_iff)
  then show ?thesis by (auto simp: window_def split: option.splits)
qed

lemma sorted_last: "sorted w \<Longrightarrow> t \<in> set w \<Longrightarrow> t \<le> last w"
  by (induction w) auto

lemma tracks_fresh:
  assumes "tracks L ws f now" and "\<forall>k w. map_of ws k = Some w \<longrightarrow> w \<noteq> []"
  shows "tracks L (fresh_windows (now - L) ws) f now"
proof -
  have d: "distinct (map fst ws)" using assms(1) by (simp add: tracks_def)
  have "filter (\<lambda>t. c < t) (window ws k) = []" if "c \<ge> now - L" "\<not> now - L < last (window ws k)" for c k
  proof -
    have "sorted (window ws k)" using assms(1) by (simp add: tracks_def)
    then show ?thesis using that sorted_last [of "window ws k"] by (fastforce simp: filter_empty_conv)
  qed
  then show ?thesis
    using assms(1) d unfolding tracks_def window_fresh [OF d]
    by (auto simp: fresh_windows_def distinct_map_filter)
qed

lemma tracks_shorten:
  assumes "tracks L ws f now" and "w = filter (\<lambda>t. now - L < t) (window ws k)"
  shows "tracks L (od_put k w ws) f now"
proof -
  have "filter (\<lambda>t. c < t) w = filter (\<lambda>t. c < t) (window ws k)" if "c \<ge> now - L" for c
    unfolding assms(2) filter_filter by (rule filter_cong) (use that in auto)
  moreover have "sorted w" "\<forall>t \<in> set w. t \<le> now"
  proof -
    have t: "sorted (window ws k)" "\<forall>t \<in> set (window ws k). t \<le> now" using assms(1) by (simp_all add: tracks_def)
    show "sorted w" "\<forall>t \<in> set w. t \<le> now" unfolding assms(2) using t(2) sorted_wrt_filter [OF t(1)] by auto
  qed
  ultimately show ?thesis using assms(1) by (simp add: tracks_def window_put distinct_put)
qed

lemma open_ip_window:
  assumes inv: "windows_inv now ws order" and A: "set (map fst ws) \<subseteq> A" "ip \<in> A" "finite A" "card A \<le> n" "0 < n"
  shows "open_ip_window n ip ws order = (window ws ip, od_put ip (window ws ip) ws, order)"
proof (cases "map_of ws ip")
  case None
  then have "ip \<notin> set (map fst ws)" by (simp add: map_of_eq_None_iff)
  moreover have "card (insert ip (set (map fst ws))) \<le> card A" using A by (intro card_mono) auto
  moreover have "card (set (map fst ws)) = length ws" using inv distinct_card [of "map fst ws"] by (simp add: windows_inv_def)
  ultimately have "length ws \<le> n - 1" using A(4) by (simp del: set_map)
  moreover have "filter (\<lambda>x. x \<in> set (map fst ws) \<or> x \<notin> set (map fst ws)) order = order" by (rule filter_True) auto
  ultimately show ?thesis using None by (simp add: open_ip_window_def Let_def trim_id window_def del: set_map)
qed (simp add: open_ip_window_def window_def)

lemma windows_inv_append:
  assumes inv: "windows_inv now ws order" and w: "sorted w" "\<forall>t \<in> set w. t \<le> now"
  shows "windows_inv now (od_put ip (w @ [now]) ws) (removeAll ip order @ [ip])"
proof -
  let ?ws = "od_put ip (w @ [now]) ws"
  have e: "map (\<lambda>k. last (window ?ws k)) (removeAll ip order) = map (\<lambda>k. last (window ws k)) (removeAll ip order)"
    by (simp add: window_put)
  have m: "x \<in> set (removeAll ip order) \<Longrightarrow> last (window ws x) \<le> now" for x
  proof -
    assume "x \<in> set (removeAll ip order)"
    then have "x \<in> set (map fst ws)" using inv by (auto simp: windows_inv_def)
    then obtain v where "map_of ws x = Some v" by (metis map_of_eq_None_iff not_Some_eq set_map)
    then show ?thesis using inv window_of by (auto simp: windows_inv_def)
  qed
  have "sorted (map (\<lambda>k. last (window ws k)) (removeAll ip order))"
    using inv unfolding windows_inv_def sorted_map removeAll_filter_not_eq by (blast intro: sorted_wrt_filter)
  then have "sorted (map (\<lambda>k. last (window ?ws k)) (removeAll ip order @ [ip]))"
    unfolding map_append e using m by (auto simp: sorted_append window_put)
  then show ?thesis
    using inv w keys_put [of ip "w @ [now]" ws] distinct_put [of ws ip "w @ [now]"]
    by (auto simp: windows_inv_def map_of_put sorted_append distinct_removeAll split: if_splits)
qed

lemma windows_inv_shorten:
  assumes inv: "windows_inv now ws order" and v: "map_of ws ip = Some v" and w: "w = dropWhile P v" "w \<noteq> []"
  shows "windows_inv now (od_put ip w ws) order"
proof -
  have lw: "last w = last v" using w by (metis last_append takeWhile_dropWhile_id)
  have e: "map (\<lambda>k. last (window (od_put ip w ws) k)) order = map (\<lambda>k. last (window ws k)) order"
    using lw window_of [OF v] by (simp add: window_put)
  have k: "insert ip (set (map fst ws)) = set (map fst ws)" using v by (force dest: map_of_SomeD)
  have "sorted w" using inv v w(1) by (auto simp: windows_inv_def sorted_dropWhile)
  then show ?thesis
    using inv v w(2) lw keys_put [of ip w ws] k distinct_put [of ws ip w] unfolding windows_inv_def e
    by (auto simp: map_of_put split: if_splits)
qed

lemma capacity_pos: "0 < smtp_ip_window_capacity S"
  by (simp add: smtp_ip_window_capacity_def SMTP_IP_RATE_STATE_MAX_ENTRIES_def SMTP_IP_RATE_STATE_MIN_ENTRIES_def)

definition limiting :: "limit_settings \<Rightarrow> bool" where
  "limiting S \<longleftrightarrow> 0 < connection_rate_limit_count S \<and> 0 < connection_rate_limit_window_seconds S"

text \<open>The connections of an address that count against its limit.\<close>

definition counted :: "limit_settings \<Rightarrow> rat \<Rightarrow> rat list \<Rightarrow> nat" where
  "counted S now ts = length (filter (\<lambda>t. now - of_int (connection_rate_limit_window_seconds S) < t) ts)"

lemma rate_section:
  assumes S: "limiting S" and inv: "windows_inv now (ip_windows st) (ip_expiry_order st)"
    and tr: "tracks (of_int (connection_rate_limit_window_seconds S)) (ip_windows st) f now"
    and A: "set (map fst (ip_windows st)) \<subseteq> A" "ip \<in> A" "finite A" "card A \<le> smtp_ip_window_capacity S"
    and run: "rate_section S now ip st = (ok, st')"
  shows "ok \<longleftrightarrow> int (counted S now (f ip)) < connection_rate_limit_count S"
    and "windows_inv now (ip_windows st') (ip_expiry_order st')"
    and "tracks (of_int (connection_rate_limit_window_seconds S)) (ip_windows st') (if ok then f(ip := f ip @ [now]) else f) now"
    and "set (map fst (ip_windows st')) \<subseteq> A" and "active_connections st' = active_connections st"
proof -
  let ?L = "of_int (connection_rate_limit_window_seconds S) :: rat"
  let ?c = "now - ?L"
  define ws where "ws = fresh_windows ?c (ip_windows st)"
  obtain order where ev: "evict_stale_smtp_ip_windows ?c (ip_windows st) (ip_expiry_order st) = (ws, order)"
    and inv1: "windows_inv now ws order"
    using evict_stale [OF inv, of ?c] ws_def by (metis prod.collapse)
  have tr1: "tracks ?L ws f now" unfolding ws_def by (rule tracks_fresh [OF tr]) (use inv in \<open>simp add: windows_inv_def\<close>)
  have A1: "set (map fst ws) \<subseteq> A" using A(1) by (auto simp: ws_def fresh_windows_def)
  note op = open_ip_window [OF inv1 A1 A(2-4) capacity_pos]
  define w where "w = dropWhile (\<lambda>t. t \<le> ?c) (window ws ip)"
  have srt: "sorted (window ws ip)" "\<forall>t \<in> set (window ws ip). t \<le> now" using tr1 by (simp_all add: tracks_def)
  have wf: "w = filter (\<lambda>t. ?c < t) (window ws ip)" unfolding w_def by (rule sorted_dropWhile [OF srt(1)])
  have wl: "w = filter (\<lambda>t. ?c < t) (f ip)" using tr1 wf by (simp add: tracks_def)
  have r: "(ok, st') = (if connection_rate_limit_count S \<le> int (length w)
      then (False, st\<lparr>ip_windows := od_put ip w ws, ip_expiry_order := order\<rparr>)
      else (True, st\<lparr>ip_windows := od_put ip (w @ [now]) ws, ip_expiry_order := removeAll ip order @ [ip]\<rparr>))"
    using run S unfolding rate_section_def limiting_def Let_def ev op w_def by (simp add: ev op od_put_put split: if_splits)
  show "ok \<longleftrightarrow> int (counted S now (f ip)) < connection_rate_limit_count S"
    using r wl by (auto simp: counted_def split: if_splits)
  have "connection_rate_limit_count S \<le> int (length w) \<Longrightarrow> w \<noteq> []" using S by (auto simp: limiting_def)
  moreover have "w \<noteq> [] \<Longrightarrow> \<exists>v. map_of ws ip = Some v \<and> w = dropWhile (\<lambda>t. t \<le> ?c) v"
    by (cases "map_of ws ip") (simp_all add: w_def window_def)
  moreover have sw: "sorted w" "\<forall>t \<in> set w. t \<le> now" unfolding wf using srt(2) sorted_wrt_filter [OF srt(1)] by auto
  ultimately show "windows_inv now (ip_windows st') (ip_expiry_order st')"
    using r windows_inv_shorten [OF inv1, of ip _ w] windows_inv_append [OF inv1 sw, of ip] by (auto split: if_splits)
  show "tracks ?L (ip_windows st') (if ok then f(ip := f ip @ [now]) else f) now"
    using r tracks_shorten [OF tr1 wf] tracks_put [OF tr1, of "w @ [now]" ip] wl by (auto split: if_splits)
  show "set (map fst (ip_windows st')) \<subseteq> A" "active_connections st' = active_connections st"
    using r A1 A(2) by (auto simp: keys_put simp del: set_map split: if_splits)
qed

section \<open>Runs\<close>

definition limits_ok :: "limit_settings \<Rightarrow> connection_limiter \<Rightarrow> (string \<Rightarrow> rat list) \<Rightarrow> rat \<Rightarrow> string set \<Rightarrow> bool" where
  "limits_ok S st f now A \<longleftrightarrow>
     windows_inv now (ip_windows st) (ip_expiry_order st)
     \<and> tracks (of_int (connection_rate_limit_window_seconds S)) (ip_windows st) f now
     \<and> set (map fst (ip_windows st)) \<subseteq> A"

text \<open>The log: the accepted new connections of every address.\<close>

fun log_connections :: "limit_event list \<Rightarrow> connection_limiter \<Rightarrow> (string \<Rightarrow> rat list) \<Rightarrow> (string \<Rightarrow> rat list)" where
  "log_connections [] st f = f"
| "log_connections (Connect S t sid ip # es) st f =
     log_connections es (limits_next (Connect S t sid ip) st)
       (if map_of (active_connections st) sid = None \<and> connect_result (Connect S t sid ip) st then f(ip := f ip @ [t]) else f)"
| "log_connections (Release sid # es) st f = log_connections es (limits_next (Release sid) st) f"

lemma limits_later: "limits_ok S st f now A \<Longrightarrow> now \<le> t \<Longrightarrow> limits_ok S st f t A"
  unfolding limits_ok_def windows_inv_def by (metis order_trans tracks_later)

lemma register_result:
  assumes S: "limiting S" and ok: "limits_ok S st f now A" and A: "ip \<in> A" "finite A" "card A \<le> smtp_ip_window_capacity S"
  shows "fst (register_smtp_connection S now sid ip st) =
      (if map_of (active_connections st) sid \<noteq> None then (True, None)
       else if 0 < max_concurrent_connections S \<and> max_concurrent_connections S \<le> int (length (active_connections st))
       then (False, Some ''concurrent connection limit exceeded'')
       else if connection_rate_limit_count S \<le> int (counted S now (f ip))
       then (False, Some ''per-ip connection rate limit exceeded'')
       else (True, None))"
    and "limits_ok S (snd (register_smtp_connection S now sid ip st))
      (if map_of (active_connections st) sid = None \<and> fst (fst (register_smtp_connection S now sid ip st)) then f(ip := f ip @ [now]) else f) now A"
proof -
  obtain b st1 where b: "rate_section S now ip st = (b, st1)" by (cases "rate_section S now ip st")
  have i: "windows_inv now (ip_windows st) (ip_expiry_order st)"
    "tracks (of_int (connection_rate_limit_window_seconds S)) (ip_windows st) f now" "set (map fst (ip_windows st)) \<subseteq> A"
    using ok by (simp_all add: limits_ok_def)
  note r = rate_section [OF S i A b]
  show "fst (register_smtp_connection S now sid ip st) =
      (if map_of (active_connections st) sid \<noteq> None then (True, None)
       else if 0 < max_concurrent_connections S \<and> max_concurrent_connections S \<le> int (length (active_connections st))
       then (False, Some ''concurrent connection limit exceeded'')
       else if connection_rate_limit_count S \<le> int (counted S now (f ip))
       then (False, Some ''per-ip connection rate limit exceeded'')
       else (True, None))"
    using r(1) b by (cases b) (simp_all add: register_smtp_connection_def)
  show "limits_ok S (snd (register_smtp_connection S now sid ip st))
      (if map_of (active_connections st) sid = None \<and> fst (fst (register_smtp_connection S now sid ip st)) then f(ip := f ip @ [now]) else f) now A"
    using r(2-4) b ok
    by (cases b; cases "map_of (active_connections st) sid") (simp_all add: register_smtp_connection_def limits_ok_def)
qed

fun connect_times :: "limit_event list \<Rightarrow> rat list" where
  "connect_times [] = []"
| "connect_times (Connect S t sid ip # es) = t # connect_times es"
| "connect_times (Release sid # es) = connect_times es"

fun connect_ips :: "limit_event list \<Rightarrow> string list" where
  "connect_ips [] = []"
| "connect_ips (Connect S t sid ip # es) = ip # connect_ips es"
| "connect_ips (Release sid # es) = connect_ips es"

fun under :: "limit_settings \<Rightarrow> limit_event \<Rightarrow> bool" where
  "under S (Connect S' t sid ip) \<longleftrightarrow> S' = S"
| "under S (Release sid) \<longleftrightarrow> True"

definition run_limits :: "limit_event list \<Rightarrow> connection_limiter" where
  "run_limits es = fold limits_next es connection_limiter_init"

definition bounded :: "limit_settings \<Rightarrow> connection_limiter \<Rightarrow> (string \<Rightarrow> rat list) \<Rightarrow> rat \<Rightarrow> bool" where
  "bounded S st f now \<longleftrightarrow>
     (\<forall>k. int (counted S now (f k)) \<le> connection_rate_limit_count S)
     \<and> (0 < max_concurrent_connections S \<longrightarrow> int (length (active_connections st)) \<le> max_concurrent_connections S)"

lemma counted_later: "now \<le> t \<Longrightarrow> counted S t ts \<le> counted S now ts"
  unfolding counted_def by (induction ts) auto

lemma bounded_later: "bounded S st f now \<Longrightarrow> now \<le> t \<Longrightarrow> bounded S st f t"
  unfolding bounded_def using counted_later by (meson of_nat_mono order_trans)

lemma bounded_register:
  assumes S: "limiting S" and ok: "limits_ok S st f now A" and A: "ip \<in> A" "finite A" "card A \<le> smtp_ip_window_capacity S"
    and bd: "bounded S st f now"
  shows "bounded S (snd (register_smtp_connection S now sid ip st))
     (if map_of (active_connections st) sid = None \<and> fst (fst (register_smtp_connection S now sid ip st)) then f(ip := f ip @ [now]) else f) now"
proof -
  obtain b st1 where b: "rate_section S now ip st = (b, st1)" by (cases "rate_section S now ip st")
  have i: "windows_inv now (ip_windows st) (ip_expiry_order st)"
    "tracks (of_int (connection_rate_limit_window_seconds S)) (ip_windows st) f now" "set (map fst (ip_windows st)) \<subseteq> A"
    using ok by (simp_all add: limits_ok_def)
  note r = rate_section(1,5) [OF S i A b]
  have c: "counted S now (f ip @ [now]) = counted S now (f ip) + 1" using S by (simp add: counted_def limiting_def)
  show ?thesis
    using bd b r c
    by (cases b; cases "map_of (active_connections st) sid") (auto simp: register_smtp_connection_def bounded_def)
qed

lemma release_connection_ok:
  assumes "limits_ok S st f now A" "bounded S st f now"
  shows "limits_ok S (limits_next (Release sid) st) f now A" "bounded S (limits_next (Release sid) st) f now"
  using assms length_od_pop [of sid "active_connections st"]
  by (auto simp: limits_ok_def bounded_def release_smtp_connection_def)

lemma run_limits_ok:
  assumes S: "limiting S" and A: "finite A" "card A \<le> smtp_ip_window_capacity S"
    and "limits_ok S st f now A" "bounded S st f now" "\<forall>e \<in> set es. under S e" "sorted (now # connect_times es @ [later])"
      "set (connect_ips es) \<subseteq> A"
  shows "limits_ok S (fold limits_next es st) (log_connections es st f) later A
     \<and> bounded S (fold limits_next es st) (log_connections es st f) later"
  using assms(4-)
proof (induction es arbitrary: st f now)
  case Nil
  then show ?case by (auto intro: limits_later bounded_later)
next
  case (Cons e es)
  show ?case
  proof (cases e)
    case (Connect S' t sid ip)
    then have p: "S' = S" "now \<le> t" "ip \<in> A" using Cons.prems by auto
    let ?f = "if map_of (active_connections st) sid = None \<and> connect_result (Connect S t sid ip) st then f(ip := f ip @ [t]) else f"
    have "limits_ok S st f t A" "bounded S st f t" using Cons.prems(1,2) p by (auto intro: limits_later bounded_later)
    then have "limits_ok S (limits_next (Connect S t sid ip) st) ?f t A" "bounded S (limits_next (Connect S t sid ip) st) ?f t"
      using register_result(2) [OF S _ p(3) A] bounded_register [OF S _ p(3) A] by (simp_all add: connect_result_def)
    then show ?thesis using Cons.IH [of "limits_next (Connect S t sid ip) st" ?f t] Cons.prems Connect p by simp
  next
    case (Release sid)
    then show ?thesis using Cons.IH [OF release_connection_ok [OF Cons.prems(1,2), of sid]] Cons.prems by simp
  qed
qed

section \<open>Any settings and any number of addresses\<close>

text \<open>
  Whatever the settings become and whatever is evicted, the windows never count a connection that
  was not accepted.
\<close>

lemma evict_within: "within_log ws f now \<Longrightarrow> within_log (fst (evict_stale_smtp_ip_windows c ws order)) f now"
  by (induction c ws order rule: evict_stale_smtp_ip_windows.induct) (auto simp: within_log_pop split: option.splits)

lemma open_within:
  assumes "within_log ws f now" and "open_ip_window n ip ws order = (w, ws1, order1)"
  shows "within_log ws1 f now" and "w = window ws1 ip"
proof -
  have empty: "within_log (od_put ip [] (od_trim m ws)) f now" for m
    by (rule within_log_put [OF within_log_trim [OF assms(1)]]) simp_all
  have same: "within_log (od_put ip w ws) f now" if "map_of ws ip = Some w"
    using within_logD(2-4) [OF assms(1), where k = ip] that
    by (intro within_log_put [OF assms(1)]) (auto simp: window_def)
  show "within_log ws1 f now" "w = window ws1 ip"
    using assms(2) empty same by (auto simp: open_ip_window_def Let_def window_put split: option.splits)
qed

lemma rate_within:
  assumes wl: "within_log (ip_windows st) f now" and run: "rate_section S now ip st = (ok, st')"
  shows "within_log (ip_windows st') (if ok then f(ip := f ip @ [now]) else f) now"
    and "\<not> ok \<Longrightarrow> limiting S \<and> connection_rate_limit_count S \<le> int (counted S now (f ip))"
proof -
  let ?c = "now - of_int (connection_rate_limit_window_seconds S)"
  obtain ws order where ev: "evict_stale_smtp_ip_windows ?c (ip_windows st) (ip_expiry_order st) = (ws, order)" by fastforce
  obtain w ws1 order1 where op: "open_ip_window (smtp_ip_window_capacity S) ip ws order = (w, ws1, order1)"
    by (cases "open_ip_window (smtp_ip_window_capacity S) ip ws order")
  have "within_log ws f now" using evict_within [OF wl, of ?c "ip_expiry_order st"] ev by simp
  note o = open_within [OF this op]
  let ?w = "dropWhile (\<lambda>t. t \<le> ?c) w"
  note p = within_log_shorten [OF o(1), of ?w ?c ip, unfolded o(2), OF refl]
  have len: "int (length ?w) \<le> int (counted S now (f ip))"
    using within_logD(2,4) [OF o(1), where k = ip] by (simp add: o(2) length_dropWhile_sorted counted_def later_than_def)
  show "within_log (ip_windows st') (if ok then f(ip := f ip @ [now]) else f) now"
    using run p within_log_empty by (auto simp: rate_section_def Let_def ev op o(2) split: if_splits)
  show "limiting S \<and> connection_rate_limit_count S \<le> int (counted S now (f ip))" if "\<not> ok"
    using run that len by (auto simp: rate_section_def Let_def ev op limiting_def split: if_splits)
qed

lemma register_within:
  assumes wl: "within_log (ip_windows st) f now"
  shows "within_log (ip_windows (snd (register_smtp_connection S now sid ip st)))
      (if map_of (active_connections st) sid = None \<and> fst (fst (register_smtp_connection S now sid ip st)) then f(ip := f ip @ [now]) else f) now"
    and "fst (register_smtp_connection S now sid ip st) = (False, Some ''per-ip connection rate limit exceeded'') \<Longrightarrow>
      limiting S \<and> connection_rate_limit_count S \<le> int (counted S now (f ip))"
proof -
  obtain b st1 where b: "rate_section S now ip st = (b, st1)" by (cases "rate_section S now ip st")
  note r = rate_within [OF wl b]
  show "within_log (ip_windows (snd (register_smtp_connection S now sid ip st)))
      (if map_of (active_connections st) sid = None \<and> fst (fst (register_smtp_connection S now sid ip st)) then f(ip := f ip @ [now]) else f) now"
    using r(1) wl b by (cases b; cases "map_of (active_connections st) sid") (auto simp: register_smtp_connection_def)
  show "limiting S \<and> connection_rate_limit_count S \<le> int (counted S now (f ip))"
    if "fst (register_smtp_connection S now sid ip st) = (False, Some ''per-ip connection rate limit exceeded'')"
    using that r(2) b by (cases b) (auto simp: register_smtp_connection_def split: if_splits)
qed

lemma run_within:
  assumes "within_log (ip_windows st) f now" and "sorted (now # connect_times es @ [later])"
  shows "within_log (ip_windows (fold limits_next es st)) (log_connections es st f) later"
  using assms
proof (induction es arbitrary: st f now)
  case Nil
  then show ?case by (auto intro: within_log_later)
next
  case (Cons e es)
  show ?case
  proof (cases e)
    case (Connect S t sid ip)
    have "within_log (ip_windows st) f t" using Cons.prems Connect by (auto intro: within_log_later)
    from Cons.IH [OF register_within(1) [OF this, of S sid ip]] show ?thesis
      using Cons.prems Connect by (simp add: connect_result_def)
  next
    case (Release sid)
    then show ?thesis using Cons.IH [of "limits_next (Release sid) st" f now] Cons.prems by (simp add: release_smtp_connection_def)
  qed
qed

section \<open>Property\<close>

text \<open>
  C39: which connections are refused, after any sequence of connections and disconnections under any
  settings. For the number of connections a new one is refused exactly when a limit is set and
  the open ones have reached it. For its rate it is refused only when a rate is set and a complete log
  has at least that many accepted connections of its address within the window: no eviction and no
  change of the settings makes the program count a connection that was not there. While the settings
  that limit connections stay the same and the addresses seen fit into the state the program
  keeps for them (between 1,024 and 65,536 windows; beyond that the least recently used is forgotten),
  the rate refusal is exact too, and then never more connections are open, and never more of an address
  accepted within a window, than the settings say.
\<close>

theorem smtp_connection_limits:
  assumes "sorted (connect_times es @ [now])"
  shows "(fst (register_smtp_connection S now sid ip (run_limits es)) = (False, Some ''concurrent connection limit exceeded'') \<longleftrightarrow>
        map_of (active_connections (run_limits es)) sid = None \<and> 0 < max_concurrent_connections S
        \<and> max_concurrent_connections S \<le> int (length (active_connections (run_limits es))))
    \<and> (fst (register_smtp_connection S now sid ip (run_limits es)) = (False, Some ''per-ip connection rate limit exceeded'') \<longrightarrow>
        limiting S \<and> connection_rate_limit_count S \<le> int (counted S now (log_connections es connection_limiter_init (\<lambda>_. []) ip)))
    \<and> (limiting S \<and> (\<forall>e \<in> set es. under S e) \<and> length (remdups (ip # connect_ips es)) \<le> smtp_ip_window_capacity S \<longrightarrow>
        fst (register_smtp_connection S now sid ip (run_limits es)) =
          (if map_of (active_connections (run_limits es)) sid \<noteq> None then (True, None)
           else if 0 < max_concurrent_connections S \<and> max_concurrent_connections S \<le> int (length (active_connections (run_limits es)))
           then (False, Some ''concurrent connection limit exceeded'')
           else if connection_rate_limit_count S \<le> int (counted S now (log_connections es connection_limiter_init (\<lambda>_. []) ip))
           then (False, Some ''per-ip connection rate limit exceeded'')
           else (True, None))
        \<and> int (counted S now (log_connections es connection_limiter_init (\<lambda>_. []) ip)) \<le> connection_rate_limit_count S
        \<and> (0 < max_concurrent_connections S \<longrightarrow> int (length (active_connections (run_limits es))) \<le> max_concurrent_connections S))"
proof (intro conjI impI)
  let ?A = "set (ip # connect_ips es)" and ?first = "hd (connect_times es @ [now])" and ?f = "log_connections es connection_limiter_init (\<lambda>_. [])"
  let ?r = "fst (register_smtp_connection S now sid ip (run_limits es))"
  have srt: "sorted (?first # connect_times es @ [now])" using assms by (cases "connect_times es") auto
  show "?r = (False, Some ''concurrent connection limit exceeded'') \<longleftrightarrow>
      map_of (active_connections (run_limits es)) sid = None \<and> 0 < max_concurrent_connections S
      \<and> max_concurrent_connections S \<le> int (length (active_connections (run_limits es)))"
    by (auto simp: register_smtp_connection_def split: prod.splits bool.splits)
  have "within_log (ip_windows (run_limits es)) ?f now"
    unfolding run_limits_def by (rule run_within [OF _ srt]) (simp add: connection_limiter_init_def within_log_empty)
  then show "limiting S" "connection_rate_limit_count S \<le> int (counted S now (?f ip))"
    if "?r = (False, Some ''per-ip connection rate limit exceeded'')"
    using register_within(2) that by blast+
  assume fixed: "limiting S \<and> (\<forall>e \<in> set es. under S e) \<and> length (remdups (ip # connect_ips es)) \<le> smtp_ip_window_capacity S"
  then have S: "limiting S" "\<forall>e \<in> set es. under S e" by simp_all
  have A: "finite ?A" "card ?A \<le> smtp_ip_window_capacity S" using fixed by (simp_all only: length_remdups_card_conv List.finite_set)
  have "limits_ok S connection_limiter_init (\<lambda>_. []) ?first ?A" "bounded S connection_limiter_init (\<lambda>_. []) ?first"
    using S(1) by (simp_all add: limits_ok_def bounded_def connection_limiter_init_def windows_inv_def tracks_def window_def counted_def limiting_def)
  then have ok: "limits_ok S (run_limits es) ?f now ?A \<and> bounded S (run_limits es) ?f now"
    unfolding run_limits_def by (intro run_limits_ok [OF S(1) A _ _ S(2) srt]) auto
  then show "?r = (if map_of (active_connections (run_limits es)) sid \<noteq> None then (True, None)
       else if 0 < max_concurrent_connections S \<and> max_concurrent_connections S \<le> int (length (active_connections (run_limits es)))
       then (False, Some ''concurrent connection limit exceeded'')
       else if connection_rate_limit_count S \<le> int (counted S now (?f ip))
       then (False, Some ''per-ip connection rate limit exceeded'')
       else (True, None))"
    using register_result(1) [OF S(1) _ _ A, of _ _ now ip sid] by simp
  show "int (counted S now (?f ip)) \<le> connection_rate_limit_count S"
    "0 < max_concurrent_connections S \<Longrightarrow> int (length (active_connections (run_limits es))) \<le> max_concurrent_connections S"
    using ok by (simp_all add: bounded_def)
qed

definition ex_limits :: limit_settings where
  "ex_limits = \<lparr>max_concurrent_connections = 10, connection_rate_limit_count = 2, connection_rate_limit_window_seconds = 60\<rparr>"

theorem smtp_connection_limits_witness:
  "fst (register_smtp_connection ex_limits 50 ''c'' ''ip'' (run_limits [Connect ex_limits 1 ''a'' ''ip'', Release ''a'', Connect ex_limits 2 ''b'' ''ip'']))
     = (False, Some ''per-ip connection rate limit exceeded'')
   \<and> fst (register_smtp_connection ex_limits 61 ''c'' ''ip'' (run_limits [Connect ex_limits 1 ''a'' ''ip'', Release ''a'', Connect ex_limits 2 ''b'' ''ip'']))
     = (True, None)"
proof -
  let ?es = "[Connect ex_limits 1 ''a'' ''ip'', Release ''a'', Connect ex_limits 2 ''b'' ''ip'']"
  have st: "run_limits ?es = \<lparr>active_connections = [(''b'', ''ip'')], ip_windows = [(''ip'', [1, 2])], ip_expiry_order = [''ip'']\<rparr>"
    and lg: "log_connections ?es connection_limiter_init (\<lambda>_. []) ''ip'' = [1, 2]"
    by (simp_all add: run_limits_def connection_limiter_init_def register_smtp_connection_def release_smtp_connection_def rate_section_def
        open_ip_window_def ex_limits_def Let_def od_put_def od_pop_def od_trim_def connect_result_def)
  have c: "limiting ex_limits" "1 \<le> smtp_ip_window_capacity ex_limits"
    by (simp_all add: limiting_def ex_limits_def smtp_ip_window_capacity_def SMTP_IP_RATE_STATE_MAX_ENTRIES_def SMTP_IP_RATE_STATE_MIN_ENTRIES_def)
  show ?thesis
    using smtp_connection_limits [of ?es 50 ex_limits "''c''" "''ip''"] smtp_connection_limits [of ?es 61 ex_limits "''c''" "''ip''"] c
    unfolding st lg by (simp add: counted_def ex_limits_def)
qed

end
