(* ===== verification/Smtp_Handler.thy ===== *)
theory Smtp_Handler
  imports Smtp_Limits Mail_Accept Live_State Permissions
begin

text \<open>
  \<^verbatim>\<open>src/app/smtp/handler.py\<close> with the session calls of \<^verbatim>\<open>src/app/runtime.py\<close> it makes: the hooks of an
  SMTP connection over the limits, the session table, the event table, the live events and message
  acceptance. A write of a session fails when the environment says so; every path after such a
  failure is the code's. The lemmas show what an envelope holds and what an acknowledgement of
  \<open>DATA\<close> means.
\<close>

section \<open>State\<close>

record smtp_session =
  se_id :: "string option"
  se_ip :: "string option"
  se_port :: "int option"
  se_helo :: "string option"
  se_tls :: bool

record event_row =
  ev_session :: string
  ev_seq :: int
  ev_type :: string
  ev_ts :: string
  ev_payload :: event

record smtp_world =
  w_limits :: connection_limiter
  w_rt :: runtime
  w_sizes :: "int \<rightharpoonup> int"
  w_live :: live_state
  w_events :: "event_row list"
  w_closing :: bool

record smtp_settings =
  connection_limits :: limit_settings
  max_recipients_per_message :: int
  max_message_bytes :: int
  smtp_close_after_data :: bool

datatype smtp_write = EnsureSession | RecordRcpt | RecordEvent | CloseSession

text \<open>
  The surroundings of one hook: the clocks, a random identifier, the writes that raise, the text
  of an address in the session table, and what acceptance takes from outside.
\<close>

record smtp_env =
  e_now :: string
  e_clock :: rat
  e_uuid :: string
  e_fails :: "smtp_write \<Rightarrow> exn option"
  e_text :: "ustr \<Rightarrow> string"
  e_accept :: accept_env
  e_between :: "ingest_db \<Rightarrow> ingest_db"

datatype smtp_answer = Answer nat string | QueuedAs string

section \<open>The session table\<close>

definition peer_ip :: "smtp_session \<Rightarrow> string" where
  "peer_ip s = text_or (se_ip s) ''unknown''"

definition new_session_row :: "string \<Rightarrow> smtp_session \<Rightarrow> string \<Rightarrow> string option \<Rightarrow> session_row" where
  "new_session_row sid s now rcpt =
     \<lparr>ss_id = sid, remote_ip = peer_ip s, remote_port = se_port s, helo_name = se_helo s, ss_status = ''open'',
      tls_used = se_tls s, connect_at = now, disconnect_at = None, first_command_at = Some now,
      last_command_at = Some now, ss_message_count = 0, rcpt_accepted_count = 0, rcpt_rejected_count = 0,
      bytes_received = 0, last_mail_from = None, last_rcpt_to_sample = rcpt, result_code = None,
      result_message = None, close_reason = None\<rparr>"

definition upsert_session :: "session_row \<Rightarrow> (session_row \<Rightarrow> session_row) \<Rightarrow> ingest_db \<Rightarrow> ingest_db" where
  "upsert_session r f db =
     (if list_ex (\<lambda>x. ss_id x = ss_id r) (smtp_sessions db)
      then db\<lparr>smtp_sessions := map (\<lambda>x. if ss_id x = ss_id r then f x else x) (smtp_sessions db)\<rparr>
      else db\<lparr>smtp_sessions := smtp_sessions db @ [r]\<rparr>)"

definition ensure_smtp_session :: "string \<Rightarrow> smtp_session \<Rightarrow> string \<Rightarrow> string option \<Rightarrow> ingest_db \<Rightarrow> ingest_db" where
  "ensure_smtp_session sid s now rcpt db =
     upsert_session (new_session_row sid s now rcpt)
       (\<lambda>x. x\<lparr>helo_name := se_helo s, tls_used := se_tls s, last_command_at := Some now,
              last_rcpt_to_sample := coalesce rcpt (last_rcpt_to_sample x)\<rparr>) db"

definition record_smtp_rcpt :: "string \<Rightarrow> string \<Rightarrow> string \<Rightarrow> bool \<Rightarrow> ingest_db \<Rightarrow> ingest_db" where
  "record_smtp_rcpt sid now rcpt accepted db =
     (let db1 = update_smtp_session_summary sid now
        (no_change\<lparr>accepted_delta := (if accepted then 1 else 0), rejected_delta := (if accepted then 0 else 1),
           new_rcpt_sample := Some rcpt\<rparr>) db
      in if accepted then db1 else increment_mail_metric now 0 0 0 1 db1)"

definition close_session_row ::
  "string \<Rightarrow> string \<Rightarrow> string \<Rightarrow> string option \<Rightarrow> int option \<Rightarrow> string option \<Rightarrow> ingest_db \<Rightarrow> ingest_db" where
  "close_session_row sid now status reason code message db =
     update_smtp_session_summary sid now
       (no_change\<lparr>new_status := Some status, new_disconnect_at := Some now, new_close_reason := reason,
          new_result_code := code, new_result_message := message\<rparr>) db"

definition lose_session :: "string \<Rightarrow> string \<Rightarrow> string \<Rightarrow> session_row \<Rightarrow> session_row" where
  "lose_session now status reason x =
     x\<lparr>ss_status := status, last_command_at := Some now, disconnect_at := coalesce (disconnect_at x) (Some now),
       close_reason := coalesce (close_reason x) (Some reason)\<rparr>"

text \<open>The transaction of \<open>close_lost_smtp_session\<close>, with the number of rows it changed.\<close>

definition lost_session_rows ::
  "string \<Rightarrow> smtp_session \<Rightarrow> string \<Rightarrow> string \<Rightarrow> string \<Rightarrow> bool \<Rightarrow> ingest_db \<Rightarrow> nat \<times> ingest_db" where
  "lost_session_rows sid s now status reason was_active db =
     (if \<not> was_active then
        (length (filter (\<lambda>x. ss_id x = sid \<and> ss_status x = ''open'') (smtp_sessions db)),
         db\<lparr>smtp_sessions := map (\<lambda>x. if ss_id x = sid \<and> ss_status x = ''open'' then lose_session now status reason x else x)
              (smtp_sessions db)\<rparr>)
      else (1, upsert_session
        ((new_session_row sid s now None)\<lparr>ss_status := status, disconnect_at := Some now, close_reason := Some reason\<rparr>)
        (\<lambda>x. (lose_session now status reason x)\<lparr>first_command_at := coalesce (first_command_at x) (Some now)\<rparr>) db))"

section \<open>Calls of the hooks\<close>

definition write_db ::
  "smtp_env \<Rightarrow> smtp_write \<Rightarrow> (ingest_db \<Rightarrow> ingest_db) \<Rightarrow> smtp_world \<Rightarrow> unit result \<times> smtp_world" where
  "write_db E k f w =
     (case e_fails E k of
        Some e \<Rightarrow> (Inl e, w)
      | None \<Rightarrow> (Inr (), w\<lparr>w_rt := (w_rt w)\<lparr>rt_db := f (rt_db (w_rt w))\<rparr>\<rparr>))"

text \<open>\<open>record_smtp_event\<close>; the event of a session without a row violates the foreign key.\<close>

definition next_event_seq :: "string \<Rightarrow> event_row list \<Rightarrow> int" where
  "next_event_seq sid rows = foldr (\<lambda>r m. if ev_session r = sid then max (ev_seq r) m else m) rows 0 + 1"

definition record_smtp_event :: "smtp_env \<Rightarrow> string \<Rightarrow> event \<Rightarrow> smtp_world \<Rightarrow> smtp_world result" where
  "record_smtp_event E sid ev w =
     (case e_fails E RecordEvent of
        Some e \<Rightarrow> Inl e
      | None \<Rightarrow>
          if \<not> list_ex (\<lambda>r. ss_id r = sid) (smtp_sessions (rt_db (w_rt w))) then Inl (IntegrityError ''smtp_events'')
          else Inr (w\<lparr>w_events := w_events w @
            [\<lparr>ev_session = sid, ev_seq = next_event_seq sid (w_events w), ev_type = event_type ev,
              ev_ts = e_now E, ev_payload = ev\<rparr>]\<rparr>))"

definition publish_session_event :: "smtp_env \<Rightarrow> string \<Rightarrow> event \<Rightarrow> smtp_world \<Rightarrow> smtp_world" where
  "publish_session_event E sid ev w =
     (let w1 = w\<lparr>w_live := publish ev (w_live w)\<rparr>
      in case record_smtp_event E sid ev w1 of Inl _ \<Rightarrow> w1 | Inr w2 \<Rightarrow> w2)"

definition opt_text :: "string option \<Rightarrow> pyval" where
  "opt_text x = (case x of None \<Rightarrow> PyNone | Some s \<Rightarrow> PyStr s)"

definition session_event :: "smtp_env \<Rightarrow> smtp_session \<Rightarrow> string \<Rightarrow> (string \<times> pyval) list \<Rightarrow> event" where
  "session_event E s sid extra =
     [''session_id'' \<mapsto> PyStr sid, ''remote_ip'' \<mapsto> PyStr (peer_ip s),
      ''remote_port'' \<mapsto> (case se_port s of None \<Rightarrow> PyNone | Some p \<Rightarrow> PyInt p),
      ''helo'' \<mapsto> opt_text (se_helo s), ''tls_used'' \<mapsto> PyBool (se_tls s), ''ts'' \<mapsto> PyStr (e_now E)] ++ map_of extra"

definition ensure_session_id :: "smtp_env \<Rightarrow> smtp_session \<Rightarrow> string \<times> smtp_session" where
  "ensure_session_id E s =
     (case se_id s of
        Some i \<Rightarrow> (i, s)
      | None \<Rightarrow> let i = ''smtp_'' @ e_uuid E in (i, s\<lparr>se_id := Some i\<rparr>))"

definition ensure_session_allowed ::
  "smtp_env \<Rightarrow> smtp_settings \<Rightarrow> smtp_session \<Rightarrow> string \<Rightarrow> smtp_world \<Rightarrow> (bool \<times> string option) \<times> smtp_world" where
  "ensure_session_allowed E S s sid w =
     (case register_smtp_connection (connection_limits S) (e_clock E) sid (peer_ip s) (w_limits w) of
        (r, l) \<Rightarrow> (r, w\<lparr>w_limits := l\<rparr>))"

text \<open>
  What every hook with an answer begins with: the identifier, the limits and the row of the
  session. \<open>None\<close> lets the hook go on.
\<close>

definition enter_hook ::
  "smtp_env \<Rightarrow> smtp_settings \<Rightarrow> string option \<Rightarrow> string \<Rightarrow> smtp_session \<Rightarrow> smtp_world
     \<Rightarrow> smtp_answer option result \<times> smtp_world" where
  "enter_hook E S rcpt sid s w =
     (case ensure_session_allowed E S s sid w of
        ((False, reason), w1) \<Rightarrow> (Inr (Some (Answer 421 (text_or reason ''None''))), w1)
      | ((True, _), w1) \<Rightarrow>
          (case write_db E EnsureSession (ensure_smtp_session sid s (e_now E) rcpt) w1 of
             (Inl e, w2) \<Rightarrow> (Inl e, w2)
           | (Inr _, w2) \<Rightarrow> (Inr None, w2)))"

definition close_smtp_session ::
  "smtp_env \<Rightarrow> string \<Rightarrow> string \<Rightarrow> string option \<Rightarrow> int option \<Rightarrow> string option \<Rightarrow> smtp_world \<Rightarrow> unit result \<times> smtp_world" where
  "close_smtp_session E sid status reason code message w =
     (case write_db E CloseSession (close_session_row sid (e_now E) status reason code message) w of
        (Inl e, w1) \<Rightarrow> (Inl e, w1)
      | (Inr _, w1) \<Rightarrow> (Inr (), w1\<lparr>w_limits := snd (release_smtp_connection sid (w_limits w1))\<rparr>))"

definition max_recipients :: "smtp_settings \<Rightarrow> int" where
  "max_recipients S = max_recipients_per_message S"

section \<open>The hooks\<close>

definition handle_CONNECT ::
  "smtp_env \<Rightarrow> smtp_settings \<Rightarrow> smtp_session \<Rightarrow> smtp_world \<Rightarrow> smtp_answer option result \<times> smtp_session \<times> smtp_world" where
  "handle_CONNECT E S s w =
     (case ensure_session_id E s of (sid, s1) \<Rightarrow>
       (case enter_hook E S None sid s1 w of
          (Inr None, w1) \<Rightarrow>
            (Inr None, s1, publish_session_event E sid
               (session_event E s1 sid [(''state'', PyStr ''connect''), (''type'', PyStr ''connect'')]) w1)
        | (r, w1) \<Rightarrow> (r, s1, w1)))"

text \<open>The events of a recipient.\<close>

definition rcpt_event :: "smtp_env \<Rightarrow> smtp_session \<Rightarrow> string \<Rightarrow> string \<Rightarrow> string \<Rightarrow> string option \<Rightarrow> event" where
  "rcpt_event E s sid rcpt kind reason =
     session_event E s sid
       ([(''type'', PyStr kind), (''rcpt_to'', PyStr rcpt), (''state'', PyStr ''rcpt'')]
        @ (case reason of None \<Rightarrow> [] | Some r \<Rightarrow> [(''reason'', PyStr r)]))"

text \<open>Counting a recipient, announcing it and answering; a failed count raises.\<close>

definition answer_rcpt ::
  "smtp_env \<Rightarrow> smtp_session \<Rightarrow> string \<Rightarrow> string \<Rightarrow> bool \<Rightarrow> string option \<Rightarrow> smtp_answer \<Rightarrow> smtp_world \<Rightarrow> smtp_answer result \<times> smtp_world" where
  "answer_rcpt E s sid rcpt accepted reason a w =
     (case write_db E RecordRcpt (record_smtp_rcpt sid (e_now E) rcpt accepted) w of
        (Inl e, w1) \<Rightarrow> (Inl e, w1)
      | (Inr _, w1) \<Rightarrow>
          (Inr a, publish_session_event E sid
             (rcpt_event E s sid rcpt (if accepted then ''rcpt_accepted'' else ''rcpt_rejected'') reason) w1))"

text \<open>The \<open>try\<close> block of \<open>handle_RCPT\<close>: the answer and the recipients of the envelope.\<close>

definition rcpt_body ::
  "smtp_env \<Rightarrow> smtp_settings \<Rightarrow> smtp_session \<Rightarrow> string \<Rightarrow> ustr \<Rightarrow> ustr list \<Rightarrow> smtp_world
     \<Rightarrow> smtp_answer result \<times> ustr list \<times> smtp_world" where
  "rcpt_body E S s sid address rcpt_tos w =
     (let rcpt = e_text E address in
      if address \<in> set rcpt_tos then
        (case answer_rcpt E s sid rcpt True None (Answer 250 ''OK'') w of (a, w1) \<Rightarrow> (a, rcpt_tos, w1))
      else if match_address (env_unicode (e_accept E)) (rt_routing (w_rt w)) address = None then
        (case answer_rcpt E s sid rcpt False None (Answer 550 ''domain not allowed'') w of (a, w1) \<Rightarrow> (a, rcpt_tos, w1))
      else if max_recipients S \<le> int (length rcpt_tos) then
        (case answer_rcpt E s sid rcpt False (Some ''recipient limit exceeded'') (Answer 552 ''too many recipients'') w of
           (a, w1) \<Rightarrow> (a, rcpt_tos, w1))
      else
        (case answer_rcpt E s sid rcpt True None (Answer 250 ''OK'') w of (a, w1) \<Rightarrow> (a, rcpt_tos @ [address], w1)))"

text \<open>\<open>except Exception\<close>: the session is closed, whatever closing does, and the exception goes on.\<close>

definition on_error :: "smtp_env \<Rightarrow> string \<Rightarrow> string \<Rightarrow> smtp_world \<Rightarrow> smtp_world" where
  "on_error E sid reason w = snd (close_smtp_session E sid ''error'' (Some reason) None None w)"

definition handle_RCPT ::
  "smtp_env \<Rightarrow> smtp_settings \<Rightarrow> smtp_session \<Rightarrow> ustr \<Rightarrow> ustr list \<Rightarrow> smtp_world
     \<Rightarrow> smtp_answer result \<times> smtp_session \<times> ustr list \<times> smtp_world" where
  "handle_RCPT E S s address rcpt_tos w =
     (case ensure_session_id E s of (sid, s1) \<Rightarrow>
       (case enter_hook E S (Some (e_text E address)) sid s1 w of
          (Inl e, w1) \<Rightarrow> (Inl e, s1, rcpt_tos, w1)
        | (Inr (Some a), w1) \<Rightarrow> (Inr a, s1, rcpt_tos, w1)
        | (Inr None, w1) \<Rightarrow>
            (case rcpt_body E S s1 sid address rcpt_tos w1 of
               (Inr a, rcpts, w2) \<Rightarrow> (Inr a, s1, rcpts, w2)
             | (Inl e, rcpts, w2) \<Rightarrow> (Inl e, s1, rcpts, on_error E sid ''RCPT handling error'' w2))))"

text \<open>\<open>_effective_message_size_limit\<close>: every domain counts once.\<close>

fun size_limit_loop :: "unicode \<Rightarrow> domain_matcher \<Rightarrow> (int \<rightharpoonup> int) \<Rightarrow> int list \<Rightarrow> int \<Rightarrow> ustr list \<Rightarrow> int" where
  "size_limit_loop U M sizes seen lmt [] = lmt"
| "size_limit_loop U M sizes seen lmt (r # rs) =
     (case match_address U M r of
        None \<Rightarrow> size_limit_loop U M sizes seen lmt rs
      | Some m \<Rightarrow>
          if match_domain_id m \<in> set seen then size_limit_loop U M sizes seen lmt rs
          else size_limit_loop U M sizes (match_domain_id m # seen)
                 (case sizes (match_domain_id m) of None \<Rightarrow> lmt | Some d \<Rightarrow> min lmt d) rs)"

definition effective_message_size_limit :: "smtp_env \<Rightarrow> smtp_settings \<Rightarrow> ustr list \<Rightarrow> smtp_world \<Rightarrow> int" where
  "effective_message_size_limit E S rcpt_tos w =
     size_limit_loop (env_unicode (e_accept E)) (rt_routing (w_rt w)) (w_sizes w) [] (max_message_bytes S) rcpt_tos"

definition queued_event :: "smtp_env \<Rightarrow> smtp_session \<Rightarrow> string \<Rightarrow> string option \<Rightarrow> nat \<Rightarrow> string \<Rightarrow> event" where
  "queued_event E s sid from n mid =
     session_event E s sid
       [(''type'', PyStr ''queued''), (''mail_from'', opt_text from), (''rcpt_count'', PyInt (int n)),
        (''message_id'', PyStr mid), (''state'', PyStr ''queued'')]"

definition handle_DATA ::
  "smtp_env \<Rightarrow> smtp_settings \<Rightarrow> smtp_session \<Rightarrow> string option \<Rightarrow> ustr list \<Rightarrow> nat list \<Rightarrow> smtp_world
     \<Rightarrow> smtp_answer result \<times> smtp_session \<times> smtp_world" where
  "handle_DATA E S s from rcpt_tos content w =
     (case ensure_session_id E s of (sid, s1) \<Rightarrow>
       (case enter_hook E S None sid s1 w of
          (Inl e, w1) \<Rightarrow> (Inl e, s1, w1)
        | (Inr (Some a), w1) \<Rightarrow> (Inr a, s1, w1)
        | (Inr None, w1) \<Rightarrow>
            if rcpt_tos = [] then (Inr (Answer 554 ''no valid recipients''), s1, w1)
            else if max_recipients S < int (length rcpt_tos) then (Inr (Answer 552 ''too many recipients''), s1, w1)
            else if effective_message_size_limit E S rcpt_tos w1 < int (length content)
            then (Inr (Answer 552 ''message too large''), s1, w1)
            else
              (case accept_message (e_accept E) (e_between E) rcpt_tos from content (Some sid) (w_rt w1) of
                 (Inl e, rt) \<Rightarrow> (Inl e, s1, on_error E sid ''DATA handling error'' (w1\<lparr>w_rt := rt\<rparr>))
               | (Inr PolicyChanged451, rt) \<Rightarrow>
                   (Inr (Answer 451 ''recipient policy changed; retry later''), s1, w1\<lparr>w_rt := rt\<rparr>)
               | (Inr (Queued250 mid), rt) \<Rightarrow>
                   let w2 = publish_session_event E sid (queued_event E s1 sid from (length rcpt_tos) mid) (w1\<lparr>w_rt := rt\<rparr>)
                   in (Inr (QueuedAs mid), s1, w2\<lparr>w_closing := w_closing w2 \<or> smtp_close_after_data S\<rparr>))))"

definition handle_QUIT ::
  "smtp_env \<Rightarrow> smtp_session \<Rightarrow> smtp_world \<Rightarrow> smtp_answer \<times> smtp_session \<times> smtp_world" where
  "handle_QUIT E s w =
     (case ensure_session_id E s of (sid, s1) \<Rightarrow>
       (Answer 221 ''2.0.0 Bye'', s1,
        case close_smtp_session E sid ''closed'' (Some ''client quit'') (Some 221) (Some ''2.0.0 Bye'') w of
          (Inl _, w1) \<Rightarrow> w1
        | (Inr _, w1) \<Rightarrow> publish_session_event E sid
            (session_event E s1 sid [(''state'', PyStr ''disconnect''), (''type'', PyStr ''disconnect''),
              (''result_code'', PyInt 221), (''result_message'', PyStr ''2.0.0 Bye'')]) w1))"

text \<open>\<open>handle_DISCONNECT\<close>; \<open>error\<close> is the name of the class of the exception.\<close>

definition handle_DISCONNECT ::
  "smtp_env \<Rightarrow> string option \<Rightarrow> smtp_session \<Rightarrow> smtp_world \<Rightarrow> unit result \<times> smtp_world" where
  "handle_DISCONNECT E error s w =
     (case se_id s of
        None \<Rightarrow> (Inr (), w)
      | Some sid \<Rightarrow>
          let status = (if error = None then ''closed'' else ''error'');
              reason = (case error of None \<Rightarrow> ''connection lost'' | Some c \<Rightarrow> ''connection lost: '' @ c);
              was_active = fst (release_smtp_connection sid (w_limits w));
              w1 = w\<lparr>w_limits := snd (release_smtp_connection sid (w_limits w))\<rparr>
          in case e_fails E CloseSession of
               Some e \<Rightarrow> (Inl e, w1)
             | None \<Rightarrow>
                 (case lost_session_rows sid s (e_now E) status reason was_active (rt_db (w_rt w1)) of (n, db) \<Rightarrow>
                    let w2 = w1\<lparr>w_rt := (w_rt w1)\<lparr>rt_db := db\<rparr>\<rparr>
                    in (Inr (), if n = 0 then w2
                        else publish_session_event E sid
                          (session_event E s sid [(''state'', PyStr ''disconnect''), (''type'', PyStr ''disconnect''),
                            (''close_reason'', PyStr reason)]) w2)))"

section \<open>What the hooks leave alone\<close>

text \<open>The mail tables, the files, the queue and the routing.\<close>

definition same_mail :: "smtp_world \<Rightarrow> smtp_world \<Rightarrow> bool" where
  "same_mail w w' \<longleftrightarrow> mail (rt_db (w_rt w')) = mail (rt_db (w_rt w)) \<and> rt_files (w_rt w') = rt_files (w_rt w)
     \<and> rt_queue (w_rt w') = rt_queue (w_rt w) \<and> rt_routing (w_rt w') = rt_routing (w_rt w) \<and> w_sizes w' = w_sizes w"

lemma same_mail_refl [simp]: "same_mail w w"
  by (simp add: same_mail_def)

lemma same_mail_trans: "same_mail w1 w2 \<Longrightarrow> same_mail w2 w3 \<Longrightarrow> same_mail w1 w3"
  by (simp add: same_mail_def)

lemma mail_writes [simp]:
  "mail (ensure_smtp_session sid s now rcpt db) = mail db"
  "mail (update_smtp_session_summary sid now c db) = mail db"
  "mail (increment_mail_metric now n1 n2 n3 n4 db) = mail db"
  "mail (record_smtp_rcpt sid now x accepted db) = mail db"
  "mail (close_session_row sid now status reason code message db) = mail db"
  by (simp_all add: ensure_smtp_session_def upsert_session_def record_smtp_rcpt_def close_session_row_def
      update_smtp_session_summary_def increment_mail_metric_def Let_def)

lemma write_db_same: "(\<And>db. mail (f db) = mail db) \<Longrightarrow> same_mail w (snd (write_db E k f w))"
  by (auto simp: write_db_def same_mail_def split: option.splits)

lemma publish_same: "same_mail w (publish_session_event E sid ev w)"
  by (auto simp: publish_session_event_def record_smtp_event_def same_mail_def Let_def split: option.splits sum.splits if_splits)

lemma enter_hook_same: "same_mail w (snd (enter_hook E S rcpt sid s w))"
proof -
  obtain r l where r: "register_smtp_connection (connection_limits S) (e_clock E) sid (peer_ip s) (w_limits w) = (r, l)"
    by (cases "register_smtp_connection (connection_limits S) (e_clock E) sid (peer_ip s) (w_limits w)")
  let ?w = "w\<lparr>w_limits := l\<rparr>"
  obtain ok reason where r': "r = (ok, reason)" by (cases r)
  have "same_mail w ?w" by (simp add: same_mail_def)
  moreover have "same_mail ?w (snd (write_db E EnsureSession (ensure_smtp_session sid s (e_now E) rcpt) ?w))" by (rule write_db_same) simp
  ultimately show ?thesis
    using same_mail_trans
    by (cases ok) (auto simp: enter_hook_def ensure_session_allowed_def r r' split: prod.splits sum.splits)
qed

lemma answer_rcpt_same: "same_mail w (snd (answer_rcpt E s sid rcpt accepted reason a w))"
proof -
  obtain r w1 where r: "write_db E RecordRcpt (record_smtp_rcpt sid (e_now E) rcpt accepted) w = (r, w1)"
    by (cases "write_db E RecordRcpt (record_smtp_rcpt sid (e_now E) rcpt accepted) w")
  have "same_mail w w1" using write_db_same [of "record_smtp_rcpt sid (e_now E) rcpt accepted" w E RecordRcpt] r by simp
  then show ?thesis using publish_same same_mail_trans by (cases r) (auto simp: answer_rcpt_def r)
qed

lemma answer_rcpt_answer: "fst (answer_rcpt E s sid rcpt accepted reason a w) = Inr b \<Longrightarrow> b = a"
  by (auto simp: answer_rcpt_def split: prod.splits sum.splits)

lemma on_error_same: "same_mail w (on_error E sid reason w)"
proof -
  obtain r w1 where r: "write_db E CloseSession (close_session_row sid (e_now E) ''error'' (Some reason) None None) w = (r, w1)"
    by (cases "write_db E CloseSession (close_session_row sid (e_now E) ''error'' (Some reason) None None) w")
  have "same_mail w w1" using write_db_same [of "close_session_row sid (e_now E) ''error'' (Some reason) None None" w E CloseSession] r by simp
  then show ?thesis by (cases r) (auto simp: on_error_def close_smtp_session_def r same_mail_def)
qed

section \<open>The envelope\<close>

text \<open>What one call of \<open>handle_RCPT\<close> does to the recipients.\<close>

definition rcpt_outcome :: "smtp_env \<Rightarrow> smtp_settings \<Rightarrow> ustr \<Rightarrow> ustr list \<Rightarrow> domain_matcher \<Rightarrow> smtp_answer \<Rightarrow> ustr list \<Rightarrow> bool" where
  "rcpt_outcome E S address rcpts M b rcpts' \<longleftrightarrow>
     (address \<in> set rcpts \<and> b = Answer 250 ''OK'' \<and> rcpts' = rcpts)
     \<or> (address \<notin> set rcpts \<and> match_address (env_unicode (e_accept E)) M address = None \<and> b = Answer 550 ''domain not allowed'' \<and> rcpts' = rcpts)
     \<or> (address \<notin> set rcpts \<and> match_address (env_unicode (e_accept E)) M address \<noteq> None
        \<and> max_recipients S \<le> int (length rcpts) \<and> b = Answer 552 ''too many recipients'' \<and> rcpts' = rcpts)
     \<or> (address \<notin> set rcpts \<and> match_address (env_unicode (e_accept E)) M address \<noteq> None
        \<and> int (length rcpts) < max_recipients S \<and> b = Answer 250 ''OK'' \<and> rcpts' = rcpts @ [address])"

lemma rcpt_body_outcome:
  assumes "rcpt_body E S s sid address rcpts w = (a, rcpts', w')"
  obtains accepted reason b where "answer_rcpt E s sid (e_text E address) accepted reason b w = (a, w')"
    "rcpt_outcome E S address rcpts (rt_routing (w_rt w)) b rcpts'"
proof -
  consider "address \<in> set rcpts"
    | "address \<notin> set rcpts" "match_address (env_unicode (e_accept E)) (rt_routing (w_rt w)) address = None"
    | "address \<notin> set rcpts" "match_address (env_unicode (e_accept E)) (rt_routing (w_rt w)) address \<noteq> None"
      "max_recipients S \<le> int (length rcpts)"
    | "address \<notin> set rcpts" "match_address (env_unicode (e_accept E)) (rt_routing (w_rt w)) address \<noteq> None"
      "\<not> max_recipients S \<le> int (length rcpts)" by blast
  then show thesis
  proof cases
    case 1
    then show thesis
      using that [of True None "Answer 250 ''OK''"] assms by (auto simp: rcpt_body_def rcpt_outcome_def Let_def split: prod.splits)
  next
    case 2
    then show thesis
      using that [of False None "Answer 550 ''domain not allowed''"] assms
      by (auto simp: rcpt_body_def rcpt_outcome_def Let_def split: prod.splits)
  next
    case 3
    then show thesis
      using that [of False "Some ''recipient limit exceeded''" "Answer 552 ''too many recipients''"] assms
      by (auto simp: rcpt_body_def rcpt_outcome_def Let_def split: prod.splits)
  next
    case 4
    then show thesis
      using that [of True None "Answer 250 ''OK''"] assms by (auto simp: rcpt_body_def rcpt_outcome_def Let_def split: prod.splits)
  qed
qed

lemma handle_RCPT_cases:
  assumes "handle_RCPT E S s address rcpts w = (a, s', rcpts', w')"
  shows "same_mail w w'"
    and "rcpts' = rcpts \<and> (\<exists>t. a = Inr (Answer 421 t)) \<or> rcpts' = rcpts \<and> (\<exists>e. a = Inl e)
      \<or> (\<exists>b. rcpt_outcome E S address rcpts (rt_routing (w_rt w)) b rcpts' \<and> (a = Inr b \<or> (\<exists>e. a = Inl e)))"
proof -
  obtain sid s1 where sid: "ensure_session_id E s = (sid, s1)" by (cases "ensure_session_id E s")
  obtain r w1 where r: "enter_hook E S (Some (e_text E address)) sid s1 w = (r, w1)"
    by (cases "enter_hook E S (Some (e_text E address)) sid s1 w")
  have m1: "same_mail w w1" using enter_hook_same [of w E S "Some (e_text E address)" sid s1] r by simp
  note h = assms [unfolded handle_RCPT_def sid prod.case r]
  have "same_mail w w' \<and> (rcpts' = rcpts \<and> (\<exists>t. a = Inr (Answer 421 t)) \<or> rcpts' = rcpts \<and> (\<exists>e. a = Inl e)
      \<or> (\<exists>b. rcpt_outcome E S address rcpts (rt_routing (w_rt w)) b rcpts' \<and> (a = Inr b \<or> (\<exists>e. a = Inl e))))"
  proof (cases r)
    case (Inl e)
    then show ?thesis using h m1 by auto
  next
    case (Inr x)
    show ?thesis
    proof (cases x)
      case (Some b)
      then have "\<exists>t. b = Answer 421 t"
        using r Inr by (auto simp: enter_hook_def ensure_session_allowed_def split: prod.splits bool.splits sum.splits)
      then show ?thesis using h m1 Inr Some by auto
    next
      case None
      obtain a2 rcpts2 w2 where b: "rcpt_body E S s1 sid address rcpts w1 = (a2, rcpts2, w2)"
        by (cases "rcpt_body E S s1 sid address rcpts w1")
      from b show ?thesis
      proof (rule rcpt_body_outcome)
        fix accepted reason c
        assume an: "answer_rcpt E s1 sid (e_text E address) accepted reason c w1 = (a2, w2)"
          and out: "rcpt_outcome E S address rcpts (rt_routing (w_rt w1)) c rcpts2"
        have m2: "same_mail w w2"
          using same_mail_trans [OF m1 answer_rcpt_same [of w1 E s1 sid "e_text E address" accepted reason c]] an by simp
        have rt: "rt_routing (w_rt w1) = rt_routing (w_rt w)" using m1 by (simp add: same_mail_def)
        have a2: "a2 = Inr b2 \<Longrightarrow> b2 = c" for b2 using answer_rcpt_answer an by (metis fst_conv)
        show ?thesis
          using h Inr None b out rt m2 a2 same_mail_trans [OF m2 on_error_same [of w2 E sid "''RCPT handling error''"]]
          by (cases a2) auto
      qed
    qed
  qed
  then show "same_mail w w'"
    "rcpts' = rcpts \<and> (\<exists>t. a = Inr (Answer 421 t)) \<or> rcpts' = rcpts \<and> (\<exists>e. a = Inl e)
      \<or> (\<exists>b. rcpt_outcome E S address rcpts (rt_routing (w_rt w)) b rcpts' \<and> (a = Inr b \<or> (\<exists>e. a = Inl e)))" by blast+
qed

section \<open>Dialogues\<close>

text \<open>Calls of \<open>handle_RCPT\<close> for one envelope; before each, other tasks change the world.\<close>

record rcpt_call =
  rc_env :: smtp_env
  rc_settings :: smtp_settings
  rc_address :: ustr
  rc_before :: "smtp_world \<Rightarrow> smtp_world"

record transcript_line =
  tl_call :: rcpt_call
  tl_routing :: domain_matcher
  tl_answer :: "smtp_answer result"

fun rcpt_dialogue ::
  "rcpt_call list \<Rightarrow> smtp_session \<Rightarrow> ustr list \<Rightarrow> smtp_world
     \<Rightarrow> transcript_line list \<times> smtp_session \<times> ustr list \<times> smtp_world" where
  "rcpt_dialogue [] s rcpts w = ([], s, rcpts, w)"
| "rcpt_dialogue (c # cs) s rcpts w =
     (let w0 = rc_before c w in
      case handle_RCPT (rc_env c) (rc_settings c) s (rc_address c) rcpts w0 of (a, s1, rcpts1, w1) \<Rightarrow>
        (case rcpt_dialogue cs s1 rcpts1 w1 of (ls, s2, rcpts2, w2) \<Rightarrow>
           (\<lparr>tl_call = c, tl_routing = rt_routing (w_rt w0), tl_answer = a\<rparr> # ls, s2, rcpts2, w2)))"

definition admitted :: "transcript_line list \<Rightarrow> ustr \<Rightarrow> bool" where
  "admitted ls r \<longleftrightarrow> (\<exists>l \<in> set ls. rc_address (tl_call l) = r
     \<and> match_address (env_unicode (e_accept (rc_env (tl_call l)))) (tl_routing l) r \<noteq> None
     \<and> (tl_answer l = Inr (Answer 250 ''OK'') \<or> (\<exists>e. tl_answer l = Inl e)))"

lemma dialogue_admits:
  assumes "rcpt_dialogue calls s rcpts w = (ls, s', rcpts', w')" and "distinct rcpts"
  shows "distinct rcpts' \<and> (\<forall>r \<in> set rcpts'. r \<in> set rcpts \<or> admitted ls r)"
  using assms
proof (induction calls arbitrary: s rcpts w ls)
  case (Cons c cs)
  let ?w0 = "rc_before c w"
  obtain a s1 rcpts1 w1 where h: "handle_RCPT (rc_env c) (rc_settings c) s (rc_address c) rcpts ?w0 = (a, s1, rcpts1, w1)"
    by (cases "handle_RCPT (rc_env c) (rc_settings c) s (rc_address c) rcpts ?w0")
  obtain ls1 s2 rcpts2 w2 where d: "rcpt_dialogue cs s1 rcpts1 w1 = (ls1, s2, rcpts2, w2)" by (cases "rcpt_dialogue cs s1 rcpts1 w1")
  let ?l = "\<lparr>tl_call = c, tl_routing = rt_routing (w_rt ?w0), tl_answer = a\<rparr>"
  have ls: "ls = ?l # ls1" "rcpts' = rcpts2" "s' = s2" "w' = w2" using Cons.prems(1) h d by (simp_all add: Let_def)
  have new: "distinct rcpts1 \<and> (\<forall>r \<in> set rcpts1. r \<in> set rcpts \<or> admitted [?l] r)"
    using handle_RCPT_cases(2) [OF h] Cons.prems(2) by (auto simp: rcpt_outcome_def admitted_def)
  then have "distinct rcpts2 \<and> (\<forall>r \<in> set rcpts2. r \<in> set rcpts1 \<or> admitted ls1 r)"
    using Cons.IH [of s1 rcpts1 w1 ls1] d ls(2-) by blast
  moreover have "admitted [?l] r \<or> admitted ls1 r \<Longrightarrow> admitted ls r" for r by (auto simp: ls(1) admitted_def)
  ultimately show ?case using new ls(2) by blast
qed simp

text \<open>The limit of a message is the least of the limits that concern it.\<close>

lemma size_limit_le: "size_limit_loop U M sizes seen lmt rs \<le> lmt"
  by (induction U M sizes seen lmt rs rule: size_limit_loop.induct) (fastforce split: option.splits)+

lemma size_limit_domain:
  assumes "r \<in> set rs" "match_address U M r = Some m" "sizes (match_domain_id m) = Some d" "match_domain_id m \<notin> set seen"
  shows "size_limit_loop U M sizes seen lmt rs \<le> d"
  using assms
proof (induction rs arbitrary: seen lmt)
  case (Cons x rs)
  show ?case
  proof (cases "match_address U M x")
    case None
    then show ?thesis using Cons.IH [of seen lmt] Cons.prems by auto
  next
    case (Some n)
    show ?thesis
    proof (cases "match_domain_id n = match_domain_id m")
      case True
      then have "size_limit_loop U M sizes seen lmt (x # rs) = size_limit_loop U M sizes (match_domain_id m # seen) (min lmt d) rs"
        using Some Cons.prems(3,4) by simp
      then show ?thesis using size_limit_le [of U M sizes "match_domain_id m # seen" "min lmt d" rs] by simp
    next
      case False
      then have "r \<in> set rs" using Cons.prems(1,2) Some by auto
      then show ?thesis using False Some Cons.IH Cons.prems(2-4) by simp
    qed
  qed
qed simp

lemma handle_DATA_queued:
  assumes "handle_DATA E S s from rcpts content w = (Inr (QueuedAs mid), s', w')"
  obtains sid w1 rt where "same_mail w w1" "se_id s' = Some sid"
    "rcpts \<noteq> []" "int (length rcpts) \<le> max_recipients S" "int (length content) \<le> effective_message_size_limit E S rcpts w1"
    "accept_message (e_accept E) (e_between E) rcpts from content (Some sid) (w_rt w1) = (Inr (Queued250 mid), rt)"
    "same_mail (w1\<lparr>w_rt := rt\<rparr>) w'"
proof -
  obtain sid s1 where sid: "ensure_session_id E s = (sid, s1)" by (cases "ensure_session_id E s")
  obtain r w1 where r: "enter_hook E S None sid s1 w = (r, w1)" by (cases "enter_hook E S None sid s1 w")
  have m1: "same_mail w w1" using enter_hook_same [of w E S None sid s1] r by simp
  note h = assms [unfolded handle_DATA_def sid prod.case r]
  have no: "b \<noteq> QueuedAs mid" if "r = Inr (Some b)" for b
    using r that by (auto simp: enter_hook_def ensure_session_allowed_def split: prod.splits bool.splits sum.splits)
  have r': "r = Inr None" using h no by (cases r) (auto split: option.splits)
  obtain acc rt where acc: "accept_message (e_accept E) (e_between E) rcpts from content (Some sid) (w_rt w1) = (acc, rt)"
    by (cases "accept_message (e_accept E) (e_between E) rcpts from content (Some sid) (w_rt w1)")
  have g: "rcpts \<noteq> []" "int (length rcpts) \<le> max_recipients S" "int (length content) \<le> effective_message_size_limit E S rcpts w1"
    using h r' by (auto split: if_splits)
  have acc': "acc = Inr (Queued250 mid)" and s': "s' = s1"
    and w': "same_mail (w1\<lparr>w_rt := rt\<rparr>) w'"
    using h r' g acc publish_same [of "w1\<lparr>w_rt := rt\<rparr>" E sid "queued_event E s1 sid from (length rcpts) mid"]
    by (auto simp: Let_def same_mail_def split: if_splits sum.splits smtp_reply.splits)
  have "se_id s1 = Some sid" using sid by (auto simp: ensure_session_id_def Let_def split: option.splits)
  then show thesis using that m1 g acc acc' w' s' by blast
qed

text \<open>Whatever fails, a lost connection gives its slot back.\<close>

lemma disconnect_releases:
  assumes "se_id s = Some sid"
  shows "map_of (active_connections (w_limits (snd (handle_DISCONNECT E error s w)))) sid = None"
proof -
  have p: "w_limits (publish_session_event E sid ev x) = w_limits x" for ev x
    by (auto simp: publish_session_event_def record_smtp_event_def Let_def split: option.splits sum.splits if_splits)
  have "map_of (active_connections (snd (release_smtp_connection sid (w_limits w)))) sid = None"
    by (simp add: release_smtp_connection_def map_of_pop)
  then show ?thesis
    using assms by (auto simp: handle_DISCONNECT_def Let_def p split: option.splits prod.splits)
qed

section \<open>Property\<close>

text \<open>
  C40: an acknowledged message was sent to recipients the server admitted. When \<open>DATA\<close> is answered
  with 250 after any dialogue, with settings, routing and other tasks changing the world between
  the calls, the envelope has at least one and at most the allowed number of recipients, none
  twice; each of them was routable when its \<open>RCPT\<close> was handled, and that call was answered with 250
  or raised; the message is within the global limit and the limit of every recipient's domain; and
  the mail tables, files and queue are those acceptance of this message leaves.
\<close>

theorem smtp_transaction_sound:
  assumes "rcpt_dialogue calls s [] w = (ls, s1, rcpts, w1)"
    and "handle_DATA E S s1 from rcpts content (before w1) = (Inr (QueuedAs mid), s2, w2)"
  shows "rcpts \<noteq> [] \<and> distinct rcpts \<and> int (length rcpts) \<le> max_recipients S \<and> (\<forall>r \<in> set rcpts. admitted ls r)
     \<and> int (length content) \<le> max_message_bytes S
     \<and> (\<forall>r \<in> set rcpts. \<forall>m d. match_address (env_unicode (e_accept E)) (rt_routing (w_rt (before w1))) r = Some m \<longrightarrow>
          w_sizes (before w1) (match_domain_id m) = Some d \<longrightarrow> int (length content) \<le> d)
     \<and> (\<exists>sid w3 rt. se_id s2 = Some sid \<and> same_mail (before w1) w3
          \<and> accept_message (e_accept E) (e_between E) rcpts from content (Some sid) (w_rt w3) = (Inr (Queued250 mid), rt)
          \<and> same_mail (w3\<lparr>w_rt := rt\<rparr>) w2)"
  using assms(2)
proof (rule handle_DATA_queued)
  fix sid w3 rt
  assume h: "same_mail (before w1) w3" "se_id s2 = Some sid" "rcpts \<noteq> []" "int (length rcpts) \<le> max_recipients S"
    "int (length content) \<le> effective_message_size_limit E S rcpts w3"
    "accept_message (e_accept E) (e_between E) rcpts from content (Some sid) (w_rt w3) = (Inr (Queued250 mid), rt)"
    "same_mail (w3\<lparr>w_rt := rt\<rparr>) w2"
  have "distinct rcpts" "\<forall>r \<in> set rcpts. admitted ls r" using dialogue_admits [OF assms(1)] by auto
  moreover have e: "effective_message_size_limit E S rcpts w3 = size_limit_loop (env_unicode (e_accept E)) (rt_routing (w_rt (before w1)))
      (w_sizes (before w1)) [] (max_message_bytes S) rcpts"
    using h(1) by (simp add: effective_message_size_limit_def same_mail_def)
  moreover have "int (length content) \<le> max_message_bytes S" using h(5) e size_limit_le order_trans by metis
  moreover have "int (length content) \<le> d"
    if "r \<in> set rcpts" "match_address (env_unicode (e_accept E)) (rt_routing (w_rt (before w1))) r = Some m"
      "w_sizes (before w1) (match_domain_id m) = Some d" for r m d
    using size_limit_domain [where sizes = "w_sizes (before w1)" and lmt = "max_message_bytes S" and seen = "[]", OF that] h(5) e by simp
  ultimately show ?thesis using h by blast
qed

section \<open>Witness\<close>

definition ex_smtp_env :: smtp_env where
  "ex_smtp_env = \<lparr>e_now = ''2024-03-22T15:59:59Z'', e_clock = 0, e_uuid = ''1'', e_fails = (\<lambda>_. None),
     e_text = (\<lambda>_. ''rcpt''), e_accept = ex_env, e_between = id\<rparr>"

definition ex_smtp_settings :: smtp_settings where
  "ex_smtp_settings = \<lparr>connection_limits = ex_limits, max_recipients_per_message = 2, max_message_bytes = 100, smtp_close_after_data = True\<rparr>"

definition ex_world :: smtp_world where
  "ex_world = \<lparr>w_limits = connection_limiter_init, w_rt = ex_runtime, w_sizes = [1 \<mapsto> 50], w_live = live_state_init 10 ''g'',
     w_events = [], w_closing = False\<rparr>"

definition ex_session :: smtp_session where
  "ex_session = \<lparr>se_id = None, se_ip = Some ''10.0.0.7'', se_port = Some 25, se_helo = None, se_tls = False\<rparr>"

definition ex_call :: "string \<Rightarrow> rcpt_call" where
  "ex_call a = \<lparr>rc_env = ex_smtp_env, rc_settings = ex_smtp_settings, rc_address = u a, rc_before = id\<rparr>"

definition ex_dialogue :: "transcript_line list \<times> smtp_session \<times> ustr list \<times> smtp_world" where
  "ex_dialogue = rcpt_dialogue [ex_call ''@'', ex_call ''b+x@d.co''] ex_session [] ex_world"

definition ex_data :: "smtp_answer result \<times> smtp_session \<times> smtp_world" where
  "ex_data = handle_DATA ex_smtp_env ex_smtp_settings (fst (snd ex_dialogue)) None (fst (snd (snd ex_dialogue))) [1, 2, 3] (snd (snd (snd ex_dialogue)))"

lemma ex_data_answer: "fst ex_data = Inr (QueuedAs ''n'')"
  by code_simp

lemma ex_dialogue_run:
  "rcpt_dialogue [ex_call ''@'', ex_call ''b+x@d.co''] ex_session [] ex_world
     = (fst ex_dialogue, fst (snd ex_dialogue), fst (snd (snd ex_dialogue)), snd (snd (snd ex_dialogue)))"
  unfolding prod.collapse by (rule ex_dialogue_def [symmetric])

lemma ex_data_run:
  "handle_DATA ex_smtp_env ex_smtp_settings (fst (snd ex_dialogue)) None (fst (snd (snd ex_dialogue))) [1, 2, 3] (id (snd (snd (snd ex_dialogue))))
     = (Inr (QueuedAs ''n''), fst (snd ex_data), snd (snd ex_data))"
  unfolding ex_data_answer [symmetric] prod.collapse id_apply by (rule ex_data_def [symmetric])

theorem smtp_transaction_sound_witness:
  "distinct (fst (snd (snd ex_dialogue))) \<and> fst (snd (snd ex_dialogue)) \<noteq> [] \<and> fst ex_data = Inr (QueuedAs ''n'')"
  using smtp_transaction_sound [where before = id, OF ex_dialogue_run ex_data_run] ex_data_answer by (simp only: simp_thms)

end
