(* ===== verification/Spec2Isabelle.thy ===== *)
theory Spec2Isabelle
  imports Db_Writer Live_State Mail_Control Pool_Safety Cleanup Runtime_Settings Key_Caches Admin_Sessions Smtp_Handler
begin

text \<open>
  Rapid Inbox (\<^verbatim>\<open>src/app\<close>) is a self-hosted inbox for inbound mail: an SMTP server accepts messages
  for configured domains, stores them as files and as rows of an SQLite database, parses them in the
  background, serves them over HTTP to holders of API keys and to administrators, and deletes them when
  their retention ends. This development models the Python program's own logic and proves what makes
  it correct.

  \<^bold>\<open>How the parts interact.\<close> The handler (\<^verbatim>\<open>smtp/handler.py\<close>) asks the runtime
  (\<^verbatim>\<open>runtime.py\<close>) whether a connection is within the limits, routes each recipient through the domain
  matcher (\<^verbatim>\<open>smtp/matcher.py\<close>) and gives the message to \<open>accept_message\<close>, which passes the
  maintenance gate, writes two files, commits one transaction through the database writer
  (\<^verbatim>\<open>db/writer.py\<close>) and puts a task into the parse queue (\<^verbatim>\<open>ingest/queue.py\<close>). Retention,
  file collection and the artifact sweep run behind the gate's other side. HTTP requests are
  authenticated by the API keys (\<^verbatim>\<open>auth/api_keys.py\<close>) or administrator sessions
  (\<^verbatim>\<open>auth/sessions.py\<close>), authorised by \<^verbatim>\<open>auth/permissions.py\<close> and answered through the read
  pool (\<^verbatim>\<open>db/read_pool.py\<close>). Everything takes its limits from \<^verbatim>\<open>config.py\<close> and
  \<^verbatim>\<open>services/settings.py\<close>.

  \<^bold>\<open>Theories and sources.\<close>
  \<^item> \<open>Prelude\<close>: results of fallible code (\<open>exn + 'a\<close>, composed by \<open>bindR\<close>), Python text as code
    points, generic lemmas, and the locale \<open>step_system\<close> of transition systems with an invariant.
    \<open>Ordered_Dict\<close>: \<open>OrderedDict\<close>, and windows of times that follow, or never exceed, a complete log.
  \<^item> \<open>Mail_Matcher\<close> (\<^verbatim>\<open>smtp/matcher.py\<close>): domains, addresses and rule selection, equal to a
    linear scan over the rules.
  \<^item> \<open>Parse_Queue\<close> (\<^verbatim>\<open>ingest/queue.py\<close>): the queue as a step relation whose events are the code between
    two awaits; reservations are exact and within budget.
  \<^item> \<open>Permissions\<close> (\<^verbatim>\<open>auth/permissions.py\<close>): scopes, roles, containment of policies and the access
    check; containment composes along chains and is sound for access.
  \<^item> \<open>Admission\<close>, \<open>Db_Writer\<close> (\<^verbatim>\<open>db/writer.py\<close>) and \<open>Read_Pool\<close>, \<open>Pool_Safety\<close>
    (\<^verbatim>\<open>db/read_pool.py\<close>): both actors share a bounded admission protocol, whose lemmas are proved once in
    the locale \<open>admission_accounting\<close> and interpreted on each actor. Every locked section, callback and
    worker action is one step; the theorems hold for all interleavings: capacity, one answer per request,
    drain before stop, exclusive pauses, and a step-by-step refinement of an abstract contract.
  \<^item> \<open>Live_State\<close> (\<^verbatim>\<open>smtp/live_state.py\<close>, \<^verbatim>\<open>http/live.py\<close>): the ring of events and the stream.
  \<^item> \<open>Timestamps\<close> (\<^verbatim>\<open>ingest/storage.py\<close>): time texts and the calendar.
  \<^item> \<open>Mail_Store\<close> (\<^verbatim>\<open>services/domains.py\<close>, \<^verbatim>\<open>runtime.py\<close>, \<^verbatim>\<open>sqlite_schema.sql\<close>): the mail tables with their
    constraints as an invariant, routing in a transaction, promotion of mailbox ownership.
    \<open>Mail_Accept\<close>: \<open>accept_message\<close> with the failures of every read, write and removal.
    \<open>Mail_Control\<close>: the maintenance gate and the fair scan of pending messages.
  \<^item> \<open>Retention\<close>, \<open>Cleanup\<close>, \<open>Storage_Tree\<close>, \<open>File_Gc\<close>, \<open>Artifact_Sweep\<close> (\<^verbatim>\<open>runtime.py\<close>): the cleanup
    transaction and the operation around it, the storage directory as a tree with links, the queue of files
    to delete, and the walk for garbage with what protects a file.
  \<^item> \<open>Config\<close> (\<^verbatim>\<open>config.py\<close>) and \<open>Runtime_Settings\<close> (\<^verbatim>\<open>services/settings.py\<close>): reading, validation and
    live updates of the settings, against ranges written out independently of the code's tables.
  \<^item> \<open>Api_Keys\<close>, \<open>Api_Auth\<close> (\<^verbatim>\<open>auth/api_keys.py\<close>): the model; \<open>Key_Management\<close>, \<open>Key_Caches\<close>: the table
    invariant, the authority of the caller, the caches under all interleavings, the token bucket.
  \<^item> \<open>Admin_Auth\<close> (\<^verbatim>\<open>auth/sessions.py\<close>, \<^verbatim>\<open>auth/passwords.py\<close>): the model; \<open>Admin_Accounts\<close>,
    \<open>Admin_Sessions\<close>: a superadministrator remains, no call reaches above its caller, ended sessions stay
    ended, the login throttle against a complete log.
  \<^item> \<open>Smtp_Limits\<close>, \<open>Smtp_Handler\<close> (\<^verbatim>\<open>runtime.py\<close>, \<^verbatim>\<open>smtp/handler.py\<close>): the connection limits and the
    hooks of the handler with what they write and store.
  \<^item> this theory: the property that spans components, from the configuration to the constructors.

  \<^bold>\<open>Conventions.\<close> A record or map is the object's or the table's state, a definition per method or locked
  section takes the state and returns it; exceptions are values of \<open>exn\<close>. What the code takes from
  outside (clock, random values, SHA-256, PBKDF2, \<open>ipaddress\<close>, Unicode tables beyond ASCII, outcomes of SQLite
  and the file system, what other tasks do across an await) is an argument. Transactions are atomic; SQLite
  rolls a failed one back. Monotonic seconds are rationals where the code has floats.
  Recursion is structural or has a measure; there is no fuel, and the walk of \<open>Artifact_Sweep\<close> ends because the
  weight of what is left to visit falls. Bounds of the code, such as the number of keys a throttle remembers, appear
  in the theorems that need them.

  \<^bold>\<open>What the theorems do not hide.\<close> Where the code does not do what it means to, the model has that
  branch and a lemma or theorem shows it: a slot of the writer released twice, a failed reopen that closes the
  read pool, retention that deletes or miscounts a message moved meanwhile, retries of file collection that
  starve with batches of one, a credential assembled from two states of the tables, an SMTP recipient that
  stays in the envelope after an error, a connection limit removed by an update.

  \<^bold>\<open>Not modelled.\<close> The C++ SMTP daemon (\<^verbatim>\<open>src/cpp\<close>), tools and deployment; the HTTP layer
  (\<^verbatim>\<open>http/\<close> except the live stream, \<^verbatim>\<open>main.py\<close>), which validates, calls the services above and renders;
  the read-only services (messages, mailboxes, dashboard, audit listings, verification codes, attachments);
  observability; MIME parsing by the standard library (\<^verbatim>\<open>ingest/parser.py\<close>); recovery of messages from
  their manifests (\<^verbatim>\<open>ingest/recovery.py\<close>); the editing of domains and the rehome job of
  \<^verbatim>\<open>services/domains.py\<close>, whose concurrent effects are the arguments of acceptance and cleanup; migrations
  (\<^verbatim>\<open>db/connection.py\<close>); the clearing of all mail.
\<close>

section \<open>The configuration starts every component\<close>

text \<open>Every declared range belongs to an integer field of the settings.\<close>

lemma declared_ranges_fields:
  "list_all (\<lambda>(a, r). list_ex (\<lambda>(b, src). a = b \<and> (case src of IntField _ _ \<Rightarrow> True | _ \<Rightarrow> False)) settings_fields
     \<and> map_of declared_ranges a = Some r) declared_ranges"
  by code_simp

lemma declared_value:
  assumes "settings_declared L s" and "(a, r) \<in> set declared_ranges"
  shows "\<exists>n. s a = Some (PyInt n) \<and> in_range r n"
proof -
  have "list_ex (\<lambda>(b, src). a = b \<and> (case src of IntField _ _ \<Rightarrow> True | _ \<Rightarrow> False)) settings_fields
      \<and> map_of declared_ranges a = Some r"
    using declared_ranges_fields assms(2) by (auto simp: list_all_iff)
  then obtain src where f: "(a, src) \<in> set settings_fields" "case src of IntField _ _ \<Rightarrow> True | _ \<Rightarrow> False"
    and r: "map_of declared_ranges a = Some r" by (auto simp: list_ex_iff)
  have "field_declared s (a, src)" using assms(1) f(1) unfolding settings_declared_def list_all_iff by blast
  then show ?thesis
    using f(2) r by (cases src) (auto simp: field_declared_def split: option.splits pyval.splits)
qed

lemma declared_positive:
  assumes "settings_declared L s" and "(a, lo, hi) \<in> set declared_ranges"
  shows "lo \<le> int_attr s a"
  using declared_value [OF assms] by (cases hi) (auto simp: int_attr_def)

lemma component_ranges:
  "(''database_write_queue_capacity'', 1, Some 100000) \<in> set declared_ranges"
  "(''database_write_max_waiters'', 1, Some 100000) \<in> set declared_ranges"
  "(''database_read_pool_size'', 1, Some 256) \<in> set declared_ranges"
  "(''database_read_queue_capacity'', 1, Some 100000) \<in> set declared_ranges"
  "(''database_read_max_waiters'', 1, Some 100000) \<in> set declared_ranges"
  "(''database_read_timeout_seconds'', 1, Some 300) \<in> set declared_ranges"
  "(''parse_queue_max_messages'', 1, Some 1000000) \<in> set declared_ranges"
  "(''parse_queue_max_bytes'', 1, Some 1099511627776) \<in> set declared_ranges"
  "(''max_message_size_bytes'', 1, Some 1073741824) \<in> set declared_ranges"
  by (simp_all add: declared_ranges_def)

text \<open>
  C28: a configuration that is read from the environment and validated is one the program can run on.
  Each of the forty integers is inside the literal range the configuration documents, every other field has
  its type, the limits fit each other, and connections without a limit are allowed on a local SMTP address only.
  The three constructors the runtime calls with these values (the database writer, the read
  pool and the parse queue) therefore accept them, and the parse queue made from them takes the largest message
  the server accepts when it is idle.
\<close>

theorem default_settings_usable:
  assumes "default_settings L raw = Inr s"
  shows "settings_declared L s
    \<and> (\<forall>(a, r) \<in> set declared_ranges. \<exists>n. s a = Some (PyInt n) \<and> in_range r n)
    \<and> (\<exists>w. writer_init (int_attr s ''database_write_queue_capacity'') (int_attr s ''database_write_max_waiters'') = Inr w)
    \<and> (\<exists>p :: nat read_pool. pool_init (int_attr s ''database_read_pool_size'') (int_attr s ''database_read_queue_capacity'')
          (int_attr s ''database_read_max_waiters'') (of_int (int_attr s ''database_read_timeout_seconds'')) = Inr p)
    \<and> (\<exists>q. parse_queue_init (int_attr s ''parse_worker_count'') (int_attr s ''parse_queue_max_messages'')
            (int_attr s ''parse_queue_max_bytes'') = Inr q
          \<and> (\<forall>t. validate_task t = Inr () \<and> raw_size_bytes t \<le> int_attr s ''max_message_size_bytes'' \<longrightarrow>
              (\<exists>q'. try_enqueue q t = Inr (q', True))))"
proof -
  have d: "settings_declared L s" using assms by (rule default_settings_declared)
  note lo = component_ranges [THEN declared_positive [OF d]]
  have "int_attr s ''database_read_pool_size'' \<le> int_attr s ''database_read_queue_capacity''"
    "int_attr s ''max_message_size_bytes'' \<le> int_attr s ''parse_queue_max_bytes''"
    using d by (simp_all add: settings_declared_def)
  moreover have "0 < (of_int (int_attr s ''database_read_timeout_seconds'') :: rat)" using lo(6) by simp
  ultimately show ?thesis
    using d lo declared_value [OF d]
    by (auto simp: writer_init_def pool_init_def parse_queue_init_def try_enqueue_def has_capacity_def not_less)
qed

theorem default_settings_usable_witness:
  "\<exists>w. writer_init (int_attr ex_settings ''database_write_queue_capacity'') (int_attr ex_settings ''database_write_max_waiters'') = Inr w"
  using default_settings_usable [OF ex_settings_read] by blast

end
